(* ===== verification/Prelude.thy ===== *)
theory Prelude
  imports Complex_Main "HOL-Library.AList" "HOL-Library.Multiset" "HOL-Library.Word" "HOL-Library.Sublist"
begin

text \<open>
  Shared material of the development: the values of JavaScript's number type that are
  not finite reals, the insertion-ordered \<open>Map\<close> and \<open>Set\<close> of the
  language, the stable \<open>Array.prototype.sort\<close>, and generic list lemmas.
  Finite JavaScript numbers are modelled as exact reals (or integers where the code's
  schemas only admit integers); rounding of IEEE doubles is not modelled. Where a
  division can leave the finite numbers, its result is a \<open>jsnum\<close>, so that
  \<open>NaN\<close> and the infinities are values and not HOL's \<open>x / 0 = 0\<close>.
\<close>

named_theorems inv_intros "preservation of component invariants"
named_theorems frame_simps "fields an operation leaves alone"

section \<open>Numbers\<close>

datatype jsnum = NaN | NegInf | Fin real | Inf

text \<open>JavaScript's comparison: every comparison with \<open>NaN\<close> is false.\<close>

fun js_lt :: "jsnum \<Rightarrow> jsnum \<Rightarrow> bool" where
  "js_lt NaN _ = False"
| "js_lt _ NaN = False"
| "js_lt (Fin a) (Fin b) = (a < b)"
| "js_lt NegInf b = (b \<noteq> NegInf)"
| "js_lt (Fin _) Inf = True"
| "js_lt _ _ = False"

text \<open>JavaScript's \<open>/\<close> on finite numbers.\<close>

definition js_div :: "real \<Rightarrow> real \<Rightarrow> jsnum" where
  "js_div a b = (if b \<noteq> 0 then Fin (a / b)
     else if a = 0 then NaN else if 0 < a then Inf else NegInf)"

lemma js_div_Fin [simp]: "b \<noteq> 0 \<Longrightarrow> js_div a b = Fin (a / b)"
  by (simp add: js_div_def)

lemma js_lt_irrefl [simp]: "\<not> js_lt a a"
  by (cases a) auto

lemma js_lt_trans: "js_lt a b \<Longrightarrow> js_lt b c \<Longrightarrow> js_lt a c"
  by (cases a; cases b; cases c) auto

section \<open>Insertion-ordered maps and sets\<close>

text \<open>
  A JavaScript \<open>Map\<close> is the association list of its entries in insertion order:
  \<open>set\<close> on a present key keeps the entry's place (\<^const>\<open>AList.update\<close>), on a
  new key appends; \<open>delete\<close> is \<^const>\<open>AList.delete\<close>; \<open>get\<close> is
  \<^const>\<open>map_of\<close>. A \<open>Set\<close> is the list of its elements.
\<close>

type_synonym ('k, 'v) omap = "('k \<times> 'v) list"

abbreviation okeys :: "('k, 'v) omap \<Rightarrow> 'k list" where
  "okeys m \<equiv> map fst m"

abbreviation wf_omap :: "('k, 'v) omap \<Rightarrow> bool" where
  "wf_omap m \<equiv> distinct (okeys m)"

definition set_add :: "'a \<Rightarrow> 'a list \<Rightarrow> 'a list" where
  "set_add x xs = (if x \<in> set xs then xs else xs @ [x])"

lemma set_set_add [simp]: "set (set_add x xs) = insert x (set xs)"
  by (auto simp: set_add_def)

lemma distinct_set_add [simp]: "distinct (set_add x xs) = distinct xs"
  by (auto simp: set_add_def)

lemma omap_update_same [simp]: "map_of (AList.update k v m) k = Some v"
  by (simp add: update_conv')

lemma omap_update_other [simp]: "k \<noteq> k' \<Longrightarrow> map_of (AList.update k v m) k' = map_of m k'"
  by (simp add: update_conv')

lemma omap_delete_same [simp]: "map_of (AList.delete k m) k = None"
  by (simp add: delete_conv')

lemma omap_delete_other [simp]: "k \<noteq> k' \<Longrightarrow> map_of (AList.delete k m) k' = map_of m k'"
  by (simp add: delete_conv')

lemma okeys_delete [simp]: "okeys (AList.delete k m) = filter (\<lambda>k'. k' \<noteq> k) (okeys m)"
  by (induction m) (auto simp: AList.delete_eq)

lemma update_absent: "k \<notin> set (okeys m) \<Longrightarrow> AList.update k v m = m @ [(k, v)]"
  by (induction m) auto

lemma delete_absent [simp]: "k \<notin> set (okeys m) \<Longrightarrow> AList.delete k m = m"
  by (induction m) (auto simp: AList.delete_eq)

lemma length_delete_le: "length (AList.delete k m) \<le> length m"
  by (simp add: AList.delete_eq)

lemma length_delete_present:
  "wf_omap m \<Longrightarrow> k \<in> set (okeys m) \<Longrightarrow> Suc (length (AList.delete k m)) = length m"
proof (induction m)
  case (Cons e m)
  show ?case
  proof (cases "fst e = k")
    case True
    with Cons.prems have "AList.delete k m = m" by simp
    then have "length (filter (\<lambda>p. k \<noteq> fst p) m) = length m"
      by (metis (no_types, lifting) AList.delete_eq case_prod_unfold filter_cong)
    with True show ?thesis by (simp add: AList.delete_eq case_prod_unfold)
  next
    case False
    with Cons show ?thesis by (simp add: AList.delete_eq case_prod_unfold)
  qed
qed simp

lemma length_update_present [simp]:
  "k \<in> set (okeys m) \<Longrightarrow> length (AList.update k v m) = length m"
  by (induction m) auto

lemma set_okeys_update [simp]: "fst ` set (AList.update k v m) = insert k (fst ` set m)"
  by (induction m) auto

lemma set_update_entries: "set (AList.update k v m) \<subseteq> insert (k, v) (set m)"
  by (induction m) auto

lemma wf_omap_update [simp]: "wf_omap m \<Longrightarrow> wf_omap (AList.update k v m)"
  by (rule distinct_update)

lemma wf_omap_delete [simp]: "wf_omap m \<Longrightarrow> wf_omap (AList.delete k m)"
  by simp

lemma map_of_None_iff: "map_of m k = None \<longleftrightarrow> k \<notin> set (okeys m)"
  by (induction m) auto

section \<open>Stable sort\<close>

text \<open>
  \<open>Array.prototype.sort\<close> is stable. The comparator \<open>le a b\<close> stands for
  \<open>compare(a, b) <= 0\<close>: an element moves in front of the elements it is not behind.
\<close>

fun js_insort :: "('a \<Rightarrow> 'a \<Rightarrow> bool) \<Rightarrow> 'a \<Rightarrow> 'a list \<Rightarrow> 'a list" where
  "js_insort le x [] = [x]"
| "js_insort le x (y # ys) = (if le x y then x # y # ys else y # js_insort le x ys)"

definition js_sort :: "('a \<Rightarrow> 'a \<Rightarrow> bool) \<Rightarrow> 'a list \<Rightarrow> 'a list" where
  "js_sort le xs = foldr (js_insort le) xs []"

lemma js_sort_simps [simp]:
  "js_sort le [] = []" "js_sort le (x # xs) = js_insort le x (js_sort le xs)"
  by (simp_all add: js_sort_def)

lemma mset_js_insort [simp]: "mset (js_insort le x xs) = add_mset x (mset xs)"
  by (induction xs) auto

lemma mset_js_sort [simp]: "mset (js_sort le xs) = mset xs"
  by (induction xs) auto

lemma set_js_insort [simp]: "set (js_insort le x xs) = insert x (set xs)"
  by (metis mset_js_insort set_mset_add_mset_insert set_mset_mset)

lemma set_js_sort [simp]: "set (js_sort le xs) = set xs"
  by (metis mset_js_sort set_mset_mset)

lemma length_js_insort [simp]: "length (js_insort le x xs) = Suc (length xs)"
  by (induction xs) auto

lemma length_js_sort [simp]: "length (js_sort le xs) = length xs"
  by (induction xs) auto

lemma sorted_js_insort:
  assumes tot: "\<And>a b. le a b \<or> le b a" and tr: "\<And>a b c. le a b \<Longrightarrow> le b c \<Longrightarrow> le a c"
  shows "sorted_wrt le xs \<Longrightarrow> sorted_wrt le (js_insort le x xs)"
proof (induction xs)
  case (Cons y ys)
  then show ?case using tot [of x y] tr by auto
qed simp

lemma sorted_js_sort:
  assumes tot: "\<And>a b. le a b \<or> le b a" and tr: "\<And>a b c. le a b \<Longrightarrow> le b c \<Longrightarrow> le a c"
  shows "sorted_wrt le (js_sort le xs)"
proof (induction xs)
  case (Cons x xs)
  then show ?case using sorted_js_insort [of le, OF tot tr] by simp
qed simp

section \<open>Strings\<close>

text \<open>\<open>Array.prototype.join\<close> and \<open>String.prototype.includes\<close>.\<close>

fun join_with :: "string \<Rightarrow> string list \<Rightarrow> string" where
  "join_with sep [] = []"
| "join_with sep [x] = x"
| "join_with sep (x # y # xs) = x @ sep @ join_with sep (y # xs)"

definition str_includes :: "string \<Rightarrow> string \<Rightarrow> bool" where
  "str_includes s t = sublist t s"

section \<open>Lists\<close>

text \<open>Index of the first element that satisfies a predicate, as \<open>findIndex\<close> (None for -1).\<close>

fun find_index :: "('a \<Rightarrow> bool) \<Rightarrow> 'a list \<Rightarrow> nat option" where
  "find_index p [] = None"
| "find_index p (x # xs) = (if p x then Some 0 else map_option Suc (find_index p xs))"

definition delete_at :: "nat \<Rightarrow> 'a list \<Rightarrow> 'a list" where
  "delete_at i xs = take i xs @ drop (Suc i) xs"

lemma find_index_None: "find_index p xs = None \<longleftrightarrow> (\<forall>x \<in> set xs. \<not> p x)"
  by (induction xs) auto

lemma find_index_Some:
  "find_index p xs = Some i \<longleftrightarrow> i < length xs \<and> p (xs ! i) \<and> (\<forall>j < i. \<not> p (xs ! j))"
proof (induction xs arbitrary: i)
  case (Cons x xs)
  show ?case
  proof (cases i)
    case 0
    then show ?thesis by (cases "p x") (auto simp: map_option_case split: option.splits)
  next
    case (Suc k)
    then show ?thesis using Cons.IH [of k] by (auto simp: less_Suc_eq_0_disj)
  qed
qed simp

lemma length_delete_at [simp]: "i < length xs \<Longrightarrow> length (delete_at i xs) = length xs - 1"
  by (auto simp: delete_at_def)

lemma mset_delete_at: "i < length xs \<Longrightarrow> mset xs = add_mset (xs ! i) (mset (delete_at i xs))"
  unfolding delete_at_def using id_take_nth_drop [of i xs]
  by (metis mset.simps(2) mset_append union_mset_add_mset_right)

lemma set_delete_at: "set (delete_at i xs) \<subseteq> set xs"
  by (auto simp: delete_at_def dest: in_set_takeD in_set_dropD)

lemma sorted_wrt_delete_at:
  assumes "sorted_wrt P xs"
  shows "sorted_wrt P (delete_at i xs)"
proof -
  have "set (drop (Suc i) xs) \<subseteq> set (drop i xs)"
    by (rule set_drop_subset_set_drop) simp
  moreover have "sorted_wrt P (take i xs @ drop i xs)"
    using assms by simp
  ultimately show ?thesis
    unfolding delete_at_def sorted_wrt_append using sorted_wrt_drop [OF assms] by blast
qed

end
