(* ===== verification/Numeric.thy ===== *)
theory Numeric
  imports Prelude
begin

text \<open>
  The scalar arithmetic of \<open>util/src/utils/numeric.ts\<close> that every bounded
  container, truth function and scorer of the program shares, and the bounds each of
  these functions promises. Each definition is the function of the same name.
\<close>

definition clamp :: "real \<Rightarrow> real \<Rightarrow> real \<Rightarrow> real" where
  "clamp v lo hi = max lo (min hi v)"

definition clamp01 :: "real \<Rightarrow> real" where
  "clamp01 v = max 0 (min 1 v)"

definition clampSigned :: "real \<Rightarrow> real \<Rightarrow> real" where
  "clampSigned v bound = clamp v (- bound) bound"

definition occupancy :: "real \<Rightarrow> real \<Rightarrow> real \<Rightarrow> real" where
  "occupancy used capacity unboundedOccupancy =
     (if capacity > 0 then clamp01 (used / capacity) else unboundedOccupancy)"

definition lerp :: "real \<Rightarrow> real \<Rightarrow> real \<Rightarrow> real" where
  "lerp a b fraction = a + (b - a) * fraction"

definition retain :: "real \<Rightarrow> real \<Rightarrow> real" where
  "retain value rate = value * (1 - rate)"

definition anneal :: "real \<Rightarrow> real \<Rightarrow> real \<Rightarrow> real \<Rightarrow> real" where
  "anneal value survival lo hi = clamp (value * survival) lo hi"

definition forget :: "real \<Rightarrow> real \<Rightarrow> real" where
  "forget value rate = value * rate"

definition safeRatio :: "real \<Rightarrow> real \<Rightarrow> real \<Rightarrow> real" where
  "safeRatio n d e = (if d > 0 then n / d else e)"

definition flooredRatio :: "real \<Rightarrow> real \<Rightarrow> real \<Rightarrow> jsnum" where
  "flooredRatio n d lo = js_div n (max lo d)"

fun sumBy_from :: "real \<Rightarrow> 'a list \<Rightarrow> ('a \<Rightarrow> real) \<Rightarrow> real" where
  "sumBy_from tot [] value = tot"
| "sumBy_from tot (x # xs) value = sumBy_from (tot + value x) xs value"

definition sumBy :: "'a list \<Rightarrow> ('a \<Rightarrow> real) \<Rightarrow> real" where
  "sumBy items value = sumBy_from 0 items value"

fun meanOf_from :: "real \<Rightarrow> real \<Rightarrow> 'a list \<Rightarrow> ('a \<Rightarrow> real) \<Rightarrow> real \<Rightarrow> real" where
  "meanOf_from tot cnt [] value e = safeRatio tot cnt e"
| "meanOf_from tot cnt (x # xs) value e =
     meanOf_from (tot + value x) (cnt + 1) xs value e"

definition meanOf :: "'a list \<Rightarrow> ('a \<Rightarrow> real) \<Rightarrow> real \<Rightarrow> real" where
  "meanOf items value e = meanOf_from 0 0 items value e"

definition safeDiv :: "real \<Rightarrow> real \<Rightarrow> real" where
  "safeDiv n d = clamp01 (safeRatio n d 0)"

definition renormalize ::
  "'a list \<Rightarrow> ('a \<Rightarrow> real) \<Rightarrow> ('a \<Rightarrow> real \<Rightarrow> 'b) \<Rightarrow> 'b list \<Rightarrow> 'b list" where
  "renormalize items mass rescale fallback =
     (let tot = sumBy items mass
      in if tot \<le> 0 then fallback else map (\<lambda>x. rescale x (mass x / tot)) items)"

definition normalizeToSum :: "'a list \<Rightarrow> ('a \<Rightarrow> real) \<Rightarrow> real list \<Rightarrow> real list" where
  "normalizeToSum items value e = renormalize items value (\<lambda>_ share. share) e"

definition softSquash :: "real \<Rightarrow> real \<Rightarrow> jsnum" where
  "softSquash x k = js_div x (x + k)"

definition nearlyEqual :: "real \<Rightarrow> real \<Rightarrow> real \<Rightarrow> bool" where
  "nearlyEqual a b eps \<longleftrightarrow> \<bar>a - b\<bar> \<le> eps"

definition mean :: "'a list \<Rightarrow> ('a \<Rightarrow> real) \<Rightarrow> real" where
  "mean items value = meanOf items value 0"

definition variance :: "'a list \<Rightarrow> ('a \<Rightarrow> real) \<Rightarrow> real" where
  "variance items value =
     (if length items < 2 then 0
      else let avg = mean items value in mean items (\<lambda>x. (value x - avg) ^ 2))"

section \<open>Bounds\<close>

lemma clamp01_range [simp]: "0 \<le> clamp01 v" "clamp01 v \<le> 1"
  by (simp_all add: clamp01_def)

lemma clamp01_id [simp]: "0 \<le> v \<Longrightarrow> v \<le> 1 \<Longrightarrow> clamp01 v = v"
  by (simp add: clamp01_def)

lemma clamp_range: "lo \<le> hi \<Longrightarrow> lo \<le> clamp v lo hi \<and> clamp v lo hi \<le> hi"
  by (simp add: clamp_def)

lemma clamp_id [simp]: "lo \<le> v \<Longrightarrow> v \<le> hi \<Longrightarrow> clamp v lo hi = v"
  by (simp add: clamp_def)

lemma clamp_mono: "v \<le> w \<Longrightarrow> clamp v lo hi \<le> clamp w lo hi"
  by (auto simp: clamp_def)

lemma occupancy_range: "0 \<le> u \<Longrightarrow> u \<le> 1 \<Longrightarrow> 0 \<le> occupancy n c u \<and> occupancy n c u \<le> 1"
  by (simp add: occupancy_def)

lemma occupancy_full: "0 < c \<Longrightarrow> c \<le> n \<Longrightarrow> occupancy n c u = 1"
  by (simp add: occupancy_def clamp01_def)

lemma retain_range: "0 \<le> v \<Longrightarrow> 0 \<le> r \<Longrightarrow> r \<le> 1 \<Longrightarrow> 0 \<le> retain v r \<and> retain v r \<le> v"
  by (simp add: retain_def mult_left_le)

lemma retain_forget: "retain v r + forget v r = v"
  by (simp add: retain_def forget_def algebra_simps)

lemma sumBy_from_sum: "sumBy_from t xs f = t + sum_list (map f xs)"
  by (induction xs arbitrary: t) auto

lemma sumBy_sum: "sumBy xs f = sum_list (map f xs)"
  by (simp add: sumBy_def sumBy_from_sum)

lemma meanOf_from_eq:
  "meanOf_from t c xs f e = safeRatio (t + sum_list (map f xs)) (c + real (length xs)) e"
  by (induction xs arbitrary: t c) (auto simp: algebra_simps)

lemma meanOf_eq:
  "meanOf xs f e = (if xs = [] then e else sum_list (map f xs) / real (length xs))"
  by (simp add: meanOf_def meanOf_from_eq safeRatio_def)

lemma sum_list_bounds:
  assumes "\<forall>x \<in> set xs. lo \<le> f x \<and> f x \<le> (hi::real)"
  shows "lo * real (length xs) \<le> sum_list (map f xs)"
    and "sum_list (map f xs) \<le> hi * real (length xs)"
  using assms by (induction xs) (auto simp: algebra_simps)

lemma mean_range:
  assumes "xs \<noteq> []" "\<forall>x \<in> set xs. lo \<le> f x \<and> f x \<le> hi"
  shows "lo \<le> mean xs f \<and> mean xs f \<le> hi"
  using assms sum_list_bounds [OF assms(2)]
  by (simp add: mean_def meanOf_eq pos_le_divide_eq pos_divide_le_eq)

lemma variance_nonneg: "0 \<le> variance xs f"
  by (auto simp: variance_def mean_def meanOf_eq Let_def intro!: divide_nonneg_nonneg sum_list_nonneg)

lemma sum_list_shares: "sum_list (map (\<lambda>x. f x / (t::real)) xs) = sum_list (map f xs) / t"
  by (induction xs) (auto simp: add_divide_distrib)

lemma normalizeToSum_sums:
  "0 < sum_list (map f xs) \<Longrightarrow> sum_list (normalizeToSum xs f e) = 1"
  by (simp add: normalizeToSum_def renormalize_def sumBy_sum Let_def sum_list_shares)

lemma softSquash_Fin [simp]: "0 \<le> x \<Longrightarrow> 0 < k \<Longrightarrow> softSquash x k = Fin (x / (x + k))"
  by (simp add: softSquash_def)

lemma squash_range:
  fixes x k :: real
  assumes "0 \<le> x" "0 < k"
  shows "0 \<le> x / (x + k)" "x / (x + k) < 1"
  using assms by auto

lemma squash_mono:
  fixes x y k :: real
  assumes "0 \<le> x" "x \<le> y" "0 < k"
  shows "x / (x + k) \<le> y / (y + k)"
proof -
  have "x * (y + k) \<le> y * (x + k)"
    using assms by (simp add: algebra_simps mult_left_mono)
  then show ?thesis
    using assms by (simp add: divide_le_eq le_divide_eq field_simps)
qed

end
