(* ===== verification/Collections.thy ===== *)
theory Collections
  imports Numeric
begin

text \<open>
  The bounded buffers and selection primitives of \<open>util/src/utils/collections.ts\<close>:
  slices and shares, the extremum scan, the rankers and the bounded-buffer selection,
  the keyed-store helpers over the code's \<open>KeyedStore\<close> interface (the locale
  \<open>keyed_store\<close>), deduplication and removal, and the \<open>BoundedRing\<close> with the
  \<open>BoundedContainer\<close> interface (the locale \<open>bounded_container\<close>). In-place
  mutation of an array is a function that returns the new list.
\<close>

section \<open>Slices and shares\<close>

function chunk_from :: "nat \<Rightarrow> 'a list \<Rightarrow> 'a list list" where
  "chunk_from step xs = (if xs = [] \<or> step = 0 then []
     else take step xs # chunk_from step (drop step xs))"
  by pat_completeness auto
termination by (relation "measure (\<lambda>(_, xs). length xs)") auto

declare chunk_from.simps [simp del]

definition chunk :: "'a list \<Rightarrow> real \<Rightarrow> 'a list list" where
  "chunk items sz = chunk_from (nat (max 1 \<lfloor>sz\<rfloor>)) items"

definition lastByKey :: "'a list \<Rightarrow> ('a \<Rightarrow> 'k) \<Rightarrow> ('k, 'a) omap" where
  "lastByKey rows keyOf = fold (\<lambda>row m. AList.update (keyOf row) row m) rows []"

fun collect_loop :: "'b list \<Rightarrow> int \<Rightarrow> ('a \<Rightarrow> 'b option) \<Rightarrow> 'a list \<Rightarrow> 'b list" where
  "collect_loop out limit accept [] = out"
| "collect_loop out limit accept (x # xs) =
     (case accept x of
        None \<Rightarrow> collect_loop out limit accept xs
      | Some y \<Rightarrow>
          if int (length (out @ [y])) \<ge> limit then out @ [y]
          else collect_loop (out @ [y]) limit accept xs)"

definition collectUpTo :: "'a list \<Rightarrow> int \<Rightarrow> ('a \<Rightarrow> 'b option) \<Rightarrow> 'b list" where
  "collectUpTo items limit accept = (if limit \<le> 0 then [] else collect_loop [] limit accept items)"

definition shareCount :: "real \<Rightarrow> real \<Rightarrow> int \<Rightarrow> (real \<Rightarrow> int) \<Rightarrow> int" where
  "shareCount population fraction lo round_fn = max lo (round_fn (population * fraction))"

definition perPart :: "real \<Rightarrow> real \<Rightarrow> int \<Rightarrow> (real \<Rightarrow> int) \<Rightarrow> int" where
  "perPart whole parts lo round_fn = max lo (round_fn (whole / parts))"

definition takeLast :: "'a list \<Rightarrow> int \<Rightarrow> 'a list" where
  "takeLast items n = (if n \<le> 0 then [] else drop (nat (max 0 (int (length items) - n))) items)"

definition takeFirst :: "'a list \<Rightarrow> int \<Rightarrow> 'a list" where
  "takeFirst items n = (if n \<le> 0 then [] else take (nat n) items)"

definition shareOf :: "'a list \<Rightarrow> real \<Rightarrow> int \<Rightarrow> real \<Rightarrow> 'a list" where
  "shareOf items fraction n population =
     (let target = min (int (length items)) (shareCount population fraction n ceiling)
      in take (nat (max 0 target)) items)"

definition pushCapped :: "'a list \<Rightarrow> 'a \<Rightarrow> int \<Rightarrow> 'a list \<times> 'a option" where
  "pushCapped buf item capacity =
     (let buf' = buf @ [item]
      in if int (length buf') > capacity then (tl buf', Some (hd buf')) else (buf', None))"

definition trimCapped :: "'a list \<Rightarrow> int \<Rightarrow> 'a list \<times> int" where
  "trimCapped buf capacity =
     (let dropped = max 0 (int (length buf) - capacity)
      in (if dropped > 0 then drop (nat dropped) buf else buf, dropped))"

lemma concat_chunk_from: "0 < step \<Longrightarrow> concat (chunk_from step xs) = xs"
proof (induction step xs rule: chunk_from.induct)
  case (1 step xs)
  show ?case
  proof (cases "xs = []")
    case True
    then show ?thesis by (simp add: chunk_from.simps)
  next
    case False
    with 1 show ?thesis by (subst chunk_from.simps) simp
  qed
qed

lemma chunk_from_size: "ys \<in> set (chunk_from step xs) \<Longrightarrow> ys \<noteq> [] \<and> length ys \<le> step"
proof (induction step xs rule: chunk_from.induct)
  case (1 step xs)
  show ?case
  proof (cases "xs = [] \<or> step = 0")
    case True
    with "1.prems" show ?thesis by (simp add: chunk_from.simps [of step xs])
  next
    case False
    then have "ys = take step xs \<or> ys \<in> set (chunk_from step (drop step xs))"
      using "1.prems" by (subst (asm) chunk_from.simps) simp
    with False "1.IH" show ?thesis by auto
  qed
qed

lemma collect_loop_take:
  "int (length out) < limit \<Longrightarrow>
   collect_loop out limit accept xs = take (nat limit) (out @ List.map_filter accept xs)"
proof (induction xs arbitrary: out)
  case Nil
  then show ?case by (simp add: map_filter_simps)
next
  case (Cons x xs)
  show ?case
  proof (cases "accept x")
    case None
    with Cons show ?thesis by (simp add: map_filter_simps)
  next
    case (Some y)
    show ?thesis
    proof (cases "int (length (out @ [y])) \<ge> limit")
      case True
      then have "nat limit = length (out @ [y])" using Cons.prems by simp
      with Some True show ?thesis by (simp add: map_filter_simps)
    next
      case False
      with Cons.IH [of "out @ [y]"] Some show ?thesis by (simp add: map_filter_simps)
    qed
  qed
qed

lemma collectUpTo_take: "collectUpTo xs limit accept = take (nat limit) (List.map_filter accept xs)"
  by (simp add: collectUpTo_def collect_loop_take)

lemma map_of_lastByKey: "map_of (lastByKey rows keyOf) k = find (\<lambda>r. keyOf r = k) (rev rows)"
  by (induction rows rule: rev_induct) (auto simp: lastByKey_def update_conv')

lemma takeLast_drop: "0 < n \<Longrightarrow> takeLast xs n = drop (length xs - nat n) xs"
  by (auto simp: takeLast_def nat_diff_distrib max_def)

lemma length_takeLast: "int (length (takeLast xs n)) = max 0 (min n (int (length xs)))"
  by (auto simp: takeLast_def)

lemma takeLast_snoc: "1 < n \<Longrightarrow> takeLast (xs @ [x]) n = takeLast xs (n - 1) @ [x]"
  by (simp add: takeLast_drop nat_diff_distrib diff_diff_eq2 Suc_diff_le)

lemma takeLast_all: "int (length xs) \<le> n \<Longrightarrow> takeLast xs n = xs"
  by (cases xs) (auto simp: takeLast_def)

lemma pushCapped_takeLast:
  assumes "0 < c" "int (length xs) \<le> c"
  shows "fst (pushCapped xs x c) = takeLast (xs @ [x]) c"
proof (cases "int (length xs) = c")
  case True
  then have "length (xs @ [x]) - nat c = 1" by simp
  with True assms show ?thesis
    by (cases xs) (simp_all add: pushCapped_def takeLast_drop Let_def)
next
  case False
  with assms show ?thesis by (simp add: pushCapped_def Let_def takeLast_all)
qed

lemma trimCapped_takeLast: "0 < c \<Longrightarrow> fst (trimCapped xs c) = takeLast xs c"
  by (auto simp: trimCapped_def takeLast_def Let_def max_def)

section \<open>Extremum scan\<close>

fun extremum_loop ::
  "('a \<Rightarrow> real) \<Rightarrow> (jsnum \<Rightarrow> jsnum \<Rightarrow> bool) \<Rightarrow> 'a option \<Rightarrow> jsnum \<Rightarrow> 'a list \<Rightarrow> 'a option \<times> jsnum" where
  "extremum_loop score better item best [] = (item, best)"
| "extremum_loop score better item best (c # cs) =
     (let value = Fin (score c)
      in if better value best then extremum_loop score better (Some c) value cs
         else extremum_loop score better item best cs)"

definition extremumBy ::
  "'a list \<Rightarrow> ('a \<Rightarrow> real) \<Rightarrow> (jsnum \<Rightarrow> jsnum \<Rightarrow> bool) \<Rightarrow> 'a option \<Rightarrow> jsnum \<Rightarrow> 'a option \<times> jsnum" where
  "extremumBy items score better initial initialScore =
     extremum_loop score better initial initialScore items"

definition LOWER :: "jsnum \<Rightarrow> jsnum \<Rightarrow> bool" where
  "LOWER candidate incumbent = js_lt candidate incumbent"

definition HIGHER :: "jsnum \<Rightarrow> jsnum \<Rightarrow> bool" where
  "HIGHER candidate incumbent = js_lt incumbent candidate"

definition minBy :: "'a list \<Rightarrow> ('a \<Rightarrow> real) \<Rightarrow> 'a option" where
  "minBy items score = fst (extremumBy items score LOWER None Inf)"

definition maxBy :: "'a list \<Rightarrow> ('a \<Rightarrow> real) \<Rightarrow> 'a option" where
  "maxBy items score = fst (extremumBy items score HIGHER None NegInf)"

definition victimBy :: "'a list \<Rightarrow> ('a \<Rightarrow> real) \<Rightarrow> 'a option" where
  "victimBy live order_by = minBy live order_by"

definition maxScore :: "'a list \<Rightarrow> ('a \<Rightarrow> real) \<Rightarrow> real \<Rightarrow> jsnum" where
  "maxScore items score lo = snd (extremumBy items score HIGHER None (Fin lo))"

definition minScore :: "'a list \<Rightarrow> ('a \<Rightarrow> real) \<Rightarrow> jsnum" where
  "minScore items score = snd (extremumBy items score LOWER None Inf)"

lemma min_loop_Some:
  "extremum_loop score LOWER (Some b) (Fin (score b)) xs =
   (let m = fold (\<lambda>c b. if score c < score b then c else b) xs b in (Some m, Fin (score m)))"
  by (induction xs arbitrary: b) (auto simp: LOWER_def Let_def)

lemma minBy_Nil [simp]: "minBy [] score = None"
  by (simp add: minBy_def extremumBy_def)

lemma minBy_Cons:
  "minBy (x # xs) score = Some (fold (\<lambda>c b. if score c < score b then c else b) xs x)"
  by (simp add: minBy_def extremumBy_def LOWER_def [of "Fin _" Inf] min_loop_Some Let_def)

lemma fold_min_least:
  "let m = fold (\<lambda>c b. if score c < score b then c else b) xs x
   in (m = x \<or> m \<in> set xs) \<and> score m \<le> score x \<and> (\<forall>y \<in> set xs. score m \<le> (score y :: real))"
  by (induction xs arbitrary: x) (auto simp: Let_def split: if_splits intro: order_trans, force+)

lemma minBy_least:
  assumes "minBy xs score = Some m"
  shows "m \<in> set xs" "\<forall>y \<in> set xs. score m \<le> score y"
proof -
  obtain x ys where "xs = x # ys" using assms by (cases xs) auto
  then show "m \<in> set xs" "\<forall>y \<in> set xs. score m \<le> score y"
    using assms fold_min_least [of score ys x] by (auto simp: minBy_Cons Let_def)
qed

lemma minBy_None [simp]: "minBy xs score = None \<longleftrightarrow> xs = []"
  by (cases xs) (simp_all add: minBy_Cons)

lemma max_loop_score:
  "snd (extremum_loop score HIGHER i (Fin lo) xs) = Fin (fold (\<lambda>x m. max m (score x)) xs lo)"
  by (induction xs arbitrary: lo i) (auto simp: HIGHER_def Let_def max_def)

lemma maxScore_Fin: "maxScore xs score lo = Fin (fold (\<lambda>x m. max m (score x)) xs lo)"
  by (simp add: maxScore_def extremumBy_def max_loop_score)

section \<open>Ranking\<close>

text \<open>
  The walk the code makes from the tail of a descending buffer: the new element moves
  left past every element it is better than. The list is the buffer reversed.
\<close>

fun walk_back :: "('a \<Rightarrow> 'a \<Rightarrow> bool) \<Rightarrow> 'a \<Rightarrow> 'a list \<Rightarrow> 'a list" where
  "walk_back better x [] = [x]"
| "walk_back better x (y # ys) =
     (if better x y then y # walk_back better x ys else x # y # ys)"

definition insertByScoreDesc :: "'a list \<Rightarrow> 'a \<Rightarrow> ('a \<Rightarrow> real) \<Rightarrow> 'a list" where
  "insertByScoreDesc items item score =
     rev (walk_back (\<lambda>x y. score y < score x) item (rev items))"

definition keyedRank ::
  "'a list \<Rightarrow> ('a \<Rightarrow> real) \<Rightarrow> (real \<Rightarrow> real \<Rightarrow> real) \<Rightarrow> ('a \<Rightarrow> real \<Rightarrow> bool)
   \<Rightarrow> ('a \<Rightarrow> 'a \<Rightarrow> real) option \<Rightarrow> int option \<Rightarrow> 'a list" where
  "keyedRank items score byKey where_fn tiebreak limit =
     (let keyed = filter (\<lambda>(x, k). where_fn x k) (map (\<lambda>x. (x, score x)) items);
          cmp = (\<lambda>(a, ka) (b, kb).
                   if byKey ka kb \<noteq> 0 then byKey ka kb
                   else (case tiebreak of None \<Rightarrow> 0 | Some t \<Rightarrow> t a b));
          ranked = js_sort (\<lambda>p q. cmp p q \<le> 0) keyed;
          kept = (case limit of None \<Rightarrow> ranked | Some l \<Rightarrow> take (nat (max 0 l)) ranked)
      in map fst kept)"

definition sortBy :: "'a list \<Rightarrow> ('a \<Rightarrow> real) \<Rightarrow> 'a list" where
  "sortBy items score = keyedRank items score (\<lambda>a b. a - b) (\<lambda>_ _. True) None None"

definition rankBy ::
  "'a list \<Rightarrow> ('a \<Rightarrow> real) \<Rightarrow> ('a \<Rightarrow> real \<Rightarrow> bool) \<Rightarrow> ('a \<Rightarrow> 'a \<Rightarrow> real) option \<Rightarrow> int option \<Rightarrow> 'a list" where
  "rankBy items score where_fn tiebreak limit =
     keyedRank items score (\<lambda>a b. b - a) where_fn tiebreak limit"

text \<open>
  The two parallel arrays \<open>kept\<close> and \<open>keys\<close> are one list of pairs.
\<close>

definition select_step ::
  "int \<Rightarrow> ('k \<Rightarrow> 'k \<Rightarrow> bool) \<Rightarrow> 'a \<times> 'k \<Rightarrow> ('a \<times> 'k) list \<Rightarrow> ('a \<times> 'k) list" where
  "select_step n better e buf =
     (let b = (\<lambda>p q. better (snd p) (snd q))
      in if int (length buf) = n
         then (if \<not> better (snd e) (snd (last buf)) then buf
               else rev (walk_back b e (rev (butlast buf))))
         else rev (walk_back b e (rev buf)))"

definition selectBest ::
  "'a list \<Rightarrow> int \<Rightarrow> ('a \<Rightarrow> 'k) \<Rightarrow> ('k \<Rightarrow> 'k \<Rightarrow> bool) \<Rightarrow> ('a \<Rightarrow> bool) \<Rightarrow> 'a list" where
  "selectBest items n key better eligible =
     (if n \<le> 0 then []
      else map fst (fold (\<lambda>x buf. if \<not> eligible x then buf
                                  else select_step n better (x, key x) buf) items []))"

definition selectTopN :: "'a list \<Rightarrow> int \<Rightarrow> ('a \<Rightarrow> real) \<Rightarrow> ('a \<Rightarrow> bool) \<Rightarrow> 'a list" where
  "selectTopN items n score where_fn = selectBest items n score (\<lambda>a b. a > b) where_fn"

definition selectByPriority ::
  "('a \<Rightarrow> real) \<Rightarrow> ('a \<Rightarrow> 'i::linorder) \<Rightarrow> 'a list \<Rightarrow> int \<Rightarrow> ('a \<Rightarrow> bool) \<Rightarrow> 'a list" where
  "selectByPriority priority ident items budget eligible =
     selectBest items budget (\<lambda>x. x)
       (\<lambda>a b. priority a > priority b \<or> (priority a = priority b \<and> ident a < ident b)) eligible"


subsection \<open>The bounded selection is the front of the stable sort\<close>

text \<open>
  \<open>selectBest\<close> works for any order its callers pass that is asymmetric and whose
  complement is transitive. Both comparators of the file are such orders.
\<close>

fun insert_after :: "('a \<Rightarrow> 'a \<Rightarrow> bool) \<Rightarrow> 'a \<Rightarrow> 'a list \<Rightarrow> 'a list" where
  "insert_after b x [] = [x]"
| "insert_after b x (y # ys) = (if b x y then x # y # ys else y # insert_after b x ys)"

lemma length_insert_after [simp]: "length (insert_after b x ys) = Suc (length ys)"
  by (induction ys) auto

lemma set_insert_after [simp]: "set (insert_after b x ys) = insert x (set ys)"
  by (induction ys) auto

lemma insert_after_append:
  "\<exists>y \<in> set ys. b x y \<Longrightarrow> insert_after b x (ys @ zs) = insert_after b x ys @ zs"
  by (induction ys) auto

lemma insert_after_none:
  "\<forall>y \<in> set ys. \<not> b x y \<Longrightarrow> insert_after b x (ys @ zs) = ys @ insert_after b x zs"
  by (induction ys) auto

definition pb :: "('k \<Rightarrow> 'k \<Rightarrow> bool) \<Rightarrow> 'a \<times> 'k \<Rightarrow> 'a \<times> 'k \<Rightarrow> bool" where
  "pb better p q = better (snd p) (snd q)"

definition ple :: "('k \<Rightarrow> 'k \<Rightarrow> bool) \<Rightarrow> 'a \<times> 'k \<Rightarrow> 'a \<times> 'k \<Rightarrow> bool" where
  "ple better p q = (\<not> better (snd q) (snd p))"

lemma select_step_pb:
  "select_step n better e buf =
     (if int (length buf) = n
      then (if \<not> pb better e (last buf) then buf
            else rev (walk_back (pb better) e (rev (butlast buf))))
      else rev (walk_back (pb better) e (rev buf)))"
  by (simp add: select_step_def Let_def pb_def [abs_def])

locale score_order =
  fixes better :: "'k \<Rightarrow> 'k \<Rightarrow> bool"
  assumes better_asym: "better a b \<Longrightarrow> \<not> better b a"
    and worse_trans: "\<not> better a b \<Longrightarrow> \<not> better b c \<Longrightarrow> \<not> better a c"
begin

lemma better_trans: "better a b \<Longrightarrow> better b c \<Longrightarrow> better a c"
  using better_asym worse_trans by blast

lemma insert_commute:
  "js_insort (ple better) y (insert_after (pb better) x S) = insert_after (pb better) x (js_insort (ple better) y S)"
proof (induction S)
  case Nil
  then show ?case by (simp add: pb_def ple_def)
next
  case (Cons z S)
  then show ?case
    by (auto simp: pb_def ple_def dest: better_asym better_trans worse_trans)
qed

lemma sort_snoc: "js_sort (ple better) (xs @ [x]) = insert_after (pb better) x (js_sort (ple better) xs)"
  by (induction xs) (simp_all add: insert_commute)

lemma sorted_ple: "sorted_wrt (ple better) (js_sort (ple better) xs)"
  by (rule sorted_js_sort) (auto simp: ple_def dest: better_asym worse_trans)

lemma walk_back_insert:
  "sorted_wrt (ple better) S \<Longrightarrow> rev (walk_back (pb better) x (rev S)) = insert_after (pb better) x S"
proof (induction S rule: rev_induct)
  case (snoc z S)
  show ?case
  proof (cases "(pb better) x z")
    case True
    have "insert_after (pb better) x (S @ [z]) = insert_after (pb better) x S @ [z]"
      by (cases "\<exists>y \<in> set S. (pb better) x y") (simp_all add: insert_after_append insert_after_none True
          insert_after_none [of S "pb better" x "[]", simplified])
    with snoc True show ?thesis by (simp add: sorted_wrt_append)
  next
    case False
    then have "\<forall>y \<in> set (S @ [z]). \<not> (pb better) x y"
      using snoc.prems worse_trans by (auto simp: sorted_wrt_append ple_def pb_def)
    then show ?thesis using insert_after_none [of "S @ [z]" "pb better" x "[]"] False by simp
  qed
qed simp

lemma select_step_take:
  assumes T: "sorted_wrt (ple better) T" and n: "0 < n"
  shows "select_step (int n) better x (take n T) = take n (insert_after (pb better) x T)"
proof (cases "length T < n")
  case True
  then have "take n T = T" "length T \<noteq> n" by auto
  with True T show ?thesis
    by (simp add: select_step_pb walk_back_insert)
next
  case False
  let ?B = "take n T"
  have len: "length ?B = n" using False by simp
  then have ne: "?B \<noteq> []" using n by auto
  have T': "T = butlast ?B @ last ?B # drop n T" using ne
    by (metis append_take_drop_id append_butlast_last_id append.assoc append_Cons append_Nil)
  have sB: "sorted_wrt (ple better) (butlast ?B)"
    using T T' by (metis sorted_wrt_append)
  show ?thesis
  proof (cases "(pb better) x (last ?B)")
    case True
    have "insert_after (pb better) x T = insert_after (pb better) x (butlast ?B) @ last ?B # drop n T" 
    proof (cases "\<exists>y \<in> set (butlast ?B). (pb better) x y")
      case True
      then show ?thesis by (subst T', subst insert_after_append) simp_all
    next
      case no: False
      then have "insert_after (pb better) x (butlast ?B) = butlast ?B @ [x]"
        using insert_after_none [of "butlast ?B" "pb better" x "[]"] by simp
      moreover have "insert_after (pb better) x (butlast ?B @ last ?B # drop n T)
          = butlast ?B @ x # last ?B # drop n T"
        using no True by (simp add: insert_after_none)
      ultimately show ?thesis using T' by simp
    qed
    moreover have "length (insert_after (pb better) x (butlast ?B)) = n" using len n by simp
    ultimately have "take n (insert_after (pb better) x T) = insert_after (pb better) x (butlast ?B)" by simp
    with True len sB show ?thesis
      by (simp add: select_step_pb walk_back_insert)
  next
    case False
    have "sorted_wrt (ple better) ?B" using T sorted_wrt_take by blast
    then have "\<forall>y \<in> set (butlast ?B). (ple better) y (last ?B)"
      using append_butlast_last_id [OF ne] by (metis sorted_wrt_append list.set_intros(1))
    then have "\<forall>y \<in> set (butlast ?B @ [last ?B]). \<not> (pb better) x y"
      using False worse_trans by (auto simp: ple_def pb_def)
    then have "\<forall>y \<in> set ?B. \<not> (pb better) x y" using append_butlast_last_id [OF ne] by simp
    then have "insert_after (pb better) x (?B @ drop n T) = ?B @ insert_after (pb better) x (drop n T)"
      by (rule insert_after_none)
    then have "take n (insert_after (pb better) x T) = ?B" using len by simp
    with False len show ?thesis by (simp add: select_step_pb)
  qed
qed

lemma select_fold:
  assumes "0 < n"
  shows "fold (\<lambda>x buf. if \<not> eligible x then buf else select_step (int n) better (x, key x) buf) items []
    = take n (js_sort (ple better) (map (\<lambda>x. (x, key x)) (filter eligible items)))"
proof (induction items rule: rev_induct)
  case (snoc x items)
  then show ?case
    by (simp add: sort_snoc select_step_take [OF sorted_ple assms])
qed simp

lemma selectBest_take:
  "selectBest items n key better eligible =
   map fst (take (nat n) (js_sort (ple better) (map (\<lambda>x. (x, key x)) (filter eligible items))))"
proof (cases "n \<le> 0")
  case False
  then obtain m where m: "n = int m" "0 < m" by (metis linorder_not_less pos_int_cases)
  with False show ?thesis by (simp add: selectBest_def select_fold [OF m(2)] del: of_nat_le_0_iff)
qed (simp add: selectBest_def)

end

interpretation higher: score_order "\<lambda>a b :: real. a > b"
  by unfold_locales auto

interpretation by_priority:
  score_order "\<lambda>a b. priority a > priority b \<or> (priority a = (priority b :: real) \<and> ident a < ident b)"
  for priority :: "'a \<Rightarrow> real" and ident :: "'a \<Rightarrow> 'i::linorder"
  by unfold_locales auto


section \<open>Keyed stores\<close>

text \<open>
  \<open>KeyedStore\<close>: a \<open>get\<close> (which may rewrite the store, as an LRU cache does)
  and a \<open>set\<close>. The helpers of the code take the store as an argument, so the
  definitions take its two operations. The flag of \<open>getOrInsert\<close> is the call of
  \<open>onInsert\<close>.
\<close>

definition getOrInsert ::
  "('s \<Rightarrow> 'k \<Rightarrow> 'v option \<times> 's) \<Rightarrow> ('s \<Rightarrow> 'k \<Rightarrow> 'v \<Rightarrow> 's) \<Rightarrow> 's \<Rightarrow> 'k \<Rightarrow> 'v \<Rightarrow> 'v \<times> 's \<times> bool" where
  "getOrInsert get put store key created =
     (case get store key of
        (Some existing, store') \<Rightarrow> (existing, store', False)
      | (None, store') \<Rightarrow> (created, put store' key created, True))"

definition accumulate ::
  "('s \<Rightarrow> 'k \<Rightarrow> 'v option \<times> 's) \<Rightarrow> ('s \<Rightarrow> 'k \<Rightarrow> 'v \<Rightarrow> 's) \<Rightarrow> 's \<Rightarrow> 'k \<Rightarrow> 'v \<Rightarrow> ('v \<Rightarrow> 'v) \<Rightarrow> 'v \<times> 's" where
  "accumulate get put store key zero_v apply_fn =
     (case get store key of
        (existing, store') \<Rightarrow>
          let entry = apply_fn (case existing of Some e \<Rightarrow> e | None \<Rightarrow> zero_v)
          in (entry, put store' key entry))"

definition incrementCount ::
  "('s \<Rightarrow> 'k \<Rightarrow> real option \<times> 's) \<Rightarrow> ('s \<Rightarrow> 'k \<Rightarrow> real \<Rightarrow> 's) \<Rightarrow> 's \<Rightarrow> 'k \<Rightarrow> real \<Rightarrow> real \<times> 's" where
  "incrementCount get put store key delta =
     (case get store key of
        (existing, store') \<Rightarrow>
          let nxt = (case existing of Some c \<Rightarrow> c | None \<Rightarrow> 0) + delta
          in (nxt, put store' key nxt))"

locale keyed_store =
  fixes get :: "'s \<Rightarrow> 'k \<Rightarrow> 'v option \<times> 's"
    and put :: "'s \<Rightarrow> 'k \<Rightarrow> 'v \<Rightarrow> 's"
    and look :: "'s \<Rightarrow> 'k \<Rightarrow> 'v option"
    and inv :: "'s \<Rightarrow> bool"
  assumes get_value: "inv s \<Longrightarrow> fst (get s k) = look s k"
    and get_frame: "inv s \<Longrightarrow> look (snd (get s k)) = look s"
    and get_inv: "inv s \<Longrightarrow> inv (snd (get s k))"
    and put_same: "inv s \<Longrightarrow> look (put s k v) k = Some v"
    and put_other: "inv s \<Longrightarrow> k' \<noteq> k \<Longrightarrow> look (put s k v) k' \<in> {look s k', None}"
    and put_inv: "inv s \<Longrightarrow> inv (put s k v)"
begin

lemma getOrInsert_hit:
  assumes "inv s" "look s k = Some v"
  shows "getOrInsert get put s k c = (v, snd (get s k), False)"
  using assms get_value [of s k] by (cases "get s k") (simp add: getOrInsert_def)

lemma getOrInsert_miss:
  assumes "inv s" "look s k = None"
  shows "getOrInsert get put s k c = (c, put (snd (get s k)) k c, True)"
  using assms get_value [of s k] by (cases "get s k") (simp add: getOrInsert_def)

lemma put_get:
  assumes "inv s"
  shows "look (put (snd (get s k)) k v) k = Some v" "inv (put (snd (get s k)) k v)"
    "k' \<noteq> k \<Longrightarrow> look (put (snd (get s k)) k v) k' \<in> {look s k', None}"
  using put_same [OF get_inv [OF assms]] put_inv [OF get_inv [OF assms]]
    put_other [OF get_inv [OF assms]] get_frame [OF assms] by metis+

lemma getOrInsert_look:
  assumes "inv s" and r: "getOrInsert get put s k c = (v, s', fired)"
  shows "look s' k = Some v" "inv s'" "fired = (look s k = None)"
    "v = (case look s k of Some e \<Rightarrow> e | None \<Rightarrow> c)"
    "k' \<noteq> k \<Longrightarrow> look s' k' \<in> {look s k', None}"
proof -
  have "look s' k = Some v \<and> inv s' \<and> fired = (look s k = None)
    \<and> v = (case look s k of Some e \<Rightarrow> e | None \<Rightarrow> c) \<and> (k' \<noteq> k \<longrightarrow> look s' k' \<in> {look s k', None})"
  proof (cases "look s k")
    case None
    with r getOrInsert_miss [OF assms(1) None]
    have "v = c" "s' = put (snd (get s k)) k c" "fired" by auto
    with None put_get [OF assms(1)] show ?thesis by simp
  next
    case (Some e)
    with r getOrInsert_hit [OF assms(1) Some]
    have "v = e" "s' = snd (get s k)" "\<not> fired" by auto
    with Some get_frame [OF assms(1)] get_inv [OF assms(1)] show ?thesis by simp
  qed
  then show "look s' k = Some v" "inv s'" "fired = (look s k = None)"
    "v = (case look s k of Some e \<Rightarrow> e | None \<Rightarrow> c)"
    "k' \<noteq> k \<Longrightarrow> look s' k' \<in> {look s k', None}" by blast+
qed

lemma accumulate_look:
  assumes "inv s" and r: "accumulate get put s k z f = (v, s')"
  shows "v = f (case look s k of Some e \<Rightarrow> e | None \<Rightarrow> z)" "look s' k = Some v" "inv s'"
    "k' \<noteq> k \<Longrightarrow> look s' k' \<in> {look s k', None}"
proof -
  have "v = f (case look s k of Some e \<Rightarrow> e | None \<Rightarrow> z)" and s': "s' = put (snd (get s k)) k v"
    using r get_value [OF assms(1), of k]
    by (auto simp: accumulate_def Let_def split: prod.splits option.splits)
  then show "v = f (case look s k of Some e \<Rightarrow> e | None \<Rightarrow> z)" "look s' k = Some v" "inv s'"
    "k' \<noteq> k \<Longrightarrow> look s' k' \<in> {look s k', None}"
    using put_get [OF assms(1)] by auto
qed

end

definition omap_get :: "('k, 'v) omap \<Rightarrow> 'k \<Rightarrow> 'v option \<times> ('k, 'v) omap" where
  "omap_get m k = (map_of m k, m)"

definition omap_set :: "('k, 'v) omap \<Rightarrow> 'k \<Rightarrow> 'v \<Rightarrow> ('k, 'v) omap" where
  "omap_set m k v = AList.update k v m"

interpretation js_map: keyed_store omap_get omap_set map_of wf_omap
  by unfold_locales (auto simp: omap_get_def omap_set_def update_conv' distinct_update)

definition groupBy :: "'a list \<Rightarrow> ('a \<Rightarrow> 'k) \<Rightarrow> ('k, 'a list) omap" where
  "groupBy items key =
     fold (\<lambda>item m. case map_of m (key item) of
                      Some bucket \<Rightarrow> AList.update (key item) (bucket @ [item]) m
                    | None \<Rightarrow> AList.update (key item) [item] m) items []"

definition buckets :: "'a list \<Rightarrow> ('a \<Rightarrow> 'k) \<Rightarrow> 'a list list" where
  "buckets items key = map snd (groupBy items key)"

definition indexBy :: "'a list \<Rightarrow> ('a \<Rightarrow> 'k) \<Rightarrow> ('a \<Rightarrow> 'k \<Rightarrow> 'v) \<Rightarrow> ('k, 'v) omap" where
  "indexBy items key val = fold (\<lambda>item m. AList.update (key item) (val item (key item)) m) items []"

definition unique :: "'a list \<Rightarrow> 'a list" where
  "unique items = fold set_add items []"

fun uniqueBy_loop :: "'k list \<Rightarrow> ('a \<Rightarrow> 'k) \<Rightarrow> 'a list \<Rightarrow> 'a list" where
  "uniqueBy_loop seen key [] = []"
| "uniqueBy_loop seen key (x # xs) =
     (if key x \<in> set seen then uniqueBy_loop seen key xs
      else x # uniqueBy_loop (set_add (key x) seen) key xs)"

definition uniqueBy :: "'a list \<Rightarrow> ('a \<Rightarrow> 'k) \<Rightarrow> 'a list" where
  "uniqueBy items key = uniqueBy_loop [] key items"

definition flatUnique :: "'a list list \<Rightarrow> 'a list" where
  "flatUnique colls = unique (concat colls)"

definition removeByFrom :: "'a list \<Rightarrow> ('a \<Rightarrow> bool) \<Rightarrow> bool \<Rightarrow> 'a option \<times> 'a list" where
  "removeByFrom items predicate fromLast =
     (case (if fromLast
            then map_option (\<lambda>i. length items - 1 - i) (find_index predicate (rev items))
            else find_index predicate items) of
        None \<Rightarrow> (None, items)
      | Some i \<Rightarrow> (Some (items ! i), delete_at i items))"

definition removeBy :: "'a list \<Rightarrow> ('a \<Rightarrow> bool) \<Rightarrow> 'a option \<times> 'a list" where
  "removeBy items predicate = removeByFrom items predicate False"

definition removeLastBy :: "'a list \<Rightarrow> ('a \<Rightarrow> bool) \<Rightarrow> 'a option \<times> 'a list" where
  "removeLastBy items predicate = removeByFrom items predicate True"

definition addToSet :: "('k, 'a list) omap \<Rightarrow> 'k \<Rightarrow> 'a \<Rightarrow> ('k, 'a list) omap" where
  "addToSet m key v =
     (case map_of m key of
        None \<Rightarrow> AList.update key (set_add v []) m
      | Some bucket \<Rightarrow> AList.update key (set_add v bucket) m)"

definition removeFromSet :: "('k, 'a list) omap \<Rightarrow> 'k \<Rightarrow> 'a \<Rightarrow> ('k, 'a list) omap" where
  "removeFromSet m key v =
     (case map_of m key of
        None \<Rightarrow> m
      | Some bucket \<Rightarrow>
          (let bucket' = removeAll v bucket
           in if bucket' = [] then AList.delete key m else AList.update key bucket' m))"

lemma map_of_groupBy:
  "map_of (groupBy items key) k =
   (let g = filter (\<lambda>x. key x = k) items in if g = [] then None else Some g)"
  by (induction items rule: rev_induct)
    (auto simp: groupBy_def Let_def update_conv' split: option.splits if_splits)

lemma set_unique_aux: "set (fold set_add xs acc) = set acc \<union> set xs"
  by (induction xs arbitrary: acc) auto

lemma distinct_unique_aux: "distinct (fold set_add xs acc) = distinct acc"
  by (induction xs arbitrary: acc) auto

lemma set_unique [simp]: "set (unique xs) = set xs"
  by (simp add: unique_def set_unique_aux)

lemma distinct_unique [simp]: "distinct (unique xs)"
  by (simp add: unique_def distinct_unique_aux)

lemma uniqueBy_loop_keys:
  "distinct (map key (uniqueBy_loop seen key xs))
   \<and> key ` set (uniqueBy_loop seen key xs) = key ` set xs - set seen
   \<and> set (uniqueBy_loop seen key xs) \<subseteq> set xs"
  by (induction xs arbitrary: seen) auto

lemma find_index_less: "find_index p xs = Some i \<Longrightarrow> i < length xs"
  by (simp add: find_index_Some)

lemma removeByFrom_None:
  "fst (removeByFrom items p b) = None \<longleftrightarrow> (\<forall>x \<in> set items. \<not> p x)"
  using find_index_None [of p "rev items"] find_index_None [of p items]
  by (cases b; cases "find_index p items"; cases "find_index p (rev items)")
    (simp_all add: removeByFrom_def)

lemma removeByFrom_absent:
  "fst (removeByFrom items p b) = None \<Longrightarrow> snd (removeByFrom items p b) = items"
  by (auto simp: removeByFrom_def split: option.splits)

lemma removeByFrom_present:
  assumes "removeByFrom items p b = (Some x, rest)"
  shows "p x" "mset items = add_mset x (mset rest)"
proof -
  obtain i where i: "i < length items" "p (items ! i)" "x = items ! i" "rest = delete_at i items"
  proof (cases b)
    case True
    then obtain j where j: "find_index p (rev items) = Some j"
      "x = items ! (length items - 1 - j)" "rest = delete_at (length items - 1 - j) items"
      using assms by (auto simp: removeByFrom_def split: option.splits)
    then have "j < length items" "p (rev items ! j)" by (simp_all add: find_index_Some)
    with j show ?thesis by (intro that [of "length items - 1 - j"]) (simp_all add: rev_nth)
  next
    case False
    then show ?thesis using assms that
      by (auto simp: removeByFrom_def find_index_Some split: option.splits)
  qed
  then show "p x" "mset items = add_mset x (mset rest)" by (simp_all add: mset_delete_at)
qed

lemma removeFromSet_no_empty:
  "\<forall>(k, b) \<in> set m. b \<noteq> [] \<Longrightarrow> \<forall>(k, b) \<in> set (removeFromSet m key v). b \<noteq> []"
  using set_update_entries [of key "removeAll v (the (map_of m key))" m]
  by (auto simp: removeFromSet_def Let_def AList.delete_eq split: option.split)


section \<open>Bounded containers\<close>

text \<open>
  \<open>BoundedContainer\<close>: a capacity, a size, the pressure \<open>size / capacity\<close> in the
  unit interval, and \<open>clear\<close>. The contract every implementation keeps is
  \<open>size <= capacity\<close>, which the code states as the hard capacity limit.
\<close>

definition pressureOf :: "int \<Rightarrow> int \<Rightarrow> real" where
  "pressureOf sz cap = occupancy (real_of_int sz) (real_of_int cap) 1"

record containerStats =
  cs_size :: int
  cs_capacity :: int
  cs_utilization :: real

definition containerStats_of :: "int \<Rightarrow> int \<Rightarrow> containerStats" where
  "containerStats_of sz cap =
     \<lparr>cs_size = sz, cs_capacity = cap, cs_utilization = pressureOf sz cap\<rparr>"

locale bounded_container =
  fixes csize :: "'s \<Rightarrow> int" and ccapacity :: "'s \<Rightarrow> int" and cclear :: "'s \<Rightarrow> 's"
    and cinv :: "'s \<Rightarrow> bool"
  assumes size_nonneg: "0 \<le> csize s"
    and capacity_pos: "cinv s \<Longrightarrow> 0 < ccapacity s"
    and size_bound: "cinv s \<Longrightarrow> csize s \<le> ccapacity s"
    and clear_size: "csize (cclear s) = 0"
    and clear_inv: "cinv s \<Longrightarrow> cinv (cclear s)"
begin

lemma pressure_range:
  assumes "cinv s"
  shows "0 \<le> pressureOf (csize s) (ccapacity s)" "pressureOf (csize s) (ccapacity s) \<le> 1"
  by (simp_all add: pressureOf_def occupancy_range)

lemma pressure_exact:
  assumes "cinv s"
  shows "pressureOf (csize s) (ccapacity s) = real_of_int (csize s) / real_of_int (ccapacity s)"
  using size_nonneg [of s] capacity_pos [OF assms] size_bound [OF assms]
  by (simp add: pressureOf_def occupancy_def clamp01_def clamp_def)

lemma pressure_full:
  assumes "cinv s"
  shows "pressureOf (csize s) (ccapacity s) = 1 \<longleftrightarrow> csize s = ccapacity s"
  using capacity_pos [OF assms] by (auto simp: pressure_exact [OF assms])

lemma pressure_clear: "cinv s \<Longrightarrow> pressureOf (csize (cclear s)) (ccapacity (cclear s)) = 0"
  using pressure_exact [OF clear_inv] by (simp add: clear_size)

end

datatype overflowPolicy = DropOldest | Refuse

record 'a boundedRing =
  ring_items :: "'a list"
  ring_capacity :: int
  ring_overflow :: overflowPolicy

definition newBoundedRing :: "int \<Rightarrow> overflowPolicy \<Rightarrow> 'a boundedRing option" where
  "newBoundedRing cap ov =
     (if cap < 1 then None else Some \<lparr>ring_items = [], ring_capacity = cap, ring_overflow = ov\<rparr>)"

definition ring_size :: "'a boundedRing \<Rightarrow> int" where
  "ring_size r = int (length (ring_items r))"

definition ring_pressure :: "'a boundedRing \<Rightarrow> real" where
  "ring_pressure r = pressureOf (ring_size r) (ring_capacity r)"

definition ring_push :: "'a boundedRing \<Rightarrow> 'a \<Rightarrow> 'a option \<times> 'a boundedRing" where
  "ring_push r item =
     (if ring_overflow r = Refuse \<and> int (length (ring_items r)) \<ge> ring_capacity r
      then (Some item, r)
      else (case pushCapped (ring_items r) item (ring_capacity r) of
              (items', displaced) \<Rightarrow> (displaced, r\<lparr>ring_items := items'\<rparr>)))"

definition ring_tryPush :: "'a boundedRing \<Rightarrow> 'a \<Rightarrow> bool \<times> 'a boundedRing" where
  "ring_tryPush r item =
     (if ring_overflow r = Refuse \<and> int (length (ring_items r)) \<ge> ring_capacity r
      then (False, r)
      else (True, snd (ring_push r item)))"

definition ring_shift :: "'a boundedRing \<Rightarrow> 'a option \<times> 'a boundedRing" where
  "ring_shift r =
     (case ring_items r of
        [] \<Rightarrow> (None, r)
      | x # xs \<Rightarrow> (Some x, r\<lparr>ring_items := xs\<rparr>))"

definition ring_clear :: "'a boundedRing \<Rightarrow> 'a boundedRing" where
  "ring_clear r = r\<lparr>ring_items := []\<rparr>"

definition ring_first :: "'a boundedRing \<Rightarrow> 'a option" where
  "ring_first r = (case ring_items r of [] \<Rightarrow> None | x # _ \<Rightarrow> Some x)"

definition ring_last :: "'a boundedRing \<Rightarrow> 'a option" where
  "ring_last r = (if ring_items r = [] then None else Some (last (ring_items r)))"

definition ring_tail :: "'a boundedRing \<Rightarrow> int \<Rightarrow> 'a list" where
  "ring_tail r n = takeLast (ring_items r) n"

definition ring_inv :: "'a boundedRing \<Rightarrow> bool" where
  "ring_inv r = (1 \<le> ring_capacity r \<and> ring_size r \<le> ring_capacity r)"

lemma newBoundedRing_inv [inv_intros]: "newBoundedRing c ov = Some r \<Longrightarrow> ring_inv r"
  by (auto simp: newBoundedRing_def ring_inv_def ring_size_def split: if_splits)

lemma ring_push_inv [inv_intros]: "ring_inv r \<Longrightarrow> ring_inv (snd (ring_push r x))"
  by (auto simp: ring_push_def ring_inv_def ring_size_def pushCapped_def Let_def)

lemma ring_tryPush_inv [inv_intros]: "ring_inv r \<Longrightarrow> ring_inv (snd (ring_tryPush r x))"
  by (simp add: ring_tryPush_def ring_push_inv)

lemma ring_shift_inv [inv_intros]: "ring_inv r \<Longrightarrow> ring_inv (snd (ring_shift r))"
  by (auto simp: ring_shift_def ring_inv_def ring_size_def split: list.split)

lemma ring_frame [frame_simps]:
  "ring_capacity (snd (ring_push r x)) = ring_capacity r"
  "ring_overflow (snd (ring_push r x)) = ring_overflow r"
  "ring_capacity (ring_clear r) = ring_capacity r"
  by (auto simp: ring_push_def ring_clear_def split: prod.split)

lemma ring_push_drop:
  assumes "ring_inv r" "ring_overflow r = DropOldest"
  shows "ring_items (snd (ring_push r x)) = takeLast (ring_items r @ [x]) (ring_capacity r)"
  using assms pushCapped_takeLast [of "ring_capacity r" "ring_items r" x]
  by (auto simp: ring_push_def ring_inv_def ring_size_def split: prod.split)

lemma ring_push_refuse:
  assumes "ring_inv r" "ring_overflow r = Refuse"
  shows "ring_push r x = (if ring_size r = ring_capacity r then (Some x, r)
                          else (None, r\<lparr>ring_items := ring_items r @ [x]\<rparr>))"
  using assms by (auto simp: ring_push_def ring_inv_def ring_size_def pushCapped_def Let_def)

text \<open>What was in the ring and what arrived is what stays and what is handed back.\<close>

lemma ring_push_mset:
  assumes "ring_inv r" "ring_push r x = (d, r')"
  shows "add_mset x (mset (ring_items r)) =
    mset (ring_items r') + (case d of None \<Rightarrow> {#} | Some y \<Rightarrow> {#y#})"
  using assms
  by (cases "ring_items r")
    (auto simp: ring_push_def pushCapped_def Let_def ring_inv_def split: if_splits)

interpretation ring: bounded_container ring_size ring_capacity ring_clear ring_inv
  by unfold_locales (auto simp: ring_size_def ring_inv_def ring_clear_def)

end
