(* ===== verification/Bounded_Map.thy ===== *)
theory Bounded_Map
  imports Collections
begin

text \<open>
  \<open>BoundedMap\<close> (\<open>util/src/utils/bounded-map.ts\<close>): the capacity-limited
  \<open>Map\<close> with its time to live and eviction orders. The clock reading and the random
  draw an operation makes are its arguments. A time to live or an expiry of \<open>None\<close> is
  \<open>Infinity\<close>. The calls of \<open>onEvict\<close> are recorded in \<open>bm_evicted\<close>, in order.
  The record is extensible: the classes that extend \<open>BoundedMap\<close> add fields to it.
  The theory interprets \<open>bounded_container\<close> and \<open>keyed_store\<close> on it and
  characterises the \<open>lru\<close> order by the list of accesses.
\<close>

section \<open>BoundedMap\<close>

record 'v entry =
  e_value :: 'v
  e_expiresAt :: "real option"

datatype 'v evictionOrder = Lru | Fifo | RandomOrder | EvictBy "'v \<Rightarrow> real"

record ('k, 'v) boundedMap =
  bm_entries :: "('k, 'v entry) omap"
  bm_maxSize :: int
  bm_ttlMs :: "real option"
  bm_order :: "'v evictionOrder"
  bm_touchOnRead :: bool
  bm_evicted :: "('v \<times> 'k) list"

definition is_lru :: "'v evictionOrder \<Rightarrow> bool" where
  "is_lru ord = (case ord of Lru \<Rightarrow> True | _ \<Rightarrow> False)"

definition newBoundedMap ::
  "int \<Rightarrow> real option \<Rightarrow> 'v evictionOrder \<Rightarrow> bool option \<Rightarrow> ('k, 'v) boundedMap" where
  "newBoundedMap maxSize ttlMs eviction touchOnRead =
     \<lparr>bm_entries = [], bm_maxSize = max 1 maxSize, bm_ttlMs = ttlMs, bm_order = eviction,
      bm_touchOnRead = (case touchOnRead of Some t \<Rightarrow> t | None \<Rightarrow> is_lru eviction),
      bm_evicted = []\<rparr>"

definition bm_size :: "('k, 'v, 'z) boundedMap_scheme \<Rightarrow> int" where
  "bm_size b = int (length (bm_entries b))"

definition bm_pressure :: "('k, 'v, 'z) boundedMap_scheme \<Rightarrow> real" where
  "bm_pressure b = pressureOf (bm_size b) (bm_maxSize b)"

definition bm_evict :: "('k, 'v, 'z) boundedMap_scheme \<Rightarrow> 'k \<Rightarrow> bool \<times> ('k, 'v, 'z) boundedMap_scheme" where
  "bm_evict b key =
     (case map_of (bm_entries b) key of
        None \<Rightarrow> (False, b)
      | Some e \<Rightarrow> (True, b\<lparr>bm_entries := AList.delete key (bm_entries b),
                          bm_evicted := bm_evicted b @ [(e_value e, key)]\<rparr>))"

definition bm_expired :: "real \<Rightarrow> ('k, 'v, 'z) boundedMap_scheme \<Rightarrow> 'v entry \<Rightarrow> bool" where
  "bm_expired now b e =
     (bm_ttlMs b \<noteq> None \<and> (case e_expiresAt e of None \<Rightarrow> False | Some t \<Rightarrow> t \<le> now))"

definition bm_live ::
  "real \<Rightarrow> ('k, 'v, 'z) boundedMap_scheme \<Rightarrow> 'k \<Rightarrow> 'v entry option \<times> ('k, 'v, 'z) boundedMap_scheme" where
  "bm_live now b key =
     (case map_of (bm_entries b) key of
        None \<Rightarrow> (None, b)
      | Some e \<Rightarrow> if bm_expired now b e then (None, snd (bm_evict b key)) else (Some e, b))"

definition bm_reinsert ::
  "('k, 'v, 'z) boundedMap_scheme \<Rightarrow> 'k \<Rightarrow> 'v entry \<Rightarrow> ('k, 'v, 'z) boundedMap_scheme" where
  "bm_reinsert b key e =
     b\<lparr>bm_entries := AList.update key e (AList.delete key (bm_entries b))\<rparr>"

definition bm_get ::
  "real \<Rightarrow> ('k, 'v, 'z) boundedMap_scheme \<Rightarrow> 'k \<Rightarrow> 'v option \<times> ('k, 'v, 'z) boundedMap_scheme" where
  "bm_get now b key =
     (case bm_live now b key of
        (None, b') \<Rightarrow> (None, b')
      | (Some e, b') \<Rightarrow>
          (Some (e_value e), if bm_touchOnRead b' then bm_reinsert b' key e else b'))"

definition bm_peek ::
  "real \<Rightarrow> ('k, 'v, 'z) boundedMap_scheme \<Rightarrow> 'k \<Rightarrow> 'v option \<times> ('k, 'v, 'z) boundedMap_scheme" where
  "bm_peek now b key = (case bm_live now b key of (e, b') \<Rightarrow> (map_option e_value e, b'))"

definition bm_touch ::
  "real \<Rightarrow> ('k, 'v, 'z) boundedMap_scheme \<Rightarrow> 'k \<Rightarrow> bool \<times> ('k, 'v, 'z) boundedMap_scheme" where
  "bm_touch now b key =
     (case bm_live now b key of
        (None, b') \<Rightarrow> (False, b')
      | (Some e, b') \<Rightarrow> (True, bm_reinsert b' key e))"

definition bm_has ::
  "real \<Rightarrow> ('k, 'v, 'z) boundedMap_scheme \<Rightarrow> 'k \<Rightarrow> bool \<times> ('k, 'v, 'z) boundedMap_scheme" where
  "bm_has now b key = (case bm_live now b key of (e, b') \<Rightarrow> (e \<noteq> None, b'))"

text \<open>\<open>nextInt\<close>: the index drawn is \<open>floor(r * size)\<close> of a draw \<open>r\<close> in \<open>[0, 1)\<close>.\<close>

definition bm_randomKey :: "real \<Rightarrow> ('k, 'v, 'z) boundedMap_scheme \<Rightarrow> 'k option" where
  "bm_randomKey r b =
     (let target = \<lfloor>r * real_of_int (bm_size b)\<rfloor>
      in if 0 \<le> target \<and> target < bm_size b then Some (okeys (bm_entries b) ! nat target) else None)"

definition bm_selectVictim :: "real \<Rightarrow> ('k, 'v, 'z) boundedMap_scheme \<Rightarrow> 'k option" where
  "bm_selectVictim r b =
     (case bm_order b of
        Lru \<Rightarrow> (case bm_entries b of [] \<Rightarrow> None | e # _ \<Rightarrow> Some (fst e))
      | Fifo \<Rightarrow> (case bm_entries b of [] \<Rightarrow> None | e # _ \<Rightarrow> Some (fst e))
      | RandomOrder \<Rightarrow> bm_randomKey r b
      | EvictBy by_fn \<Rightarrow> map_option fst (minBy (bm_entries b) (\<lambda>(_, e). by_fn (e_value e))))"

definition bm_evictVictim ::
  "real \<Rightarrow> ('k, 'v, 'z) boundedMap_scheme \<Rightarrow> ('k, 'v, 'z) boundedMap_scheme" where
  "bm_evictVictim r b =
     (case bm_selectVictim r b of None \<Rightarrow> b | Some victim \<Rightarrow> snd (bm_evict b victim))"

definition bm_set ::
  "real \<Rightarrow> real \<Rightarrow> ('k, 'v, 'z) boundedMap_scheme \<Rightarrow> 'k \<Rightarrow> 'v \<Rightarrow> ('k, 'v, 'z) boundedMap_scheme" where
  "bm_set now r b key v =
     (let b1 = (if key \<in> set (okeys (bm_entries b))
                then b\<lparr>bm_entries := AList.delete key (bm_entries b)\<rparr>
                else if bm_size b \<ge> bm_maxSize b then bm_evictVictim r b else b)
      in b1\<lparr>bm_entries := AList.update key
              \<lparr>e_value = v, e_expiresAt = map_option (\<lambda>ttl. now + ttl) (bm_ttlMs b1)\<rparr>
              (bm_entries b1)\<rparr>)"

definition bm_delete :: "('k, 'v, 'z) boundedMap_scheme \<Rightarrow> 'k \<Rightarrow> bool \<times> ('k, 'v, 'z) boundedMap_scheme" where
  "bm_delete b key =
     (key \<in> set (okeys (bm_entries b)), b\<lparr>bm_entries := AList.delete key (bm_entries b)\<rparr>)"

definition bm_clear :: "('k, 'v, 'z) boundedMap_scheme \<Rightarrow> ('k, 'v, 'z) boundedMap_scheme" where
  "bm_clear b =
     b\<lparr>bm_entries := [],
       bm_evicted := bm_evicted b @ map (\<lambda>(k, e). (e_value e, k)) (bm_entries b)\<rparr>"

fun bm_sweep ::
  "real \<Rightarrow> ('k, 'v entry) omap \<Rightarrow> ('k, 'v, 'z) boundedMap_scheme \<Rightarrow> ('k \<times> 'v) list \<times> ('k, 'v, 'z) boundedMap_scheme" where
  "bm_sweep now [] b = ([], b)"
| "bm_sweep now ((key, e) # es) b =
     (if bm_expired now b e then bm_sweep now es (snd (bm_evict b key))
      else (case bm_sweep now es b of (out, b') \<Rightarrow> ((key, e_value e) # out, b')))"

definition bm_liveEntries ::
  "real \<Rightarrow> ('k, 'v, 'z) boundedMap_scheme \<Rightarrow> ('k \<times> 'v) list \<times> ('k, 'v, 'z) boundedMap_scheme" where
  "bm_liveEntries now b = bm_sweep now (bm_entries b) b"

fun bm_purge_loop ::
  "real \<Rightarrow> ('k, 'v entry) omap \<Rightarrow> nat \<Rightarrow> ('k, 'v, 'z) boundedMap_scheme \<Rightarrow> nat \<times> ('k, 'v, 'z) boundedMap_scheme" where
  "bm_purge_loop now [] removed b = (removed, b)"
| "bm_purge_loop now ((key, e) # es) removed b =
     (if bm_expired now b e
      then (case bm_evict b key of
              (ok, b') \<Rightarrow> bm_purge_loop now es (if ok then Suc removed else removed) b')
      else bm_purge_loop now es removed b)"

definition bm_purgeExpired ::
  "real \<Rightarrow> ('k, 'v, 'z) boundedMap_scheme \<Rightarrow> nat \<times> ('k, 'v, 'z) boundedMap_scheme" where
  "bm_purgeExpired now b =
     (if bm_ttlMs b = None then (0, b) else bm_purge_loop now (bm_entries b) 0 b)"

subsection \<open>Invariant\<close>

text \<open>
  Keys are unique and no more than \<open>maxSize\<close> of them are held. A configured time to
  live is positive: with a time to live of zero an entry is expired when it is written.
\<close>

definition bm_inv :: "('k, 'v, 'z) boundedMap_scheme \<Rightarrow> bool" where
  "bm_inv b = (wf_omap (bm_entries b) \<and> 1 \<le> bm_maxSize b \<and> bm_size b \<le> bm_maxSize b
     \<and> (\<forall>t. bm_ttlMs b = Some t \<longrightarrow> 0 < t))"

definition bm_look :: "real \<Rightarrow> ('k, 'v, 'z) boundedMap_scheme \<Rightarrow> 'k \<Rightarrow> 'v option" where
  "bm_look now b key =
     (case map_of (bm_entries b) key of
        None \<Rightarrow> None
      | Some e \<Rightarrow> if bm_expired now b e then None else Some (e_value e))"

lemma newBoundedMap_inv [inv_intros]:
  "(\<And>t. ttl = Some t \<Longrightarrow> 0 < t) \<Longrightarrow> bm_inv (newBoundedMap n ttl ord tch)"
  by (auto simp: newBoundedMap_def bm_inv_def bm_size_def)

lemma bm_evict_frame [frame_simps]:
  "bm_maxSize (snd (bm_evict b k)) = bm_maxSize b"
  "bm_ttlMs (snd (bm_evict b k)) = bm_ttlMs b"
  "bm_order (snd (bm_evict b k)) = bm_order b"
  "bm_touchOnRead (snd (bm_evict b k)) = bm_touchOnRead b"
  "bm_entries (snd (bm_evict b k)) = AList.delete k (bm_entries b)"
  by (auto simp: bm_evict_def map_of_None_iff split: option.split)

lemma bm_evictVictim_frame [frame_simps]:
  "bm_maxSize (bm_evictVictim r b) = bm_maxSize b"
  "bm_ttlMs (bm_evictVictim r b) = bm_ttlMs b"
  "bm_order (bm_evictVictim r b) = bm_order b"
  "bm_touchOnRead (bm_evictVictim r b) = bm_touchOnRead b"
  by (auto simp: bm_evictVictim_def frame_simps split: option.split)

lemma bm_evict_inv [inv_intros]: "bm_inv b \<Longrightarrow> bm_inv (snd (bm_evict b k))"
  using length_delete_le [of k "bm_entries b"]
  by (auto simp: bm_inv_def frame_simps bm_size_def)

lemma bm_live_inv [inv_intros]: "bm_inv b \<Longrightarrow> bm_inv (snd (bm_live now b k))"
  by (auto simp: bm_live_def bm_evict_inv split: option.split)

lemma bm_live_Some:
  "bm_live now b k = (Some e, b') \<Longrightarrow>
   b' = b \<and> map_of (bm_entries b) k = Some e \<and> \<not> bm_expired now b e
   \<and> k \<in> fst ` set (bm_entries b)"
  by (force simp: bm_live_def split: option.splits if_splits dest: map_of_SomeD)

lemma bm_live_None:
  "bm_live now b k = (None, b') \<Longrightarrow>
   b' = b \<and> map_of (bm_entries b) k = None
   \<or> (\<exists>e. map_of (bm_entries b) k = Some e \<and> bm_expired now b e \<and> b' = snd (bm_evict b k))"
  by (auto simp: bm_live_def split: option.splits if_splits)

lemma bm_reinsert_entries:
  "bm_entries (bm_reinsert b k e) = AList.delete k (bm_entries b) @ [(k, e)]"
  by (simp add: bm_reinsert_def update_absent)

lemma bm_reinsert_inv:
  assumes "bm_inv b" "k \<in> set (okeys (bm_entries b))"
  shows "bm_inv (bm_reinsert b k e)"
proof -
  have "length (bm_entries (bm_reinsert b k e)) = length (bm_entries b)"
    using assms length_delete_present [of "bm_entries b" k]
    by (simp add: bm_reinsert_entries bm_inv_def)
  then show ?thesis using assms
    by (auto simp: bm_inv_def bm_size_def bm_reinsert_entries) (simp_all add: bm_reinsert_def)
qed

lemma bm_randomKey_present: "bm_randomKey r b = Some k \<Longrightarrow> k \<in> set (okeys (bm_entries b))"
  by (auto simp: bm_randomKey_def bm_size_def Let_def nat_less_iff
      split: if_splits intro!: imageI)

lemma bm_victim_present:
  assumes "bm_selectVictim r b = Some k"
  shows "k \<in> set (okeys (bm_entries b))"
proof (cases "bm_order b")
  case (EvictBy f)
  then obtain e where "minBy (bm_entries b) (\<lambda>(_, e). f (e_value e)) = Some (k, e)"
    using assms by (auto simp: bm_selectVictim_def)
  then show ?thesis by (auto dest!: minBy_least(1) intro: rev_image_eqI)
qed (use assms bm_randomKey_present in \<open>auto simp: bm_selectVictim_def split: list.splits\<close>)

lemma bm_victim_exists:
  assumes "bm_entries b \<noteq> []" "0 \<le> r" "r < 1"
  shows "\<exists>k. bm_selectVictim r b = Some k"
proof -
  have pos: "0 < real_of_int (bm_size b)" using assms by (simp add: bm_size_def)
  then have "r * real_of_int (bm_size b) < real_of_int (bm_size b)" using assms by simp
  then have "\<lfloor>r * real_of_int (bm_size b)\<rfloor> < bm_size b" by linarith
  moreover have "0 \<le> \<lfloor>r * real_of_int (bm_size b)\<rfloor>" using pos assms by simp
  ultimately show ?thesis using assms(1)
    by (auto simp: bm_selectVictim_def bm_randomKey_def Let_def minBy_Cons
        split: evictionOrder.splits list.splits)
qed

lemma bm_set_entries:
  "bm_entries (bm_set now r b k v) =
   (let es = (if k \<in> set (okeys (bm_entries b)) then AList.delete k (bm_entries b)
              else if bm_size b \<ge> bm_maxSize b then bm_entries (bm_evictVictim r b)
              else bm_entries b)
    in AList.delete k es @ [(k, \<lparr>e_value = v, e_expiresAt = map_option (\<lambda>ttl. now + ttl) (bm_ttlMs b)\<rparr>)])"
proof -
  have "k \<notin> set (okeys (bm_entries b)) \<Longrightarrow> k \<notin> set (okeys (bm_entries (bm_evictVictim r b)))"
    by (auto simp: bm_evictVictim_def frame_simps AList.delete_eq split: option.splits)
  then show ?thesis
    by (auto simp: bm_set_def Let_def update_absent frame_simps)
qed


lemma bm_evictVictim_size:
  assumes "bm_inv b" "bm_entries b \<noteq> []" "0 \<le> r" "r < 1"
  shows "bm_size (bm_evictVictim r b) = bm_size b - 1" "wf_omap (bm_entries (bm_evictVictim r b))"
proof -
  obtain k where k: "bm_selectVictim r b = Some k" using bm_victim_exists assms by blast
  then have "k \<in> set (okeys (bm_entries b))" by (rule bm_victim_present)
  with k assms(1) show "bm_size (bm_evictVictim r b) = bm_size b - 1"
    "wf_omap (bm_entries (bm_evictVictim r b))"
    using length_delete_present [of "bm_entries b" k]
    by (auto simp: bm_evictVictim_def bm_size_def frame_simps bm_inv_def)
qed

lemma bm_set_frame [frame_simps]:
  "bm_maxSize (bm_set now r b k v) = bm_maxSize b"
  "bm_ttlMs (bm_set now r b k v) = bm_ttlMs b"
  "bm_order (bm_set now r b k v) = bm_order b"
  "bm_touchOnRead (bm_set now r b k v) = bm_touchOnRead b"
  by (auto simp: bm_set_def Let_def frame_simps)

lemma bm_set_inv [inv_intros]:
  assumes inv: "bm_inv b" and r: "0 \<le> r" "r < 1"
  shows "bm_inv (bm_set now r b k v)"
proof -
  let ?es = "if k \<in> set (okeys (bm_entries b)) then AList.delete k (bm_entries b)
             else if bm_size b \<ge> bm_maxSize b then bm_entries (bm_evictVictim r b)
             else bm_entries b"
  have "wf_omap ?es \<and> int (length ?es) < bm_maxSize b"
  proof -
    consider "k \<in> set (okeys (bm_entries b))"
      | "k \<notin> set (okeys (bm_entries b))" "bm_size b \<ge> bm_maxSize b"
      | "k \<notin> set (okeys (bm_entries b))" "bm_size b < bm_maxSize b" by linarith
    then show ?thesis
    proof cases
      case 1
      with inv length_delete_present [of "bm_entries b" k] show ?thesis
        by (simp add: bm_inv_def bm_size_def)
    next
      case 2
      then have "bm_entries b \<noteq> []" using inv by (auto simp: bm_inv_def bm_size_def)
      with 2 inv bm_evictVictim_size [OF inv _ r] show ?thesis
        by (simp add: bm_inv_def bm_size_def)
    next
      case 3
      with inv show ?thesis by (simp add: bm_inv_def bm_size_def)
    qed
  qed
  then have "wf_omap (bm_entries (bm_set now r b k v))"
    "int (length (bm_entries (bm_set now r b k v))) \<le> bm_maxSize b"
    using length_delete_le [of k ?es] by (auto simp: bm_set_entries Let_def)
  with inv show ?thesis by (simp add: bm_inv_def bm_size_def frame_simps)
qed

lemma bm_get_inv [inv_intros]: "bm_inv b \<Longrightarrow> bm_inv (snd (bm_get now b k))"
  using bm_live_inv [of b now k] bm_live_Some [of now b k]
  by (auto simp: bm_get_def split: prod.splits option.splits
      intro!: bm_reinsert_inv)

lemma bm_delete_inv [inv_intros]: "bm_inv b \<Longrightarrow> bm_inv (snd (bm_delete b k))"
  using length_delete_le [of k "bm_entries b"]
  by (auto simp: bm_inv_def bm_delete_def bm_size_def)

lemma bm_touch_inv [inv_intros]: "bm_inv b \<Longrightarrow> bm_inv (snd (bm_touch now b k))"
  using bm_live_inv [of b now k] bm_live_Some [of now b k]
  by (auto simp: bm_touch_def split: prod.splits option.splits
      intro!: bm_reinsert_inv)

lemma bm_clear_inv [inv_intros]: "bm_inv b \<Longrightarrow> bm_inv (bm_clear b)"
  by (simp add: bm_clear_def bm_inv_def bm_size_def)

interpretation bm: bounded_container bm_size bm_maxSize bm_clear bm_inv
  by unfold_locales (auto simp: bm_size_def bm_inv_def bm_clear_def)

subsection \<open>Reads and writes\<close>

lemma bm_expired_frame [simp]:
  "bm_expired now (snd (bm_evict b k)) e = bm_expired now b e"
  "bm_expired now (bm_reinsert b k' e') e = bm_expired now b e"
  "bm_expired now (bm_set now' r b k v) e = bm_expired now b e"
  by (simp_all add: bm_expired_def frame_simps bm_reinsert_def)

lemma bm_look_get:
  "fst (bm_get now b k) = bm_look now b k"
  by (auto simp: bm_get_def bm_live_def bm_look_def split: option.splits)

lemma bm_look_evict_expired:
  "map_of (bm_entries b) k = Some e \<Longrightarrow> bm_expired now b e \<Longrightarrow>
   bm_look now (snd (bm_evict b k)) k' = bm_look now b k'"
  by (simp add: bm_look_def frame_simps delete_conv' split: option.split)

lemma bm_look_reinsert:
  "map_of (bm_entries b) k = Some e \<Longrightarrow> bm_look now (bm_reinsert b k e) k' = bm_look now b k'"
  by (simp add: bm_look_def bm_reinsert_entries delete_conv' map_add_def split: option.split)

lemma bm_look_get_frame: "bm_look now (snd (bm_get now b k)) k' = bm_look now b k'"
proof (cases "bm_live now b k")
  case (Pair o' b')
  show ?thesis
  proof (cases o')
    case None
    with Pair bm_live_None [of now b k b'] show ?thesis
      by (auto simp: bm_get_def bm_look_evict_expired)
  next
    case (Some e)
    with Pair bm_live_Some [of now b k e b'] show ?thesis
      by (auto simp: bm_get_def bm_look_reinsert)
  qed
qed

lemma bm_look_set_same: "bm_inv b \<Longrightarrow> bm_look now (bm_set now r b k v) k = Some v"
  by (auto simp: bm_look_def bm_set_def bm_expired_def Let_def frame_simps bm_inv_def
      split: option.split)

lemma bm_look_set_other:
  "k' \<noteq> k \<Longrightarrow> bm_look now (bm_set now r b k v) k' \<in> {bm_look now b k', None}"
  by (auto simp: bm_look_def bm_set_def Let_def frame_simps bm_evictVictim_def bm_expired_def
      delete_conv' split: option.splits)

interpretation bm_store: keyed_store "bm_get now" "bm_set now 0" "bm_look now" bm_inv
  for now :: real
proof unfold_locales
  fix s :: "('a, 'b, 'c) boundedMap_scheme" and k k' v
  assume inv: "bm_inv s"
  show "fst (bm_get now s k) = bm_look now s k" by (rule bm_look_get)
  show "bm_look now (snd (bm_get now s k)) = bm_look now s" by (rule ext, rule bm_look_get_frame)
  show "bm_inv (snd (bm_get now s k))" using inv by (rule bm_get_inv)
  show "bm_look now (bm_set now 0 s k v) k = Some v" using inv by (rule bm_look_set_same)
  show "k' \<noteq> k \<Longrightarrow> bm_look now (bm_set now 0 s k v) k' \<in> {bm_look now s k', None}"
    by (rule bm_look_set_other)
  show "bm_inv (bm_set now 0 s k v)" using inv by (rule bm_set_inv) simp_all
qed

text \<open>The sweeps drop exactly the expired entries, and each of them once.\<close>

lemma bm_sweep_eq:
  "wf_omap es \<Longrightarrow> (\<forall>(k, e) \<in> set es. map_of (bm_entries b) k = Some e) \<Longrightarrow>
   fst (bm_sweep now es b) = map (\<lambda>(k, e). (k, e_value e)) (filter (\<lambda>(k, e). \<not> bm_expired now b e) es)
   \<and> bm_entries (snd (bm_sweep now es b)) =
     filter (\<lambda>(k, e). k \<notin> fst ` set (filter (\<lambda>(k, e). bm_expired now b e) es)) (bm_entries b)"
proof (induction es arbitrary: b)
  case (Cons p es)
  obtain k e where p: "p = (k, e)" by force
  show ?case
  proof (cases "bm_expired now b e")
    case True
    have "\<forall>(k', e') \<in> set es. map_of (bm_entries (snd (bm_evict b k))) k' = Some e'"
    proof clarify
      fix k' e' assume m: "(k', e') \<in> set es"
      then have "k' \<noteq> k" using Cons.prems(1) p by force
      with m Cons.prems(2) show "map_of (bm_entries (snd (bm_evict b k))) k' = Some e'"
        by (auto simp: frame_simps)
    qed
    with Cons.IH [of "snd (bm_evict b k)"] Cons.prems p True show ?thesis
      by (auto simp: frame_simps AList.delete_eq case_prod_unfold intro!: filter_cong)
  next
    case False
    with Cons.IH [of b] Cons.prems p show ?thesis by (cases "bm_sweep now es b") auto
  qed
qed simp


lemma bm_liveEntries_eq:
  assumes "bm_inv b"
  shows "fst (bm_liveEntries now b)
    = map (\<lambda>(k, e). (k, e_value e)) (filter (\<lambda>(k, e). \<not> bm_expired now b e) (bm_entries b))"
    "bm_entries (snd (bm_liveEntries now b)) = filter (\<lambda>(k, e). \<not> bm_expired now b e) (bm_entries b)"
proof -
  have wf: "wf_omap (bm_entries b)" using assms by (simp add: bm_inv_def)
  then have "\<forall>(k, e) \<in> set (bm_entries b). map_of (bm_entries b) k = Some e" by auto
  note sw = bm_sweep_eq [OF wf this, of now]
  then show "fst (bm_liveEntries now b)
    = map (\<lambda>(k, e). (k, e_value e)) (filter (\<lambda>(k, e). \<not> bm_expired now b e) (bm_entries b))"
    by (simp add: bm_liveEntries_def)
  have "filter (\<lambda>(k, e). k \<notin> fst ` set (filter (\<lambda>(k, e). bm_expired now b e) (bm_entries b))) (bm_entries b)
    = filter (\<lambda>(k, e). \<not> bm_expired now b e) (bm_entries b)"
    using wf by (intro filter_cong) (force dest: eq_key_imp_eq_value)+
  with sw show "bm_entries (snd (bm_liveEntries now b)) = filter (\<lambda>(k, e). \<not> bm_expired now b e) (bm_entries b)"
    by (simp add: bm_liveEntries_def)
qed

subsection \<open>The lru order keeps the most recently used keys\<close>

definition bm_access ::
  "real \<Rightarrow> ('k, 'v, 'z) boundedMap_scheme \<Rightarrow> 'k \<Rightarrow> 'v \<Rightarrow> ('k, 'v, 'z) boundedMap_scheme" where
  "bm_access now b key created =
     fst (snd (getOrInsert (bm_get now) (bm_set now 0) b key created))"

definition is_lru_map :: "('k, 'v, 'z) boundedMap_scheme \<Rightarrow> bool" where
  "is_lru_map b = (bm_ttlMs b = None \<and> bm_order b = Lru \<and> bm_touchOnRead b)"

lemma takeLast_rev: "takeLast xs n = rev (take (nat n) (rev xs))"
  by (cases "0 < n") (simp_all add: takeLast_drop rev_take, simp add: takeLast_def)

lemma remdups_snoc: "remdups (ks @ [k]) = removeAll k (remdups ks) @ [k]"
  by (induction ks) auto

lemma takeLast_touch:
  assumes "distinct xs" "0 < n"
  shows "takeLast (removeAll k (takeLast xs n) @ [k]) n = takeLast (removeAll k xs @ [k]) n"
proof -
  let ?A = "take (nat n) (rev xs)" and ?B = "drop (nat n) (rev xs)"
  have split: "removeAll k (rev xs) = removeAll k ?A @ removeAll k ?B"
    by (metis append_take_drop_id removeAll_append)
  have "take (nat n - 1) (removeAll k ?A) = take (nat n - 1) (removeAll k (rev xs))"
  proof (cases "length xs \<le> nat n")
    case False
    have "distinct ?A" using assms(1) by simp
    then have "length (removeAll k ?A) \<ge> length ?A - 1"
      by (subst distinct_remove1_removeAll [symmetric]) (auto simp: length_remove1)
    with False show ?thesis by (simp add: split)
  qed simp
  moreover have "rev (removeAll k (takeLast xs n)) = removeAll k ?A"
    by (simp add: takeLast_rev removeAll_filter_not_eq rev_filter)
  ultimately show ?thesis using assms(2)
    by (simp add: takeLast_rev [of "_ @ _"] removeAll_filter_not_eq rev_filter take_Cons')
qed

lemma removeAll_okeys: "okeys (AList.delete k m) = removeAll k (okeys m)"
  by (simp add: removeAll_filter_not_eq eq_commute)

lemma bm_access_keys:
  assumes inv: "bm_inv b" and lru: "is_lru_map b"
  shows "okeys (bm_entries (bm_access now b k c))
     = takeLast (removeAll k (okeys (bm_entries b)) @ [k]) (bm_maxSize b)"
    "bm_inv (bm_access now b k c)" "is_lru_map (bm_access now b k c)"
    "bm_maxSize (bm_access now b k c) = bm_maxSize b"
proof -
  have ne: "\<not> bm_expired now b e" for e using lru by (simp add: is_lru_map_def bm_expired_def)
  have len: "length (bm_entries b) \<le> nat (bm_maxSize b)" "1 \<le> bm_maxSize b" and wf: "wf_omap (bm_entries b)"
    using inv by (auto simp: bm_inv_def bm_size_def)
  show "bm_inv (bm_access now b k c)"
    using bm_store.getOrInsert_look(2) [OF inv, of now k c]
    by (metis bm_access_def prod.collapse)
  show "okeys (bm_entries (bm_access now b k c))
      = takeLast (removeAll k (okeys (bm_entries b)) @ [k]) (bm_maxSize b)"
  proof (cases "map_of (bm_entries b) k")
    case None
    then have k: "k \<notin> set (okeys (bm_entries b))" by (simp add: map_of_None_iff)
    then have g: "bm_access now b k c = bm_set now 0 b k c"
      using None by (simp add: bm_access_def getOrInsert_def bm_get_def bm_live_def)
    show ?thesis
    proof (cases "bm_size b \<ge> bm_maxSize b")
      case True
      then obtain p es where es: "bm_entries b = p # es"
        using len by (cases "bm_entries b") (auto simp: bm_size_def)
      have "bm_entries (bm_evictVictim 0 b) = AList.delete (fst p) (p # es)"
        using lru es by (simp add: bm_evictVictim_def bm_selectVictim_def is_lru_map_def frame_simps)
      also have "\<dots> = es" using wf es by (simp add: AList.delete_eq filter_id_conv) force
      finally have "bm_entries (bm_evictVictim 0 b) = es" .
      moreover have "nat (bm_maxSize b) = Suc (length es)" using True len es by (simp add: bm_size_def)
      ultimately show ?thesis using k True es
        by (simp add: g bm_set_entries Let_def takeLast_rev removeAll_okeys)
    next
      case False
      then have "int (length (okeys (bm_entries b) @ [k])) \<le> bm_maxSize b" by (simp add: bm_size_def)
      with k False show ?thesis
        by (simp add: g bm_set_entries Let_def takeLast_all)
    qed
  next
    case (Some e)
    then have "k \<in> set (okeys (bm_entries b))" by (metis map_of_None_iff option.distinct(1))
    moreover have "bm_access now b k c = bm_reinsert b k e"
      using Some lru ne by (simp add: bm_access_def getOrInsert_def bm_get_def bm_live_def is_lru_map_def)
    moreover have "length (removeAll k (okeys (bm_entries b))) = length (bm_entries b) - 1"
      using wf calculation(1) by (simp add: distinct_remove1_removeAll [symmetric] length_remove1)
    ultimately show ?thesis using len wf
      by (simp add: bm_reinsert_entries removeAll_okeys takeLast_all del: okeys_delete)
  qed
  show "is_lru_map (bm_access now b k c)" "bm_maxSize (bm_access now b k c) = bm_maxSize b"
    using lru ne
    by (auto simp: bm_access_def getOrInsert_def bm_get_def bm_live_def is_lru_map_def frame_simps
        bm_reinsert_def split: option.split)
qed

lemma bm_accesses_keys:
  assumes "bm_inv b" "is_lru_map b" "bm_entries b = []"
  shows "okeys (bm_entries (fold (\<lambda>(now, k, c) b. bm_access now b k c) ops b))
      = takeLast (remdups (map (\<lambda>(now, k, c). k) ops)) (bm_maxSize b)
    \<and> bm_inv (fold (\<lambda>(now, k, c) b. bm_access now b k c) ops b)
    \<and> is_lru_map (fold (\<lambda>(now, k, c) b. bm_access now b k c) ops b)
    \<and> bm_maxSize (fold (\<lambda>(now, k, c) b. bm_access now b k c) ops b) = bm_maxSize b"
proof (induction ops rule: rev_induct)
  case Nil
  then show ?case using assms by (simp add: takeLast_def)
next
  case (snoc op ops)
  obtain now k c where op: "op = (now, k, c)" by (cases op) auto
  let ?b = "fold (\<lambda>(now, k, c) b. bm_access now b k c) ops b"
  have "1 \<le> bm_maxSize b" using assms(1) by (simp add: bm_inv_def)
  with snoc bm_access_keys [of ?b now k c] takeLast_touch [OF distinct_remdups, of "bm_maxSize b" k] op
  show ?case by (simp add: remdups_snoc)
qed

end
