(* ===== verification/Caches.thy ===== *)
theory Caches
  imports Bounded_Map
begin

text \<open>
  What the program builds on \<open>BoundedMap\<close>: the \<open>LruCache\<close> with hit counters
  (\<open>util/src/utils/lru-cache.ts\<close>), the \<open>SlidingWindowRateLimiter\<close>
  (\<open>rate-limit.ts\<close>), the call tallies (\<open>tally.ts\<close>) and the kernel's
  \<open>ThreadScope\<close> (\<open>nar/src/kernel/thread-scope.ts\<close>).
\<close>

section \<open>LruCache\<close>

record ('k, 'v) lruCache = "('k, 'v) boundedMap" +
  lru_hits :: nat
  lru_misses :: nat

definition newLruCache :: "int \<Rightarrow> ('k, 'v) lruCache" where
  "newLruCache maxSize =
     boundedMap.extend (newBoundedMap maxSize None Lru None) \<lparr>lru_hits = 0, lru_misses = 0\<rparr>"

definition lru_hitRate :: "('k, 'v) lruCache \<Rightarrow> real" where
  "lru_hitRate c = safeRatio (real (lru_hits c)) (real (lru_hits c + lru_misses c)) 0"

definition lru_get :: "real \<Rightarrow> ('k, 'v) lruCache \<Rightarrow> 'k \<Rightarrow> 'v option \<times> ('k, 'v) lruCache" where
  "lru_get now c key =
     (case bm_get now c key of
        (None, c') \<Rightarrow> (None, c'\<lparr>lru_misses := Suc (lru_misses c')\<rparr>)
      | (Some v, c') \<Rightarrow> (Some v, c'\<lparr>lru_hits := Suc (lru_hits c')\<rparr>))"

definition lru_take :: "real \<Rightarrow> ('k, 'v) lruCache \<Rightarrow> 'k \<Rightarrow> 'v option \<times> ('k, 'v) lruCache" where
  "lru_take now c key =
     (case lru_get now c key of
        (None, c') \<Rightarrow> (None, c')
      | (Some v, c') \<Rightarrow> (Some v, snd (bm_delete c' key)))"

definition lru_clear :: "('k, 'v) lruCache \<Rightarrow> ('k, 'v) lruCache" where
  "lru_clear c = (bm_clear c)\<lparr>lru_hits := 0, lru_misses := 0\<rparr>"

lemma bm_inv_counters [simp]:
  "bm_inv (c\<lparr>lru_hits := h\<rparr>) = bm_inv c" "bm_inv (c\<lparr>lru_misses := m\<rparr>) = bm_inv c"
  "bm_look now (c\<lparr>lru_hits := h\<rparr>) = bm_look now c"
  "bm_look now (c\<lparr>lru_misses := m\<rparr>) = bm_look now c"
  by (auto simp: bm_inv_def bm_size_def bm_look_def bm_expired_def fun_eq_iff split: option.split)

lemma newLruCache_inv [inv_intros]: "bm_inv (newLruCache n)"
  by (simp add: newLruCache_def newBoundedMap_def boundedMap.defs bm_inv_def bm_size_def)

lemma lru_get_bm: "fst (lru_get now c k) = fst (bm_get now c k)"
  "bm_look now (snd (lru_get now c k)) = bm_look now (snd (bm_get now c k))"
  "bm_inv (snd (lru_get now c k)) = bm_inv (snd (bm_get now c k))"
  by (auto simp: lru_get_def split: prod.split option.split)

interpretation lru_store: keyed_store "lru_get now" "bm_set now 0" "bm_look now" bm_inv
  for now :: real
  using bm_store.get_value [of _ now] bm_store.get_frame [of _ now] bm_store.get_inv [of _ now]
    bm_store.put_same [of _ now] bm_store.put_other [of _ _ _ now] bm_store.put_inv [of _ now]
  by unfold_locales (simp_all only: lru_get_bm)

interpretation lru: bounded_container bm_size bm_maxSize lru_clear bm_inv
  by unfold_locales (auto simp: bm_size_def bm_inv_def lru_clear_def bm_clear_def)

lemma bm_get_counters [simp]:
  "lru_hits (snd (bm_get now c k)) = lru_hits c" "lru_misses (snd (bm_get now c k)) = lru_misses c"
  by (auto simp: bm_get_def bm_live_def bm_evict_def bm_reinsert_def split: prod.split option.split)

lemma lru_get_counts:
  "lru_hits (snd (lru_get now c k)) + lru_misses (snd (lru_get now c k))
   = Suc (lru_hits c + lru_misses c)"
  using bm_get_counters [of now c k]
  by (cases "bm_get now c k") (auto simp: lru_get_def split: option.split)

text \<open>a cache read counts one hit when the key is live and one miss otherwise, so
  after any sequence of reads the hits and misses counted are the number of reads, and the
  hit counter grows exactly by the reads that returned a value.\<close>

lemma lru_reads_counted:
  "lru_hits (fold (\<lambda>(now, k) c. snd (lru_get now c k)) reads c)
   + lru_misses (fold (\<lambda>(now, k) c. snd (lru_get now c k)) reads c)
   = lru_hits c + lru_misses c + length reads"
  by (induction reads arbitrary: c) (auto simp: lru_get_counts)

lemma newLruCache_lru: "is_lru_map (newLruCache n)" "bm_entries (newLruCache n) = []"
  "bm_maxSize (newLruCache n) = max 1 n"
  by (simp_all add: newLruCache_def newBoundedMap_def boundedMap.defs is_lru_map_def is_lru_def)

section \<open>SlidingWindowRateLimiter\<close>

record rateLimiter =
  rl_limit :: int
  rl_windowMs :: real
  rl_windows :: "(string, real boundedRing) lruCache"

definition newRateLimiter :: "int \<Rightarrow> real \<Rightarrow> int \<Rightarrow> rateLimiter" where
  "newRateLimiter limit windowMs maxKeys =
     \<lparr>rl_limit = max 1 limit, rl_windowMs = windowMs, rl_windows = newLruCache maxKeys\<rparr>"

text \<open>
  The ring in the cache is shared: pushing onto it changes the stored entry where it is.
\<close>

definition store_in_place ::
  "('k, 'v, 'z) boundedMap_scheme \<Rightarrow> 'k \<Rightarrow> 'v \<Rightarrow> ('k, 'v, 'z) boundedMap_scheme" where
  "store_in_place b key v =
     (case map_of (bm_entries b) key of
        None \<Rightarrow> b
      | Some e \<Rightarrow> b\<lparr>bm_entries := AList.update key (e\<lparr>e_value := v\<rparr>) (bm_entries b)\<rparr>)"

definition new_window :: "int \<Rightarrow> real boundedRing" where
  "new_window limit = \<lparr>ring_items = [], ring_capacity = limit, ring_overflow = DropOldest\<rparr>"

definition tryAcquire :: "rateLimiter \<Rightarrow> string \<Rightarrow> real \<Rightarrow> bool \<times> rateLimiter" where
  "tryAcquire st key now =
     (case getOrInsert (lru_get now) (bm_set now 0) (rl_windows st) key (new_window (rl_limit st)) of
        (ring, ws, _) \<Rightarrow>
          (case ring_push ring now of
             (displaced, ring') \<Rightarrow>
               (case displaced of None \<Rightarrow> True | Some d \<Rightarrow> d \<le> now - rl_windowMs st,
                st\<lparr>rl_windows := store_in_place ws key ring'\<rparr>)))"

definition rl_reset :: "rateLimiter \<Rightarrow> string option \<Rightarrow> rateLimiter" where
  "rl_reset st key =
     (case key of
        None \<Rightarrow> st\<lparr>rl_windows := lru_clear (rl_windows st)\<rparr>
      | Some k \<Rightarrow> st\<lparr>rl_windows := snd (bm_delete (rl_windows st) k)\<rparr>)"

text \<open>The arrivals remembered for a key, oldest first.\<close>

definition rl_window :: "rateLimiter \<Rightarrow> string \<Rightarrow> real list" where
  "rl_window st key = (case bm_look 0 (rl_windows st) key of None \<Rightarrow> [] | Some r \<Rightarrow> ring_items r)"

definition rl_inv :: "rateLimiter \<Rightarrow> bool" where
  "rl_inv st = (bm_inv (rl_windows st) \<and> bm_ttlMs (rl_windows st) = None \<and> 1 \<le> rl_limit st
     \<and> (\<forall>key r. bm_look 0 (rl_windows st) key = Some r \<longrightarrow>
          ring_inv r \<and> ring_capacity r = rl_limit st \<and> ring_overflow r = DropOldest))"

lemma newRateLimiter_inv [inv_intros]: "rl_inv (newRateLimiter limit w keys)"
  by (simp add: rl_inv_def newRateLimiter_def newLruCache_inv bm_look_def newLruCache_lru)
    (simp add: newLruCache_def newBoundedMap_def boundedMap.defs)

lemma no_ttl_look: "bm_ttlMs b = None \<Longrightarrow> bm_look now b k = map_option e_value (map_of (bm_entries b) k)"
  by (simp add: bm_look_def bm_expired_def split: option.split)

lemma okeys_update_present: "k \<in> set (okeys m) \<Longrightarrow> okeys (AList.update k v m) = okeys m"
  by (induction m) auto

lemma store_in_place_frame [simp]:
  "bm_ttlMs (store_in_place b k v) = bm_ttlMs b"
  "bm_maxSize (store_in_place b k v) = bm_maxSize b"
  "okeys (bm_entries (store_in_place b k v)) = okeys (bm_entries b)"
  by (auto simp: store_in_place_def okeys_update_present rev_image_eqI
      dest: map_of_SomeD split: option.split)

lemma store_in_place_look:
  assumes "bm_ttlMs b = None" "bm_look now b k = Some u"
  shows "bm_look now (store_in_place b k v) k' = (if k' = k then Some v else bm_look now b k')"
  using assms
  by (cases "k' = k") (auto simp: no_ttl_look, auto simp: store_in_place_def)

lemma length_store_in_place [simp]:
  "length (bm_entries (store_in_place b k v)) = length (bm_entries b)"
  by (metis length_map store_in_place_frame(3))

lemma store_in_place_inv [simp]: "bm_inv b \<Longrightarrow> bm_inv (store_in_place b k v)"
  by (simp add: bm_inv_def bm_size_def)

lemma lru_get_ttl [simp]: "bm_ttlMs (snd (lru_get now c k)) = bm_ttlMs c"
  by (auto simp: lru_get_def bm_get_def bm_live_def bm_reinsert_def frame_simps
      split: prod.splits option.splits)

lemma getOrInsert_lru_ttl:
  "getOrInsert (lru_get now) (bm_set now 0) c k v = (v', c', b) \<Longrightarrow> bm_ttlMs c' = bm_ttlMs c"
  using lru_get_ttl [of now c k]
  by (cases "lru_get now c k") (auto simp: getOrInsert_def frame_simps split: prod.splits option.splits)

lemma new_window_inv: "1 \<le> limit \<Longrightarrow> ring_inv (new_window limit)"
  by (simp add: new_window_def ring_inv_def ring_size_def)

text \<open>One arrival: what it answers, and what it leaves in the windows.\<close>

lemma tryAcquire_step:
  assumes inv: "rl_inv st" and r: "tryAcquire st key now = (ok, st')"
  shows "rl_inv st'" "rl_limit st' = rl_limit st" "rl_windowMs st' = rl_windowMs st"
    "rl_window st' key = takeLast (rl_window st key @ [now]) (rl_limit st)"
    "k \<noteq> key \<Longrightarrow> rl_window st' k \<in> {rl_window st k, []}"
    "ok = (int (length (rl_window st key)) < rl_limit st \<or> hd (rl_window st key) \<le> now - rl_windowMs st)"
proof -
  obtain ring ws b where g:
    "getOrInsert (lru_get now) (bm_set now 0) (rl_windows st) key (new_window (rl_limit st)) = (ring, ws, b)"
    by (metis prod_cases3)
  have bi: "bm_inv (rl_windows st)" "bm_ttlMs (rl_windows st) = None" "1 \<le> rl_limit st"
    using inv by (simp_all add: rl_inv_def)
  have ttl: "bm_ttlMs ws = None" using getOrInsert_lru_ttl [OF g] bi by simp
  note L = lru_store.getOrInsert_look [OF bi(1) g]
  have look: "bm_look t c k = bm_look 0 c k" if "bm_ttlMs c = None" for t k and c :: "(string, real boundedRing) lruCache"
    using that by (simp add: no_ttl_look)
  have ring: "ring_inv ring" "ring_capacity ring = rl_limit st" "ring_overflow ring = DropOldest"
    "ring_items ring = rl_window st key"
    using L(4) inv new_window_inv [of "rl_limit st"] look [OF bi(2), of now]
    by (auto simp: rl_inv_def rl_window_def new_window_def split: option.splits)
  obtain d ring' where p: "ring_push ring now = (d, ring')" by force
  have ring': "ring_items ring' = takeLast (rl_window st key @ [now]) (rl_limit st)"
    "ring_inv ring'" "ring_capacity ring' = rl_limit st" "ring_overflow ring' = DropOldest"
    using ring_push_drop [OF ring(1,3), of now] ring_push_inv [OF ring(1), of now]
      ring_frame(1,2) [of ring now] ring p by simp_all
  have st': "st' = st\<lparr>rl_windows := store_in_place ws key ring'\<rparr>"
    and ok: "ok = (case d of None \<Rightarrow> True | Some d \<Rightarrow> d \<le> now - rl_windowMs st)"
    using r g p by (auto simp: tryAcquire_def)
  have L1: "bm_look 0 ws key = Some ring" using L(1) look [OF ttl, of now] by simp
  have new_look: "bm_look 0 (rl_windows st') k = (if k = key then Some ring' else bm_look 0 ws k)" for k
    using store_in_place_look [OF ttl L1] st' by simp
  have other: "k \<noteq> key \<Longrightarrow> bm_look 0 ws k \<in> {bm_look 0 (rl_windows st) k, None}" for k
    using lru_store.getOrInsert_look(5) [OF bi(1) g, of k] look [OF ttl, of now] look [OF bi(2), of now]
    by simp
  show "rl_limit st' = rl_limit st" "rl_windowMs st' = rl_windowMs st" using st' by simp_all
  show "rl_window st' key = takeLast (rl_window st key @ [now]) (rl_limit st)"
    using new_look ring' by (simp add: rl_window_def)
  show "k \<noteq> key \<Longrightarrow> rl_window st' k \<in> {rl_window st k, []}"
    using new_look [of k] other [of k] by (auto simp: rl_window_def)
  show "rl_inv st'"
  proof -
    have "ring_inv r \<and> ring_capacity r = rl_limit st \<and> ring_overflow r = DropOldest"
      if "bm_look 0 (rl_windows st') k = Some r" for k r
      using that new_look [of k] other [of k] ring' inv
      by (cases "k = key") (auto simp: rl_inv_def)
    then show ?thesis using L(2) ttl bi st' by (simp add: rl_inv_def)
  qed
  have len: "int (length (rl_window st key)) \<le> rl_limit st"
    using ring by (simp add: ring_inv_def ring_size_def)
  have "d = (if int (length (rl_window st key)) < rl_limit st then None else Some (hd (rl_window st key)))"
    using p ring len bi(3)
    by (cases "rl_window st key") (auto simp: ring_push_def pushCapped_def Let_def split: if_splits)
  then show "ok = (int (length (rl_window st key)) < rl_limit st \<or> hd (rl_window st key) \<le> now - rl_windowMs st)"
    using ok by simp
qed


definition arrivals :: "rateLimiter \<Rightarrow> string \<Rightarrow> real list \<Rightarrow> rateLimiter" where
  "arrivals st key ts = fold (\<lambda>t st. snd (tryAcquire st key t)) ts st"

lemma arrivals_window:
  assumes "rl_inv st" "rl_window st key = []"
  shows "rl_inv (arrivals st key ts) \<and> rl_limit (arrivals st key ts) = rl_limit st
    \<and> rl_windowMs (arrivals st key ts) = rl_windowMs st
    \<and> rl_window (arrivals st key ts) key = takeLast ts (rl_limit st)"
proof (induction ts rule: rev_induct)
  case Nil
  then show ?case using assms by (simp add: arrivals_def takeLast_def)
next
  case (snoc t ts)
  let ?s = "arrivals st key ts"
  obtain ok s' where r: "tryAcquire ?s key t = (ok, s')" by force
  have "1 \<le> rl_limit st" using assms(1) by (simp add: rl_inv_def)
  moreover have "takeLast (takeLast ts n @ [t]) n = takeLast (ts @ [t]) n" if "1 \<le> n" for n
    using that
    by (simp add: takeLast_rev take_Cons' min_absorb1)
  ultimately show ?case
    using snoc tryAcquire_step [OF _ r] r by (simp add: arrivals_def)
qed

lemma sorted_window_count:
  assumes srt: "sorted ts" and n: "0 < n"
  shows "(int (length (takeLast ts n)) < n \<or> hd (takeLast ts n) \<le> (c :: real))
    \<longleftrightarrow> int (length (filter (\<lambda>s. c < s) ts)) < n"
proof (cases "int (length ts) < n")
  case True
  then have "int (length (filter (\<lambda>s. c < s) ts)) < n"
    using length_filter_le [of "\<lambda>s. c < s" ts] by linarith
  with True show ?thesis by (simp add: takeLast_all)
next
  case False
  define B where "B = takeLast ts n"
  obtain A where ts: "ts = A @ B"
    using n by (metis B_def append_take_drop_id takeLast_drop)
  have len: "int (length B) = n" using False n by (simp add: B_def length_takeLast)
  then obtain b B' where B: "B = b # B'" using n by (cases B) auto
  have lo: "\<forall>x \<in> set A. x \<le> b" "\<forall>x \<in> set B'. b \<le> x" using srt ts B by (auto simp: sorted_append)
  show ?thesis
  proof (cases "b \<le> c")
    case True
    then have "filter (\<lambda>s. c < s) A = []" using lo by (auto simp: filter_empty_conv)
    moreover have "length (filter (\<lambda>s. c < s) B) \<le> length B'"
      using True B length_filter_le [of "\<lambda>s. c < s" B'] by simp
    ultimately have "int (length (filter (\<lambda>s. c < s) ts)) < n" using len B ts by simp
    with True B B_def show ?thesis by simp
  next
    case False
    then have "filter (\<lambda>s. c < s) B = B" using lo B by (auto simp: filter_id_conv)
    then have "int (length (filter (\<lambda>s. c < s) ts)) \<ge> n" using len ts by simp
    with False B B_def len show ?thesis by (metis leD list.sel(1) order_less_irrefl)
  qed
qed

text \<open>with arrivals in time order under one key, the limiter admits an arrival exactly
  when fewer than \<open>limit\<close> earlier arrivals fall inside the window that ends at it. The
  arrivals it refused count too: a refused arrival is recorded like an admitted one.\<close>

theorem rate_limit_window:
  assumes "sorted (ts @ [t])"
  shows "fst (tryAcquire (arrivals (newRateLimiter limit w maxKeys) key ts) key t)
    \<longleftrightarrow> int (length (filter (\<lambda>s. t - w < s) ts)) < max 1 limit"
proof -
  let ?init = "newRateLimiter limit w maxKeys" and ?s = "arrivals (newRateLimiter limit w maxKeys) key ts"
  have e: "rl_window ?init key = []"
    by (simp add: rl_window_def newRateLimiter_def bm_look_def newLruCache_lru)
  have f: "rl_limit ?init = max 1 limit" "rl_windowMs ?init = w" by (simp_all add: newRateLimiter_def)
  obtain ok s' where r: "tryAcquire ?s key t = (ok, s')" by force
  have "sorted ts" using assms by (simp add: sorted_append)
  then show ?thesis
    using tryAcquire_step(6) [OF _ r] r arrivals_window [OF newRateLimiter_inv e, of ts]
      sorted_window_count [of ts "max 1 limit" "t - w"] by (simp add: f)
qed

lemma rate_limit_window_witness:
  "fst (tryAcquire (arrivals (newRateLimiter 2 10 8) ''peer'' [0, 1]) ''peer'' 5) = False
   \<and> fst (tryAcquire (arrivals (newRateLimiter 2 10 8) ''peer'' [0, 1]) ''peer'' 10) = True"
  using rate_limit_window [of "[0, 1]" 5 2 10 8 "''peer''"]
    rate_limit_window [of "[0, 1]" 10 2 10 8 "''peer''"] by simp

section \<open>Call tallies\<close>

record callTally =
  totalCalls :: int
  successfulCalls :: int
  failedCalls :: int
  totalDuration :: real
  averageDuration :: real
  successRate :: real
  lastCalled :: real

definition createCallTally :: callTally where
  "createCallTally = \<lparr>totalCalls = 0, successfulCalls = 0, failedCalls = 0, totalDuration = 0,
     averageDuration = 0, successRate = 0, lastCalled = 0\<rparr>"

definition recordCall :: "callTally \<Rightarrow> bool \<Rightarrow> real \<Rightarrow> real \<Rightarrow> callTally" where
  "recordCall t success durationMs stamp =
     (let t1 = t\<lparr>totalCalls := totalCalls t + 1\<rparr>;
          t2 = (if success then t1\<lparr>successfulCalls := successfulCalls t1 + 1\<rparr>
                else t1\<lparr>failedCalls := failedCalls t1 + 1\<rparr>);
          t3 = t2\<lparr>totalDuration := totalDuration t2 + durationMs\<rparr>;
          t4 = t3\<lparr>averageDuration := totalDuration t3 / totalCalls t3\<rparr>;
          t5 = t4\<lparr>successRate := successfulCalls t4 / totalCalls t4\<rparr>
      in t5\<lparr>lastCalled := stamp\<rparr>)"

definition series_getOrInsert ::
  "('k \<Rightarrow> callTally) \<Rightarrow> real \<Rightarrow> ('k, callTally) boundedMap \<Rightarrow> 'k \<Rightarrow> callTally \<times> ('k, callTally) boundedMap \<times> bool" where
  "series_getOrInsert create now b key =
     getOrInsert (bm_get now) (bm_set now 0) b key (create key)"

definition series_record ::
  "('k \<Rightarrow> callTally) \<Rightarrow> real \<Rightarrow> ('k, callTally) boundedMap \<Rightarrow> 'k \<Rightarrow> bool \<Rightarrow> real
   \<Rightarrow> callTally \<times> ('k, callTally) boundedMap" where
  "series_record create now b key success durationMs =
     (case series_getOrInsert create now b key of
        (t, b', _) \<Rightarrow> (let t' = recordCall t success durationMs now in (t', store_in_place b' key t')))"

definition series_reset :: "('k, callTally) boundedMap \<Rightarrow> 'k option \<Rightarrow> ('k, callTally) boundedMap" where
  "series_reset b key = (case key of None \<Rightarrow> bm_clear b | Some k \<Rightarrow> snd (bm_delete b k))"

definition tally_of :: "(bool \<times> real \<times> real) list \<Rightarrow> callTally" where
  "tally_of calls = fold (\<lambda>(s, d, stamp) t. recordCall t s d stamp) calls createCallTally"

lemma tally_counts:
  "totalCalls (tally_of cs) = int (length cs)
   \<and> successfulCalls (tally_of cs) = int (length (filter fst cs))
   \<and> failedCalls (tally_of cs) = int (length (filter (\<lambda>c. \<not> fst c) cs))
   \<and> totalDuration (tally_of cs) = sum_list (map (\<lambda>(s, d, stamp). d) cs)"
proof (induction cs rule: rev_induct)
  case Nil
  then show ?case by (simp add: tally_of_def createCallTally_def)
next
  case (snoc c cs)
  obtain s d a where "c = (s, d, a)" by (cases c) auto
  with snoc show ?case by (simp add: tally_of_def recordCall_def Let_def)
qed

text \<open>after any sequence of recorded attempts the counters are the attempts', every
  attempt is either a success or a failure, the average duration is the mean duration and
  the success rate is the successes' share, in the unit interval.\<close>

theorem tally_of_correct:
  "let t = tally_of (cs @ [c]); n = length (cs @ [c])
   in totalCalls t = int n \<and> successfulCalls t + failedCalls t = int n
    \<and> averageDuration t = sum_list (map (\<lambda>(s, d, stamp). d) (cs @ [c])) / real n
    \<and> successRate t = real (length (filter fst (cs @ [c]))) / real n
    \<and> 0 \<le> successRate t \<and> successRate t \<le> 1"
proof -
  obtain s d a where c: "c = (s, d, a)" by (cases c) auto
  define t where "t = tally_of (cs @ [c])"
  have "t = recordCall (tally_of cs) s d a" using c by (simp add: t_def tally_of_def)
  then have avg: "averageDuration t = totalDuration t / totalCalls t"
    "successRate t = successfulCalls t / totalCalls t"
    by (simp_all add: recordCall_def Let_def)
  have sum: "length (filter fst (cs @ [c])) + length (filter (\<lambda>c. \<not> fst c) (cs @ [c])) = length (cs @ [c])"
    by (rule sum_length_filter_compl)
  then have "length (filter fst (cs @ [c])) \<le> length (cs @ [c])" by linarith
  moreover have "successfulCalls t + failedCalls t = int (length (cs @ [c]))"
    using tally_counts [of "cs @ [c]"] sum unfolding t_def by linarith
  ultimately show ?thesis using avg tally_counts [of "cs @ [c]"]
    by (simp add: Let_def t_def [symmetric] del: filter_append length_append)
qed

section \<open>ThreadScope\<close>

record 'm threadScopeState =
  ts_contrastiveMemory :: "'m option"
  ts_sourceKey :: "string option"

type_synonym 'm threadScope = "(string, 'm threadScopeState) lruCache"

definition MAX_THREAD_SCOPES :: int where
  "MAX_THREAD_SCOPES = 1024"

definition newThreadScope :: "'m threadScope" where
  "newThreadScope = newLruCache MAX_THREAD_SCOPES"

definition ts_get :: "real \<Rightarrow> 'm threadScope \<Rightarrow> string \<Rightarrow> 'm threadScopeState \<times> 'm threadScope" where
  "ts_get now s correlationId =
     (case getOrInsert (lru_get now) (bm_set now 0) s correlationId
             \<lparr>ts_contrastiveMemory = None, ts_sourceKey = None\<rparr> of
        (v, s', _) \<Rightarrow> (v, s'))"

definition ts_delete :: "'m threadScope \<Rightarrow> string \<Rightarrow> bool \<times> 'm threadScope" where
  "ts_delete s correlationId = bm_delete s correlationId"

definition ts_has :: "real \<Rightarrow> 'm threadScope \<Rightarrow> string \<Rightarrow> bool \<times> 'm threadScope" where
  "ts_has now s correlationId = bm_has now s correlationId"

definition ts_correlationIds :: "real \<Rightarrow> 'm threadScope \<Rightarrow> string list" where
  "ts_correlationIds now s = map fst (fst (bm_liveEntries now s))"

definition ts_clear :: "'m threadScope \<Rightarrow> 'm threadScope" where
  "ts_clear s = lru_clear s"

text \<open>What a caller writes into the scope object it got, it writes into the stored one.\<close>

definition ts_write :: "'m threadScope \<Rightarrow> string \<Rightarrow> 'm threadScopeState \<Rightarrow> 'm threadScope" where
  "ts_write s correlationId v = store_in_place s correlationId v"


lemma bm_evict_counters [simp]:
  "bm_evict (c\<lparr>lru_hits := h\<rparr>) k = (fst (bm_evict c k), (snd (bm_evict c k))\<lparr>lru_hits := h\<rparr>)"
  "bm_evict (c\<lparr>lru_misses := m\<rparr>) k = (fst (bm_evict c k), (snd (bm_evict c k))\<lparr>lru_misses := m\<rparr>)"
  by (simp_all add: bm_evict_def split: option.split)

lemma bm_selectVictim_counters [simp]:
  "bm_selectVictim r (c\<lparr>lru_hits := h\<rparr>) = bm_selectVictim r c"
  "bm_selectVictim r (c\<lparr>lru_misses := m\<rparr>) = bm_selectVictim r c"
  by (simp_all add: bm_selectVictim_def bm_randomKey_def bm_size_def Let_def split: evictionOrder.split list.split)

lemma bm_evictVictim_counters [simp]:
  "bm_evictVictim r (c\<lparr>lru_hits := h\<rparr>) = (bm_evictVictim r c)\<lparr>lru_hits := h\<rparr>"
  "bm_evictVictim r (c\<lparr>lru_misses := m\<rparr>) = (bm_evictVictim r c)\<lparr>lru_misses := m\<rparr>"
  by (simp_all add: bm_evictVictim_def split: option.split)

lemma bm_set_counters [simp]:
  "bm_set now r (c\<lparr>lru_hits := h\<rparr>) k v = (bm_set now r c k v)\<lparr>lru_hits := h\<rparr>"
  "bm_set now r (c\<lparr>lru_misses := m\<rparr>) k v = (bm_set now r c k v)\<lparr>lru_misses := m\<rparr>"
  by (simp_all add: bm_set_def Let_def bm_size_def)

lemma lru_getOrInsert_access:
  "\<exists>h m. fst (snd (getOrInsert (lru_get now) (bm_set now 0) c k v))
     = (bm_access now c k v)\<lparr>lru_hits := h, lru_misses := m\<rparr>"
proof (cases "bm_get now c k")
  case (Pair o' c')
  show ?thesis
  proof (cases o')
    case None
    with Pair show ?thesis
      by (intro exI [of _ "lru_hits (bm_set now 0 c' k v)"] exI [of _ "Suc (lru_misses c')"])
        (simp add: getOrInsert_def lru_get_def bm_access_def)
  next
    case (Some e)
    with Pair show ?thesis
      by (intro exI [of _ "Suc (lru_hits c')"] exI [of _ "lru_misses c'"])
        (simp add: getOrInsert_def lru_get_def bm_access_def)
  qed
qed

lemma is_lru_map_counters [simp]:
  "is_lru_map (c\<lparr>lru_hits := h\<rparr>) = is_lru_map c" "is_lru_map (c\<lparr>lru_misses := m\<rparr>) = is_lru_map c"
  by (simp_all add: is_lru_map_def)

lemma ts_get_access:
  "\<exists>h m. snd (ts_get now s k)
     = (bm_access now s k \<lparr>ts_contrastiveMemory = None, ts_sourceKey = None\<rparr>)
         \<lparr>lru_hits := h, lru_misses := m\<rparr>"
  using lru_getOrInsert_access [of now s k "\<lparr>ts_contrastiveMemory = None, ts_sourceKey = None\<rparr>"]
  by (cases "getOrInsert (lru_get now) (bm_set now 0) s k
        \<lparr>ts_contrastiveMemory = None, ts_sourceKey = None\<rparr>") (simp add: ts_get_def)

definition ts_reads :: "(real \<times> string) list \<Rightarrow> 'm threadScope \<Rightarrow> 'm threadScope" where
  "ts_reads ops s = fold (\<lambda>(now, k) s. snd (ts_get now s k)) ops s"

lemma ts_reads_keys:
  defines "new \<equiv> newThreadScope :: 'm threadScope"
  shows "okeys (bm_entries (ts_reads ops new)) = takeLast (remdups (map snd ops)) MAX_THREAD_SCOPES
   \<and> bm_inv (ts_reads ops new) \<and> is_lru_map (ts_reads ops new)
   \<and> bm_maxSize (ts_reads ops new) = MAX_THREAD_SCOPES"
proof (induction ops rule: rev_induct)
  case Nil
  then show ?case
    by (simp add: ts_reads_def new_def newThreadScope_def newLruCache_lru newLruCache_inv takeLast_def
        MAX_THREAD_SCOPES_def)
next
  case (snoc op ops)
  obtain now k where op: "op = (now, k)" by (cases op)
  let ?s = "ts_reads ops new" and ?c = "\<lparr>ts_contrastiveMemory = None, ts_sourceKey = None\<rparr> :: 'm threadScopeState"
  obtain h m where st: "ts_reads (ops @ [op]) new
      = (bm_access now ?s k ?c)\<lparr>lru_hits := h, lru_misses := m\<rparr>"
    using ts_get_access [of now ?s k] op by (auto simp: ts_reads_def)
  have "0 < MAX_THREAD_SCOPES" by (simp add: MAX_THREAD_SCOPES_def)
  with snoc bm_access_keys [of ?s now k ?c] takeLast_touch [OF distinct_remdups, of MAX_THREAD_SCOPES k "map snd ops"]
  show ?case unfolding st by (simp add: op remdups_snoc)
qed

text \<open>after any sequence of scope reads the thread scopes held are those of the
  (at most 1024) correlation ids read most recently, in the order of their last read:
  a flood of new ids evicts whole scopes, oldest first, and never the one just read.\<close>

theorem thread_scope_recency:
  "ts_correlationIds now (ts_reads ops (newThreadScope :: 'm threadScope))
   = takeLast (remdups (map snd ops)) MAX_THREAD_SCOPES"
proof -
  let ?s = "ts_reads ops (newThreadScope :: 'm threadScope)"
  have "\<not> bm_expired now ?s e" for e
    using ts_reads_keys [of ops, where 'm = 'm] by (simp add: is_lru_map_def bm_expired_def)
  then have "ts_correlationIds now ?s = okeys (bm_entries ?s)"
    using bm_liveEntries_eq(1) [of ?s now] ts_reads_keys [of ops, where 'm = 'm]
    by (simp add: ts_correlationIds_def case_prod_unfold comp_def)
  then show ?thesis using ts_reads_keys [of ops, where 'm = 'm] by simp
qed

end
