(* ===== verification/Budget.thy ===== *)
theory Budget
  imports Collections
begin

text \<open>
  The AIKR budget accounting of \<open>core/src/budget.ts\<close>, over the dimension table of
  \<open>core/src/budget-resources.ts\<close> and the record of
  \<open>core/src/schemas/reasoning-budget.ts\<close>. The schema admits integers only, so
  ceilings and counters are \<open>int\<close>. A budget and a budget slice are one record:
  the slice's identity fields are optional. A budget that a function mutates is returned,
  with the events it announces, in order. \<open>Date.now()\<close> is the argument \<open>now\<close>;
  the abort signal is the flag it reads.
\<close>

section \<open>The dimension table\<close>

datatype resource = Cycles | Depth | MemoryOps | LlmCalls

datatype terminationReason = CycleBudget | DepthBudget | MemoryBudget | LlmBudget
  | Deadline | Backpressure | Aborted | Completed

definition ALL_RESOURCES :: "resource list" where
  "ALL_RESOURCES = [Cycles, Depth, MemoryOps, LlmCalls]"

fun resource_reason :: "resource \<Rightarrow> terminationReason" where
  "resource_reason Cycles = CycleBudget"
| "resource_reason Depth = DepthBudget"
| "resource_reason MemoryOps = MemoryBudget"
| "resource_reason LlmCalls = LlmBudget"

record consumedBudget =
  c_cycles :: int
  c_depth :: int
  c_memoryOps :: int
  c_llmCalls :: int

record budgetLimits =
  maxCycles :: int
  maxDepth :: int
  maxMemoryOps :: int
  maxLMCalls :: int

record reasoningBudget = budgetLimits +
  consumed :: consumedBudget
  wallclockDeadlineMs :: "int option"
  abortSignal :: "bool option"
  terminationReason :: "terminationReason option"
  b_id :: "string option"
  b_parentId :: "string option"

fun c_get :: "consumedBudget \<Rightarrow> resource \<Rightarrow> int" where
  "c_get c Cycles = c_cycles c"
| "c_get c Depth = c_depth c"
| "c_get c MemoryOps = c_memoryOps c"
| "c_get c LlmCalls = c_llmCalls c"

fun c_put :: "consumedBudget \<Rightarrow> resource \<Rightarrow> int \<Rightarrow> consumedBudget" where
  "c_put c Cycles v = c\<lparr>c_cycles := v\<rparr>"
| "c_put c Depth v = c\<lparr>c_depth := v\<rparr>"
| "c_put c MemoryOps v = c\<lparr>c_memoryOps := v\<rparr>"
| "c_put c LlmCalls v = c\<lparr>c_llmCalls := v\<rparr>"

definition zeroConsumed :: consumedBudget where
  "zeroConsumed = \<lparr>c_cycles = 0, c_depth = 0, c_memoryOps = 0, c_llmCalls = 0\<rparr>"

text \<open>\<open>budget[BUDGET_RESOURCES[resource].total]\<close>.\<close>

fun budgetLimit :: "'z budgetLimits_scheme \<Rightarrow> resource \<Rightarrow> int" where
  "budgetLimit b Cycles = maxCycles b"
| "budgetLimit b Depth = maxDepth b"
| "budgetLimit b MemoryOps = maxMemoryOps b"
| "budgetLimit b LlmCalls = maxLMCalls b"

datatype budgetEvent =
  SliceCreated "string option" "string option" budgetLimits
| SliceConsumed "string option" resource int int int real
| SliceExhausted "string option" terminationReason consumedBudget budgetLimits
| SliceMerged "string option" "string option" consumedBudget

section \<open>Construction\<close>

definition createBudget :: "'z budgetLimits_scheme \<Rightarrow> reasoningBudget" where
  "createBudget limits =
     \<lparr>maxCycles = maxCycles limits, maxDepth = maxDepth limits,
      maxMemoryOps = maxMemoryOps limits, maxLMCalls = maxLMCalls limits,
      consumed = zeroConsumed, wallclockDeadlineMs = None, abortSignal = None,
      terminationReason = None, b_id = None, b_parentId = None\<rparr>"

definition snapshotBudget :: "reasoningBudget \<Rightarrow> reasoningBudget" where
  "snapshotBudget b = b\<lparr>consumed := consumed b\<rparr>"

text \<open>The spread of a partial ceiling overwrites the limits it names.\<close>

definition with_limit :: "resource \<Rightarrow> int \<Rightarrow> reasoningBudget \<Rightarrow> reasoningBudget" where
  "with_limit r v b =
     (case r of Cycles \<Rightarrow> b\<lparr>maxCycles := v\<rparr> | Depth \<Rightarrow> b\<lparr>maxDepth := v\<rparr>
      | MemoryOps \<Rightarrow> b\<lparr>maxMemoryOps := v\<rparr> | LlmCalls \<Rightarrow> b\<lparr>maxLMCalls := v\<rparr>)"

definition freshBudget :: "reasoningBudget \<Rightarrow> (resource \<Rightarrow> int option) \<Rightarrow> reasoningBudget" where
  "freshBudget b ceil_of =
     (fold (\<lambda>r b. case ceil_of r of None \<Rightarrow> b | Some v \<Rightarrow> with_limit r v b) ALL_RESOURCES b)
       \<lparr>consumed := zeroConsumed, terminationReason := None\<rparr>"

definition buildBudgetSlice ::
  "string \<Rightarrow> string option \<Rightarrow> budgetLimits \<Rightarrow> int option \<Rightarrow> bool option \<Rightarrow> reasoningBudget" where
  "buildBudgetSlice ident parentId limits deadline sig =
     (createBudget limits)
       \<lparr>b_id := Some ident, b_parentId := parentId, wallclockDeadlineMs := deadline, abortSignal := sig\<rparr>"

definition budgetLimitsOf :: "reasoningBudget \<Rightarrow> budgetLimits" where
  "budgetLimitsOf b = \<lparr>maxCycles = maxCycles b, maxDepth = maxDepth b,
     maxMemoryOps = maxMemoryOps b, maxLMCalls = maxLMCalls b\<rparr>"

definition sliceCreatedPayload :: "string option \<Rightarrow> string option \<Rightarrow> 'z budgetLimits_scheme \<Rightarrow> budgetEvent" where
  "sliceCreatedPayload sid parentId limits =
     SliceCreated sid parentId (budgetLimits.truncate limits)"

definition createBudgetSlice ::
  "string \<Rightarrow> string option \<Rightarrow> budgetLimits \<Rightarrow> int option \<Rightarrow> bool option \<Rightarrow> reasoningBudget \<times> budgetEvent list" where
  "createBudgetSlice ident parentId limits deadline sig =
     (let slice = buildBudgetSlice ident parentId limits deadline sig
      in (slice, [sliceCreatedPayload (b_id slice) (b_parentId slice) slice]))"

type_synonym allocation = "resource \<Rightarrow> int option"

abbreviation no_allocation :: allocation where
  "no_allocation \<equiv> \<lambda>_. None"

definition orElse :: "'a option \<Rightarrow> 'a \<Rightarrow> 'a" where
  "orElse o' d = (case o' of None \<Rightarrow> d | Some v \<Rightarrow> v)"

definition sliceBudget ::
  "reasoningBudget \<Rightarrow> string \<Rightarrow> allocation \<Rightarrow> reasoningBudget \<times> budgetEvent list" where
  "sliceBudget parent childId alloc =
     (let limits = \<lparr>maxCycles = orElse (alloc Cycles) (maxCycles parent - c_cycles (consumed parent)),
                    maxDepth = orElse (alloc Depth) (maxDepth parent),
                    maxMemoryOps = orElse (alloc MemoryOps)
                      (maxMemoryOps parent - c_memoryOps (consumed parent)),
                    maxLMCalls = orElse (alloc LlmCalls)
                      (maxLMCalls parent - c_llmCalls (consumed parent))\<rparr>;
          slice = buildBudgetSlice childId (b_id parent) limits
                    (wallclockDeadlineMs parent) (abortSignal parent)
      in (slice, [sliceCreatedPayload (b_id slice) (b_parentId slice) slice]))"

section \<open>Accounting\<close>

definition budgetRemaining :: "reasoningBudget \<Rightarrow> resource \<Rightarrow> int" where
  "budgetRemaining b r = budgetLimit b r - c_get (consumed b) r"

definition budgetAffords :: "reasoningBudget \<Rightarrow> resource \<Rightarrow> int \<Rightarrow> bool" where
  "budgetAffords b r amount = (budgetRemaining b r \<ge> amount)"

definition budgetPressure :: "reasoningBudget \<Rightarrow> resource \<Rightarrow> real" where
  "budgetPressure b r = occupancy (real_of_int (c_get (consumed b) r)) (real_of_int (budgetLimit b r)) 0"

definition budgetRefusal :: "reasoningBudget \<Rightarrow> resource \<Rightarrow> terminationReason" where
  "budgetRefusal b r = (if budgetRemaining b r \<le> 0 then resource_reason r else Backpressure)"

definition chargeBudget :: "reasoningBudget \<Rightarrow> resource \<Rightarrow> int \<Rightarrow> reasoningBudget" where
  "chargeBudget b r amount = b\<lparr>consumed := c_put (consumed b) r (c_get (consumed b) r + amount)\<rparr>"

definition sliceConsumedPayload :: "string option \<Rightarrow> resource \<Rightarrow> int \<Rightarrow> reasoningBudget \<Rightarrow> budgetEvent" where
  "sliceConsumedPayload sid r amount b =
     SliceConsumed sid r amount (c_get (consumed b) r) (budgetLimit b r) (budgetPressure b r)"

definition sliceExhaustedPayload :: "string option \<Rightarrow> terminationReason \<Rightarrow> reasoningBudget \<Rightarrow> budgetEvent" where
  "sliceExhaustedPayload sid reason b = SliceExhausted sid reason (consumed b) (budgetLimitsOf b)"

definition sliceMergedPayload :: "string option \<Rightarrow> string option \<Rightarrow> reasoningBudget \<Rightarrow> budgetEvent" where
  "sliceMergedPayload parentId childId child = SliceMerged parentId childId (consumed child)"

definition consume ::
  "reasoningBudget \<Rightarrow> resource \<Rightarrow> int \<Rightarrow> bool \<times> reasoningBudget \<times> budgetEvent list" where
  "consume b r amount =
     (if \<not> budgetAffords b r amount
      then (let reason = budgetRefusal b r; b' = b\<lparr>terminationReason := Some reason\<rparr>
            in (False, b', [sliceExhaustedPayload (b_id b') reason b']))
      else (let b' = chargeBudget b r amount
            in (True, b', [sliceConsumedPayload (b_id b') r amount b'])))"

definition consumeCycles :: "reasoningBudget \<Rightarrow> int \<Rightarrow> bool \<times> reasoningBudget \<times> budgetEvent list" where
  "consumeCycles b n = consume b Cycles n"

definition consumeDepth :: "reasoningBudget \<Rightarrow> int \<Rightarrow> bool \<times> reasoningBudget \<times> budgetEvent list" where
  "consumeDepth b n = consume b Depth n"

definition consumeMemoryOps :: "reasoningBudget \<Rightarrow> int \<Rightarrow> bool \<times> reasoningBudget \<times> budgetEvent list" where
  "consumeMemoryOps b n = consume b MemoryOps n"

definition consumeLMCalls :: "reasoningBudget \<Rightarrow> int \<Rightarrow> bool \<times> reasoningBudget \<times> budgetEvent list" where
  "consumeLMCalls b n = consume b LlmCalls n"

text \<open>\<open>clamp(remaining, 0, Infinity)\<close>.\<close>

definition remainingOf :: "reasoningBudget \<Rightarrow> resource \<Rightarrow> int" where
  "remainingOf b r = max 0 (budgetRemaining b r)"

definition remainingCycles :: "reasoningBudget \<Rightarrow> int" where
  "remainingCycles b = remainingOf b Cycles"

definition build_consumed :: "(resource \<Rightarrow> int) \<Rightarrow> consumedBudget" where
  "build_consumed f = fold (\<lambda>r c. c_put c r (f r)) ALL_RESOURCES zeroConsumed"

definition remainingAll :: "reasoningBudget \<Rightarrow> consumedBudget" where
  "remainingAll b = build_consumed (remainingOf b)"

definition resolveAllocation ::
  "reasoningBudget \<Rightarrow> allocation \<Rightarrow> (consumedBudget \<Rightarrow> allocation) \<Rightarrow> consumedBudget" where
  "resolveAllocation b requested fallback =
     (let remaining = remainingAll b; defaults = fallback remaining
      in build_consumed (\<lambda>r. min (orElse (requested r) (orElse (defaults r) 0)) (c_get remaining r)))"

definition chargeAllocation ::
  "reasoningBudget \<Rightarrow> allocation \<Rightarrow> reasoningBudget \<times> budgetEvent list" where
  "chargeAllocation b alloc =
     fold (\<lambda>r (b, evs). let amount = orElse (alloc r) 0
                        in if amount > 0
                           then (case consume b r amount of (_, b', e) \<Rightarrow> (b', evs @ e))
                           else (b, evs)) ALL_RESOURCES (b, [])"

definition mergeConsumed :: "consumedBudget \<Rightarrow> consumedBudget \<Rightarrow> consumedBudget" where
  "mergeConsumed parent child =
     fold (\<lambda>r p. c_put p r (if r = Depth then max (c_get p r) (c_get child r)
                             else c_get p r + c_get child r)) ALL_RESOURCES parent"

definition mergeConsumption ::
  "reasoningBudget \<Rightarrow> reasoningBudget \<Rightarrow> reasoningBudget \<times> budgetEvent list" where
  "mergeConsumption parent child =
     (let p1 = parent\<lparr>consumed := mergeConsumed (consumed parent) (consumed child)\<rparr>;
          p2 = (if terminationReason child \<noteq> None \<and> terminationReason p1 = None
                then p1\<lparr>terminationReason := terminationReason child\<rparr> else p1)
      in (p2, [sliceMergedPayload (b_id p2) (b_id child) child]))"

definition isCapacityExhausted :: "reasoningBudget \<Rightarrow> bool" where
  "isCapacityExhausted b = list_ex (\<lambda>r. budgetRemaining b r \<le> 0) ALL_RESOURCES"

text \<open>A deadline of \<open>0\<close> is falsy.\<close>

definition isExhausted :: "int \<Rightarrow> reasoningBudget \<Rightarrow> bool" where
  "isExhausted now b =
     (terminationReason b \<noteq> None \<or> isCapacityExhausted b
      \<or> (case wallclockDeadlineMs b of None \<Rightarrow> False | Some d \<Rightarrow> d \<noteq> 0 \<and> now > d)
      \<or> abortSignal b = Some True)"

definition pressure :: "reasoningBudget \<Rightarrow> jsnum" where
  "pressure b = maxScore ALL_RESOURCES (budgetPressure b) 0"


section \<open>Lemmas\<close>

lemma c_get_put [simp]: "c_get (c_put c r v) r' = (if r' = r then v else c_get c r')"
  by (cases r; cases r') simp_all

lemma c_get_zero [simp]: "c_get zeroConsumed r = 0"
  by (cases r) (simp_all add: zeroConsumed_def)

lemma consumed_eqI: "(\<And>r. c_get c r = c_get d r) \<Longrightarrow> c = d"
  by (cases c; cases d) (metis c_get.simps consumedBudget.select_convs)

lemma c_get_build [simp]: "c_get (build_consumed f) r = f r"
  by (cases r) (simp_all add: build_consumed_def ALL_RESOURCES_def)

lemma all_resources [simp]: "set ALL_RESOURCES = UNIV"
  by (auto simp: ALL_RESOURCES_def intro: resource.exhaust)

lemma c_get_remainingAll [simp]: "c_get (remainingAll b) r = max 0 (budgetRemaining b r)"
  by (simp add: remainingAll_def remainingOf_def)

lemma budgetLimit_frame [simp]:
  "budgetLimit (b\<lparr>consumed := c\<rparr>) r = budgetLimit b r"
  "budgetLimit (b\<lparr>terminationReason := t\<rparr>) r = budgetLimit b r"
  "budgetLimit (b\<lparr>b_id := i\<rparr>) r = budgetLimit b r"
  by (cases r; simp)+

lemma budgetRemaining_frame [simp]:
  "budgetRemaining (b\<lparr>terminationReason := t\<rparr>) r = budgetRemaining b r"
  "budgetRemaining (b\<lparr>b_id := i\<rparr>) r = budgetRemaining b r"
  by (simp_all add: budgetRemaining_def)

lemma budgetLimit_charge [simp]: "budgetLimit (chargeBudget b r n) r' = budgetLimit b r'"
  by (simp add: chargeBudget_def)

lemma budgetRemaining_charge [simp]:
  "budgetRemaining (chargeBudget b r n) r' = budgetRemaining b r' - (if r' = r then n else 0)"
  by (simp add: budgetRemaining_def chargeBudget_def)

lemma consumed_charge [simp]:
  "c_get (consumed (chargeBudget b r n)) r' = c_get (consumed b) r' + (if r' = r then n else 0)"
  by (simp add: chargeBudget_def)

lemma charge_frame [simp]:
  "terminationReason (chargeBudget b r n) = terminationReason b" "b_id (chargeBudget b r n) = b_id b"
  "wallclockDeadlineMs (chargeBudget b r n) = wallclockDeadlineMs b"
  "abortSignal (chargeBudget b r n) = abortSignal b"
  by (simp_all add: chargeBudget_def)

lemma fst_consume: "fst (consume b r n) = (n \<le> budgetRemaining b r)"
  by (simp add: consume_def budgetAffords_def Let_def)

lemma consume_granted:
  "n \<le> budgetRemaining b r \<Longrightarrow> fst (snd (consume b r n)) = chargeBudget b r n"
  by (simp add: consume_def budgetAffords_def Let_def)

lemma consume_refused:
  "\<not> n \<le> budgetRemaining b r \<Longrightarrow>
   fst (snd (consume b r n)) = b\<lparr>terminationReason := Some (budgetRefusal b r)\<rparr>"
  by (simp add: consume_def budgetAffords_def Let_def)

text \<open>A budget in good standing: nothing negative, nothing over-spent.\<close>

definition budget_inv :: "reasoningBudget \<Rightarrow> bool" where
  "budget_inv b = list_all (\<lambda>r. 0 \<le> c_get (consumed b) r \<and> c_get (consumed b) r \<le> budgetLimit b r) ALL_RESOURCES"

lemma budget_inv_iff:
  "budget_inv b \<longleftrightarrow> (\<forall>r. 0 \<le> c_get (consumed b) r \<and> 0 \<le> budgetRemaining b r)"
  by (simp add: budget_inv_def list_all_iff budgetRemaining_def)

lemma consume_inv [inv_intros]: "budget_inv b \<Longrightarrow> 0 \<le> n \<Longrightarrow> budget_inv (fst (snd (consume b r n)))"
  by (cases "n \<le> budgetRemaining b r") (auto simp: consume_granted consume_refused budget_inv_iff)

lemma budgetLimit_create [simp]: "budgetLimit (createBudget l) r = budgetLimit l r"
  by (cases r) (simp_all add: createBudget_def)

lemma createBudget_inv [inv_intros]: "(\<And>r. 0 \<le> budgetLimit l r) \<Longrightarrow> budget_inv (createBudget l)"
  by (simp add: budget_inv_iff budgetRemaining_def) (simp add: createBudget_def)

lemma budgetLimit_with_limit [simp]: "budgetLimit (with_limit r v b) r' = (if r' = r then v else budgetLimit b r')"
  by (cases r; cases r') (simp_all add: with_limit_def)

lemma orElse_simps [simp]: "orElse None d = d" "orElse (Some v) d = v"
  by (simp_all add: orElse_def)

lemma budgetLimit_overlay [simp]:
  "budgetLimit (case c r of None \<Rightarrow> b | Some v \<Rightarrow> with_limit r v b) r'
   = (if r' = r then orElse (c r) (budgetLimit b r') else budgetLimit b r')"
  by (simp split: option.split)

lemma budgetLimit_fresh [simp]: "budgetLimit (freshBudget b c) r = orElse (c r) (budgetLimit b r)"
  by (cases r) (simp_all add: freshBudget_def ALL_RESOURCES_def del: budgetLimit.simps)

lemma with_limit_frame [simp]:
  "b_id (with_limit r v b) = b_id b" "consumed (with_limit r v b) = consumed b"
  "terminationReason (with_limit r v b) = terminationReason b"
  by (cases r; simp add: with_limit_def)+

lemma freshBudget_frame [simp]:
  "consumed (freshBudget b c) = zeroConsumed" "terminationReason (freshBudget b c) = None"
  "b_id (freshBudget b c) = b_id b"
  by (auto simp: freshBudget_def ALL_RESOURCES_def split: option.splits)

lemma resolve_get:
  "c_get (resolveAllocation b req fb) r
   = min (orElse (req r) (orElse (fb (remainingAll b) r) 0)) (max 0 (budgetRemaining b r))"
  by (simp add: resolveAllocation_def Let_def)

text \<open>Charging an affordable allocation moves every counter by its share, and refuses nothing.\<close>

lemma consume_cases:
  "consume b r n = (if n \<le> budgetRemaining b r
     then (True, chargeBudget b r n,
           [sliceConsumedPayload (b_id (chargeBudget b r n)) r n (chargeBudget b r n)])
     else (False, b\<lparr>terminationReason := Some (budgetRefusal b r)\<rparr>,
           [sliceExhaustedPayload (b_id b) (budgetRefusal b r)
              (b\<lparr>terminationReason := Some (budgetRefusal b r)\<rparr>)]))"
  by (simp add: consume_def budgetAffords_def Let_def)

lemma charge_fold:
  assumes "distinct rs" "\<And>r. r \<in> set rs \<Longrightarrow> orElse (alloc r) 0 \<le> budgetRemaining b r"
  shows "let b' = fst (fold (\<lambda>r (b, evs). let amount = orElse (alloc r) 0
            in if amount > 0 then (case consume b r amount of (_, b', e) \<Rightarrow> (b', evs @ e))
               else (b, evs)) rs (b, evs))
    in (\<forall>r. budgetRemaining b' r = budgetRemaining b r - (if r \<in> set rs then max 0 (orElse (alloc r) 0) else 0))
     \<and> (\<forall>r. budgetLimit b' r = budgetLimit b r) \<and> terminationReason b' = terminationReason b
     \<and> b_id b' = b_id b \<and> wallclockDeadlineMs b' = wallclockDeadlineMs b \<and> abortSignal b' = abortSignal b"
  using assms
proof (induction rs arbitrary: b evs)
  case Nil
  then show ?case by simp
next
  case (Cons r rs)
  show ?case
  proof (cases "orElse (alloc r) 0 > 0")
    case False
    with Cons.IH [of b evs] Cons.prems show ?thesis by (auto simp: Let_def)
  next
    case True
    let ?b = "chargeBudget b r (orElse (alloc r) 0)"
    have le: "orElse (alloc r) 0 \<le> budgetRemaining b r" using Cons.prems by simp
    have "orElse (alloc r') 0 \<le> budgetRemaining ?b r'" if "r' \<in> set rs" for r'
      using that Cons.prems by auto
    with Cons.IH [of ?b] Cons.prems True le show ?thesis
      by (auto simp: Let_def consume_cases)
  qed
qed

lemma chargeAllocation_affordable:
  assumes "\<And>r. orElse (alloc r) 0 \<le> budgetRemaining b r"
  shows "budgetRemaining (fst (chargeAllocation b alloc)) r = budgetRemaining b r - max 0 (orElse (alloc r) 0)"
    "budgetLimit (fst (chargeAllocation b alloc)) r = budgetLimit b r"
    "terminationReason (fst (chargeAllocation b alloc)) = terminationReason b"
    "b_id (fst (chargeAllocation b alloc)) = b_id b"
    "wallclockDeadlineMs (fst (chargeAllocation b alloc)) = wallclockDeadlineMs b"
    "abortSignal (fst (chargeAllocation b alloc)) = abortSignal b"
  using charge_fold [of ALL_RESOURCES alloc b "[]"] assms
  by (simp_all add: chargeAllocation_def Let_def) (simp_all add: ALL_RESOURCES_def)

lemma budgetLimit_slice:
  "budgetLimit (fst (sliceBudget p cid alloc)) r
   = orElse (alloc r) (if r = Depth then maxDepth p else budgetRemaining p r)"
  by (cases r) (simp_all add: sliceBudget_def Let_def buildBudgetSlice_def createBudget_def budgetRemaining_def)

lemma sliceBudget_frame [simp]:
  "consumed (fst (sliceBudget p cid alloc)) = zeroConsumed"
  "terminationReason (fst (sliceBudget p cid alloc)) = None"
  "b_id (fst (sliceBudget p cid alloc)) = Some cid"
  "b_parentId (fst (sliceBudget p cid alloc)) = b_id p"
  "wallclockDeadlineMs (fst (sliceBudget p cid alloc)) = wallclockDeadlineMs p"
  "abortSignal (fst (sliceBudget p cid alloc)) = abortSignal p"
  by (simp_all add: sliceBudget_def Let_def buildBudgetSlice_def createBudget_def)

lemma mergeConsumed_get:
  "c_get (mergeConsumed p c) r = (if r = Depth then max (c_get p r) (c_get c r) else c_get p r + c_get c r)"
  by (cases r) (simp_all add: mergeConsumed_def ALL_RESOURCES_def)

lemma capacity_exhausted_iff: "isCapacityExhausted b \<longleftrightarrow> (\<exists>r. budgetRemaining b r \<le> 0)"
  by (simp add: isCapacityExhausted_def list_ex_iff)

lemma budgetPressure_range: "0 \<le> budgetPressure b r \<and> budgetPressure b r \<le> 1"
  unfolding budgetPressure_def by (rule occupancy_range) simp_all

lemma fold_max_range:
  "(\<And>x. 0 \<le> f x \<and> f x \<le> 1) \<Longrightarrow> 0 \<le> m \<Longrightarrow> m \<le> 1 \<Longrightarrow>
   0 \<le> fold (\<lambda>x m. max m (f x)) xs m \<and> fold (\<lambda>x m. max m (f x)) xs m \<le> (1 :: real)"
  by (induction xs arbitrary: m) (auto simp: max_def)

lemma fold_max_ge: "m \<le> fold (\<lambda>x m. max m (f x)) xs (m :: real)
    \<and> (\<forall>x \<in> set xs. f x \<le> fold (\<lambda>x m. max m (f x)) xs m)"
proof (induction xs arbitrary: m)
  case (Cons x xs)
  show ?case using Cons.IH [of "max m (f x)"] by auto
qed simp

text \<open>\<open>consume\<close> grants exactly the charges that fit. A granted charge moves one
  counter by the amount; a refused one moves none, and leaves the dimension's own reason
  when nothing was left and \<open>backpressure\<close> when something was.\<close>

theorem consume_correct:
  "(amount \<le> budgetRemaining b r \<longrightarrow>
      fst (consume b r amount) \<and> fst (snd (consume b r amount)) = chargeBudget b r amount)
   \<and> (budgetRemaining b r < amount \<longrightarrow>
      \<not> fst (consume b r amount)
      \<and> consumed (fst (snd (consume b r amount))) = consumed b
      \<and> terminationReason (fst (snd (consume b r amount)))
        = Some (if budgetRemaining b r \<le> 0 then resource_reason r else Backpressure))"
  by (simp add: consume_cases budgetRefusal_def)

lemma consume_correct_witness:
  "fst (consume (createBudget \<lparr>maxCycles = 5, maxDepth = 2, maxMemoryOps = 3, maxLMCalls = 1\<rparr>) Cycles 4)
   \<and> terminationReason (fst (snd (consume
       (createBudget \<lparr>maxCycles = 5, maxDepth = 2, maxMemoryOps = 3, maxLMCalls = 1\<rparr>) Depth 3))) = Some Backpressure"
  using consume_correct [of 4 "createBudget \<lparr>maxCycles = 5, maxDepth = 2, maxMemoryOps = 3, maxLMCalls = 1\<rparr>" Cycles]
    consume_correct [of 3 "createBudget \<lparr>maxCycles = 5, maxDepth = 2, maxMemoryOps = 3, maxLMCalls = 1\<rparr>" Depth]
  by (simp add: budgetRemaining_def createBudget_def zeroConsumed_def)


declare c_get.simps [simp del] budgetLimit.simps [simp del]

text \<open>the pressure of a budget is the worst of its four dimensions, in the unit
  interval. A dimension without a positive ceiling is unpressured.\<close>

theorem pressure_worst_dimension:
  "\<exists>p. pressure b = Fin p \<and> 0 \<le> p \<and> p \<le> 1 \<and> (\<forall>r. budgetPressure b r \<le> p)"
  using fold_max_range [of "budgetPressure b" 0 ALL_RESOURCES, OF budgetPressure_range]
    fold_max_ge [of 0 "budgetPressure b" ALL_RESOURCES]
  by (simp add: pressure_def maxScore_Fin)

text \<open>merging a child's consumption adds its spend and keeps the deeper of the two
  depths, whatever the order in which two children are merged.\<close>

theorem mergeConsumed_order:
  "mergeConsumed (mergeConsumed p c) d = mergeConsumed (mergeConsumed p d) c
   \<and> c_get (mergeConsumed p c) Cycles = c_get p Cycles + c_get c Cycles
   \<and> c_get (mergeConsumed p c) Depth = max (c_get p Depth) (c_get c Depth)"
  by (intro conjI consumed_eqI) (simp_all add: mergeConsumed_get ac_simps)

end
