(* ===== verification/Thread.thy ===== *)
theory Thread
  imports Budget
begin

text \<open>
  \<open>core/src/cognitive-thread.ts\<close>: the thread with its budget slice, mailbox and
  children, and the pool. A method that mutates the thread returns it. The result of a
  thread's work is a sum: \<open>Inl\<close> the error it threw. \<open>Date.now()\<close> and
  \<open>makeId()\<close> are arguments. A mailbox capacity below one makes the constructor throw
  (\<open>None\<close>).
\<close>

section \<open>Threads\<close>

datatype messageType = TaskMsg | ControlMsg | ResultMsg | ErrorMsg

datatype threadStatus = Created | Running | Waiting | Completed | Killed | Failed

datatype backpressureReason = BudgetExhausted | MailboxFull | Ok

record 'p messageDraft =
  m_type :: messageType
  m_payload :: 'p
  m_correlationId :: "string option"

record 'p threadMessage = "'p messageDraft" +
  m_id :: string
  m_timestamp :: int

record ('p, 'r) cognitiveThread =
  t_id :: string
  t_budget :: reasoningBudget
  t_mailbox :: "'p threadMessage boundedRing"
  t_parentId :: "string option"
  t_status :: threadStatus
  t_children :: "string list"
  t_result :: "'r option"
  t_error :: "string option"

record backpressureDecision =
  bp_threadId :: string
  bp_allowed :: bool
  bp_reason :: backpressureReason
  bp_budgetRemaining :: int
  bp_mailboxSize :: int
  bp_mailboxCapacity :: int

definition DEFAULT_MAILBOX_CAPACITY :: int where
  "DEFAULT_MAILBOX_CAPACITY = 50"

definition createMailbox :: "int \<Rightarrow> 'p threadMessage boundedRing option" where
  "createMailbox cap = newBoundedRing cap Refuse"

definition newThread ::
  "string \<Rightarrow> reasoningBudget \<Rightarrow> allocation option \<Rightarrow> int option \<Rightarrow> ('p, 'r) cognitiveThread option" where
  "newThread ident parentBudget alloc cap =
     (case createMailbox (orElse cap DEFAULT_MAILBOX_CAPACITY) of
        None \<Rightarrow> None
      | Some mailbox \<Rightarrow> Some
          \<lparr>t_id = ident,
           t_budget = fst (sliceBudget parentBudget ident (orElse alloc no_allocation)),
           t_mailbox = mailbox, t_parentId = b_id parentBudget, t_status = Created,
           t_children = [], t_result = None, t_error = None\<rparr>)"

text \<open>A resolved allocation names all four dimensions.\<close>

definition full_allocation :: "consumedBudget \<Rightarrow> allocation" where
  "full_allocation c = (\<lambda>r. Some (c_get c r))"

definition spawn_shares :: "int \<Rightarrow> consumedBudget \<Rightarrow> allocation" where
  "spawn_shares shares remaining r =
     Some (case r of
       Cycles \<Rightarrow> perPart (c_cycles remaining) shares 0 floor
     | Depth \<Rightarrow> c_depth remaining
     | MemoryOps \<Rightarrow> perPart (c_memoryOps remaining) shares 0 floor
     | LlmCalls \<Rightarrow> perPart (c_llmCalls remaining) shares 0 floor)"

definition spawn ::
  "('p, 'r) cognitiveThread \<Rightarrow> string \<Rightarrow> allocation
   \<Rightarrow> (('p, 'r) cognitiveThread \<times> consumedBudget \<times> ('p, 'r) cognitiveThread) option" where
  "spawn t childId alloc =
     (let shares = int (length (t_children t)) + 2;
          childAllocation = full_allocation (resolveAllocation (t_budget t) alloc (spawn_shares shares));
          budget' = fst (chargeAllocation (t_budget t) childAllocation)
      in case newThread childId budget' (Some childAllocation) (Some DEFAULT_MAILBOX_CAPACITY) of
           None \<Rightarrow> None
         | Some child \<Rightarrow> Some (child, remainingAll budget',
             t\<lparr>t_budget := budget', t_children := set_add (t_id child) (t_children t)\<rparr>))"

definition backpressure ::
  "('p, 'r) cognitiveThread \<Rightarrow> bool \<Rightarrow> backpressureReason \<Rightarrow> backpressureDecision" where
  "backpressure t allowed reason =
     \<lparr>bp_threadId = t_id t, bp_allowed = allowed, bp_reason = reason,
      bp_budgetRemaining = remainingCycles (t_budget t),
      bp_mailboxSize = ring_size (t_mailbox t), bp_mailboxCapacity = ring_capacity (t_mailbox t)\<rparr>"

definition send ::
  "int \<Rightarrow> string \<Rightarrow> ('p, 'r) cognitiveThread \<Rightarrow> 'p messageDraft
   \<Rightarrow> bool \<times> ('p, 'r) cognitiveThread \<times> backpressureDecision" where
  "send now ident t msg =
     (if isExhausted now (t_budget t)
      then (False, t, backpressure t False BudgetExhausted)
      else (case consumeCycles (t_budget t) 1 of
        (ok, b', _) \<Rightarrow>
          let t1 = t\<lparr>t_budget := b'\<rparr>
          in if \<not> ok then (False, t1, backpressure t1 False BudgetExhausted)
             else (case ring_tryPush (t_mailbox t1)
                          (messageDraft.extend msg \<lparr>m_id = ident, m_timestamp = now\<rparr>) of
                     (enqueued, box) \<Rightarrow>
                       let t2 = t1\<lparr>t_mailbox := box\<rparr>
                       in (enqueued, t2,
                           backpressure t2 enqueued (if enqueued then Ok else MailboxFull)))))"

definition receive ::
  "('p, 'r) cognitiveThread \<Rightarrow> 'p threadMessage option \<times> ('p, 'r) cognitiveThread" where
  "receive t = (case ring_shift (t_mailbox t) of (m, box) \<Rightarrow> (m, t\<lparr>t_mailbox := box\<rparr>))"

definition run ::
  "('p, 'r) cognitiveThread
   \<Rightarrow> (('p, 'r) cognitiveThread \<Rightarrow> (string + 'r) \<times> ('p, 'r) cognitiveThread)
   \<Rightarrow> (string + 'r) \<times> ('p, 'r) cognitiveThread" where
  "run t work =
     (let t1 = t\<lparr>t_status := Running, t_budget := fst (snd (consumeCycles (t_budget t) 1))\<rparr>
      in case work t1 of
           (Inr r, t2) \<Rightarrow> (Inr r, t2\<lparr>t_result := Some r, t_status := Completed\<rparr>)
         | (Inl e, t2) \<Rightarrow> (Inl e, t2\<lparr>t_error := Some e, t_status := Failed\<rparr>))"

definition join :: "('p, 'r) cognitiveThread \<Rightarrow> string + ('r option \<times> consumedBudget)" where
  "join t = (case t_error t of
               Some e \<Rightarrow> Inl e
             | None \<Rightarrow> Inr (t_result t, remainingAll (t_budget t)))"

definition kill :: "('p, 'r) cognitiveThread \<Rightarrow> string \<Rightarrow> ('p, 'r) cognitiveThread" where
  "kill t reason = t\<lparr>t_status := Killed, t_error := Some (''Thread killed: '' @ reason)\<rparr>"

definition canContinue :: "int \<Rightarrow> ('p, 'r) cognitiveThread \<Rightarrow> bool" where
  "canContinue now t = (\<not> isExhausted now (t_budget t) \<and> t_status t = Running)"

definition thread_consume :: "('p, 'r) cognitiveThread \<Rightarrow> int \<Rightarrow> bool \<times> ('p, 'r) cognitiveThread" where
  "thread_consume t cycles =
     (case consumeCycles (t_budget t) cycles of (ok, b', _) \<Rightarrow> (ok, t\<lparr>t_budget := b'\<rparr>))"

definition getUnconsumedBudget :: "('p, 'r) cognitiveThread \<Rightarrow> consumedBudget" where
  "getUnconsumedBudget t = remainingAll (t_budget t)"

section \<open>The pool\<close>

record ('p, 'r) threadPool =
  p_threads :: "(string, ('p, 'r) cognitiveThread) omap"
  p_rootBudget :: reasoningBudget
  p_maxThreads :: int

definition pool_admits :: "('p, 'r) threadPool \<Rightarrow> string \<Rightarrow> bool" where
  "pool_admits p ident =
     (ident \<notin> set (okeys (p_threads p)) \<and> int (length (p_threads p)) < p_maxThreads p)"

text \<open>
  \<open>spawn\<close> of the pool: \<open>None\<close> when the pool does not admit the id, \<open>Some None\<close>
  when the constructor throws. The options that it spreads over the defaults are the
  allocation and the mailbox capacity.
\<close>

definition pool_spawn ::
  "('p, 'r) threadPool \<Rightarrow> string \<Rightarrow> allocation option \<Rightarrow> int option
   \<Rightarrow> (('p, 'r) cognitiveThread \<times> ('p, 'r) threadPool) option option" where
  "pool_spawn p ident alloc cap =
     (if \<not> pool_admits p ident then None
      else Some (map_option
             (\<lambda>t. (t, p\<lparr>p_threads := AList.update ident t (p_threads p)\<rparr>))
             (newThread ident (p_rootBudget p) alloc cap)))"

definition pool_spawnWithBudget ::
  "('p, 'r) threadPool \<Rightarrow> string \<Rightarrow> allocation
   \<Rightarrow> (('p, 'r) cognitiveThread \<times> consumedBudget \<times> ('p, 'r) threadPool) option" where
  "pool_spawnWithBudget p ident alloc =
     (if \<not> pool_admits p ident then None
      else (let childAllocation = full_allocation
                  (resolveAllocation (p_rootBudget p) alloc full_allocation);
                root' = fst (chargeAllocation (p_rootBudget p) childAllocation)
            in map_option
                 (\<lambda>t. (t, remainingAll root',
                       p\<lparr>p_rootBudget := root', p_threads := AList.update ident t (p_threads p)\<rparr>))
                 (newThread ident root' (Some childAllocation) (Some DEFAULT_MAILBOX_CAPACITY))))"

definition pool_kill :: "('p, 'r) threadPool \<Rightarrow> string \<Rightarrow> bool \<times> ('p, 'r) threadPool" where
  "pool_kill p ident =
     (case map_of (p_threads p) ident of
        None \<Rightarrow> (False, p)
      | Some t \<Rightarrow> (True, p\<lparr>p_threads := AList.delete ident (p_threads p)\<rparr>))"

definition pool_killAll :: "('p, 'r) threadPool \<Rightarrow> ('p, 'r) threadPool" where
  "pool_killAll p = p\<lparr>p_threads := []\<rparr>"

definition pool_getStatuses :: "('p, 'r) threadPool \<Rightarrow> (string, threadStatus) omap" where
  "pool_getStatuses p = map (\<lambda>(i, t). (i, t_status t)) (p_threads p)"

definition pool_joinAll :: "('p, 'r) threadPool \<Rightarrow> (string, string + 'r option) omap" where
  "pool_joinAll p =
     map (\<lambda>(i, t). (i, case join t of Inl e \<Rightarrow> Inl e | Inr (r, _) \<Rightarrow> Inr r)) (p_threads p)"


section \<open>Budget inheritance\<close>

definition nonneg_allocation :: "allocation \<Rightarrow> bool" where
  "nonneg_allocation alloc = list_all (\<lambda>r. 0 \<le> orElse (alloc r) 0) ALL_RESOURCES"

lemma nonneg_allocationD: "nonneg_allocation alloc \<Longrightarrow> 0 \<le> orElse (alloc r) 0"
  by (simp add: nonneg_allocation_def list_all_iff)

lemma newThread_default:
  "newThread i p (Some a) (Some DEFAULT_MAILBOX_CAPACITY) =
     Some \<lparr>t_id = i, t_budget = fst (sliceBudget p i a),
       t_mailbox = \<lparr>ring_items = [], ring_capacity = 50, ring_overflow = Refuse\<rparr>,
       t_parentId = b_id p, t_status = Created, t_children = [], t_result = None, t_error = None\<rparr>"
  by (simp add: newThread_def createMailbox_def newBoundedRing_def DEFAULT_MAILBOX_CAPACITY_def)

lemma perPart_range:
  assumes "0 \<le> n" "2 \<le> k"
  shows "0 \<le> perPart (real_of_int n) (real_of_int k) 0 floor"
    "perPart (real_of_int n) (real_of_int k) 0 floor \<le> n"
proof -
  have "\<lfloor>real_of_int n / real_of_int k\<rfloor> = n div k" by (simp add: floor_divide_of_int_eq)
  moreover have "n div k \<le> n" using assms int_div_less_self [of n k] by (cases "n = 0") simp_all
  ultimately show "0 \<le> perPart (real_of_int n) (real_of_int k) 0 floor"
    "perPart (real_of_int n) (real_of_int k) 0 floor \<le> n"
    using assms by (auto simp: perPart_def)
qed

text \<open>What one spawn moves from the parent to the child.\<close>

definition spawn_share :: "('p, 'r) cognitiveThread \<Rightarrow> allocation \<Rightarrow> resource \<Rightarrow> int" where
  "spawn_share t alloc r =
     c_get (resolveAllocation (t_budget t) alloc (spawn_shares (int (length (t_children t)) + 2))) r"

lemma spawn_share_range:
  assumes "budget_inv (t_budget t)" "nonneg_allocation alloc"
  shows "0 \<le> spawn_share t alloc r" "spawn_share t alloc r \<le> budgetRemaining (t_budget t) r"
proof -
  have rem: "0 \<le> budgetRemaining (t_budget t) r" for r using assms(1) by (simp add: budget_inv_iff)
  have "0 \<le> orElse (spawn_shares (int (length (t_children t)) + 2) (remainingAll (t_budget t)) r) 0"
    using perPart_range(1) [of _ "int (length (t_children t)) + 2"] rem
      c_get_remainingAll [of "t_budget t" r]
    by (cases r) (simp_all add: spawn_shares_def c_get.simps)
  then have "0 \<le> orElse (alloc r) (orElse (spawn_shares (int (length (t_children t)) + 2)
      (remainingAll (t_budget t)) r) 0)"
    using nonneg_allocationD [OF assms(2), of r] by (cases "alloc r") simp_all
  then show "0 \<le> spawn_share t alloc r" "spawn_share t alloc r \<le> budgetRemaining (t_budget t) r"
    using rem [of r] by (simp_all add: spawn_share_def resolve_get)
qed

lemma spawn_spec:
  assumes inv: "budget_inv (t_budget t)" and nn: "nonneg_allocation alloc"
  obtains child rem t' where "spawn t cid alloc = Some (child, rem, t')"
    "\<And>r. budgetLimit (t_budget child) r = spawn_share t alloc r"
    "\<And>r. budgetRemaining (t_budget t') r = budgetRemaining (t_budget t) r - spawn_share t alloc r"
    "\<And>r. budgetLimit (t_budget t') r = budgetLimit (t_budget t) r"
    "\<And>r. c_get rem r = budgetRemaining (t_budget t') r"
    "budget_inv (t_budget child)" "budget_inv (t_budget t')"
    "terminationReason (t_budget t') = terminationReason (t_budget t)"
    "t_parentId child = b_id (t_budget t)" "t_id child = cid"
    "t_mailbox t' = t_mailbox t" "t_status t' = t_status t"
proof -
  let ?c = "resolveAllocation (t_budget t) alloc (spawn_shares (int (length (t_children t)) + 2))"
  let ?a = "full_allocation ?c"
  let ?b = "fst (chargeAllocation (t_budget t) ?a)"
  have a: "orElse (?a r) 0 = spawn_share t alloc r" for r
    by (simp add: full_allocation_def spawn_share_def)
  have aff: "orElse (?a r) 0 \<le> budgetRemaining (t_budget t) r" for r
    using spawn_share_range(2) [OF inv nn] a by simp
  note ch = chargeAllocation_affordable [OF aff]
  let ?child = "\<lparr>t_id = cid, t_budget = fst (sliceBudget ?b cid ?a),
       t_mailbox = \<lparr>ring_items = [], ring_capacity = 50, ring_overflow = Refuse\<rparr>,
       t_parentId = b_id ?b, t_status = Created, t_children = [], t_result = None, t_error = None\<rparr>"
  let ?t = "t\<lparr>t_budget := ?b, t_children := set_add cid (t_children t)\<rparr>"
  have sp: "spawn t cid alloc = Some (?child, remainingAll ?b, ?t)"
    by (simp add: spawn_def Let_def newThread_default)
  have lim: "budgetLimit (t_budget ?child) r = spawn_share t alloc r" for r
    by (simp add: budgetLimit_slice full_allocation_def spawn_share_def)
  have rem: "budgetRemaining (t_budget ?t) r = budgetRemaining (t_budget t) r - spawn_share t alloc r" for r
    using ch(1) [of r] a [of r] spawn_share_range(1) [OF inv nn, of r] by simp
  have limt: "budgetLimit (t_budget ?t) r = budgetLimit (t_budget t) r" for r
    using ch(2) by simp
  have "0 \<le> budgetRemaining (t_budget ?t) r" for r
    using rem [of r] spawn_share_range(2) [OF inv nn, of r] by simp
  moreover have "0 \<le> c_get (consumed (t_budget ?t)) r" for r
  proof -
    have "c_get (consumed (t_budget ?t)) r = c_get (consumed (t_budget t)) r + spawn_share t alloc r"
      using rem [of r] limt [of r] by (simp add: budgetRemaining_def)
    then show ?thesis using inv spawn_share_range(1) [OF inv nn, of r] by (simp add: budget_inv_iff)
  qed
  ultimately have invt: "budget_inv (t_budget ?t)" by (simp add: budget_inv_iff)
  have "budgetRemaining (t_budget ?child) r = spawn_share t alloc r" for r
    using lim [of r] by (simp add: budgetRemaining_def)
  then have invc: "budget_inv (t_budget ?child)"
    using spawn_share_range(1) [OF inv nn] by (simp add: budget_inv_iff)
  show thesis
    by (rule that [OF sp lim rem limt _ invc invt])
      (use ch invt in \<open>simp_all add: budget_inv_iff\<close>)
qed

text \<open>A series of spawns from one parent.\<close>

fun spawn_all ::
  "('p, 'r) cognitiveThread \<Rightarrow> (string \<times> allocation) list
   \<Rightarrow> (('p, 'r) cognitiveThread list \<times> ('p, 'r) cognitiveThread) option" where
  "spawn_all t [] = Some ([], t)"
| "spawn_all t ((cid, alloc) # reqs) =
     (case spawn t cid alloc of
        None \<Rightarrow> None
      | Some (child, _, t') \<Rightarrow>
          (case spawn_all t' reqs of
             None \<Rightarrow> None
           | Some (cs, t'') \<Rightarrow> Some (child # cs, t'')))"

text \<open>C33: hard budget inheritance. However many children a thread spawns, with whatever
  non-negative requests, in every dimension the ceilings of the children and what is left
  to the parent add up to what was left to it before: the children can never spend more
  than the parent had.\<close>

theorem spawn_conserves_budget:
  assumes "budget_inv (t_budget t)" "\<And>cid alloc. (cid, alloc) \<in> set reqs \<Longrightarrow> nonneg_allocation alloc"
  shows "\<exists>cs t'. spawn_all t reqs = Some (cs, t') \<and> length cs = length reqs
    \<and> sum_list (map (\<lambda>c. budgetLimit (t_budget c) r) cs) + budgetRemaining (t_budget t') r
      = budgetRemaining (t_budget t) r
    \<and> 0 \<le> budgetRemaining (t_budget t') r"
  using assms
proof (induction reqs arbitrary: t)
  case Nil
  then show ?case by (simp add: budget_inv_iff)
next
  case (Cons q reqs)
  obtain cid alloc where q: "q = (cid, alloc)" by force
  then have nn: "nonneg_allocation alloc" using Cons.prems(2) by auto
  obtain child rem t1 where sp: "spawn t cid alloc = Some (child, rem, t1)"
    and l: "budgetLimit (t_budget child) r = spawn_share t alloc r"
    and m: "budgetRemaining (t_budget t1) r = budgetRemaining (t_budget t) r - spawn_share t alloc r"
    and i: "budget_inv (t_budget t1)"
    using spawn_spec [OF Cons.prems(1) nn, of cid] by metis
  obtain cs t' where "spawn_all t1 reqs = Some (cs, t')" "length cs = length reqs"
    "sum_list (map (\<lambda>c. budgetLimit (t_budget c) r) cs) + budgetRemaining (t_budget t') r
      = budgetRemaining (t_budget t1) r" "0 \<le> budgetRemaining (t_budget t') r"
    using Cons.IH [OF i] Cons.prems(2) by (metis list.set_intros(2))
  with sp l m show ?case by (simp add: q)
qed


definition sample_root :: reasoningBudget where
  "sample_root = fst (createBudgetSlice ''root'' None
     \<lparr>maxCycles = 100, maxDepth = 10, maxMemoryOps = 50, maxLMCalls = 5\<rparr> None None)"

definition sample_thread :: "(unit, unit) cognitiveThread" where
  "sample_thread = the (newThread ''t'' sample_root None None)"

lemma sample_thread_eq:
  "sample_thread = \<lparr>t_id = ''t'', t_budget = fst (sliceBudget sample_root ''t'' no_allocation),
     t_mailbox = \<lparr>ring_items = [], ring_capacity = 50, ring_overflow = Refuse\<rparr>,
     t_parentId = b_id sample_root, t_status = Created, t_children = [], t_result = None, t_error = None\<rparr>"
  by (simp add: sample_thread_def newThread_def createMailbox_def newBoundedRing_def
      DEFAULT_MAILBOX_CAPACITY_def)

lemma sample_thread_limits:
  "budgetLimit (t_budget sample_thread) r
   = (case r of Cycles \<Rightarrow> 100 | Depth \<Rightarrow> 10 | MemoryOps \<Rightarrow> 50 | LlmCalls \<Rightarrow> 5)"
  "consumed (t_budget sample_thread) = zeroConsumed"
  by (cases r)
    (simp_all add: sample_thread_eq budgetLimit_slice sample_root_def createBudgetSlice_def Let_def
      buildBudgetSlice_def createBudget_def budgetRemaining_def zeroConsumed_def sliceBudget_def
      budgetLimit.simps c_get.simps)

lemma sample_thread_inv: "budget_inv (t_budget sample_thread)"
  by (simp add: budget_inv_iff budgetRemaining_def sample_thread_limits split: resource.split)

lemma spawn_conserves_budget_witness:
  "\<exists>cs t'. spawn_all sample_thread [(''a'', no_allocation), (''b'', no_allocation)] = Some (cs, t')
    \<and> length cs = 2
    \<and> sum_list (map (\<lambda>c. budgetLimit (t_budget c) Cycles) cs) + budgetRemaining (t_budget t') Cycles = 100"
proof -
  have rem: "budgetRemaining (t_budget sample_thread) Cycles = 100"
    by (simp add: budgetRemaining_def sample_thread_limits)
  let ?reqs = "[(''a'', no_allocation), (''b'', no_allocation)]"
  have nn: "nonneg_allocation no_allocation" by (simp add: nonneg_allocation_def list_all_iff)
  have "\<exists>cs t'. spawn_all sample_thread ?reqs = Some (cs, t') \<and> length cs = length ?reqs
    \<and> sum_list (map (\<lambda>c. budgetLimit (t_budget c) Cycles) cs) + budgetRemaining (t_budget t') Cycles
      = budgetRemaining (t_budget sample_thread) Cycles
    \<and> 0 \<le> budgetRemaining (t_budget t') Cycles"
    by (rule spawn_conserves_budget [OF sample_thread_inv]) (use nn in auto)
  then show ?thesis unfolding rem by fastforce
qed

section \<open>A spawn without a depth request takes the parent's whole depth\<close>

text \<open>a spawn that does not ask for a depth gives the child all the depth its parent
  has left and charges it to the parent. Depth is a high-water mark everywhere else, but
  here it is spent: the parent is exhausted from then on, whatever cycles it has left, so
  it refuses every message and cannot continue, and its next child is born exhausted.\<close>

theorem spawn_spends_depth:
  assumes "budget_inv (t_budget t)" "nonneg_allocation alloc" "alloc Depth = None"
  shows "\<exists>child rem t'. spawn t cid alloc = Some (child, rem, t')
    \<and> budgetLimit (t_budget child) Depth = budgetRemaining (t_budget t) Depth
    \<and> budgetRemaining (t_budget t') Depth = 0
    \<and> isExhausted now (t_budget t')
    \<and> \<not> canContinue now t'
    \<and> send now i t' msg = (False, t', backpressure t' False BudgetExhausted)"
proof -
  obtain child rem t' where sp: "spawn t cid alloc = Some (child, rem, t')"
    and l: "budgetLimit (t_budget child) Depth = spawn_share t alloc Depth"
    and m: "budgetRemaining (t_budget t') Depth = budgetRemaining (t_budget t) Depth - spawn_share t alloc Depth"
    using spawn_spec [OF assms(1,2), of cid] by metis
  have "0 \<le> budgetRemaining (t_budget t) Depth" using assms(1) by (simp add: budget_inv_iff)
  then have s: "spawn_share t alloc Depth = budgetRemaining (t_budget t) Depth"
    using assms(3) c_get_remainingAll [of "t_budget t" Depth]
    by (simp add: spawn_share_def resolve_get spawn_shares_def c_get.simps [symmetric])
  with m have z: "budgetRemaining (t_budget t') Depth = 0" by simp
  then have ex: "isExhausted now (t_budget t')"
    by (auto simp: isExhausted_def capacity_exhausted_iff intro: exI [of _ Depth])
  then have "send now i t' msg = (False, t', backpressure t' False BudgetExhausted)"
    by (simp add: send_def)
  with sp l s z ex show ?thesis by (simp add: canContinue_def)
qed

lemma spawn_spends_depth_witness:
  "\<exists>child rem t'. spawn sample_thread ''c'' no_allocation = Some (child, rem, t')
    \<and> budgetLimit (t_budget child) Depth = 10 \<and> budgetRemaining (t_budget t') Depth = 0
    \<and> isExhausted 0 (t_budget t')"
proof -
  have rem: "budgetRemaining (t_budget sample_thread) Depth = 10"
    by (simp add: budgetRemaining_def sample_thread_limits)
  have "nonneg_allocation no_allocation" by (simp add: nonneg_allocation_def list_all_iff)
  from spawn_spends_depth [OF sample_thread_inv this refl, of "''c''" 0 "''m''" undefined]
  obtain child rem' t' where "spawn sample_thread ''c'' no_allocation = Some (child, rem', t')"
    "budgetLimit (t_budget child) Depth = 10" "budgetRemaining (t_budget t') Depth = 0"
    "isExhausted 0 (t_budget t')" by (auto simp: rem)
  then show ?thesis by blast
qed

section \<open>The mailbox\<close>

definition thread_inv :: "('p, 'r) cognitiveThread \<Rightarrow> bool" where
  "thread_inv t = (ring_inv (t_mailbox t) \<and> ring_overflow (t_mailbox t) = Refuse)"

lemma newThread_inv [inv_intros]: "newThread i p a c = Some t \<Longrightarrow> thread_inv t"
  by (auto simp: newThread_def createMailbox_def thread_inv_def ring_inv_def ring_size_def
      newBoundedRing_def split: option.splits if_splits)

text \<open>Every branch of \<open>send\<close>.\<close>

lemma send_cases:
  assumes "thread_inv t" and s: "send now i t msg = (ok, t', d)"
  obtains (exhausted) "isExhausted now (t_budget t)" "\<not> ok" "t' = t" "bp_reason d = BudgetExhausted"
  | (full) "\<not> isExhausted now (t_budget t)" "\<not> ok" "ring_size (t_mailbox t) = ring_capacity (t_mailbox t)"
      "t_mailbox t' = t_mailbox t" "t_budget t' = chargeBudget (t_budget t) Cycles 1"
      "bp_reason d = MailboxFull"
  | (sent) "\<not> isExhausted now (t_budget t)" "ok" "ring_size (t_mailbox t) < ring_capacity (t_mailbox t)"
      "ring_items (t_mailbox t') = ring_items (t_mailbox t)
         @ [messageDraft.extend msg \<lparr>m_id = i, m_timestamp = now\<rparr>]"
      "t_budget t' = chargeBudget (t_budget t) Cycles 1" "bp_reason d = Ok"
proof (cases "isExhausted now (t_budget t)")
  case True
  show thesis by (rule exhausted) (use True s in \<open>auto simp: send_def backpressure_def\<close>)
next
  case False
  then have "0 < budgetRemaining (t_budget t) Cycles"
    by (auto simp: isExhausted_def capacity_exhausted_iff not_le)
  then obtain e where c: "consumeCycles (t_budget t) 1 = (True, chargeBudget (t_budget t) Cycles 1, e)"
    by (simp add: consumeCycles_def consume_cases)
  have box: "ring_inv (t_mailbox t)" "ring_overflow (t_mailbox t) = Refuse"
    using assms(1) by (simp_all add: thread_inv_def)
  let ?m = "messageDraft.extend msg \<lparr>m_id = i, m_timestamp = now\<rparr>"
  let ?t = "t\<lparr>t_budget := chargeBudget (t_budget t) Cycles 1\<rparr>"
  obtain q box' where tp: "ring_tryPush (t_mailbox t) ?m = (q, box')" by force
  have s': "ok = q" "t' = ?t\<lparr>t_mailbox := box'\<rparr>" "bp_reason d = (if q then Ok else MailboxFull)"
    using s False c tp by (simp_all add: send_def Let_def backpressure_def split: if_splits) auto
  show thesis
  proof (cases "ring_size (t_mailbox t) = ring_capacity (t_mailbox t)")
    case eq: True
    with tp box have "\<not> q" "box' = t_mailbox t" by (auto simp: ring_tryPush_def ring_size_def)
    with s' False eq show thesis by (intro full) simp_all
  next
    case ne: False
    then have lt: "ring_size (t_mailbox t) < ring_capacity (t_mailbox t)"
      using box(1) by (simp add: ring_inv_def)
    with tp ring_push_refuse [OF box, of ?m]
    have "q" "ring_items box' = ring_items (t_mailbox t) @ [?m]"
      by (auto simp: ring_tryPush_def ring_size_def)
    with s' False lt show thesis by (intro sent) simp_all
  qed
qed

datatype 'p mailOp = Send int string "'p messageDraft" | Receive

text \<open>A schedule of sends and receives, with the messages accepted and delivered so far.\<close>

fun mail_step ::
  "'p mailOp \<Rightarrow> ('p, 'r) cognitiveThread \<times> 'p threadMessage list \<times> 'p threadMessage list
   \<Rightarrow> ('p, 'r) cognitiveThread \<times> 'p threadMessage list \<times> 'p threadMessage list" where
  "mail_step (Send now i msg) (t, acc, del) =
     (case send now i t msg of
        (ok, t', _) \<Rightarrow>
          (t', if ok then acc @ [messageDraft.extend msg \<lparr>m_id = i, m_timestamp = now\<rparr>] else acc, del))"
| "mail_step Receive (t, acc, del) =
     (case receive t of (None, t') \<Rightarrow> (t', acc, del) | (Some m, t') \<Rightarrow> (t', acc, del @ [m]))"

definition mail_run ::
  "'p mailOp list \<Rightarrow> ('p, 'r) cognitiveThread
   \<Rightarrow> ('p, 'r) cognitiveThread \<times> 'p threadMessage list \<times> 'p threadMessage list" where
  "mail_run ops t = fold mail_step ops (t, [], [])"

lemma mail_step_inv:
  assumes "thread_inv t" "acc = del @ ring_items (t_mailbox t)" "mail_step op (t, acc, del) = (t', acc', del')"
  shows "thread_inv t' \<and> acc' = del' @ ring_items (t_mailbox t')
    \<and> ring_capacity (t_mailbox t') = ring_capacity (t_mailbox t)"
proof (cases op)
  case (Send now i msg)
  obtain ok t1 d where s: "send now i t msg = (ok, t1, d)" by (metis prod_cases3)
  have frame: "thread_inv t1 \<and> ring_capacity (t_mailbox t1) = ring_capacity (t_mailbox t)"
    using s assms(1) ring_tryPush_inv [of "t_mailbox t"]
    by (auto simp: send_def Let_def thread_inv_def ring_tryPush_def frame_simps ring_push_inv
        split: if_splits prod.splits)
  from assms(1) s show ?thesis
    by (cases rule: send_cases) (use frame assms(2,3) Send s in auto)
next
  case Receive
  with assms show ?thesis
    by (cases "ring_items (t_mailbox t)")
      (auto simp: receive_def ring_shift_def thread_inv_def ring_inv_def ring_size_def)
qed

text \<open>the mailbox is a bounded first-in first-out queue that loses nothing it
  accepted: under any schedule of sends and receives, the messages delivered followed by
  those still queued are the messages accepted, in the order they were accepted, and no
  more than the capacity are queued.\<close>

theorem mailbox_fifo:
  assumes "newThread ident p alloc cap = Some t" "mail_run ops t = (t', accepted, delivered)"
  shows "accepted = delivered @ ring_items (t_mailbox t')
    \<and> ring_size (t_mailbox t') \<le> ring_capacity (t_mailbox t')
    \<and> ring_capacity (t_mailbox t') = orElse cap 50"
proof -
  have n: "thread_inv t" "ring_items (t_mailbox t) = []" "ring_capacity (t_mailbox t) = orElse cap 50"
    using assms(1) newThread_inv [OF assms(1)]
    by (auto simp: newThread_def createMailbox_def newBoundedRing_def DEFAULT_MAILBOX_CAPACITY_def
        split: option.splits if_splits)
  have "thread_inv t' \<and> accepted = delivered @ ring_items (t_mailbox t')
    \<and> ring_capacity (t_mailbox t') = ring_capacity (t_mailbox t)"
    using assms(2)
  proof (induction ops arbitrary: t' accepted delivered rule: rev_induct)
    case Nil
    with n show ?case by (simp add: mail_run_def)
  next
    case (snoc op ops)
    obtain t1 a d where r: "mail_run ops t = (t1, a, d)" by (metis prod_cases3)
    then have "mail_step op (t1, a, d) = (t', accepted, delivered)"
      using snoc.prems by (simp add: mail_run_def)
    with mail_step_inv [of t1 a d op] snoc.IH [OF r] show ?case by metis
  qed
  with n show ?thesis by (simp add: thread_inv_def ring_inv_def)
qed

lemma mailbox_fifo_witness:
  "\<exists>t' a d. mail_run [Send 0 ''m1'' \<lparr>m_type = TaskMsg, m_payload = (), m_correlationId = None\<rparr>, Receive]
      sample_thread = (t', a, d) \<and> a = d @ ring_items (t_mailbox t')"
proof -
  have "newThread ''t'' sample_root None None = Some sample_thread"
    by (simp add: sample_thread_eq newThread_def createMailbox_def newBoundedRing_def
        DEFAULT_MAILBOX_CAPACITY_def)
  from mailbox_fifo [OF this] show ?thesis by (metis prod_cases3)
qed

section \<open>Pool invariant\<close>

definition pool_inv :: "('p, 'r) threadPool \<Rightarrow> bool" where
  "pool_inv p = (wf_omap (p_threads p) \<and> int (length (p_threads p)) \<le> p_maxThreads p)"

lemma pool_spawn_inv [inv_intros]:
  "pool_inv p \<Longrightarrow> pool_spawn p i a c = Some (Some (t, p')) \<Longrightarrow> pool_inv p'"
  by (auto simp: pool_inv_def pool_spawn_def pool_admits_def update_absent split: if_splits)

lemma pool_spawnWithBudget_inv [inv_intros]:
  "pool_inv p \<Longrightarrow> pool_spawnWithBudget p i a = Some (t, rem, p') \<Longrightarrow> pool_inv p'"
  by (auto simp: pool_inv_def pool_spawnWithBudget_def pool_admits_def update_absent Let_def
      split: if_splits)

lemma pool_kill_inv [inv_intros]: "pool_inv p \<Longrightarrow> pool_inv (snd (pool_kill p i))"
  using length_delete_le [of i "p_threads p"]
  by (auto simp: pool_inv_def pool_kill_def split: option.split)

text \<open>the pool's own \<open>spawnWithBudget\<close> charges the root what it hands out, but its
  plain \<open>spawn\<close> charges nothing: the thread gets the root's whole remaining cycles and
  the root keeps them, so each plain spawn hands out the same cycles again.\<close>

theorem pool_spawn_overcommits:
  assumes "pool_admits p i" "pool_admits p j" "i \<noteq> j" "int (length (p_threads p)) + 1 < p_maxThreads p"
  shows "\<exists>t1 p1 t2 p2. pool_spawn p i None None = Some (Some (t1, p1))
    \<and> pool_spawn p1 j None None = Some (Some (t2, p2))
    \<and> p_rootBudget p2 = p_rootBudget p
    \<and> budgetLimit (t_budget t1) Cycles + budgetLimit (t_budget t2) Cycles
      = 2 * budgetRemaining (p_rootBudget p) Cycles"
  using assms
  by (simp add: pool_spawn_def newThread_def createMailbox_def newBoundedRing_def
      DEFAULT_MAILBOX_CAPACITY_def pool_admits_def update_absent budgetLimit_slice)

lemma pool_spawn_overcommits_witness:
  "\<exists>t1 p1 t2 p2. pool_spawn (\<lparr>p_threads = [], p_rootBudget = sample_root, p_maxThreads = 10\<rparr>
        :: (unit, unit) threadPool) ''a'' None None = Some (Some (t1, p1))
    \<and> pool_spawn p1 ''b'' None None = Some (Some (t2, p2))
    \<and> budgetLimit (t_budget t1) Cycles + budgetLimit (t_budget t2) Cycles
      = 2 * budgetRemaining sample_root Cycles"
  using pool_spawn_overcommits [of "\<lparr>p_threads = [], p_rootBudget = sample_root, p_maxThreads = 10\<rparr>
        :: (unit, unit) threadPool" "''a''" "''b''"]
  by (fastforce simp: pool_admits_def)

end
