(* ===== verification/Budget_Gate.thy ===== *)
theory Budget_Gate
  imports Budget
begin

text \<open>
  The kernel's budget gate and the control budgets declared over it:
  \<open>nar/src/kernel/budget-scopes.ts\<close> (the scope table),
  \<open>KernelBudgetGate.ts\<close> (the gate) and \<open>control-budgets.ts\<close> (the port). A
  budget that fails its schema makes the operation throw: \<open>None\<close>. The events the gate
  puts on the bus are returned, those it logs go to its ring. The correlation id a refusal
  needs is an argument. The locale \<open>control_budget_port\<close> is the code's interface
  \<open>ControlBudgetPort\<close>, interpreted on both of its implementations.
\<close>

section \<open>The scope table\<close>

record budgetScopeSpec =
  sp_operation :: string
  sp_consumedKey :: resource
  sp_owner :: string
  sp_defaultLimit :: int
  sp_configSource :: string
  sp_referenceSymbol :: "string option"

definition BUDGET_SCOPES :: "(string, budgetScopeSpec) omap" where
  "BUDGET_SCOPES =
    [(''derivations'',
      \<lparr>sp_operation = ''derivation'', sp_consumedKey = Cycles, sp_owner = ''InferenceController'',
       sp_defaultLimit = 100,
       sp_configSource = ''inference.maxDerivationsPerStep, or controlBudgets.derivations'',
       sp_referenceSymbol = None\<rparr>),
     (''premises'',
      \<lparr>sp_operation = ''premise-selection'', sp_consumedKey = Cycles, sp_owner = ''InferenceController'',
       sp_defaultLimit = 64, sp_configSource = ''controlBudgets.premises'', sp_referenceSymbol = None\<rparr>),
     (''candidate-derivations'',
      \<lparr>sp_operation = ''candidate-derivation'', sp_consumedKey = Cycles,
       sp_owner = ''RuleProcessor.applySyncRules'', sp_defaultLimit = 16384,
       sp_configSource = ''controlBudgets.candidate-derivations'', sp_referenceSymbol = None\<rparr>),
     (''proposal-application'',
      \<lparr>sp_operation = ''proposal-application'', sp_consumedKey = MemoryOps,
       sp_owner = ''NARExecution.authorize'', sp_defaultLimit = 64,
       sp_configSource = ''controlBudgets.proposal-application'', sp_referenceSymbol = None\<rparr>),
     (''control-work'',
      \<lparr>sp_operation = ''control-work'', sp_consumedKey = Cycles,
       sp_owner = ''NARExecution control and observability steps'', sp_defaultLimit = 16,
       sp_configSource = ''controlBudgets.control-work'', sp_referenceSymbol = None\<rparr>),
     (''decision-derivations'',
      \<lparr>sp_operation = ''decision-derivation'', sp_consumedKey = LlmCalls,
       sp_owner = ''the decision layer (A11 binds the port)'', sp_defaultLimit = 8,
       sp_configSource = ''controlBudgets.decision-derivations'',
       sp_referenceSymbol = Some ''DECISION_DERIVATIONS_SCOPE''\<rparr>)]"

definition BUDGET_SCOPE_IDS :: "string list" where
  "BUDGET_SCOPE_IDS = [''derivations'', ''premises'', ''candidate-derivations'',
     ''proposal-application'', ''control-work'', ''decision-derivations'']"

definition scopeSpec :: "string \<Rightarrow> budgetScopeSpec" where
  "scopeSpec scopeId = the (map_of BUDGET_SCOPES scopeId)"

definition scopeLimitKey :: "string \<Rightarrow> resource" where
  "scopeLimitKey scopeId = sp_consumedKey (scopeSpec scopeId)"

definition scopeTerminationReason :: "string \<Rightarrow> terminationReason" where
  "scopeTerminationReason scopeId = resource_reason (sp_consumedKey (scopeSpec scopeId))"

type_synonym overrides = "string \<Rightarrow> int option"

definition scopeLimit :: "string \<Rightarrow> overrides \<Rightarrow> int" where
  "scopeLimit scopeId ov = orElse (ov scopeId) (sp_defaultLimit (scopeSpec scopeId))"

definition scopeBudget :: "string \<Rightarrow> reasoningBudget \<Rightarrow> overrides \<Rightarrow> reasoningBudget" where
  "scopeBudget scopeId base ov =
     freshBudget base ((\<lambda>_. None)(scopeLimitKey scopeId := Some (scopeLimit scopeId ov)))"

definition withBudgetId :: "reasoningBudget \<Rightarrow> string \<Rightarrow> reasoningBudget" where
  "withBudgetId b ident = (if b_id b \<noteq> None then b else b\<lparr>b_id := Some ident\<rparr>)"

section \<open>The gate\<close>

record operationSpec =
  os_resource :: resource
  os_cost :: int

definition OPERATION_SPECS :: "(string, operationSpec) omap" where
  "OPERATION_SPECS =
     fold (\<lambda>(k, v) m. AList.update k v m)
       [(''nal-step'', \<lparr>os_resource = Cycles, os_cost = 1\<rparr>),
        (''lm-call'', \<lparr>os_resource = LlmCalls, os_cost = 10\<rparr>),
        (''memory-op'', \<lparr>os_resource = MemoryOps, os_cost = 1\<rparr>),
        (''derivation-depth'', \<lparr>os_resource = Depth, os_cost = 1\<rparr>),
        (''systemone-judgment'', \<lparr>os_resource = LlmCalls, os_cost = 5\<rparr>)]
       (indexBy (map snd BUDGET_SCOPES) sp_operation
          (\<lambda>scope _. \<lparr>os_resource = sp_consumedKey scope, os_cost = 1\<rparr>))"

definition DEFAULT_COST_TABLE :: "(string, int) omap" where
  "DEFAULT_COST_TABLE = map (\<lambda>(k, v). (k, os_cost v)) OPERATION_SPECS"

definition specOf :: "string \<Rightarrow> operationSpec option" where
  "specOf operation = map_of OPERATION_SPECS operation"

definition NAR_BUDGET_LIMITS :: budgetLimits where
  "NAR_BUDGET_LIMITS = \<lparr>maxCycles = 1000, maxDepth = 100, maxMemoryOps = 10000, maxLMCalls = 50\<rparr>"

definition createDefaultReasoningBudget :: reasoningBudget where
  "createDefaultReasoningBudget = createBudget NAR_BUDGET_LIMITS"

record exhaustedEvent =
  ex_correlationId :: string
  ex_budgetType :: string
  ex_remaining :: int
  ex_limit :: int
  ex_terminationReason :: terminationReason

fun budgetType :: "resource \<Rightarrow> string" where
  "budgetType Cycles = ''cycles''"
| "budgetType Depth = ''depth''"
| "budgetType MemoryOps = ''memory''"
| "budgetType LlmCalls = ''llm''"

definition GATE_LOG_CAPACITY :: int where
  "GATE_LOG_CAPACITY = 1000"

definition gateLog :: "'e boundedRing" where
  "gateLog = \<lparr>ring_items = [], ring_capacity = GATE_LOG_CAPACITY, ring_overflow = DropOldest\<rparr>"

definition emitEvent :: "'e boundedRing \<Rightarrow> 'e \<Rightarrow> 'e boundedRing" where
  "emitEvent l e = snd (ring_push l e)"

record budgetGate =
  bg_budget :: reasoningBudget
  bg_budgetId :: string
  bg_scopes :: "(string, reasoningBudget) omap"
  bg_costTable :: "(string, int) omap"
  bg_eventLog :: "exhaustedEvent boundedRing"

record budgetGateInput =
  bi_budget :: "reasoningBudget option"
  bi_operation :: string
  bi_estimatedCost :: "int option"
  bi_scopeId :: "string option"

record budgetGateOutput =
  bo_granted :: bool
  bo_terminationReason :: "terminationReason option"
  bo_updatedBudget :: reasoningBudget

text \<open>\<open>ReasoningBudgetSchema\<close>.\<close>

definition validReasoningBudget :: "reasoningBudget \<Rightarrow> bool" where
  "validReasoningBudget b =
     (0 < maxCycles b \<and> 0 < maxDepth b \<and> 0 < maxMemoryOps b \<and> 0 \<le> maxLMCalls b
      \<and> (case wallclockDeadlineMs b of None \<Rightarrow> True | Some d \<Rightarrow> 0 < d)
      \<and> list_all (\<lambda>r. 0 \<le> c_get (consumed b) r) ALL_RESOURCES)"

definition adopt :: "string \<Rightarrow> reasoningBudget \<Rightarrow> reasoningBudget option" where
  "adopt budgetId b = (if validReasoningBudget b then Some (withBudgetId b budgetId) else None)"

definition newBudgetGate :: "reasoningBudget option \<Rightarrow> (string, int) omap \<Rightarrow> budgetGate option" where
  "newBudgetGate defaultBudget costs =
     (let ident = orElse (case defaultBudget of None \<Rightarrow> None | Some b \<Rightarrow> b_id b) ''root''
      in map_option
           (\<lambda>b. \<lparr>bg_budget = b, bg_budgetId = ident, bg_scopes = [],
                 bg_costTable = fold (\<lambda>(k, v) m. AList.update k v m) costs DEFAULT_COST_TABLE,
                 bg_eventLog = gateLog\<rparr>)
           (adopt ident (orElse defaultBudget createDefaultReasoningBudget)))"

text \<open>
  \<open>resolveBudget\<close> answers with a budget object; what a check does to it is done to the
  place it came from.
\<close>

datatype budgetPlace = Inline | Root | Scope string

fun place_slice :: "budgetGate \<Rightarrow> budgetPlace \<Rightarrow> string" where
  "place_slice g Inline = ''inline''"
| "place_slice g Root = bg_budgetId g"
| "place_slice g (Scope s) = s"

definition resolveBudget ::
  "budgetGate \<Rightarrow> budgetGateInput \<Rightarrow> (reasoningBudget \<times> budgetPlace \<times> budgetGate) option" where
  "resolveBudget g inp =
     (case bi_budget inp of
        Some b \<Rightarrow> map_option (\<lambda>b'. (b', Inline, g)) (adopt (bg_budgetId g) b)
      | None \<Rightarrow>
          (case bi_scopeId inp of
             None \<Rightarrow> Some (bg_budget g, Root, g)
           | Some scopeId \<Rightarrow>
               if scopeId = '''' then Some (bg_budget g, Root, g)
               else (let scoped = orElse (map_of (bg_scopes g) scopeId)
                                    (withBudgetId (freshBudget (bg_budget g) no_allocation) scopeId)
                     in Some (scoped, Scope scopeId,
                              g\<lparr>bg_scopes := AList.update scopeId scoped (bg_scopes g)\<rparr>))))"

definition write_budget :: "budgetGate \<Rightarrow> budgetPlace \<Rightarrow> reasoningBudget \<Rightarrow> budgetGate" where
  "write_budget g place b =
     (case place of
        Inline \<Rightarrow> g
      | Root \<Rightarrow> g\<lparr>bg_budget := b\<rparr>
      | Scope s \<Rightarrow> g\<lparr>bg_scopes := AList.update s b (bg_scopes g)\<rparr>)"

definition getScopeConsumed :: "budgetGate \<Rightarrow> string \<Rightarrow> int" where
  "getScopeConsumed g scopeId =
     (case map_of (bg_scopes g) scopeId of None \<Rightarrow> 0 | Some b \<Rightarrow> c_llmCalls (consumed b))"

definition decideBudget ::
  "budgetGate \<Rightarrow> budgetGateInput \<Rightarrow> string \<Rightarrow> (budgetGateOutput \<times> budgetGate \<times> budgetEvent list) option" where
  "decideBudget g inp correlation =
     (let operation = bi_operation inp;
          spec = specOf operation;
          estimatedCost = orElse (bi_estimatedCost inp) (orElse (map_of (bg_costTable g) operation) 1)
      in case resolveBudget g inp of
           None \<Rightarrow> None
         | Some (b0, place, g0) \<Rightarrow>
             (let granted = (case spec of None \<Rightarrow> True
                             | Some sp \<Rightarrow> budgetAffords b0 (os_resource sp) estimatedCost);
                  sliceId = place_slice g place;
                  b1 = b0\<lparr>terminationReason := None\<rparr>
              in case spec of
                   None \<Rightarrow> Some (\<lparr>bo_granted = True, bo_terminationReason = None, bo_updatedBudget = b1\<rparr>,
                                 write_budget g0 place b1, [])
                 | Some sp \<Rightarrow>
                     (let r = os_resource sp
                      in if \<not> granted
                         then (let reason = budgetRefusal b1 r;
                                   b2 = b1\<lparr>terminationReason := Some reason\<rparr>;
                                   g1 = write_budget g0 place b2;
                                   ev = \<lparr>ex_correlationId = correlation, ex_budgetType = budgetType r,
                                         ex_remaining = budgetRemaining b2 r, ex_limit = budgetLimit b2 r,
                                         ex_terminationReason = reason\<rparr>
                               in Some (\<lparr>bo_granted = False, bo_terminationReason = Some reason,
                                         bo_updatedBudget = b2\<rparr>,
                                        g1\<lparr>bg_eventLog := emitEvent (bg_eventLog g1) ev\<rparr>,
                                        [sliceExhaustedPayload (Some sliceId) reason b2]))
                         else (let b2 = chargeBudget b1 r estimatedCost
                               in Some (\<lparr>bo_granted = True, bo_terminationReason = None,
                                         bo_updatedBudget = b2\<rparr>,
                                        write_budget g0 place b2,
                                        [sliceConsumedPayload (Some sliceId) r estimatedCost b2])))))"

definition getBudget :: "budgetGate \<Rightarrow> reasoningBudget" where
  "getBudget g = snapshotBudget (bg_budget g)"

definition setBudget :: "budgetGate \<Rightarrow> reasoningBudget \<Rightarrow> budgetGate option" where
  "setBudget g b = map_option (\<lambda>b'. g\<lparr>bg_budget := b'\<rparr>) (adopt (bg_budgetId g) b)"

definition resetBudget :: "budgetGate \<Rightarrow> budgetGate" where
  "resetBudget g = g\<lparr>bg_budget := createDefaultReasoningBudget, bg_scopes := []\<rparr>"

definition createScope ::
  "budgetGate \<Rightarrow> string \<Rightarrow> reasoningBudget option \<Rightarrow> (budgetGate \<times> budgetEvent list) option" where
  "createScope g scopeId b =
     (case (case b of
              Some b \<Rightarrow> adopt (bg_budgetId g) b
            | None \<Rightarrow> Some (freshBudget (bg_budget g) no_allocation)) of
        None \<Rightarrow> None
      | Some b' \<Rightarrow>
          (let scoped = withBudgetId b' scopeId
           in Some (g\<lparr>bg_scopes := AList.update scopeId scoped (bg_scopes g)\<rparr>,
                    [sliceCreatedPayload (Some scopeId) (Some (bg_budgetId g)) scoped])))"

definition resetConsumption :: "budgetGate \<Rightarrow> string \<Rightarrow> budgetGate" where
  "resetConsumption g scopeId =
     (case map_of (bg_scopes g) scopeId of
        None \<Rightarrow> g
      | Some b \<Rightarrow> g\<lparr>bg_scopes := AList.update scopeId
                     (b\<lparr>consumed := zeroConsumed, terminationReason := None\<rparr>) (bg_scopes g)\<rparr>)"

definition releaseScope :: "budgetGate \<Rightarrow> string \<Rightarrow> budgetGate" where
  "releaseScope g scopeId = g\<lparr>bg_scopes := AList.delete scopeId (bg_scopes g)\<rparr>"

definition getScopeBudget :: "budgetGate \<Rightarrow> string \<Rightarrow> reasoningBudget option" where
  "getScopeBudget g scopeId = map_of (bg_scopes g) scopeId"

definition gate_isExhausted :: "budgetGate \<Rightarrow> string option \<Rightarrow> bool" where
  "gate_isExhausted g operation =
     (case operation of
        Some op \<Rightarrow> if op = '''' then isCapacityExhausted (bg_budget g)
                   else (case specOf op of None \<Rightarrow> False
                         | Some sp \<Rightarrow> budgetRemaining (bg_budget g) (os_resource sp) \<le> 0)
      | None \<Rightarrow> isCapacityExhausted (bg_budget g))"

section \<open>The control budgets\<close>

record controlBudgets =
  cb_gate :: budgetGate
  cb_overrides :: overrides

definition cb_reopen :: "controlBudgets \<Rightarrow> string \<Rightarrow> controlBudgets option" where
  "cb_reopen cb scopeId =
     map_option (\<lambda>(g, _). cb\<lparr>cb_gate := g\<rparr>)
       (createScope (cb_gate cb) scopeId
          (Some (scopeBudget scopeId (getBudget (cb_gate cb)) (cb_overrides cb))))"

definition cb_open :: "controlBudgets \<Rightarrow> string \<Rightarrow> controlBudgets option" where
  "cb_open cb scopeId =
     (case getScopeBudget (cb_gate cb) scopeId of
        None \<Rightarrow> cb_reopen cb scopeId
      | Some _ \<Rightarrow> Some cb)"

definition cb_charge ::
  "string \<Rightarrow> controlBudgets \<Rightarrow> string \<Rightarrow> int \<Rightarrow> (bool \<times> controlBudgets) option" where
  "cb_charge correlation cb scopeId cost =
     (case cb_open cb scopeId of
        None \<Rightarrow> None
      | Some cb' \<Rightarrow>
          map_option (\<lambda>(out, g, _). (bo_granted out, cb'\<lparr>cb_gate := g\<rparr>))
            (decideBudget (cb_gate cb')
               \<lparr>bi_budget = None, bi_operation = sp_operation (scopeSpec scopeId),
                bi_estimatedCost = Some cost, bi_scopeId = Some scopeId\<rparr> correlation))"

fun cb_begin_loop :: "controlBudgets \<Rightarrow> string list \<Rightarrow> controlBudgets option" where
  "cb_begin_loop cb [] = Some cb"
| "cb_begin_loop cb (scopeId # rest) =
     (case cb_open cb scopeId of
        None \<Rightarrow> None
      | Some cb' \<Rightarrow> cb_begin_loop (cb'\<lparr>cb_gate := resetConsumption (cb_gate cb') scopeId\<rparr>) rest)"

definition cb_beginCycle :: "controlBudgets \<Rightarrow> controlBudgets option" where
  "cb_beginCycle cb = cb_begin_loop cb BUDGET_SCOPE_IDS"

record spend =
  s_ceiling :: int
  s_spent :: int
  s_terminationReason :: "terminationReason option"

definition spend_of :: "reasoningBudget \<Rightarrow> resource \<Rightarrow> spend" where
  "spend_of b r = \<lparr>s_ceiling = budgetLimit b r, s_spent = c_get (consumed b) r,
     s_terminationReason = terminationReason b\<rparr>"

definition getSpendSummary :: "controlBudgets \<Rightarrow> (string, spend) omap" where
  "getSpendSummary cb =
     fold (\<lambda>r m. AList.update (budgetType r) (spend_of (getBudget (cb_gate cb)) r) m) ALL_RESOURCES
       (fold (\<lambda>scopeId m. case getScopeBudget (cb_gate cb) scopeId of
                  None \<Rightarrow> m
                | Some b \<Rightarrow> AList.update scopeId (spend_of b (sp_consumedKey (scopeSpec scopeId))) m)
          BUDGET_SCOPE_IDS [])"

section \<open>The port\<close>

text \<open>
  \<open>ControlBudgetPort\<close>. A caller spends units of a declared scope and may re-open all
  scopes. \<open>allowance\<close> is what is left of a scope, \<open>None\<close> for a port with no budget
  behind it.
\<close>

definition fits :: "int \<Rightarrow> int option \<Rightarrow> bool" where
  "fits c a = (case a of None \<Rightarrow> True | Some n \<Rightarrow> c \<le> n)"

text \<open>A loop that does one unit of work per granted charge.\<close>

fun spend_loop ::
  "('s \<Rightarrow> string \<Rightarrow> int \<Rightarrow> (bool \<times> 's) option) \<Rightarrow> 's \<Rightarrow> string \<Rightarrow> nat \<Rightarrow> (nat \<times> 's) option" where
  "spend_loop charge s sc 0 = Some (0, s)"
| "spend_loop charge s sc (Suc n) =
     (case charge s sc 1 of
        None \<Rightarrow> None
      | Some (False, s') \<Rightarrow> Some (0, s')
      | Some (True, s') \<Rightarrow> map_option (\<lambda>(k, s''). (Suc k, s'')) (spend_loop charge s' sc n))"

definition bounded_by :: "nat \<Rightarrow> int option \<Rightarrow> nat" where
  "bounded_by n a = (case a of None \<Rightarrow> n | Some m \<Rightarrow> min n (nat m))"

locale control_budget_port =
  fixes charge :: "'s \<Rightarrow> string \<Rightarrow> int \<Rightarrow> (bool \<times> 's) option"
    and beginCycle :: "'s \<Rightarrow> 's option"
    and allowance :: "'s \<Rightarrow> string \<Rightarrow> int option"
    and ceil_of :: "'s \<Rightarrow> string \<Rightarrow> int option"
    and inv :: "'s \<Rightarrow> bool"
  assumes charge_ok: "inv s \<Longrightarrow> sc \<in> set BUDGET_SCOPE_IDS \<Longrightarrow> 0 \<le> c \<Longrightarrow>
      \<exists>s'. charge s sc c = Some (fits c (allowance s sc), s') \<and> inv s'
        \<and> allowance s' sc = (if fits c (allowance s sc) then map_option (\<lambda>n. n - c) (allowance s sc)
                             else allowance s sc)
        \<and> (\<forall>sc' \<in> set BUDGET_SCOPE_IDS - {sc}. allowance s' sc' = allowance s sc')
        \<and> ceil_of s' = ceil_of s"
    and cycle_ok: "inv s \<Longrightarrow> \<exists>s'. beginCycle s = Some s' \<and> inv s' \<and> ceil_of s' = ceil_of s
        \<and> (\<forall>sc \<in> set BUDGET_SCOPE_IDS. allowance s' sc = ceil_of s sc)"
    and ceil_nonneg: "inv s \<Longrightarrow> ceil_of s sc = Some n \<Longrightarrow> 0 \<le> n"
begin

lemma spend_loop_bound:
  assumes "inv s" "sc \<in> set BUDGET_SCOPE_IDS" "\<And>m. allowance s sc = Some m \<Longrightarrow> 0 \<le> m"
  shows "\<exists>s'. spend_loop charge s sc n = Some (bounded_by n (allowance s sc), s') \<and> inv s'
    \<and> (\<forall>sc' \<in> set BUDGET_SCOPE_IDS - {sc}. allowance s' sc' = allowance s sc')"
  using assms
proof (induction n arbitrary: s)
  case 0
  then show ?case by (auto simp: bounded_by_def split: option.split)
next
  case (Suc n)
  obtain s1 where s1: "charge s sc 1 = Some (fits 1 (allowance s sc), s1)" "inv s1"
    "allowance s1 sc = (if fits 1 (allowance s sc) then map_option (\<lambda>n. n - 1) (allowance s sc)
                        else allowance s sc)"
    "\<forall>sc' \<in> set BUDGET_SCOPE_IDS - {sc}. allowance s1 sc' = allowance s sc'"
    using charge_ok [OF Suc.prems(1,2), of 1] by auto
  show ?case
  proof (cases "fits 1 (allowance s sc)")
    case False
    then obtain m where "allowance s sc = Some m" "m < 1" by (auto simp: fits_def split: option.splits)
    with Suc.prems(3) have "allowance s sc = Some 0" by force
    with False s1 show ?thesis by (simp add: bounded_by_def)
  next
    case True
    have "0 \<le> m" if "allowance s1 sc = Some m" for m
      using that s1(3) True by (auto simp: fits_def split: option.splits)
    then obtain s' where "spend_loop charge s1 sc n = Some (bounded_by n (allowance s1 sc), s')" "inv s'"
      "\<forall>sc' \<in> set BUDGET_SCOPE_IDS - {sc}. allowance s' sc' = allowance s1 sc'"
      using Suc.IH [OF s1(2) Suc.prems(2)] by blast
    moreover have "Suc (bounded_by n (allowance s1 sc)) = bounded_by (Suc n) (allowance s sc)"
      using s1(3) True by (auto simp: bounded_by_def fits_def nat_diff_distrib split: option.splits)
    ultimately show ?thesis using True s1 by auto
  qed
qed

lemma cycle_spend:
  assumes "inv s" "sc \<in> set BUDGET_SCOPE_IDS"
  shows "\<exists>s1 s2. beginCycle s = Some s1 \<and> spend_loop charge s1 sc n = Some (bounded_by n (ceil_of s sc), s2)
    \<and> inv s2 \<and> (\<forall>sc' \<in> set BUDGET_SCOPE_IDS - {sc}. allowance s2 sc' = ceil_of s sc')"
proof -
  obtain s1 where s1: "beginCycle s = Some s1" "inv s1" "ceil_of s1 = ceil_of s"
    "\<forall>sc \<in> set BUDGET_SCOPE_IDS. allowance s1 sc = ceil_of s sc"
    using cycle_ok [OF assms(1)] by blast
  have "0 \<le> m" if "allowance s1 sc = Some m" for m
    using that s1 assms ceil_nonneg by metis
  from spend_loop_bound [OF s1(2) assms(2) this, of n] s1 assms(2) show ?thesis by auto
qed

end

text \<open>\<open>UNBUDGETED\<close>: every charge is granted and nothing is counted.\<close>

definition unbudgeted_charge :: "unit \<Rightarrow> string \<Rightarrow> int \<Rightarrow> (bool \<times> unit) option" where
  "unbudgeted_charge s sc c = Some (True, s)"

definition unbudgeted_beginCycle :: "unit \<Rightarrow> unit option" where
  "unbudgeted_beginCycle s = Some s"

interpretation unbudgeted:
  control_budget_port unbudgeted_charge unbudgeted_beginCycle "\<lambda>_ _. None" "\<lambda>_ _. None" "\<lambda>_. True"
  by unfold_locales (simp_all add: unbudgeted_charge_def unbudgeted_beginCycle_def fits_def)

section \<open>The declared scopes\<close>

lemma scope_cases:
  "sc \<in> set BUDGET_SCOPE_IDS \<Longrightarrow>
   sc = ''derivations'' \<or> sc = ''premises'' \<or> sc = ''candidate-derivations''
   \<or> sc = ''proposal-application'' \<or> sc = ''control-work'' \<or> sc = ''decision-derivations''"
  by (simp add: BUDGET_SCOPE_IDS_def)

lemma scopes_checked:
  "list_all (\<lambda>sc. specOf (sp_operation (scopeSpec sc)) = Some \<lparr>os_resource = scopeLimitKey sc, os_cost = 1\<rparr>
     \<and> sc \<noteq> [] \<and> scopeLimitKey sc \<noteq> Depth \<and> 0 < sp_defaultLimit (scopeSpec sc)) BUDGET_SCOPE_IDS"
  by code_simp

lemma specOf_scope:
  assumes "sc \<in> set BUDGET_SCOPE_IDS"
  shows "specOf (sp_operation (scopeSpec sc)) = Some \<lparr>os_resource = scopeLimitKey sc, os_cost = 1\<rparr>"
    "sc \<noteq> []" "scopeLimitKey sc = Depth \<Longrightarrow> False" "0 < sp_defaultLimit (scopeSpec sc)"
  using scopes_checked assms by (simp_all add: list_all_iff)

text \<open>
  The port's invariant: the gate's budget passes its schema, the overrides are admissible
  ceilings, and every open declared scope has the declared ceiling in its own dimension
  and is not over-spent there.
\<close>

definition overrides_ok :: "overrides \<Rightarrow> bool" where
  "overrides_ok ov = list_all (\<lambda>sc. if scopeLimitKey sc = LlmCalls then 0 \<le> scopeLimit sc ov
     else 0 < scopeLimit sc ov) BUDGET_SCOPE_IDS"

definition cb_scope_ok :: "controlBudgets \<Rightarrow> string \<Rightarrow> bool" where
  "cb_scope_ok cb sc = (case map_of (bg_scopes (cb_gate cb)) sc of None \<Rightarrow> True
     | Some b \<Rightarrow> budgetLimit b (scopeLimitKey sc) = scopeLimit sc (cb_overrides cb))"

definition cb_inv :: "controlBudgets \<Rightarrow> bool" where
  "cb_inv cb = (validReasoningBudget (bg_budget (cb_gate cb)) \<and> overrides_ok (cb_overrides cb)
     \<and> list_all (cb_scope_ok cb) BUDGET_SCOPE_IDS)"

definition cb_allowance :: "controlBudgets \<Rightarrow> string \<Rightarrow> int option" where
  "cb_allowance cb sc = Some (case map_of (bg_scopes (cb_gate cb)) sc of
     None \<Rightarrow> scopeLimit sc (cb_overrides cb)
   | Some b \<Rightarrow> budgetRemaining b (scopeLimitKey sc))"

definition cb_ceiling :: "controlBudgets \<Rightarrow> string \<Rightarrow> int option" where
  "cb_ceiling cb sc = (if sc \<in> set BUDGET_SCOPE_IDS then Some (scopeLimit sc (cb_overrides cb)) else None)"

lemma budgetLimit_scopeBudget:
  "budgetLimit (scopeBudget sc base ov) r = (if r = scopeLimitKey sc then scopeLimit sc ov else budgetLimit base r)"
  by (simp add: scopeBudget_def)

lemma consumed_scopeBudget [simp]: "consumed (scopeBudget sc base ov) = zeroConsumed"
  by (simp add: scopeBudget_def)

lemma withBudgetId_frame [simp]:
  "consumed (withBudgetId b i) = consumed b" "budgetLimit (withBudgetId b i) r = budgetLimit b r"
  "budgetRemaining (withBudgetId b i) r = budgetRemaining b r"
  by (simp_all add: withBudgetId_def budgetRemaining_def)

lemma deadline_scopeBudget [simp]: "wallclockDeadlineMs (scopeBudget sc base ov) = wallclockDeadlineMs base"
  by (cases "scopeLimitKey sc")
    (simp_all add: scopeBudget_def freshBudget_def ALL_RESOURCES_def with_limit_def)

lemma valid_limits:
  "validReasoningBudget b \<longleftrightarrow> 0 < budgetLimit b Cycles \<and> 0 < budgetLimit b Depth
     \<and> 0 < budgetLimit b MemoryOps \<and> 0 \<le> budgetLimit b LlmCalls
     \<and> (case wallclockDeadlineMs b of None \<Rightarrow> True | Some d \<Rightarrow> 0 < d)
     \<and> (\<forall>r. 0 \<le> c_get (consumed b) r)"
  by (simp add: validReasoningBudget_def budgetLimit.simps list_all_iff)

lemma overrides_limit:
  assumes "overrides_ok ov" "sc \<in> set BUDGET_SCOPE_IDS"
  shows "if scopeLimitKey sc = LlmCalls then 0 \<le> scopeLimit sc ov else 0 < scopeLimit sc ov"
  using assms(1) unfolding overrides_ok_def list_all_iff by (rule bspec [OF _ assms(2)])

lemma valid_scopeBudget:
  assumes "validReasoningBudget base" "overrides_ok ov" "sc \<in> set BUDGET_SCOPE_IDS"
  shows "validReasoningBudget (scopeBudget sc base ov)"
  using assms overrides_limit [OF assms(2,3)] specOf_scope(3) [OF assms(3)]
  by (auto simp: valid_limits budgetLimit_scopeBudget split: if_splits)

lemma cb_open_spec:
  assumes inv: "cb_inv cb" and sc: "sc \<in> set BUDGET_SCOPE_IDS"
  obtains cb' b where "cb_open cb sc = Some cb'" "cb_inv cb'" "cb_overrides cb' = cb_overrides cb"
    "map_of (bg_scopes (cb_gate cb')) sc = Some b"
    "Some (budgetRemaining b (scopeLimitKey sc)) = cb_allowance cb sc"
    "budgetLimit b (scopeLimitKey sc) = scopeLimit sc (cb_overrides cb)"
    "\<And>sc'. sc' \<noteq> sc \<Longrightarrow> map_of (bg_scopes (cb_gate cb')) sc' = map_of (bg_scopes (cb_gate cb)) sc'"
    "bg_budget (cb_gate cb') = bg_budget (cb_gate cb)"
proof (cases "map_of (bg_scopes (cb_gate cb)) sc")
  case (Some b)
  then have "cb_open cb sc = Some cb" by (simp add: cb_open_def getScopeBudget_def)
  moreover have "cb_scope_ok cb sc" using inv sc by (simp only: cb_inv_def list_all_iff)
  ultimately show thesis using that [of cb b] Some inv by (simp add: cb_allowance_def cb_scope_ok_def)
next
  case None
  let ?g = "cb_gate cb"
  let ?b = "scopeBudget sc (bg_budget ?g) (cb_overrides cb)"
  let ?s = "withBudgetId (withBudgetId ?b (bg_budgetId ?g)) sc"
  let ?cb = "cb\<lparr>cb_gate := ?g\<lparr>bg_scopes := AList.update sc ?s (bg_scopes ?g)\<rparr>\<rparr>"
  have v: "validReasoningBudget ?b" using inv sc by (intro valid_scopeBudget) (simp_all add: cb_inv_def)
  then have o: "cb_open cb sc = Some ?cb" using None
    by (simp add: cb_open_def getScopeBudget_def cb_reopen_def createScope_def adopt_def getBudget_def
        snapshotBudget_def Let_def)
  have lim: "budgetLimit ?s (scopeLimitKey sc) = scopeLimit sc (cb_overrides cb)"
    by (simp add: budgetLimit_scopeBudget)
  have "cb_inv ?cb" using inv lim
    by (auto simp: cb_inv_def list_all_iff cb_scope_ok_def update_conv' split: option.split)
  moreover have "budgetRemaining ?s (scopeLimitKey sc) = scopeLimit sc (cb_overrides cb)"
    by (simp add: budgetRemaining_def budgetLimit_scopeBudget)
  ultimately show thesis using that [of ?cb ?s] o lim None by (simp add: cb_allowance_def)
qed

lemma cb_scopeD:
  "cb_inv cb \<Longrightarrow> sc \<in> set BUDGET_SCOPE_IDS \<Longrightarrow> map_of (bg_scopes (cb_gate cb)) sc = Some b \<Longrightarrow>
   budgetLimit b (scopeLimitKey sc) = scopeLimit sc (cb_overrides cb)"
  unfolding cb_inv_def list_all_iff cb_scope_ok_def by force

text \<open>Writing an open scope back with its ceilings unchanged keeps the invariant.\<close>

lemma cb_write_inv:
  assumes "cb_inv cb" "map_of (bg_scopes (cb_gate cb)) sc = Some b"
    "\<And>r. budgetLimit b' r = budgetLimit b r"
    "bg_budget g = bg_budget (cb_gate cb)" "bg_scopes g = AList.update sc b' (bg_scopes (cb_gate cb))"
  shows "cb_inv (cb\<lparr>cb_gate := g\<rparr>)"
  using assms cb_scopeD [OF assms(1)]
  by (auto simp: cb_inv_def list_all_iff cb_scope_ok_def update_conv' split: option.split)

lemma decide_open_scope:
  assumes sc: "sc \<in> set BUDGET_SCOPE_IDS" and b: "map_of (bg_scopes g) sc = Some b"
  shows "\<exists>out g' evs b'. decideBudget g \<lparr>bi_budget = None, bi_operation = sp_operation (scopeSpec sc),
        bi_estimatedCost = Some c, bi_scopeId = Some sc\<rparr> corr = Some (out, g', evs)
    \<and> bo_granted out = (c \<le> budgetRemaining b (scopeLimitKey sc))
    \<and> bg_scopes g' = AList.update sc b' (AList.update sc b (bg_scopes g)) \<and> bg_budget g' = bg_budget g
    \<and> (\<forall>r. budgetLimit b' r = budgetLimit b r)
    \<and> (\<forall>r. budgetRemaining b' r = budgetRemaining b r
          - (if r = scopeLimitKey sc \<and> bo_granted out then c else 0))"
  using specOf_scope(1,2) [OF sc] b
  by (auto simp: decideBudget_def resolveBudget_def Let_def budgetAffords_def write_budget_def)

lemma update_update [simp]: "AList.update k v' (AList.update k v m) = AList.update k v' m"
  by (induction m) auto

lemma cb_charge_spec:
  assumes inv: "cb_inv cb" and sc: "sc \<in> set BUDGET_SCOPE_IDS"
  shows "\<exists>cb'. cb_charge corr cb sc c = Some (fits c (cb_allowance cb sc), cb') \<and> cb_inv cb'
    \<and> cb_allowance cb' sc = (if fits c (cb_allowance cb sc) then map_option (\<lambda>n. n - c) (cb_allowance cb sc)
                             else cb_allowance cb sc)
    \<and> (\<forall>sc'. sc' \<noteq> sc \<longrightarrow> map_of (bg_scopes (cb_gate cb')) sc' = map_of (bg_scopes (cb_gate cb)) sc')
    \<and> bg_budget (cb_gate cb') = bg_budget (cb_gate cb) \<and> cb_overrides cb' = cb_overrides cb"
proof -
  obtain cb1 b where o: "cb_open cb sc = Some cb1" "cb_inv cb1" "cb_overrides cb1 = cb_overrides cb"
    and b: "map_of (bg_scopes (cb_gate cb1)) sc = Some b"
    and al: "Some (budgetRemaining b (scopeLimitKey sc)) = cb_allowance cb sc"
    and fr: "\<And>sc'. sc' \<noteq> sc \<Longrightarrow> map_of (bg_scopes (cb_gate cb1)) sc' = map_of (bg_scopes (cb_gate cb)) sc'"
    and bb: "bg_budget (cb_gate cb1) = bg_budget (cb_gate cb)"
    using cb_open_spec [OF inv sc] by metis
  obtain out g' evs b' where d: "decideBudget (cb_gate cb1) \<lparr>bi_budget = None,
        bi_operation = sp_operation (scopeSpec sc), bi_estimatedCost = Some c, bi_scopeId = Some sc\<rparr> corr
        = Some (out, g', evs)"
    and gr: "bo_granted out = (c \<le> budgetRemaining b (scopeLimitKey sc))"
    and s': "bg_scopes g' = AList.update sc b' (bg_scopes (cb_gate cb1))"
    and bg': "bg_budget g' = bg_budget (cb_gate cb1)"
    and lim: "\<And>r. budgetLimit b' r = budgetLimit b r"
    and rem: "\<And>r. budgetRemaining b' r = budgetRemaining b r
          - (if r = scopeLimitKey sc \<and> bo_granted out then c else 0)"
    using decide_open_scope [OF sc b, of c corr] by auto
  have ch: "cb_charge corr cb sc c = Some (fits c (cb_allowance cb sc), cb1\<lparr>cb_gate := g'\<rparr>)"
    using o d gr al [symmetric] by (simp add: cb_charge_def fits_def)
  have "cb_inv (cb1\<lparr>cb_gate := g'\<rparr>)" using cb_write_inv [OF o(2) b lim bg' s'] .
  moreover have "cb_allowance (cb1\<lparr>cb_gate := g'\<rparr>) sc = (if fits c (cb_allowance cb sc)
      then map_option (\<lambda>n. n - c) (cb_allowance cb sc) else cb_allowance cb sc)"
    using gr al [symmetric] rem by (simp add: cb_allowance_def [of "cb1\<lparr>cb_gate := g'\<rparr>"] s' fits_def)
  ultimately show ?thesis using ch fr bb bg' o(3) s' by auto
qed

lemma resetConsumption_spec:
  assumes "cb_inv cb" "map_of (bg_scopes (cb_gate cb)) sc = Some b"
  shows "cb_inv (cb\<lparr>cb_gate := resetConsumption (cb_gate cb) sc\<rparr>)"
    "map_of (bg_scopes (resetConsumption (cb_gate cb) sc)) sc
       = Some (b\<lparr>consumed := zeroConsumed, terminationReason := None\<rparr>)"
    "sc' \<noteq> sc \<Longrightarrow> map_of (bg_scopes (resetConsumption (cb_gate cb) sc)) sc' = map_of (bg_scopes (cb_gate cb)) sc'"
    "bg_budget (resetConsumption (cb_gate cb) sc) = bg_budget (cb_gate cb)"
proof -
  let ?b = "b\<lparr>consumed := zeroConsumed, terminationReason := None\<rparr>"
  show "cb_inv (cb\<lparr>cb_gate := resetConsumption (cb_gate cb) sc\<rparr>)"
    by (rule cb_write_inv [OF assms, of ?b]) (simp_all add: resetConsumption_def assms(2))
qed (simp_all add: resetConsumption_def assms(2))

lemma cb_begin_loop_spec:
  assumes "cb_inv cb" "set ids \<subseteq> set BUDGET_SCOPE_IDS" "distinct ids"
  shows "\<exists>cb'. cb_begin_loop cb ids = Some cb' \<and> cb_inv cb' \<and> cb_overrides cb' = cb_overrides cb
    \<and> (\<forall>sc \<in> set ids. \<exists>b. map_of (bg_scopes (cb_gate cb')) sc = Some b \<and> consumed b = zeroConsumed)
    \<and> (\<forall>sc. sc \<notin> set ids \<longrightarrow> map_of (bg_scopes (cb_gate cb')) sc = map_of (bg_scopes (cb_gate cb)) sc)"
  using assms
proof (induction ids arbitrary: cb)
  case Nil
  then show ?case by simp
next
  case (Cons sc ids)
  obtain cb1 b where o: "cb_open cb sc = Some cb1" "cb_inv cb1" "cb_overrides cb1 = cb_overrides cb"
    and b: "map_of (bg_scopes (cb_gate cb1)) sc = Some b"
    and fr: "\<And>sc'. sc' \<noteq> sc \<Longrightarrow> map_of (bg_scopes (cb_gate cb1)) sc' = map_of (bg_scopes (cb_gate cb)) sc'"
    using cb_open_spec [of cb sc] Cons.prems by (metis list.set_intros(1) subsetD)
  note R = resetConsumption_spec [OF o(2) b]
  obtain cb' where "cb_begin_loop (cb1\<lparr>cb_gate := resetConsumption (cb_gate cb1) sc\<rparr>) ids = Some cb'"
    "cb_inv cb'" "cb_overrides cb' = cb_overrides cb1"
    "\<forall>sc \<in> set ids. \<exists>b. map_of (bg_scopes (cb_gate cb')) sc = Some b \<and> consumed b = zeroConsumed"
    "\<forall>sc'. sc' \<notin> set ids \<longrightarrow> map_of (bg_scopes (cb_gate cb')) sc'
        = map_of (bg_scopes (resetConsumption (cb_gate cb1) sc)) sc'"
    using Cons.IH [OF R(1)] Cons.prems by auto
  with o R(2,3) fr Cons.prems show ?case by auto
qed

lemma cb_beginCycle_spec:
  assumes "cb_inv cb"
  shows "\<exists>cb'. cb_beginCycle cb = Some cb' \<and> cb_inv cb' \<and> cb_overrides cb' = cb_overrides cb
    \<and> (\<forall>sc \<in> set BUDGET_SCOPE_IDS. cb_allowance cb' sc = Some (scopeLimit sc (cb_overrides cb)))"
proof -
  have "distinct BUDGET_SCOPE_IDS" by (simp add: BUDGET_SCOPE_IDS_def)
  from cb_begin_loop_spec [OF assms _ this] obtain cb' where cb':
    "cb_beginCycle cb = Some cb'" "cb_inv cb'" "cb_overrides cb' = cb_overrides cb"
    "\<forall>sc \<in> set BUDGET_SCOPE_IDS. \<exists>b. map_of (bg_scopes (cb_gate cb')) sc = Some b \<and> consumed b = zeroConsumed"
    by (auto simp: cb_beginCycle_def)
  have "cb_allowance cb' sc = Some (scopeLimit sc (cb_overrides cb))" if sc: "sc \<in> set BUDGET_SCOPE_IDS" for sc
  proof -
    obtain b where b: "map_of (bg_scopes (cb_gate cb')) sc = Some b" "consumed b = zeroConsumed"
      using cb'(4) sc by blast
    then show ?thesis using cb_scopeD [OF cb'(2) sc b(1)] cb'(3)
      by (simp add: cb_allowance_def budgetRemaining_def)
  qed
  with cb' show ?thesis by blast
qed

interpretation controls: control_budget_port "cb_charge corr" cb_beginCycle cb_allowance cb_ceiling cb_inv
  for corr :: string
proof unfold_locales
  fix s sc and c n :: int
  assume inv: "cb_inv s"
  show "\<exists>s'. cb_charge corr s sc c = Some (fits c (cb_allowance s sc), s') \<and> cb_inv s'
      \<and> cb_allowance s' sc = (if fits c (cb_allowance s sc) then map_option (\<lambda>n. n - c) (cb_allowance s sc)
                             else cb_allowance s sc)
      \<and> (\<forall>sc' \<in> set BUDGET_SCOPE_IDS - {sc}. cb_allowance s' sc' = cb_allowance s sc')
      \<and> cb_ceiling s' = cb_ceiling s" if sc: "sc \<in> set BUDGET_SCOPE_IDS" "0 \<le> c"
  proof -
    obtain s' where s': "cb_charge corr s sc c = Some (fits c (cb_allowance s sc), s')" "cb_inv s'"
      "cb_allowance s' sc = (if fits c (cb_allowance s sc) then map_option (\<lambda>n. n - c) (cb_allowance s sc)
                             else cb_allowance s sc)"
      "\<And>sc'. sc' \<noteq> sc \<Longrightarrow> map_of (bg_scopes (cb_gate s')) sc' = map_of (bg_scopes (cb_gate s)) sc'"
      "cb_overrides s' = cb_overrides s"
      using cb_charge_spec [OF inv sc(1), of corr c] by blast
    have "\<forall>sc' \<in> set BUDGET_SCOPE_IDS - {sc}. cb_allowance s' sc' = cb_allowance s sc'"
      using s'(4,5) by (simp add: cb_allowance_def split: option.split)
    moreover have "cb_ceiling s' = cb_ceiling s" by (rule ext) (simp add: cb_ceiling_def s'(5))
    ultimately show ?thesis using s' by blast
  qed
  show "\<exists>s'. cb_beginCycle s = Some s' \<and> cb_inv s' \<and> cb_ceiling s' = cb_ceiling s
      \<and> (\<forall>sc \<in> set BUDGET_SCOPE_IDS. cb_allowance s' sc = cb_ceiling s sc)"
  proof -
    obtain s' where s': "cb_beginCycle s = Some s'" "cb_inv s'" "cb_overrides s' = cb_overrides s"
      "\<forall>sc \<in> set BUDGET_SCOPE_IDS. cb_allowance s' sc = Some (scopeLimit sc (cb_overrides s))"
      using cb_beginCycle_spec [OF inv] by blast
    moreover have "cb_ceiling s' = cb_ceiling s" by (rule ext) (simp add: cb_ceiling_def s'(3))
    ultimately show ?thesis by (auto simp: cb_ceiling_def)
  qed
  show "0 \<le> n" if "cb_ceiling s sc = Some n"
    using that overrides_limit [of "cb_overrides s" sc] inv
    by (auto simp: cb_ceiling_def cb_inv_def split: if_splits)
qed

section \<open>Properties\<close>

text \<open>C32: a per-cycle bound bounds the cycle. After \<open>beginCycle\<close>, a caller that asks
  a declared scope before each unit of work does exactly as many units as it wants or as
  the scope's declared ceiling allows, whichever is less, and every other declared scope
  still has its whole ceiling.\<close>

theorem cycle_work_bounded:
  assumes "cb_inv cb" "sc \<in> set BUDGET_SCOPE_IDS"
  shows "\<exists>cb1 cb2. cb_beginCycle cb = Some cb1
    \<and> spend_loop (cb_charge corr) cb1 sc n
      = Some (min n (nat (scopeLimit sc (cb_overrides cb))), cb2)
    \<and> (\<forall>sc' \<in> set BUDGET_SCOPE_IDS - {sc}. cb_allowance cb2 sc' = Some (scopeLimit sc' (cb_overrides cb)))"
proof -
  obtain cb1 cb2 where "cb_beginCycle cb = Some cb1"
    "spend_loop (cb_charge corr) cb1 sc n = Some (bounded_by n (cb_ceiling cb sc), cb2)"
    "\<forall>sc' \<in> set BUDGET_SCOPE_IDS - {sc}. cb_allowance cb2 sc' = cb_ceiling cb sc'"
    using controls.cycle_spend [OF assms, of corr n] by blast
  with assms(2) show ?thesis by (auto simp: cb_ceiling_def bounded_by_def)
qed

definition default_gate :: budgetGate where
  "default_gate = the (newBudgetGate None [])"

lemma default_gate_eq:
  "newBudgetGate None [] = Some default_gate"
  "bg_budget default_gate = withBudgetId createDefaultReasoningBudget ''root''"
  "bg_budgetId default_gate = ''root''" "bg_scopes default_gate = []"
  by (simp_all add: default_gate_def newBudgetGate_def adopt_def validReasoningBudget_def
      createDefaultReasoningBudget_def createBudget_def NAR_BUDGET_LIMITS_def Let_def
      ALL_RESOURCES_def zeroConsumed_def c_get.simps)

lemma valid_default: "validReasoningBudget (withBudgetId createDefaultReasoningBudget i)"
  by (simp add: valid_limits createDefaultReasoningBudget_def budgetLimit.simps NAR_BUDGET_LIMITS_def)
    (simp add: withBudgetId_def createBudget_def)

definition zero_decisions :: overrides where
  "zero_decisions = (\<lambda>_. None)(''decision-derivations'' := Some 0)"

lemma zero_decisions_inv: "cb_inv \<lparr>cb_gate = default_gate, cb_overrides = zero_decisions\<rparr>"
  by (simp add: cb_inv_def cb_scope_ok_def default_gate_eq valid_default overrides_ok_def
      BUDGET_SCOPE_IDS_def scopeLimitKey_def scopeSpec_def BUDGET_SCOPES_def scopeLimit_def
      zero_decisions_def)

lemma cycle_work_bounded_witness:
  "\<exists>cb1 cb2. cb_beginCycle \<lparr>cb_gate = default_gate, cb_overrides = zero_decisions\<rparr> = Some cb1
    \<and> spend_loop (cb_charge ''c'') cb1 ''control-work'' 40 = Some (16, cb2)"
  using cycle_work_bounded [OF zero_decisions_inv, of "''control-work''" "''c''" 40]
  by (auto simp: BUDGET_SCOPE_IDS_def scopeLimit_def zero_decisions_def scopeSpec_def BUDGET_SCOPES_def)

text \<open>the decision layer's budget and the symbolic budget do not share a counter. In
  one cycle, whatever the ceiling of \<open>decision-derivations\<close> (zero included) and however
  many decisions were asked for first, the number of symbolic derivations granted is the
  number asked for or the ceiling of \<open>derivations\<close>, whichever is less.\<close>

theorem decision_budget_invariance:
  assumes "cb_inv cb"
  shows "\<exists>cb1 cb2 cb3. cb_beginCycle cb = Some cb1
    \<and> spend_loop (cb_charge corr) cb1 ''decision-derivations'' m
      = Some (min m (nat (scopeLimit ''decision-derivations'' (cb_overrides cb))), cb2)
    \<and> spend_loop (cb_charge corr) cb2 ''derivations'' n
      = Some (min n (nat (scopeLimit ''derivations'' (cb_overrides cb))), cb3)"
proof -
  have sc: "''decision-derivations'' \<in> set BUDGET_SCOPE_IDS"
    "''derivations'' \<in> set BUDGET_SCOPE_IDS - {''decision-derivations''}"
    by (simp_all add: BUDGET_SCOPE_IDS_def)
  obtain cb1 cb2 where 1: "cb_beginCycle cb = Some cb1" "cb_inv cb2"
    "spend_loop (cb_charge corr) cb1 ''decision-derivations'' m
      = Some (bounded_by m (cb_ceiling cb ''decision-derivations''), cb2)"
    "cb_allowance cb2 ''derivations'' = cb_ceiling cb ''derivations''"
    using controls.cycle_spend [OF assms sc(1), of corr m] sc(2) by blast
  have nn: "0 \<le> k" if "cb_allowance cb2 ''derivations'' = Some k" for k
    using that 1(4) controls.ceil_nonneg [OF assms] by metis
  obtain cb3 where "spend_loop (cb_charge corr) cb2 ''derivations'' n
      = Some (bounded_by n (cb_allowance cb2 ''derivations''), cb3)"
    using controls.spend_loop_bound [where corr = corr and n = n, OF 1(2) _ nn] sc(2) by blast
  with 1 sc show ?thesis by (simp add: cb_ceiling_def bounded_by_def)
qed

lemma decision_budget_invariance_witness:
  "\<exists>cb1 cb2 cb3. cb_beginCycle \<lparr>cb_gate = default_gate, cb_overrides = zero_decisions\<rparr> = Some cb1
    \<and> spend_loop (cb_charge ''c'') cb1 ''decision-derivations'' 3 = Some (0, cb2)
    \<and> spend_loop (cb_charge ''c'') cb2 ''derivations'' 7 = Some (7, cb3)"
  using decision_budget_invariance [OF zero_decisions_inv, of "''c''" 3 7]
  by (simp add: scopeLimit_def zero_decisions_def scopeSpec_def BUDGET_SCOPES_def)

lemma createDefault_id: "b_id createDefaultReasoningBudget = None"
  by (simp add: createDefaultReasoningBudget_def createBudget_def)

text \<open>the stamp that should key a scope's budget by its own id never does: the gate's
  budget already carries the gate's id, a scope's budget is a copy of it, and the stamp
  leaves an id that is there. Every scope the gate opens from its own budget is therefore
  stamped with the gate's id.\<close>

theorem scope_keeps_gate_id:
  assumes "newBudgetGate defaultBudget costs = Some g" "createScope g scopeId None = Some (g', evs)"
  shows "map_option b_id (getScopeBudget g' scopeId) = Some (Some (bg_budgetId g))"
  using assms createDefault_id
  by (auto simp: newBudgetGate_def createScope_def getScopeBudget_def Let_def adopt_def withBudgetId_def
      orElse_def split: if_splits option.splits)

lemma scope_keeps_gate_id_witness:
  "\<exists>g' evs. createScope default_gate ''derivations'' None = Some (g', evs)
    \<and> map_option b_id (getScopeBudget g' ''derivations'') = Some (Some ''root'')"
proof -
  obtain g' evs where c: "createScope default_gate ''derivations'' None = Some (g', evs)"
    by (auto simp: createScope_def Let_def)
  with scope_keeps_gate_id [OF default_gate_eq(1) c] show ?thesis by (simp add: default_gate_eq)
qed

end
