(* ===== verification/Action_Gate.thy ===== *)
theory Action_Gate
  imports Budget_Gate Bounded_Map
begin

text \<open>
  The kernel's action gate (\<open>nar/src/kernel/KernelActionGate.ts\<close>) over the autonomy
  modes and proposal risks of \<open>core/src/schemas/governance.ts\<close>. Strings stay strings;
  the ids \<open>makeId()\<close> mints and the correlation id are arguments. An authorisation that
  records a policy violation pushes it on the gate's bounded log.
\<close>

section \<open>Autonomy modes\<close>

datatype autonomyMode = ObserveOnly | ProposeOnly | SandboxExecute | LowRiskAutoMerge
  | HumanApprovedProduction

datatype autonomyAuthority = SystemAuthority | HumanAuthority | ExternalGovernance

definition MODE_ORDER :: "autonomyMode list" where
  "MODE_ORDER = [ObserveOnly, ProposeOnly, SandboxExecute, LowRiskAutoMerge, HumanApprovedProduction]"

definition NON_EXECUTING_MODES :: "autonomyMode list" where
  "NON_EXECUTING_MODES = [ObserveOnly, ProposeOnly]"

definition permitsExecution :: "autonomyMode \<Rightarrow> bool" where
  "permitsExecution m = (m \<notin> set NON_EXECUTING_MODES)"

fun LEGAL_TRANSITIONS :: "autonomyMode \<Rightarrow> autonomyMode list" where
  "LEGAL_TRANSITIONS ObserveOnly = [ProposeOnly]"
| "LEGAL_TRANSITIONS ProposeOnly = [ObserveOnly, SandboxExecute]"
| "LEGAL_TRANSITIONS SandboxExecute = [ProposeOnly, LowRiskAutoMerge]"
| "LEGAL_TRANSITIONS LowRiskAutoMerge = [SandboxExecute, HumanApprovedProduction]"
| "LEGAL_TRANSITIONS HumanApprovedProduction = [LowRiskAutoMerge]"

fun mode_name :: "autonomyMode \<Rightarrow> string" where
  "mode_name ObserveOnly = ''observe-only''"
| "mode_name ProposeOnly = ''propose-only''"
| "mode_name SandboxExecute = ''sandbox-execute''"
| "mode_name LowRiskAutoMerge = ''low-risk-auto-merge''"
| "mode_name HumanApprovedProduction = ''human-approved-production''"

definition mode_index :: "autonomyMode \<Rightarrow> nat" where
  "mode_index m = the (find_index (\<lambda>x. x = m) MODE_ORDER)"

section \<open>The gate\<close>

record policyViolation =
  pv_policyId :: string
  pv_violationType :: string
  pv_severity :: string
  pv_detail :: string
  pv_correlationId :: string

record autonomyChange =
  ac_correlationId :: string
  ac_previousMode :: autonomyMode
  ac_newMode :: autonomyMode
  ac_authorizedBy :: autonomyAuthority

record nalDerivation =
  nd_conclusion :: string
  nd_veto :: bool

record actionGate =
  ag_autonomyLog :: "autonomyChange list"
  ag_autonomyMode :: autonomyMode
  ag_allowedOperations :: "string list"
  ag_nalDerivations :: "(string, nalDerivation) boundedMap"
  ag_scopeModes :: "(string, autonomyMode) omap"
  ag_scopeOperations :: "(string, string list) omap"
  ag_eventLog :: "policyViolation boundedRing"

record actionInput =
  ai_operation :: string
  ai_nalDerivationId :: "string option"

record actionOutput =
  ao_authorized :: bool
  ao_toolCallId :: "string option"
  ao_vetoReason :: "string option"
  ao_requiredApprovals :: "string list"

definition veto :: "string \<Rightarrow> actionOutput" where
  "veto reason = \<lparr>ao_authorized = False, ao_toolCallId = None, ao_vetoReason = Some reason,
     ao_requiredApprovals = [''human-approval'']\<rparr>"

definition newActionGate :: "autonomyMode option \<Rightarrow> string list option \<Rightarrow> actionGate" where
  "newActionGate mode ops =
     \<lparr>ag_autonomyLog = [], ag_autonomyMode = orElse mode ObserveOnly,
      ag_allowedOperations = unique (orElse ops []),
      ag_nalDerivations = newBoundedMap GATE_LOG_CAPACITY None Lru None,
      ag_scopeModes = [], ag_scopeOperations = [], ag_eventLog = gateLog\<rparr>"

definition setAutonomyMode :: "actionGate \<Rightarrow> autonomyMode \<Rightarrow> actionGate" where
  "setAutonomyMode g m = g\<lparr>ag_autonomyMode := m\<rparr>"

datatype modeChange = Changed | Illegal autonomyMode autonomyMode | NeedsApproval

definition requestModeChange ::
  "actionGate \<Rightarrow> autonomyMode \<Rightarrow> autonomyAuthority \<Rightarrow> string \<Rightarrow> modeChange \<times> actionGate" where
  "requestModeChange g newMode authorizedBy correlationId =
     (let prev = ag_autonomyMode g
      in if prev = newMode then (Changed, g)
         else if newMode \<notin> set (LEGAL_TRANSITIONS prev) then (Illegal prev newMode, g)
         else (let upgrading = mode_index newMode > mode_index prev;
                   beyondSandbox = mode_index newMode > mode_index SandboxExecute
               in if upgrading \<and> beyondSandbox \<and> authorizedBy = SystemAuthority then (NeedsApproval, g)
                  else (let event = \<lparr>ac_correlationId = correlationId, ac_previousMode = prev,
                                     ac_newMode = newMode, ac_authorizedBy = authorizedBy\<rparr>
                        in (Changed, g\<lparr>ag_autonomyMode := newMode,
                              ag_autonomyLog := fst (pushCapped (ag_autonomyLog g) event GATE_LOG_CAPACITY)\<rparr>))))"

definition restoreAutonomyEvent :: "actionGate \<Rightarrow> autonomyChange \<Rightarrow> actionGate" where
  "restoreAutonomyEvent g event =
     g\<lparr>ag_autonomyLog := fst (pushCapped (ag_autonomyLog g) event GATE_LOG_CAPACITY)\<rparr>"

definition setScopeAutonomy :: "actionGate \<Rightarrow> string \<Rightarrow> autonomyMode \<Rightarrow> actionGate" where
  "setScopeAutonomy g scopeId m = g\<lparr>ag_scopeModes := AList.update scopeId m (ag_scopeModes g)\<rparr>"

definition addScopedOperation :: "actionGate \<Rightarrow> string \<Rightarrow> string \<Rightarrow> actionGate" where
  "addScopedOperation g scopeId op = g\<lparr>ag_scopeOperations := addToSet (ag_scopeOperations g) scopeId op\<rparr>"

definition removeScope :: "actionGate \<Rightarrow> string \<Rightarrow> actionGate" where
  "removeScope g scopeId =
     g\<lparr>ag_scopeModes := AList.delete scopeId (ag_scopeModes g),
       ag_scopeOperations := AList.delete scopeId (ag_scopeOperations g)\<rparr>"

text \<open>\<open>game:<scopeId>:<action>\<close>, split at the first colon after the prefix.\<close>

definition starts_with :: "string \<Rightarrow> string \<Rightarrow> bool" where
  "starts_with s p = (take (length p) s = p)"

definition parseScopedOperation :: "string \<Rightarrow> (string \<times> string) option" where
  "parseScopedOperation operation =
     (if \<not> starts_with operation ''game:'' then None
      else (let rest = drop 5 operation
            in case find_index (\<lambda>c. c = CHR '':'') rest of
                 None \<Rightarrow> None
               | Some sep \<Rightarrow> if sep = 0 then None else Some (take sep rest, drop (Suc sep) rest)))"

definition authorizeScoped :: "actionGate \<Rightarrow> string \<Rightarrow> string \<Rightarrow> string \<Rightarrow> actionOutput" where
  "authorizeScoped g scopeId action freshId =
     (case map_of (ag_scopeModes g) scopeId of
        None \<Rightarrow> veto (''Unknown scope '' @ scopeId)
      | Some m \<Rightarrow>
          if \<not> permitsExecution m
          then veto (''Autonomy mode '' @ mode_name m @ '' does not permit execution (scope '' @ scopeId @ '')'')
          else if action \<notin> set (orElse (map_of (ag_scopeOperations g) scopeId) [])
          then veto (''Operation '' @ [CHR 0x27] @ action @ [CHR 0x27] @ '' not permitted in scope '' @ scopeId)
          else \<lparr>ao_authorized = True, ao_toolCallId = Some freshId, ao_vetoReason = None,
                ao_requiredApprovals = []\<rparr>)"

definition registerNALDerivation :: "real \<Rightarrow> actionGate \<Rightarrow> string \<Rightarrow> string \<Rightarrow> bool \<Rightarrow> actionGate" where
  "registerNALDerivation now g derivationId conclusion v =
     g\<lparr>ag_nalDerivations := bm_set now 0 (ag_nalDerivations g) derivationId
         \<lparr>nd_conclusion = conclusion, nd_veto = v\<rparr>\<rparr>"

definition recordPolicyViolation :: "actionGate \<Rightarrow> string \<Rightarrow> string \<Rightarrow> string \<Rightarrow> actionGate" where
  "recordPolicyViolation g policyId detail correlationId =
     g\<lparr>ag_eventLog := emitEvent (ag_eventLog g)
         \<lparr>pv_policyId = policyId, pv_violationType = ''unauthorized-tool'',
          pv_severity = ''block'', pv_detail = detail, pv_correlationId = correlationId\<rparr>\<rparr>"

text \<open>The last test of \<open>decideAuthorization\<close>: the allow-list.\<close>

definition decide_allowed :: "actionGate \<Rightarrow> actionInput \<Rightarrow> string \<Rightarrow> string \<Rightarrow> actionOutput \<times> actionGate" where
  "decide_allowed g inp correlation freshId =
     (if ai_operation inp \<notin> set (ag_allowedOperations g)
      then (veto (''Operation '' @ [CHR 0x27] @ ai_operation inp @ [CHR 0x27] @ '' not permitted''),
            recordPolicyViolation g ''allowed-operations''
              (''Operation '' @ [CHR 0x27] @ ai_operation inp @ [CHR 0x27] @ '' not in allowed operations list'')
              correlation)
      else (\<lparr>ao_authorized = True, ao_toolCallId = Some freshId, ao_vetoReason = None,
             ao_requiredApprovals = []\<rparr>, g))"

text \<open>The derivation a request names, and the gate after reading it.\<close>

definition named_derivation :: "real \<Rightarrow> actionGate \<Rightarrow> actionInput \<Rightarrow> nalDerivation option \<times> actionGate" where
  "named_derivation now g inp =
     (case ai_nalDerivationId inp of
        None \<Rightarrow> (None, g)
      | Some d \<Rightarrow> if d = [] then (None, g)
          else (case bm_get now (ag_nalDerivations g) d of
                  (r, m) \<Rightarrow> (r, g\<lparr>ag_nalDerivations := m\<rparr>)))"

definition decideAuthorization ::
  "real \<Rightarrow> actionGate \<Rightarrow> actionInput \<Rightarrow> string \<Rightarrow> string \<Rightarrow> actionOutput \<times> actionGate" where
  "decideAuthorization now g inp correlation freshId =
     (case parseScopedOperation (ai_operation inp) of
        Some (scopeId, action) \<Rightarrow> (authorizeScoped g scopeId action freshId, g)
      | None \<Rightarrow>
          if \<not> permitsExecution (ag_autonomyMode g)
          then (veto (''Autonomy mode '' @ mode_name (ag_autonomyMode g) @ '' does not permit tool execution''),
                recordPolicyViolation g ''autonomy-mode''
                  (''Action not permitted in '' @ mode_name (ag_autonomyMode g) @ '' mode'') correlation)
          else
            (case named_derivation now g inp of
               (derivation, g1) \<Rightarrow>
                 (case derivation of
                    Some d \<Rightarrow> if nd_veto d
                      then (veto (''NAL veto: '' @ nd_conclusion d),
                            recordPolicyViolation g1 ''nal-veto''
                              (''NAL derivation '' @ orElse (ai_nalDerivationId inp) [] @
                               '' vetoes action: '' @ nd_conclusion d) correlation)
                      else decide_allowed g1 inp correlation freshId
                  | None \<Rightarrow> decide_allowed g1 inp correlation freshId)))"

definition addAllowedOperation :: "actionGate \<Rightarrow> string \<Rightarrow> actionGate" where
  "addAllowedOperation g op = g\<lparr>ag_allowedOperations := set_add op (ag_allowedOperations g)\<rparr>"

definition removeAllowedOperation :: "actionGate \<Rightarrow> string \<Rightarrow> actionGate" where
  "removeAllowedOperation g op = g\<lparr>ag_allowedOperations := removeAll op (ag_allowedOperations g)\<rparr>"

definition ag_clearEventLog :: "actionGate \<Rightarrow> actionGate" where
  "ag_clearEventLog g = g\<lparr>ag_eventLog := ring_clear (ag_eventLog g), ag_autonomyLog := []\<rparr>"

section \<open>The autonomy state machine\<close>

text \<open>One request, and the modes a gate can reach by requests of one authority.\<close>

inductive mode_step :: "autonomyAuthority set \<Rightarrow> autonomyMode \<Rightarrow> autonomyMode \<Rightarrow> bool"
  for who :: "autonomyAuthority set" where
  step: "a \<in> who \<Longrightarrow> requestModeChange g m a c = (Changed, g') \<Longrightarrow>
    mode_step who (ag_autonomyMode g) (ag_autonomyMode g')"

lemma mode_index_simps [simp]:
  "mode_index ObserveOnly = 0" "mode_index ProposeOnly = 1" "mode_index SandboxExecute = 2"
  "mode_index LowRiskAutoMerge = 3" "mode_index HumanApprovedProduction = 4"
  by (simp_all add: mode_index_def MODE_ORDER_def)

lemma requestModeChange_mode:
  "ag_autonomyMode (snd (requestModeChange g m a c)) =
     (if m = ag_autonomyMode g \<or> m \<notin> set (LEGAL_TRANSITIONS (ag_autonomyMode g))
         \<or> (mode_index m > mode_index (ag_autonomyMode g) \<and> mode_index m > 2 \<and> a = SystemAuthority)
      then ag_autonomyMode g else m)"
  by (auto simp: requestModeChange_def Let_def)

lemma legal_distance:
  "m \<in> set (LEGAL_TRANSITIONS p) \<Longrightarrow> mode_index m = mode_index p + 1 \<or> mode_index p = mode_index m + 1"
  by (cases p) auto

lemma mode_step_bound:
  assumes "mode_step who p q"
  shows "mode_index q \<le> mode_index p + 1" "mode_index p \<le> mode_index q + 1"
    "who = {SystemAuthority} \<Longrightarrow> mode_index q \<le> max 2 (mode_index p)"
  using assms
  by (auto elim!: mode_step.cases dest!: legal_distance simp: requestModeChange_def Let_def split: if_splits)

text \<open>C34: the system alone never escalates itself past the sandbox. From any mode up to
  \<open>sandbox-execute\<close>, no sequence of mode changes the system itself authorises reaches a
  mode beyond \<open>sandbox-execute\<close>.\<close>

theorem system_never_escalates:
  assumes "(mode_step {SystemAuthority})\<^sup>*\<^sup>* p q" "mode_index p \<le> mode_index SandboxExecute"
  shows "mode_index q \<le> mode_index SandboxExecute"
  using assms(1)
proof (induction rule: rtranclp_induct)
  case base
  then show ?case using assms(2) .
next
  case (step q r)
  then show ?case using mode_step_bound(3) [OF step.hyps(2) refl] by simp
qed

lemma system_step:
  "mode_step {SystemAuthority} ObserveOnly ProposeOnly"
  "mode_step {SystemAuthority} ProposeOnly SandboxExecute"
  using mode_step.intros [of SystemAuthority "{SystemAuthority}" "newActionGate (Some ObserveOnly) None" ProposeOnly "''c''"]
    mode_step.intros [of SystemAuthority "{SystemAuthority}" "newActionGate (Some ProposeOnly) None" SandboxExecute "''c''"]
  by (simp_all add: requestModeChange_def newActionGate_def)

lemma system_never_escalates_witness:
  "(mode_step {SystemAuthority})\<^sup>*\<^sup>* ObserveOnly SandboxExecute
   \<and> mode_index SandboxExecute \<le> mode_index SandboxExecute"
proof -
  have "(mode_step {SystemAuthority})\<^sup>*\<^sup>* ObserveOnly SandboxExecute"
    using system_step by (meson converse_rtranclp_into_rtranclp rtranclp.rtrancl_refl)
  with system_never_escalates [OF this] show ?thesis by simp
qed

section \<open>Authorisation\<close>

lemma veto_out [simp]: "\<not> ao_authorized (veto r)" "\<exists>r'. veto r = veto r'"
  by (auto simp: veto_def)

lemma recordPolicyViolation_frame [simp]:
  "ag_allowedOperations (recordPolicyViolation g p d c) = ag_allowedOperations g"
  by (simp add: recordPolicyViolation_def)

lemma decide_allowed_out:
  "ao_authorized (fst (decide_allowed g inp c i)) = (ai_operation inp \<in> set (ag_allowedOperations g))"
  "ao_authorized (fst (decide_allowed g inp c i)) \<or> (\<exists>r. fst (decide_allowed g inp c i) = veto r)"
  by (auto simp: decide_allowed_def)

lemma authorizeScoped_out:
  "ao_authorized (authorizeScoped g s a i) \<longleftrightarrow>
     (\<exists>m. map_of (ag_scopeModes g) s = Some m \<and> permitsExecution m)
     \<and> a \<in> set (orElse (map_of (ag_scopeOperations g) s) [])"
  "ao_authorized (authorizeScoped g s a i) \<or> (\<exists>r. authorizeScoped g s a i = veto r)"
  by (auto simp: authorizeScoped_def split: option.split)

lemma named_derivation_out:
  "fst (named_derivation now g inp) =
     (case ai_nalDerivationId inp of None \<Rightarrow> None
      | Some d \<Rightarrow> if d = [] then None else bm_look now (ag_nalDerivations g) d)"
  "ag_allowedOperations (snd (named_derivation now g inp)) = ag_allowedOperations g"
  "ag_eventLog (snd (named_derivation now g inp)) = ag_eventLog g"
  by (auto simp: named_derivation_def bm_look_get [symmetric] split: option.split prod.split)

text \<open>what an authorisation requires. An operation outside the game scopes is
  authorised exactly when the mode permits execution, the derivation named (if any, and if
  still remembered) carries no veto, and the operation is on the allow-list; one inside a
  scope exactly when that scope is known, its own mode permits execution and its own list
  has the action. Every refusal names its reason and asks for human approval.\<close>

theorem authorize_correct:
  "let (out, g') = decideAuthorization now g inp corr i
   in (ao_authorized out \<longleftrightarrow>
        (case parseScopedOperation (ai_operation inp) of
           Some (s, a) \<Rightarrow> (\<exists>m. map_of (ag_scopeModes g) s = Some m \<and> permitsExecution m)
                          \<and> a \<in> set (orElse (map_of (ag_scopeOperations g) s) [])
         | None \<Rightarrow> permitsExecution (ag_autonomyMode g)
             \<and> (case ai_nalDerivationId inp of None \<Rightarrow> True
                 | Some d \<Rightarrow> d = [] \<or> (case bm_look now (ag_nalDerivations g) d of
                                       None \<Rightarrow> True | Some n \<Rightarrow> \<not> nd_veto n))
             \<and> ai_operation inp \<in> set (ag_allowedOperations g)))
     \<and> (ao_authorized out \<or> (\<exists>r. out = veto r))"
proof (cases "parseScopedOperation (ai_operation inp)")
  case (Some p)
  then show ?thesis using authorizeScoped_out [of g "fst p" "snd p" i]
    by (cases p) (simp add: decideAuthorization_def)
next
  case None
  show ?thesis
  proof (cases "permitsExecution (ag_autonomyMode g)")
    case False
    with None show ?thesis by (simp add: decideAuthorization_def)
  next
    case True
    obtain d g1 where d: "named_derivation now g inp = (d, g1)" by force
    have ok: "(case ai_nalDerivationId inp of None \<Rightarrow> True
         | Some d \<Rightarrow> d = [] \<or> (case bm_look now (ag_nalDerivations g) d of
                               None \<Rightarrow> True | Some n \<Rightarrow> \<not> nd_veto n))
        = (case d of None \<Rightarrow> True | Some n \<Rightarrow> \<not> nd_veto n)"
      using named_derivation_out(1) [of now g inp] d by (auto split: option.splits if_splits)
    have al: "ag_allowedOperations g1 = ag_allowedOperations g"
      using named_derivation_out(2) [of now g inp] d by simp
    show ?thesis
      unfolding ok using None True d decide_allowed_out [of g1 inp corr i] al
      by (cases d) (simp_all add: decideAuthorization_def case_prod_beta)
  qed
qed

text \<open>a refusal outside the scopes is on record and a refusal inside one is not: the
  first appends one policy violation to the gate's log, while a scoped refusal leaves the
  log as it was, whatever the reason.\<close>

theorem scoped_refusal_unrecorded:
  "let (out, g') = decideAuthorization now g inp corr i
   in (parseScopedOperation (ai_operation inp) \<noteq> None \<longrightarrow> g' = g)
    \<and> (parseScopedOperation (ai_operation inp) = None \<and> \<not> ao_authorized out \<longrightarrow>
        (\<exists>pv. ag_eventLog g' = emitEvent (ag_eventLog g) pv \<and> pv_correlationId pv = corr))"
proof (cases "parseScopedOperation (ai_operation inp)")
  case (Some p)
  then show ?thesis by (cases p) (simp add: decideAuthorization_def)
next
  case None
  show ?thesis
  proof (cases "permitsExecution (ag_autonomyMode g)")
    case False
    with None show ?thesis
      by (auto simp: decideAuthorization_def recordPolicyViolation_def)
  next
    case True
    obtain d g1 where d: "named_derivation now g inp = (d, g1)" by force
    have "ag_eventLog g1 = ag_eventLog g"
      using named_derivation_out(3) [of now g inp] d by simp
    then show ?thesis
      using None True d
      by (cases d) (auto simp: decideAuthorization_def decide_allowed_def recordPolicyViolation_def)
  qed
qed

definition scoped_gate :: actionGate where
  "scoped_gate = setScopeAutonomy (newActionGate None None) ''chess'' ObserveOnly"

lemma scoped_refusal_unrecorded_witness:
  "let (out, g') = decideAuthorization 0 scoped_gate
       \<lparr>ai_operation = ''game:chess:move'', ai_nalDerivationId = None\<rparr> ''c'' ''i''
   in \<not> ao_authorized out \<and> ag_eventLog g' = gateLog"
proof -
  let ?i = "\<lparr>ai_operation = ''game:chess:move'', ai_nalDerivationId = None\<rparr>"
  obtain out g' where d: "decideAuthorization 0 scoped_gate ?i ''c'' ''i'' = (out, g')" by force
  have p: "parseScopedOperation (ai_operation ?i) = Some (''chess'', ''move'')"
    by (simp add: parseScopedOperation_def starts_with_def)
  have "g' = scoped_gate"
    using scoped_refusal_unrecorded [of 0 scoped_gate ?i "''c''" "''i''"] d p by simp
  moreover have "\<not> ao_authorized out"
    using d p by (auto simp: decideAuthorization_def authorizeScoped_def scoped_gate_def
        setScopeAutonomy_def newActionGate_def permitsExecution_def NON_EXECUTING_MODES_def veto_def)
  ultimately show ?thesis
    using d by (simp add: scoped_gate_def setScopeAutonomy_def newActionGate_def)
qed

end
