(* ===== verification/Trust.thy ===== *)
theory Trust
  imports Caches Budget_Gate
begin

text \<open>
  Trust and reward: the confidence ceilings by source quality
  (\<open>core/src/schemas/truth.ts\<close>), the track record that lowers them
  (\<open>nar/src/kernel/source-reputation.ts\<close>), the reward gate with its epistemic firewall
  (\<open>nar/src/kernel/KernelRewardGate.ts\<close>) and the proposal risk tiers
  (\<open>core/src/schemas/governance.ts\<close>). The persistent ledger of the reputation is the
  list of the entries appended to it; restoring is folding that list. The locale
  \<open>ceiling_reputation\<close> is the interface \<open>CeilingReputation\<close>.
\<close>

section \<open>Confidence ceilings\<close>

datatype sourceQuality = Primary | Secondary | General | Tertiary | LlmPrior | PeerAgent | SelfMetta

fun SOURCE_QUALITY_CONFIDENCE :: "sourceQuality \<Rightarrow> real" where
  "SOURCE_QUALITY_CONFIDENCE Primary = 9/10"
| "SOURCE_QUALITY_CONFIDENCE Secondary = 7/10"
| "SOURCE_QUALITY_CONFIDENCE General = 55/100"
| "SOURCE_QUALITY_CONFIDENCE Tertiary = 4/10"
| "SOURCE_QUALITY_CONFIDENCE LlmPrior = 5/10"
| "SOURCE_QUALITY_CONFIDENCE PeerAgent = 6/10"
| "SOURCE_QUALITY_CONFIDENCE SelfMetta = 7/10"

record ceilingLimits =
  cl_sourceKey :: "string option"
  cl_atMost :: "real option"
  cl_scaledBy :: "real option"

text \<open>
  \<open>confidenceCeiling\<close> over the reputation it is given: the reputation may be absent, and
  reading it may move it.
\<close>

definition confidenceCeiling ::
  "('s \<Rightarrow> real \<Rightarrow> string \<Rightarrow> real \<times> 's) \<Rightarrow> 's option \<Rightarrow> sourceQuality \<Rightarrow> ceilingLimits \<Rightarrow> real \<times> 's option" where
  "confidenceCeiling effective reputation quality limits =
     (let base = SOURCE_QUALITY_CONFIDENCE quality;
          (rated, reputation') =
            (case (reputation, cl_sourceKey limits) of
               (Some s, Some key) \<Rightarrow>
                 if key = [] then (base, reputation)
                 else (case effective s base key of (v, s') \<Rightarrow> (v, Some s'))
             | _ \<Rightarrow> (base, reputation));
          bounded = (case cl_atMost limits of None \<Rightarrow> rated | Some m \<Rightarrow> min m rated)
      in (clamp01 (case cl_scaledBy limits of None \<Rightarrow> bounded | Some k \<Rightarrow> bounded * k), reputation'))"

locale ceiling_reputation =
  fixes effective :: "'s \<Rightarrow> real \<Rightarrow> string \<Rightarrow> real \<times> 's"
    and inv :: "'s \<Rightarrow> bool"
  assumes lowers: "inv s \<Longrightarrow> 0 \<le> base \<Longrightarrow> base \<le> 1 \<Longrightarrow>
      0 \<le> fst (effective s base key) \<and> fst (effective s base key) \<le> base"
    and keeps: "inv s \<Longrightarrow> inv (snd (effective s base key))"
begin

lemma ceiling_bounded:
  assumes "\<And>s. rep = Some s \<Longrightarrow> inv s"
    and "\<And>k. cl_scaledBy limits = Some k \<Longrightarrow> 0 \<le> k \<and> k \<le> 1"
  shows "0 \<le> fst (confidenceCeiling effective rep q limits)"
    "fst (confidenceCeiling effective rep q limits) \<le> SOURCE_QUALITY_CONFIDENCE q"
    "\<And>m. cl_atMost limits = Some m \<Longrightarrow> 0 \<le> m \<Longrightarrow> fst (confidenceCeiling effective rep q limits) \<le> m"
    "\<And>s. snd (confidenceCeiling effective rep q limits) = Some s \<Longrightarrow> inv s"
proof -
  have base: "0 \<le> SOURCE_QUALITY_CONFIDENCE q" "SOURCE_QUALITY_CONFIDENCE q \<le> 1" by (cases q; simp)+
  obtain v rep' where r: "(case (rep, cl_sourceKey limits) of
               (Some s, Some key) \<Rightarrow>
                 if key = [] then (SOURCE_QUALITY_CONFIDENCE q, rep)
                 else (case effective s (SOURCE_QUALITY_CONFIDENCE q) key of (v, s') \<Rightarrow> (v, Some s'))
             | _ \<Rightarrow> (SOURCE_QUALITY_CONFIDENCE q, rep)) = (v, rep')" by force
  have "0 \<le> v \<and> v \<le> SOURCE_QUALITY_CONFIDENCE q \<and> (\<forall>s. rep' = Some s \<longrightarrow> inv s)"
  proof (cases rep)
    case None
    with r base show ?thesis by auto
  next
    case (Some s)
    then have i: "inv s" using assms(1) by simp
    show ?thesis
      using r Some base i lowers [OF i base] keeps [OF i, of "SOURCE_QUALITY_CONFIDENCE q"]
      by (auto split: option.splits if_splits prod.splits) (metis fst_conv snd_conv)+
  qed
  then have v: "0 \<le> v" "v \<le> SOURCE_QUALITY_CONFIDENCE q" and i: "\<And>s. rep' = Some s \<Longrightarrow> inv s"
    by auto
  define b where "b = (case cl_atMost limits of None \<Rightarrow> v | Some m \<Rightarrow> min m v)"
  define w where "w = (case cl_scaledBy limits of None \<Rightarrow> b | Some k \<Rightarrow> b * k)"
  have c: "confidenceCeiling effective rep q limits = (clamp01 w, rep')"
    unfolding w_def b_def using r by (simp add: confidenceCeiling_def Let_def)
  have b: "b \<le> v" "\<And>m. cl_atMost limits = Some m \<Longrightarrow> b \<le> m" by (auto simp: b_def split: option.splits)
  have w: "w \<le> max 0 b"
    using assms(2) by (cases "0 \<le> b") (auto simp: w_def mult_left_le mult_nonpos_nonneg split: option.splits)
  have "clamp01 w \<le> max 0 w" by (simp add: clamp01_def)
  with w b v base show "fst (confidenceCeiling effective rep q limits) \<le> SOURCE_QUALITY_CONFIDENCE q"
    unfolding c fst_conv by linarith
  show "fst (confidenceCeiling effective rep q limits) \<le> m" if "cl_atMost limits = Some m" "0 \<le> m" for m
    using \<open>clamp01 w \<le> max 0 w\<close> w b(2) [OF that(1)] that(2) unfolding c fst_conv by linarith
  show "0 \<le> fst (confidenceCeiling effective rep q limits)" by (simp add: c)
  show "\<And>s. snd (confidenceCeiling effective rep q limits) = Some s \<Longrightarrow> inv s" using i by (simp add: c)
qed

end

section \<open>Source reputation\<close>

record reputationEntry =
  re_confirmed :: nat
  re_contradicted :: nat

datatype reputationOutcome = Confirmed | Contradicted

record reputationDelta =
  rd_at :: real
  rd_key :: string
  rd_confirmed :: nat
  rd_contradicted :: nat

record sourceReputation =
  sr_ledger :: "reputationDelta list"
  sr_entries :: "(string, reputationEntry) lruCache"
  sr_floor :: real
  sr_decayGate :: nat

definition zeroReputation :: reputationEntry where
  "zeroReputation = \<lparr>re_confirmed = 0, re_contradicted = 0\<rparr>"

definition add_delta :: "nat \<Rightarrow> nat \<Rightarrow> reputationEntry \<Rightarrow> reputationEntry" where
  "add_delta c d e = e\<lparr>re_confirmed := re_confirmed e + c, re_contradicted := re_contradicted e + d\<rparr>"

definition newSourceReputation ::
  "real option \<Rightarrow> nat option \<Rightarrow> int option \<Rightarrow> reputationDelta list \<Rightarrow> sourceReputation" where
  "newSourceReputation lo gate cap ledger =
     \<lparr>sr_ledger = ledger,
      sr_entries = fold (\<lambda>r es. snd (accumulate (lru_get 0) (bm_set 0 0) es (rd_key r) zeroReputation
                                      (add_delta (rd_confirmed r) (rd_contradicted r))))
                     ledger (newLruCache (orElse cap 10000)),
      sr_floor = orElse lo (1/2), sr_decayGate = orElse gate 2\<rparr>"

definition reputation_record :: "real \<Rightarrow> sourceReputation \<Rightarrow> string \<Rightarrow> reputationOutcome \<Rightarrow> sourceReputation" where
  "reputation_record now s key outcome =
     (let (c, d) = (case outcome of Confirmed \<Rightarrow> (1, 0) | Contradicted \<Rightarrow> (0, 1));
          entries' = snd (accumulate (lru_get 0) (bm_set 0 0) (sr_entries s) key zeroReputation
            (\<lambda>e. case outcome of Confirmed \<Rightarrow> e\<lparr>re_confirmed := re_confirmed e + 1\<rparr>
                 | Contradicted \<Rightarrow> e\<lparr>re_contradicted := re_contradicted e + 1\<rparr>))
      in s\<lparr>sr_entries := entries',
           sr_ledger := sr_ledger s @ [\<lparr>rd_at = now, rd_key = key, rd_confirmed = c, rd_contradicted = d\<rparr>]\<rparr>)"

definition multiplier :: "sourceReputation \<Rightarrow> string \<Rightarrow> real \<times> sourceReputation" where
  "multiplier s key =
     (case lru_get 0 (sr_entries s) key of
        (None, es) \<Rightarrow> (1, s\<lparr>sr_entries := es\<rparr>)
      | (Some e, es) \<Rightarrow>
          (if re_contradicted e < sr_decayGate s then 1
           else (case flooredRatio (real (re_contradicted e)) (real (re_confirmed e + re_contradicted e)) 1 of
                   Fin share \<Rightarrow> max (sr_floor s) (clamp01 (1 - share))
                 | _ \<Rightarrow> sr_floor s),
           s\<lparr>sr_entries := es\<rparr>))"

definition effectiveCeiling :: "sourceReputation \<Rightarrow> real \<Rightarrow> string \<Rightarrow> real \<times> sourceReputation" where
  "effectiveCeiling s baseQuality key =
     (case multiplier s key of (m, s') \<Rightarrow> (clamp01 (baseQuality * m), s'))"

lemma flooredRatio_one: "flooredRatio n d 1 = Fin (n / max 1 d)"
  by (simp add: flooredRatio_def js_div_def)

lemma multiplier_range:
  assumes "0 \<le> sr_floor s" "sr_floor s \<le> 1"
  shows "sr_floor s \<le> fst (multiplier s key)" "fst (multiplier s key) \<le> 1"
  using assms by (auto simp: multiplier_def flooredRatio_one split: prod.split option.split)

interpretation reputation: ceiling_reputation effectiveCeiling "\<lambda>s. 0 \<le> sr_floor s \<and> sr_floor s \<le> 1"
proof unfold_locales
  fix s :: sourceReputation and base key
  assume i: "0 \<le> sr_floor s \<and> sr_floor s \<le> 1"
  then show "0 \<le> sr_floor (snd (effectiveCeiling s base key)) \<and> sr_floor (snd (effectiveCeiling s base key)) \<le> 1"
    by (auto simp: effectiveCeiling_def multiplier_def split: prod.split option.split)
  assume b: "0 \<le> base" "base \<le> 1"
  obtain m s' where m: "multiplier s key = (m, s')" by force
  then have "0 \<le> m" "m \<le> 1" using multiplier_range [of s key] i by auto
  with b have "base * m \<le> base" "0 \<le> base * m" "base * m \<le> 1"
    by (simp_all add: mult_left_le mult_le_one)
  with m show "0 \<le> fst (effectiveCeiling s base key) \<and> fst (effectiveCeiling s base key) \<le> base"
    by (simp add: effectiveCeiling_def)
qed

text \<open>provenance bounds confidence. Whatever the track record, the other limits and a
  sensor confidence in the unit interval, the confidence granted to a claim is in the unit
  interval and never above the ceiling of its source quality.\<close>

theorem confidence_ceiling_bounded:
  assumes "\<And>s. rep = Some s \<Longrightarrow> 0 \<le> sr_floor s \<and> sr_floor s \<le> 1"
    and "\<And>k. cl_scaledBy limits = Some k \<Longrightarrow> 0 \<le> k \<and> k \<le> 1"
  shows "0 \<le> fst (confidenceCeiling effectiveCeiling rep q limits)
    \<and> fst (confidenceCeiling effectiveCeiling rep q limits) \<le> SOURCE_QUALITY_CONFIDENCE q"
  using reputation.ceiling_bounded(1,2) [OF assms] by blast

lemma confidence_ceiling_bounded_witness:
  "fst (confidenceCeiling effectiveCeiling (Some (newSourceReputation None None None []))
     Tertiary \<lparr>cl_sourceKey = Some ''peer'', cl_atMost = None, cl_scaledBy = Some (1/2)\<rparr>) \<le> 4/10"
  using confidence_ceiling_bounded [of "Some (newSourceReputation None None None [])"
      "\<lparr>cl_sourceKey = Some ''peer'', cl_atMost = None, cl_scaledBy = Some (1/2)\<rparr>" Tertiary]
  by (simp add: newSourceReputation_def)

definition record_all :: "(real \<times> string \<times> reputationOutcome) list \<Rightarrow> sourceReputation \<Rightarrow> sourceReputation" where
  "record_all rs s = fold (\<lambda>(now, key, out) s. reputation_record now s key out) rs s"

lemma outcome_delta:
  "(\<lambda>e. case out of Confirmed \<Rightarrow> e\<lparr>re_confirmed := re_confirmed e + 1\<rparr>
      | Contradicted \<Rightarrow> e\<lparr>re_contradicted := re_contradicted e + 1\<rparr>)
   = (case out of Confirmed \<Rightarrow> add_delta 1 0 | Contradicted \<Rightarrow> add_delta 0 1)"
  by (rule ext) (simp add: add_delta_def split: reputationOutcome.split)

text \<open>the ledger is the track record. After any series of recorded outcomes, a
  reputation restored from the ledger they were appended to has the same entries, evictions
  included.\<close>

theorem reputation_restore:
  "sr_entries (newSourceReputation lo gate cap (sr_ledger (record_all rs (newSourceReputation lo gate cap ledger))))
   = sr_entries (record_all rs (newSourceReputation lo gate cap ledger))"
proof (induction rs rule: rev_induct)
  case Nil
  then show ?case by (simp add: record_all_def newSourceReputation_def)
next
  case (snoc r rs)
  obtain now key out where r: "r = (now, key, out)" by (metis prod_cases3)
  with snoc show ?case
    by (cases out) (simp_all add: record_all_def reputation_record_def newSourceReputation_def
        outcome_delta add_delta_def [abs_def] Let_def)
qed

section \<open>The reward gate\<close>

datatype rewardDomain = ExternalReflex | SelfScheduler | SelfConfigProposal | SelfPatchScore
  | SelfExplanationRank

definition DEFAULT_ALLOWED_TARGETS :: "string list" where
  "DEFAULT_ALLOWED_TARGETS = [''attention-priority'', ''policy-weights'']"

record rewardInput =
  ri_targetType :: string
  ri_targetId :: string
  ri_domain :: "rewardDomain option"

record rewardOutput =
  ro_accepted :: bool
  ro_mutationApplied :: bool
  ro_firewallViolation :: bool
  ro_rejectionReason :: "string option"
  ro_requiresProposal :: bool

record firewallEvent =
  fe_detail :: string
  fe_correlationId :: string

record rewardGate =
  rg_allowedTargets :: "string list"
  rg_eventLog :: "firewallEvent boundedRing"

definition newRewardGate :: "string list option \<Rightarrow> rewardGate" where
  "newRewardGate targets = \<lparr>rg_allowedTargets = orElse targets DEFAULT_ALLOWED_TARGETS, rg_eventLog = gateLog\<rparr>"

definition firewallMessage :: "string \<Rightarrow> string \<Rightarrow> string list \<Rightarrow> string" where
  "firewallMessage targetType targetId allowed =
     ''Epistemic firewall violation: Reward signal cannot mutate '' @ targetType @ '' (target: '' @
     targetId @ ''). Allowed targets: '' @ join_with '', '' allowed"

definition decideReward :: "rewardGate \<Rightarrow> rewardInput \<Rightarrow> string \<Rightarrow> rewardOutput \<times> rewardGate" where
  "decideReward g inp correlation =
     (let domain = orElse (ri_domain inp) ExternalReflex
      in if ri_targetType inp \<notin> set (rg_allowedTargets g)
         then (let message = firewallMessage (ri_targetType inp) (ri_targetId inp) (rg_allowedTargets g)
               in (\<lparr>ro_accepted = False, ro_mutationApplied = False, ro_firewallViolation = True,
                    ro_rejectionReason = Some message, ro_requiresProposal = False\<rparr>,
                   g\<lparr>rg_eventLog := emitEvent (rg_eventLog g)
                       \<lparr>fe_detail = message, fe_correlationId = correlation\<rparr>\<rparr>))
         else if domain \<noteq> ExternalReflex
         then (\<lparr>ro_accepted = True, ro_mutationApplied = False, ro_firewallViolation = False,
                ro_rejectionReason = None, ro_requiresProposal = True\<rparr>, g)
         else (\<lparr>ro_accepted = True, ro_mutationApplied = True, ro_firewallViolation = False,
                ro_rejectionReason = None, ro_requiresProposal = False\<rparr>, g))"

text \<open>What the funnel meters: a required proposal is a restriction, not a grant.\<close>

definition reward_outcome :: "rewardOutput \<Rightarrow> bool \<times> string option" where
  "reward_outcome out =
     (ro_accepted out \<and> \<not> ro_requiresProposal out,
      if ro_requiresProposal out then Some ''requires-proposal'' else ro_rejectionReason out)"

definition reward_ingest :: "rewardGate \<Rightarrow> string \<Rightarrow> string \<Rightarrow> rewardOutput \<times> rewardGate" where
  "reward_ingest g targetId correlation =
     decideReward g \<lparr>ri_targetType = ''policy-weights'', ri_targetId = targetId,
       ri_domain = Some ExternalReflex\<rparr> correlation"

datatype proposalKind = KnobTune | FocusWeight | StrategySwitch | SchemaPromotion | PatchApply
  | TestGenerate | SchemaEvolution | MettaRuleAdoption

datatype capabilityRisk = LowRisk | MediumRisk | HighRisk

fun PROPOSAL_RISK :: "proposalKind \<Rightarrow> capabilityRisk" where
  "PROPOSAL_RISK FocusWeight = LowRisk"
| "PROPOSAL_RISK StrategySwitch = LowRisk"
| "PROPOSAL_RISK KnobTune = MediumRisk"
| "PROPOSAL_RISK SchemaPromotion = MediumRisk"
| "PROPOSAL_RISK TestGenerate = MediumRisk"
| "PROPOSAL_RISK PatchApply = HighRisk"
| "PROPOSAL_RISK SchemaEvolution = LowRisk"
| "PROPOSAL_RISK MettaRuleAdoption = LowRisk"

record 'p selfProposal =
  sp_proposalId :: string
  sp_kind :: proposalKind
  sp_riskTier :: capabilityRisk
  sp_payload :: 'p
  sp_rewardDomain :: rewardDomain
  sp_correlationId :: string

record 'p selfRewardGate = rewardGate +
  sg_queue :: "'p selfProposal list"

definition self_propose :: "string \<Rightarrow> proposalKind \<Rightarrow> 'p \<Rightarrow> rewardDomain \<Rightarrow> string \<Rightarrow> 'p selfProposal" where
  "self_propose ident kind payload domain correlationId =
     \<lparr>sp_proposalId = ident, sp_kind = kind, sp_riskTier = PROPOSAL_RISK kind, sp_payload = payload,
      sp_rewardDomain = domain, sp_correlationId = correlationId\<rparr>"

definition self_submit ::
  "'p selfRewardGate \<Rightarrow> string \<Rightarrow> proposalKind \<Rightarrow> 'p \<Rightarrow> rewardDomain \<Rightarrow> string
   \<Rightarrow> 'p selfProposal \<times> 'p selfRewardGate" where
  "self_submit g ident kind payload domain correlationId =
     (let p = self_propose ident kind payload domain correlationId
      in (p, g\<lparr>sg_queue := sg_queue g @ [p]\<rparr>))"

definition self_drain :: "'p selfRewardGate \<Rightarrow> 'p selfProposal list \<times> 'p selfRewardGate" where
  "self_drain g = (sg_queue g, g\<lparr>sg_queue := []\<rparr>)"

text \<open>the epistemic firewall. A reward whose target is not on the gate's list is
  refused and logged and mutates nothing; on the default list no truth value is a target.
  A reward on the list is applied exactly when it comes from the external reflex domain;
  any other domain is accepted only as a proposal, which is metered as a refusal.\<close>

theorem epistemic_firewall:
  "let (out, g') = decideReward g inp corr
   in (ri_targetType inp \<notin> set (rg_allowedTargets g) \<longrightarrow>
         \<not> ro_accepted out \<and> \<not> ro_mutationApplied out \<and> ro_firewallViolation out
         \<and> (\<exists>e. rg_eventLog g' = emitEvent (rg_eventLog g) e \<and> fe_correlationId e = corr))
    \<and> (ri_targetType inp \<in> set (rg_allowedTargets g) \<longrightarrow>
         g' = g \<and> ro_accepted out
         \<and> ro_mutationApplied out = (ri_domain inp = None \<or> ri_domain inp = Some ExternalReflex)
         \<and> fst (reward_outcome out) = ro_mutationApplied out)"
  by (cases "ri_domain inp") (auto simp: decideReward_def Let_def reward_outcome_def)

lemma epistemic_firewall_witness:
  "let (out, g') = decideReward (newRewardGate None)
       \<lparr>ri_targetType = ''truth-frequency'', ri_targetId = ''t'', ri_domain = None\<rparr> ''c''
   in \<not> ro_accepted out \<and> \<not> ro_mutationApplied out"
  using epistemic_firewall [of "newRewardGate None"
      "\<lparr>ri_targetType = ''truth-frequency'', ri_targetId = ''t'', ri_domain = None\<rparr>" "''c''"]
  by (auto simp: newRewardGate_def DEFAULT_ALLOWED_TARGETS_def split: prod.splits)

end
