(* ===== verification/Truth_Values.thy ===== *)
theory Truth_Values
  imports Collections
begin

text \<open>
  The truth algebra of the reasoner: \<open>nar/src/terms/impls/Truth.ts\<close> over the curves of
  \<open>util/src/types/truth.ts\<close>. Frequencies and confidences are reals. A division that
  leaves the finite numbers is a \<open>jsnum\<close>, and \<open>normalizeTruth\<close> is what brings it
  back: \<open>NaN\<close> becomes the default, an infinity is clamped. The constructor that throws
  above the confidence ceiling returns \<open>None\<close>. Rendering to and from text
  (\<open>toFixed\<close>) is not modelled.
\<close>

section \<open>The curves\<close>

definition toFrequency :: "real \<Rightarrow> real" where
  "toFrequency v = clamp01 v"

definition toConfidence :: "real \<Rightarrow> real" where
  "toConfidence v = clamp01 v"

definition WEIGHT_AT_CERTAINTY :: real where
  "WEIGHT_AT_CERTAINTY = 10 ^ 10"

definition confidenceToWeight :: "real \<Rightarrow> real" where
  "confidenceToWeight c = (if c = 1 then WEIGHT_AT_CERTAINTY else c / (1 - c))"

definition weightToConfidence :: "real \<Rightarrow> jsnum" where
  "weightToConfidence w = softSquash w 1"

fun js_clamp :: "jsnum \<Rightarrow> real \<Rightarrow> real \<Rightarrow> real \<Rightarrow> real" where
  "js_clamp NaN d lo hi = clamp d lo hi"
| "js_clamp NegInf d lo hi = lo"
| "js_clamp Inf d lo hi = max lo hi"
| "js_clamp (Fin x) d lo hi = clamp x lo hi"

fun js_scale :: "jsnum \<Rightarrow> real \<Rightarrow> jsnum" where
  "js_scale NaN k = NaN"
| "js_scale (Fin a) k = Fin (a * k)"
| "js_scale Inf k = (if k = 0 then NaN else if 0 < k then Inf else NegInf)"
| "js_scale NegInf k = (if k = 0 then NaN else if 0 < k then NegInf else Inf)"

definition weakenConfidence :: "real \<Rightarrow> real \<Rightarrow> real" where
  "weakenConfidence c factor = js_clamp (softSquash c factor) 0 0 1"

section \<open>Truth values\<close>

record truth =
  tf :: real
  tc :: real

record beliefTruth =
  frequency :: real
  confidence :: real

datatype truthLike = TermTruth truth | BeliefTruth beliefTruth

definition toTermTruth :: "truthLike \<Rightarrow> truth" where
  "toTermTruth t = (case t of TermTruth u \<Rightarrow> u | BeliefTruth b \<Rightarrow> \<lparr>tf = frequency b, tc = confidence b\<rparr>)"

definition asBeliefTruth :: "truthLike option \<Rightarrow> beliefTruth option" where
  "asBeliefTruth t =
     (case t of None \<Rightarrow> None
      | Some u \<Rightarrow> Some \<lparr>frequency = tf (toTermTruth u), confidence = tc (toTermTruth u)\<rparr>)"

definition MAX_CONFIDENCE :: real where "MAX_CONFIDENCE = 999 / 1000"
definition WEAKENING_FACTOR :: real where "WEAKENING_FACTOR = 10"
definition CONFIRM_GAIN :: real where "CONFIRM_GAIN = 11 / 10"
definition CONTRADICT_DECAY :: real where "CONTRADICT_DECAY = 9 / 10"
definition OUTCOME_GAIN :: real where "OUTCOME_GAIN = 1 / 10"

definition normalizeTruth :: "jsnum \<Rightarrow> jsnum \<Rightarrow> truth" where
  "normalizeTruth f c = \<lparr>tf = js_clamp f (1/2) 0 1, tc = js_clamp c (9/10) 0 MAX_CONFIDENCE\<rparr>"

definition createTruth :: "real \<Rightarrow> real \<Rightarrow> truth option" where
  "createTruth f c = (if c > MAX_CONFIDENCE then None else Some (normalizeTruth (Fin f) (Fin c)))"

definition NEUTRAL_TRUTH :: truth where "NEUTRAL_TRUTH = \<lparr>tf = 1/2, tc = 9/10\<rparr>"
definition TRUE_TRUTH :: truth where "TRUE_TRUTH = \<lparr>tf = 1, tc = 9/10\<rparr>"
definition FALSE_TRUTH :: truth where "FALSE_TRUTH = \<lparr>tf = 0, tc = 9/10\<rparr>"

definition truth_fromUnknown :: "truthLike option \<Rightarrow> truth \<Rightarrow> truth" where
  "truth_fromUnknown t fallback =
     (case t of None \<Rightarrow> fallback
      | Some (TermTruth u) \<Rightarrow> u
      | Some (BeliefTruth b) \<Rightarrow> normalizeTruth (Fin (frequency b)) (Fin (confidence b)))"

section \<open>The operations\<close>

definition binary_op ::
  "(real \<Rightarrow> real \<Rightarrow> real \<Rightarrow> real \<Rightarrow> jsnum \<times> jsnum) \<Rightarrow> truth \<Rightarrow> truth \<Rightarrow> truth" where
  "binary_op fn t1 t2 = (case fn (tf t1) (tf t2) (tc t1) (tc t2) of (f, c) \<Rightarrow> normalizeTruth f c)"

definition unary_op :: "(real \<Rightarrow> real \<Rightarrow> jsnum \<times> jsnum) \<Rightarrow> truth \<Rightarrow> truth" where
  "unary_op fn t = (case fn (tf t) (tc t) of (f, c) \<Rightarrow> normalizeTruth f c)"

definition t_negation :: "truth \<Rightarrow> truth" where
  "t_negation = unary_op (\<lambda>f c. (Fin (1 - f), Fin c))"

definition t_conversion :: "truth \<Rightarrow> truth" where
  "t_conversion = unary_op (\<lambda>f c. (Fin f, Fin (f * c)))"

definition attention :: "truth \<Rightarrow> real" where
  "attention t = tf t * tc t"

definition expectation :: "truth \<Rightarrow> real" where
  "expectation t = tc t * (tf t - 1/2) + 1/2"

definition harshness :: "truth \<Rightarrow> real" where
  "harshness t = (1 - tc t) * (1 - expectation t) + tc t * expectation t"

definition t_comparison :: "truth \<Rightarrow> truth \<Rightarrow> truth" where
  "t_comparison = binary_op (\<lambda>f1 f2 c1 c2.
     let fProd = f1 * f2 in (Fin (safeDiv fProd (fProd + (1 - f1) * (1 - f2))), Fin (c1 * c2)))"

definition t_analogy :: "truth \<Rightarrow> truth \<Rightarrow> truth" where
  "t_analogy = binary_op (\<lambda>f1 f2 c1 c2. (Fin (f1 * f2), Fin (c1 * c2 * f2)))"

definition t_resemblance :: "truth \<Rightarrow> truth \<Rightarrow> truth" where
  "t_resemblance = binary_op (\<lambda>f1 f2 c1 c2. (Fin ((f1 + f2) / 2), Fin (c1 * c2)))"

definition t_contraposition :: "truth \<Rightarrow> truth \<Rightarrow> truth" where
  "t_contraposition = binary_op (\<lambda>f1 f2 c1 c2.
     let cf = f2 * (1 - f1) in (Fin (safeDiv cf (cf + (1 - f2) * f1)), Fin (c1 * c2)))"

definition t_intersection :: "truth \<Rightarrow> truth \<Rightarrow> truth" where
  "t_intersection = binary_op (\<lambda>f1 f2 c1 c2. (Fin (f1 * f2), Fin (c1 * c2)))"

definition t_union :: "truth \<Rightarrow> truth \<Rightarrow> truth" where
  "t_union = binary_op (\<lambda>f1 f2 c1 c2. (Fin (1 - (1 - f1) * (1 - f2)), Fin (c1 * c2)))"

definition t_subtract :: "truth \<Rightarrow> truth \<Rightarrow> truth" where
  "t_subtract = binary_op (\<lambda>f1 f2 c1 c2. (Fin (clamp01 (f1 - f2)), Fin (c1 * c2)))"

definition t_diff :: "truth \<Rightarrow> truth \<Rightarrow> truth" where
  "t_diff = binary_op (\<lambda>f1 f2 c1 c2. (Fin \<bar>f1 - f2\<bar>, Fin (c1 * c2)))"

definition t_exemplification :: "truth \<Rightarrow> truth \<Rightarrow> truth" where
  "t_exemplification = binary_op (\<lambda>f1 f2 c1 c2.
     (Fin (f1 * f2), js_scale (js_scale (js_scale (js_scale (softSquash c1 1) c1) c2) f1) f2))"

definition t_sameness :: "truth \<Rightarrow> truth \<Rightarrow> truth" where
  "t_sameness = binary_op (\<lambda>f1 f2 c1 c2. (Fin (1 - \<bar>f1 - f2\<bar>), Fin (c1 * c2)))"

definition t_deduction :: "truth \<Rightarrow> truth \<Rightarrow> truth" where
  "t_deduction = binary_op (\<lambda>f1 f2 c1 c2. (Fin (f1 * f2), Fin (c1 * c2)))"

definition t_deductionWeak :: "truth \<Rightarrow> truth \<Rightarrow> truth option" where
  "t_deductionWeak t1 t2 =
     (let res = t_deduction t1 t2
      in case softSquash (tc res) WEAKENING_FACTOR of
           Fin c \<Rightarrow> createTruth (tf res) c
         | Inf \<Rightarrow> None
         | c \<Rightarrow> Some (normalizeTruth (Fin (tf res)) c))"

definition t_induction :: "truth \<Rightarrow> truth \<Rightarrow> truth" where
  "t_induction = binary_op (\<lambda>f1 f2 c1 c2. (Fin f2, softSquash (f2 * c1 * c2) 1))"

definition t_abduction :: "truth \<Rightarrow> truth \<Rightarrow> truth" where
  "t_abduction = binary_op (\<lambda>f1 f2 c1 c2. (Fin f1, softSquash (f1 * c1 * c2) 1))"

definition t_detachment :: "truth \<Rightarrow> truth \<Rightarrow> truth" where
  "t_detachment = binary_op (\<lambda>f1 f2 c1 c2. (Fin f2, Fin (f1 * c1 * c2)))"

definition t_revision :: "truth \<Rightarrow> truth \<Rightarrow> truth" where
  "t_revision = binary_op (\<lambda>f1 f2 c1 c2.
     let w1 = confidenceToWeight c1; w2 = confidenceToWeight c2; w = w1 + w2;
         newC = weightToConfidence w
     in if js_lt (Fin MAX_CONFIDENCE) newC
        then (js_div (f1 * c1 + f2 * c2) (c1 + c2), Fin MAX_CONFIDENCE)
        else (js_div (f1 * w1 + f2 * w2) w, newC))"

definition t_choice :: "truth \<Rightarrow> truth \<Rightarrow> truth" where
  "t_choice t1 t2 = (if expectation t1 > expectation t2 then t1 else t2)"

definition t_structuralDeduction :: "truth \<Rightarrow> truth" where
  "t_structuralDeduction = unary_op (\<lambda>f c. (Fin (f * f), js_scale (softSquash c 1) c))"

definition t_structuralReduction :: "truth \<Rightarrow> truth" where
  "t_structuralReduction = unary_op (\<lambda>f c. (Fin f, softSquash c WEAKENING_FACTOR))"

definition t_revisionWeak :: "truth \<Rightarrow> truth \<Rightarrow> truth" where
  "t_revisionWeak = binary_op (\<lambda>f1 f2 c1 c2.
     let w1 = confidenceToWeight c1 / WEAKENING_FACTOR; w2 = confidenceToWeight c2 / WEAKENING_FACTOR;
         w = w1 + w2
     in (js_div (f1 * w1 + f2 * w2) w, weightToConfidence w))"

definition t_damp :: "truth \<Rightarrow> real \<Rightarrow> truth" where
  "t_damp t factor = unary_op (\<lambda>f c. (Fin f, Fin (c * factor))) t"

definition t_reinforce :: "truth \<Rightarrow> truth" where
  "t_reinforce = unary_op (\<lambda>f c. (Fin (f * CONFIRM_GAIN), Fin (c + OUTCOME_GAIN)))"

definition t_contradict :: "truth \<Rightarrow> truth" where
  "t_contradict = unary_op (\<lambda>f c. (Fin (f * CONTRADICT_DECAY), Fin (c + OUTCOME_GAIN)))"

definition isStronger :: "truth \<Rightarrow> truth \<Rightarrow> bool" where
  "isStronger t1 t2 = (expectation t1 > expectation t2)"

definition t_weak :: "real \<Rightarrow> real" where
  "t_weak c = weakenConfidence c WEAKENING_FACTOR"

definition isTruthEqual :: "truth \<Rightarrow> truth \<Rightarrow> real \<Rightarrow> bool" where
  "isTruthEqual a b eps = (nearlyEqual (tf a) (tf b) eps \<and> nearlyEqual (tc a) (tc b) eps)"

definition truth_compare :: "truth \<Rightarrow> truth \<Rightarrow> int" where
  "truth_compare t1 t2 =
     (let diff = expectation t1 - expectation t2
      in if \<bar>diff\<bar> < 1 / 10 ^ 9 then 0 else if diff > 0 then 1 else -1)"

datatype independence = Independent | Dependent | UnknownIndependence

text \<open>\<open>steps\<close> runs the operation at least once, as the loop from 1 does.\<close>

definition t_chain :: "(truth \<Rightarrow> truth \<Rightarrow> truth) \<Rightarrow> truth \<Rightarrow> truth \<Rightarrow> nat \<Rightarrow> truth" where
  "t_chain op t1 t2 steps = ((\<lambda>r. op r t2) ^^ (steps - 1)) (op t1 t2)"

definition t_chainWithRevision ::
  "(truth \<Rightarrow> truth \<Rightarrow> truth) \<Rightarrow> truth \<Rightarrow> truth \<Rightarrow> nat \<Rightarrow> independence \<Rightarrow> truth" where
  "t_chainWithRevision op t1 t2 steps ind =
     (let contribution = op t1 t2
      in if ind = UnknownIndependence then contribution
         else ((\<lambda>r. t_revision r contribution) ^^ (steps - 1)) contribution)"

definition t_conversionChain :: "truth \<Rightarrow> nat \<Rightarrow> truth" where
  "t_conversionChain t steps = (t_conversion ^^ steps) t"

section \<open>The domain\<close>

definition truth_inv :: "truth \<Rightarrow> bool" where
  "truth_inv t = (0 \<le> tf t \<and> tf t \<le> 1 \<and> 0 \<le> tc t \<and> tc t \<le> MAX_CONFIDENCE)"

lemma truth_invD:
  assumes "truth_inv t"
  shows "0 \<le> tf t" "tf t \<le> 1" "0 \<le> tc t" "tc t \<le> MAX_CONFIDENCE" "tc t < 1" "tc t \<le> 1"
  using assms by (simp_all add: truth_inv_def MAX_CONFIDENCE_def)

lemma js_clamp_range: "lo \<le> hi \<Longrightarrow> lo \<le> js_clamp x d lo hi \<and> js_clamp x d lo hi \<le> hi"
  by (cases x) (simp_all add: clamp_range)

lemma normalizeTruth_inv [inv_intros, simp]: "truth_inv (normalizeTruth f c)"
  using js_clamp_range [of 0 1 f "1/2"] js_clamp_range [of 0 MAX_CONFIDENCE c "9/10"]
  by (simp add: truth_inv_def normalizeTruth_def MAX_CONFIDENCE_def)

lemma binary_op_inv [inv_intros, simp]: "truth_inv (binary_op fn t1 t2)"
  by (simp add: binary_op_def split: prod.split)

lemma unary_op_inv [inv_intros, simp]: "truth_inv (unary_op fn t)"
  by (simp add: unary_op_def split: prod.split)

lemma normalize_id:
  "0 \<le> f \<Longrightarrow> f \<le> 1 \<Longrightarrow> 0 \<le> c \<Longrightarrow> c \<le> MAX_CONFIDENCE \<Longrightarrow>
   normalizeTruth (Fin f) (Fin c) = \<lparr>tf = f, tc = c\<rparr>"
  by (simp add: normalizeTruth_def)

lemma createTruth_iff: "createTruth f c = Some t \<longleftrightarrow> c \<le> MAX_CONFIDENCE \<and> t = normalizeTruth (Fin f) (Fin c)"
  by (auto simp: createTruth_def)

lemma expectation_range: "truth_inv t \<Longrightarrow> 0 \<le> expectation t \<and> expectation t \<le> 1"
proof -
  assume t: "truth_inv t"
  note d = truth_invD [OF t]
  have "\<bar>tc t * (tf t - 1/2)\<bar> \<le> 1 * (1/2)"
    unfolding abs_mult using d by (intro mult_mono) (auto simp: abs_if)
  then show ?thesis by (simp add: expectation_def) linarith
qed

subsection \<open>Weights\<close>

lemma c2w_nonneg: "0 \<le> c \<Longrightarrow> c < 1 \<Longrightarrow> 0 \<le> confidenceToWeight c"
  by (simp add: confidenceToWeight_def)

lemma w2c_c2w: "0 \<le> c \<Longrightarrow> c < 1 \<Longrightarrow> weightToConfidence (confidenceToWeight c) = Fin c"
  by (simp add: weightToConfidence_def confidenceToWeight_def field_simps)

lemma c2w_w2c: "0 \<le> w \<Longrightarrow> confidenceToWeight (w / (w + 1)) = w"
  by (simp add: confidenceToWeight_def field_simps)

lemma c2w_zero [simp]: "0 \<le> c \<Longrightarrow> c < 1 \<Longrightarrow> confidenceToWeight c = 0 \<longleftrightarrow> c = 0"
  by (simp add: confidenceToWeight_def)

lemma c2w_mono: "0 \<le> a \<Longrightarrow> a \<le> b \<Longrightarrow> b < 1 \<Longrightarrow> confidenceToWeight a \<le> confidenceToWeight b"
  by (simp add: confidenceToWeight_def frac_le)

lemma squash_le_max: "0 \<le> w \<Longrightarrow> w / (w + 1) \<le> MAX_CONFIDENCE \<longleftrightarrow> w \<le> 999"
  by (simp add: MAX_CONFIDENCE_def divide_le_eq)

text \<open>confidence and weight are two spellings of one quantity: the maps are inverse to
  each other on every confidence below certainty and every non-negative weight.\<close>

theorem weight_roundtrip:
  "(0 \<le> c \<and> c < 1 \<longrightarrow> weightToConfidence (confidenceToWeight c) = Fin c)
   \<and> (0 \<le> w \<longrightarrow> (\<exists>c'. weightToConfidence w = Fin c' \<and> confidenceToWeight c' = w))"
  using w2c_c2w [of c] c2w_w2c [of w] by (simp add: weightToConfidence_def)

lemma weight_roundtrip_witness:
  "weightToConfidence (confidenceToWeight (9/10)) = Fin (9/10)
   \<and> (\<exists>c'. weightToConfidence 3 = Fin c' \<and> confidenceToWeight c' = 3)"
  using weight_roundtrip [of "9/10" 3] by simp

section \<open>Revision\<close>

text \<open>What revision computes below saturation, in weights.\<close>

definition weight :: "truth \<Rightarrow> real" where
  "weight t = confidenceToWeight (tc t)"

lemma weight_nonneg: "truth_inv t \<Longrightarrow> 0 \<le> weight t"
  using truth_invD [of t] by (simp add: weight_def c2w_nonneg)

lemma weight_zero: "truth_inv t \<Longrightarrow> weight t = 0 \<longleftrightarrow> tc t = 0"
  using truth_invD [of t] by (simp add: weight_def)

lemma weighted_mean_range:
  fixes a b u v :: real
  assumes "0 \<le> u" "0 \<le> v" "0 < u + v"
  shows "min a b \<le> (a * u + b * v) / (u + v)" "(a * u + b * v) / (u + v) \<le> max a b"
proof -
  have "min a b * u \<le> a * u" "min a b * v \<le> b * v" "a * u \<le> max a b * u" "b * v \<le> max a b * v"
    using assms by (simp_all add: mult_right_mono)
  then have "min a b * (u + v) \<le> a * u + b * v" "a * u + b * v \<le> max a b * (u + v)"
    unfolding distrib_left by linarith+
  then show "min a b \<le> (a * u + b * v) / (u + v)" "(a * u + b * v) / (u + v) \<le> max a b"
    using assms(3) by (simp_all add: pos_le_divide_eq pos_divide_le_eq)
qed

lemma revision_unsaturated:
  assumes t: "truth_inv t1" "truth_inv t2" and w: "0 < weight t1 + weight t2" "weight t1 + weight t2 \<le> 999"
  shows "t_revision t1 t2 =
    \<lparr>tf = (tf t1 * weight t1 + tf t2 * weight t2) / (weight t1 + weight t2),
     tc = (weight t1 + weight t2) / (weight t1 + weight t2 + 1)\<rparr>"
proof -
  let ?w = "weight t1 + weight t2"
  have le: "?w / (?w + 1) \<le> MAX_CONFIDENCE" using w squash_le_max [of ?w] by simp
  have f: "0 \<le> (tf t1 * weight t1 + tf t2 * weight t2) / ?w" "(tf t1 * weight t1 + tf t2 * weight t2) / ?w \<le> 1"
    using weighted_mean_range [OF weight_nonneg [OF t(1)] weight_nonneg [OF t(2)] w(1), of "tf t1" "tf t2"]
      truth_invD [OF t(1)] truth_invD [OF t(2)] by (auto simp: min_def max_def split: if_splits)
  show ?thesis
    using w le f normalize_id [OF f, of "?w / (?w + 1)"]
    by (simp add: t_revision_def binary_op_def Let_def weightToConfidence_def weight_def [symmetric])
qed

lemma revision_weight:
  assumes "truth_inv t1" "truth_inv t2" "0 < weight t1 + weight t2" "weight t1 + weight t2 \<le> 999"
  shows "weight (t_revision t1 t2) = weight t1 + weight t2"
  using c2w_w2c [of "weight t1 + weight t2"] assms by (simp add: revision_unsaturated weight_def)

lemma revision_saturated:
  assumes t: "truth_inv t1" "truth_inv t2" and w: "999 < weight t1 + weight t2"
  shows "t_revision t1 t2 =
    \<lparr>tf = (tf t1 * tc t1 + tf t2 * tc t2) / (tc t1 + tc t2), tc = MAX_CONFIDENCE\<rparr>"
proof -
  let ?w = "weight t1 + weight t2"
  have gt: "MAX_CONFIDENCE < ?w / (?w + 1)" using w squash_le_max [of ?w] by simp
  have "tc t1 \<noteq> 0 \<or> tc t2 \<noteq> 0"
    using w weight_zero [OF t(1)] weight_zero [OF t(2)] by (metis add_0 not_numeral_less_zero)
  then have pos: "0 < tc t1 + tc t2" using truth_invD [OF t(1)] truth_invD [OF t(2)] by linarith
  have f: "0 \<le> (tf t1 * tc t1 + tf t2 * tc t2) / (tc t1 + tc t2)"
    "(tf t1 * tc t1 + tf t2 * tc t2) / (tc t1 + tc t2) \<le> 1"
    using weighted_mean_range [OF _ _ pos, of "tf t1" "tf t2"]
      truth_invD [OF t(1)] truth_invD [OF t(2)] by (auto simp: min_def max_def split: if_splits)
  have m: "0 \<le> MAX_CONFIDENCE" by (simp add: MAX_CONFIDENCE_def)
  show ?thesis
    using w gt f pos normalize_id [OF f m order_refl]
    by (simp add: t_revision_def binary_op_def Let_def weightToConfidence_def weight_def [symmetric])
qed

lemma revision_no_evidence:
  "tc t1 = 0 \<Longrightarrow> tc t2 = 0 \<Longrightarrow> t_revision t1 t2 = \<lparr>tf = 1/2, tc = 0\<rparr>"
  by (simp add: t_revision_def binary_op_def Let_def confidenceToWeight_def weightToConfidence_def
      normalizeTruth_def js_div_def MAX_CONFIDENCE_def clamp_def)

lemma evidence_pos:
  assumes "truth_inv t1" "truth_inv t2" "0 < weight t1 + weight t2"
  shows "0 < tc t1 + tc t2"
proof (rule ccontr)
  assume "\<not> 0 < tc t1 + tc t2"
  then have "tc t1 = 0" "tc t2 = 0" using truth_invD(3) [OF assms(1)] truth_invD(3) [OF assms(2)] by linarith+
  with assms(3) show False by (simp add: weight_def confidenceToWeight_def)
qed

text \<open>C26: revision pools evidence. Below saturation the weight of the merged truth is the
  sum of the premises' weights, its confidence is at least each premise's and its frequency
  lies between theirs; at saturation the confidence is the ceiling; and with no evidence on
  either side the result is the unopinionated frequency with confidence zero.\<close>

theorem revision_pools_evidence:
  assumes "truth_inv t1" "truth_inv t2"
  shows "(0 < tc t1 + tc t2 \<longrightarrow> min (tf t1) (tf t2) \<le> tf (t_revision t1 t2)
            \<and> tf (t_revision t1 t2) \<le> max (tf t1) (tf t2))
    \<and> (weight t1 + weight t2 \<le> 999 \<longrightarrow> weight (t_revision t1 t2) = weight t1 + weight t2)
    \<and> (999 < weight t1 + weight t2 \<longrightarrow> tc (t_revision t1 t2) = MAX_CONFIDENCE)
    \<and> max (tc t1) (tc t2) \<le> tc (t_revision t1 t2)
    \<and> (tc t1 + tc t2 = 0 \<longrightarrow> t_revision t1 t2 = \<lparr>tf = 1/2, tc = 0\<rparr>)"
proof -
  note d1 = truth_invD [OF assms(1)] and d2 = truth_invD [OF assms(2)]
  have w: "0 \<le> weight t1" "0 \<le> weight t2" using assms by (simp_all add: weight_nonneg)
  have sq: "tc t1 = weight t1 / (weight t1 + 1)" "tc t2 = weight t2 / (weight t2 + 1)"
    using w2c_c2w [OF d1(3,5)] w2c_c2w [OF d2(3,5)] w by (simp_all add: weightToConfidence_def weight_def)
  consider (none) "weight t1 + weight t2 = 0" | (some) "0 < weight t1 + weight t2" "weight t1 + weight t2 \<le> 999"
    | (sat) "999 < weight t1 + weight t2" using w by linarith
  then show ?thesis
  proof cases
    case none
    then have "weight t1 = 0" "weight t2 = 0" using w by linarith+
    then have z: "tc t1 = 0" "tc t2 = 0" using weight_zero assms by auto
    with none revision_no_evidence [OF z] show ?thesis by (simp add: weight_def confidenceToWeight_def)
  next
    case some
    have pos: "0 < tc t1 + tc t2" by (rule evidence_pos [OF assms some(1)])
    have r: "t_revision t1 t2 = \<lparr>tf = (tf t1 * weight t1 + tf t2 * weight t2) / (weight t1 + weight t2),
        tc = (weight t1 + weight t2) / (weight t1 + weight t2 + 1)\<rparr>"
      by (rule revision_unsaturated [OF assms some])
    have c: "tc t1 \<le> tc (t_revision t1 t2)" "tc t2 \<le> tc (t_revision t1 t2)"
      unfolding r using squash_mono [of "weight t1" "weight t1 + weight t2" 1]
        squash_mono [of "weight t2" "weight t1 + weight t2" 1] w by (simp_all add: sq [symmetric])
    have f: "min (tf t1) (tf t2) \<le> tf (t_revision t1 t2)" "tf (t_revision t1 t2) \<le> max (tf t1) (tf t2)"
      unfolding r using weighted_mean_range [OF w some(1), of "tf t1" "tf t2"] by (simp_all only: truth.simps)
    show ?thesis using revision_weight [OF assms some] pos c f some(2) by auto
  next
    case sat
    have pos: "0 < tc t1 + tc t2" using sat by (intro evidence_pos [OF assms]) linarith
    have r: "t_revision t1 t2 = \<lparr>tf = (tf t1 * tc t1 + tf t2 * tc t2) / (tc t1 + tc t2), tc = MAX_CONFIDENCE\<rparr>"
      by (rule revision_saturated [OF assms sat])
    have f: "min (tf t1) (tf t2) \<le> tf (t_revision t1 t2)" "tf (t_revision t1 t2) \<le> max (tf t1) (tf t2)"
      unfolding r using weighted_mean_range [OF d1(3) d2(3) pos, of "tf t1" "tf t2"]
      by (simp_all only: truth.simps)
    have c: "tc (t_revision t1 t2) = MAX_CONFIDENCE" unfolding r by simp
    show ?thesis using sat f pos d1(4) d2(4) unfolding c by auto
  qed
qed

lemma revision_pools_evidence_witness:
  "tc (t_revision \<lparr>tf = 1, tc = 1/2\<rparr> \<lparr>tf = 0, tc = 1/2\<rparr>) \<ge> 1/2
   \<and> tc (t_revision \<lparr>tf = 1, tc = MAX_CONFIDENCE\<rparr> \<lparr>tf = 0, tc = 9/10\<rparr>) = MAX_CONFIDENCE"
  using revision_pools_evidence [of "\<lparr>tf = 1, tc = 1/2\<rparr>" "\<lparr>tf = 0, tc = 1/2\<rparr>"]
    revision_pools_evidence [of "\<lparr>tf = 1, tc = MAX_CONFIDENCE\<rparr>" "\<lparr>tf = 0, tc = 9/10\<rparr>"]
  by (simp add: truth_inv_def MAX_CONFIDENCE_def weight_def confidenceToWeight_def)

lemma t_revision_inv [inv_intros, simp]: "truth_inv (t_revision a b)"
  by (simp add: t_revision_def)

lemma revision_moment:
  assumes t: "truth_inv a" "truth_inv b" and w: "weight a + weight b \<le> 999"
  shows "weight (t_revision a b) = weight a + weight b"
    "tf (t_revision a b) * weight (t_revision a b) = tf a * weight a + tf b * weight b"
proof -
  show wt: "weight (t_revision a b) = weight a + weight b"
  proof (cases "0 < weight a + weight b")
    case True
    then show ?thesis by (rule revision_weight [OF t _ w])
  next
    case False
    then have z: "weight a = 0" "weight b = 0" using weight_nonneg [OF t(1)] weight_nonneg [OF t(2)] by linarith+
    then have "tc a = 0" "tc b = 0" using weight_zero t by auto
    then show ?thesis by (simp add: revision_no_evidence z) (simp add: weight_def confidenceToWeight_def)
  qed
  show "tf (t_revision a b) * weight (t_revision a b) = tf a * weight a + tf b * weight b"
  proof (cases "weight a + weight b = 0")
    case True
    then have "weight a = 0" "weight b = 0" using weight_nonneg [OF t(1)] weight_nonneg [OF t(2)] by linarith+
    then show ?thesis using wt by simp
  next
    case False
    then have "0 < weight a + weight b" using weight_nonneg [OF t(1)] weight_nonneg [OF t(2)] by linarith
    then show ?thesis unfolding wt using revision_unsaturated [OF t _ w] by simp
  qed
qed

lemma truth_eqI:
  assumes "truth_inv a" "truth_inv b" "weight a = weight b" "tf a = tf b"
  shows "a = b"
proof -
  have "Fin (tc a) = weightToConfidence (weight a)" "Fin (tc b) = weightToConfidence (weight b)"
    using w2c_c2w [OF truth_invD(3,5) [OF assms(1)]] w2c_c2w [OF truth_invD(3,5) [OF assms(2)]]
    by (simp_all only: weight_def)
  then have "tc a = tc b" using assms(3) by (metis jsnum.inject)
  with assms(4) show ?thesis by simp
qed

text \<open>merging evidence does not depend on the order it arrives in: revision is
  commutative, and associative as long as the pooled evidence stays below saturation.\<close>

theorem revision_order:
  assumes "truth_inv a" "truth_inv b" "truth_inv c"
  shows "t_revision a b = t_revision b a
    \<and> (weight a + weight b + weight c \<le> 999 \<longrightarrow>
         t_revision (t_revision a b) c = t_revision a (t_revision b c))"
proof (intro conjI impI)
  show "t_revision a b = t_revision b a"
    by (simp add: t_revision_def binary_op_def Let_def add.commute)
  assume le: "weight a + weight b + weight c \<le> 999"
  have w: "0 \<le> weight a" "0 \<le> weight b" "0 \<le> weight c" using assms by (simp_all add: weight_nonneg)
  have ab: "weight a + weight b \<le> 999" and bc: "weight b + weight c \<le> 999" using le w by linarith+
  note mab = revision_moment [OF assms(1,2) ab] and mbc = revision_moment [OF assms(2,3) bc]
  have l: "weight (t_revision a b) + weight c \<le> 999" and r: "weight a + weight (t_revision b c) \<le> 999"
    using mab mbc le by simp_all
  note ml = revision_moment [OF t_revision_inv assms(3) l] and mr = revision_moment [OF assms(1) t_revision_inv r]
  show "t_revision (t_revision a b) c = t_revision a (t_revision b c)"
  proof (cases "weight a + weight b + weight c = 0")
    case True
    then have z: "weight a = 0" "weight b = 0" "weight c = 0" using w by linarith+
    then have "tc a = 0" "tc b = 0" "tc c = 0" using weight_zero assms by auto
    then show ?thesis by (simp add: revision_no_evidence)
  next
    case False
    have "tf (t_revision (t_revision a b) c) * (weight a + weight b + weight c)
        = tf (t_revision a (t_revision b c)) * (weight a + weight b + weight c)"
      using ml mr mab mbc by (simp add: algebra_simps)
    then have "tf (t_revision (t_revision a b) c) = tf (t_revision a (t_revision b c))"
      using False by simp
    then show ?thesis using ml(1) mr(1) mab(1) mbc(1) by (intro truth_eqI) simp_all
  qed
qed

lemma revision_order_witness:
  "t_revision (t_revision \<lparr>tf = 1, tc = 1/2\<rparr> \<lparr>tf = 0, tc = 1/2\<rparr>) \<lparr>tf = 1/2, tc = 9/10\<rparr>
   = t_revision \<lparr>tf = 1, tc = 1/2\<rparr> (t_revision \<lparr>tf = 0, tc = 1/2\<rparr> \<lparr>tf = 1/2, tc = 9/10\<rparr>)"
proof -
  have i: "truth_inv \<lparr>tf = 1, tc = 1/2\<rparr>" "truth_inv \<lparr>tf = 0, tc = 1/2\<rparr>" "truth_inv \<lparr>tf = 1/2, tc = 9/10\<rparr>"
    by (simp_all add: truth_inv_def MAX_CONFIDENCE_def)
  have w: "weight \<lparr>tf = 1, tc = 1/2\<rparr> + weight \<lparr>tf = 0, tc = 1/2\<rparr> + weight \<lparr>tf = 1/2, tc = 9/10\<rparr> \<le> 999"
    by (simp add: weight_def confidenceToWeight_def)
  show ?thesis using conjunct2 [OF revision_order [OF i]] w by (rule mp)
qed

section \<open>Inference never adds confidence\<close>

lemma js_scale_Fin: "js_scale (Fin a) k = Fin (a * k)"
  by simp

lemma mult_le_left: "0 \<le> a \<Longrightarrow> a \<le> 1 \<Longrightarrow> 0 \<le> b \<Longrightarrow> b \<le> 1 \<Longrightarrow> 0 \<le> a * b \<and> a * b \<le> a \<and> a * b \<le> (b :: real)"
  by (simp add: mult_left_le mult_left_le_one_le)

lemma squash_le: "0 \<le> x \<Longrightarrow> 1 \<le> k \<Longrightarrow> x / (x + k) \<le> (x :: real)"
  by (simp add: divide_le_eq mult_le_cancel_left1)

lemma normalize_c_le:
  "0 \<le> c \<Longrightarrow> tc (normalizeTruth f (Fin c)) \<le> c"
  by (simp add: normalizeTruth_def clamp_def MAX_CONFIDENCE_def)

text \<open>The binary operations an inference rule dispatches through, revision aside.\<close>

definition inference_ops :: "(truth \<Rightarrow> truth \<Rightarrow> truth) list" where
  "inference_ops = [t_deduction, t_induction, t_abduction, t_comparison, t_analogy, t_resemblance,
     t_contraposition, t_intersection, t_union, t_subtract, t_diff, t_exemplification, t_sameness, t_detachment]"

lemma inference_inv [inv_intros]: "op \<in> set inference_ops \<Longrightarrow> truth_inv (op t1 t2)"
  unfolding inference_ops_def set_simps
  by (elim insertE emptyE; simp add: t_deduction_def t_induction_def t_abduction_def t_comparison_def
      t_analogy_def t_resemblance_def t_contraposition_def t_intersection_def t_union_def t_subtract_def
      t_diff_def t_exemplification_def t_sameness_def t_detachment_def)

lemma inference_bound:
  assumes "truth_inv t1" "truth_inv t2"
    and "op \<in> set inference_ops"
  shows "tc (op t1 t2) \<le> min (tc t1) (tc t2)"
proof -
  note d1 = truth_invD [OF assms(1)] and d2 = truth_invD [OF assms(2)]
  let ?p = "tc t1 * tc t2"
  have p: "0 \<le> ?p" "?p \<le> tc t1" "?p \<le> tc t2" "?p \<le> 1"
    using mult_le_left [OF d1(3,6) d2(3,6)] d1(6) by auto
  have le: "tc (normalizeTruth f (Fin c)) \<le> min (tc t1) (tc t2)" if "0 \<le> c \<and> c \<le> ?p" for f c
    using normalize_c_le [OF conjunct1 [OF that], of f] that p by linarith
  have pf: "0 \<le> f * ?p \<and> f * ?p \<le> ?p" if "0 \<le> f" "f \<le> 1" for f
    using that p by (simp add: mult_left_le_one_le)
  have plain: "tc (normalizeTruth g (Fin (tc t1 * tc t2))) \<le> min (tc t1) (tc t2)" for g
    using p(1) le [of ?p] by (simp add: normalizeTruth_def)
  have sq: "tc (normalizeTruth (Fin g) (softSquash (f * tc t1 * tc t2) 1)) \<le> min (tc t1) (tc t2)"
    if "0 \<le> f" "f \<le> 1" for f g
  proof -
    have "softSquash (f * tc t1 * tc t2) 1 = Fin (f * ?p / (f * ?p + 1))"
      using pf [OF that] by (simp add: mult.assoc)
    moreover have "0 \<le> f * ?p / (f * ?p + 1) \<and> f * ?p / (f * ?p + 1) \<le> ?p"
      using pf [OF that] squash_le [of "f * ?p" 1] by simp
    ultimately show ?thesis by (simp only: le)
  qed
  have det: "tc (normalizeTruth (Fin g) (Fin (tf t1 * tc t1 * tc t2))) \<le> min (tc t1) (tc t2)" for g
    using pf [OF d1(1,2)] by (intro le) (simp add: mult.assoc)
  have ana: "tc (normalizeTruth (Fin g) (Fin (tc t1 * tc t2 * tf t2))) \<le> min (tc t1) (tc t2)" for g
    using pf [OF d2(1,2)] by (intro le) (simp add: mult.commute)
  have ex: "tc (normalizeTruth (Fin g) (js_scale (js_scale (js_scale (js_scale (softSquash (tc t1) 1) (tc t1))
      (tc t2)) (tf t1)) (tf t2))) \<le> min (tc t1) (tc t2)" for g
  proof -
    have q: "0 \<le> tc t1 / (tc t1 + 1)" "tc t1 / (tc t1 + 1) \<le> 1"
      using d1 squash_le [of "tc t1" 1] by simp_all
    have g: "0 \<le> tf t1 * tf t2" "tf t1 * tf t2 \<le> 1" using d1 d2 by (simp_all add: mult_le_one)
    have eq: "tc t1 / (tc t1 + 1) * tc t1 * tc t2 * tf t1 * tf t2
        = tc t1 / (tc t1 + 1) * (tf t1 * tf t2) * ?p" by (simp only: ac_simps)
    have ss: "softSquash (tc t1) 1 = Fin (tc t1 / (tc t1 + 1))" using d1 by simp
    have "0 \<le> tc t1 / (tc t1 + 1) * (tf t1 * tf t2)" "tc t1 / (tc t1 + 1) * (tf t1 * tf t2) \<le> 1"
      using mult_nonneg_nonneg [OF q(1) g(1)] mult_le_one [OF q(2) g] by simp_all
    from pf [OF this] show ?thesis unfolding ss js_scale.simps eq by (rule le)
  qed
  from assms(3) show ?thesis
    unfolding inference_ops_def set_simps
    by (elim insertE emptyE; simp only: t_deduction_def t_induction_def t_abduction_def t_comparison_def
        t_analogy_def t_resemblance_def t_contraposition_def t_intersection_def t_union_def t_subtract_def
        t_diff_def t_exemplification_def t_sameness_def t_detachment_def binary_op_def Let_def prod.case
        plain sq [OF d1(1,2)] sq [OF d2(1,2)] det ana ex)
qed

text \<open>no inference step manufactures confidence. Every binary operation except
  revision answers with a confidence no greater than either premise's, whatever their
  frequencies.\<close>

theorem inference_never_adds_confidence:
  assumes "truth_inv t1" "truth_inv t2"
    and "op \<in> set inference_ops"
  shows "tc (op t1 t2) \<le> min (tc t1) (tc t2)"
  using assms by (rule inference_bound)

lemma inference_never_adds_confidence_witness:
  "tc (t_induction \<lparr>tf = 1, tc = 9/10\<rparr> \<lparr>tf = 1/2, tc = 4/5\<rparr>) \<le> 4/5"
  using inference_never_adds_confidence [of "\<lparr>tf = 1, tc = 9/10\<rparr>" "\<lparr>tf = 1/2, tc = 4/5\<rparr>" t_induction]
  by (simp add: truth_inv_def MAX_CONFIDENCE_def inference_ops_def)

end
