(* ===== verification/Stamps.thy ===== *)
theory Stamps
  imports Collections "HOL-Library.Word"
begin

text \<open>
  Evidential stamps: \<open>nar/src/terms/impls/Stamp.ts\<close> and the \<open>noStampOverlap\<close>
  filter of \<open>nar/src/strategies/premise/primitives.ts\<close>. The identifier counter is the
  32-bit cell of the code and is passed explicitly; the clock is an argument. The
  compare-exchange loop is its uncontended run, where the first exchange succeeds.
  \<open>Number(s)\<close> is an argument of the definitions that parse an identifier: \<open>Some n\<close>
  where it is an integer and \<open>None\<close> where it is not.
\<close>

section \<open>Identifiers\<close>

function show_nat :: "nat \<Rightarrow> string" where
  "show_nat n = (if n < 10 then [char_of (48 + n)] else show_nat (n div 10) @ [char_of (48 + n mod 10)])"
  by auto
termination by (relation "measure id") auto

declare show_nat.simps [simp del]

definition show_int :: "int \<Rightarrow> string" where
  "show_int z = (if z < 0 then CHR ''-'' # show_nat (nat (- z)) else show_nat (nat z))"

definition nextStampId :: "nat \<Rightarrow> 32 word \<Rightarrow> string \<times> 32 word" where
  "nextStampId threadId counter =
     (show_nat threadId @ '':'' @ show_int (sint counter), counter + 1)"

text \<open>The text after the last colon, \<open>None\<close> where there is none.\<close>

fun after_last_colon :: "string \<Rightarrow> string option" where
  "after_last_colon [] = None"
| "after_last_colon (x # xs) =
     (case after_last_colon xs of
        Some r \<Rightarrow> Some r
      | None \<Rightarrow> if x = CHR '':'' then Some xs else None)"

definition observeStampId :: "(string \<Rightarrow> int option) \<Rightarrow> string \<Rightarrow> 32 word \<Rightarrow> 32 word" where
  "observeStampId number i counter =
     (case after_last_colon i of
        None \<Rightarrow> counter
      | Some rest \<Rightarrow>
          (case number rest of
             None \<Rightarrow> counter
           | Some n \<Rightarrow> if n < 0 then counter
               else if sint counter \<le> n then word_of_int (n + 1) else counter))"

section \<open>Stamps\<close>

datatype stampSource = INPUT | DERIVED | CONSTITUTION | LM | EXTERNAL_MCP

record stamp =
  stampId :: string
  creationTime :: int
  source :: stampSource
  derivations :: "string list"

definition DEPTH_MAX :: real where "DEPTH_MAX = 10"

definition maxDepthOf :: "stamp list \<Rightarrow> jsnum" where
  "maxDepthOf stamps = maxScore stamps (\<lambda>s. real (length (derivations s))) 0"

definition serializeStamp :: "stamp \<Rightarrow> stamp" where
  "serializeStamp s = \<lparr>stampId = stampId s, creationTime = creationTime s, source = source s,
     derivations = derivations s\<rparr>"

definition deserializeStamp :: "(string \<Rightarrow> int option) \<Rightarrow> stamp \<Rightarrow> 32 word \<Rightarrow> stamp \<times> 32 word" where
  "deserializeStamp number data counter =
     (let c1 = observeStampId number (stampId data) counter;
          c2 = fold (observeStampId number) (derivations data) c1
      in (\<lparr>stampId = stampId data, creationTime = creationTime data, source = source data,
           derivations = derivations data\<rparr>, c2))"

definition mint :: "int \<Rightarrow> string \<Rightarrow> stampSource \<Rightarrow> string list \<Rightarrow> stamp" where
  "mint now i src ds = \<lparr>stampId = i, creationTime = now, source = src, derivations = ds\<rparr>"

definition createInput :: "int \<Rightarrow> nat \<Rightarrow> string option \<Rightarrow> 32 word \<Rightarrow> stamp \<times> 32 word" where
  "createInput now threadId i counter =
     (case i of
        Some i \<Rightarrow> (mint now i INPUT [], counter)
      | None \<Rightarrow> (let (n, c) = nextStampId threadId counter in (mint now n INPUT [], c)))"

definition createWithSource :: "int \<Rightarrow> nat \<Rightarrow> stampSource \<Rightarrow> 32 word \<Rightarrow> stamp \<times> 32 word" where
  "createWithSource now threadId src counter =
     (let (n, c) = nextStampId threadId counter in (mint now n src [], c))"

definition at_least :: "jsnum \<Rightarrow> real \<Rightarrow> bool" where
  "at_least x k = (js_lt (Fin k) x \<or> x = Fin k)"

definition derive_stamp ::
  "int \<Rightarrow> nat \<Rightarrow> stamp list \<Rightarrow> stampSource \<Rightarrow> 32 word \<Rightarrow> (stamp \<times> 32 word) option" where
  "derive_stamp now threadId parents src counter =
     (if at_least (maxDepthOf parents) DEPTH_MAX then None
      else let ds = unique (concat (map (\<lambda>p. derivations p @ [stampId p]) parents));
               (n, c) = nextStampId threadId counter
           in Some (mint now n src ds, c))"

definition stamp_getDepth :: "stamp \<Rightarrow> nat" where
  "stamp_getDepth s = length (derivations s)"

definition stamp_lineage :: "stamp option \<Rightarrow> string list" where
  "stamp_lineage s = (case s of None \<Rightarrow> [] | Some s \<Rightarrow> derivations s @ [stampId s])"

definition canDerive :: "stamp list \<Rightarrow> bool" where
  "canDerive stamps = js_lt (maxDepthOf stamps) (Fin DEPTH_MAX)"

definition overlaps :: "stamp \<Rightarrow> stamp \<Rightarrow> bool" where
  "overlaps a b =
     (stampId a = stampId b \<or>
      (let bIds = set_add (stampId b) (unique (derivations b))
       in \<exists>i \<in> set (derivations a). i \<in> set bIds))"

text \<open>The premise filter keeps a concept unless its top belief's stamp overlaps the task's.\<close>

definition noStampOverlap :: "stamp option \<Rightarrow> stamp option \<Rightarrow> bool" where
  "noStampOverlap taskStamp beliefStamp =
     (case beliefStamp of None \<Rightarrow> True
      | Some b \<Rightarrow> (case taskStamp of None \<Rightarrow> True | Some t \<Rightarrow> \<not> overlaps b t))"

section \<open>Minted identifiers\<close>

lemma show_nat_chars: "c \<in> set (show_nat n) \<Longrightarrow> 48 \<le> (of_char c :: nat) \<and> (of_char c :: nat) \<le> 57"
proof (induction n rule: show_nat.induct)
  case (1 n)
  then show ?case by (subst (asm) (2) show_nat.simps) (auto split: if_splits)
qed

lemma show_nat_no_colon: "CHR '':'' \<notin> set (show_nat n)"
  using show_nat_chars [of "CHR '':''" n] by auto

text \<open>A reading of digit strings, the part of \<open>Number\<close> minted identifiers need.\<close>

definition read_nat :: "string \<Rightarrow> nat" where
  "read_nat = foldl (\<lambda>a c. 10 * a + (of_char c - 48)) 0"

lemma read_show_nat [simp]: "read_nat (show_nat n) = n"
proof (induction n rule: show_nat.induct)
  case (1 n)
  show ?case
  proof (cases "n < 10")
    case True
    then show ?thesis by (subst show_nat.simps) (simp add: read_nat_def)
  next
    case False
    have "read_nat (show_nat (n div 10) @ [char_of (48 + n mod 10)]) = 10 * (n div 10) + n mod 10"
      using 1 [OF False] by (simp add: read_nat_def)
    then show ?thesis using False by (subst show_nat.simps) simp
  qed
qed

lemma show_nat_inj [simp]: "show_nat a = show_nat b \<longleftrightarrow> a = b"
  by (metis read_show_nat)

lemma after_last_colon_none: "after_last_colon xs = None \<longleftrightarrow> CHR '':'' \<notin> set xs"
  by (induction xs) (auto split: option.splits)

lemma after_last_colon_app:
  "CHR '':'' \<notin> set r \<Longrightarrow> after_last_colon (p @ CHR '':'' # r) = Some r"
  by (induction p) (simp_all add: iffD2 [OF after_last_colon_none])

definition minted :: "nat \<Rightarrow> int \<Rightarrow> string" where
  "minted threadId k = show_nat threadId @ '':'' @ show_int k"

lemma minted_after: "0 \<le> k \<Longrightarrow> after_last_colon (minted t k) = Some (show_nat (nat k))"
  by (simp add: minted_def show_int_def after_last_colon_app show_nat_no_colon)

lemma minted_inj: "0 \<le> k \<Longrightarrow> 0 \<le> l \<Longrightarrow> minted t k = minted t l \<longleftrightarrow> k = l"
  by (auto simp: minted_def show_int_def)

definition number_reads_digits :: "(string \<Rightarrow> int option) \<Rightarrow> bool" where
  "number_reads_digits number = (\<forall>n. number (show_nat n) = Some (int n))"

definition idNumber :: "(string \<Rightarrow> int option) \<Rightarrow> string \<Rightarrow> int option" where
  "idNumber number i = (case after_last_colon i of None \<Rightarrow> None | Some r \<Rightarrow> number r)"

lemma observe_idNumber:
  "observeStampId number i c =
     (case idNumber number i of None \<Rightarrow> c
      | Some n \<Rightarrow> if n < 0 then c else if sint c \<le> n then word_of_int (n + 1) else c)"
  by (simp add: observeStampId_def idNumber_def split: option.split)

lemma idNumber_minted:
  "number_reads_digits number \<Longrightarrow> 0 \<le> k \<Longrightarrow> idNumber number (minted t k) = Some k"
  by (simp add: idNumber_def minted_after number_reads_digits_def)

lemma sint_word_of_int: "- (2 ^ 31) \<le> k \<Longrightarrow> k < 2 ^ 31 \<Longrightarrow> sint (word_of_int k :: 32 word) = k"
  by (simp add: signed_of_int signed_take_bit_int_eq_self)

lemma observe_sint:
  assumes "0 \<le> sint c" "sint c \<le> B" "B < 2 ^ 31" "\<forall>n. idNumber number i = Some n \<longrightarrow> n < B"
  shows "sint c \<le> sint (observeStampId number i c) \<and> sint (observeStampId number i c) \<le> B
    \<and> (\<forall>n. idNumber number i = Some n \<longrightarrow> n < sint (observeStampId number i c))"
  using assms by (auto simp: observe_idNumber sint_word_of_int simp del: of_int_add split: option.split)

lemma observe_all_sint:
  assumes "0 \<le> sint c" "sint c \<le> B" "B < 2 ^ 31" "\<forall>i \<in> set ids. \<forall>n. idNumber number i = Some n \<longrightarrow> n < B"
  shows "sint c \<le> sint (fold (observeStampId number) ids c)
    \<and> sint (fold (observeStampId number) ids c) \<le> B
    \<and> (\<forall>i \<in> set ids. \<forall>n. idNumber number i = Some n \<longrightarrow> n < sint (fold (observeStampId number) ids c))"
  using assms
proof (induction ids arbitrary: c)
  case (Cons i ids)
  let ?c = "observeStampId number i c"
  have i: "sint c \<le> sint ?c \<and> sint ?c \<le> B \<and> (\<forall>n. idNumber number i = Some n \<longrightarrow> n < sint ?c)"
    using Cons.prems by (intro observe_sint) auto
  have "sint ?c \<le> sint (fold (observeStampId number) ids ?c)
    \<and> sint (fold (observeStampId number) ids ?c) \<le> B
    \<and> (\<forall>i \<in> set ids. \<forall>n. idNumber number i = Some n \<longrightarrow> n < sint (fold (observeStampId number) ids ?c))"
    using Cons.prems i by (intro Cons.IH) auto
  with i show ?case by fastforce
qed simp

text \<open>\<open>k\<close> identifiers minted in a row.\<close>

fun mint_many :: "nat \<Rightarrow> nat \<Rightarrow> 32 word \<Rightarrow> string list" where
  "mint_many t 0 c = []"
| "mint_many t (Suc k) c = (let (i, c') = nextStampId t c in i # mint_many t k c')"

lemma sint_suc: "sint (c :: 32 word) + 1 < 2 ^ 31 \<Longrightarrow> sint (c + 1) = sint c + 1"
proof -
  assume "sint c + 1 < 2 ^ 31"
  moreover have "- (2 ^ 31) \<le> sint c" using sint_greater_eq [of c] by simp
  moreover have "c + 1 = word_of_int (sint c + 1)" by simp
  ultimately show ?thesis using sint_word_of_int [of "sint c + 1"] by simp
qed

lemma mint_many_eq:
  "sint c + int k < 2 ^ 31 \<Longrightarrow> mint_many t k c = map (\<lambda>j. minted t (sint c + int j)) [0..<k]"
proof (induction k arbitrary: c)
  case (Suc k)
  then have "sint (c + 1) = sint c + 1" by (intro sint_suc) simp
  with Suc show ?case
    by (simp add: nextStampId_def minted_def upt_conv_Cons map_Suc_upt [symmetric] o_def ac_simps
        del: upt_Suc)
qed simp

text \<open>a reload never mints an identifier twice. Once every persisted identifier has been
  observed, freshly minted ones are distinct from each other and from all of those, as long as
  the 32-bit counter does not pass its sign bit.\<close>

theorem minted_ids_fresh:
  assumes "number_reads_digits number" "0 \<le> sint c" "sint c \<le> B"
    and "\<forall>i \<in> set ids. \<forall>n. idNumber number i = Some n \<longrightarrow> n < B"
    and "B + int k < 2 ^ 31"
  shows "distinct (mint_many t k (fold (observeStampId number) ids c))
    \<and> set (mint_many t k (fold (observeStampId number) ids c)) \<inter> set ids = {}"
proof -
  let ?c = "fold (observeStampId number) ids c"
  have o: "sint c \<le> sint ?c" "sint ?c \<le> B"
    "\<forall>i \<in> set ids. \<forall>n. idNumber number i = Some n \<longrightarrow> n < sint ?c"
    using observe_all_sint [OF assms(2,3) _ assms(4)] assms(5) by auto
  have eq: "mint_many t k ?c = map (\<lambda>j. minted t (sint ?c + int j)) [0..<k]"
    using o(2) assms(5) by (intro mint_many_eq) linarith
  have "inj_on (\<lambda>j. minted t (sint ?c + int j)) {0..<k}"
    using o(1) assms(2) by (intro inj_onI) (simp add: minted_inj)
  then have d: "distinct (mint_many t k ?c)" by (simp add: eq distinct_map)
  have "minted t (sint ?c + int j) \<notin> set ids" for j
  proof
    assume m: "minted t (sint ?c + int j) \<in> set ids"
    have "idNumber number (minted t (sint ?c + int j)) = Some (sint ?c + int j)"
      using o(1) assms(2) by (intro idNumber_minted [OF assms(1)]) simp
    with o(3) m have "sint ?c + int j < sint ?c" by blast
    then show False by simp
  qed
  with d show ?thesis by (auto simp: eq)
qed

lemma read_nat_number: "number_reads_digits (\<lambda>s. Some (int (read_nat s)))"
  by (simp add: number_reads_digits_def)

lemma minted_ids_fresh_witness:
  "distinct (mint_many 0 2 (fold (observeStampId (\<lambda>s. Some (int (read_nat s)))) [''0:41'', ''seed''] 7))
   \<and> set (mint_many 0 2 (fold (observeStampId (\<lambda>s. Some (int (read_nat s)))) [''0:41'', ''seed''] 7))
       \<inter> set [''0:41'', ''seed''] = {}"
proof (rule minted_ids_fresh [where B = 100])
  show "number_reads_digits (\<lambda>s. Some (int (read_nat s)))" by (rule read_nat_number)
qed (simp_all add: idNumber_def read_nat_def)

section \<open>Lineage\<close>

definition stamp_ok :: "stamp \<Rightarrow> bool" where
  "stamp_ok s = (distinct (derivations s) \<and> stampId s \<notin> set (derivations s))"

lemma maxDepthOf_at_least:
  "at_least (maxDepthOf ps) DEPTH_MAX \<longleftrightarrow> (\<exists>p \<in> set ps. 10 \<le> length (derivations p))"
proof -
  have "fold (\<lambda>x m. max m (real (length (derivations x)))) ps lo \<ge> 10 \<longleftrightarrow>
    lo \<ge> 10 \<or> (\<exists>p \<in> set ps. 10 \<le> length (derivations p))" for lo
    by (induction ps arbitrary: lo) (auto simp: max_def)
  from this [of 0] show ?thesis
    by (auto simp: at_least_def maxDepthOf_def maxScore_Fin DEPTH_MAX_def)
qed

lemma derive_stampD:
  assumes "derive_stamp now t ps src c = Some (s, c')"
  shows "\<forall>p \<in> set ps. length (derivations p) < 10" "distinct (derivations s)"
    "set (derivations s) = (\<Union>p \<in> set ps. insert (stampId p) (set (derivations p)))" "source s = src"
  using assms by (auto simp: derive_stamp_def maxDepthOf_at_least mint_def Let_def not_le
      split: if_splits prod.splits)

lemma lineage_grows:
  assumes "derive_stamp now t ps src c = Some (s, c')" "p \<in> set ps" "stamp_ok p"
  shows "length (derivations p) < length (derivations s)"
proof -
  note d = derive_stampD [OF assms(1)]
  have "card (insert (stampId p) (set (derivations p))) \<le> card (set (derivations s))"
    using d(3) assms(2) by (intro card_mono) auto
  then show ?thesis using assms(3) d(2) by (simp add: stamp_ok_def distinct_card)
qed

lemma lineage_bounded:
  assumes "derive_stamp now t ps src c = Some (s, c')"
  shows "length (derivations s) \<le> 10 * length ps"
proof -
  note d = derive_stampD [OF assms]
  let ?l = "concat (map (\<lambda>p. derivations p @ [stampId p]) ps)"
  have "length (derivations s) = card (set ?l)" using d by (auto simp: distinct_card [symmetric] intro: arg_cong [where f = card])
  also have "\<dots> \<le> length ?l" by (rule card_length)
  also have "\<dots> \<le> 10 * length ps" using d(1) by (induction ps) auto
  finally show ?thesis .
qed

text \<open>what deriving a stamp records. It refuses exactly when a parent already carries ten
  ancestors; otherwise the new lineage is the parents' lineages with the parents themselves,
  without repetition, strictly longer than any parent's and at most ten entries per parent.\<close>

theorem derive_lineage:
  assumes "\<forall>p \<in> set ps. stamp_ok p"
  shows "(derive_stamp now t ps src c = None \<longleftrightarrow> (\<exists>p \<in> set ps. 10 \<le> length (derivations p)))
    \<and> (\<forall>s c'. derive_stamp now t ps src c = Some (s, c') \<longrightarrow>
        distinct (derivations s)
        \<and> set (derivations s) = (\<Union>p \<in> set ps. insert (stampId p) (set (derivations p)))
        \<and> (\<forall>p \<in> set ps. length (derivations p) < length (derivations s))
        \<and> length (derivations s) \<le> 10 * length ps)"
proof (intro conjI allI impI)
  show "derive_stamp now t ps src c = None \<longleftrightarrow> (\<exists>p \<in> set ps. 10 \<le> length (derivations p))"
    by (simp add: derive_stamp_def maxDepthOf_at_least Let_def split: prod.split)
qed (use assms in \<open>auto simp: derive_stampD lineage_grows lineage_bounded\<close>)

lemma derive_lineage_witness:
  "derive_stamp 5 0 [mint 1 ''0:1'' INPUT [], mint 2 ''0:3'' DERIVED [''0:1'', ''0:2'']] DERIVED 4 \<noteq> None"
  using derive_lineage [of "[mint 1 ''0:1'' INPUT [], mint 2 ''0:3'' DERIVED [''0:1'', ''0:2'']]" 5 0 DERIVED 4]
  by (simp add: stamp_ok_def mint_def)

text \<open>A chain of derivations, newest first: each stamp is derived from parents that include the
  one before it, with an identifier not already in its lineage.\<close>

inductive derivation_chain :: "stamp list \<Rightarrow> bool" where
  chain_start: "stamp_ok s \<Longrightarrow> derivation_chain [s]"
| chain_step: "derivation_chain (p # ps) \<Longrightarrow> p \<in> set parents \<Longrightarrow>
    derive_stamp now t parents src c = Some (s, c') \<Longrightarrow> stampId s \<notin> set (derivations s) \<Longrightarrow>
    derivation_chain (s # p # ps)"

inductive_cases derivation_chainE: "derivation_chain (s # ss)"

lemma chain_invariant:
  "derivation_chain ss \<Longrightarrow> ss \<noteq> [] \<and> stamp_ok (hd ss) \<and> length ss \<le> length (derivations (hd ss)) + 1
     \<and> length ss \<le> 11"
proof (induction rule: derivation_chain.induct)
  case (chain_step p ps parents now t src c s c')
  then have "stamp_ok p" "length (derivations p) < 10" using derive_stampD by auto
  moreover have "length (derivations p) < length (derivations s)"
    using chain_step by (intro lineage_grows) auto
  moreover have "stamp_ok s" using chain_step derive_stampD(2) by (simp add: stamp_ok_def)
  ultimately show ?case using chain_step.IH by simp
qed simp

lemma derive_example:
  "derive_stamp 2 0 [mint 1 ''0:1'' INPUT []] DERIVED 2 = Some (mint 2 ''0:2'' DERIVED [''0:1''], 3)"
  by (auto simp: derive_stamp_def maxDepthOf_at_least mint_def nextStampId_def unique_def set_add_def
      show_int_def show_nat.simps char_of_def bit_0 Let_def)

text \<open>forward inference along any chain stops. No chain of derivations, however the other
  premises are chosen, is longer than eleven stamps.\<close>

theorem derivation_depth_bounded:
  assumes "derivation_chain ss"
  shows "length ss \<le> 11"
  using chain_invariant [OF assms] by simp

lemma derivation_depth_bounded_witness:
  "length [mint 2 ''0:2'' DERIVED [''0:1''], mint 1 ''0:1'' INPUT []] \<le> 11"
proof (rule derivation_depth_bounded, rule chain_step)
  show "derivation_chain [mint 1 ''0:1'' INPUT []]"
    by (rule chain_start) (simp add: stamp_ok_def mint_def)
  show "derive_stamp 2 0 [mint 1 ''0:1'' INPUT []] DERIVED 2 = Some (mint 2 ''0:2'' DERIVED [''0:1''], 3)"
    by (rule derive_example)
qed (simp_all add: mint_def)

section \<open>Overlap\<close>

lemma overlaps_iff:
  "overlaps a b \<longleftrightarrow> stampId a = stampId b \<or> set (derivations a) \<inter> insert (stampId b) (set (derivations b)) \<noteq> {}"
  by (auto simp: overlaps_def Let_def)

text \<open>overlap reads the first stamp's ancestors only. A conclusion overlaps each of its
  parents, but a parent without ancestors does not overlap its own conclusion, so the premise
  filter accepts a belief as a premise for a task that was derived from that very belief.\<close>

theorem overlap_misses_child:
  assumes "derive_stamp now t ps src c = Some (child, c')" "p \<in> set ps"
    and "derivations p = []" "stampId p \<noteq> stampId child"
  shows "overlaps child p \<and> \<not> overlaps p child \<and> noStampOverlap (Some child) (Some p)"
  using derive_stampD(3) [OF assms(1)] assms(2-) by (auto simp: overlaps_iff noStampOverlap_def)

lemma overlap_misses_child_witness:
  "\<exists>child c'. derive_stamp 2 0 [mint 1 ''0:1'' INPUT []] DERIVED 2 = Some (child, c')
     \<and> overlaps child (mint 1 ''0:1'' INPUT []) \<and> noStampOverlap (Some child) (Some (mint 1 ''0:1'' INPUT []))"
  using overlap_misses_child [OF derive_example, of "mint 1 ''0:1'' INPUT []"] derive_example
  by (simp add: mint_def)

end
