(* ===== verification/Verifier.thy ===== *)
theory Verifier
  imports Truth_Values 
begin

text \<open>
  The derivation verifier, \<open>core/src/verify-derivation.ts\<close>, and its agreement with the
  engine's algebra in \<open>Truth_Values\<close>. The schema check (zod's \<open>safeParse\<close> of
  \<open>DerivationRecordSchema\<close>) is the argument \<open>parse\<close>: it answers the parsed record or
  the issues. A \<open>TypeError\<close> is the value \<open>None\<close>. Text is read as single-byte
  characters. A finding carries its check and the data of its message; the message text,
  which prints numbers, and the clock reading are not modelled.
\<close>

section \<open>Text\<close>

definition js_space :: "char \<Rightarrow> bool" where
  "js_space c = ((of_char c :: nat) \<in> {9, 10, 11, 12, 13, 32, 160})"

definition blank :: "string \<Rightarrow> bool" where
  "blank s = list_all js_space s"

definition lower_char :: "char \<Rightarrow> char" where
  "lower_char c = (let n = (of_char c :: nat)
     in if (65 \<le> n \<and> n \<le> 90) \<or> (192 \<le> n \<and> n \<le> 222 \<and> n \<noteq> 215) then char_of (n + 32) else c)"

definition toLowerCase :: "string \<Rightarrow> string" where
  "toLowerCase s = map lower_char s"

section \<open>The transcribed truth table\<close>

fun js_min :: "jsnum \<Rightarrow> jsnum \<Rightarrow> jsnum" where
  "js_min NaN b = NaN"
| "js_min a NaN = NaN"
| "js_min a b = (if js_lt b a then b else a)"

definition js_nearly :: "jsnum \<Rightarrow> real \<Rightarrow> real \<Rightarrow> bool" where
  "js_nearly x y eps = (case x of Fin a \<Rightarrow> nearlyEqual a y eps | _ \<Rightarrow> False)"

type_synonym binaryTruthFn = "real \<Rightarrow> real \<Rightarrow> real \<Rightarrow> real \<Rightarrow> jsnum \<times> jsnum"
type_synonym unaryTruthFn = "real \<Rightarrow> real \<Rightarrow> jsnum \<times> jsnum"

definition vdiv :: "real \<Rightarrow> real \<Rightarrow> jsnum" where
  "vdiv n d = Fin (safeRatio n d 0)"

definition BINARY_TRUTH :: "(string \<times> binaryTruthFn) list" where
  "BINARY_TRUTH = [
     (''deduction'', \<lambda>f1 f2 c1 c2. (Fin (f1 * f2), Fin (c1 * c2))),
     (''induction'', \<lambda>f1 f2 c1 c2. let w = f2 * c1 * c2 in (Fin f2, softSquash w 1)),
     (''abduction'', \<lambda>f1 f2 c1 c2. let w = f1 * c1 * c2 in (Fin f1, softSquash w 1)),
     (''exemplification'', \<lambda>f1 f2 c1 c2.
        (Fin (f1 * f2), js_scale (js_scale (js_scale (js_scale (softSquash c1 1) c1) c2) f1) f2)),
     (''comparison'', \<lambda>f1 f2 c1 c2.
        let p = f1 * f2 in (vdiv p (p + (1 - f1) * (1 - f2)), Fin (c1 * c2))),
     (''analogy'', \<lambda>f1 f2 c1 c2. (Fin (f1 * f2), Fin (c1 * c2 * f2))),
     (''resemblance'', \<lambda>f1 f2 c1 c2. (Fin ((f1 + f2) / 2), Fin (c1 * c2))),
     (''intersection'', \<lambda>f1 f2 c1 c2. (Fin (f1 * f2), Fin (c1 * c2))),
     (''union'', \<lambda>f1 f2 c1 c2. (Fin (1 - (1 - f1) * (1 - f2)), Fin (c1 * c2))),
     (''revision'', \<lambda>f1 f2 c1 c2.
        let w1 = confidenceToWeight c1; w2 = confidenceToWeight c2
        in (vdiv (f1 * w1 + f2 * w2) (w1 + w2), js_min (weightToConfidence (w1 + w2)) (Fin (999 / 1000)))),
     (''detachment'', \<lambda>f1 f2 c1 c2. (Fin f2, Fin (f1 * c1 * c2))),
     (''contraposition'', \<lambda>f1 f2 c1 c2.
        let cf = f2 * (1 - f1) in (vdiv cf (cf + (1 - f2) * f1), Fin (c1 * c2))),
     (''sameness'', \<lambda>f1 f2 c1 c2. (Fin (1 - \<bar>f1 - f2\<bar>), Fin (c1 * c2)))]"

definition UNARY_TRUTH :: "(string \<times> unaryTruthFn) list" where
  "UNARY_TRUTH = [
     (''negation-intro'', \<lambda>f c. (Fin (1 - f), Fin c)),
     (''negation-elim'', \<lambda>f c. (Fin (1 - f), Fin c)),
     (''negation'', \<lambda>f c. (Fin (1 - f), Fin c)),
     (''conversion'', \<lambda>f c. (Fin f, Fin (f * c)))]"

text \<open>The table is an object literal, so indexing it by a name also finds what every object
  inherits. Each of these answers a truthy value that is not a truth function, and applying it
  to four numbers and destructuring the answer throws.\<close>

definition OBJECT_PROTOTYPE_NAMES :: "string list" where
  "OBJECT_PROTOTYPE_NAMES = [''constructor'', ''__defineGetter__'', ''__defineSetter__'',
     ''hasOwnProperty'', ''__lookupGetter__'', ''__lookupSetter__'', ''isPrototypeOf'',
     ''propertyIsEnumerable'', ''toString'', ''valueOf'', ''__proto__'', ''toLocaleString'']"

datatype resolvedTruthFn = BinaryFn binaryTruthFn | UnaryFn unaryTruthFn | InheritedFn

fun arity :: "resolvedTruthFn \<Rightarrow> nat" where
  "arity (BinaryFn fn) = 2"
| "arity (UnaryFn fn) = 1"
| "arity InheritedFn = 2"

fun apply_truthFn :: "resolvedTruthFn \<Rightarrow> real list \<Rightarrow> real list \<Rightarrow> (jsnum \<times> jsnum) option" where
  "apply_truthFn (BinaryFn fn) f c = Some (fn (f ! 0) (f ! 1) (c ! 0) (c ! 1))"
| "apply_truthFn (UnaryFn fn) f c = Some (fn (f ! 0) (c ! 0))"
| "apply_truthFn InheritedFn f c = None"

definition declaredTruthFn :: "string option \<Rightarrow> resolvedTruthFn option" where
  "declaredTruthFn name =
     (case name of None \<Rightarrow> None
      | Some n \<Rightarrow>
          if n = [] then None
          else (case map_of BINARY_TRUTH n of
                  Some fn \<Rightarrow> Some (BinaryFn fn)
                | None \<Rightarrow>
                    if n \<in> set OBJECT_PROTOTYPE_NAMES then Some InheritedFn
                    else (case map_of UNARY_TRUTH n of
                            Some fn \<Rightarrow> Some (UnaryFn fn)
                          | None \<Rightarrow> None)))"

definition bySubstring :: "string \<Rightarrow> resolvedTruthFn option" where
  "bySubstring key =
     (case find (\<lambda>(name, fn). str_includes key name) BINARY_TRUTH of
        Some (name, fn) \<Rightarrow> Some (BinaryFn fn)
      | None \<Rightarrow>
          (case find (\<lambda>(name, fn). str_includes key name) UNARY_TRUTH of
             Some (name, fn) \<Rightarrow> Some (UnaryFn fn)
           | None \<Rightarrow> None))"

definition ruleKey :: "string \<Rightarrow> string" where
  "ruleKey ruleId = map (\<lambda>c. if c = CHR ''_'' then CHR ''-'' else c) (toLowerCase ruleId)"

definition inferTruthFnFromRuleId :: "string \<Rightarrow> resolvedTruthFn option" where
  "inferTruthFnFromRuleId ruleId =
     (let key = ruleKey ruleId
      in case declaredTruthFn (Some key) of Some fn \<Rightarrow> Some fn | None \<Rightarrow> bySubstring key)"

definition resolveTruthFn :: "string \<Rightarrow> string option \<Rightarrow> resolvedTruthFn option" where
  "resolveTruthFn ruleId declaredName =
     (case declaredTruthFn declaredName of
        Some fn \<Rightarrow> Some fn
      | None \<Rightarrow> inferTruthFnFromRuleId ruleId)"

section \<open>Records and findings\<close>

record derivationStep =
  stepId :: string
  ruleId :: string
  stepPremises :: "string list"
  conclusion :: string
  stepTruth :: beliefTruth
  truthFn :: "string option"
  substitution :: "(string, string) omap option"
  premiseTruths :: "beliefTruth list option"
  evidenceLineage :: "string list"
  stepIndependence :: independence

record derivationRecord =
  derivationId :: string
  taskId :: string
  steps :: "derivationStep list"
  finalTruth :: beliefTruth
  totalCycles :: nat

datatype check =
  RuleShape | PremiseShape string | ConclusionShape
| SubstitutionValue string | SubstitutionPremise string | SubstitutionConclusion string
| LineageDag string | EvidenceIndependence | UnknownRule string
| TruthAlgebra jsnum jsnum beliefTruth string
| RecordShape string | UniqueStepId string | FinalTruth | EmptyDerivation

record verificationFinding =
  f_step :: "string option"
  f_check :: check

record stepVerificationResult =
  r_stepId :: string
  r_ok :: bool
  r_findings :: "verificationFinding list"
  r_declaredTruth :: beliefTruth
  r_computedTruth :: "(jsnum \<times> jsnum) option"

record proofState =
  ps_verified :: nat
  ps_skipped :: nat

record stepOptions =
  so_epsilon :: real
  so_strict :: bool

section \<open>Verifying a step\<close>

definition shapeChecks :: "derivationStep \<Rightarrow> check list" where
  "shapeChecks step =
     (if blank (ruleId step) then [RuleShape] else [])
     @ (if stepPremises step = [] then [PremiseShape ''No stepPremises provided''] else [])
     @ (if list_ex blank (stepPremises step) then [PremiseShape ''Empty premise term string''] else [])
     @ (if blank (conclusion step) then [ConclusionShape] else [])"

definition bindingChecks :: "derivationStep \<Rightarrow> check list" where
  "bindingChecks step =
     concat (map (\<lambda>(variable, value).
       if blank value then [SubstitutionValue variable]
       else if \<not> list_ex (\<lambda>p. str_includes p variable) (stepPremises step) then [SubstitutionPremise variable]
       else if \<not> str_includes (conclusion step) variable \<and> \<not> str_includes (conclusion step) value
         then [SubstitutionConclusion variable]
       else [])
     (case substitution step of None \<Rightarrow> [] | Some s \<Rightarrow> s))"

definition lineageChecks :: "derivationStep \<Rightarrow> string list \<Rightarrow> string \<Rightarrow> check list" where
  "lineageChecks step prior task =
     map LineageDag (filter (\<lambda>parent. parent \<notin> set prior \<and> parent \<noteq> task) (evidenceLineage step))"

definition independenceChecks :: "derivationStep \<Rightarrow> check list" where
  "independenceChecks step =
     (if stepIndependence step = UnknownIndependence \<and> str_includes (toLowerCase (ruleId step)) ''revision''
      then [EvidenceIndependence] else [])"

text \<open>The truth of a step: its defects, the computed truth and the updated counts.\<close>

definition truthCheck ::
  "derivationStep \<Rightarrow> stepOptions \<Rightarrow> proofState \<Rightarrow> (check list \<times> (jsnum \<times> jsnum) option \<times> proofState) option" where
  "truthCheck step opts st =
     (case resolveTruthFn (ruleId step) (truthFn step) of
        None \<Rightarrow>
          Some (if so_strict opts then [UnknownRule (ruleId step)] else [], None,
                st\<lparr>ps_skipped := ps_skipped st + 1\<rparr>)
      | Some fn \<Rightarrow>
          (case premiseTruths step of
             None \<Rightarrow> Some ([], None, st\<lparr>ps_skipped := ps_skipped st + 1\<rparr>)
           | Some ts \<Rightarrow>
               if length ts \<noteq> arity fn then Some ([], None, st\<lparr>ps_skipped := ps_skipped st + 1\<rparr>)
               else (case apply_truthFn fn (map frequency ts) (map confidence ts) of
                       None \<Rightarrow> None
                     | Some (f, c) \<Rightarrow>
                         if js_nearly f (frequency (stepTruth step)) (so_epsilon opts)
                            \<and> js_nearly c (confidence (stepTruth step)) (so_epsilon opts)
                         then Some ([], Some (f, c), st\<lparr>ps_verified := ps_verified st + 1\<rparr>)
                         else Some ([TruthAlgebra f c (stepTruth step) (ruleId step)], Some (f, c), st))))"

definition verifyStep ::
  "derivationStep \<Rightarrow> string list \<Rightarrow> string \<Rightarrow> stepOptions \<Rightarrow> proofState
    \<Rightarrow> (stepVerificationResult \<times> proofState) option" where
  "verifyStep step prior task opts st =
     (case truthCheck step opts st of
        None \<Rightarrow> None
      | Some (tchecks, computed, st') \<Rightarrow>
          let checks = shapeChecks step @ bindingChecks step @ lineageChecks step prior task
                @ independenceChecks step @ tchecks;
              findings = map (\<lambda>c. \<lparr>f_step = Some (stepId step), f_check = c\<rparr>) checks
          in Some (\<lparr>r_stepId = stepId step, r_ok = (findings = []), r_findings = findings,
                    r_declaredTruth = stepTruth step, r_computedTruth = computed\<rparr>, st'))"

section \<open>Verifying a record\<close>

record verificationResult =
  v_derivationId :: string
  v_ok :: bool
  v_findings :: "verificationFinding list"
  v_stepResults :: "stepVerificationResult list"
  v_truthVerified :: nat
  v_truthSkipped :: nat

record verifyOptions =
  vo_strict :: "bool option"
  vo_epsilon :: "real option"
  vo_maxSteps :: "int option"

definition DEFAULT_EPSILON :: real where "DEFAULT_EPSILON = 1 / 10 ^ 6"

definition stepsToVerify :: "int option \<Rightarrow> 'a list \<Rightarrow> 'a list" where
  "stepsToVerify maxSteps xs =
     (case maxSteps of None \<Rightarrow> xs
      | Some m \<Rightarrow> if m = 0 then xs
          else if 0 < m then take (nat m) xs else take (length xs - nat (- m)) xs)"

text \<open>The loop over the steps: the duplicate findings, the step results and the counts, with the
  step identifiers seen so far.\<close>

fun verifySteps ::
  "derivationStep list \<Rightarrow> string list \<Rightarrow> string \<Rightarrow> stepOptions \<Rightarrow> proofState
    \<Rightarrow> (verificationFinding list \<times> stepVerificationResult list \<times> proofState) option" where
  "verifySteps [] seen task opts st = Some ([], [], st)"
| "verifySteps (s # ss) seen task opts st =
     (let dup = (if stepId s \<in> set seen
            then [\<lparr>f_step = Some (stepId s), f_check = UniqueStepId (stepId s)\<rparr>] else [])
      in case verifyStep s seen task opts st of
           None \<Rightarrow> None
         | Some (r, st') \<Rightarrow>
             (case verifySteps ss (set_add (stepId s) seen) task opts st' of
                None \<Rightarrow> None
              | Some (fs, rs, st'') \<Rightarrow> Some (dup @ fs, r # rs, st'')))"

definition truthNear :: "beliefTruth \<Rightarrow> beliefTruth \<Rightarrow> real \<Rightarrow> bool" where
  "truthNear a b eps =
     (nearlyEqual (frequency a) (frequency b) eps \<and> nearlyEqual (confidence a) (confidence b) eps)"

definition endChecks :: "derivationStep list \<Rightarrow> derivationRecord \<Rightarrow> real \<Rightarrow> verificationFinding list" where
  "endChecks checked r eps =
     (if checked \<noteq> [] then
        (if truthNear (stepTruth (last checked)) (finalTruth r) eps then []
         else [\<lparr>f_step = None, f_check = FinalTruth\<rparr>])
      else if 0 < totalCycles r then [\<lparr>f_step = None, f_check = EmptyDerivation\<rparr>] else [])"

definition verifyRecord ::
  "('r \<Rightarrow> string + derivationRecord) \<Rightarrow> ('r \<Rightarrow> string) \<Rightarrow> 'r \<Rightarrow> verifyOptions \<Rightarrow> verificationResult option" where
  "verifyRecord parse recordId r options =
     (let eps = (case vo_epsilon options of None \<Rightarrow> DEFAULT_EPSILON | Some e \<Rightarrow> e);
          opts = \<lparr>so_epsilon = eps, so_strict = (vo_strict options = Some True)\<rparr>;
          result = (\<lambda>fs rs st. \<lparr>v_derivationId = recordId r, v_ok = (fs = []), v_findings = fs,
            v_stepResults = rs, v_truthVerified = ps_verified st, v_truthSkipped = ps_skipped st\<rparr>);
          st0 = \<lparr>ps_verified = 0, ps_skipped = 0\<rparr>
      in case parse r of
           Inl issues \<Rightarrow> Some (result [\<lparr>f_step = None, f_check = RecordShape issues\<rparr>] [] st0)
         | Inr d \<Rightarrow>
             (let checked = stepsToVerify (vo_maxSteps options) (steps d)
              in case verifySteps checked [] (taskId d) opts st0 of
                   None \<Rightarrow> None
                 | Some (dups, rs, st) \<Rightarrow>
                     Some (result (dups @ concat (map r_findings rs) @ endChecks checked d eps) rs st)))"

section \<open>Agreement with the engine\<close>

text \<open>The engine's operation under a table name.\<close>

definition engineOps :: "(string \<times> (truth \<Rightarrow> truth \<Rightarrow> truth)) list" where
  "engineOps = [
     (''deduction'', t_deduction), (''induction'', t_induction), (''abduction'', t_abduction),
     (''exemplification'', t_exemplification), (''comparison'', t_comparison), (''analogy'', t_analogy),
     (''resemblance'', t_resemblance), (''intersection'', t_intersection), (''union'', t_union),
     (''revision'', t_revision), (''detachment'', t_detachment), (''contraposition'', t_contraposition),
     (''sameness'', t_sameness)]"

definition pair_of :: "truth \<Rightarrow> jsnum \<times> jsnum" where
  "pair_of t = (Fin (tf t), Fin (tc t))"

lemma pair_of_binary:
  "fn (tf t1) (tf t2) (tc t1) (tc t2) = (Fin f, Fin c) \<Longrightarrow>
   0 \<le> f \<and> f \<le> 1 \<Longrightarrow> 0 \<le> c \<and> c \<le> MAX_CONFIDENCE \<Longrightarrow>
   pair_of (binary_op fn t1 t2) = (Fin f, Fin c)"
  by (simp add: pair_of_def binary_op_def normalize_id)

lemma ratio_range:
  "0 \<le> a \<Longrightarrow> 0 \<le> b \<Longrightarrow> 0 \<le> safeRatio a (a + b) 0 \<and> safeRatio a (a + b) 0 \<le> 1"
  by (simp add: safeRatio_def divide_le_eq)

lemma clamp01_unit: "0 \<le> x \<and> x \<le> 1 \<Longrightarrow> clamp01 x = x"
  by (simp add: clamp01_def clamp_def)

lemma js_min_Fin: "js_min (Fin a) (Fin b) = Fin (min a b)"
  by (simp add: min_def)

text \<open>The ranges the entries need, over the engine's domain.\<close>

lemma truth_ranges:
  assumes "truth_inv t1" "truth_inv t2"
  defines "p \<equiv> tc t1 * tc t2"
  shows "0 \<le> p \<and> p \<le> MAX_CONFIDENCE"
    "0 \<le> tf t1 * tf t2 \<and> tf t1 * tf t2 \<le> 1"
    "0 \<le> 1 - (1 - tf t1) * (1 - tf t2) \<and> 1 - (1 - tf t1) * (1 - tf t2) \<le> 1"
    "0 \<le> (tf t1 + tf t2) / 2 \<and> (tf t1 + tf t2) / 2 \<le> 1"
    "0 \<le> 1 - \<bar>tf t1 - tf t2\<bar> \<and> 1 - \<bar>tf t1 - tf t2\<bar> \<le> 1"
    "0 \<le> f \<and> f \<le> 1 \<Longrightarrow> 0 \<le> f * p \<and> f * p \<le> MAX_CONFIDENCE"
    "0 \<le> f \<and> f \<le> 1 \<Longrightarrow> softSquash (f * p) 1 = Fin (f * p / (f * p + 1)) \<and>
       0 \<le> f * p / (f * p + 1) \<and> f * p / (f * p + 1) \<le> MAX_CONFIDENCE"
proof -
  note d1 = truth_invD [OF assms(1)] and d2 = truth_invD [OF assms(2)]
  show p: "0 \<le> p \<and> p \<le> MAX_CONFIDENCE"
    using mult_le_left [OF d1(3,6) d2(3,6)] d1(4) by (auto simp: p_def)
  show "0 \<le> tf t1 * tf t2 \<and> tf t1 * tf t2 \<le> 1" using d1 d2 by (simp add: mult_le_one)
  have "0 \<le> (1 - tf t1) * (1 - tf t2) \<and> (1 - tf t1) * (1 - tf t2) \<le> 1"
    using d1(1,2) d2(1,2) by (simp add: mult_le_one)
  then show "0 \<le> 1 - (1 - tf t1) * (1 - tf t2) \<and> 1 - (1 - tf t1) * (1 - tf t2) \<le> 1" by simp
  show "0 \<le> (tf t1 + tf t2) / 2 \<and> (tf t1 + tf t2) / 2 \<le> 1"
    "0 \<le> 1 - \<bar>tf t1 - tf t2\<bar> \<and> 1 - \<bar>tf t1 - tf t2\<bar> \<le> 1"
    using d1(1,2) d2(1,2) by (auto simp: abs_if)
  show fp: "0 \<le> f * p \<and> f * p \<le> MAX_CONFIDENCE" if "0 \<le> f \<and> f \<le> 1" for f
    using that p mult_left_le_one_le [of p f] by (auto intro: order_trans)
  show "softSquash (f * p) 1 = Fin (f * p / (f * p + 1)) \<and>
       0 \<le> f * p / (f * p + 1) \<and> f * p / (f * p + 1) \<le> MAX_CONFIDENCE" if "0 \<le> f \<and> f \<le> 1" for f
    using fp [OF that] squash_le [of "f * p" 1] by (auto intro: order_trans)
qed

lemma engine_pairs:
  assumes t: "truth_inv t1" "truth_inv t2"
  shows "pair_of (t_deduction t1 t2) = (Fin (tf t1 * tf t2), Fin (tc t1 * tc t2))"
    "pair_of (t_induction t1 t2) = (Fin (tf t2), softSquash (tf t2 * tc t1 * tc t2) 1)"
    "pair_of (t_abduction t1 t2) = (Fin (tf t1), softSquash (tf t1 * tc t1 * tc t2) 1)"
    "pair_of (t_analogy t1 t2) = (Fin (tf t1 * tf t2), Fin (tc t1 * tc t2 * tf t2))"
    "pair_of (t_resemblance t1 t2) = (Fin ((tf t1 + tf t2) / 2), Fin (tc t1 * tc t2))"
    "pair_of (t_intersection t1 t2) = (Fin (tf t1 * tf t2), Fin (tc t1 * tc t2))"
    "pair_of (t_union t1 t2) = (Fin (1 - (1 - tf t1) * (1 - tf t2)), Fin (tc t1 * tc t2))"
    "pair_of (t_detachment t1 t2) = (Fin (tf t2), Fin (tf t1 * tc t1 * tc t2))"
    "pair_of (t_sameness t1 t2) = (Fin (1 - \<bar>tf t1 - tf t2\<bar>), Fin (tc t1 * tc t2))"
proof -
  note d1 = truth_invD [OF t(1)] and d2 = truth_invD [OF t(2)] and r = truth_ranges [OF t]
  have f1: "0 \<le> tf t1 \<and> tf t1 \<le> 1" and f2: "0 \<le> tf t2 \<and> tf t2 \<le> 1" using d1 d2 by simp_all
  note simple = pair_of_binary [OF _ _ r(1)]
  show "pair_of (t_deduction t1 t2) = (Fin (tf t1 * tf t2), Fin (tc t1 * tc t2))"
    "pair_of (t_intersection t1 t2) = (Fin (tf t1 * tf t2), Fin (tc t1 * tc t2))"
    unfolding t_deduction_def t_intersection_def by (rule simple [OF _ r(2)], rule refl)+
  show "pair_of (t_union t1 t2) = (Fin (1 - (1 - tf t1) * (1 - tf t2)), Fin (tc t1 * tc t2))"
    unfolding t_union_def by (rule simple [OF _ r(3)], rule refl)
  show "pair_of (t_resemblance t1 t2) = (Fin ((tf t1 + tf t2) / 2), Fin (tc t1 * tc t2))"
    unfolding t_resemblance_def by (rule simple [OF _ r(4)], rule refl)
  show "pair_of (t_sameness t1 t2) = (Fin (1 - \<bar>tf t1 - tf t2\<bar>), Fin (tc t1 * tc t2))"
    unfolding t_sameness_def by (rule simple [OF _ r(5)], rule refl)
  show "pair_of (t_analogy t1 t2) = (Fin (tf t1 * tf t2), Fin (tc t1 * tc t2 * tf t2))"
    unfolding t_analogy_def by (rule pair_of_binary [OF _ r(2)]) (rule refl, use r(6) [OF f2] in \<open>simp only: ac_simps\<close>)
  show "pair_of (t_detachment t1 t2) = (Fin (tf t2), Fin (tf t1 * tc t1 * tc t2))"
    unfolding t_detachment_def by (rule pair_of_binary [OF _ f2]) (rule refl, use r(6) [OF f1] in \<open>simp only: ac_simps\<close>)
  have sq: "softSquash (f * tc t1 * tc t2) 1 = softSquash (f * (tc t1 * tc t2)) 1" for f
    by (simp add: mult.assoc)
  show "pair_of (t_induction t1 t2) = (Fin (tf t2), softSquash (tf t2 * tc t1 * tc t2) 1)"
    unfolding t_induction_def sq conjunct1 [OF r(7) [OF f2]]
    by (rule pair_of_binary [OF _ f2 conjunct2 [OF r(7) [OF f2]]])
      (simp add: sq conjunct1 [OF r(7) [OF f2]] del: softSquash_Fin)
  show "pair_of (t_abduction t1 t2) = (Fin (tf t1), softSquash (tf t1 * tc t1 * tc t2) 1)"
    unfolding t_abduction_def sq conjunct1 [OF r(7) [OF f1]]
    by (rule pair_of_binary [OF _ f1 conjunct2 [OF r(7) [OF f1]]])
      (simp add: sq conjunct1 [OF r(7) [OF f1]] del: softSquash_Fin)
qed

lemma engine_ratio_pairs:
  assumes t: "truth_inv t1" "truth_inv t2"
  shows "pair_of (t_comparison t1 t2) =
      (vdiv (tf t1 * tf t2) (tf t1 * tf t2 + (1 - tf t1) * (1 - tf t2)), Fin (tc t1 * tc t2))"
    "pair_of (t_contraposition t1 t2) =
      (vdiv (tf t2 * (1 - tf t1)) (tf t2 * (1 - tf t1) + (1 - tf t2) * tf t1), Fin (tc t1 * tc t2))"
proof -
  note d1 = truth_invD [OF t(1)] and d2 = truth_invD [OF t(2)] and r = truth_ranges [OF t]
  have a: "0 \<le> tf t1 * tf t2" "0 \<le> (1 - tf t1) * (1 - tf t2)"
    "0 \<le> tf t2 * (1 - tf t1)" "0 \<le> (1 - tf t2) * tf t1" using d1(1,2) d2(1,2) by simp_all
  show "pair_of (t_comparison t1 t2) =
      (vdiv (tf t1 * tf t2) (tf t1 * tf t2 + (1 - tf t1) * (1 - tf t2)), Fin (tc t1 * tc t2))"
    unfolding t_comparison_def vdiv_def
    by (rule pair_of_binary [OF _ ratio_range [OF a(1,2)] r(1)])
      (simp add: Let_def safeDiv_def clamp01_unit [OF ratio_range [OF a(1,2)]])
  show "pair_of (t_contraposition t1 t2) =
      (vdiv (tf t2 * (1 - tf t1)) (tf t2 * (1 - tf t1) + (1 - tf t2) * tf t1), Fin (tc t1 * tc t2))"
    unfolding t_contraposition_def vdiv_def
    by (rule pair_of_binary [OF _ ratio_range [OF a(3,4)] r(1)])
      (simp add: Let_def safeDiv_def clamp01_unit [OF ratio_range [OF a(3,4)]])
qed

lemma engine_exemplification_pair:
  assumes t: "truth_inv t1" "truth_inv t2"
  shows "pair_of (t_exemplification t1 t2) =
    (Fin (tf t1 * tf t2),
     js_scale (js_scale (js_scale (js_scale (softSquash (tc t1) 1) (tc t1)) (tc t2)) (tf t1)) (tf t2))"
proof -
  note d1 = truth_invD [OF t(1)] and r = truth_ranges [OF t]
  let ?q = "tc t1 / (tc t1 + 1)"
  have ss: "softSquash (tc t1) 1 = Fin ?q" using d1 by simp
  have q: "0 \<le> ?q" "?q \<le> 1" using d1 squash_le [of "tc t1" 1] by simp_all
  have g: "0 \<le> tf t1 * tf t2" "tf t1 * tf t2 \<le> 1" using r(2) by simp_all
  have "0 \<le> ?q * (tf t1 * tf t2) \<and> ?q * (tf t1 * tf t2) \<le> 1"
    using mult_nonneg_nonneg [OF q(1) g(1)] mult_le_one [OF q(2) g] by (rule conjI)
  then have "0 \<le> ?q * (tf t1 * tf t2) * (tc t1 * tc t2) \<and> ?q * (tf t1 * tf t2) * (tc t1 * tc t2) \<le> MAX_CONFIDENCE"
    by (rule r(6))
  moreover have "?q * tc t1 * tc t2 * tf t1 * tf t2 = ?q * (tf t1 * tf t2) * (tc t1 * tc t2)"
    by (simp only: ac_simps)
  ultimately have "0 \<le> ?q * tc t1 * tc t2 * tf t1 * tf t2 \<and> ?q * tc t1 * tc t2 * tf t1 * tf t2 \<le> MAX_CONFIDENCE"
    by (simp only:)
  then show ?thesis unfolding t_exemplification_def ss js_scale.simps
    by (rule pair_of_binary [OF _ r(2), rotated]) (simp only: ss js_scale.simps)
qed

lemma table_agrees:
  assumes "truth_inv t1" "truth_inv t2" "map_of BINARY_TRUTH name = Some fn" "name \<noteq> ''revision''"
  shows "\<exists>op. map_of engineOps name = Some op \<and> fn (tf t1) (tf t2) (tc t1) (tc t2) = pair_of (op t1 t2)"
proof -
  have "(name, fn) \<in> set BINARY_TRUTH" using assms(3) by (rule map_of_SomeD)
  with assms(4) show ?thesis unfolding BINARY_TRUTH_def set_simps insert_iff empty_iff prod.inject
    by (elim disjE conjE FalseE; hypsubst)
      (simp_all only: engineOps_def map_of.simps fun_upd_def fst_conv snd_conv if_True if_False
        list.inject char.inject option.inject ex_simps simp_thms engine_pairs [OF assms(1,2)]
        engine_ratio_pairs [OF assms(1,2)] engine_exemplification_pair [OF assms(1,2)] Let_def list.distinct)
qed

text \<open>C24: the verifier's hand-written table and the engine's algebra are the same functions.
  On the engine's domain every binary entry except revision computes exactly the truth the
  engine's operation of that name computes.\<close>

theorem verifier_agrees_with_engine:
  assumes "truth_inv t1" "truth_inv t2" "map_of BINARY_TRUTH name = Some fn" "name \<noteq> ''revision''"
  shows "\<exists>op. map_of engineOps name = Some op \<and> fn (tf t1) (tf t2) (tc t1) (tc t2) = pair_of (op t1 t2)"
  using assms by (rule table_agrees)

lemma verifier_agrees_with_engine_witness:
  "\<exists>fn. map_of BINARY_TRUTH ''induction'' = Some fn \<and>
     fn 1 (1/2) (9/10) (4/5) = pair_of (t_induction \<lparr>tf = 1, tc = 9/10\<rparr> \<lparr>tf = 1/2, tc = 4/5\<rparr>)"
proof -
  have i: "truth_inv \<lparr>tf = 1, tc = 9/10\<rparr>" "truth_inv \<lparr>tf = 1/2, tc = 4/5\<rparr>"
    by (simp_all add: truth_inv_def MAX_CONFIDENCE_def)
  obtain fn where fn: "map_of BINARY_TRUTH ''induction'' = Some fn" by (simp add: BINARY_TRUTH_def)
  show ?thesis using verifier_agrees_with_engine [OF i fn] fn by (simp add: engineOps_def)
qed

definition verifier_revision :: binaryTruthFn where
  "verifier_revision = the (map_of BINARY_TRUTH ''revision'')"

lemma verifier_revision_eq:
  "verifier_revision f1 f2 c1 c2 =
     (vdiv (f1 * confidenceToWeight c1 + f2 * confidenceToWeight c2)
        (confidenceToWeight c1 + confidenceToWeight c2),
      js_min (weightToConfidence (confidenceToWeight c1 + confidenceToWeight c2)) (Fin (999 / 1000)))"
  by (simp add: verifier_revision_def BINARY_TRUTH_def Let_def)

lemma revision_compare:
  assumes "truth_inv t1" "truth_inv t2"
  shows "snd (verifier_revision (tf t1) (tf t2) (tc t1) (tc t2)) = Fin (tc (t_revision t1 t2))
    \<and> (0 < weight t1 + weight t2 \<and> weight t1 + weight t2 \<le> 999 \<longrightarrow>
         verifier_revision (tf t1) (tf t2) (tc t1) (tc t2) = pair_of (t_revision t1 t2))
    \<and> (999 < weight t1 + weight t2 \<longrightarrow>
         fst (verifier_revision (tf t1) (tf t2) (tc t1) (tc t2))
           = Fin ((tf t1 * weight t1 + tf t2 * weight t2) / (weight t1 + weight t2))
         \<and> tf (t_revision t1 t2) = (tf t1 * tc t1 + tf t2 * tc t2) / (tc t1 + tc t2))
    \<and> (weight t1 + weight t2 = 0 \<longrightarrow>
         fst (verifier_revision (tf t1) (tf t2) (tc t1) (tc t2)) = Fin 0 \<and> tf (t_revision t1 t2) = 1/2)"
proof -
  let ?w = "weight t1 + weight t2"
  have w: "0 \<le> weight t1" "0 \<le> weight t2" using assms by (simp_all add: weight_nonneg)
  have eq: "verifier_revision (tf t1) (tf t2) (tc t1) (tc t2) =
      (Fin (safeRatio (tf t1 * weight t1 + tf t2 * weight t2) ?w 0), Fin (min (?w / (?w + 1)) MAX_CONFIDENCE))"
    using w by (simp only: verifier_revision_eq weight_def [symmetric] vdiv_def weightToConfidence_def
        softSquash_Fin js_min_Fin MAX_CONFIDENCE_def add_nonneg_nonneg zero_less_one)
  consider (none) "?w = 0" | (some) "0 < ?w" "?w \<le> 999" | (sat) "999 < ?w" using w by linarith
  then show ?thesis
  proof cases
    case none
    then have "weight t1 = 0" "weight t2 = 0" using w by linarith+
    then have "tc t1 = 0" "tc t2 = 0" using weight_zero assms by auto
    then show ?thesis using none unfolding eq
      by (simp add: revision_no_evidence safeRatio_def MAX_CONFIDENCE_def)
  next
    case some
    then have "?w / (?w + 1) \<le> MAX_CONFIDENCE" using squash_le_max [of ?w] by simp
    then show ?thesis using some unfolding eq
      by (simp add: revision_unsaturated [OF assms some] pair_of_def safeRatio_def)
  next
    case sat
    then have "MAX_CONFIDENCE \<le> ?w / (?w + 1)" using squash_le_max [of ?w] by simp
    then show ?thesis using sat unfolding eq by (simp add: revision_saturated [OF assms sat] safeRatio_def)
  qed
qed

text \<open>where the verifier's revision and the engine's part. The confidences always agree, and
  the frequencies agree while the pooled evidence is positive and below saturation. Past
  saturation the engine averages by confidence and the verifier by weight; and with no evidence
  on either side the engine answers one half where the verifier answers zero.\<close>

theorem revision_drift:
  assumes "truth_inv t1" "truth_inv t2"
  shows "snd (verifier_revision (tf t1) (tf t2) (tc t1) (tc t2)) = Fin (tc (t_revision t1 t2))
    \<and> (0 < weight t1 + weight t2 \<and> weight t1 + weight t2 \<le> 999 \<longrightarrow>
         verifier_revision (tf t1) (tf t2) (tc t1) (tc t2) = pair_of (t_revision t1 t2))
    \<and> (999 < weight t1 + weight t2 \<longrightarrow>
         fst (verifier_revision (tf t1) (tf t2) (tc t1) (tc t2))
           = Fin ((tf t1 * weight t1 + tf t2 * weight t2) / (weight t1 + weight t2))
         \<and> tf (t_revision t1 t2) = (tf t1 * tc t1 + tf t2 * tc t2) / (tc t1 + tc t2))
    \<and> (weight t1 + weight t2 = 0 \<longrightarrow>
         fst (verifier_revision (tf t1) (tf t2) (tc t1) (tc t2)) = Fin 0 \<and> tf (t_revision t1 t2) = 1/2)"
  using assms by (rule revision_compare)

lemma revision_drift_witness:
  "fst (verifier_revision (99/100) (98/100) (999/1000) (998/1000)) = Fin (147803 / 149800)
   \<and> tf (t_revision \<lparr>tf = 99/100, tc = 999/1000\<rparr> \<lparr>tf = 98/100, tc = 998/1000\<rparr>) = 196705 / 199700"
proof -
  have i: "truth_inv \<lparr>tf = 99/100, tc = 999/1000\<rparr>" "truth_inv \<lparr>tf = 98/100, tc = 998/1000\<rparr>"
    by (simp_all add: truth_inv_def MAX_CONFIDENCE_def)
  have "999 < weight \<lparr>tf = 99/100, tc = 999/1000\<rparr> + weight \<lparr>tf = 98/100, tc = 998/1000\<rparr>"
    by (simp add: weight_def confidenceToWeight_def)
  with revision_drift [OF i] show ?thesis by (simp add: weight_def confidenceToWeight_def)
qed

section \<open>What an accepted record establishes\<close>

text \<open>The declared truth of a step is what its function computes from its premises, whenever
  there is a function and the premise truths are present.\<close>

definition truth_follows :: "derivationStep \<Rightarrow> real \<Rightarrow> bool" where
  "truth_follows step eps =
     (case (resolveTruthFn (ruleId step) (truthFn step), premiseTruths step) of
        (Some fn, Some ts) \<Rightarrow>
          length ts = arity fn \<longrightarrow>
          (case apply_truthFn fn (map frequency ts) (map confidence ts) of
             None \<Rightarrow> False
           | Some (f, c) \<Rightarrow> js_nearly f (frequency (stepTruth step)) eps
               \<and> js_nearly c (confidence (stepTruth step)) eps)
      | _ \<Rightarrow> True)"

definition step_proved :: "real \<Rightarrow> string \<Rightarrow> string set \<Rightarrow> derivationStep \<Rightarrow> bool" where
  "step_proved eps task prior s =
     (\<not> blank (ruleId s) \<and> stepPremises s \<noteq> [] \<and> \<not> list_ex blank (stepPremises s)
      \<and> \<not> blank (conclusion s) \<and> set (evidenceLineage s) \<subseteq> insert task prior \<and> truth_follows s eps)"

lemma truthCheck_clean:
  assumes "truthCheck s opts st = Some ([], computed, st')"
  shows "truth_follows s (so_epsilon opts) \<and>
    ps_verified st' + ps_skipped st' = Suc (ps_verified st + ps_skipped st)"
  using assms by (auto simp: truthCheck_def truth_follows_def split: option.splits if_splits prod.splits)

lemma verifyStep_clean:
  assumes "verifyStep s seen task opts st = Some (r, st')" "r_findings r = []"
  shows "step_proved (so_epsilon opts) task (set seen) s \<and>
    ps_verified st' + ps_skipped st' = Suc (ps_verified st + ps_skipped st)"
proof -
  from assms obtain computed where t: "truthCheck s opts st = Some ([], computed, st')"
    and sh: "shapeChecks s = []" and l: "lineageChecks s seen task = []"
    by (auto simp: verifyStep_def Let_def split: option.splits prod.splits)
  have "set (evidenceLineage s) \<subseteq> insert task (set seen)"
    using l by (auto simp: lineageChecks_def filter_empty_conv)
  with truthCheck_clean [OF t] sh show ?thesis
    by (simp add: step_proved_def shapeChecks_def split: if_splits)
qed

lemma verifySteps_clean:
  assumes "verifySteps ss seen task opts st = Some ([], rs, st')" "\<forall>r \<in> set rs. r_findings r = []"
  shows "distinct (map stepId ss) \<and> set (map stepId ss) \<inter> set seen = {}
    \<and> ps_verified st' + ps_skipped st' = ps_verified st + ps_skipped st + length ss
    \<and> (\<forall>xs s ys. ss = xs @ s # ys \<longrightarrow>
          step_proved (so_epsilon opts) task (set seen \<union> stepId ` set xs) s)"
  using assms
proof (induction ss arbitrary: seen st rs)
  case (Cons s ss)
  from Cons.prems(1) obtain r st1 rs1 where nd: "stepId s \<notin> set seen"
    and v: "verifyStep s seen task opts st = Some (r, st1)"
    and vs: "verifySteps ss (set_add (stepId s) seen) task opts st1 = Some ([], rs1, st')"
    and rs: "rs = r # rs1"
    by (auto simp: Let_def split: option.splits prod.splits if_splits)
  have c: "step_proved (so_epsilon opts) task (set seen) s \<and>
      ps_verified st1 + ps_skipped st1 = Suc (ps_verified st + ps_skipped st)"
    using Cons.prems(2) rs by (intro verifyStep_clean [OF v]) simp
  have "\<forall>r \<in> set rs1. r_findings r = []" using Cons.prems(2) rs by simp
  note ih = Cons.IH [OF vs this]
  have "step_proved (so_epsilon opts) task (set seen \<union> stepId ` set xs) u"
    if "s # ss = xs @ u # ys" for xs u ys
  proof (cases xs)
    case Nil
    then show ?thesis using that c by simp
  next
    case (Cons x xs')
    then have "ss = xs' @ u # ys" and x: "x = s" using that by auto
    with ih have "step_proved (so_epsilon opts) task (set (set_add (stepId s) seen) \<union> stepId ` set xs') u"
      by blast
    then show ?thesis by (simp add: Cons x)
  qed
  then show ?case using ih c nd by auto
qed simp

text \<open>C1: a record the verifier accepts is a proof, as far as the algebra can judge it. Its shape
  parsed; the checked steps have distinct identifiers; each step has premises and a conclusion,
  cites only earlier steps or the task, and declares the truth its function computes from its
  premises; the final truth is the last step's, up to the epsilon of the options or the default
  one where they name none; and every step was either reproduced or counted as skipped.\<close>

theorem accepted_record_sound:
  assumes "verifyRecord parse recordId r options = Some res" "v_ok res"
    and "eps = (case vo_epsilon options of None \<Rightarrow> DEFAULT_EPSILON | Some e \<Rightarrow> e)"
  shows "\<exists>d. parse r = Inr d \<and>
    (let checked = stepsToVerify (vo_maxSteps options) (steps d)
     in distinct (map stepId checked)
        \<and> (\<forall>xs s ys. checked = xs @ s # ys \<longrightarrow> step_proved eps (taskId d) (stepId ` set xs) s)
        \<and> (checked \<noteq> [] \<longrightarrow> truthNear (stepTruth (last checked)) (finalTruth d) eps)
        \<and> (checked = [] \<longrightarrow> totalCycles d = 0)
        \<and> v_truthVerified res + v_truthSkipped res = length checked)"
proof -
  let ?opts = "\<lparr>so_epsilon = eps, so_strict = (vo_strict options = Some True)\<rparr>"
  let ?st0 = "\<lparr>ps_verified = 0, ps_skipped = 0\<rparr>"
  from assms(1,2) obtain d rs st where d: "parse r = Inr d"
    and vs: "verifySteps (stepsToVerify (vo_maxSteps options) (steps d)) [] (taskId d) ?opts ?st0
      = Some ([], rs, st)"
    and rs: "\<forall>r \<in> set rs. r_findings r = []"
    and e: "endChecks (stepsToVerify (vo_maxSteps options) (steps d)) d eps = []"
    and n: "v_truthVerified res = ps_verified st" "v_truthSkipped res = ps_skipped st"
    unfolding verifyRecord_def Let_def assms(3) [symmetric]
    by (auto split: sum.splits option.splits prod.splits)
  from verifySteps_clean [OF vs rs] d e n show ?thesis
    by (simp add: Let_def endChecks_def split: if_splits)
qed

text \<open>A two-step derivation used as the running example.\<close>

definition exampleStep :: "string \<Rightarrow> string list \<Rightarrow> derivationStep" where
  "exampleStep i lineage = \<lparr>stepId = i, ruleId = ''nal.deduction'', stepPremises = [''a'', ''b''],
     conclusion = ''c'', stepTruth = \<lparr>frequency = 1/2, confidence = 1/4\<rparr>, truthFn = Some ''deduction'',
     substitution = None,
     premiseTruths = Some [\<lparr>frequency = 1, confidence = 1/2\<rparr>, \<lparr>frequency = 1/2, confidence = 1/2\<rparr>],
     evidenceLineage = lineage, stepIndependence = Independent\<rparr>"

definition exampleRecord :: derivationRecord where
  "exampleRecord = \<lparr>derivationId = ''d'', taskId = ''t'', steps = [exampleStep ''s1'' [''t''], exampleStep ''s2'' [''s1'']],
     finalTruth = \<lparr>frequency = 1/2, confidence = 1/4\<rparr>, totalCycles = 2\<rparr>"

definition exampleOptions :: verifyOptions where
  "exampleOptions = \<lparr>vo_strict = None, vo_epsilon = None, vo_maxSteps = None\<rparr>"

lemma default_nonneg: "0 \<le> DEFAULT_EPSILON"
  by (simp add: DEFAULT_EPSILON_def)

lemma exampleStep_verified:
  "lineage = [''t''] \<and> prior = [] \<or> lineage = [''s1''] \<and> prior = [''s1''] \<Longrightarrow>
   verifyStep (exampleStep i lineage) prior ''t'' \<lparr>so_epsilon = DEFAULT_EPSILON, so_strict = False\<rparr> st =
     Some (\<lparr>r_stepId = i, r_ok = True, r_findings = [], r_declaredTruth = \<lparr>frequency = 1/2, confidence = 1/4\<rparr>,
       r_computedTruth = Some (Fin (1/2), Fin (1/4))\<rparr>, st\<lparr>ps_verified := ps_verified st + 1\<rparr>)"
  by (auto simp: verifyStep_def exampleStep_def truthCheck_def resolveTruthFn_def declaredTruthFn_def
      BINARY_TRUTH_def js_nearly_def nearlyEqual_def shapeChecks_def bindingChecks_def lineageChecks_def
      independenceChecks_def blank_def js_space_def numeral_2_eq_2 default_nonneg Let_def)

lemma exampleStep_fields [simp]:
  "stepId (exampleStep i l) = i" "stepTruth (exampleStep i l) = \<lparr>frequency = 1/2, confidence = 1/4\<rparr>"
  by (simp_all add: exampleStep_def)

lemma accepted_record_sound_witness:
  "\<exists>res. verifyRecord Inr derivationId exampleRecord exampleOptions = Some res \<and> v_ok res
     \<and> v_truthVerified res + v_truthSkipped res = 2"
proof -
  obtain res where r: "verifyRecord Inr derivationId exampleRecord exampleOptions = Some res" "v_ok res"
    by (simp add: verifyRecord_def exampleRecord_def exampleOptions_def stepsToVerify_def Let_def
        exampleStep_verified set_add_def endChecks_def truthNear_def nearlyEqual_def default_nonneg)
  from accepted_record_sound [OF r refl] r show ?thesis
    by (auto simp: exampleRecord_def exampleOptions_def stepsToVerify_def Let_def)
qed

section \<open>Steps of the engine\<close>

definition toBeliefTruth :: "truth \<Rightarrow> beliefTruth" where
  "toBeliefTruth t = \<lparr>frequency = tf t, confidence = tc t\<rparr>"

lemma js_nearly_self: "0 \<le> eps \<Longrightarrow> js_nearly (Fin x) x eps"
  by (simp add: js_nearly_def nearlyEqual_def)

lemma binary_names_nonempty: "map_of BINARY_TRUTH name = Some fn \<Longrightarrow> name \<noteq> []"
  by (auto simp: BINARY_TRUTH_def)

text \<open>the verifier accepts what the engine derives. A step that declares a binary operation of
  the table, carries its two premise truths and the truth the engine computed from them is
  counted as verified, for every operation and, for revision, whenever the pooled evidence is
  positive and below saturation.\<close>

theorem engine_step_verified:
  assumes "truth_inv t1" "truth_inv t2" "0 \<le> so_epsilon opts"
    and "map_of engineOps name = Some op"
    and "name = ''revision'' \<Longrightarrow> 0 < weight t1 + weight t2 \<and> weight t1 + weight t2 \<le> 999"
    and "truthFn step = Some name" "premiseTruths step = Some [toBeliefTruth t1, toBeliefTruth t2]"
    and "stepTruth step = toBeliefTruth (op t1 t2)"
  shows "truthCheck step opts st = Some ([], Some (pair_of (op t1 t2)), st\<lparr>ps_verified := ps_verified st + 1\<rparr>)"
proof -
  obtain fn where fn: "map_of BINARY_TRUTH name = Some fn"
    using assms(4) by (auto simp: engineOps_def BINARY_TRUTH_def split: if_splits)
  have "fn (tf t1) (tf t2) (tc t1) (tc t2) = pair_of (op t1 t2)"
  proof (cases "name = ''revision''")
    case True
    then have "fn = verifier_revision" "op = t_revision"
      using fn assms(4) by (simp_all add: verifier_revision_def engineOps_def)
    then show ?thesis using revision_compare [OF assms(1,2)] assms(5) [OF True] by simp
  next
    case False
    then show ?thesis using table_agrees [OF assms(1,2) fn] assms(4) by auto
  qed
  then show ?thesis using assms(3,6-8) fn binary_names_nonempty [OF fn]
    by (simp add: truthCheck_def resolveTruthFn_def declaredTruthFn_def toBeliefTruth_def pair_of_def
        js_nearly_self numeral_2_eq_2)
qed

lemma engine_step_verified_witness:
  "truthCheck (exampleStep ''s1'' [''t'']) \<lparr>so_epsilon = 0, so_strict = True\<rparr> \<lparr>ps_verified = 0, ps_skipped = 0\<rparr>
   = Some ([], Some (pair_of (t_deduction \<lparr>tf = 1, tc = 1/2\<rparr> \<lparr>tf = 1/2, tc = 1/2\<rparr>)), \<lparr>ps_verified = 1, ps_skipped = 0\<rparr>)"
proof -
  have i: "truth_inv \<lparr>tf = 1, tc = 1/2\<rparr>" "truth_inv \<lparr>tf = 1/2, tc = 1/2\<rparr>"
    by (simp_all add: truth_inv_def MAX_CONFIDENCE_def)
  have t: "toBeliefTruth (t_deduction \<lparr>tf = 1, tc = 1/2\<rparr> \<lparr>tf = 1/2, tc = 1/2\<rparr>) = \<lparr>frequency = 1/2, confidence = 1/4\<rparr>"
    by (simp add: toBeliefTruth_def t_deduction_def binary_op_def normalizeTruth_def clamp_def MAX_CONFIDENCE_def)
  have "truthCheck (exampleStep ''s1'' [''t'']) \<lparr>so_epsilon = 0, so_strict = True\<rparr> \<lparr>ps_verified = 0, ps_skipped = 0\<rparr>
    = Some ([], Some (pair_of (t_deduction \<lparr>tf = 1, tc = 1/2\<rparr> \<lparr>tf = 1/2, tc = 1/2\<rparr>)),
        \<lparr>ps_verified = 0, ps_skipped = 0\<rparr>\<lparr>ps_verified := ps_verified \<lparr>ps_verified = 0, ps_skipped = 0\<rparr> + 1\<rparr>)"
    by (rule engine_step_verified [OF i, where name = "''deduction''"])
      (simp_all add: engineOps_def exampleStep_def t, simp_all add: toBeliefTruth_def)
  then show ?thesis by simp
qed

section \<open>Inherited names\<close>

lemma inherited_names: "list_all (\<lambda>n. n \<noteq> [] \<and> n \<notin> set (map fst BINARY_TRUTH)) OBJECT_PROTOTYPE_NAMES"
  unfolding BINARY_TRUTH_def list.map fst_conv by code_simp

text \<open>the checker of the trusted boundary throws on a record that is well formed. The table is
  indexed without an own-property test, so a step that declares the name of a member every object
  inherits, with two premise truths, makes the whole verification raise instead of reporting a
  finding.\<close>

theorem inherited_name_throws:
  assumes "parse r = Inr d" "s \<in> set (stepsToVerify (vo_maxSteps options) (steps d))"
    and "truthFn s = Some name" "name \<in> set OBJECT_PROTOTYPE_NAMES"
    and "premiseTruths s = Some [a, b]"
  shows "verifyRecord parse recordId r options = None"
proof -
  have "name \<noteq> [] \<and> map_of BINARY_TRUTH name = None"
    using inherited_names assms(4) by (simp add: list_all_iff map_of_None_iff)
  then have "truthCheck s opts st = None" for opts st
    using assms(3-5) by (simp add: truthCheck_def resolveTruthFn_def declaredTruthFn_def)
  then have v: "verifyStep s seen task opts st = None" for seen task opts st
    by (simp add: verifyStep_def)
  have "verifySteps ss seen task opts st = None" if "s \<in> set ss" for ss seen task opts st
    using that by (induction ss arbitrary: seen st) (auto simp: v Let_def split: option.splits prod.splits)
  with assms(1,2) show ?thesis by (simp add: verifyRecord_def Let_def)
qed

lemma inherited_name_throws_witness:
  "verifyRecord Inr derivationId
     (exampleRecord\<lparr>steps := [(exampleStep ''s1'' [''t''])\<lparr>truthFn := Some ''constructor''\<rparr>]\<rparr>) exampleOptions = None"
  by (rule inherited_name_throws [where s = "(exampleStep ''s1'' [''t''])\<lparr>truthFn := Some ''constructor''\<rparr>"
        and name = "''constructor''"
        and d = "exampleRecord\<lparr>steps := [(exampleStep ''s1'' [''t''])\<lparr>truthFn := Some ''constructor''\<rparr>]\<rparr>"])
    (simp_all add: exampleStep_def exampleRecord_def exampleOptions_def stepsToVerify_def
      OBJECT_PROTOTYPE_NAMES_def)

end
