(* ===== verification/Proposals.thy ===== *)
theory Proposals
  imports Collections
begin

text \<open>
  The proposal seam: \<open>nar/src/proposal/lifecycle.ts\<close>, the reducer of
  \<open>nar/src/proposal/replay.ts\<close> and the shapes of \<open>core/src/schemas/proposal.ts\<close>
  they read. The event sink is the log of the lifecycle record. The schema validation that
  throws (zod) is the argument \<open>validate\<close>; the boundary's \<open>resolves\<close> is an argument.
  Clock readings, and the random correlation identifier of a rejection, are not modelled; the
  text of a rejection's detail is a datatype that carries what it prints.
\<close>

section \<open>Shapes\<close>

record ruleDeclaration =
  d_ruleId :: string
  d_description :: string
  d_left :: string
  d_right :: string
  d_truthFn :: string
  d_body :: string
  d_priority :: real
  d_taskType :: "string option"

datatype proposalMatter = ContentKind | RuleKind

record rulePayload =
  rp_ruleId :: string
  rp_name :: string
  rp_left :: string
  rp_right :: string
  rp_truthFn :: string
  rp_priority :: real
  rp_body :: "string option"
  rp_symbolicFallback :: "string option"

datatype proposalPayload =
  ContentPayload string string "(real \<times> real) option"
| RulePayload rulePayload

record proposal =
  p_id :: string
  p_schemaVersion :: nat
  p_baseRevision :: nat
  p_references :: "string list"
  p_payload :: proposalPayload

fun payload_kind :: "proposalPayload \<Rightarrow> proposalMatter" where
  "payload_kind (ContentPayload taskType term tr) = ContentKind"
| "payload_kind (RulePayload r) = RuleKind"

definition p_kind :: "proposal \<Rightarrow> proposalMatter" where
  "p_kind p = payload_kind (p_payload p)"

text \<open>\<open>!proposal.payload.body\<close>: the body is absent or empty.\<close>

definition missingBody :: "proposal \<Rightarrow> bool" where
  "missingBody p =
     (case p_payload p of
        RulePayload r \<Rightarrow> rp_body r = None \<or> rp_body r = Some []
      | ContentPayload _ _ _ \<Rightarrow> True)"

definition PROPOSAL_SCHEMA_VERSION :: nat where "PROPOSAL_SCHEMA_VERSION = 2"

datatype proposalRejection =
  SchemaVersion | StaleRevision | EvictedReference | QueueOverflow | Cancelled | FailedSchema

datatype rejectionDetail =
  RuleQueueFull int | ContentDropOldest | VersionAgainst nat nat | BaseAgainst nat nat
| Unresolved "string list" | RequiresBody | CancelledBefore

record admittedEvent =
  a_proposalId :: string
  a_kind :: proposalMatter
  a_schemaVersion :: nat
  a_baseRevision :: nat
  a_resultingRevision :: nat
  a_declaration :: "ruleDeclaration option"
  a_producer :: "string option"
  a_correlationId :: string

record rejectedEvent =
  j_proposalId :: string
  j_kind :: proposalMatter
  j_reason :: proposalRejection
  j_detail :: rejectionDetail
  j_observedRevision :: nat

datatype cognitiveEvent = Admitted admittedEvent | Rejected rejectedEvent | OtherEvent string

section \<open>The lifecycle\<close>

record queueLimits =
  maxPendingContent :: int
  maxPendingRules :: int

definition DEFAULT_QUEUE_LIMITS :: queueLimits where
  "DEFAULT_QUEUE_LIMITS = \<lparr>maxPendingContent = 64, maxPendingRules = 16\<rparr>"

record lifecycle =
  l_limits :: queueLimits
  l_content :: "proposal list"
  l_rules :: "proposal list"
  l_revision :: nat
  l_contentDropped :: nat
  l_rulesRefused :: nat
  l_rejected :: nat
  l_admitted :: nat
  l_rejections :: "(proposalRejection, real) omap"
  l_log :: "cognitiveEvent list"

definition newProposalLifecycle :: "queueLimits \<Rightarrow> lifecycle" where
  "newProposalLifecycle limits = \<lparr>l_limits = limits, l_content = [], l_rules = [], l_revision = 0,
     l_contentDropped = 0, l_rulesRefused = 0, l_rejected = 0, l_admitted = 0, l_rejections = [], l_log = []\<rparr>"

definition countRejection :: "lifecycle \<Rightarrow> proposalRejection \<Rightarrow> lifecycle" where
  "countRejection s reason = s\<lparr>l_rejected := l_rejected s + 1,
     l_rejections := snd (incrementCount omap_get omap_set (l_rejections s) reason 1)\<rparr>"

definition refuse :: "lifecycle \<Rightarrow> proposal \<Rightarrow> proposalRejection \<Rightarrow> rejectionDetail \<Rightarrow> lifecycle" where
  "refuse s p reason detail =
     (let s' = countRejection s reason;
          event = Rejected \<lparr>j_proposalId = p_id p, j_kind = p_kind p, j_reason = reason,
                    j_detail = detail, j_observedRevision = l_revision s'\<rparr>
      in s'\<lparr>l_log := l_log s' @ [event]\<rparr>)"

fun fromEvents_step :: "cognitiveEvent \<Rightarrow> lifecycle \<Rightarrow> lifecycle" where
  "fromEvents_step (Admitted a) s = s\<lparr>l_revision := a_resultingRevision a, l_admitted := l_admitted s + 1\<rparr>"
| "fromEvents_step (Rejected r) s = countRejection s (j_reason r)"
| "fromEvents_step (OtherEvent _) s = s"

definition lifecycle_fromEvents :: "cognitiveEvent list \<Rightarrow> queueLimits \<Rightarrow> lifecycle" where
  "lifecycle_fromEvents events limits = fold fromEvents_step events (newProposalLifecycle limits)"

text \<open>\<open>None\<close> is the throw of the validation.\<close>

definition submit_proposal ::
  "(proposal \<Rightarrow> proposal option) \<Rightarrow> lifecycle \<Rightarrow> proposal \<Rightarrow> (bool \<times> lifecycle) option" where
  "submit_proposal validate s proposal =
     (case validate proposal of
        None \<Rightarrow> None
      | Some parsed \<Rightarrow>
          if p_kind parsed = RuleKind then
            if int (length (l_rules s)) \<ge> maxPendingRules (l_limits s)
            then Some (False, refuse (s\<lparr>l_rulesRefused := l_rulesRefused s + 1\<rparr>) parsed QueueOverflow
                   (RuleQueueFull (maxPendingRules (l_limits s))))
            else Some (True, s\<lparr>l_rules := l_rules s @ [parsed]\<rparr>)
          else
            (case pushCapped (l_content s) parsed (maxPendingContent (l_limits s)) of
               (content, None) \<Rightarrow> Some (True, s\<lparr>l_content := content\<rparr>)
             | (content, Some displaced) \<Rightarrow>
                 Some (True, refuse (s\<lparr>l_content := content, l_contentDropped := l_contentDropped s + 1\<rparr>)
                         displaced QueueOverflow ContentDropOldest)))"

definition lifecycle_pending :: "lifecycle \<Rightarrow> nat" where
  "lifecycle_pending s = length (l_content s) + length (l_rules s)"

datatype admissionVerdict =
  Cleared proposal
| Refused proposal proposalRejection rejectionDetail

definition judge :: "lifecycle \<Rightarrow> proposal \<Rightarrow> (string \<Rightarrow> bool) \<Rightarrow> admissionVerdict" where
  "judge s p resolves =
     (if p_schemaVersion p \<noteq> PROPOSAL_SCHEMA_VERSION
      then Refused p SchemaVersion (VersionAgainst (p_schemaVersion p) PROPOSAL_SCHEMA_VERSION)
      else if p_baseRevision p \<noteq> l_revision s
      then Refused p StaleRevision (BaseAgainst (p_baseRevision p) (l_revision s))
      else let missing = filter (\<lambda>r. \<not> resolves r) (p_references p)
           in if missing \<noteq> [] then Refused p EvictedReference (Unresolved missing)
              else if p_kind p = RuleKind \<and> missingBody p then Refused p FailedSchema RequiresBody
              else Cleared p)"

fun judge_all ::
  "(string \<Rightarrow> bool) \<Rightarrow> proposal list \<Rightarrow> lifecycle \<Rightarrow> admissionVerdict list \<times> lifecycle" where
  "judge_all resolves [] s = ([], s)"
| "judge_all resolves (p # ps) s =
     (let verdict = judge s p resolves;
          s' = (case verdict of Cleared _ \<Rightarrow> s | Refused _ reason detail \<Rightarrow> refuse s p reason detail);
          (vs, s'') = judge_all resolves ps s'
      in (verdict # vs, s''))"

definition admit_proposals :: "lifecycle \<Rightarrow> (string \<Rightarrow> bool) \<Rightarrow> admissionVerdict list \<times> lifecycle" where
  "admit_proposals s resolves =
     judge_all resolves (l_content s @ l_rules s) (s\<lparr>l_content := [], l_rules := []\<rparr>)"

definition commit_verdict :: "lifecycle \<Rightarrow> admissionVerdict \<Rightarrow> string \<Rightarrow> int \<times> lifecycle" where
  "commit_verdict s verdict correlationId =
     (case verdict of
        Refused _ _ _ \<Rightarrow> (-1, s)
      | Cleared p \<Rightarrow>
          (let s' = s\<lparr>l_admitted := l_admitted s + 1, l_revision := l_revision s + 1\<rparr>;
               event = Admitted \<lparr>a_proposalId = p_id p, a_kind = p_kind p, a_schemaVersion = p_schemaVersion p,
                 a_baseRevision = p_baseRevision p, a_resultingRevision = l_revision s',
                 a_declaration = None, a_producer = None, a_correlationId = correlationId\<rparr>
           in (int (l_revision s'), s'\<lparr>l_log := l_log s' @ [event]\<rparr>)))"

definition withdraw_content :: "lifecycle \<Rightarrow> string \<Rightarrow> bool \<times> lifecycle" where
  "withdraw_content s i =
     (case removeBy (l_content s) (\<lambda>p. p_id p = i) of
        (None, _) \<Rightarrow> (False, s)
      | (Some p, rest) \<Rightarrow> (True, refuse (s\<lparr>l_content := rest\<rparr>) p Cancelled CancelledBefore))"

definition withdraw_rules :: "lifecycle \<Rightarrow> string \<Rightarrow> bool \<times> lifecycle" where
  "withdraw_rules s i =
     (case removeBy (l_rules s) (\<lambda>p. p_id p = i) of
        (None, _) \<Rightarrow> (False, s)
      | (Some p, rest) \<Rightarrow> (True, refuse (s\<lparr>l_rules := rest\<rparr>) p Cancelled CancelledBefore))"

definition cancel_proposal :: "lifecycle \<Rightarrow> string \<Rightarrow> bool \<times> lifecycle" where
  "cancel_proposal s i =
     (case withdraw_content s i of
        (True, s') \<Rightarrow> (True, s')
      | (False, s') \<Rightarrow> withdraw_rules s' i)"

record lifecycleStats =
  st_revision :: nat
  st_contentPending :: nat
  st_rulePending :: nat
  st_contentDropped :: nat
  st_rulesRefused :: nat
  st_rejected :: nat
  st_admitted :: nat

definition lifecycle_stats :: "lifecycle \<Rightarrow> lifecycleStats" where
  "lifecycle_stats s = \<lparr>st_revision = l_revision s, st_contentPending = length (l_content s),
     st_rulePending = length (l_rules s), st_contentDropped = l_contentDropped s,
     st_rulesRefused = l_rulesRefused s, st_rejected = l_rejected s, st_admitted = l_admitted s\<rparr>"

section \<open>Replay\<close>

record replayState =
  rs_revision :: nat
  rs_admissions :: "admittedEvent list"
  rs_rejections :: "rejectedEvent list"
  rs_rejectedByReason :: "(proposalRejection, real) omap"
  rs_declarations :: "ruleDeclaration list"
  rs_schemaVersions :: "nat list"

fun isProposalEvent :: "cognitiveEvent \<Rightarrow> bool" where
  "isProposalEvent (OtherEvent _) = False"
| "isProposalEvent _ = True"

definition isProposalStream :: "cognitiveEvent list \<Rightarrow> bool" where
  "isProposalStream events = list_ex isProposalEvent events"

fun admissions_of :: "cognitiveEvent list \<Rightarrow> admittedEvent list" where
  "admissions_of [] = []"
| "admissions_of (Admitted a # es) = a # admissions_of es"
| "admissions_of (_ # es) = admissions_of es"

fun rejections_of :: "cognitiveEvent list \<Rightarrow> rejectedEvent list" where
  "rejections_of [] = []"
| "rejections_of (Rejected r # es) = r # rejections_of es"
| "rejections_of (_ # es) = rejections_of es"

definition recordedSchemaVersions :: "cognitiveEvent list \<Rightarrow> nat list" where
  "recordedSchemaVersions events =
     js_sort (\<le>) (unique (map a_schemaVersion (admissions_of events)))"

text \<open>One event of the reduction: the admissions, the rejections, the counts and the revision.\<close>

fun replay_step ::
  "cognitiveEvent \<Rightarrow> admittedEvent list \<times> rejectedEvent list \<times> (proposalRejection, real) omap \<times> nat
     \<Rightarrow> admittedEvent list \<times> rejectedEvent list \<times> (proposalRejection, real) omap \<times> nat" where
  "replay_step (Admitted a) (as, rs, by, r0) = (as @ [a], rs, by, a_resultingRevision a)"
| "replay_step (Rejected r) (as, rs, by, r0) =
     (as, rs @ [r],
      AList.update (j_reason r) ((case map_of by (j_reason r) of Some n \<Rightarrow> n | None \<Rightarrow> 0) + 1) by, r0)"
| "replay_step (OtherEvent _) st = st"

text \<open>\<open>None\<close> is the \<open>ProposalReplayError\<close>.\<close>

definition replayProposalStream :: "cognitiveEvent list \<Rightarrow> replayState option" where
  "replayProposalStream events =
     (let versions = recordedSchemaVersions events
      in if filter (\<lambda>v. v \<noteq> PROPOSAL_SCHEMA_VERSION) versions \<noteq> [] then None
         else (case fold replay_step events ([], [], [], 0) of
                 (as, rs, by, r0) \<Rightarrow>
                   Some \<lparr>rs_revision = r0, rs_admissions = as, rs_rejections = rs,
                     rs_rejectedByReason = by, rs_declarations = List.map_filter a_declaration as,
                     rs_schemaVersions = versions\<rparr>))"

definition staleAdmissions :: "cognitiveEvent list \<Rightarrow> nat \<Rightarrow> admittedEvent list option" where
  "staleAdmissions events committedRevision =
     map_option (\<lambda>st. filter (\<lambda>a. a_resultingRevision a > committedRevision) (rs_admissions st))
       (replayProposalStream events)"

section \<open>Event sourcing\<close>

text \<open>A component whose log determines a view of its state: every operation appends events, and the
  view of the new state is what absorbing them gives.\<close>

locale event_sourced =
  fixes step :: "'op \<Rightarrow> 's \<Rightarrow> 's"
    and log_of :: "'s \<Rightarrow> 'e list"
    and view :: "'s \<Rightarrow> 'v"
    and absorb :: "'e \<Rightarrow> 'v \<Rightarrow> 'v"
  assumes step_logs: "\<exists>es. log_of (step x s) = log_of s @ es \<and> view (step x s) = fold absorb es (view s)"
begin

lemma run_logs:
  "\<exists>es. log_of (fold step xs s) = log_of s @ es \<and> view (fold step xs s) = fold absorb es (view s)"
proof (induction xs arbitrary: s)
  case (Cons x xs)
  obtain es1 where 1: "log_of (step x s) = log_of s @ es1" "view (step x s) = fold absorb es1 (view s)"
    using step_logs by blast
  obtain es2 where 2: "log_of (fold step xs (step x s)) = log_of (step x s) @ es2"
    "view (fold step xs (step x s)) = fold absorb es2 (view (step x s))"
    using Cons.IH by blast
  from 1 2 show ?case by (intro exI [of _ "es1 @ es2"]) simp
qed simp

lemma rebuild:
  "log_of s = [] \<Longrightarrow> fold absorb (log_of (fold step xs s)) (view s) = view (fold step xs s)"
  using run_logs [of xs s] by auto

end

text \<open>The operations of the lifecycle as values. A submission the validation throws on changes
  nothing.\<close>

datatype lifecycleOp =
  Submit proposal | AdmitBoundary "string \<Rightarrow> bool" | Commit admissionVerdict string | Cancel string

fun lc_step :: "(proposal \<Rightarrow> proposal option) \<Rightarrow> lifecycleOp \<Rightarrow> lifecycle \<Rightarrow> lifecycle" where
  "lc_step validate (Submit p) s = (case submit_proposal validate s p of None \<Rightarrow> s | Some (_, s') \<Rightarrow> s')"
| "lc_step validate (AdmitBoundary resolves) s = snd (admit_proposals s resolves)"
| "lc_step validate (Commit v c) s = snd (commit_verdict s v c)"
| "lc_step validate (Cancel i) s = snd (cancel_proposal s i)"

text \<open>What of the state the log determines.\<close>

definition durable :: "lifecycle \<Rightarrow> lifecycle" where
  "durable s = s\<lparr>l_content := [], l_rules := [], l_contentDropped := 0, l_rulesRefused := 0, l_log := []\<rparr>"

lemma durable_updates [simp]:
  "durable (s\<lparr>l_content := x\<rparr>) = durable s" "durable (s\<lparr>l_rules := x\<rparr>) = durable s"
  "durable (s\<lparr>l_contentDropped := n\<rparr>) = durable s" "durable (s\<lparr>l_rulesRefused := n\<rparr>) = durable s"
  "durable (s\<lparr>l_log := l\<rparr>) = durable s"
  by (simp_all add: durable_def)

lemma refuse_logs:
  "\<exists>r. l_log (refuse s p reason detail) = l_log s @ [Rejected r]
     \<and> durable (refuse s p reason detail) = fromEvents_step (Rejected r) (durable s)
     \<and> j_proposalId r = p_id p \<and> j_reason r = reason"
  by (auto simp: refuse_def countRejection_def durable_def Let_def)

lemma refuse_frame [frame_simps]:
  "l_content (refuse s p reason detail) = l_content s" "l_rules (refuse s p reason detail) = l_rules s"
  "l_revision (refuse s p reason detail) = l_revision s" "l_limits (refuse s p reason detail) = l_limits s"
  "l_admitted (refuse s p reason detail) = l_admitted s"
  "l_contentDropped (refuse s p reason detail) = l_contentDropped s"
  "l_rulesRefused (refuse s p reason detail) = l_rulesRefused s"
  "l_rejected (refuse s p reason detail) = l_rejected s + 1"
  by (simp_all add: refuse_def countRejection_def Let_def)

definition appends :: "lifecycle \<Rightarrow> lifecycle \<Rightarrow> bool" where
  "appends s s' = (\<exists>es. l_log s' = l_log s @ es \<and> durable s' = fold fromEvents_step es (durable s))"

lemma appends_same [intro]: "l_log s' = l_log s \<Longrightarrow> durable s' = durable s \<Longrightarrow> appends s s'"
  by (simp add: appends_def)

lemma appends_trans: "appends a b \<Longrightarrow> appends b c \<Longrightarrow> appends a c"
  unfolding appends_def by (metis append.assoc fold_append comp_apply)

lemma appends_refuse: "l_log t = l_log s \<Longrightarrow> durable t = durable s \<Longrightarrow> appends s (refuse t p reason detail)"
  using refuse_logs [of t p reason detail] unfolding appends_def by (metis fold_simps)

lemma appends_judge_all: "appends s (snd (judge_all resolves ps s))"
proof (induction ps arbitrary: s)
  case (Cons p ps)
  then show ?case
    by (auto simp: Let_def split: prod.split admissionVerdict.split)
      (metis appends_refuse appends_trans snd_conv)+
qed (simp add: appends_same)

lemma appends_step: "appends s (lc_step validate x s)"
proof (cases x)
  case (Submit p)
  then show ?thesis
    by (auto simp: submit_proposal_def appends_refuse split: option.splits prod.splits)
next
  case (AdmitBoundary resolves)
  have "appends s (s\<lparr>l_content := [], l_rules := []\<rparr>)" by (rule appends_same) simp_all
  then show ?thesis using AdmitBoundary
    by (simp add: admit_proposals_def) (metis appends_judge_all appends_trans)
next
  case (Commit v c)
  then show ?thesis
    by (auto simp: commit_verdict_def Let_def appends_def durable_def split: admissionVerdict.split)
next
  case (Cancel i)
  then show ?thesis
    by (auto simp: cancel_proposal_def withdraw_content_def withdraw_rules_def appends_refuse
        split: option.split prod.split bool.split)
qed

interpretation ledger: event_sourced "lc_step validate" l_log durable fromEvents_step for validate
  using appends_step by unfold_locales (simp add: appends_def)

text \<open>C29: the log is the ledger. Rebuilding a lifecycle from the events any sequence of operations
  recorded gives back the committed revision, the admission and rejection counts and the counts
  by reason; only the queues and their overflow counters are not recorded.\<close>

theorem lifecycle_rebuilt_from_log:
  "lifecycle_fromEvents (l_log (fold (lc_step validate) xs (newProposalLifecycle limits))) limits
   = durable (fold (lc_step validate) xs (newProposalLifecycle limits))"
  using ledger.rebuild [of "newProposalLifecycle limits" validate xs]
  by (simp add: lifecycle_fromEvents_def newProposalLifecycle_def durable_def)

section \<open>The reducer\<close>

lemma replay_fold:
  "fold replay_step es (as, rs, l_rejections s, l_revision s) =
     (as @ admissions_of es, rs @ rejections_of es,
      l_rejections (fold fromEvents_step es s), l_revision (fold fromEvents_step es s))"
proof (induction es arbitrary: as rs s)
  case (Cons e es)
  then show ?case
  proof (cases e)
    case (Admitted a)
    then show ?thesis using Cons [of "as @ [a]" rs "fromEvents_step e s"] by simp
  next
    case (Rejected r)
    have "replay_step e (as, rs, l_rejections s, l_revision s) =
        (as, rs @ [r], l_rejections (fromEvents_step e s), l_revision (fromEvents_step e s))"
      by (simp add: Rejected countRejection_def incrementCount_def omap_get_def omap_set_def Let_def)
    then show ?thesis using Cons [of as "rs @ [r]" "fromEvents_step e s"] Rejected by simp
  next
    case (OtherEvent x)
    then show ?thesis using Cons [of as rs s] by simp
  qed
qed simp

lemma fromEvents_counts:
  "l_admitted (fold fromEvents_step es s) = l_admitted s + length (admissions_of es)
   \<and> l_rejected (fold fromEvents_step es s) = l_rejected s + length (rejections_of es)"
proof (induction es arbitrary: s)
  case (Cons e es)
  show ?case using Cons [of "fromEvents_step e s"] by (cases e) (simp_all add: countRejection_def)
qed simp

text \<open>the two reductions of one log cannot disagree. When the stream's schema versions are all
  the current one, the reducer succeeds, and its revision, its counts by reason and the number of
  admissions and rejections it lists are those of the lifecycle rebuilt from the same events; when
  one is not, it refuses.\<close>

theorem replay_agrees_with_lifecycle:
  "if \<forall>a \<in> set (admissions_of events). a_schemaVersion a = PROPOSAL_SCHEMA_VERSION
   then \<exists>st. replayProposalStream events = Some st
     \<and> rs_revision st = l_revision (lifecycle_fromEvents events limits)
     \<and> rs_rejectedByReason st = l_rejections (lifecycle_fromEvents events limits)
     \<and> length (rs_admissions st) = l_admitted (lifecycle_fromEvents events limits)
     \<and> length (rs_rejections st) = l_rejected (lifecycle_fromEvents events limits)
   else replayProposalStream events = None"
proof -
  have v: "filter (\<lambda>v. v \<noteq> PROPOSAL_SCHEMA_VERSION) (recordedSchemaVersions events) = []
    \<longleftrightarrow> (\<forall>a \<in> set (admissions_of events). a_schemaVersion a = PROPOSAL_SCHEMA_VERSION)"
    by (auto simp: filter_empty_conv recordedSchemaVersions_def)
  have f: "fold replay_step events ([], [], [], 0) =
     (admissions_of events, rejections_of events,
      l_rejections (lifecycle_fromEvents events limits), l_revision (lifecycle_fromEvents events limits))"
    using replay_fold [of events "[]" "[]" "newProposalLifecycle limits"]
    by (simp add: newProposalLifecycle_def lifecycle_fromEvents_def)
  have c: "l_admitted (lifecycle_fromEvents events limits) = length (admissions_of events)"
    "l_rejected (lifecycle_fromEvents events limits) = length (rejections_of events)"
    using fromEvents_counts [of events "newProposalLifecycle limits"]
    by (simp_all add: newProposalLifecycle_def lifecycle_fromEvents_def)
  show ?thesis unfolding replayProposalStream_def f Let_def v [symmetric] by (simp add: c)
qed

section \<open>Bounds and revisions\<close>

lemma admissions_append [simp]: "admissions_of (xs @ ys) = admissions_of xs @ admissions_of ys"
  by (induction xs rule: admissions_of.induct) simp_all

lemma rejections_append [simp]: "rejections_of (xs @ ys) = rejections_of xs @ rejections_of ys"
  by (induction xs rule: rejections_of.induct) simp_all

definition overflow_count :: "lifecycle \<Rightarrow> nat" where
  "overflow_count s = length (filter (\<lambda>r. j_reason r = QueueOverflow) (rejections_of (l_log s)))"

definition lifecycle_inv :: "lifecycle \<Rightarrow> bool" where
  "lifecycle_inv s =
     (int (length (l_content s)) \<le> max 0 (maxPendingContent (l_limits s))
      \<and> int (length (l_rules s)) \<le> max 0 (maxPendingRules (l_limits s))
      \<and> map a_resultingRevision (admissions_of (l_log s)) = [1..<Suc (l_revision s)]
      \<and> l_admitted s = l_revision s
      \<and> l_rejected s = length (rejections_of (l_log s))
      \<and> l_contentDropped s + l_rulesRefused s = overflow_count s
      \<and> (\<forall>a \<in> set (admissions_of (l_log s)). a_declaration a = None))"

lemma refuse_log_parts [simp]:
  "admissions_of (l_log (refuse s p reason detail)) = admissions_of (l_log s)"
  "length (rejections_of (l_log (refuse s p reason detail))) = Suc (length (rejections_of (l_log s)))"
  "overflow_count (refuse s p reason detail) = overflow_count s + (if reason = QueueOverflow then 1 else 0)"
  using refuse_logs [of s p reason detail] by (auto simp: overflow_count_def)

lemma overflow_frame [simp]:
  "overflow_count (s\<lparr>l_content := x\<rparr>) = overflow_count s" "overflow_count (s\<lparr>l_rules := x\<rparr>) = overflow_count s"
  "overflow_count (s\<lparr>l_contentDropped := n\<rparr>) = overflow_count s"
  "overflow_count (s\<lparr>l_rulesRefused := n\<rparr>) = overflow_count s"
  by (simp_all add: overflow_count_def)

lemma refuse_inv [inv_intros]:
  "reason \<noteq> QueueOverflow \<Longrightarrow> lifecycle_inv s \<Longrightarrow> lifecycle_inv (refuse s p reason detail)"
  by (simp add: lifecycle_inv_def frame_simps)

lemma judge_reason: "judge s p resolves = Refused q reason detail \<Longrightarrow> reason \<noteq> QueueOverflow \<and> q = p"
  by (auto simp: judge_def Let_def split: if_splits)

lemma judge_Cleared: "judge s p resolves = Cleared q \<Longrightarrow> q = p"
  by (auto simp: judge_def Let_def split: if_splits)

lemma judge_all_inv [inv_intros]: "lifecycle_inv s \<Longrightarrow> lifecycle_inv (snd (judge_all resolves ps s))"
proof (induction ps arbitrary: s)
  case (Cons p ps)
  show ?case
  proof (cases "judge s p resolves")
    case (Cleared q)
    with Cons show ?thesis by (simp add: Let_def case_prod_unfold)
  next
    case (Refused q reason detail)
    then have "lifecycle_inv (refuse s p reason detail)"
      using judge_reason Cons.prems by (intro refuse_inv) blast+
    with Refused Cons.IH show ?thesis by (simp add: Let_def case_prod_unfold)
  qed
qed simp

lemma removeBy_length: "removeBy xs p = (Some x, rest) \<Longrightarrow> length xs = Suc (length rest)"
  unfolding removeBy_def using removeByFrom_present(2) [of xs p False x rest] by (metis size_add_mset size_mset)

lemma pushCapped_length:
  "int (length xs) \<le> max 0 c \<Longrightarrow> pushCapped xs x c = (ys, d) \<Longrightarrow> int (length ys) \<le> max 0 c"
  by (cases xs) (auto simp: pushCapped_def Let_def split: if_splits)

lemma inv_queue_rule:
  "lifecycle_inv s \<Longrightarrow> int (length (l_rules s)) < maxPendingRules (l_limits s) \<Longrightarrow>
   lifecycle_inv (s\<lparr>l_rules := l_rules s @ [q]\<rparr>)"
  by (simp add: lifecycle_inv_def)

lemma inv_refuse_rule:
  "lifecycle_inv s \<Longrightarrow> lifecycle_inv (refuse (s\<lparr>l_rulesRefused := l_rulesRefused s + 1\<rparr>) q QueueOverflow d)"
  by (simp add: lifecycle_inv_def frame_simps)

lemma inv_queue_content:
  "lifecycle_inv s \<Longrightarrow> int (length c) \<le> max 0 (maxPendingContent (l_limits s)) \<Longrightarrow>
   lifecycle_inv (s\<lparr>l_content := c\<rparr>)"
  by (simp add: lifecycle_inv_def)

lemma inv_drop_content:
  "lifecycle_inv s \<Longrightarrow> int (length c) \<le> max 0 (maxPendingContent (l_limits s)) \<Longrightarrow>
   lifecycle_inv (refuse (s\<lparr>l_content := c, l_contentDropped := l_contentDropped s + 1\<rparr>) q QueueOverflow d)"
  by (simp add: lifecycle_inv_def frame_simps)

lemma submit_inv:
  assumes "lifecycle_inv s" "submit_proposal validate s p = Some (b, s')"
  shows "lifecycle_inv s'"
proof -
  obtain q where q: "validate p = Some q" using assms(2) by (auto simp: submit_proposal_def split: option.splits)
  obtain content d where c: "pushCapped (l_content s) q (maxPendingContent (l_limits s)) = (content, d)"
    by fastforce
  have le: "int (length content) \<le> max 0 (maxPendingContent (l_limits s))"
    using pushCapped_length [OF _ c] assms(1) by (simp add: lifecycle_inv_def)
  show ?thesis
    using assms(2) q c inv_queue_rule [OF assms(1)] inv_refuse_rule [OF assms(1)]
      inv_queue_content [OF assms(1) le] inv_drop_content [OF assms(1) le]
    by (cases d; cases "p_kind q = RuleKind"; cases "maxPendingRules (l_limits s) \<le> int (length (l_rules s))")
      (simp_all add: submit_proposal_def, auto)
qed

lemma lc_step_inv [inv_intros]:
  assumes "lifecycle_inv s"
  shows "lifecycle_inv (lc_step validate x s)"
proof (cases x)
  case (Submit p)
  then show ?thesis using assms submit_inv [OF assms] by (auto split: option.split)
next
  case (AdmitBoundary resolves)
  have "lifecycle_inv (s\<lparr>l_content := [], l_rules := []\<rparr>)" using assms by (simp add: lifecycle_inv_def)
  then show ?thesis using AdmitBoundary by (simp add: admit_proposals_def judge_all_inv)
next
  case (Commit v c)
  then show ?thesis using assms
    by (auto simp: commit_verdict_def Let_def lifecycle_inv_def overflow_count_def split: admissionVerdict.split)
next
  case (Cancel i)
  have "lifecycle_inv (s\<lparr>l_content := rest\<rparr>)"
    if "removeBy (l_content s) (\<lambda>p. p_id p = i) = (Some p, rest)" for p rest
    using removeBy_length [OF that] assms by (simp add: lifecycle_inv_def)
  moreover have "lifecycle_inv (s\<lparr>l_rules := rest\<rparr>)"
    if "removeBy (l_rules s) (\<lambda>p. p_id p = i) = (Some p, rest)" for p rest
    using removeBy_length [OF that] assms by (simp add: lifecycle_inv_def)
  ultimately show ?thesis using Cancel assms
    by (auto simp: cancel_proposal_def withdraw_content_def withdraw_rules_def refuse_inv
        split: option.split prod.split bool.split)
qed

lemma lifecycle_run_inv: "lifecycle_inv (fold (lc_step validate) xs (newProposalLifecycle limits))"
proof -
  have "lifecycle_inv (newProposalLifecycle limits)"
    by (simp add: lifecycle_inv_def newProposalLifecycle_def overflow_count_def)
  then have "lifecycle_inv s \<Longrightarrow> lifecycle_inv (fold (lc_step validate) xs s)" for s
    by (induction xs arbitrary: s) (simp_all add: lc_step_inv)
  then show ?thesis using \<open>lifecycle_inv (newProposalLifecycle limits)\<close> by blast
qed

text \<open>what every sequence of submissions, boundaries, commits and cancellations keeps. The two
  queues stay within their limits, the logged admissions state exactly the revisions from one to
  the committed one in order, the admission and rejection counters count the log, and each
  displaced content proposal and each refused rule is a recorded overflow rejection.\<close>

theorem lifecycle_keeps_invariant:
  "lifecycle_inv (fold (lc_step validate) xs (newProposalLifecycle limits))"
  by (rule lifecycle_run_inv)

section \<open>Accounting\<close>

text \<open>A run that also keeps what was submitted (as parsed) and what a boundary cleared.\<close>

fun accounted ::
  "(proposal \<Rightarrow> proposal option) \<Rightarrow> lifecycleOp \<Rightarrow> proposal list \<times> proposal list \<times> lifecycle
    \<Rightarrow> proposal list \<times> proposal list \<times> lifecycle" where
  "accounted validate (Submit p) (subs, cleared, s) =
     ((case validate p of None \<Rightarrow> subs | Some q \<Rightarrow> q # subs), cleared, lc_step validate (Submit p) s)"
| "accounted validate (AdmitBoundary resolves) (subs, cleared, s) =
     (let (vs, s') = admit_proposals s resolves
      in (subs, List.map_filter (\<lambda>v. case v of Cleared p \<Rightarrow> Some p | _ \<Rightarrow> None) vs @ cleared, s'))"
| "accounted validate x (subs, cleared, s) = (subs, cleared, lc_step validate x s)"

definition ids :: "proposal list \<Rightarrow> string multiset" where
  "ids ps = mset (map p_id ps)"

definition rejected_ids :: "lifecycle \<Rightarrow> string multiset" where
  "rejected_ids s = mset (map j_proposalId (rejections_of (l_log s)))"

definition balanced :: "proposal list \<times> proposal list \<times> lifecycle \<Rightarrow> bool" where
  "balanced = (\<lambda>(subs, cleared, s).
     ids subs = ids (l_content s) + ids (l_rules s) + rejected_ids s + ids cleared)"

lemma rejected_refuse [simp]: "rejected_ids (refuse s p reason detail) = add_mset (p_id p) (rejected_ids s)"
  using refuse_logs [of s p reason detail] by (auto simp: rejected_ids_def)

lemma rejected_frame [simp]:
  "rejected_ids (s\<lparr>l_content := x\<rparr>) = rejected_ids s" "rejected_ids (s\<lparr>l_rules := x\<rparr>) = rejected_ids s"
  "rejected_ids (s\<lparr>l_contentDropped := n\<rparr>) = rejected_ids s"
  "rejected_ids (s\<lparr>l_rulesRefused := n\<rparr>) = rejected_ids s"
  by (simp_all add: rejected_ids_def)

lemma ids_simps [simp]: "ids [] = {#}" "ids (p # ps) = add_mset (p_id p) (ids ps)" "ids (ps @ qs) = ids ps + ids qs"
  by (simp_all add: ids_def)

lemma judge_all_balance:
  "judge_all resolves ps s = (vs, s') \<Longrightarrow>
   ids ps + rejected_ids s = rejected_ids s' + ids (List.map_filter (\<lambda>v. case v of Cleared p \<Rightarrow> Some p | _ \<Rightarrow> None) vs)
   \<and> l_content s' = l_content s \<and> l_rules s' = l_rules s"
proof (induction ps arbitrary: s vs)
  case (Cons p ps)
  show ?case
  proof (cases "judge s p resolves")
    case (Cleared q)
    obtain vs1 where "judge_all resolves ps s = (vs1, s')" "vs = Cleared p # vs1"
      using Cons.prems Cleared judge_Cleared [OF Cleared] by (auto simp: Let_def split: prod.splits)
    then show ?thesis using Cons.IH [of s vs1] by (simp add: map_filter_simps)
  next
    case (Refused q reason detail)
    obtain vs1 where "judge_all resolves ps (refuse s p reason detail) = (vs1, s')"
      "vs = Refused q reason detail # vs1"
      using Cons.prems Refused by (auto simp: Let_def split: prod.splits)
    then show ?thesis using Cons.IH [of "refuse s p reason detail" vs1]
      by (simp add: map_filter_simps frame_simps)
  qed
qed (simp add: map_filter_simps)

lemma pushCapped_balance:
  "pushCapped xs x c = (ys, d) \<Longrightarrow>
   ids xs + {#p_id x#} = ids ys + (case d of None \<Rightarrow> {#} | Some p \<Rightarrow> {#p_id p#})"
  by (cases xs) (auto simp: pushCapped_def Let_def split: if_splits)

lemma removeBy_balance: "removeBy xs p = (Some x, rest) \<Longrightarrow> ids xs = add_mset (p_id x) (ids rest)"
  unfolding removeBy_def ids_def
  using removeByFrom_present(2) [of xs p False x rest] by (metis image_mset_add_mset mset_map)

lemma submit_balance:
  assumes "submit_proposal validate s p = Some (b, s')" "validate p = Some q"
  shows "ids (l_content s) + ids (l_rules s) + rejected_ids s + {#p_id q#}
     = ids (l_content s') + ids (l_rules s') + rejected_ids s'"
proof -
  obtain content d where c: "pushCapped (l_content s) q (maxPendingContent (l_limits s)) = (content, d)"
    by fastforce
  show ?thesis using assms c pushCapped_balance [OF c]
    by (cases d; cases "p_kind q = RuleKind"; cases "maxPendingRules (l_limits s) \<le> int (length (l_rules s))")
      (auto simp: submit_proposal_def frame_simps ac_simps)
qed

lemma cancel_balance:
  "ids (l_content s) + ids (l_rules s) + rejected_ids s
   = ids (l_content (snd (cancel_proposal s i))) + ids (l_rules (snd (cancel_proposal s i)))
     + rejected_ids (snd (cancel_proposal s i))"
proof (cases "removeBy (l_content s) (\<lambda>p. p_id p = i)")
  case (Pair a rest)
  show ?thesis
  proof (cases a)
    case (Some p)
    with Pair removeBy_balance [of "l_content s"] show ?thesis
      by (simp add: cancel_proposal_def withdraw_content_def frame_simps)
  next
    case None
    obtain c rest' where r: "removeBy (l_rules s) (\<lambda>p. p_id p = i) = (c, rest')" by fastforce
    with Pair None removeBy_balance [of "l_rules s"] show ?thesis
      by (cases c) (simp_all add: cancel_proposal_def withdraw_content_def withdraw_rules_def frame_simps)
  qed
qed

lemma accounted_balanced: "balanced st \<Longrightarrow> balanced (accounted validate x st)"
proof (cases st)
  case (fields subs cleared s)
  assume bal: "balanced st"
  show ?thesis
  proof (cases x)
    case (Submit p)
    show ?thesis
    proof (cases "validate p")
      case None
      then show ?thesis using Submit fields bal by (simp add: submit_proposal_def)
    next
      case (Some q)
      then have "submit_proposal validate s p \<noteq> None"
        by (auto simp: submit_proposal_def split: prod.splits option.splits if_splits)
      then obtain b s' where sub: "submit_proposal validate s p = Some (b, s')" by auto
      with Some Submit fields bal submit_balance [OF sub Some] show ?thesis by (simp add: balanced_def ac_simps)
    qed
  next
    case (AdmitBoundary resolves)
    obtain vs s' where j: "admit_proposals s resolves = (vs, s')" by fastforce
    with AdmitBoundary fields bal judge_all_balance [OF j [unfolded admit_proposals_def]] show ?thesis
      by (simp add: balanced_def ac_simps)
  next
    case (Commit v c)
    then show ?thesis using fields bal
      by (auto simp: balanced_def commit_verdict_def Let_def rejected_ids_def split: admissionVerdict.split)
  next
    case (Cancel i)
    then show ?thesis using fields bal cancel_balance [of s i] by (simp add: balanced_def)
  qed
qed

lemma accounted_run_balanced: "balanced st \<Longrightarrow> balanced (fold (accounted validate) xs st)"
  by (induction xs arbitrary: st) (simp_all add: accounted_balanced)

text \<open>C28: no proposal is lost in silence. After any sequence of operations, each parsed submission
  is exactly one of: still queued, named by a rejection in the log, or cleared by a boundary.\<close>

theorem proposals_accounted_for:
  "case fold (accounted validate) xs ([], [], newProposalLifecycle limits) of (subs, cleared, s) \<Rightarrow>
     mset (map p_id subs) = mset (map p_id (l_content s)) + mset (map p_id (l_rules s))
       + mset (map j_proposalId (rejections_of (l_log s))) + mset (map p_id cleared)"
proof -
  have "balanced ([], [], newProposalLifecycle limits)"
    by (simp add: balanced_def newProposalLifecycle_def rejected_ids_def)
  then have "balanced (fold (accounted validate) xs ([], [], newProposalLifecycle limits))"
    by (rule accounted_run_balanced)
  then show ?thesis by (simp add: balanced_def ids_def rejected_ids_def split: prod.splits)
qed

section \<open>What the log leaves out\<close>

text \<open>an admission the lifecycle commits never carries its declaration. Whatever rules were
  admitted, reducing the recorded log yields no rule declaration at all, so the table the schema
  says the log alone reconstructs is lost.\<close>

theorem log_carries_no_declaration:
  "replayProposalStream (l_log (fold (lc_step validate) xs (newProposalLifecycle limits))) = Some st
   \<Longrightarrow> rs_declarations st = []"
proof -
  let ?s = "fold (lc_step validate) xs (newProposalLifecycle limits)"
  assume st: "replayProposalStream (l_log ?s) = Some st"
  have f: "fst (fold replay_step (l_log ?s) ([], [], [], 0)) = admissions_of (l_log ?s)"
    using replay_fold [of "l_log ?s" "[]" "[]" "newProposalLifecycle limits"]
    by (simp add: newProposalLifecycle_def)
  have "\<forall>a \<in> set (admissions_of (l_log ?s)). a_declaration a = None"
    using lifecycle_run_inv [of validate xs limits] by (simp add: lifecycle_inv_def)
  then have "List.map_filter a_declaration (admissions_of (l_log ?s)) = []"
    by (simp add: List.map_filter_def filter_empty_conv)
  then show ?thesis using st f
    by (auto simp: replayProposalStream_def Let_def split: if_splits prod.splits)
qed

definition exampleRule :: proposal where
  "exampleRule = \<lparr>p_id = ''p1'', p_schemaVersion = 2, p_baseRevision = 0, p_references = [],
     p_payload = RulePayload \<lparr>rp_ruleId = ''learned'', rp_name = ''n'', rp_left = ''inheritance'',
       rp_right = ''inheritance'', rp_truthFn = ''deduction'', rp_priority = 1, rp_body = Some ''nal.deduction'',
       rp_symbolicFallback = None\<rparr>\<rparr>"

definition exampleRun :: "lifecycleOp list" where
  "exampleRun = [Submit exampleRule, AdmitBoundary (\<lambda>_. True), Commit (Cleared exampleRule) ''c1'']"

definition exampleAdmission :: admittedEvent where
  "exampleAdmission = \<lparr>a_proposalId = ''p1'', a_kind = RuleKind, a_schemaVersion = 2, a_baseRevision = 0,
     a_resultingRevision = 1, a_declaration = None, a_producer = None, a_correlationId = ''c1''\<rparr>"

lemma exampleRun_log:
  "l_log (fold (lc_step Some) exampleRun (newProposalLifecycle DEFAULT_QUEUE_LIMITS)) = [Admitted exampleAdmission]"
  by (simp add: exampleRun_def exampleRule_def newProposalLifecycle_def DEFAULT_QUEUE_LIMITS_def
      submit_proposal_def admit_proposals_def commit_verdict_def judge_def missingBody_def p_kind_def
      PROPOSAL_SCHEMA_VERSION_def exampleAdmission_def Let_def)

lemma example_replay:
  "replayProposalStream [Admitted exampleAdmission] =
     Some \<lparr>rs_revision = 1, rs_admissions = [exampleAdmission], rs_rejections = [], rs_rejectedByReason = [],
       rs_declarations = [], rs_schemaVersions = [2]\<rparr>"
  by (simp add: replayProposalStream_def recordedSchemaVersions_def unique_def set_add_def
      exampleAdmission_def PROPOSAL_SCHEMA_VERSION_def List.map_filter_def Let_def)

lemma replay_agrees_with_lifecycle_witness:
  "\<exists>st. replayProposalStream [Admitted exampleAdmission] = Some st \<and> rs_revision st = 1
    \<and> l_revision (lifecycle_fromEvents [Admitted exampleAdmission] DEFAULT_QUEUE_LIMITS) = 1"
proof -
  have "\<forall>a \<in> set (admissions_of [Admitted exampleAdmission]). a_schemaVersion a = PROPOSAL_SCHEMA_VERSION"
    by (simp add: exampleAdmission_def PROPOSAL_SCHEMA_VERSION_def)
  then show ?thesis
    using replay_agrees_with_lifecycle [of "[Admitted exampleAdmission]" DEFAULT_QUEUE_LIMITS] example_replay
    by auto
qed

lemma log_carries_no_declaration_witness:
  "\<exists>st. replayProposalStream (l_log (fold (lc_step Some) exampleRun (newProposalLifecycle DEFAULT_QUEUE_LIMITS))) = Some st
     \<and> rs_revision st = 1 \<and> rs_declarations st = []"
proof -
  obtain st where st: "replayProposalStream (l_log (fold (lc_step Some) exampleRun (newProposalLifecycle DEFAULT_QUEUE_LIMITS))) = Some st"
    "rs_revision st = 1"
    by (simp add: exampleRun_log example_replay)
  from log_carries_no_declaration [OF st(1)] st show ?thesis by blast
qed

text \<open>the staleness check of the replay is not the lifecycle's. Once an admission has advanced
  the revision past the base it was judged against, the lifecycle refuses a proposal with that
  base as stale, while the replay check lists nothing of the very stream recorded at that base.\<close>

theorem stale_check_disagrees:
  assumes "p_schemaVersion p = PROPOSAL_SCHEMA_VERSION" "p_baseRevision p = l_revision s"
    and "commit_verdict s (Cleared p) c = (n, s')" "l_log s = []"
  shows "(\<exists>d. judge s' p resolves = Refused p StaleRevision d)
    \<and> staleAdmissions (l_log s') (Suc (p_baseRevision p)) = Some []"
proof -
  have s': "l_revision s' = Suc (l_revision s)" "l_log s' = [Admitted \<lparr>a_proposalId = p_id p, a_kind = p_kind p,
      a_schemaVersion = p_schemaVersion p, a_baseRevision = p_baseRevision p,
      a_resultingRevision = Suc (l_revision s), a_declaration = None, a_producer = None, a_correlationId = c\<rparr>]"
    using assms(3,4) by (auto simp: commit_verdict_def Let_def)
  then show ?thesis using assms(1,2)
    by (simp add: judge_def staleAdmissions_def replayProposalStream_def recordedSchemaVersions_def
        unique_def set_add_def Let_def)
qed

lemma stale_check_disagrees_witness:
  "\<exists>s'. (\<exists>d. judge s' exampleRule (\<lambda>_. True) = Refused exampleRule StaleRevision d)
     \<and> staleAdmissions (l_log s') 1 = Some []"
proof -
  obtain n s' where c: "commit_verdict (newProposalLifecycle DEFAULT_QUEUE_LIMITS) (Cleared exampleRule) ''c1'' = (n, s')"
    by fastforce
  have "p_schemaVersion exampleRule = PROPOSAL_SCHEMA_VERSION"
    "p_baseRevision exampleRule = l_revision (newProposalLifecycle DEFAULT_QUEUE_LIMITS)"
    "l_log (newProposalLifecycle DEFAULT_QUEUE_LIMITS) = []"
    by (simp_all add: exampleRule_def PROPOSAL_SCHEMA_VERSION_def newProposalLifecycle_def)
  from stale_check_disagrees [OF this(1,2) c this(3), of "\<lambda>_. True"] show ?thesis
    by (auto simp: exampleRule_def)
qed

end
