(* ===== verification/Rule_Table.thy ===== *)
theory Rule_Table
  imports Proposals
begin

text \<open>
  The rule table: \<open>nar/src/rules/impls/rule-table.ts\<close>, its dispatch index
  \<open>RuleIndex.ts\<close> and the artifact shapes of \<open>core/src/schemas/rule-table.ts\<close>.
  The rule bodies and the truth functions are property reads of objects this theory does not
  construct: the arguments \<open>bodies\<close> and \<open>truths\<close> answer \<open>None\<close> where the read
  gives nothing. A \<open>RuleTableError\<close> is its list of faults; their message text is not
  modelled, and neither is the schema validation of an artifact loaded from outside.
\<close>

section \<open>Artifacts\<close>

definition RULE_TABLE_MAX_HISTORY :: int where "RULE_TABLE_MAX_HISTORY = 50"
definition RULE_TABLE_SCHEMA_VERSION :: nat where "RULE_TABLE_SCHEMA_VERSION = 1"
definition BUILTIN_RULE_ARTIFACT_VERSION :: string where "BUILTIN_RULE_ARTIFACT_VERSION = ''builtin/1''"

datatype ruleProvenance = BuiltinRule | FromProposal string "string option" | ImportedRule string

record ruleArtifactEntry = ruleDeclaration +
  e_artifactVersion :: string
  e_ruleSetRevision :: nat
  e_parentRevision :: "nat option"
  e_ruleSchemaVersion :: nat
  e_provenance :: ruleProvenance
  e_eventId :: "string option"

record ruleTable =
  t_schemaVersion :: nat
  t_artifactVersion :: string
  t_revision :: nat
  t_entries :: "ruleArtifactEntry list"

datatype ruleTableRejection =
  TableSchemaVersion | ArtifactVersion | DuplicateRuleId | UnresolvedBody | EmptyId

datatype ruleLoadFault = RuleLoadFault string ruleTableRejection

definition entry_of ::
  "ruleDeclaration \<Rightarrow> string \<Rightarrow> nat \<Rightarrow> nat option \<Rightarrow> ruleProvenance \<Rightarrow> string option \<Rightarrow> ruleArtifactEntry" where
  "entry_of d version revision parent prov eventId =
     ruleDeclaration.extend d
       (ruleArtifactEntry.fields version revision parent RULE_TABLE_SCHEMA_VERSION prov eventId)"

definition builtinEntries :: "ruleDeclaration list \<Rightarrow> ruleArtifactEntry list" where
  "builtinEntries declarations =
     map (\<lambda>d. entry_of d BUILTIN_RULE_ARTIFACT_VERSION 0 None BuiltinRule None) declarations"

definition tableArtifact :: "ruleArtifactEntry list \<Rightarrow> ruleTable" where
  "tableArtifact entries = \<lparr>t_schemaVersion = RULE_TABLE_SCHEMA_VERSION,
     t_artifactVersion = BUILTIN_RULE_ARTIFACT_VERSION,
     t_revision = (case maxScore entries (\<lambda>e. real (e_ruleSetRevision e)) 0 of Fin r \<Rightarrow> nat \<lfloor>r\<rfloor> | _ \<Rightarrow> 0),
     t_entries = entries\<rparr>"

record ('fn, 'tf) registeredRule =
  rr_id :: string
  rr_left :: string
  rr_right :: string
  rr_apply :: 'fn
  rr_priority :: real
  rr_truthFn :: "'tf option"
  rr_truthFnName :: string
  rr_taskType :: "string option"

fun resolve_entries ::
  "(string \<Rightarrow> 'fn option) \<Rightarrow> (string \<Rightarrow> 'tf option) \<Rightarrow> string list \<Rightarrow> ruleArtifactEntry list
    \<Rightarrow> ('fn, 'tf) registeredRule list \<times> ruleLoadFault list" where
  "resolve_entries bodies truths seen [] = ([], [])"
| "resolve_entries bodies truths seen (e # es) =
     (if d_ruleId e = [] then
        (let (rules, faults) = resolve_entries bodies truths seen es
         in (rules, RuleLoadFault ''(entry)'' EmptyId # faults))
      else if d_ruleId e \<in> set seen then
        (let (rules, faults) = resolve_entries bodies truths seen es
         in (rules, RuleLoadFault (d_ruleId e) DuplicateRuleId # faults))
      else
        (let (rules, faults) = resolve_entries bodies truths (set_add (d_ruleId e) seen) es
         in case bodies (d_body e) of
              None \<Rightarrow> (rules, RuleLoadFault (d_ruleId e) UnresolvedBody # faults)
            | Some body \<Rightarrow>
                (\<lparr>rr_id = d_ruleId e, rr_left = d_left e, rr_right = d_right e, rr_apply = body,
                  rr_priority = d_priority e, rr_truthFn = truths (d_truthFn e),
                  rr_truthFnName = d_truthFn e, rr_taskType = d_taskType e\<rparr> # rules, faults)))"

definition resolveTable ::
  "ruleTable \<Rightarrow> (string \<Rightarrow> 'fn option) \<Rightarrow> (string \<Rightarrow> 'tf option)
    \<Rightarrow> ('fn, 'tf) registeredRule list \<times> ruleArtifactEntry list \<times> ruleLoadFault list" where
  "resolveTable artifact bodies truths =
     (if t_schemaVersion artifact \<noteq> RULE_TABLE_SCHEMA_VERSION
      then ([], [], [RuleLoadFault ''(table)'' TableSchemaVersion])
      else let (rules, faults) = resolve_entries bodies truths [] (t_entries artifact)
           in (rules, t_entries artifact, faults))"

section \<open>Dispatch\<close>

type_synonym ('fn, 'tf) ruleIndex = "(string, ('fn, 'tf) registeredRule list) omap"

definition bucketKey :: "string \<Rightarrow> string \<Rightarrow> string" where
  "bucketKey left right = left @ '':'' @ right"

definition before :: "('fn, 'tf) registeredRule \<Rightarrow> ('fn, 'tf) registeredRule \<Rightarrow> bool" where
  "before a b \<longleftrightarrow> rr_priority b \<le> rr_priority a"

definition index_register :: "('fn, 'tf) ruleIndex \<Rightarrow> ('fn, 'tf) registeredRule \<Rightarrow> ('fn, 'tf) ruleIndex" where
  "index_register idx rule =
     (let key = bucketKey (rr_left rule) (rr_right rule);
          (bucket, idx', _) = getOrInsert omap_get omap_set idx key []
      in omap_set idx' key (js_sort before (bucket @ [rule])))"

definition index_candidates :: "('fn, 'tf) ruleIndex \<Rightarrow> string \<Rightarrow> string \<Rightarrow> ('fn, 'tf) registeredRule list" where
  "index_candidates idx left right =
     (case map_of idx (bucketKey left right) of None \<Rightarrow> [] | Some rules \<Rightarrow> rules)"

definition build_index :: "('fn, 'tf) registeredRule list \<Rightarrow> ('fn, 'tf) ruleIndex" where
  "build_index rules = fold (\<lambda>rule idx. index_register idx rule) rules []"

section \<open>The store\<close>

record ('fn, 'tf) ruleTableStore =
  rt_current :: ruleTable
  rt_dispatch :: "('fn, 'tf) ruleIndex"
  rt_history :: "ruleTable list"

definition newRuleTableStore ::
  "(string \<Rightarrow> 'fn option) \<Rightarrow> (string \<Rightarrow> 'tf option) \<Rightarrow> ruleTable option
    \<Rightarrow> ruleLoadFault list + ('fn, 'tf) ruleTableStore" where
  "newRuleTableStore bodies truths initial =
     (let artifact = (case initial of None \<Rightarrow> tableArtifact [] | Some a \<Rightarrow> a);
          (rules, entries, faults) = resolveTable artifact bodies truths
      in if faults \<noteq> [] then Inl faults
         else let current = artifact\<lparr>t_entries := entries\<rparr>
              in Inr \<lparr>rt_current = current, rt_dispatch = build_index rules, rt_history = [current]\<rparr>)"

definition replace_table ::
  "(string \<Rightarrow> 'fn option) \<Rightarrow> (string \<Rightarrow> 'tf option) \<Rightarrow> ('fn, 'tf) ruleTableStore \<Rightarrow> ruleTable
    \<Rightarrow> ruleLoadFault list + ('fn, 'tf) ruleTableStore" where
  "replace_table bodies truths s nxt =
     (let (rules, entries, faults) = resolveTable nxt bodies truths
      in if faults \<noteq> [] then Inl faults
         else let current = nxt\<lparr>t_entries := entries\<rparr>
              in Inr \<lparr>rt_current = current, rt_dispatch = build_index rules,
                   rt_history = fst (pushCapped (rt_history s) current RULE_TABLE_MAX_HISTORY)\<rparr>)"

definition admit_rule ::
  "(string \<Rightarrow> 'fn option) \<Rightarrow> (string \<Rightarrow> 'tf option) \<Rightarrow> ('fn, 'tf) ruleTableStore \<Rightarrow> ruleDeclaration
    \<Rightarrow> nat \<Rightarrow> nat option \<Rightarrow> string \<Rightarrow> string option \<Rightarrow> string option
    \<Rightarrow> ruleLoadFault list + (ruleArtifactEntry \<times> ('fn, 'tf) ruleTableStore)" where
  "admit_rule bodies truths s declaration revision parentRevision proposalId producer eventId =
     (if revision \<le> t_revision (rt_current s)
      then Inl [RuleLoadFault (d_ruleId declaration) ArtifactVersion]
      else let entry = entry_of declaration (t_artifactVersion (rt_current s)) revision parentRevision
                 (FromProposal proposalId producer) eventId;
               nxt = (rt_current s)\<lparr>t_revision := revision, t_entries := t_entries (rt_current s) @ [entry]\<rparr>
           in case replace_table bodies truths s nxt of
                Inl faults \<Rightarrow> Inl faults
              | Inr s' \<Rightarrow> Inr (entry, s'))"

definition findLast :: "('a \<Rightarrow> bool) \<Rightarrow> 'a list \<Rightarrow> 'a option" where
  "findLast p xs = find p (rev xs)"

definition revert_table ::
  "(string \<Rightarrow> 'fn option) \<Rightarrow> (string \<Rightarrow> 'tf option) \<Rightarrow> ('fn, 'tf) ruleTableStore \<Rightarrow> nat
    \<Rightarrow> ruleLoadFault list + (ruleTable \<times> ('fn, 'tf) ruleTableStore)" where
  "revert_table bodies truths s revision =
     (case findLast (\<lambda>snap. t_revision snap = revision) (rt_history s) of
        None \<Rightarrow> Inl [RuleLoadFault ''(table)'' ArtifactVersion]
      | Some target \<Rightarrow>
          (case replace_table bodies truths s target of
             Inl faults \<Rightarrow> Inl faults
           | Inr s' \<Rightarrow> Inr (target, s')))"

text \<open>The dispatch view: registering through it changes the index alone, clearing it resets the
  table.\<close>

definition projection_register ::
  "('fn, 'tf) ruleTableStore \<Rightarrow> ('fn, 'tf) registeredRule \<Rightarrow> ('fn, 'tf) ruleTableStore" where
  "projection_register s rule = s\<lparr>rt_dispatch := index_register (rt_dispatch s) rule\<rparr>"

definition projection_clear :: "('fn, 'tf) ruleTableStore \<Rightarrow> ('fn, 'tf) ruleTableStore" where
  "projection_clear s = \<lparr>rt_current = tableArtifact [], rt_dispatch = [], rt_history = [tableArtifact []]\<rparr>"

fun table_fromEvents_loop ::
  "(string \<Rightarrow> 'fn option) \<Rightarrow> (string \<Rightarrow> 'tf option) \<Rightarrow> cognitiveEvent list \<Rightarrow> ('fn, 'tf) ruleTableStore
    \<Rightarrow> ruleLoadFault list + ('fn, 'tf) ruleTableStore" where
  "table_fromEvents_loop bodies truths [] s = Inr s"
| "table_fromEvents_loop bodies truths (Admitted a # es) s =
     (if a_kind a \<noteq> RuleKind then table_fromEvents_loop bodies truths es s
      else (case a_declaration a of
              None \<Rightarrow> table_fromEvents_loop bodies truths es s
            | Some d \<Rightarrow>
                (case admit_rule bodies truths s d (a_resultingRevision a) (Some (a_baseRevision a))
                        (a_proposalId a) None (Some (a_correlationId a)) of
                   Inl faults \<Rightarrow> Inl faults
                 | Inr (_, s') \<Rightarrow> table_fromEvents_loop bodies truths es s')))"
| "table_fromEvents_loop bodies truths (_ # es) s = table_fromEvents_loop bodies truths es s"

definition table_fromEvents ::
  "cognitiveEvent list \<Rightarrow> (string \<Rightarrow> 'fn option) \<Rightarrow> (string \<Rightarrow> 'tf option) \<Rightarrow> ruleDeclaration list
    \<Rightarrow> ruleLoadFault list + ('fn, 'tf) ruleTableStore" where
  "table_fromEvents events bodies truths builtins =
     (case newRuleTableStore bodies truths (Some (tableArtifact (builtinEntries builtins))) of
        Inl faults \<Rightarrow> Inl faults
      | Inr s \<Rightarrow> table_fromEvents_loop bodies truths events s)"

record ruleTableDiff =
  df_from :: nat
  df_to :: nat
  df_added :: "string list"
  df_removed :: "string list"
  df_superseded :: "string list"
  df_unchanged :: int

definition diffArtifacts :: "ruleTable \<Rightarrow> ruleTable \<Rightarrow> ruleTableDiff" where
  "diffArtifacts old new =
     (let prior = indexBy (t_entries old) d_ruleId (\<lambda>e _. e);
          later = indexBy (t_entries new) d_ruleId (\<lambda>e _. e);
          added = map d_ruleId (filter (\<lambda>e. map_of prior (d_ruleId e) = None) (t_entries new));
          removed = map d_ruleId (filter (\<lambda>e. map_of later (d_ruleId e) = None) (t_entries old));
          superseded = map d_ruleId (filter (\<lambda>e. case map_of later (d_ruleId e) of
             None \<Rightarrow> False | Some nxt \<Rightarrow> nxt \<noteq> e) (t_entries old))
      in \<lparr>df_from = t_revision old, df_to = t_revision new, df_added = added, df_removed = removed,
          df_superseded = superseded,
          df_unchanged = int (length (t_entries old)) - int (length removed) - int (length superseded)\<rparr>)"

definition table_diff ::
  "('fn, 'tf) ruleTableStore \<Rightarrow> nat \<Rightarrow> ruleLoadFault list + ruleTableDiff" where
  "table_diff s revision =
     (case findLast (\<lambda>snap. t_revision snap = revision) (rt_history s) of
        None \<Rightarrow> Inl [RuleLoadFault ''(table)'' ArtifactVersion]
      | Some old \<Rightarrow> Inr (diffArtifacts old (rt_current s)))"

section \<open>Dispatch is a sorted projection\<close>

fun ins_after :: "('a \<Rightarrow> 'a \<Rightarrow> bool) \<Rightarrow> 'a \<Rightarrow> 'a list \<Rightarrow> 'a list" where
  "ins_after le x [] = [x]"
| "ins_after le x (y # ys) = (if le y x then y # ins_after le x ys else x # y # ys)"

lemma insort_ins_after:
  assumes tot: "\<And>a b. le a b \<or> le b a" and tr: "\<And>a b c. le a b \<Longrightarrow> le b c \<Longrightarrow> le a c"
  shows "js_insort le a (ins_after le x s) = ins_after le x (js_insort le a s)"
proof (induction s)
  case (Cons y ys)
  show ?case
  proof (cases "le y x")
    case True
    then show ?thesis using Cons tr [of a y x] by simp
  next
    case False
    then have "le x y" using tot by blast
    then show ?thesis using False tr [of a x y] by auto
  qed
qed simp

lemma js_sort_snoc:
  assumes tot: "\<And>a b. le a b \<or> le b a" and tr: "\<And>a b c. le a b \<Longrightarrow> le b c \<Longrightarrow> le a c"
  shows "js_sort le (xs @ [x]) = ins_after le x (js_sort le xs)"
  by (induction xs) (simp_all add: insort_ins_after [of le, OF tot tr])

lemma js_sort_sorted: "sorted_wrt le xs \<Longrightarrow> js_sort le xs = xs"
proof (induction xs)
  case (Cons x xs)
  then show ?case by (cases xs) simp_all
qed simp

lemma before_total: "before a b \<or> before b a"
  and before_trans: "before a b \<Longrightarrow> before b c \<Longrightarrow> before a c"
  by (auto simp: before_def)

lemma resort_snoc: "js_sort before (js_sort before xs @ [x]) = js_sort before (xs @ [x])"
proof -
  have "sorted_wrt before (js_sort before xs)"
    by (rule sorted_js_sort [of before, OF before_total before_trans])
  then show ?thesis
    by (simp add: js_sort_snoc [of before, OF before_total before_trans] js_sort_sorted)
qed

lemma index_register_lookup:
  "map_of (index_register idx rule) k =
     (if k = bucketKey (rr_left rule) (rr_right rule)
      then Some (js_sort before ((case map_of idx k of None \<Rightarrow> [] | Some b \<Rightarrow> b) @ [rule]))
      else map_of idx k)"
  by (auto simp: index_register_def getOrInsert_def omap_get_def omap_set_def Let_def split: option.split)

definition rules_for :: "string \<Rightarrow> ('fn, 'tf) registeredRule list \<Rightarrow> ('fn, 'tf) registeredRule list" where
  "rules_for k rules = filter (\<lambda>r. bucketKey (rr_left r) (rr_right r) = k) rules"

lemma build_index_lookup:
  "map_of (build_index rules) k =
     (if rules_for k rules = [] then None else Some (js_sort before (rules_for k rules)))"
proof (induction rules rule: rev_induct)
  case Nil
  then show ?case by (simp add: build_index_def rules_for_def)
next
  case (snoc r rules)
  have "build_index (rules @ [r]) = index_register (build_index rules) r" by (simp add: build_index_def)
  then have look: "map_of (build_index (rules @ [r])) k =
     (if k = bucketKey (rr_left r) (rr_right r)
      then Some (js_sort before ((case map_of (build_index rules) k of None \<Rightarrow> [] | Some b \<Rightarrow> b) @ [r]))
      else map_of (build_index rules) k)"
    by (simp only: index_register_lookup)
  have f: "rules_for k (rules @ [r]) =
      (if k = bucketKey (rr_left r) (rr_right r) then rules_for k rules @ [r] else rules_for k rules)"
    by (simp add: rules_for_def)
  show ?case
  proof (cases "rules_for k rules = []")
    case True
    then have n: "map_of (build_index rules) k = None" using snoc by simp
    show ?thesis unfolding look f n True by (simp only: option.case append_Nil if_True if_False split: if_split) simp
  next
    case False
    then have "map_of (build_index rules) k = Some (js_sort before (rules_for k rules))" using snoc by simp
    then show ?thesis unfolding look f using False
      by (simp only: option.case resort_snoc append_is_Nil_conv if_False simp_thms split: if_split) blast
  qed
qed

lemma candidates_build_index:
  "index_candidates (build_index rules) l r = js_sort before (rules_for (bucketKey l r) rules)"
  by (simp add: index_candidates_def build_index_lookup)

text \<open>which rules fire, in which order, is a function of the registered set alone: building the
  index one registration at a time and sorting a bucket on each gives, for every pair of kinds,
  the registered rules of that pair by descending priority, ties in registration order.\<close>

theorem dispatch_order:
  "index_candidates (build_index rules) l r
     = js_sort before (filter (\<lambda>x. bucketKey (rr_left x) (rr_right x) = bucketKey l r) rules)
   \<and> sorted_wrt before (index_candidates (build_index rules) l r)"
  unfolding candidates_build_index rules_for_def
  using sorted_js_sort [of before] before_total before_trans by blast

section \<open>The table and its index\<close>

definition table_inv ::
  "(string \<Rightarrow> 'fn option) \<Rightarrow> (string \<Rightarrow> 'tf option) \<Rightarrow> ('fn, 'tf) ruleTableStore \<Rightarrow> bool" where
  "table_inv bodies truths s =
     (snd (snd (resolveTable (rt_current s) bodies truths)) = []
      \<and> rt_dispatch s = build_index (fst (resolveTable (rt_current s) bodies truths))
      \<and> rt_history s \<noteq> [] \<and> last (rt_history s) = rt_current s
      \<and> int (length (rt_history s)) \<le> RULE_TABLE_MAX_HISTORY)"

lemma resolveTable_entries:
  "resolveTable t bodies truths = (rules, entries, []) \<Longrightarrow> entries = t_entries t"
  by (auto simp: resolveTable_def Let_def split: if_splits prod.splits)

lemma newRuleTableStore_inv:
  assumes "newRuleTableStore bodies truths initial = Inr s"
  shows "table_inv bodies truths s \<and> rt_current s = (case initial of None \<Rightarrow> tableArtifact [] | Some a \<Rightarrow> a)"
proof -
  let ?a = "case initial of None \<Rightarrow> tableArtifact [] | Some a \<Rightarrow> a"
  obtain rules entries faults where r0: "resolveTable ?a bodies truths = (rules, entries, faults)"
    by (rule prod_cases3)
  have nf: "faults = []" using assms by (simp add: newRuleTableStore_def Let_def r0 split: if_splits)
  with r0 have r: "resolveTable ?a bodies truths = (rules, entries, [])" by simp
  have s: "s = \<lparr>rt_current = ?a\<lparr>t_entries := entries\<rparr>, rt_dispatch = build_index rules,
      rt_history = [?a\<lparr>t_entries := entries\<rparr>]\<rparr>"
    using assms by (simp add: newRuleTableStore_def Let_def r)
  have "?a\<lparr>t_entries := entries\<rparr> = ?a" using resolveTable_entries [OF r] by simp
  with r s show ?thesis by (simp add: table_inv_def RULE_TABLE_MAX_HISTORY_def)
qed

lemma replace_table_inv:
  assumes "table_inv bodies truths s" "replace_table bodies truths s t = Inr s'"
  shows "table_inv bodies truths s' \<and> rt_current s' = t
    \<and> rt_history s' = fst (pushCapped (rt_history s) t RULE_TABLE_MAX_HISTORY)"
proof -
  obtain rules entries faults where r0: "resolveTable t bodies truths = (rules, entries, faults)"
    by (rule prod_cases3)
  have nf: "faults = []" using assms(2) by (simp add: replace_table_def Let_def r0 split: if_splits)
  with r0 have r: "resolveTable t bodies truths = (rules, entries, [])" by simp
  have s: "s' = \<lparr>rt_current = t\<lparr>t_entries := entries\<rparr>, rt_dispatch = build_index rules,
      rt_history = fst (pushCapped (rt_history s) (t\<lparr>t_entries := entries\<rparr>) RULE_TABLE_MAX_HISTORY)\<rparr>"
    using assms(2) by (simp add: replace_table_def Let_def r)
  have "t\<lparr>t_entries := entries\<rparr> = t" using resolveTable_entries [OF r] by simp
  with r s assms(1) show ?thesis
    by (auto simp: table_inv_def RULE_TABLE_MAX_HISTORY_def pushCapped_def Let_def last_tl)
qed

lemma admit_rule_inv:
  assumes "table_inv bodies truths s" "admit_rule bodies truths s d r pr i src ev = Inr (e, s')"
  shows "table_inv bodies truths s' \<and> t_revision (rt_current s) < r
    \<and> rt_current s' = (rt_current s)\<lparr>t_revision := r, t_entries := t_entries (rt_current s) @ [e]\<rparr>
    \<and> rt_history s' = fst (pushCapped (rt_history s) (rt_current s') RULE_TABLE_MAX_HISTORY)"
  using assms replace_table_inv [OF assms(1)]
  by (auto simp: admit_rule_def Let_def split: if_splits sum.splits)

lemma revert_table_inv:
  assumes "table_inv bodies truths s" "revert_table bodies truths s r = Inr (t, s')"
  shows "table_inv bodies truths s' \<and> rt_current s' = t \<and> t_revision t = r \<and> t \<in> set (rt_history s)"
  using assms replace_table_inv [OF assms(1)]
  by (auto simp: revert_table_def findLast_def find_Some_iff split: option.splits sum.splits)
    (metis nth_mem set_rev length_rev)

datatype tableOp =
  AdmitOp ruleDeclaration nat "nat option" string "string option" "string option"
| RevertOp nat | ClearOp

text \<open>A refused operation throws and leaves the store as it was.\<close>

fun table_step ::
  "(string \<Rightarrow> 'fn option) \<Rightarrow> (string \<Rightarrow> 'tf option) \<Rightarrow> tableOp \<Rightarrow> ('fn, 'tf) ruleTableStore
    \<Rightarrow> ('fn, 'tf) ruleTableStore" where
  "table_step bodies truths (AdmitOp d r pr i src ev) s =
     (case admit_rule bodies truths s d r pr i src ev of Inl _ \<Rightarrow> s | Inr (_, s') \<Rightarrow> s')"
| "table_step bodies truths (RevertOp r) s =
     (case revert_table bodies truths s r of Inl _ \<Rightarrow> s | Inr (_, s') \<Rightarrow> s')"
| "table_step bodies truths ClearOp s = projection_clear s"

lemma empty_table_inv: "table_inv bodies truths (projection_clear s)"
  by (simp add: table_inv_def projection_clear_def tableArtifact_def resolveTable_def
      RULE_TABLE_MAX_HISTORY_def build_index_def)

lemma table_step_inv [inv_intros]: "table_inv bodies truths s \<Longrightarrow> table_inv bodies truths (table_step bodies truths x s)"
  by (cases x) (auto simp: empty_table_inv split: sum.split dest: admit_rule_inv revert_table_inv)

lemma table_run_inv:
  "table_inv bodies truths s \<Longrightarrow> table_inv bodies truths (fold (table_step bodies truths) xs s)"
  by (induction xs arbitrary: s) (simp_all add: table_step_inv)

text \<open>C30: the index is a projection of the artifact. Starting from a table that loads, after any
  sequence of admissions, reverts and clears (refused ones included) the artifact still resolves
  without a fault, dispatch answers for every pair of kinds the resolved rules of that pair in
  priority order, and at most fifty revisions are retained, the current one last.\<close>

theorem index_projects_artifact:
  assumes "newRuleTableStore bodies truths initial = Inr s0"
    and "s = fold (table_step bodies truths) xs s0"
  shows "snd (snd (resolveTable (rt_current s) bodies truths)) = []
    \<and> index_candidates (rt_dispatch s) l r =
        js_sort before (rules_for (bucketKey l r) (fst (resolveTable (rt_current s) bodies truths)))
    \<and> length (rt_history s) \<le> 50 \<and> last (rt_history s) = rt_current s"
proof -
  have "table_inv bodies truths s"
    unfolding assms(2) using newRuleTableStore_inv [OF assms(1)] by (intro table_run_inv) simp
  then show ?thesis by (simp add: table_inv_def candidates_build_index RULE_TABLE_MAX_HISTORY_def)
qed

text \<open>A concrete table: one built-in rule, bodies named by a fixed list.\<close>

definition exampleBodies :: "string \<Rightarrow> nat option" where
  "exampleBodies = map_of [(''nal.deduction'', 1), (''nal.induction'', 2)]"

definition exampleTruths :: "string \<Rightarrow> nat option" where
  "exampleTruths = map_of [(''deduction'', 1)]"

definition exampleDeclaration :: "string \<Rightarrow> ruleDeclaration" where
  "exampleDeclaration i = \<lparr>d_ruleId = i, d_description = [], d_left = ''inheritance'', d_right = ''inheritance'',
     d_truthFn = ''deduction'', d_body = ''nal.deduction'', d_priority = 1, d_taskType = None\<rparr>"

definition exampleTable :: ruleTable where
  "exampleTable = tableArtifact (builtinEntries [exampleDeclaration ''b''])"

definition exampleStore :: "(nat, nat) ruleTableStore" where
  "exampleStore = projr (newRuleTableStore exampleBodies exampleTruths (Some exampleTable))"

lemma exampleTable_loads: "newRuleTableStore exampleBodies exampleTruths (Some exampleTable) = Inr exampleStore"
  by (simp add: exampleStore_def newRuleTableStore_def exampleTable_def tableArtifact_def builtinEntries_def
      entry_of_def exampleDeclaration_def resolveTable_def exampleBodies_def ruleDeclaration.defs
      ruleArtifactEntry.defs set_add_def Let_def)

lemma index_projects_artifact_witness:
  "\<exists>s. s = fold (table_step exampleBodies exampleTruths)
       [AdmitOp (exampleDeclaration ''learned'') 1 (Some 0) ''p1'' None None, RevertOp 0, RevertOp 7] exampleStore
     \<and> length (rt_history s) \<le> 50 \<and> last (rt_history s) = rt_current s"
  using index_projects_artifact [OF exampleTable_loads refl, where xs =
      "[AdmitOp (exampleDeclaration ''learned'') 1 (Some 0) ''p1'' None None, RevertOp 0, RevertOp 7]"]
  by blast

section \<open>Reverting\<close>

lemma pushCapped_two:
  assumes "xs \<noteq> []" "1 < c" "int (length xs) \<le> c"
  shows "\<exists>zs. fst (pushCapped xs x c) = zs @ [last xs, x]"
proof -
  obtain ys y where xs: "xs = ys @ [y]" using assms(1) by (cases xs rule: rev_cases) auto
  show ?thesis
  proof (cases "c < int (length xs) + 1")
    case True
    then have "ys \<noteq> []" using assms xs by auto
    with True xs show ?thesis by (intro exI [of _ "tl ys"]) (simp add: pushCapped_def Let_def)
  next
    case False
    with xs show ?thesis by (intro exI [of _ ys]) (simp add: pushCapped_def Let_def)
  qed
qed

text \<open>a revert restores. After an admission that the table accepted, reverting to the revision
  before it succeeds and gives back exactly the artifact and the dispatch that were there, from
  the retained history alone.\<close>

theorem revert_restores:
  assumes "newRuleTableStore bodies truths initial = Inr s0"
    and "s = fold (table_step bodies truths) xs s0"
    and "admit_rule bodies truths s d r pr i src ev = Inr (e, s1)"
  shows "\<exists>s2. revert_table bodies truths s1 (t_revision (rt_current s)) = Inr (rt_current s, s2)
    \<and> rt_current s2 = rt_current s \<and> rt_dispatch s2 = rt_dispatch s"
proof -
  have inv: "table_inv bodies truths s"
    unfolding assms(2) using newRuleTableStore_inv [OF assms(1)] by (intro table_run_inv) simp
  note a = admit_rule_inv [OF inv assms(3)]
  obtain zs where h: "rt_history s1 = zs @ [rt_current s, rt_current s1]"
    using pushCapped_two [of "rt_history s" RULE_TABLE_MAX_HISTORY "rt_current s1"] inv a
    by (auto simp: table_inv_def RULE_TABLE_MAX_HISTORY_def)
  have f: "findLast (\<lambda>snap. t_revision snap = t_revision (rt_current s)) (rt_history s1) = Some (rt_current s)"
    using a by (simp add: h findLast_def)
  obtain rules entries where r: "resolveTable (rt_current s) bodies truths = (rules, entries, [])"
    using inv by (cases "resolveTable (rt_current s) bodies truths") (auto simp: table_inv_def)
  have "(rt_current s)\<lparr>t_entries := entries\<rparr> = rt_current s" using resolveTable_entries [OF r] by simp
  then show ?thesis using f r inv
    by (simp add: revert_table_def replace_table_def Let_def table_inv_def)
qed

lemma exampleAdmit:
  "\<exists>e s1. admit_rule exampleBodies exampleTruths exampleStore (exampleDeclaration ''learned'') 1 (Some 0) ''p1'' None None
    = Inr (e, s1) \<and> t_revision (rt_current exampleStore) = 0"
  by (simp add: exampleStore_def newRuleTableStore_def exampleTable_def tableArtifact_def builtinEntries_def
      entry_of_def exampleDeclaration_def resolveTable_def exampleBodies_def ruleDeclaration.defs
      ruleArtifactEntry.defs set_add_def admit_rule_def replace_table_def maxScore_Fin Let_def)

lemma revert_restores_witness:
  "\<exists>s1 s2. revert_table exampleBodies exampleTruths s1 0 = Inr (rt_current exampleStore, s2)
     \<and> rt_dispatch s2 = rt_dispatch exampleStore"
proof -
  obtain e s1 where a: "admit_rule exampleBodies exampleTruths exampleStore (exampleDeclaration ''learned'') 1 (Some 0) ''p1'' None None
    = Inr (e, s1)" and z: "t_revision (rt_current exampleStore) = 0" using exampleAdmit by blast
  have "exampleStore = fold (table_step exampleBodies exampleTruths) [] exampleStore" by simp
  from revert_restores [OF exampleTable_loads this a] z show ?thesis by auto
qed

section \<open>Rebuilding the table from the log\<close>

lemma no_declarations_loop:
  "\<forall>a \<in> set (admissions_of es). a_declaration a = None \<Longrightarrow>
   table_fromEvents_loop bodies truths es s = Inr s"
  by (induction es rule: admissions_of.induct) auto

text \<open>a rule the lifecycle admitted does not survive a restart. The table rebuilt from any log
  the lifecycle recorded is the built-in table, whatever was admitted into the live one.\<close>

theorem restart_forgets_learned_rules:
  "table_fromEvents (l_log (fold (lc_step validate) xs (newProposalLifecycle limits))) bodies truths builtins
   = newRuleTableStore bodies truths (Some (tableArtifact (builtinEntries builtins)))"
proof -
  have "\<forall>a \<in> set (admissions_of (l_log (fold (lc_step validate) xs (newProposalLifecycle limits)))).
      a_declaration a = None"
    using lifecycle_run_inv [of validate xs limits] by (simp add: lifecycle_inv_def)
  from no_declarations_loop [OF this] show ?thesis
    by (auto simp: table_fromEvents_def split: sum.split)
qed

end
