(* ===== verification/Producer.thy ===== *)
theory Producer
  imports Rule_Table Budget_Gate
begin

text \<open>
  The boundary of the proposal seam: \<open>takeDerived\<close> of
  \<open>nar/src/proposal/lm-rule-producer.ts\<close> with the table it admits rules into, and the
  application loop of the \<open>authorize\<close> stage (\<open>nar/src/nar-execution.ts\<close>). The
  off-cycle half of the producer (staging, the provider's flush) is asynchronous work on the
  stream reasoner and is an input here: the list of settled tasks. An operation that throws
  keeps the state it had reached, so results carry the state on both sides. The producer is one
  with an admission sink (\<open>admitRule\<close>), the table of its record: without one a rule proposal is
  committed and its declaration goes nowhere.
\<close>

record settledTask =
  k_stampId :: string
  k_type :: string
  k_term :: string
  k_truth :: "(real \<times> real) option"

record ('fn, 'tf) producer =
  pr_lifecycle :: lifecycle
  pr_table :: "('fn, 'tf) ruleTableStore"
  pr_references :: "string list list"

datatype producerError = InvalidProposal | TableRefused "ruleLoadFault list" | BodyRequired

definition submitRule ::
  "(proposal \<Rightarrow> proposal option) \<Rightarrow> ('fn, 'tf) producer \<Rightarrow> proposal \<Rightarrow> (bool \<times> ('fn, 'tf) producer) option" where
  "submitRule validate s p =
     (case submit_proposal validate (pr_lifecycle s) p of
        None \<Rightarrow> None
      | Some (queued, l) \<Rightarrow> Some (queued, s\<lparr>pr_lifecycle := l\<rparr>))"

definition proposalOf :: "lifecycle \<Rightarrow> settledTask \<Rightarrow> string list \<Rightarrow> proposal" where
  "proposalOf l task references = \<lparr>p_id = ''prop-'' @ k_stampId task,
     p_schemaVersion = PROPOSAL_SCHEMA_VERSION, p_baseRevision = st_revision (lifecycle_stats l),
     p_references = references,
     p_payload = ContentPayload (k_type task) (k_term task) (k_truth task)\<rparr>"

definition declarationOf :: "rulePayload \<Rightarrow> producerError + ruleDeclaration" where
  "declarationOf r =
     (case rp_body r of
        None \<Rightarrow> Inl BodyRequired
      | Some body \<Rightarrow>
          if body = [] then Inl BodyRequired
          else Inr \<lparr>d_ruleId = rp_ruleId r, d_description = rp_name r, d_left = rp_left r, d_right = rp_right r,
                 d_truthFn = rp_truthFn r, d_body = body, d_priority = rp_priority r, d_taskType = None\<rparr>)"

text \<open>The submissions of the settled tasks, with the tasks that were queued by proposal.\<close>

fun submit_settled ::
  "(proposal \<Rightarrow> proposal option) \<Rightarrow> settledTask list \<Rightarrow> string list list \<Rightarrow> (string, settledTask) omap
    \<Rightarrow> lifecycle \<Rightarrow> (string, settledTask) omap option \<times> lifecycle" where
  "submit_settled validate [] refs landed l = (Some landed, l)"
| "submit_settled validate (task # ts) refs landed l =
     (let p = proposalOf l task (case refs of [] \<Rightarrow> [] | r # _ \<Rightarrow> r)
      in case submit_proposal validate l p of
           None \<Rightarrow> (None, l)
         | Some (queued, l') \<Rightarrow>
             submit_settled validate ts (tl refs) (if queued then AList.update (p_id p) task landed else landed) l')"

fun land_verdicts ::
  "(string \<Rightarrow> 'fn option) \<Rightarrow> (string \<Rightarrow> 'tf option) \<Rightarrow> (nat \<Rightarrow> string) \<Rightarrow> (string, settledTask) omap
    \<Rightarrow> admissionVerdict list \<Rightarrow> ('fn, 'tf) producer
    \<Rightarrow> (producerError + settledTask list) \<times> ('fn, 'tf) producer" where
  "land_verdicts bodies truths makeId landed [] s = (Inr [], s)"
| "land_verdicts bodies truths makeId landed (Refused _ _ _ # vs) s =
     land_verdicts bodies truths makeId landed vs s"
| "land_verdicts bodies truths makeId landed (Cleared p # vs) s =
     (case p_payload p of
        RulePayload r \<Rightarrow>
          (let (revision, l) = commit_verdict (pr_lifecycle s) (Cleared p)
                 (makeId (l_admitted (pr_lifecycle s)));
               s' = s\<lparr>pr_lifecycle := l\<rparr>
           in case declarationOf r of
                Inl e \<Rightarrow> (Inl e, s')
              | Inr d \<Rightarrow>
                  (case admit_rule bodies truths (pr_table s) d (nat revision) (Some (p_baseRevision p))
                          (p_id p) None None of
                     Inl faults \<Rightarrow> (Inl (TableRefused faults), s')
                   | Inr (_, t) \<Rightarrow> land_verdicts bodies truths makeId landed vs (s'\<lparr>pr_table := t\<rparr>)))
      | ContentPayload _ _ _ \<Rightarrow>
          (case map_of landed (p_id p) of
             None \<Rightarrow> land_verdicts bodies truths makeId landed vs s
           | Some task \<Rightarrow>
               (let s' = s\<lparr>pr_lifecycle := snd (commit_verdict (pr_lifecycle s) (Cleared p) (k_stampId task))\<rparr>
                in case land_verdicts bodies truths makeId landed vs s' of
                     (Inl e, s'') \<Rightarrow> (Inl e, s'')
                   | (Inr tasks, s'') \<Rightarrow> (Inr (task # tasks), s''))))"

definition takeDerived ::
  "(proposal \<Rightarrow> proposal option) \<Rightarrow> (string \<Rightarrow> bool) \<Rightarrow> (string \<Rightarrow> 'fn option) \<Rightarrow> (string \<Rightarrow> 'tf option)
    \<Rightarrow> (nat \<Rightarrow> string) \<Rightarrow> settledTask list \<Rightarrow> ('fn, 'tf) producer
    \<Rightarrow> (producerError + settledTask list) \<times> ('fn, 'tf) producer" where
  "takeDerived validate resolves bodies truths makeId settled s =
     (let refs = take (length settled) (pr_references s);
          s1 = s\<lparr>pr_references := drop (length settled) (pr_references s)\<rparr>
      in case submit_settled validate settled refs [] (pr_lifecycle s1) of
           (None, l) \<Rightarrow> (Inl InvalidProposal, s1\<lparr>pr_lifecycle := l\<rparr>)
         | (Some landed, l) \<Rightarrow>
             (let (verdicts, l') = admit_proposals l resolves
              in land_verdicts bodies truths makeId landed verdicts (s1\<lparr>pr_lifecycle := l'\<rparr>)))"

text \<open>The authorize stage admits the settled tasks while the \<open>proposal-application\<close> scope
  grants a charge; \<open>admit\<close> is the cycle's admission of one task.\<close>

fun apply_settled ::
  "('b \<Rightarrow> string \<Rightarrow> int \<Rightarrow> (bool \<times> 'b) option) \<Rightarrow> ('t \<Rightarrow> 'm \<Rightarrow> 'm) \<Rightarrow> 't list \<Rightarrow> 'b \<Rightarrow> 'm \<Rightarrow> ('b \<times> 'm) option" where
  "apply_settled charge admit [] b m = Some (b, m)"
| "apply_settled charge admit (t # ts) b m =
     (case charge b ''proposal-application'' 1 of
        None \<Rightarrow> None
      | Some (False, b') \<Rightarrow> Some (b', m)
      | Some (True, b') \<Rightarrow> apply_settled charge admit ts b' (admit t m))"

section \<open>A boundary that returns\<close>

definition pid :: "settledTask \<Rightarrow> string" where
  "pid t = ''prop-'' @ k_stampId t"

definition landed_ok :: "(string, settledTask) omap \<Rightarrow> bool" where
  "landed_ok landed = (\<forall>i t. map_of landed i = Some t \<longrightarrow> i = pid t)"

definition content_ids :: "admittedEvent list \<Rightarrow> string list" where
  "content_ids as = map a_proposalId (filter (\<lambda>a. a_kind a = ContentKind) as)"

lemma content_ids_simps [simp]:
  "content_ids [] = []"
  "content_ids (a # as) = (if a_kind a = ContentKind then a_proposalId a # content_ids as else content_ids as)"
  by (simp_all add: content_ids_def)

lemma commit_parts:
  "l_content (snd (commit_verdict l v c)) = l_content l" "l_rules (snd (commit_verdict l v c)) = l_rules l"
  by (cases v; simp add: commit_verdict_def Let_def)+

lemma commit_Cleared:
  "\<exists>a. admissions_of (l_log (snd (commit_verdict l (Cleared p) c))) = admissions_of (l_log l) @ [a]
     \<and> a_proposalId a = p_id p \<and> a_kind a = p_kind p
     \<and> l_revision (snd (commit_verdict l (Cleared p) c)) = Suc (l_revision l)"
  by (simp add: commit_verdict_def Let_def)

lemma submit_admissions:
  "submit_proposal validate l p = Some (q, l') \<Longrightarrow>
   admissions_of (l_log l') = admissions_of (l_log l) \<and> l_revision l' = l_revision l"
  by (auto simp: submit_proposal_def frame_simps split: option.splits if_splits prod.splits)

lemma proposalOf_id [simp]: "p_id (proposalOf l t refs) = pid t"
  by (simp add: proposalOf_def pid_def)

lemma submit_settled_keeps:
  "submit_settled validate ts refs landed l = (Some landed', l') \<Longrightarrow> landed_ok landed \<Longrightarrow>
   landed_ok landed' \<and> admissions_of (l_log l') = admissions_of (l_log l) \<and> l_revision l' = l_revision l"
proof (induction ts arbitrary: refs landed l)
  case (Cons t ts)
  let ?p = "proposalOf l t (case refs of [] \<Rightarrow> [] | r # _ \<Rightarrow> r)"
  obtain q l1 where sub: "submit_proposal validate l ?p = Some (q, l1)"
    and rest: "submit_settled validate ts (tl refs) (if q then AList.update (p_id ?p) t landed else landed) l1
      = (Some landed', l')"
    using Cons.prems(1) by (auto simp: Let_def split: option.splits prod.splits)
  have "landed_ok (if q then AList.update (p_id ?p) t landed else landed)"
    using Cons.prems(2) by (auto simp: landed_ok_def update_conv')
  from Cons.IH [OF rest this] submit_admissions [OF sub] show ?case by simp
qed simp

lemma judge_all_keeps:
  "admissions_of (l_log (snd (judge_all resolves ps s))) = admissions_of (l_log s)
   \<and> l_revision (snd (judge_all resolves ps s)) = l_revision s
   \<and> l_content (snd (judge_all resolves ps s)) = l_content s \<and> l_rules (snd (judge_all resolves ps s)) = l_rules s"
proof (induction ps arbitrary: s)
  case (Cons p ps)
  show ?case
  proof (cases "judge s p resolves")
    case (Refused q reason detail)
    then show ?thesis using Cons [of "refuse s p reason detail"] by (simp add: Let_def case_prod_unfold frame_simps)
  qed (simp add: Let_def case_prod_unfold Cons)
qed simp

lemma admit_keeps:
  "admissions_of (l_log (snd (admit_proposals s resolves))) = admissions_of (l_log s)
   \<and> l_revision (snd (admit_proposals s resolves)) = l_revision s
   \<and> l_content (snd (admit_proposals s resolves)) = [] \<and> l_rules (snd (admit_proposals s resolves)) = []"
  using judge_all_keeps [of resolves "l_content s @ l_rules s" "s\<lparr>l_content := [], l_rules := []\<rparr>"]
  by (simp add: admit_proposals_def)

definition landed_as :: "lifecycle \<Rightarrow> settledTask list \<Rightarrow> lifecycle \<Rightarrow> bool" where
  "landed_as l tasks l' = (\<exists>new. admissions_of (l_log l') = admissions_of (l_log l) @ new
     \<and> content_ids new = map pid tasks \<and> l_revision l' = l_revision l + length new
     \<and> l_content l' = l_content l \<and> l_rules l' = l_rules l)"

lemma landed_as_rule:
  assumes "p_kind p = RuleKind" "landed_as (snd (commit_verdict l (Cleared p) c)) tasks l'"
  shows "landed_as l tasks l'"
proof -
  obtain a where "admissions_of (l_log (snd (commit_verdict l (Cleared p) c))) = admissions_of (l_log l) @ [a]"
    "a_kind a = RuleKind" "l_revision (snd (commit_verdict l (Cleared p) c)) = Suc (l_revision l)"
    using commit_Cleared [of l p c] assms(1) by auto
  moreover obtain new where "admissions_of (l_log l') = admissions_of (l_log (snd (commit_verdict l (Cleared p) c))) @ new"
    "content_ids new = map pid tasks" "l_revision l' = l_revision (snd (commit_verdict l (Cleared p) c)) + length new"
    "l_content l' = l_content l" "l_rules l' = l_rules l"
    using assms(2) by (auto simp: landed_as_def commit_parts)
  ultimately show ?thesis unfolding landed_as_def by (intro exI [of _ "a # new"]) simp
qed

lemma landed_as_content:
  assumes "p_kind p = ContentKind" "p_id p = pid t" "landed_as (snd (commit_verdict l (Cleared p) c)) tasks l'"
  shows "landed_as l (t # tasks) l'"
proof -
  obtain a where "admissions_of (l_log (snd (commit_verdict l (Cleared p) c))) = admissions_of (l_log l) @ [a]"
    "a_kind a = ContentKind" "a_proposalId a = pid t"
    "l_revision (snd (commit_verdict l (Cleared p) c)) = Suc (l_revision l)"
    using commit_Cleared [of l p c] assms(1,2) by auto
  moreover obtain new where "admissions_of (l_log l') = admissions_of (l_log (snd (commit_verdict l (Cleared p) c))) @ new"
    "content_ids new = map pid tasks" "l_revision l' = l_revision (snd (commit_verdict l (Cleared p) c)) + length new"
    "l_content l' = l_content l" "l_rules l' = l_rules l"
    using assms(3) by (auto simp: landed_as_def commit_parts)
  ultimately show ?thesis unfolding landed_as_def by (intro exI [of _ "a # new"]) simp
qed

lemma land_verdicts_landed:
  "land_verdicts bodies truths makeId landed vs s = (Inr tasks, s') \<Longrightarrow> landed_ok landed \<Longrightarrow>
   landed_as (pr_lifecycle s) tasks (pr_lifecycle s')"
proof (induction vs arbitrary: s tasks)
  case Nil
  then show ?case by (simp add: landed_as_def)
next
  case (Cons v vs)
  show ?case
  proof (cases v)
    case (Refused q reason detail)
    with Cons show ?thesis by simp
  next
    case (Cleared p)
    show ?thesis
    proof (cases "p_payload p")
      case (RulePayload r)
      let ?c = "makeId (l_admitted (pr_lifecycle s))"
      obtain t where "land_verdicts bodies truths makeId landed vs
          (s\<lparr>pr_lifecycle := snd (commit_verdict (pr_lifecycle s) (Cleared p) ?c), pr_table := t\<rparr>) = (Inr tasks, s')"
        using Cons.prems(1) Cleared RulePayload
        by (auto simp: Let_def case_prod_unfold split: sum.splits)
      from Cons.IH [OF this Cons.prems(2)] landed_as_rule [of p "pr_lifecycle s" ?c] show ?thesis
        by (simp add: p_kind_def RulePayload)
    next
      case (ContentPayload ty tm tr)
      show ?thesis
      proof (cases "map_of landed (p_id p)")
        case None
        with Cons Cleared ContentPayload show ?thesis by simp
      next
        case (Some t)
        then have id: "p_id p = pid t" using Cons.prems(2) by (simp add: landed_ok_def)
        obtain tasks1 where "land_verdicts bodies truths makeId landed vs
            (s\<lparr>pr_lifecycle := snd (commit_verdict (pr_lifecycle s) (Cleared p) (k_stampId t))\<rparr>) = (Inr tasks1, s')"
          "tasks = t # tasks1"
          using Cons.prems(1) Cleared ContentPayload Some by (auto simp: Let_def split: prod.splits sum.splits)
        with Cons.IH [OF this(1) Cons.prems(2)] landed_as_content [of p t "pr_lifecycle s" "k_stampId t"] id
        show ?thesis by (simp add: p_kind_def ContentPayload)
      qed
    qed
  qed
qed

text \<open>C31: what a boundary hands the cycle is what the log says was admitted. When \<open>takeDerived\<close>
  returns, both queues are empty, the committed revision advanced by the number of admissions it
  logged, and the content admissions are, in order, exactly the returned tasks.\<close>

theorem boundary_returns_what_it_logs:
  assumes "takeDerived validate resolves bodies truths makeId settled s = (Inr tasks, s')"
  shows "l_content (pr_lifecycle s') = [] \<and> l_rules (pr_lifecycle s') = []
    \<and> (\<exists>new. admissions_of (l_log (pr_lifecycle s')) = admissions_of (l_log (pr_lifecycle s)) @ new
         \<and> content_ids new = map pid tasks
         \<and> l_revision (pr_lifecycle s') = l_revision (pr_lifecycle s) + length new)"
proof -
  let ?s1 = "s\<lparr>pr_references := drop (length settled) (pr_references s)\<rparr>"
  obtain landed l where sub: "submit_settled validate settled (take (length settled) (pr_references s)) []
      (pr_lifecycle s) = (Some landed, l)"
    and land: "land_verdicts bodies truths makeId landed (fst (admit_proposals l resolves))
      (?s1\<lparr>pr_lifecycle := snd (admit_proposals l resolves)\<rparr>) = (Inr tasks, s')"
  proof (cases "submit_settled validate settled (take (length settled) (pr_references s)) [] (pr_lifecycle s)")
    case (Pair m l)
    with assms that show ?thesis
      by (cases m; cases "admit_proposals l resolves") (simp_all add: takeDerived_def Let_def)
  qed
  have k: "landed_ok landed" "admissions_of (l_log l) = admissions_of (l_log (pr_lifecycle s))"
    "l_revision l = l_revision (pr_lifecycle s)"
    using submit_settled_keeps [OF sub] by (simp_all add: landed_ok_def)
  from land_verdicts_landed [OF land k(1)] admit_keeps [of l resolves] k(2,3) show ?thesis
    by (auto simp: landed_as_def)
qed

text \<open>A boundary over one settled task and one queued rule.\<close>

definition exampleTask :: settledTask where
  "exampleTask = \<lparr>k_stampId = ''0:7'', k_type = ''belief'', k_term = ''cat'', k_truth = Some (1, 1/2)\<rparr>"

definition exampleProducer :: "(nat, nat) producer" where
  "exampleProducer = \<lparr>pr_lifecycle = (newProposalLifecycle DEFAULT_QUEUE_LIMITS)\<lparr>l_rules := [exampleRule]\<rparr>,
     pr_table = exampleStore, pr_references = []\<rparr>"

lemma exampleStore_eq:
  "exampleStore = \<lparr>rt_current = exampleTable, rt_dispatch = build_index
     [\<lparr>rr_id = ''b'', rr_left = ''inheritance'', rr_right = ''inheritance'', rr_apply = 1, rr_priority = 1,
       rr_truthFn = Some 1, rr_truthFnName = ''deduction'', rr_taskType = None\<rparr>],
     rt_history = [exampleTable]\<rparr>"
  by (simp add: exampleStore_def newRuleTableStore_def exampleTable_def tableArtifact_def builtinEntries_def
      entry_of_def exampleDeclaration_def resolveTable_def exampleBodies_def exampleTruths_def
      ruleDeclaration.defs ruleArtifactEntry.defs set_add_def Let_def)

lemma example_boundary:
  "\<exists>s'. takeDerived Some (\<lambda>_. True) exampleBodies exampleTruths (\<lambda>n. ''c'') [exampleTask] exampleProducer
     = (Inr [exampleTask], s')"
  by (simp add: takeDerived_def exampleProducer_def exampleTask_def proposalOf_def lifecycle_stats_def
      newProposalLifecycle_def DEFAULT_QUEUE_LIMITS_def submit_proposal_def p_kind_def pushCapped_def
      admit_proposals_def judge_def missingBody_def exampleRule_def PROPOSAL_SCHEMA_VERSION_def
      commit_verdict_def declarationOf_def admit_rule_def replace_table_def resolveTable_def
      exampleStore_eq exampleTable_def tableArtifact_def builtinEntries_def entry_of_def
      exampleDeclaration_def exampleBodies_def ruleDeclaration.defs ruleArtifactEntry.defs
      maxScore_Fin set_add_def RULE_TABLE_SCHEMA_VERSION_def Let_def)

lemma boundary_returns_what_it_logs_witness:
  "\<exists>s'. takeDerived Some (\<lambda>_. True) exampleBodies exampleTruths (\<lambda>n. ''c'') [exampleTask] exampleProducer
     = (Inr [exampleTask], s') \<and> l_rules (pr_lifecycle s') = []"
  using example_boundary boundary_returns_what_it_logs by blast

section \<open>A boundary that throws\<close>

lemma land_rule_refused:
  assumes "p_payload p = RulePayload r" "rp_body r = Some body" "body \<noteq> []"
    "\<And>d rev. d_body d = body \<Longrightarrow> \<exists>faults. admit_rule bodies truths (pr_table s) d rev (Some (p_baseRevision p)) (p_id p) None None = Inl faults"
  shows "\<exists>faults. land_verdicts bodies truths makeId landed (Cleared p # vs) s =
    (Inl (TableRefused faults),
     s\<lparr>pr_lifecycle := snd (commit_verdict (pr_lifecycle s) (Cleared p) (makeId (l_admitted (pr_lifecycle s))))\<rparr>)"
proof -
  let ?d = "\<lparr>d_ruleId = rp_ruleId r, d_description = rp_name r, d_left = rp_left r, d_right = rp_right r,
    d_truthFn = rp_truthFn r, d_body = body, d_priority = rp_priority r, d_taskType = None\<rparr>"
  obtain rev l where c: "commit_verdict (pr_lifecycle s) (Cleared p) (makeId (l_admitted (pr_lifecycle s))) = (rev, l)"
    by fastforce
  obtain faults where "admit_rule bodies truths (pr_table s) ?d (nat rev) (Some (p_baseRevision p)) (p_id p) None None = Inl faults"
    using assms(4) [of ?d "nat rev"] by auto
  then show ?thesis using assms(1-3) c by (simp add: declarationOf_def)
qed

text \<open>An entry whose body resolves to nothing makes the whole table unloadable.\<close>

lemma unresolved_faults:
  assumes "e \<in> set es" "bodies (d_body e) = None"
  shows "snd (resolve_entries bodies truths seen es) \<noteq> []"
  using assms(1)
proof (induction es arbitrary: seen)
  case (Cons x xs)
  then show ?case using assms(2)
    by (cases "x = e") (auto simp: Let_def case_prod_unfold split: option.split)
qed simp

lemma admit_unresolved:
  assumes "bodies (d_body d) = None"
  shows "\<exists>faults. admit_rule bodies truths s d r pr i src ev = Inl faults"
proof (cases "r \<le> t_revision (rt_current s)")
  case False
  let ?e = "entry_of d (t_artifactVersion (rt_current s)) r pr (FromProposal i src) ev"
  let ?t = "(rt_current s)\<lparr>t_revision := r, t_entries := t_entries (rt_current s) @ [?e]\<rparr>"
  have "d_body ?e = d_body d" by (simp add: entry_of_def ruleDeclaration.defs ruleArtifactEntry.defs)
  then have "snd (resolve_entries bodies truths [] (t_entries ?t)) \<noteq> []"
    using assms by (intro unresolved_faults [of ?e]) simp_all
  then have "snd (snd (resolveTable ?t bodies truths)) \<noteq> []"
    by (simp add: resolveTable_def Let_def case_prod_unfold)
  then have "replace_table bodies truths s ?t = Inl (snd (snd (resolveTable ?t bodies truths)))"
    by (simp add: replace_table_def Let_def case_prod_unfold)
  with False show ?thesis by (simp add: admit_rule_def Let_def)
qed (simp add: admit_rule_def)

text \<open>one rule proposal whose body names nothing throws away the boundary it shares. The
  settled task is committed and logged as admitted, and so is the rule; both queues are drained;
  and then the table's refusal propagates, so the task reaches the cycle by no path and the log
  states a rule the table does not hold.\<close>

theorem unresolved_rule_loses_the_boundary:
  assumes "pr_lifecycle s = (newProposalLifecycle limits)\<lparr>l_rules := [p]\<rparr>" "0 < maxPendingContent limits"
    and "p_payload p = RulePayload r" "rp_body r = Some body" "body \<noteq> []" "bodies body = None"
    and "p_schemaVersion p = PROPOSAL_SCHEMA_VERSION" "p_baseRevision p = 0" "p_references p = []"
    and "pr_references s = []"
  shows "\<exists>faults s'. takeDerived Some resolves bodies truths makeId [task] s = (Inl (TableRefused faults), s')
    \<and> l_content (pr_lifecycle s') = [] \<and> l_rules (pr_lifecycle s') = []
    \<and> map a_proposalId (admissions_of (l_log (pr_lifecycle s'))) = [pid task, p_id p]
    \<and> pr_table s' = pr_table s"
proof -
  let ?q = "proposalOf (pr_lifecycle s) task []"
  let ?l = "(newProposalLifecycle limits)\<lparr>l_content := [?q], l_rules := [p]\<rparr>"
  let ?l2 = "(newProposalLifecycle limits)\<lparr>l_content := [], l_rules := []\<rparr>"
  let ?s2 = "s\<lparr>pr_lifecycle := snd (commit_verdict ?l2 (Cleared ?q) (k_stampId task))\<rparr>"
  have refs: "s\<lparr>pr_references := [], pr_lifecycle := x\<rparr> = s\<lparr>pr_lifecycle := x\<rparr>" for x
    using assms(10) by simp
  have sub: "submit_settled Some [task] [] [] (pr_lifecycle s) = (Some [(pid task, task)], ?l)"
    using assms(1,2) by (simp add: submit_proposal_def p_kind_def proposalOf_def pushCapped_def Let_def
        newProposalLifecycle_def pid_def)
  have jq: "judge ?l2 ?q resolves = Cleared ?q"
    using assms(1) by (simp add: judge_def proposalOf_def lifecycle_stats_def newProposalLifecycle_def
        p_kind_def Let_def)
  have jp: "judge ?l2 p resolves = Cleared p"
    using assms by (simp add: judge_def newProposalLifecycle_def p_kind_def missingBody_def Let_def)
  have adm: "admit_proposals ?l resolves = ([Cleared ?q, Cleared p], ?l2)"
    by (simp add: admit_proposals_def jq jp Let_def)
  obtain faults where land: "land_verdicts bodies truths makeId [(pid task, task)] [Cleared p] ?s2 =
      (Inl (TableRefused faults), ?s2\<lparr>pr_lifecycle := snd (commit_verdict (pr_lifecycle ?s2) (Cleared p)
        (makeId (l_admitted (pr_lifecycle ?s2))))\<rparr>)"
    using land_rule_refused [OF assms(3-5), of bodies truths ?s2 makeId "[(pid task, task)]" "[]"]
      admit_unresolved assms(6) by blast
  have payload: "p_payload ?q = ContentPayload (k_type task) (k_term task) (k_truth task)"
    by (simp add: proposalOf_def)
  have "land_verdicts bodies truths makeId [(pid task, task)] [Cleared ?q, Cleared p] (s\<lparr>pr_lifecycle := ?l2\<rparr>) =
      (Inl (TableRefused faults), ?s2\<lparr>pr_lifecycle := snd (commit_verdict (pr_lifecycle ?s2) (Cleared p)
        (makeId (l_admitted (pr_lifecycle ?s2))))\<rparr>)"
    using land by (subst land_verdicts.simps(3)) (simp add: payload del: land_verdicts.simps)
  then have "takeDerived Some resolves bodies truths makeId [task] s =
      (Inl (TableRefused faults), ?s2\<lparr>pr_lifecycle := snd (commit_verdict (pr_lifecycle ?s2) (Cleared p)
        (makeId (l_admitted (pr_lifecycle ?s2))))\<rparr>)"
    by (simp add: takeDerived_def assms(10) sub adm refs Let_def del: land_verdicts.simps submit_settled.simps)
  then show ?thesis
    by (simp add: commit_verdict_def newProposalLifecycle_def pid_def proposalOf_def Let_def)
qed

definition unresolvedRule :: proposal where
  "unresolvedRule = exampleRule\<lparr>p_payload := RulePayload \<lparr>rp_ruleId = ''x'', rp_name = ''n'', rp_left = ''inheritance'',
     rp_right = ''inheritance'', rp_truthFn = ''deduction'', rp_priority = 1, rp_body = Some ''nal.unknown'',
     rp_symbolicFallback = None\<rparr>\<rparr>"

lemma unresolved_rule_loses_the_boundary_witness:
  "\<exists>faults s'. takeDerived Some (\<lambda>_. True) exampleBodies exampleTruths (\<lambda>n. ''c'') [exampleTask]
      (exampleProducer\<lparr>pr_lifecycle := (newProposalLifecycle DEFAULT_QUEUE_LIMITS)\<lparr>l_rules := [unresolvedRule]\<rparr>\<rparr>)
      = (Inl (TableRefused faults), s')
    \<and> map a_proposalId (admissions_of (l_log (pr_lifecycle s'))) = [''prop-0:7'', ''p1'']"
proof -
  let ?s = "exampleProducer\<lparr>pr_lifecycle := (newProposalLifecycle DEFAULT_QUEUE_LIMITS)\<lparr>l_rules := [unresolvedRule]\<rparr>\<rparr>"
  obtain faults s' where "takeDerived Some (\<lambda>_. True) exampleBodies exampleTruths (\<lambda>n. ''c'') [exampleTask] ?s
      = (Inl (TableRefused faults), s')"
    "map a_proposalId (admissions_of (l_log (pr_lifecycle s'))) = [pid exampleTask, p_id unresolvedRule]"
    using unresolved_rule_loses_the_boundary [where s = ?s and limits = DEFAULT_QUEUE_LIMITS and p = unresolvedRule
        and r = "\<lparr>rp_ruleId = ''x'', rp_name = ''n'', rp_left = ''inheritance'', rp_right = ''inheritance'',
          rp_truthFn = ''deduction'', rp_priority = 1, rp_body = Some ''nal.unknown'', rp_symbolicFallback = None\<rparr>"
        and body = "''nal.unknown''" and bodies = exampleBodies and resolves = "\<lambda>_. True"
        and truths = exampleTruths and makeId = "\<lambda>n. ''c''" and task = exampleTask]
    by (auto simp: DEFAULT_QUEUE_LIMITS_def unresolvedRule_def exampleRule_def exampleBodies_def
        PROPOSAL_SCHEMA_VERSION_def exampleProducer_def)
  then show ?thesis by (auto simp: pid_def exampleTask_def unresolvedRule_def exampleRule_def)
qed

section \<open>Applying under the budget\<close>

context control_budget_port
begin

lemma apply_settled_bound:
  assumes "inv s" "\<And>m. allowance s ''proposal-application'' = Some m \<Longrightarrow> 0 \<le> m"
  shows "\<exists>s'. apply_settled charge admit ts s mem =
    Some (s', fold admit (take (bounded_by (length ts) (allowance s ''proposal-application'')) ts) mem)"
  using assms
proof (induction ts arbitrary: s mem)
  case (Cons t ts)
  let ?sc = "''proposal-application''"
  have sc: "?sc \<in> set BUDGET_SCOPE_IDS" by (simp add: BUDGET_SCOPE_IDS_def)
  obtain s1 where s1: "charge s ?sc 1 = Some (fits 1 (allowance s ?sc), s1)" "inv s1"
    "allowance s1 ?sc = (if fits 1 (allowance s ?sc) then map_option (\<lambda>n. n - 1) (allowance s ?sc) else allowance s ?sc)"
    using charge_ok [OF Cons.prems(1) sc, of 1] by auto
  show ?case
  proof (cases "fits 1 (allowance s ?sc)")
    case True
    have "0 \<le> m" if "allowance s1 ?sc = Some m" for m
      using that s1(3) True by (auto simp: fits_def split: option.splits)
    from Cons.IH [OF s1(2) this, of "admit t mem"] obtain s' where
      "apply_settled charge admit ts s1 (admit t mem) =
        Some (s', fold admit (take (bounded_by (length ts) (allowance s1 ?sc)) ts) (admit t mem))" by blast
    moreover have "bounded_by (length (t # ts)) (allowance s ?sc) = Suc (bounded_by (length ts) (allowance s1 ?sc))"
      using True s1(3) by (auto simp: bounded_by_def fits_def nat_diff_distrib split: option.splits)
    ultimately show ?thesis using s1(1) True by simp
  next
    case False
    then have "bounded_by (length (t # ts)) (allowance s ?sc) = 0"
      by (auto simp: bounded_by_def fits_def split: option.splits)
    with False s1(1) show ?thesis by simp
  qed
qed (simp add: bounded_by_def)

end

text \<open>a spent application budget drops admitted tasks. In a cycle the stage applies exactly the
  first so many settled tasks as the scope's ceiling, and the rest, which the boundary has
  already drained and committed, are applied nowhere: the loop returns only the budget and the
  memory.\<close>

theorem application_stops_at_ceiling:
  assumes "cb_inv cb"
  shows "\<exists>cb1 cb2. cb_beginCycle cb = Some cb1 \<and>
    apply_settled (cb_charge corr) admit ts cb1 mem =
      Some (cb2, fold admit (take (bounded_by (length ts) (cb_ceiling cb ''proposal-application'')) ts) mem)"
proof -
  obtain cb1 where c: "cb_beginCycle cb = Some cb1" "cb_inv cb1" "cb_ceiling cb1 = cb_ceiling cb"
    "\<forall>sc \<in> set BUDGET_SCOPE_IDS. cb_allowance cb1 sc = cb_ceiling cb sc"
    using controls.cycle_ok [OF assms] by blast
  have a: "cb_allowance cb1 ''proposal-application'' = cb_ceiling cb ''proposal-application''"
    using c(4) by (simp add: BUDGET_SCOPE_IDS_def)
  have "0 \<le> m" if "cb_allowance cb1 ''proposal-application'' = Some m" for m
    using controls.ceil_nonneg [OF assms, of "''proposal-application''" m] that a by simp
  from controls.apply_settled_bound [OF c(2) this, of corr admit ts mem] c(1) a show ?thesis by auto
qed

lemma application_stops_at_ceiling_witness:
  "\<exists>cb1 cb2. cb_beginCycle \<lparr>cb_gate = default_gate,
       cb_overrides = (\<lambda>_. None)(''proposal-application'' := Some 2)\<rparr> = Some cb1
    \<and> apply_settled (cb_charge ''c'') (#) [1, 2, 3 :: nat] cb1 [] = Some (cb2, [2, 1])"
proof -
  have "cb_inv \<lparr>cb_gate = default_gate, cb_overrides = (\<lambda>_. None)(''proposal-application'' := Some 2)\<rparr>"
    by (simp add: cb_inv_def cb_scope_ok_def default_gate_eq valid_default overrides_ok_def
        BUDGET_SCOPE_IDS_def scopeLimitKey_def scopeSpec_def BUDGET_SCOPES_def scopeLimit_def)
  from application_stops_at_ceiling [OF this, of "''c''" "(#)" "[1, 2, 3 :: nat]" "[]"] show ?thesis
    by (simp add: cb_ceiling_def scopeLimit_def bounded_by_def BUDGET_SCOPE_IDS_def)
qed

end
