(* ===== verification/Unify.thy ===== *)
theory Unify
  imports Caches "HOL-Library.Char_ord" "HOL-Library.List_Lexorder"
begin

text \<open>
  The structural unifier of \<open>util/src/utils/unify.ts\<close>, over a dialect that says how a
  node of a term tree is read. Both engines of the repository instantiate it, the Narsese terms
  in \<open>Terms\<close> and the MeTTa atoms in \<open>Metta\<close>.

  A substitution is the insertion-ordered map from variable names to nodes. Identity of two
  objects (\<open>===\<close>) is the argument \<open>ident\<close>: all that is used of it is that
  identical nodes are equal. The depth cap \<open>MAX_DEPTH\<close> runs from 0 upwards in the code and
  is counted down here. A recursion the code leaves unbounded (\<open>structuralEqual\<close>,
  \<open>apply\<close>, \<open>variables\<close>) has an explicit bound on its depth and answers
  \<open>None\<close> when it is exceeded, which on a cyclic substitution is the stack overflow of the
  code; the dialects show which bound is enough. \<open>None\<close> is also the throw of
  \<open>rebuild\<close>.
\<close>

section \<open>Dialects and structural equality\<close>

record 'a equalityDialect =
  variableName :: "'a \<Rightarrow> string option"
  payloadEqual :: "'a \<Rightarrow> 'a \<Rightarrow> bool"
  sameHead :: "'a \<Rightarrow> 'a \<Rightarrow> bool"
  children :: "'a \<Rightarrow> 'a list"

record 'a unifierDialect = "'a equalityDialect" +
  nodeKey :: "'a \<Rightarrow> string"
  rebuild :: "'a \<Rightarrow> 'a list \<Rightarrow> 'a option"

datatype variablePolicy = Strict | Wildcard

text \<open>A loop over pairs that returns false at the first false answer.\<close>

fun all_pairs :: "('a \<Rightarrow> 'b \<Rightarrow> bool option) \<Rightarrow> 'a list \<Rightarrow> 'b list \<Rightarrow> bool option" where
  "all_pairs f (x # xs) (y # ys) =
     (case f x y of
        None \<Rightarrow> None
      | Some False \<Rightarrow> Some False
      | Some True \<Rightarrow> all_pairs f xs ys)"
| "all_pairs f _ _ = Some True"

fun structuralEqual ::
  "nat \<Rightarrow> ('a \<Rightarrow> 'a \<Rightarrow> bool) \<Rightarrow> ('a, 'z) equalityDialect_scheme \<Rightarrow> 'a \<Rightarrow> 'a \<Rightarrow> variablePolicy
    \<Rightarrow> bool option" where
  "structuralEqual 0 ident ast a b variables = None"
| "structuralEqual (Suc n) ident ast a b variables =
     (if ident a b then Some True
      else case variableName ast a of
        Some name \<Rightarrow> Some (variables = Wildcard \<or> Some name = variableName ast b)
      | None \<Rightarrow>
          if variableName ast b \<noteq> None then Some False
          else if \<not> sameHead ast a b \<or> \<not> payloadEqual ast a b then Some False
          else let left = children ast a; right = children ast b
               in if length left \<noteq> length right then Some False
                  else all_pairs (\<lambda>x y. structuralEqual n ident ast x y variables) left right)"

section \<open>The unifier\<close>

type_synonym 'a substitution = "(string, 'a) omap"
type_synonym 'a delta = "(string \<times> 'a) list option"

definition MAX_DEPTH :: nat where
  "MAX_DEPTH = 64"

text \<open>\<open>deref\<close> follows a variable's bindings for at most the given number of steps.\<close>

fun deref :: "('a, 'z) equalityDialect_scheme \<Rightarrow> 'a substitution \<Rightarrow> nat \<Rightarrow> 'a \<Rightarrow> 'a" where
  "deref ast work 0 node = node"
| "deref ast work (Suc d) node =
     (case variableName ast node of
        None \<Rightarrow> node
      | Some name \<Rightarrow>
          (case map_of work name of
             None \<Rightarrow> node
           | Some bound \<Rightarrow> deref ast work d bound))"

fun occurs :: "('a, 'z) equalityDialect_scheme \<Rightarrow> string \<Rightarrow> 'a substitution \<Rightarrow> nat \<Rightarrow> 'a \<Rightarrow> bool" where
  "occurs ast var work 0 node = False"
| "occurs ast var work (Suc d) node =
     (case variableName ast node of
        Some name \<Rightarrow>
          (if name = var then True
           else case map_of work name of
                  None \<Rightarrow> False
                | Some bound \<Rightarrow> occurs ast var work d bound)
      | None \<Rightarrow> list_ex (occurs ast var work d) (children ast node))"

type_synonym 'a work = "'a substitution \<times> (string \<times> 'a) list"

definition bind_var ::
  "('a, 'z) equalityDialect_scheme \<Rightarrow> bool \<Rightarrow> string \<Rightarrow> 'a \<Rightarrow> 'a work \<Rightarrow> bool \<times> 'a work" where
  "bind_var ast check var value st =
     (case st of (work, added) \<Rightarrow>
        if check \<and> occurs ast var work MAX_DEPTH value then (False, (work, added))
        else (True, (AList.update var value work, added @ [(var, value)])))"

text \<open>The loop of \<open>descend\<close> over two argument lists, which hands the bindings along and
  stops at the first mismatch.\<close>

fun descend_pairs ::
  "('a \<Rightarrow> 'a \<Rightarrow> 'w \<Rightarrow> bool \<times> 'w) \<Rightarrow> 'a list \<Rightarrow> 'a list \<Rightarrow> 'w \<Rightarrow> bool \<times> 'w" where
  "descend_pairs f (x # xs) (y # ys) st =
     (case f x y st of
        (False, st') \<Rightarrow> (False, st')
      | (True, st') \<Rightarrow> descend_pairs f xs ys st')"
| "descend_pairs f _ _ st = (True, st)"

fun descend ::
  "('a \<Rightarrow> 'a \<Rightarrow> bool) \<Rightarrow> ('a, 'z) equalityDialect_scheme \<Rightarrow> bool \<Rightarrow> nat \<Rightarrow> 'a \<Rightarrow> 'a \<Rightarrow> 'a work
    \<Rightarrow> bool \<times> 'a work" where
  "descend ident ast check 0 a b st = (False, st)"
| "descend ident ast check (Suc d) a b st =
     (let left = deref ast (fst st) MAX_DEPTH a;
          right = deref ast (fst st) MAX_DEPTH b
      in if ident left right then (True, st)
         else case (variableName ast left, variableName ast right) of
           (Some name, Some other) \<Rightarrow>
             if name = other then (True, st) else bind_var ast check name right st
         | (Some name, None) \<Rightarrow> bind_var ast check name right st
         | (None, Some other) \<Rightarrow> bind_var ast check other left st
         | (None, None) \<Rightarrow>
             if \<not> sameHead ast left right then (False, st)
             else let leftKids = children ast left; rightKids = children ast right
                  in if length leftKids \<noteq> length rightKids then (False, st)
                     else if leftKids = [] then (payloadEqual ast left right, st)
                     else descend_pairs (descend ident ast check d) leftKids rightKids st)"

text \<open>The memo is keyed on both nodes and every bound value.\<close>

definition memoKey :: "('a, 'z) unifierDialect_scheme \<Rightarrow> 'a \<Rightarrow> 'a \<Rightarrow> 'a substitution \<Rightarrow> bool \<Rightarrow> string" where
  "memoKey ast a b subst check =
     (let head = (if check then ''1'' else ''0'') @ ''|'' @ nodeKey ast a @ ''|'' @ nodeKey ast b
      in if subst = [] then head
         else head @ ''|'' @ join_with '';''
                (js_sort (\<le>) (map (\<lambda>(name, value). name @ ''='' @ nodeKey ast value) subst)))"

definition replay_delta :: "'a substitution \<Rightarrow> (string \<times> 'a) list \<Rightarrow> 'a substitution" where
  "replay_delta subst delta = fold (\<lambda>(name, value) out. AList.update name value out) delta subst"

record ('a, 'z) unifier =
  u_ast :: "('a, 'z) unifierDialect_scheme"
  u_memo :: "(string, 'a delta) lruCache option"

definition newUnifier :: "('a, 'z) unifierDialect_scheme \<Rightarrow> bool option \<Rightarrow> int option \<Rightarrow> ('a, 'z) unifier" where
  "newUnifier ast memoize capacity =
     \<lparr>u_ast = ast,
      u_memo = (if memoize = Some False then None
                else Some (newLruCache (case capacity of None \<Rightarrow> 1000 | Some c \<Rightarrow> c)))\<rparr>"

definition run_unify ::
  "('a \<Rightarrow> 'a \<Rightarrow> bool) \<Rightarrow> ('a, 'z) equalityDialect_scheme \<Rightarrow> bool \<Rightarrow> 'a \<Rightarrow> 'a \<Rightarrow> 'a substitution
    \<Rightarrow> 'a work option" where
  "run_unify ident ast check a b subst =
     (case descend ident ast check MAX_DEPTH a b (subst, []) of
        (True, st) \<Rightarrow> Some st
      | (False, _) \<Rightarrow> None)"

text \<open>\<open>unify\<close>: the answer and the unifier with its memo. The clock of the cache plays no
  part, since the memo has no expiry.\<close>

definition unify ::
  "('a \<Rightarrow> 'a \<Rightarrow> bool) \<Rightarrow> ('a, 'z) unifier \<Rightarrow> 'a \<Rightarrow> 'a \<Rightarrow> 'a substitution \<Rightarrow> bool \<Rightarrow> bool option
    \<Rightarrow> 'a substitution option \<times> ('a, 'z) unifier" where
  "unify ident u a b subst check memoize =
     (let ast = u_ast u;
          memo = (if memoize = Some False then None else u_memo u);
          miss = run_unify ident ast check a b subst
      in case memo of
           None \<Rightarrow> (map_option fst miss, u)
         | Some cache \<Rightarrow>
             (let key = memoKey ast a b subst check
              in case lru_get 0 cache key of
                   (Some None, cache') \<Rightarrow> (None, u\<lparr>u_memo := Some cache'\<rparr>)
                 | (Some (Some delta), cache') \<Rightarrow> (Some (replay_delta subst delta), u\<lparr>u_memo := Some cache'\<rparr>)
                 | (None, cache') \<Rightarrow>
                     (map_option fst miss, u\<lparr>u_memo := Some (bm_set 0 0 cache' key (map_option snd miss))\<rparr>)))"

fun map_some :: "('a \<Rightarrow> 'b option) \<Rightarrow> 'a list \<Rightarrow> 'b list option" where
  "map_some f [] = Some []"
| "map_some f (x # xs) =
     (case f x of None \<Rightarrow> None
      | Some y \<Rightarrow> (case map_some f xs of None \<Rightarrow> None | Some ys \<Rightarrow> Some (y # ys)))"

fun apply_subst ::
  "nat \<Rightarrow> ('a \<Rightarrow> 'a \<Rightarrow> bool) \<Rightarrow> ('a, 'z) unifierDialect_scheme \<Rightarrow> 'a \<Rightarrow> 'a substitution \<Rightarrow> 'a option" where
  "apply_subst 0 ident ast t subst = None"
| "apply_subst (Suc n) ident ast t subst =
     (case variableName ast t of
        Some name \<Rightarrow>
          (case map_of subst name of
             None \<Rightarrow> Some t
           | Some bound \<Rightarrow>
               (case apply_subst n ident ast bound subst of
                  None \<Rightarrow> None
                | Some nxt \<Rightarrow> Some (if payloadEqual ast nxt t then t else nxt)))
      | None \<Rightarrow>
          (let kids = children ast t
           in if kids = [] then Some t
              else case map_some (\<lambda>kid. apply_subst n ident ast kid subst) kids of
                     None \<Rightarrow> None
                   | Some applied \<Rightarrow>
                       if list_ex (\<lambda>(kid, nxt). \<not> ident nxt kid) (zip kids applied)
                       then rebuild ast t applied else Some t))"

text \<open>\<open>variables\<close>: the walk with its list of the names found so far.\<close>

fun walk_variables ::
  "nat \<Rightarrow> ('a, 'z) equalityDialect_scheme \<Rightarrow> 'a \<Rightarrow> string list \<Rightarrow> string list option" where
  "walk_variables 0 ast node found = None"
| "walk_variables (Suc n) ast node found =
     (case variableName ast node of
        Some name \<Rightarrow> Some (set_add name found)
      | None \<Rightarrow> fold (\<lambda>kid acc. Option.bind acc (walk_variables n ast kid)) (children ast node) (Some found))"

definition variables_of :: "nat \<Rightarrow> ('a, 'z) equalityDialect_scheme \<Rightarrow> 'a \<Rightarrow> string list option" where
  "variables_of n ast t = walk_variables n ast t []"

definition clear_unifier :: "('a, 'z) unifier \<Rightarrow> ('a, 'z) unifier" where
  "clear_unifier u = u\<lparr>u_memo := map_option lru_clear (u_memo u)\<rparr>"


section \<open>What a substitution says\<close>

text \<open>The bindings of a run point forward: the value bound to a name is not a variable bound
  before it or at the same time. So a chain of variables is no longer than the substitution.\<close>

definition forward :: "('a, 'z) equalityDialect_scheme \<Rightarrow> 'a substitution \<Rightarrow> bool" where
  "forward ast work \<longleftrightarrow> distinct (okeys work) \<and>
     (\<forall>p x v s z. work = p @ (x, v) # s \<longrightarrow> variableName ast v = Some z \<longrightarrow> z \<notin> set (okeys (p @ [(x, v)])))"

definition resolved :: "('a, 'z) equalityDialect_scheme \<Rightarrow> 'a substitution \<Rightarrow> 'a \<Rightarrow> bool" where
  "resolved ast work node \<longleftrightarrow> (\<forall>z. variableName ast node = Some z \<longrightarrow> map_of work z = None)"

lemma forward_empty [simp]: "forward ast []"
  by (simp add: forward_def)

lemma forward_snoc:
  assumes "forward ast work" "x \<notin> set (okeys work)"
    and "\<And>z. variableName ast v = Some z \<Longrightarrow> z \<notin> set (okeys work) \<and> z \<noteq> x"
  shows "forward ast (work @ [(x, v)])"
  unfolding forward_def
proof (intro conjI allI impI)
  show "distinct (okeys (work @ [(x, v)]))" using assms by (simp add: forward_def)
next
  fix p x' v' s z
  assume eq: "work @ [(x, v)] = p @ (x', v') # s" and z: "variableName ast v' = Some z"
  show "z \<notin> set (okeys (p @ [(x', v')]))"
  proof (cases s rule: rev_cases)
    case Nil
    then show ?thesis using eq z assms(3) by auto
  next
    case (snoc s' e)
    then have "work = p @ (x', v') # s'" using eq by (metis append.assoc append_Cons butlast_snoc)
    then show ?thesis using assms(1) z unfolding forward_def by blast
  qed
qed

lemma deref_suffix:
  assumes "forward ast work" "work = p @ s" "length s \<le> d"
    and "\<And>z. variableName ast node = Some z \<Longrightarrow> z \<notin> set (okeys p)"
  shows "resolved ast work (deref ast work d node)"
  using assms(2-4)
proof (induction d arbitrary: p s node)
  case 0
  then show ?case by (auto simp: resolved_def map_of_eq_None_iff)
next
  case (Suc d)
  show ?case
  proof (cases "variableName ast node")
    case None
    then show ?thesis by (simp add: resolved_def)
  next
    case (Some z)
    show ?thesis
    proof (cases "map_of work z")
      case None
      then show ?thesis using Some by (simp add: resolved_def)
    next
      case (Some v)
      then have "(z, v) \<in> set work" by (rule map_of_SomeD)
      then have "(z, v) \<in> set s" using Suc.prems(1,3) \<open>variableName ast node = Some z\<close> by force
      then obtain s1 s2 where s: "s = s1 @ (z, v) # s2" by (meson split_list)
      have "\<And>y. variableName ast v = Some y \<Longrightarrow> y \<notin> set (okeys (p @ s1 @ [(z, v)]))"
        using assms(1) Suc.prems(1) s unfolding forward_def by (metis append.assoc)
      then have "resolved ast work (deref ast work d v)"
        using Suc.IH [of "p @ s1 @ [(z, v)]" s2 v] Suc.prems s by simp
      then show ?thesis using Some \<open>variableName ast node = Some z\<close> by simp
    qed
  qed
qed

lemma deref_resolved:
  assumes "forward ast work" "length work \<le> d"
  shows "resolved ast work (deref ast work d node)"
  using deref_suffix [of ast work "[]" work d node] assms by simp

text \<open>
  A reading gives every node of a closed set a value, in such a way that two nodes that are not
  variables have the same value exactly when their heads and their children's values agree. The
  contract of the unifier: whatever the reading, the substitution it returns holds of it exactly
  when the two nodes have the same value.
\<close>

locale term_reading =
  fixes ident :: "'a \<Rightarrow> 'a \<Rightarrow> bool"
    and ast :: "('a, 'z) equalityDialect_scheme"
    and nodes :: "'a set"
    and names :: "string set"
    and reading :: "'a \<Rightarrow> 'v"
    and val :: "string \<Rightarrow> 'v"
    and height :: "'v \<Rightarrow> nat"
  assumes ident_eq: "ident a b \<Longrightarrow> a = b"
    and children_nodes: "a \<in> nodes \<Longrightarrow> set (children ast a) \<subseteq> nodes"
    and few_names: "finite names" "card names \<le> 64"
    and variable_name: "a \<in> nodes \<Longrightarrow> variableName ast a = Some x \<Longrightarrow> x \<in> names"
    and variable_value: "a \<in> nodes \<Longrightarrow> variableName ast a = Some x \<Longrightarrow> reading a = val x"
    and structural: "a \<in> nodes \<Longrightarrow> b \<in> nodes \<Longrightarrow> variableName ast a = None \<Longrightarrow> variableName ast b = None
      \<Longrightarrow> reading a = reading b \<longleftrightarrow> sameHead ast a b \<and> (children ast a = [] \<longrightarrow> payloadEqual ast a b)
          \<and> map reading (children ast a) = map reading (children ast b)"
    and child_smaller: "a \<in> nodes \<Longrightarrow> variableName ast a = None \<Longrightarrow> k \<in> set (children ast a)
      \<Longrightarrow> height (reading k) < height (reading a)"
begin

definition holds :: "'a substitution \<Rightarrow> bool" where
  "holds work \<longleftrightarrow> (\<forall>(x, v) \<in> set work. val x = reading v)"

definition good :: "'a substitution \<Rightarrow> bool" where
  "good work \<longleftrightarrow> forward ast work \<and> snd ` set work \<subseteq> nodes \<and> fst ` set work \<subseteq> names"

lemma holds_simps [simp]:
  "holds []" "holds (w @ e) \<longleftrightarrow> holds w \<and> holds e" "holds [(x, v)] \<longleftrightarrow> val x = reading v"
  by (auto simp: holds_def)

lemma good_empty [simp]: "good []"
  by (simp add: good_def)

lemma good_length:
  assumes "good work"
  shows "length work \<le> 64"
proof -
  have "card (fst ` set work) = length work"
    using assms by (metis distinct_card forward_def good_def length_map list.set_map)
  moreover have "card (fst ` set work) \<le> card names"
    using assms few_names(1) by (simp add: good_def card_mono)
  ultimately show ?thesis using few_names(2) by simp
qed

lemma deref_node:
  assumes "good work" "a \<in> nodes"
  shows "deref ast work d a \<in> nodes \<and> (holds work \<longrightarrow> reading (deref ast work d a) = reading a)"
  using assms(2)
proof (induction d arbitrary: a)
  case (Suc d)
  show ?case
  proof (cases "variableName ast a")
    case (Some x)
    show ?thesis
    proof (cases "map_of work x")
      case (Some v)
      then have v: "(x, v) \<in> set work" by (rule map_of_SomeD)
      then have "v \<in> nodes" using assms(1) by (auto simp: good_def)
      moreover have "holds work \<Longrightarrow> reading v = reading a"
        using v variable_value [OF Suc.prems \<open>variableName ast a = Some x\<close>] by (auto simp: holds_def)
      ultimately show ?thesis using Suc.IH [of v] Some \<open>variableName ast a = Some x\<close> by auto
    qed (use Some Suc.prems in auto)
  qed (use Suc.prems in auto)
qed simp

lemma occurs_height:
  assumes "good work" "holds work" "occurs ast x work d a" "a \<in> nodes"
  shows "height (val x) \<le> height (reading a)"
    and "variableName ast a = None \<Longrightarrow> height (val x) < height (reading a)"
proof -
  have "height (val x) \<le> height (reading a) \<and> (variableName ast a = None \<longrightarrow> height (val x) < height (reading a))"
    using assms(3,4)
  proof (induction d arbitrary: a)
    case (Suc d)
    show ?case
    proof (cases "variableName ast a")
      case None
      then obtain k where k: "k \<in> set (children ast a)" "occurs ast x work d k"
        using Suc.prems by (auto simp: list_ex_iff)
      then have "k \<in> nodes" using children_nodes Suc.prems(2) by blast
      then have "height (val x) \<le> height (reading k)" using Suc.IH k(2) by blast
      then show ?thesis using child_smaller [OF Suc.prems(2) None k(1)] by simp
    next
      case (Some y)
      show ?thesis
      proof (cases "y = x")
        case True
        then show ?thesis using Some variable_value [OF Suc.prems(2) Some] by simp
      next
        case False
        then obtain v where v: "map_of work y = Some v" "occurs ast x work d v"
          using Suc.prems Some by (auto split: option.splits)
        then have m: "(y, v) \<in> set work" by (blast dest: map_of_SomeD)
        then have "v \<in> nodes" using assms(1) by (auto simp: good_def)
        moreover have "reading v = reading a"
          using m assms(2) variable_value [OF Suc.prems(2) Some] by (auto simp: holds_def)
        ultimately show ?thesis using Suc.IH [of v] v(2) Some by simp
      qed
    qed
  qed simp
  then show "height (val x) \<le> height (reading a)"
    and "variableName ast a = None \<Longrightarrow> height (val x) < height (reading a)" by blast+
qed

text \<open>What a run that ends with \<open>r\<close> and the bindings \<open>w'\<close> says of the equation
  \<open>eq\<close>: success means the new bindings are equivalent to it, failure that it does not hold
  unless \<open>deep\<close>.\<close>

definition answers :: "bool \<Rightarrow> bool \<Rightarrow> 'a substitution \<Rightarrow> bool \<Rightarrow> 'a substitution \<Rightarrow> bool" where
  "answers eq deep w r w' \<longleftrightarrow> good w' \<and> (\<exists>e. w' = w @ e) \<and>
     (if r then (holds w' \<longrightarrow> eq) \<and> (holds w \<and> eq \<longrightarrow> holds w') else holds w \<and> eq \<longrightarrow> deep)"

lemma answers_same: "good w \<Longrightarrow> (holds w \<Longrightarrow> if r then eq else eq \<longrightarrow> deep) \<Longrightarrow> answers eq deep w r w"
  by (auto simp: answers_def)

lemma answers_cong:
  assumes "answers eq deep w r w'" "holds w \<Longrightarrow> eq \<longleftrightarrow> eq'" "holds w \<Longrightarrow> deep \<Longrightarrow> deep'"
  shows "answers eq' deep' w r w'"
  using assms by (cases r) (auto simp: answers_def)

lemma bind_answers:
  assumes w: "good work" and x: "x \<in> names" "map_of work x = None"
    and v: "v \<in> nodes" "resolved ast work v" "variableName ast v \<noteq> Some x"
    and b: "bind_var ast check x v (work, added) = (r, st')"
    and eq: "holds work \<Longrightarrow> eq \<longleftrightarrow> val x = reading v"
  shows "answers eq deep work r (fst st')"
proof (cases "check \<and> occurs ast x work MAX_DEPTH v")
  case True
  have "val x \<noteq> reading v" if h: "holds work"
  proof (cases "variableName ast v")
    case None
    then show ?thesis using occurs_height(2) [OF w h conjunct2 [OF True] v(1)] by auto
  next
    case (Some z)
    then show ?thesis using True v(2,3) by (auto simp: resolved_def MAX_DEPTH_def numeral_eq_Suc)
  qed
  then show ?thesis using True b w eq by (auto simp: bind_var_def intro!: answers_same)
next
  case False
  have fresh: "x \<notin> set (okeys work)" using x(2) by (simp add: map_of_None_iff)
  have "forward ast (work @ [(x, v)])"
    using w v(2,3) fresh by (intro forward_snoc) (auto simp: good_def resolved_def map_of_None_iff)
  then have "good (work @ [(x, v)])" using w x(1) v(1) by (auto simp: good_def)
  moreover have "fst st' = work @ [(x, v)]" "r"
    using False b update_absent [OF fresh] by (auto simp: bind_var_def split: if_splits)
  ultimately show ?thesis using eq by (auto simp: answers_def)
qed

lemma pairs_answers:
  assumes step: "\<And>a b st r st'. good (fst st) \<Longrightarrow> a \<in> nodes \<Longrightarrow> b \<in> nodes \<Longrightarrow> f a b st = (r, st')
      \<Longrightarrow> answers (reading a = reading b) (d \<le> height (reading a)) (fst st) r (fst st')"
    and "good (fst st)" "set xs \<subseteq> nodes" "set ys \<subseteq> nodes" "length xs = length ys"
    and "descend_pairs f xs ys st = (r, st')"
  shows "answers (map reading xs = map reading ys) (\<exists>k \<in> set xs. d \<le> height (reading k)) (fst st) r (fst st')"
  using assms(2-6)
proof (induction xs ys arbitrary: st rule: list_induct2')
  case 1
  then show ?case by (auto intro!: answers_same)
next
  case (4 x xs y ys)
  obtain r1 st1 where f: "f x y st = (r1, st1)" by (cases "f x y st")
  have a1: "answers (reading x = reading y) (d \<le> height (reading x)) (fst st) r1 (fst st1)"
    using step [OF 4(2) _ _ f] 4(3,4) by simp
  show ?case
  proof (cases r1)
    case False
    then show ?thesis using a1 f 4(6) by (auto simp: answers_def)
  next
    case True
    then have "answers (map reading xs = map reading ys) (\<exists>k \<in> set xs. d \<le> height (reading k)) (fst st1) r (fst st')"
      using 4(1) [of st1] a1 f 4(3-6) by (simp add: answers_def)
    then show ?thesis using a1 True by (auto simp: answers_def split: if_splits)
  qed
qed simp_all

lemma descend_answers:
  assumes "good (fst st)" "a \<in> nodes" "b \<in> nodes" "descend ident ast check d a b st = (r, st')"
  shows "answers (reading a = reading b) (d \<le> height (reading a)) (fst st) r (fst st')"
  using assms
proof (induction d arbitrary: a b st r st')
  case 0
  then show ?case by (auto intro!: answers_same)
next
  case (Suc d)
  obtain w added where st: "st = (w, added)" by (cases st)
  obtain w' added' where st': "st' = (w', added')" by (cases st')
  define left where "left = deref ast w MAX_DEPTH a"
  define right where "right = deref ast w MAX_DEPTH b"
  have w: "good w" using Suc.prems(1) by (simp add: st)
  have fw: "forward ast w" "length w \<le> MAX_DEPTH"
    using w good_length [OF w] by (simp_all add: good_def MAX_DEPTH_def)
  have l: "left \<in> nodes" "holds w \<Longrightarrow> reading left = reading a" "resolved ast w left"
    and r: "right \<in> nodes" "holds w \<Longrightarrow> reading right = reading b" "resolved ast w right"
    using deref_node [OF w Suc.prems(2)] deref_node [OF w Suc.prems(3)] deref_resolved [OF fw]
    by (simp_all add: left_def right_def)
  note run = Suc.prems(4) [unfolded descend.simps Let_def st fst_conv, folded left_def right_def]
  let ?deep = "Suc d \<le> height (reading a)"
  have "answers (reading a = reading b) ?deep w r (fst st')"
  proof (cases "ident left right")
    case True
    then have "left = right" by (rule ident_eq)
    then show ?thesis using True run w l r by (auto intro!: answers_same)
  next
    case nid: False
    show ?thesis
    proof (cases "variableName ast left")
      case (Some x)
      note vx = variable_name [OF l(1) Some] variable_value [OF l(1) Some]
      have ux: "map_of w x = None" using l(3) Some by (simp add: resolved_def)
      show ?thesis
      proof (cases "variableName ast right = Some x")
        case True
        then have "reading left = reading right"
          using vx(2) variable_value [OF r(1)] by simp
        then show ?thesis using nid Some True run w l r by (auto intro!: answers_same)
      next
        case False
        then have "bind_var ast check x right (w, added) = (r, st')"
          using nid Some run by (cases "variableName ast right") auto
        then show ?thesis
          using bind_answers [OF w vx(1) ux r(1,3) False] l(2) r(2) vx(2) by metis
      qed
    next
      case lnone: None
      show ?thesis
      proof (cases "variableName ast right")
        case (Some y)
        note vy = variable_name [OF r(1) Some] variable_value [OF r(1) Some]
        have uy: "map_of w y = None" using r(3) Some by (simp add: resolved_def)
        have "bind_var ast check y left (w, added) = (r, st')" using nid lnone Some run by simp
        moreover have "variableName ast left \<noteq> Some y" using lnone by simp
        moreover have "reading a = reading b \<longleftrightarrow> val y = reading left" if "holds w"
          using l(2) [OF that] r(2) [OF that] vy(2) by auto
        ultimately show ?thesis
          using bind_answers [OF w vy(1) uy l(1,3)] by blast
      next
        case rnone: None
        note eq = structural [OF l(1) r(1) lnone rnone]
        note run' = run [unfolded lnone rnone if_not_P [OF nid] prod.case option.case]
        show ?thesis
        proof (cases "sameHead ast left right \<and> length (children ast left) = length (children ast right)
            \<and> children ast left \<noteq> []")
          case False
          have "fst st' = w \<and> (r \<longleftrightarrow> reading left = reading right)"
          proof (cases "sameHead ast left right")
            case hd: True
            show ?thesis
            proof (cases "length (children ast left) = length (children ast right)")
              case True
              then have "children ast left = []" "children ast right = []" using False hd by auto
              then show ?thesis using run' hd eq st' by simp
            next
              case False
              then have "map reading (children ast left) \<noteq> map reading (children ast right)"
                by (metis length_map)
              then show ?thesis using False run' hd eq st' by simp
            qed
          qed (use run' eq st' in simp)
          then have "answers (reading left = reading right) ?deep w r (fst st')"
            using w by (auto intro!: answers_same)
          then show ?thesis by (rule answers_cong) (simp_all add: l r)
        next
          case True
          then have p: "descend_pairs (descend ident ast check d) (children ast left) (children ast right) (w, added) = (r, st')"
            using run' by simp
          have kids: "set (children ast left) \<subseteq> nodes" "set (children ast right) \<subseteq> nodes"
            using children_nodes l(1) r(1) by auto
          have "answers (map reading (children ast left) = map reading (children ast right))
              (\<exists>k \<in> set (children ast left). d \<le> height (reading k)) (fst (w, added)) r (fst st')"
            by (rule pairs_answers [OF Suc.IH _ kids _ p]) (use w True in \<open>simp_all del: descend.simps\<close>)
          then have "answers (map reading (children ast left) = map reading (children ast right))
              (\<exists>k \<in> set (children ast left). d \<le> height (reading k)) w r (fst st')"
            by (simp only: fst_conv)
          then show ?thesis
          proof (rule answers_cong)
            assume h: "holds w"
            show "map reading (children ast left) = map reading (children ast right) \<longleftrightarrow> reading a = reading b"
              using eq True l(2) [OF h] r(2) [OF h] by simp
            assume "\<exists>k \<in> set (children ast left). d \<le> height (reading k)"
            then obtain k where "k \<in> set (children ast left)" "d \<le> height (reading k)" by blast
            then have "Suc d \<le> height (reading left)" using child_smaller [OF l(1) lnone] by fastforce
            then show ?deep using l(2) [OF h] by simp
          qed
        qed
      qed
    qed
  qed
  then show ?case by (simp add: st)
qed

text \<open>The contract.\<close>

theorem run_unify_answers:
  assumes "a \<in> nodes" "b \<in> nodes"
  shows "case run_unify ident ast check a b [] of
      Some (subst, added) \<Rightarrow> reading a = reading b \<longleftrightarrow> holds subst
    | None \<Rightarrow> reading a = reading b \<longrightarrow> 64 \<le> height (reading a)"
proof -
  obtain r st' where d: "descend ident ast check MAX_DEPTH a b ([], []) = (r, st')"
    by (cases "descend ident ast check MAX_DEPTH a b ([], [])")
  have "answers (reading a = reading b) (MAX_DEPTH \<le> height (reading a)) [] r (fst st')"
    using descend_answers [OF _ assms d] by simp
  then show ?thesis using d
    by (cases st') (auto simp: run_unify_def answers_def MAX_DEPTH_def split: if_splits bool.splits)
qed

end

end
