(* ===== verification/Terms.thy ===== *)
theory Terms
  imports Unify
begin

text \<open>
  Narsese terms and what is read off them: \<open>nar/src/terms/operators.ts\<close>,
  \<open>types.ts\<close>, \<open>impls/accessors.ts\<close>, \<open>impls/complexity.ts\<close>,
  \<open>impls/serialize.ts\<close> and \<open>impls/validation.ts\<close>. A term is an atom with its symbol
  or a compound of an operator and its arguments. The \<open>isVariable\<close> flag of an atom is the
  test of its symbol that the factory stamps it with. Facts about a term are memoised per object
  in the code; a memo that holds nothing but the value it would recompute is not modelled.
\<close>

section \<open>Operators\<close>

datatype operatorKey =
  Inheritance | Similarity | Conjunction | Disjunction | Negation | Implication | Equivalence
  | SetExt | SetInt | Sequence | Parallel | Predictive | Retrospective | OperationOp | ProductOp

record operatorSpec =
  op_symbol :: string
  op_arity :: nat
  op_commutative :: bool
  op_nary :: bool

fun OPERATORS :: "operatorKey \<Rightarrow> operatorSpec" where
  "OPERATORS Inheritance = \<lparr>op_symbol = ''-->'', op_arity = 2, op_commutative = False, op_nary = False\<rparr>"
| "OPERATORS Similarity = \<lparr>op_symbol = ''<->'', op_arity = 2, op_commutative = True, op_nary = False\<rparr>"
| "OPERATORS Conjunction = \<lparr>op_symbol = ''&'', op_arity = 0, op_commutative = True, op_nary = True\<rparr>"
| "OPERATORS Disjunction = \<lparr>op_symbol = ''|'', op_arity = 0, op_commutative = True, op_nary = True\<rparr>"
| "OPERATORS Negation = \<lparr>op_symbol = ''--'', op_arity = 1, op_commutative = False, op_nary = False\<rparr>"
| "OPERATORS Implication = \<lparr>op_symbol = ''==>'', op_arity = 2, op_commutative = False, op_nary = False\<rparr>"
| "OPERATORS Equivalence = \<lparr>op_symbol = ''<=>'', op_arity = 2, op_commutative = True, op_nary = False\<rparr>"
| "OPERATORS SetExt = \<lparr>op_symbol = ''{'', op_arity = 1, op_commutative = False, op_nary = False\<rparr>"
| "OPERATORS SetInt = \<lparr>op_symbol = ''['', op_arity = 1, op_commutative = False, op_nary = False\<rparr>"
| "OPERATORS Sequence = \<lparr>op_symbol = ''&/'', op_arity = 2, op_commutative = False, op_nary = False\<rparr>"
| "OPERATORS Parallel = \<lparr>op_symbol = ''&|'', op_arity = 0, op_commutative = True, op_nary = True\<rparr>"
| "OPERATORS Predictive = \<lparr>op_symbol = ''=/>'', op_arity = 2, op_commutative = False, op_nary = False\<rparr>"
| "OPERATORS Retrospective = \<lparr>op_symbol = ''=|'', op_arity = 2, op_commutative = False, op_nary = False\<rparr>"
| "OPERATORS OperationOp = \<lparr>op_symbol = ''^'', op_arity = 2, op_commutative = False, op_nary = False\<rparr>"
| "OPERATORS ProductOp = \<lparr>op_symbol = '','', op_arity = 0, op_commutative = False, op_nary = True\<rparr>"

text \<open>The keys of the table, which are the operators' names, in their order.\<close>

fun kind_name :: "operatorKey \<Rightarrow> string" where
  "kind_name Inheritance = ''inheritance''"
| "kind_name Similarity = ''similarity''"
| "kind_name Conjunction = ''conjunction''"
| "kind_name Disjunction = ''disjunction''"
| "kind_name Negation = ''negation''"
| "kind_name Implication = ''implication''"
| "kind_name Equivalence = ''equivalence''"
| "kind_name SetExt = ''setExt''"
| "kind_name SetInt = ''setInt''"
| "kind_name Sequence = ''sequence''"
| "kind_name Parallel = ''parallel''"
| "kind_name Predictive = ''predictive''"
| "kind_name Retrospective = ''retrospective''"
| "kind_name OperationOp = ''operation''"
| "kind_name ProductOp = ''product''"

definition OPERATOR_KEYS :: "operatorKey list" where
  "OPERATOR_KEYS = [Inheritance, Similarity, Conjunction, Disjunction, Negation, Implication, Equivalence,
     SetExt, SetInt, Sequence, Parallel, Predictive, Retrospective, OperationOp, ProductOp]"

definition COPULA_SYMBOLS :: "string list" where
  "COPULA_SYMBOLS = js_sort (\<lambda>a b. length b \<le> length a)
     (map (\<lambda>k. op_symbol (OPERATORS k)) (filter (\<lambda>k. op_arity (OPERATORS k) = 2) OPERATOR_KEYS))"

definition hasCopula :: "string \<Rightarrow> bool" where
  "hasCopula text = list_ex (str_includes text) COPULA_SYMBOLS"

definition COMMUTATIVE_OPS :: "operatorKey list" where
  "COMMUTATIVE_OPS = filter (\<lambda>k. op_commutative (OPERATORS k)) OPERATOR_KEYS"

definition NARY_OPS :: "operatorKey list" where
  "NARY_OPS = filter (\<lambda>k. op_nary (OPERATORS k)) OPERATOR_KEYS"

lemma operator_sets [simp]:
  "k \<in> set COMMUTATIVE_OPS \<longleftrightarrow> k \<in> {Similarity, Conjunction, Disjunction, Equivalence, Parallel}"
  "k \<in> set NARY_OPS \<longleftrightarrow> k \<in> {Conjunction, Disjunction, Parallel, ProductOp}"
  by (auto simp: COMMUTATIVE_OPS_def NARY_OPS_def OPERATOR_KEYS_def)

section \<open>Terms\<close>

datatype narTerm = Atom string | Compound operatorKey "narTerm list"

definition isVariableSymbol :: "string \<Rightarrow> bool" where
  "isVariableSymbol s = (case s of [] \<Rightarrow> False | c # _ \<Rightarrow> c \<in> set ''?$#*%'')"

fun isAtomic :: "narTerm \<Rightarrow> bool" where
  "isAtomic (Atom _) = True"
| "isAtomic (Compound _ _) = False"

fun isType :: "operatorKey \<Rightarrow> narTerm \<Rightarrow> bool" where
  "isType k (Atom _) = False"
| "isType k (Compound k' _) = (k' = k)"

fun getArgs :: "narTerm \<Rightarrow> narTerm list" where
  "getArgs (Atom _) = []"
| "getArgs (Compound _ args) = args"

definition unaryOf :: "operatorKey \<Rightarrow> narTerm \<Rightarrow> narTerm option" where
  "unaryOf kind t = (if \<not> isType kind t then None else case getArgs t of [] \<Rightarrow> None | x # _ \<Rightarrow> Some x)"

text \<open>The pair of a binary term; the code returns the argument list itself, of which only the
  first two places are read.\<close>

definition binaryOf :: "operatorKey \<Rightarrow> narTerm \<Rightarrow> (narTerm \<times> narTerm) option" where
  "binaryOf kind t =
     (if \<not> isType kind t then None
      else case getArgs t of x # y # _ \<Rightarrow> Some (x, y) | _ \<Rightarrow> None)"

definition orTry :: "'a option \<Rightarrow> 'a option \<Rightarrow> 'a option" where
  "orTry a b = (case a of Some _ \<Rightarrow> a | None \<Rightarrow> b)"

definition getSubject :: "narTerm \<Rightarrow> narTerm option" where
  "getSubject t = map_option fst (orTry (binaryOf Inheritance t) (binaryOf Similarity t))"

definition getPredicate :: "narTerm \<Rightarrow> narTerm option" where
  "getPredicate t = map_option snd (orTry (binaryOf Inheritance t) (binaryOf Similarity t))"

definition getAntecedent :: "narTerm \<Rightarrow> narTerm option" where
  "getAntecedent t = map_option fst (orTry (binaryOf Implication t) (binaryOf Equivalence t))"

definition getConsequent :: "narTerm \<Rightarrow> narTerm option" where
  "getConsequent t = map_option snd (orTry (binaryOf Implication t) (binaryOf Equivalence t))"

definition rolePair :: "narTerm \<Rightarrow> (narTerm \<times> narTerm) option" where
  "rolePair t = orTry (binaryOf Inheritance t) (binaryOf Similarity t)"

fun sameKind :: "narTerm \<Rightarrow> narTerm \<Rightarrow> bool" where
  "sameKind (Atom _) (Atom _) = True"
| "sameKind (Compound k _) (Compound k' _) = (k = k')"
| "sameKind _ _ = False"

text \<open>A compound has no symbol, so an atom's symbol never equals a compound's.\<close>

fun sameTerm :: "narTerm \<Rightarrow> narTerm \<Rightarrow> bool" where
  "sameTerm (Atom s) (Atom s') = (s = s')"
| "sameTerm (Atom s) (Compound _ _) = False"
| "sameTerm (Compound _ _) _ = True"

fun term_variableName :: "narTerm \<Rightarrow> string option" where
  "term_variableName (Atom s) = (if isVariableSymbol s then Some s else None)"
| "term_variableName (Compound _ _) = None"

definition TERM_EQUALITY :: "narTerm equalityDialect" where
  "TERM_EQUALITY = \<lparr>variableName = term_variableName, payloadEqual = sameTerm, sameHead = sameKind, children = getArgs\<rparr>"

lemma TERM_EQUALITY_simps [simp]:
  "variableName TERM_EQUALITY = term_variableName" "payloadEqual TERM_EQUALITY = sameTerm"
  "sameHead TERM_EQUALITY = sameKind" "children TERM_EQUALITY = getArgs"
  by (simp_all add: TERM_EQUALITY_def)

text \<open>The height of a term, which bounds the recursion of a comparison.\<close>

fun term_height :: "narTerm \<Rightarrow> nat" where
  "term_height (Atom _) = 0"
| "term_height (Compound _ args) = (if args = [] then 0 else Suc (Max (set (map term_height args))))"

text \<open>\<open>undefined\<close> equals itself only. The identity test of the code is \<open>ident\<close>.\<close>

definition termsEqual ::
  "(narTerm \<Rightarrow> narTerm \<Rightarrow> bool) \<Rightarrow> narTerm option \<Rightarrow> narTerm option \<Rightarrow> bool option" where
  "termsEqual ident a b =
     (case (a, b) of
        (Some x, Some y) \<Rightarrow> structuralEqual (Suc (term_height x)) ident TERM_EQUALITY x y Strict
      | (None, None) \<Rightarrow> Some True
      | _ \<Rightarrow> Some False)"

section \<open>The walk and its folds\<close>

datatype walkOrder = PreOrder | PostOrder

text \<open>The visitor answers whether to go on below the node (the code's \<open>false\<close> prunes).\<close>

function (sequential) walkTerms ::
  "('s \<Rightarrow> narTerm \<Rightarrow> nat \<Rightarrow> bool \<times> 's) \<Rightarrow> walkOrder \<Rightarrow> narTerm \<Rightarrow> nat \<Rightarrow> 's \<Rightarrow> 's"
  and walkArgs :: "('s \<Rightarrow> narTerm \<Rightarrow> nat \<Rightarrow> bool \<times> 's) \<Rightarrow> walkOrder \<Rightarrow> narTerm list \<Rightarrow> nat \<Rightarrow> 's \<Rightarrow> 's" where
  "walkTerms fn PreOrder t depth s =
     (let (go, s') = fn s t depth
      in if \<not> go then s' else walkArgs fn PreOrder (getArgs t) (depth + 1) s')"
| "walkTerms fn PostOrder t depth s =
     snd (fn (walkArgs fn PostOrder (getArgs t) (depth + 1) s) t depth)"
| "walkArgs fn ord [] depth s = s"
| "walkArgs fn ord (a # as) depth s = walkArgs fn ord as depth (walkTerms fn ord a depth s)"
  by pat_completeness auto

lemma getArgs_size: "size_list size (getArgs t) < Suc (size t)"
  by (cases t) simp_all

termination walkTerms
  by (relation "measure (case_sum (\<lambda>(fn, ord, t, d, s). Suc (2 * size t)) (\<lambda>(fn, ord, as, d, s). 2 * size_list size as))")
    (use getArgs_size in \<open>auto simp: less_Suc_eq_le\<close>)

definition foldTerm :: "narTerm \<Rightarrow> ('s \<Rightarrow> narTerm \<Rightarrow> 's) \<Rightarrow> 's \<Rightarrow> 's" where
  "foldTerm t fn initial = walkTerms (\<lambda>acc x depth. (True, fn acc x)) PreOrder t 0 initial"

definition termDepth :: "narTerm \<Rightarrow> nat" where
  "termDepth t = walkTerms (\<lambda>m x depth. (True, max m depth)) PreOrder t 0 0"

definition termSize :: "narTerm \<Rightarrow> nat" where
  "termSize t = walkTerms (\<lambda>n x depth. (True, n + 1)) PreOrder t 0 0"

section \<open>Structural keys\<close>

definition atomKey :: "string \<Rightarrow> string" where
  "atomKey symbol = ''atom:'' @ symbol"

fun termKey :: "narTerm \<Rightarrow> string" where
  "termKey (Atom symbol) = atomKey symbol"
| "termKey (Compound kind args) = kind_name kind @ '':'' @ join_with '','' (map termKey args)"

definition atomicSymbols :: "narTerm \<Rightarrow> string list" where
  "atomicSymbols t = foldTerm t (\<lambda>symbols x. case x of Atom s \<Rightarrow> set_add s symbols | Compound _ _ \<Rightarrow> symbols) []"

definition atomicTerms :: "narTerm \<Rightarrow> narTerm list" where
  "atomicTerms t = foldTerm t (\<lambda>atoms x. if isAtomic x then atoms @ [x] else atoms) []"

definition subtermKeys :: "narTerm \<Rightarrow> string list" where
  "subtermKeys t = foldTerm t (\<lambda>keys x. set_add (termKey x) keys) []"

definition containsSubterm :: "narTerm \<Rightarrow> narTerm \<Rightarrow> bool" where
  "containsSubterm t target = (termKey target \<in> set (subtermKeys t))"

definition sharesSymbol :: "narTerm \<Rightarrow> narTerm \<Rightarrow> bool" where
  "sharesSymbol a b = list_ex (\<lambda>s. s \<in> set (atomicSymbols b)) (atomicSymbols a)"

definition mentionsSymbol :: "narTerm \<Rightarrow> string \<Rightarrow> bool" where
  "mentionsSymbol t symbol = (symbol \<in> set (atomicSymbols t))"

definition hasRepeatedArgs :: "narTerm \<Rightarrow> bool" where
  "hasRepeatedArgs t = (length (getArgs t) \<noteq> length (unique (map termKey (getArgs t))))"

definition hasNegatedPair :: "narTerm \<Rightarrow> bool" where
  "hasNegatedPair t =
     (let keys = map termKey (getArgs t)
      in list_ex (\<lambda>arg. if \<not> isType Negation arg then False
           else case getArgs arg of [] \<Rightarrow> False | operand # _ \<Rightarrow> termKey operand \<in> set keys) (getArgs t))"

definition hasVariable :: "narTerm \<Rightarrow> bool" where
  "hasVariable t = foldTerm t (\<lambda>found x. found \<or> term_variableName x \<noteq> None) False"

record bareInheritance =
  bare_subject :: string
  bare_predicate :: string

definition bareInheritancePair :: "narTerm \<Rightarrow> bareInheritance option" where
  "bareInheritancePair t =
     foldTerm t (\<lambda>found x.
       if found \<noteq> None \<or> \<not> isType Inheritance x then found
       else case getArgs x of
         Atom s # Atom p # _ \<Rightarrow> Some \<lparr>bare_subject = s, bare_predicate = p\<rparr>
       | _ \<Rightarrow> found) None"

definition sharesInheritanceEnd :: "narTerm \<Rightarrow> narTerm \<Rightarrow> bool" where
  "sharesInheritanceEnd a b =
     (case (bareInheritancePair a, bareInheritancePair b) of
        (Some x, Some y) \<Rightarrow>
          bare_subject x = bare_subject y \<or> bare_subject x = bare_predicate y
          \<or> bare_predicate x = bare_subject y \<or> bare_predicate x = bare_predicate y
      | _ \<Rightarrow> False)"

record complexity =
  c_depth :: nat
  c_breadth :: nat
  c_operatorCount :: nat
  c_variableCount :: nat

definition getTermComplexity :: "narTerm \<Rightarrow> complexity" where
  "getTermComplexity t =
     walkTerms (\<lambda>c x d.
       let c = c\<lparr>c_depth := max (c_depth c) d\<rparr>
       in (True, case x of
            Atom s \<Rightarrow> if isVariableSymbol s then c\<lparr>c_variableCount := c_variableCount c + 1\<rparr> else c
          | Compound _ args \<Rightarrow>
              c\<lparr>c_operatorCount := c_operatorCount c + 1, c_breadth := max (c_breadth c) (length args)\<rparr>))
       PreOrder t 0 \<lparr>c_depth = 0, c_breadth = 0, c_operatorCount = 0, c_variableCount = 0\<rparr>"

section \<open>Serialisation\<close>

definition WRAPPERS :: "operatorKey \<Rightarrow> string \<times> string" where
  "WRAPPERS kind =
     (if kind = Negation then (''--'', []) else if kind = SetExt then (''{'', ''}'')
      else if kind = SetInt then (''['', '']'') else ([], []))"

definition NARY_SEPARATORS :: "operatorKey \<Rightarrow> string" where
  "NARY_SEPARATORS kind =
     (if kind \<in> {Conjunction, Disjunction, Sequence, Parallel} then op_symbol (OPERATORS kind) else '','')"

definition EMPTY_COMPOUND :: "operatorKey \<Rightarrow> string" where
  "EMPTY_COMPOUND kind =
     (if kind = Disjunction then ''FALSE'' else if kind = ProductOp then ''()''
      else if kind \<in> {Conjunction, Sequence, Parallel, Predictive, Retrospective} then ''TRUE'' else [])"

function serialize :: "narTerm \<Rightarrow> string" where
  "serialize (Atom s) = s"
| "serialize (Compound kind args) =
     (if kind \<in> set NARY_OPS then
        (case args of
           [] \<Rightarrow> EMPTY_COMPOUND kind
         | [x] \<Rightarrow> if kind = ProductOp then ''('' @ serialize x @ '')'' else serialize x
         | _ \<Rightarrow>
             if 2 < length args \<and> kind \<noteq> ProductOp
             then ''('' @ op_symbol (OPERATORS kind) @ '','' @ join_with '','' (map serialize args) @ '')''
             else ''('' @ join_with (NARY_SEPARATORS kind) (map serialize args) @ '')'')
      else if kind = OperationOp then
        (case args of
           oper # body # _ \<Rightarrow>
             ''('' @ serialize oper @ ''^('' @
               (case body of
                  Compound ProductOp xs \<Rightarrow> join_with '','' (map serialize xs)
                | _ \<Rightarrow> serialize body) @ ''))''
         | _ \<Rightarrow> [])
      else if op_arity (OPERATORS kind) = 2 then
        (case args of
           x # y # _ \<Rightarrow> ''('' @ serialize x @ op_symbol (OPERATORS kind) @ serialize y @ '')''
         | _ \<Rightarrow> [])
      else fst (WRAPPERS kind) @ join_with '','' (map serialize args) @ snd (WRAPPERS kind))"
  by pat_completeness auto

lemma arg_size: "x \<in> set args \<Longrightarrow> size x \<le> size_list size (args :: narTerm list)"
  by (induction args) auto

termination serialize
  by (relation "measure size") (auto simp: less_Suc_eq_le dest!: arg_size)

section \<open>Validation\<close>

definition INVALID_TASK_SYMBOLS :: "string list" where
  "INVALID_TASK_SYMBOLS = [''TRUE'', ''FALSE'', ''NULL'']"

definition isTautology :: "(narTerm \<Rightarrow> narTerm \<Rightarrow> bool) \<Rightarrow> narTerm \<Rightarrow> bool option" where
  "isTautology ident t =
     (if isType Inheritance t \<or> isType Similarity t
      then case (getSubject t, getPredicate t) of
             (Some s, Some p) \<Rightarrow> termsEqual ident (Some s) (Some p)
           | _ \<Rightarrow> Some False
      else Some False)"

definition isInvalidTaskTerm :: "narTerm \<Rightarrow> bool" where
  "isInvalidTaskTerm t =
     walkTerms (\<lambda>found x depth.
       case x of
         Atom s \<Rightarrow> if \<not> found \<and> s \<in> set INVALID_TASK_SYMBOLS then (False, True) else (True, found)
       | Compound _ _ \<Rightarrow> (True, found)) PreOrder t 0 False"

datatype taskTermFault = TautologyTerm string | ReservedConstant string

definition validateTaskTerm :: "(narTerm \<Rightarrow> narTerm \<Rightarrow> bool) \<Rightarrow> narTerm \<Rightarrow> taskTermFault option" where
  "validateTaskTerm ident t =
     (if isTautology ident t = Some True then Some (TautologyTerm (serialize t))
      else if isInvalidTaskTerm t then Some (ReservedConstant (serialize t))
      else None)"


section \<open>Comparison and walks\<close>

lemma all_pairs_Some:
  assumes "\<And>x y. x \<in> set xs \<Longrightarrow> y \<in> set ys \<Longrightarrow> f x y = Some (x = y)" "length xs = length ys"
  shows "all_pairs f xs ys = Some (xs = ys)"
  using assms by (induction xs ys rule: list_induct2') (auto split: bool.splits)

lemma arg_height: "x \<in> set args \<Longrightarrow> term_height x < term_height (Compound k args)"
  by (auto simp: less_Suc_eq_le intro!: Max_ge)

lemma structuralEqual_term:
  assumes ident: "\<And>x y. ident x y \<Longrightarrow> x = y"
  shows "term_height a < n \<Longrightarrow> structuralEqual n ident TERM_EQUALITY a b Strict = Some (a = b)"
proof (induction n arbitrary: a b)
  case (Suc n)
  show ?case
  proof (cases "ident a b")
    case True
    then show ?thesis using ident by simp
  next
    case nid: False
    show ?thesis
    proof (cases a)
      case (Atom s)
      then show ?thesis using nid by (cases b) auto
    next
      case (Compound k args)
      have h: "\<And>x. x \<in> set args \<Longrightarrow> term_height x < n"
        using Suc.prems arg_height [of _ args k] Compound by force
      show ?thesis
      proof (cases b)
        case (Atom s)
        then show ?thesis using Compound nid by auto
      next
        case b: (Compound k' args')
        have "length args = length args' \<Longrightarrow>
            all_pairs (\<lambda>x y. structuralEqual n ident TERM_EQUALITY x y Strict) args args' = Some (args = args')"
          using Suc.IH h by (intro all_pairs_Some) auto
        then show ?thesis using Compound b nid by auto
      qed
    qed
  qed
qed simp

text \<open>the walk that compares two terms answers their equality, and always answers. Whatever
  object identities are known (as long as identical objects are equal), \<open>termsEqual\<close>
  terminates and is structural equality, on present and absent terms.\<close>

theorem termsEqual_is_equality:
  assumes "\<And>x y. ident x y \<Longrightarrow> x = y"
  shows "termsEqual ident a b = Some (a = b)"
  using structuralEqual_term [of ident, OF assms]
  by (cases a; cases b) (simp_all add: termsEqual_def del: structuralEqual.simps)

theorem termsEqual_is_equality_witness:
  "termsEqual (\<lambda>x y. False) (Some (Compound Negation [Atom ''a''])) (Some (Compound Negation [Atom ''a''])) = Some True"
  using termsEqual_is_equality [of "\<lambda>x y. False"] by simp

text \<open>The nodes in the order of the walk, with their depths.\<close>

fun preorder :: "narTerm \<Rightarrow> narTerm list" where
  "preorder (Atom s) = [Atom s]"
| "preorder (Compound k args) = Compound k args # concat (map preorder args)"

lemma preorder_getArgs: "preorder t = t # concat (map preorder (getArgs t))"
  by (cases t) simp_all

lemma foldl_preorder: "foldl fn s (preorder t) = foldl fn (fn s t) (concat (map preorder (getArgs t)))"
  by (cases t) simp_all

lemma walk_fold:
  "walkTerms (\<lambda>acc x d. (True, fn acc x)) PreOrder t depth s = foldl fn s (preorder t)"
  "walkArgs (\<lambda>acc x d. (True, fn acc x)) PreOrder args depth s = foldl fn s (concat (map preorder args))"
  by (induction "\<lambda>acc x (d :: nat). (True, fn acc x)" PreOrder t depth s
      and "\<lambda>acc x (d :: nat). (True, fn acc x)" PreOrder args depth s rule: walkTerms_walkArgs.induct)
    (simp_all add: foldl_preorder)

lemma foldTerm_preorder: "foldTerm t fn s = foldl fn s (preorder t)"
  by (simp only: foldTerm_def walk_fold)

lemma walk_depth:
  "walkTerms (\<lambda>m x d. (True, max m d)) PreOrder t depth s = max s (depth + term_height t)"
  "args \<noteq> [] \<Longrightarrow> walkArgs (\<lambda>m x d. (True, max m d)) PreOrder args depth s
     = max s (depth + Max (set (map term_height args)))"
proof (induction "\<lambda>(m :: nat) (x :: narTerm) d. (True, max m d)" PreOrder t depth s
      and "\<lambda>(m :: nat) (x :: narTerm) d. (True, max m d)" PreOrder args depth s rule: walkTerms_walkArgs.induct)
  case (1 t depth s)
  show ?case
  proof (cases t)
    case (Compound k args)
    then show ?thesis using 1 by (cases "args = []") (auto simp: max_def)
  qed simp
next
  case (4 a as depth s)
  then show ?case by (cases as) (auto simp: max_def)
qed simp_all

text \<open>what the two measures of a term compute. The depth the walk reports is the height of
  the tree, the size its number of nodes.\<close>

theorem term_measures: "termDepth t = term_height t \<and> termSize t = length (preorder t)"
proof -
  have "foldl (\<lambda>n x. n + 1) k xs = k + length xs" for k :: nat and xs :: "narTerm list"
    by (induction xs arbitrary: k) auto
  then show ?thesis
    using walk_fold(1) [of "\<lambda>n x. n + 1" t 0 "0 :: nat"] walk_depth(1) [of t 0 0]
    by (simp add: termSize_def termDepth_def)
qed

lemma foldl_set_add: "set (foldl (\<lambda>keys x. set_add (f x) keys) ks xs) = set ks \<union> f ` set xs"
  by (induction xs arbitrary: ks) auto

lemma set_subtermKeys [simp]: "set (subtermKeys t) = termKey ` set (preorder t)"
  by (simp add: subtermKeys_def foldTerm_preorder foldl_set_add)

lemma set_atomicSymbols [simp]: "set (atomicSymbols t) = {s. Atom s \<in> set (preorder t)}"
proof -
  have "set (foldl (\<lambda>ss x. case x of Atom s \<Rightarrow> set_add s ss | Compound _ _ \<Rightarrow> ss) ks xs)
      = set ks \<union> {s. Atom s \<in> set xs}" for ks xs
    by (induction xs arbitrary: ks) (auto split: narTerm.splits)
  then show ?thesis by (simp add: atomicSymbols_def foldTerm_preorder)
qed

section \<open>Keys identify terms, up to nesting\<close>

text \<open>
  A key is unambiguous where every operator below the root has a fixed number of arguments and no
  symbol has a comma in it.
\<close>

fun plain_term :: "narTerm \<Rightarrow> bool" where
  "plain_term (Atom s) = (CHR '','' \<notin> set s)"
| "plain_term (Compound k args) =
     (\<not> op_nary (OPERATORS k) \<and> length args = op_arity (OPERATORS k) \<and> list_all plain_term args)"

definition plain_statement :: "narTerm \<Rightarrow> bool" where
  "plain_statement t \<longleftrightarrow> plain_term t \<or>
     (\<exists>k args. t = Compound k args \<and> op_nary (OPERATORS k) \<and> list_all plain_term args)"

definition ends_arg :: "string \<Rightarrow> bool" where
  "ends_arg r \<longleftrightarrow> r = [] \<or> hd r = CHR '',''"

lemma ends_arg_simps [simp]: "ends_arg []" "ends_arg (c # r) \<longleftrightarrow> c = CHR '',''"
  by (auto simp: ends_arg_def)

lemma kind_name_head: "takeWhile (\<lambda>c. c \<noteq> CHR '':'') (kind_name k @ CHR '':'' # z) = kind_name k"
  by (cases k) simp_all

lemma kind_name_inj: "kind_name k = kind_name k' \<longleftrightarrow> k = k'"
  by (cases k; cases k') simp_all

lemma kind_name_colon: "kind_name k @ CHR '':'' # z = kind_name k' @ CHR '':'' # z' \<longleftrightarrow> k = k' \<and> z = z'"
  using kind_name_head [of k z] kind_name_head [of k' z'] kind_name_inj [of k k'] by auto

lemma kind_name_not_atom: "kind_name k @ CHR '':'' # z \<noteq> ''atom:'' @ z'"
  by (cases k) simp_all

lemma termKey_nonempty [simp]: "termKey t \<noteq> []"
  by (cases t) (simp_all add: atomKey_def)

lemma symbol_ends:
  assumes "CHR '','' \<notin> set s" "CHR '','' \<notin> set s'" "ends_arg r" "ends_arg r'" "s @ r = s' @ r'"
  shows "s = s' \<and> r = r'"
  using assms
proof (induction s arbitrary: s')
  case Nil
  then show ?case by (cases s') auto
next
  case (Cons c s)
  then show ?case by (cases s') auto
qed

lemma join_step: "join_with '','' (x # xs) @ r = x @ (if xs = [] then r else CHR '','' # join_with '','' xs @ r)"
  by (cases xs) simp_all

lemma join_step_Nil: "join_with '','' (x # xs) = x @ (if xs = [] then [] else CHR '','' # join_with '','' xs)"
  by (cases xs) simp_all

lemma join_keys:
  assumes "length as = length bs" "ends_arg r" "ends_arg r'"
    and "\<And>a b q q'. a \<in> set as \<Longrightarrow> b \<in> set bs \<Longrightarrow> ends_arg q \<Longrightarrow> ends_arg q' \<Longrightarrow> key a @ q = key b @ q' \<Longrightarrow> a = b \<and> q = q'"
    and "join_with '','' (map key as) @ r = join_with '','' (map key bs) @ r'"
  shows "as = bs \<and> r = r'"
  using assms
proof (induction as bs rule: list_induct2)
  case (Cons a as b bs)
  let ?q = "\<lambda>xs r. if xs = [] then r else CHR '','' # join_with '','' (map key xs) @ r"
  have k: "key a @ ?q as r = key b @ ?q bs r'"
    using Cons.prems(4) unfolding list.map join_step by simp
  have e: "ends_arg (?q as r)" "ends_arg (?q bs r')" using Cons.prems(1,2) by simp_all
  have "a = b \<and> ?q as r = ?q bs r'" by (rule Cons.prems(3) [OF _ _ e k]) simp_all
  moreover have "as = bs \<and> r = r'" if "?q as r = ?q bs r'"
  proof (cases "as = []")
    case True
    then show ?thesis using that Cons.hyps by simp
  next
    case False
    then have "join_with '','' (map key as) @ r = join_with '','' (map key bs) @ r'"
      using that Cons.hyps by (auto split: if_splits)
    then show ?thesis using Cons.IH [OF Cons.prems(1,2)] Cons.prems(3) by auto
  qed
  ultimately show ?case by simp
qed simp

lemma termKey_reads:
  assumes "plain_term t" "plain_term u" "ends_arg r" "ends_arg r'" "termKey t @ r = termKey u @ r'"
  shows "t = u \<and> r = r'"
  using assms
proof (induction t arbitrary: u r r')
  case (Atom s)
  show ?case
  proof (cases u)
    case (Atom s')
    then show ?thesis using Atom.prems symbol_ends [of s s' r r'] by (simp add: atomKey_def)
  next
    case (Compound k args)
    then show ?thesis
      using Atom.prems(5) kind_name_not_atom [of k "join_with '','' (map termKey args) @ r'" "s @ r"]
      by (simp add: atomKey_def)
  qed
next
  case (Compound k args)
  show ?case
  proof (cases u)
    case (Atom s')
    then show ?thesis
      using Compound.prems(5) kind_name_not_atom [of k "join_with '','' (map termKey args) @ r" "s' @ r'"]
      by (simp add: atomKey_def)
  next
    case u: (Compound k' args')
    have k: "k = k'" and j: "join_with '','' (map termKey args) @ r = join_with '','' (map termKey args') @ r'"
      using Compound.prems(5) u
        kind_name_colon [of k "join_with '','' (map termKey args) @ r" k' "join_with '','' (map termKey args') @ r'"]
      by simp_all
    have l: "length args = length args'" using Compound.prems(1,2) u k by simp
    have "args = args' \<and> r = r'"
    proof (rule join_keys [OF l Compound.prems(3,4) _ j])
      fix a b q q'
      assume m: "a \<in> set args" "b \<in> set args'" and e: "ends_arg q" "ends_arg q'" "termKey a @ q = termKey b @ q'"
      have "plain_term a" "plain_term b" using m Compound.prems(1,2) u by (auto simp: list_all_iff)
      then show "a = b \<and> q = q'" using Compound.IH [OF m(1)] e by blast
    qed
    then show ?thesis using u k by simp
  qed
qed

lemma join_plain:
  assumes "list_all plain_term as" "list_all plain_term bs"
    and "join_with '','' (map termKey as) = join_with '','' (map termKey bs)"
  shows "as = bs"
  using assms
proof (induction as arbitrary: bs)
  case Nil
  then show ?case by (cases bs) (auto simp: join_step_Nil)
next
  case (Cons a as)
  show ?case
  proof (cases bs)
    case Nil
    then show ?thesis using Cons.prems(3) by (simp add: join_step_Nil del: join_with.simps(2,3))
  next
    case b: (Cons b bs')
    let ?q = "\<lambda>xs. if xs = [] then [] else CHR '','' # join_with '','' (map termKey xs)"
    have "termKey a @ ?q as = termKey b @ ?q bs'"
      using Cons.prems(3) b by (simp add: join_step_Nil del: join_with.simps(2,3))
    then have "a = b \<and> ?q as = ?q bs'"
      using termKey_reads [of a b "?q as" "?q bs'"] Cons.prems(1,2) b by simp
    then show ?thesis using Cons b by (auto split: if_splits)
  qed
qed

lemma key_identifies:
  assumes "plain_statement t" "plain_statement u" "termKey t = termKey u"
  shows "t = u"
proof -
  have reads: "plain_term x \<Longrightarrow> plain_term y \<Longrightarrow> termKey x = termKey y \<Longrightarrow> x = y" for x y
    using termKey_reads [of x y "[]" "[]"] by simp
  have kinds: "termKey (Compound k as) = termKey (Compound k' bs)
      \<longleftrightarrow> k = k' \<and> join_with '','' (map termKey as) = join_with '','' (map termKey bs)" for k k' as bs
    using kind_name_colon by simp
  have mixed: "termKey x \<noteq> termKey (Compound k as)" if "op_nary (OPERATORS k)" "plain_term x" for x k as
  proof (cases x)
    case (Atom s)
    then show ?thesis using kind_name_not_atom [of k _ s] by (simp add: atomKey_def eq_commute)
  next
    case (Compound k' bs)
    then have "k' \<noteq> k" using that by auto
    then show ?thesis using kinds Compound by blast
  qed
  from assms(1,2) consider "plain_term t" "plain_term u"
    | k as where "op_nary (OPERATORS k)" "t = Compound k as" "plain_term u"
    | k as where "op_nary (OPERATORS k)" "u = Compound k as" "plain_term t"
    | k as k' bs where "t = Compound k as" "u = Compound k' bs" "list_all plain_term as" "list_all plain_term bs"
    unfolding plain_statement_def by blast
  then show ?thesis
  proof cases
    case 1
    then show ?thesis using reads assms(3) by blast
  next
    case 2
    then show ?thesis using mixed [OF 2(1,3)] assms(3) by metis
  next
    case 3
    then show ?thesis using mixed [OF 3(1,3)] assms(3) by metis
  next
    case 4
    then show ?thesis using kinds join_plain assms(3) by metis
  qed
qed

text \<open>C37: a term's key identifies it, where no n-ary operator is nested. Two terms whose symbols
  hold no comma and whose operators below the root have a fixed arity have the same key only
  when they are the same term.\<close>

theorem termKey_injective:
  assumes "plain_statement t" "plain_statement u" "termKey t = termKey u"
  shows "t = u"
  using assms by (rule key_identifies)

theorem termKey_injective_witness:
  "termKey (Compound Conjunction [Compound Inheritance [Atom ''a'', Atom ''b''], Atom ''c''])
     \<noteq> termKey (Compound Conjunction [Compound Inheritance [Atom ''a'', Atom ''c''], Atom ''c''])"
proof
  assume "termKey (Compound Conjunction [Compound Inheritance [Atom ''a'', Atom ''b''], Atom ''c''])
     = termKey (Compound Conjunction [Compound Inheritance [Atom ''a'', Atom ''c''], Atom ''c''])"
  from termKey_injective [OF _ _ this] show False by (simp add: plain_statement_def)
qed

text \<open>nesting breaks the key. For any members, a disjunction of two next to a third member and a
  disjunction of three are two different conjunctions with one key, because the key closes no
  argument list.\<close>

theorem termKey_collides:
  "termKey (Compound Conjunction [Compound Disjunction [a, b], c, d])
     = termKey (Compound Conjunction [Compound Disjunction [a, b, c], d])
   \<and> Compound Conjunction [Compound Disjunction [a, b], c, d] \<noteq> Compound Conjunction [Compound Disjunction [a, b, c], d]"
  by simp

text \<open>what the membership test of subterms answers. A node of the tree is always found, and
  what is found has the key of some node.\<close>

theorem containsSubterm_keys:
  "containsSubterm t u \<longleftrightarrow> termKey u \<in> termKey ` set (preorder t)"
  by (simp add: containsSubterm_def)

end
