(* ===== verification/Intern.thy ===== *)
theory Intern
  imports Terms
begin

text \<open>
  The interning constructors, \<open>nar/src/terms/impls/intern.ts\<close>, with the character rules of
  \<open>impls/valid-atom.ts\<close>. The term cache is the bounded map of \<open>Bounded_Map\<close> in
  insertion order, keyed by \<open>termKey\<close>. The language's collator, which orders the arguments of
  a commutative compound, is the argument \<open>collate a b\<close> for \<open>compare(a, b) <= 0\<close>; what is
  used of it is that it is a total preorder. An argument that is absent (\<open>filter(Boolean)\<close>)
  is \<open>None\<close>; a throw is the left of a sum.
\<close>

section \<open>Atoms\<close>

datatype termError =
  SymbolWithColon | SymbolWithChar char | WrongArity operatorKey nat | NoFixedPoint

definition valid_atom_char :: "char \<Rightarrow> bool" where
  "valid_atom_char c = (let n = (of_char c :: nat)
     in (65 \<le> n \<and> n \<le> 90) \<or> (97 \<le> n \<and> n \<le> 122) \<or> (48 \<le> n \<and> n \<le> 57) \<or> c = CHR ''_'' \<or> c = CHR ''^'')"

definition isValidAtomSymbol :: "string \<Rightarrow> bool" where
  "isValidAtomSymbol symbol = list_all valid_atom_char symbol"

text \<open>A run of invalid characters becomes one underscore.\<close>

fun replace_runs :: "bool \<Rightarrow> string \<Rightarrow> string" where
  "replace_runs inRun [] = []"
| "replace_runs inRun (c # cs) =
     (if valid_atom_char c then c # replace_runs False cs
      else if inRun then replace_runs True cs else CHR ''_'' # replace_runs True cs)"

definition toAtomSymbol :: "string \<Rightarrow> string" where
  "toAtomSymbol text =
     (let cleaned = replace_runs False text
      in if isValidAtomSymbol cleaned then cleaned else ''unnamed'')"

type_synonym termCache = "(string, narTerm) boundedMap"

definition TERM_CACHE_MAX_SIZE :: int where
  "TERM_CACHE_MAX_SIZE = 10000"

definition emptyTermCache :: termCache where
  "emptyTermCache = newBoundedMap TERM_CACHE_MAX_SIZE None Fifo None"

definition isQuotedAtom :: "string \<Rightarrow> bool" where
  "isQuotedAtom symbol = (symbol \<noteq> [] \<and> hd symbol = CHR 0x22 \<and> last symbol = CHR 0x22)"

definition createAtom :: "termCache \<Rightarrow> string \<Rightarrow> (termError + narTerm) \<times> termCache" where
  "createAtom c symbol =
     (let key = atomKey symbol
      in case bm_get 0 c key of
           (Some t, c') \<Rightarrow> (Inr t, c')
         | (None, c') \<Rightarrow>
             if CHR '':'' \<in> set symbol then (Inl SymbolWithColon, c')
             else case (if isVariableSymbol symbol \<or> isQuotedAtom symbol then None
                        else find (\<lambda>ch. \<not> valid_atom_char ch) symbol) of
                    Some bad \<Rightarrow> (Inl (SymbolWithChar bad), c')
                  | None \<Rightarrow> (Inr (Atom symbol), bm_set 0 0 c' key (Atom symbol)))"

definition CONSTANT_SYMBOLS :: "string list" where
  "CONSTANT_SYMBOLS = [''TRUE'', ''FALSE'', ''NULL'']"

definition atomOf :: "termCache \<Rightarrow> string \<Rightarrow> (termError + narTerm) \<times> termCache" where
  "atomOf c symbol = (if symbol \<in> set CONSTANT_SYMBOLS then (Inr (Atom symbol), c) else createAtom c symbol)"

fun isBoolAtom :: "narTerm \<Rightarrow> bool" where
  "isBoolAtom (Atom s) = (s \<in> set CONSTANT_SYMBOLS)"
| "isBoolAtom (Compound _ _) = False"

section \<open>Compounds\<close>

fun canonicalKeyOf :: "narTerm \<Rightarrow> string" where
  "canonicalKeyOf (Atom s) = s"
| "canonicalKeyOf (Compound kind _) = kind_name kind"

definition canonicalOrder :: "(string \<Rightarrow> string \<Rightarrow> bool) \<Rightarrow> narTerm \<Rightarrow> narTerm \<Rightarrow> bool" where
  "canonicalOrder collate a b = collate (canonicalKeyOf a) (canonicalKeyOf b)"

definition compoundKey :: "operatorKey \<Rightarrow> narTerm list \<Rightarrow> string" where
  "compoundKey kind args = kind_name kind @ '':'' @ join_with '','' (map termKey args)"

text \<open>The checks before a compound is built: it is a constant, one of its arguments, an error or a
  list of arguments still to be ordered.\<close>

datatype compoundPlan = Folds narTerm | Fails termError | Builds "narTerm list"

definition compound_plan :: "operatorKey \<Rightarrow> narTerm list \<Rightarrow> compoundPlan" where
  "compound_plan kind valid =
     (if valid = [] \<and> kind = Disjunction then Folds (Atom ''FALSE'')
      else if length valid = 1 \<and> (kind = Disjunction \<or> kind = Conjunction \<or> kind = Parallel) then Folds (hd valid)
      else if kind = Negation \<and> length valid \<noteq> 1 then Fails (WrongArity Negation (length valid))
      else if kind = Sequence \<and> length valid \<noteq> 2 then Fails (WrongArity Sequence (length valid))
      else if kind = OperationOp \<and> length valid \<noteq> 2 then Fails (WrongArity OperationOp (length valid))
      else Builds valid)"

definition ordered_args :: "(string \<Rightarrow> string \<Rightarrow> bool) \<Rightarrow> operatorKey \<Rightarrow> narTerm list \<Rightarrow> narTerm list" where
  "ordered_args collate kind valid =
     (if kind \<in> set COMMUTATIVE_OPS then js_sort (canonicalOrder collate) valid else valid)"

definition intern_compound :: "termCache \<Rightarrow> operatorKey \<Rightarrow> narTerm list \<Rightarrow> narTerm \<times> termCache" where
  "intern_compound c kind args =
     (let key = compoundKey kind args
      in case bm_get 0 c key of
           (Some t, c') \<Rightarrow> (t, c')
         | (None, c') \<Rightarrow> (Compound kind args, bm_set 0 0 c' key (Compound kind args)))"

definition compoundOf ::
  "(string \<Rightarrow> string \<Rightarrow> bool) \<Rightarrow> termCache \<Rightarrow> operatorKey \<Rightarrow> narTerm option list
    \<Rightarrow> (termError + narTerm) \<times> termCache" where
  "compoundOf collate c kind args =
     (case compound_plan kind (List.map_filter id args) of
        Folds t \<Rightarrow> (Inr t, c)
      | Fails e \<Rightarrow> (Inl e, c)
      | Builds valid \<Rightarrow>
          (let (valid', c') =
                 (if kind = OperationOp \<and> \<not> isType ProductOp (valid ! 1)
                  then let (p, c1) = intern_compound c ProductOp [valid ! 1] in ([valid ! 0, p], c1)
                  else (valid, c));
               (t, c2) = intern_compound c' kind (ordered_args collate kind valid')
           in (Inr t, c2)))"

definition evictTerm :: "termCache \<Rightarrow> string \<Rightarrow> bool \<times> termCache" where
  "evictTerm c key = bm_delete c key"

definition clearTerms :: "termCache \<Rightarrow> termCache" where
  "clearTerms c = bm_clear c"

definition termCacheSize :: "termCache \<Rightarrow> int" where
  "termCacheSize c = bm_size c"

text \<open>The compound that is built when the cache holds nothing under its key.\<close>

definition rawCompound ::
  "(string \<Rightarrow> string \<Rightarrow> bool) \<Rightarrow> operatorKey \<Rightarrow> narTerm list \<Rightarrow> termError + narTerm" where
  "rawCompound collate kind args =
     (case compound_plan kind args of
        Folds t \<Rightarrow> Inr t
      | Fails e \<Rightarrow> Inl e
      | Builds valid \<Rightarrow>
          Inr (Compound kind (ordered_args collate kind
            (if kind = OperationOp \<and> \<not> isType ProductOp (valid ! 1)
             then [valid ! 0, Compound ProductOp [valid ! 1]] else valid))))"

section \<open>What interning returns\<close>

text \<open>The cache of the factory: first in, first out, no expiry, every term under its own key.\<close>

definition term_cache_ok :: "termCache \<Rightarrow> bool" where
  "term_cache_ok c \<longleftrightarrow> bm_order c = Fifo \<and> bm_ttlMs c = None \<and> \<not> bm_touchOnRead c
     \<and> (\<forall>(k, e) \<in> set (bm_entries c). k = termKey (e_value e))"

lemma emptyTermCache_ok [simp]: "term_cache_ok emptyTermCache"
  by (simp add: term_cache_ok_def emptyTermCache_def newBoundedMap_def is_lru_def)

lemma term_cache_get:
  assumes "term_cache_ok c"
  shows "bm_get 0 c key = (map_option e_value (map_of (bm_entries c) key), c)"
  using assms
  by (auto simp: bm_get_def bm_live_def bm_expired_def term_cache_ok_def split: option.splits)

lemma term_cache_hit:
  assumes "term_cache_ok c" "bm_get 0 c key = (Some t, c')"
  shows "termKey t = key \<and> c' = c"
  using assms by (auto simp: term_cache_get term_cache_ok_def dest!: map_of_SomeD)

lemma bm_evictVictim_entries: "set (bm_entries (bm_evictVictim r b)) \<subseteq> set (bm_entries b)"
  by (auto simp: bm_evictVictim_def bm_evict_def AList.delete_eq split: option.splits)

lemma bm_set_frames:
  "bm_order (bm_set now r b k v) = bm_order b" "bm_ttlMs (bm_set now r b k v) = bm_ttlMs b"
  "bm_touchOnRead (bm_set now r b k v) = bm_touchOnRead b"
  by (auto simp: bm_set_def bm_evictVictim_def bm_evict_def Let_def split: option.splits)

lemma bm_set_values:
  assumes "(k', e) \<in> set (bm_entries (bm_set now r b k v))"
  shows "(k' = k \<and> e_value e = v) \<or> (k', e) \<in> set (bm_entries b)"
  using assms set_update_entries bm_evictVictim_entries [of r b]
  by (fastforce simp: bm_set_def Let_def AList.delete_eq split: if_splits)

lemma term_cache_set:
  assumes "term_cache_ok c" "key = termKey t"
  shows "term_cache_ok (bm_set 0 0 c key t)"
  using assms bm_set_values [of _ _ 0 0 c key t]
  unfolding term_cache_ok_def bm_set_frames by fastforce

lemma compoundKey_term [simp]: "termKey (Compound kind args) = compoundKey kind args"
  by (simp add: compoundKey_def)

declare termKey.simps(2) [simp del]

lemma term_cache_set_compound [simp]:
  "term_cache_ok c \<Longrightarrow> term_cache_ok (bm_set 0 0 c (compoundKey kind args) (Compound kind args))"
  by (rule term_cache_set) simp_all

lemma term_cache_set_hit:
  assumes "term_cache_ok c" "key = termKey t"
  shows "bm_get 0 (bm_set 0 0 c key t) key = (Some t, bm_set 0 0 c key t)"
  using term_cache_get [OF term_cache_set [OF assms], of key] by (simp add: bm_set_def Let_def)

lemma intern_compound_key:
  assumes "term_cache_ok c" "intern_compound c kind args = (t, c')"
  shows "termKey t = termKey (Compound kind args) \<and> term_cache_ok c'"
  using assms term_cache_hit [OF assms(1)]
  by (auto simp: intern_compound_def term_cache_get Let_def split: prod.splits option.splits)

text \<open>interning answers by key. From a cache whose entries carry their own keys, the constructor
  throws exactly when the uncached one does, and otherwise returns a term with the key of the
  compound that was asked for; and the cache keeps its entries under their own keys.\<close>

theorem compoundOf_key:
  assumes "term_cache_ok c" "compoundOf collate c kind args = (res, c')"
  shows "term_cache_ok c' \<and>
    (case (res, rawCompound collate kind (List.map_filter id args)) of
       (Inr t, Inr u) \<Rightarrow> termKey t = termKey u
     | (Inl e, Inl e') \<Rightarrow> e = e'
     | _ \<Rightarrow> False)"
proof (cases "compound_plan kind (List.map_filter id args)")
  case (Builds valid)
  show ?thesis
  proof (cases "kind = OperationOp \<and> \<not> isType ProductOp (valid ! 1)")
    case True
    obtain p c1 where p: "intern_compound c ProductOp [valid ! 1] = (p, c1)" by force
    obtain t c2 where t: "intern_compound c1 kind [valid ! 0, p] = (t, c2)" by force
    note k1 = intern_compound_key [OF assms(1) p]
    note k2 = intern_compound_key [OF conjunct2 [OF k1] t]
    have o: "ordered_args collate kind xs = xs" for xs using True by (simp add: ordered_args_def)
    have "res = Inr t" "c' = c2" using assms(2) Builds True p t o by (simp_all add: compoundOf_def)
    then show ?thesis using Builds True k1 k2 o
      by (simp add: rawCompound_def compoundKey_def)
  next
    case False
    obtain t c2 where t: "intern_compound c kind (ordered_args collate kind valid) = (t, c2)" by force
    have "res = Inr t" "c' = c2" using assms(2) Builds False t by (auto simp: compoundOf_def)
    then show ?thesis using Builds False intern_compound_key [OF assms(1) t]
      by (auto simp: rawCompound_def)
  qed
qed (use assms in \<open>auto simp: compoundOf_def rawCompound_def\<close>)

lemma compoundOf_key_witness:
  "\<exists>c'. compoundOf (\<lambda>a b. True) emptyTermCache Inheritance [Some (Atom ''a''), Some (Atom ''b'')]
       = (Inr (Compound Inheritance [Atom ''a'', Atom ''b'']), c') \<and> term_cache_ok c'"
proof -
  obtain c' where c: "compoundOf (\<lambda>a b. True) emptyTermCache Inheritance [Some (Atom ''a''), Some (Atom ''b'')]
      = (Inr (Compound Inheritance [Atom ''a'', Atom ''b'']), c')"
    by (simp add: compoundOf_def compound_plan_def ordered_args_def intern_compound_def
        term_cache_get [OF emptyTermCache_ok] List.map_filter_def Let_def)
      (simp add: emptyTermCache_def newBoundedMap_def)
  then show ?thesis using compoundOf_key [OF emptyTermCache_ok c] by blast
qed

text \<open>interning confuses terms. Whatever the members, once the product of a conjunction of two and
  two further members is interned, asking for the product of the conjunction of three and the
  fourth member returns the first product: the two share a key, and the cache answers by key.\<close>

theorem interning_confuses_terms:
  assumes "term_cache_ok c" "map_of (bm_entries c) (compoundKey ProductOp [Compound Conjunction [x, y], z, w]) = None"
    and "compoundOf collate c ProductOp (map Some [Compound Conjunction [x, y], z, w]) = (Inr t1, c1)"
    and "compoundOf collate c1 ProductOp (map Some [Compound Conjunction [x, y, z], w]) = (Inr t2, c2)"
  shows "t2 = t1 \<and> rawCompound collate ProductOp [Compound Conjunction [x, y, z], w] \<noteq> Inr t2"
proof -
  have same: "compoundKey ProductOp [Compound Conjunction [x, y, z], w]
      = compoundKey ProductOp [Compound Conjunction [x, y], z, w]"
    by (simp add: compoundKey_def)
  have plan: "compound_plan ProductOp xs = Builds xs" for xs by (simp add: compound_plan_def)
  have keep: "List.map_filter id (map Some xs) = xs" for xs :: "narTerm list"
    by (induction xs) (simp_all add: List.map_filter_def)
  have first: "t1 = Compound ProductOp [Compound Conjunction [x, y], z, w]"
    and c1: "c1 = bm_set 0 0 c (compoundKey ProductOp [Compound Conjunction [x, y], z, w]) t1"
    using assms(1,2,3) unfolding compoundOf_def keep plan
    by (auto simp: intern_compound_def term_cache_get ordered_args_def)
  have "bm_get 0 c1 (compoundKey ProductOp [Compound Conjunction [x, y], z, w]) = (Some t1, c1)"
    using c1 first term_cache_set_hit [OF assms(1) compoundKey_term [symmetric]] by simp
  then have "t2 = t1"
    using assms(4) same unfolding compoundOf_def keep plan by (auto simp: intern_compound_def ordered_args_def)
  then show ?thesis using first by (simp add: rawCompound_def plan ordered_args_def)
qed


lemma interning_confuses_terms_witness:
  "\<exists>t1 c1 t2 c2.
     compoundOf (\<lambda>a b. True) emptyTermCache ProductOp (map Some [Compound Conjunction [Atom ''a'', Atom ''b''], Atom ''c'', Atom ''d''])
       = (Inr t1, c1)
     \<and> compoundOf (\<lambda>a b. True) c1 ProductOp (map Some [Compound Conjunction [Atom ''a'', Atom ''b'', Atom ''c''], Atom ''d''])
       = (Inr t2, c2)
     \<and> t2 = t1"
proof -
  have total: "\<exists>t c'. compoundOf (\<lambda>a b. True) c ProductOp (map Some xs) = (Inr t, c')" for c xs
    by (simp add: compoundOf_def compound_plan_def split: prod.splits)
  obtain t1 c1 where 1: "compoundOf (\<lambda>a b. True) emptyTermCache ProductOp
      (map Some [Compound Conjunction [Atom ''a'', Atom ''b''], Atom ''c'', Atom ''d'']) = (Inr t1, c1)"
    using total by blast
  obtain t2 c2 where 2: "compoundOf (\<lambda>a b. True) c1 ProductOp
      (map Some [Compound Conjunction [Atom ''a'', Atom ''b'', Atom ''c''], Atom ''d'']) = (Inr t2, c2)"
    using total by blast
  have "map_of (bm_entries emptyTermCache)
      (compoundKey ProductOp [Compound Conjunction [Atom ''a'', Atom ''b''], Atom ''c'', Atom ''d'']) = None"
    by (simp add: emptyTermCache_def newBoundedMap_def)
  then show ?thesis using interning_confuses_terms [OF emptyTermCache_ok _ 1 2] 1 2 by blast
qed

section \<open>Interning is transparent\<close>

text \<open>The terms a cache answers with, and the compounds the constructor looks up: the operation's
  second argument is wrapped before the operation is.\<close>

definition cached_terms :: "termCache \<Rightarrow> narTerm list" where
  "cached_terms c = map (\<lambda>(k, e). e_value e) (bm_entries c)"

definition built_compounds :: "(string \<Rightarrow> string \<Rightarrow> bool) \<Rightarrow> operatorKey \<Rightarrow> narTerm list \<Rightarrow> narTerm list" where
  "built_compounds collate kind args =
     (case compound_plan kind args of
        Builds valid \<Rightarrow>
          (if kind = OperationOp \<and> \<not> isType ProductOp (valid ! 1)
           then let p = Compound ProductOp [valid ! 1] in [p, Compound kind (ordered_args collate kind [valid ! 0, p])]
           else [Compound kind (ordered_args collate kind valid)])
      | _ \<Rightarrow> [])"

lemma cached_terms_set:
  "set (cached_terms (bm_set now r c (termKey t) t)) \<subseteq> insert t (set (cached_terms c))"
  using bm_set_values [of _ _ now r c "termKey t" t] by (fastforce simp: cached_terms_def)

text \<open>Over a set of terms with different keys that holds all the cache holds, the cache answers every
  compound of the set with itself.\<close>

lemma intern_compound_apart:
  assumes "term_cache_ok c" "inj_on termKey H" "set (cached_terms c) \<subseteq> H" "Compound kind args \<in> H"
  shows "\<exists>c'. intern_compound c kind args = (Compound kind args, c') \<and> term_cache_ok c'
    \<and> set (cached_terms c') \<subseteq> insert (Compound kind args) (set (cached_terms c))"
proof (cases "map_of (bm_entries c) (compoundKey kind args)")
  case None
  then have "intern_compound c kind args
      = (Compound kind args, bm_set 0 0 c (compoundKey kind args) (Compound kind args))"
    by (simp add: intern_compound_def term_cache_get [OF assms(1)])
  moreover have "term_cache_ok (bm_set 0 0 c (compoundKey kind args) (Compound kind args))"
    using assms(1) by (rule term_cache_set_compound)
  moreover have "set (cached_terms (bm_set 0 0 c (compoundKey kind args) (Compound kind args)))
      \<subseteq> insert (Compound kind args) (set (cached_terms c))"
    using cached_terms_set [of 0 0 c "Compound kind args"] unfolding compoundKey_term .
  ultimately show ?thesis by blast
next
  case (Some e)
  then have e: "(compoundKey kind args, e) \<in> set (bm_entries c)" by (rule map_of_SomeD)
  then have "termKey (e_value e) = termKey (Compound kind args)" using assms(1) by (auto simp: term_cache_ok_def)
  moreover have "e_value e \<in> set (cached_terms c)" using e by (force simp: cached_terms_def)
  ultimately have "e_value e = Compound kind args" using inj_onD [OF assms(2)] assms(3,4) by blast
  then show ?thesis using Some assms(1) by (auto simp: intern_compound_def term_cache_get [OF assms(1)])
qed

lemma compoundOf_apart:
  assumes "term_cache_ok c" "inj_on termKey H" "set (cached_terms c) \<subseteq> H"
    and "set (built_compounds collate kind (List.map_filter id args)) \<subseteq> H"
  shows "\<exists>c'. compoundOf collate c kind args = (rawCompound collate kind (List.map_filter id args), c')
    \<and> term_cache_ok c'
    \<and> set (cached_terms c') \<subseteq> set (cached_terms c) \<union> set (built_compounds collate kind (List.map_filter id args))"
proof (cases "compound_plan kind (List.map_filter id args)")
  case (Builds valid)
  show ?thesis
  proof (cases "kind = OperationOp \<and> \<not> isType ProductOp (valid ! 1)")
    case True
    let ?p = "Compound ProductOp [valid ! 1]" and ?op = "Compound OperationOp [valid ! 0, Compound ProductOp [valid ! 1]]"
    have o: "ordered_args collate OperationOp xs = xs" for xs by (simp add: ordered_args_def)
    have "built_compounds collate kind (List.map_filter id args) = [?p, ?op]"
      using Builds True o by (simp add: built_compounds_def Let_def)
    then have H: "?p \<in> H" "?op \<in> H" using assms(4) by (simp_all only: list.set insert_subset)
    obtain c1 where 1: "intern_compound c ProductOp [valid ! 1] = (?p, c1)" "term_cache_ok c1"
        "set (cached_terms c1) \<subseteq> insert ?p (set (cached_terms c))"
      using intern_compound_apart [OF assms(1-3) H(1)] by blast
    have "set (cached_terms c1) \<subseteq> H" using 1(3) H(1) assms(3) by blast
    then obtain c2 where 2: "intern_compound c1 OperationOp [valid ! 0, ?p] = (?op, c2)" "term_cache_ok c2"
        "set (cached_terms c2) \<subseteq> insert ?op (set (cached_terms c1))"
      using intern_compound_apart [OF 1(2) assms(2) _ H(2)] by blast
    show ?thesis using Builds True 1 2 o
      by (auto simp: compoundOf_def rawCompound_def built_compounds_def Let_def)
  next
    case False
    have H: "Compound kind (ordered_args collate kind valid) \<in> H"
      using assms(4) Builds False by (auto simp: built_compounds_def)
    from intern_compound_apart [OF assms(1-3) H] show ?thesis using Builds False
      by (auto simp: compoundOf_def rawCompound_def built_compounds_def)
  qed
qed (use assms in \<open>auto simp: compoundOf_def rawCompound_def built_compounds_def\<close>)

lemma apart_inj: "distinct (map termKey (remdups xs)) \<longleftrightarrow> inj_on termKey (set xs)"
  by (simp add: distinct_map)

text \<open>Keys are apart, for one, where the terms nest no n-ary operator and no symbol has a comma.\<close>

lemma plain_apart: "list_all plain_statement xs \<Longrightarrow> distinct (map termKey (remdups xs))"
  unfolding apart_inj using key_identifies by (auto simp: inj_on_def list_all_iff)

text \<open>C36: interning is transparent where keys are apart. If no two of the terms the cache holds and
  the compounds the constructor is about to look up share a key, the constructor throws exactly what
  the uncached one throws and otherwise returns exactly the compound it builds; the cache
  stays in order and holds only what it held and what was asked for.\<close>

theorem interning_transparent:
  assumes "term_cache_ok c"
    and "distinct (map termKey (remdups (cached_terms c @ built_compounds collate kind (List.map_filter id args))))"
  shows "\<exists>c'. compoundOf collate c kind args = (rawCompound collate kind (List.map_filter id args), c')
    \<and> term_cache_ok c'
    \<and> set (cached_terms c') \<subseteq> set (cached_terms c) \<union> set (built_compounds collate kind (List.map_filter id args))"
  using compoundOf_apart [OF assms(1) assms(2) [unfolded apart_inj]] by simp

text \<open>A cache that holds the operation \<open>f(a)\<close> and its product: both are hits.\<close>

definition exampleCache :: termCache where
  "exampleCache = snd (compoundOf (\<lambda>a b. True) emptyTermCache OperationOp [Some (Atom ''f''), Some (Atom ''a'')])"

lemma exampleCache_holds:
  "term_cache_ok exampleCache"
  "cached_terms exampleCache = [Compound ProductOp [Atom ''a''], Compound OperationOp [Atom ''f'', Compound ProductOp [Atom ''a'']]]"
proof -
  show "cached_terms exampleCache = [Compound ProductOp [Atom ''a''], Compound OperationOp [Atom ''f'', Compound ProductOp [Atom ''a'']]]"
    by code_simp
  show "term_cache_ok exampleCache"
    using compoundOf_key [OF emptyTermCache_ok] unfolding exampleCache_def by (metis prod.collapse)
qed

lemma interning_transparent_witness:
  "\<exists>c'. compoundOf (\<lambda>a b. True) exampleCache OperationOp [Some (Atom ''f''), None, Some (Atom ''a'')]
     = (Inr (Compound OperationOp [Atom ''f'', Compound ProductOp [Atom ''a'']]), c')
   \<and> set (cached_terms c') \<subseteq> set (cached_terms exampleCache)"
proof -
  let ?args = "[Some (Atom ''f''), None, Some (Atom ''a'')]"
  have raw: "rawCompound (\<lambda>a b. True) OperationOp (List.map_filter id ?args)
      = Inr (Compound OperationOp [Atom ''f'', Compound ProductOp [Atom ''a'']])"
    by code_simp
  have built: "built_compounds (\<lambda>a b. True) OperationOp (List.map_filter id ?args)
      = [Compound ProductOp [Atom ''a''], Compound OperationOp [Atom ''f'', Compound ProductOp [Atom ''a'']]]"
    by code_simp
  have "distinct (map termKey (remdups (cached_terms exampleCache
      @ built_compounds (\<lambda>a b. True) OperationOp (List.map_filter id ?args))))"
    unfolding built exampleCache_holds(2) by code_simp
  from interning_transparent [OF exampleCache_holds(1) this] show ?thesis unfolding raw built exampleCache_holds(2) by auto
qed

end
