(* ===== verification/Reduce.thy ===== *)
theory Reduce
  imports Intern
begin

text \<open>
  Canonicalisation: the term reducers of \<open>nar/src/terms/reduce.ts\<close>, and the canonical form they
  specify. A reducer says when it applies and what it asks for: a term at hand, or a compound of the
  constructor. \<open>canonicalTerm\<close> is the specification: the canonical form reached when the constructor
  builds every compound it is asked for (\<open>rawCompound\<close>). The code's canonicalisation asks the
  constructor with the intern cache and keeps a memo; it is modelled in \<open>Reduce_Intern\<close> and proved
  to compute this form wherever the keys of the compounds in the cache and of those it builds are
  apart. The other components compose the specification.
\<close>

section \<open>The reducers\<close>

type_synonym collation = "string \<Rightarrow> string \<Rightarrow> bool"

definition FLATTENED :: "operatorKey list" where
  "FLATTENED = NARY_OPS"

definition DEDUPED :: "operatorKey list" where
  "DEDUPED = filter (\<lambda>k. k \<in> set COMMUTATIVE_OPS) NARY_OPS"

text \<open>What a reducer asks for: a term it has at hand, a compound, or an operand that is not there.\<close>

datatype rewriting = Gives narTerm | Rebuilds operatorKey "narTerm list" | Throws termError

datatype termReducer = TermReducer
  (reducer_id: string) (applies: "narTerm \<Rightarrow> bool") (rewrite: "narTerm \<Rightarrow> rewriting")

fun specified :: "collation \<Rightarrow> rewriting \<Rightarrow> termError + narTerm" where
  "specified collate (Gives u) = Inr u"
| "specified collate (Rebuilds k args) = rawCompound collate k args"
| "specified collate (Throws e) = Inl e"

fun reduce_term :: "termReducer \<Rightarrow> collation \<Rightarrow> narTerm \<Rightarrow> termError + narTerm" where
  "reduce_term (TermReducer ident guard asks) collate t = specified collate (asks t)"

definition distinct_args :: "narTerm list \<Rightarrow> narTerm list" where
  "distinct_args args = uniqueBy args termKey"

definition conjunctionContradiction :: termReducer where
  "conjunctionContradiction = TermReducer ''conjunction-contradiction''
     (\<lambda>t. isType Conjunction t \<and> hasNegatedPair t) (\<lambda>_. Gives (Atom ''FALSE''))"

definition disjunctionTautology :: termReducer where
  "disjunctionTautology = TermReducer ''disjunction-tautology''
     (\<lambda>t. isType Disjunction t \<and> hasNegatedPair t) (\<lambda>_. Gives (Atom ''TRUE''))"

fun kindOf :: "narTerm \<Rightarrow> operatorKey option" where
  "kindOf (Atom _) = None"
| "kindOf (Compound k _) = Some k"

text \<open>A reducer's rewrite is asked only of a term it applies to, which has a kind.\<close>

definition rebuild_as :: "(operatorKey \<Rightarrow> narTerm list \<Rightarrow> narTerm list) \<Rightarrow> narTerm \<Rightarrow> rewriting" where
  "rebuild_as f t =
     (case t of Atom _ \<Rightarrow> Gives t | Compound k args \<Rightarrow> Rebuilds k (f k args))"

definition flattenNested :: termReducer where
  "flattenNested = TermReducer ''flatten-nested''
     (\<lambda>t. case t of Atom _ \<Rightarrow> False
            | Compound k args \<Rightarrow> k \<in> set FLATTENED \<and> list_ex (isType k) args)
     (rebuild_as (\<lambda>k args. concat (map (\<lambda>arg. if isType k arg then getArgs arg else [arg]) args)))"

definition dedupeArgs :: termReducer where
  "dedupeArgs = TermReducer ''dedupe-args''
     (\<lambda>t. case t of Atom _ \<Rightarrow> False | Compound k _ \<Rightarrow> k \<in> set DEDUPED \<and> hasRepeatedArgs t)
     (rebuild_as (\<lambda>k args. distinct_args args))"

text \<open>\<open>getArgs(getArgs(term)[0])[0]\<close>: a negation without an argument has none to give back.\<close>

definition doubleNegation :: termReducer where
  "doubleNegation = TermReducer ''double-negation''
     (\<lambda>t. case t of Compound Negation (Compound Negation _ # _) \<Rightarrow> True | _ \<Rightarrow> False)
     (\<lambda>t. case t of Compound Negation (Compound Negation (x # _) # _) \<Rightarrow> Gives x
                | _ \<Rightarrow> Throws (WrongArity Negation 0))"

datatype boolSymbol = TrueSym | FalseSym

fun bool_symbol :: "boolSymbol \<Rightarrow> string" where
  "bool_symbol TrueSym = ''TRUE''"
| "bool_symbol FalseSym = ''FALSE''"

fun other_symbol :: "boolSymbol \<Rightarrow> boolSymbol" where
  "other_symbol TrueSym = FalseSym"
| "other_symbol FalseSym = TrueSym"

fun negate_id :: "boolSymbol \<Rightarrow> string" where
  "negate_id TrueSym = ''negate-true''"
| "negate_id FalseSym = ''negate-false''"

definition negateBool :: "boolSymbol \<Rightarrow> termReducer" where
  "negateBool symbol = TermReducer (negate_id symbol)
     (\<lambda>t. case t of Compound Negation (Atom s # _) \<Rightarrow> s = bool_symbol symbol | _ \<Rightarrow> False)
     (\<lambda>_. Gives (Atom (bool_symbol (other_symbol symbol))))"

definition boolAbsorb :: "string \<Rightarrow> operatorKey \<Rightarrow> boolSymbol \<Rightarrow> bool \<Rightarrow> termReducer" where
  "boolAbsorb ident kind symbol absorbing = TermReducer ident
     (\<lambda>t. isType kind t \<and> list_ex (\<lambda>arg. arg = Atom (bool_symbol symbol)) (getArgs t))
     (\<lambda>t. if absorbing then Gives (Atom (bool_symbol symbol))
        else Rebuilds kind (filter (\<lambda>arg. arg \<noteq> Atom (bool_symbol symbol)) (getArgs t)))"

definition TERM_REDUCERS :: "termReducer list" where
  "TERM_REDUCERS = [
     flattenNested,
     dedupeArgs,
     conjunctionContradiction,
     disjunctionTautology,
     doubleNegation,
     negateBool TrueSym,
     negateBool FalseSym,
     boolAbsorb ''conjunction-true'' Conjunction TrueSym False,
     boolAbsorb ''conjunction-false'' Conjunction FalseSym True,
     boolAbsorb ''disjunction-true'' Disjunction TrueSym True,
     boolAbsorb ''disjunction-false'' Disjunction FalseSym False]"

section \<open>The fixed point\<close>

definition MAX_PASSES :: nat where
  "MAX_PASSES = 8"

fun one_pass :: "collation \<Rightarrow> termReducer list \<Rightarrow> narTerm \<Rightarrow> termError + narTerm" where
  "one_pass collate [] t = Inr t"
| "one_pass collate (r # rs) t =
     (if applies r t
      then (case reduce_term r collate t of Inl e \<Rightarrow> Inl e | Inr t' \<Rightarrow> one_pass collate rs t')
      else one_pass collate rs t)"

fun settle :: "collation \<Rightarrow> nat \<Rightarrow> narTerm \<Rightarrow> termError + narTerm" where
  "settle collate 0 t = Inl NoFixedPoint"
| "settle collate (Suc passes) t =
     (case one_pass collate TERM_REDUCERS t of
        Inl e \<Rightarrow> Inl e
      | Inr nxt \<Rightarrow> if nxt = t then Inr t else settle collate passes nxt)"

fun map_results :: "('a \<Rightarrow> 'e + 'b) \<Rightarrow> 'a list \<Rightarrow> 'e + 'b list" where
  "map_results f [] = Inr []"
| "map_results f (x # xs) =
     (case f x of Inl e \<Rightarrow> Inl e
      | Inr y \<Rightarrow> (case map_results f xs of Inl e \<Rightarrow> Inl e | Inr ys \<Rightarrow> Inr (y # ys)))"

lemma map_results_cong [fundef_cong]:
  "xs = ys \<Longrightarrow> (\<And>x. x \<in> set ys \<Longrightarrow> f x = g x) \<Longrightarrow> map_results f xs = map_results g ys"
  by (induction xs arbitrary: ys) (auto split: sum.splits)

fun canonicalTerm :: "collation \<Rightarrow> narTerm \<Rightarrow> termError + narTerm" where
  "canonicalTerm collate (Atom s) = Inr (Atom s)"
| "canonicalTerm collate (Compound k args) =
     (case map_results (canonicalTerm collate) args of
        Inl e \<Rightarrow> Inl e
      | Inr args' \<Rightarrow>
          (case rawCompound collate k args' of
             Inl e \<Rightarrow> Inl e
           | Inr current \<Rightarrow> settle collate MAX_PASSES current))"

section \<open>The factory\<close>

definition createCompound :: "collation \<Rightarrow> operatorKey \<Rightarrow> narTerm option list \<Rightarrow> termError + narTerm" where
  "createCompound collate kind args =
     (case rawCompound collate kind (List.map_filter id args) of
        Inl e \<Rightarrow> Inl e
      | Inr t \<Rightarrow> canonicalTerm collate t)"

text \<open>An inheritance between a term and a part of it is not built.\<close>

definition build_inheritance :: "collation \<Rightarrow> narTerm \<Rightarrow> narTerm \<Rightarrow> (termError + narTerm) option" where
  "build_inheritance collate subj predicate =
     (if containsSubterm subj predicate \<or> containsSubterm predicate subj then None
      else Some (createCompound collate Inheritance [Some subj, Some predicate]))"

definition build_negation :: "collation \<Rightarrow> narTerm \<Rightarrow> termError + narTerm" where
  "build_negation collate t = createCompound collate Negation [Some t]"

section \<open>Normal forms\<close>

text \<open>The collator is a total preorder.\<close>

definition collation_ok :: "collation \<Rightarrow> bool" where
  "collation_ok collate \<longleftrightarrow> (\<forall>a b. collate a b \<or> collate b a) \<and> (\<forall>a b c. collate a b \<longrightarrow> collate b c \<longrightarrow> collate a c)"

definition stable :: "narTerm \<Rightarrow> bool" where
  "stable t \<longleftrightarrow> list_all (\<lambda>r. \<not> applies r t) TERM_REDUCERS"

fun normal :: "collation \<Rightarrow> narTerm \<Rightarrow> bool" where
  "normal collate (Atom s) = True"
| "normal collate (Compound k args) \<longleftrightarrow>
     list_all (normal collate) args \<and> rawCompound collate k args = Inr (Compound k args) \<and> stable (Compound k args)"

text \<open>The arities the constructor enforces.\<close>

fun legal :: "narTerm \<Rightarrow> bool" where
  "legal (Atom s) = True"
| "legal (Compound k args) \<longleftrightarrow>
     list_all legal args \<and> (k = Negation \<longrightarrow> length args = 1) \<and> (k \<in> {Sequence, OperationOp} \<longrightarrow> length args = 2)"

lemma js_sort_sorted_id:
  "sorted_wrt le xs \<Longrightarrow> js_sort le xs = xs"
proof (induction xs)
  case (Cons x xs)
  then show ?case by (cases xs) auto
qed simp

lemma ordered_args_idem:
  assumes "collation_ok collate"
  shows "ordered_args collate k (ordered_args collate k xs) = ordered_args collate k xs"
proof -
  have "sorted_wrt (canonicalOrder collate) (js_sort (canonicalOrder collate) xs)"
    using assms unfolding collation_ok_def canonicalOrder_def by (intro sorted_js_sort) blast+
  then show ?thesis by (simp add: ordered_args_def js_sort_sorted_id)
qed

lemma set_ordered_args [simp]: "set (ordered_args collate k xs) = set xs"
  by (simp add: ordered_args_def)

lemma mset_ordered_args [simp]: "mset (ordered_args collate k xs) = mset xs"
  by (simp add: ordered_args_def)

lemma length_ordered_args [simp]: "length (ordered_args collate k xs) = length xs"
  by (simp add: ordered_args_def)

lemma settle_stable:
  assumes "stable t" "0 < n"
  shows "settle collate n t = Inr t"
proof -
  have "list_all (\<lambda>r. \<not> applies r t) rs \<Longrightarrow> one_pass collate rs t = Inr t" for rs
    by (induction rs) auto
  then show ?thesis using assms by (cases n) (auto simp: stable_def)
qed

lemma map_results_Inr:
  "map_results f xs = Inr ys \<longleftrightarrow> list_all2 (\<lambda>x y. f x = Inr y) xs ys"
proof (induction xs arbitrary: ys)
  case (Cons x xs)
  note IH = Cons.IH
  show ?case
  proof (cases ys)
    case (Cons y ys')
    then show ?thesis using IH [of ys'] by (cases "f x"; cases "map_results f xs") auto
  qed (auto split: sum.splits)
qed auto

lemma map_results_id: "list_all (\<lambda>x. f x = Inr x) xs \<Longrightarrow> map_results f xs = Inr xs"
  by (induction xs) auto

lemma canonical_normal: "normal collate t \<Longrightarrow> canonicalTerm collate t = Inr t"
proof (induction t)
  case (Compound k args)
  have "map_results (canonicalTerm collate) args = Inr args"
    using Compound by (intro map_results_id) (auto simp: list_all_iff)
  then show ?case using Compound.prems settle_stable [of "Compound k args" MAX_PASSES collate]
    by (simp add: MAX_PASSES_def)
qed simp


section \<open>One pass is enough\<close>

lemma distinct_args_keys:
  "distinct (map termKey (distinct_args xs))" "set (distinct_args xs) \<subseteq> set xs"
  "termKey ` set (distinct_args xs) = termKey ` set xs"
  using uniqueBy_loop_keys [of termKey "[]" xs] by (simp_all add: distinct_args_def uniqueBy_def)

lemma unique_distinct: "length xs = length (unique xs) \<longleftrightarrow> distinct xs"
  by (metis card_distinct distinct_card distinct_unique set_unique)

lemma hasRepeatedArgs_iff [simp]: "hasRepeatedArgs (Compound k args) \<longleftrightarrow> \<not> distinct (map termKey args)"
  using unique_distinct [of "map termKey args"] by (simp add: hasRepeatedArgs_def)

text \<open>\<open>args_ok\<close>: normal arguments in the order and number the constructor leaves them in.\<close>

definition args_ok :: "collation \<Rightarrow> operatorKey \<Rightarrow> narTerm list \<Rightarrow> bool" where
  "args_ok collate k args \<longleftrightarrow> list_all (normal collate) args \<and> rawCompound collate k args = Inr (Compound k args)"

text \<open>\<open>almost\<close>: normal already, or a compound whose arguments satisfy \<open>P\<close>.\<close>

definition almost :: "collation \<Rightarrow> operatorKey \<Rightarrow> (narTerm list \<Rightarrow> bool) \<Rightarrow> narTerm \<Rightarrow> bool" where
  "almost collate k P t \<longleftrightarrow> normal collate t \<or> (\<exists>args. t = Compound k args \<and> args_ok collate k args \<and> P args)"

definition by_set :: "(narTerm list \<Rightarrow> bool) \<Rightarrow> bool" where
  "by_set P \<longleftrightarrow> (\<forall>xs ys. mset xs = mset ys \<longrightarrow> P xs \<longrightarrow> P ys)"

lemma rebuild_almost:
  assumes "collation_ok collate" "list_all (normal collate) args" "k \<in> set NARY_OPS" "by_set P" "P args"
  shows "\<exists>t. rawCompound collate k args = Inr t \<and> almost collate k P t"
proof (cases "compound_plan k args")
  case (Folds t)
  then have "normal collate t" using assms(2) by (cases args) (auto simp: compound_plan_def split: if_splits)
  then show ?thesis using Folds by (auto simp: rawCompound_def almost_def)
next
  case (Fails e)
  then show ?thesis using assms(3) by (auto simp: compound_plan_def split: if_splits)
next
  case (Builds valid)
  define args' where "args' = ordered_args collate k args"
  have k: "k \<noteq> OperationOp" using assms(3) by auto
  have v: "valid = args" using Builds by (simp add: compound_plan_def split: if_splits)
  have "compound_plan k args' = Builds args'"
    using Builds length_ordered_args [of collate k args]
    by (auto simp: compound_plan_def args'_def simp del: length_ordered_args split: if_splits)
  then have "rawCompound collate k args' = Inr (Compound k args')"
    using k ordered_args_idem [OF assms(1)] by (simp add: rawCompound_def args'_def)
  moreover have "list_all (normal collate) args'" using assms(2) by (simp add: args'_def list_all_iff)
  moreover have "P args'" using assms(4,5) mset_ordered_args [of collate k args] unfolding by_set_def args'_def by metis
  ultimately show ?thesis using Builds v k by (auto simp: rawCompound_def almost_def args_ok_def args'_def)
qed

definition step :: "collation \<Rightarrow> termReducer \<Rightarrow> narTerm \<Rightarrow> termError + narTerm" where
  "step collate r t = (if applies r t then reduce_term r collate t else Inr t)"

lemma one_pass_step:
  "one_pass collate (r # rs) t = (case step collate r t of Inl e \<Rightarrow> Inl e | Inr t' \<Rightarrow> one_pass collate rs t')"
  by (simp add: step_def)

lemma normal_not_applies: "normal collate t \<Longrightarrow> r \<in> set TERM_REDUCERS \<Longrightarrow> \<not> applies r t"
proof (cases t)
  case (Atom s)
  moreover assume "r \<in> set TERM_REDUCERS"
  ultimately show "\<not> applies r t"
    by (auto simp: TERM_REDUCERS_def flattenNested_def dedupeArgs_def conjunctionContradiction_def
        disjunctionTautology_def doubleNegation_def negateBool_def boolAbsorb_def)
qed (auto simp: stable_def list_all_iff)

lemma step_almost:
  assumes "almost collate k P t" "r \<in> set TERM_REDUCERS"
    and "\<And>args. args_ok collate k args \<Longrightarrow> P args \<Longrightarrow>
      if applies r (Compound k args) then \<exists>t'. reduce_term r collate (Compound k args) = Inr t' \<and> almost collate k P' t'
      else P' args"
  shows "\<exists>t'. step collate r t = Inr t' \<and> almost collate k P' t'"
proof (cases "normal collate t")
  case True
  then show ?thesis using normal_not_applies [OF True assms(2)] by (auto simp: step_def almost_def)
next
  case False
  then obtain args where t: "t = Compound k args" "args_ok collate k args" "P args"
    using assms(1) by (auto simp: almost_def)
  then show ?thesis using assms(3) [OF t(2,3)] by (auto simp: step_def almost_def split: if_splits)
qed

lemma step_same:
  assumes "almost collate k P t" "r \<in> set TERM_REDUCERS" "\<And>args. \<not> applies r (Compound k args)"
  shows "\<exists>t'. step collate r t = Inr t' \<and> almost collate k P t'"
  using step_almost [OF assms(1,2), of P] assms(3) by auto

text \<open>What the reducers establish of an argument list, one after the other.\<close>

definition no_nested :: "operatorKey \<Rightarrow> narTerm list \<Rightarrow> bool" where
  "no_nested k args \<longleftrightarrow> \<not> list_ex (isType k) args"

definition no_repeat :: "narTerm list \<Rightarrow> bool" where
  "no_repeat args \<longleftrightarrow> distinct (map termKey args)"

definition no_pair :: "narTerm list \<Rightarrow> bool" where
  "no_pair args \<longleftrightarrow> \<not> hasNegatedPair (Compound Conjunction args)"

definition lacks :: "boolSymbol \<Rightarrow> narTerm list \<Rightarrow> bool" where
  "lacks b args \<longleftrightarrow> Atom (bool_symbol b) \<notin> set args"

lemmas args_facts = no_nested_def no_repeat_def no_pair_def lacks_def

lemma hasNegatedPair_iff:
  "hasNegatedPair (Compound k args) \<longleftrightarrow>
     (\<exists>x y xs. x \<in> set args \<and> x = Compound Negation (y # xs) \<and> termKey y \<in> termKey ` set args)"
proof -
  have "(if \<not> isType Negation x then False
         else case getArgs x of [] \<Rightarrow> False | operand # _ \<Rightarrow> termKey operand \<in> set (map termKey args))
      \<longleftrightarrow> (\<exists>y xs. x = Compound Negation (y # xs) \<and> termKey y \<in> termKey ` set args)" for x
    by (cases x) (auto split: list.splits)
  then show ?thesis by (simp add: hasNegatedPair_def list_ex_iff Let_def) blast
qed

lemma no_pair_mono: "no_pair args \<Longrightarrow> set args' \<subseteq> set args \<Longrightarrow> no_pair args'"
  unfolding no_pair_def hasNegatedPair_iff by blast

lemma by_set_basic:
  "by_set (no_nested k)" "by_set no_repeat" "by_set no_pair" "by_set (lacks b)"
proof -
  show "by_set no_repeat"
    unfolding by_set_def no_repeat_def by (metis mset_eq_imp_distinct_iff mset_map)
  show "by_set no_pair"
    unfolding by_set_def by (metis no_pair_mono mset_eq_setD order_refl)
  show "by_set (no_nested k)" "by_set (lacks b)"
    by (auto simp: by_set_def no_nested_def lacks_def list_ex_iff dest!: mset_eq_setD)
qed

lemma by_set_conj: "by_set P \<Longrightarrow> by_set Q \<Longrightarrow> by_set (\<lambda>args. P args \<and> Q args)"
  unfolding by_set_def by blast

lemma hasNegatedPair_kind: "hasNegatedPair (Compound k args) = hasNegatedPair (Compound k' args)"
  by (simp add: hasNegatedPair_def)

lemma no_repeat_filter: "no_repeat args \<Longrightarrow> no_repeat (filter p args)"
  by (simp add: no_repeat_def distinct_map_filter)

lemma normal_args: "normal collate t \<Longrightarrow> list_all (normal collate) (getArgs t)"
  by (cases t) auto

lemma normal_no_nested:
  assumes "normal collate (Compound k args)" "k \<in> set NARY_OPS"
  shows "no_nested k args"
proof -
  have "\<not> applies flattenNested (Compound k args)"
    using normal_not_applies [OF assms(1)] by (simp add: TERM_REDUCERS_def)
  then show ?thesis using assms(2) by (auto simp: flattenNested_def FLATTENED_def no_nested_def)
qed

definition flat_args :: "operatorKey \<Rightarrow> narTerm list \<Rightarrow> narTerm list" where
  "flat_args k args = concat (map (\<lambda>arg. if isType k arg then getArgs arg else [arg]) args)"

lemma flat_args_ok:
  assumes "list_all (normal collate) args" "k \<in> set NARY_OPS"
  shows "list_all (normal collate) (flat_args k args) \<and> no_nested k (flat_args k args)"
  using assms(1)
proof (induction args)
  case (Cons x xs)
  show ?case
  proof (cases "isType k x")
    case True
    then obtain ys where x: "x = Compound k ys" by (cases x) auto
    have "normal collate (Compound k ys)" using Cons.prems x by simp
    then have "list_all (normal collate) ys" "no_nested k ys"
      using assms(2) by (simp, rule normal_no_nested)
    then show ?thesis using Cons x by (simp add: flat_args_def no_nested_def)
  qed (use Cons in \<open>simp add: flat_args_def no_nested_def\<close>)
qed (simp add: flat_args_def no_nested_def)

lemma flatten_step:
  assumes "collation_ok collate" "k \<in> set NARY_OPS" "almost collate k (\<lambda>_. True) t"
  shows "\<exists>t'. step collate flattenNested t = Inr t' \<and> almost collate k (no_nested k) t'"
proof (rule step_almost [OF assms(3)])
  fix args assume ok: "args_ok collate k args"
  then have f: "list_all (normal collate) (flat_args k args)" "no_nested k (flat_args k args)"
    using flat_args_ok assms(2) by (auto simp: args_ok_def)
  have "reduce_term flattenNested collate (Compound k args) = rawCompound collate k (flat_args k args)"
    by (simp add: flattenNested_def rebuild_as_def flat_args_def)
  moreover have a: "applies flattenNested (Compound k args) \<longleftrightarrow> \<not> no_nested k args"
    using assms(2) by (auto simp: flattenNested_def FLATTENED_def no_nested_def)
  ultimately show "if applies flattenNested (Compound k args)
      then \<exists>t'. reduce_term flattenNested collate (Compound k args) = Inr t' \<and> almost collate k (no_nested k) t'
      else no_nested k args"
    using rebuild_almost [OF assms(1) f(1) assms(2) by_set_basic(1) f(2)] a by simp
qed (simp add: TERM_REDUCERS_def)

lemma dedupe_step:
  assumes "collation_ok collate" "k \<in> set DEDUPED" "almost collate k (no_nested k) t"
  shows "\<exists>t'. step collate dedupeArgs t = Inr t' \<and> almost collate k (\<lambda>args. no_nested k args \<and> no_repeat args) t'"
proof (rule step_almost [OF assms(3)])
  fix args assume ok: "args_ok collate k args" "no_nested k args"
  note d = distinct_args_keys [of args]
  have f: "list_all (normal collate) (distinct_args args)" "no_nested k (distinct_args args)" "no_repeat (distinct_args args)"
    using ok d by (auto simp: args_ok_def list_all_iff args_facts list_ex_iff)
  have k: "k \<in> set NARY_OPS" using assms(2) by (simp add: DEDUPED_def)
  have "reduce_term dedupeArgs collate (Compound k args) = rawCompound collate k (distinct_args args)"
    by (simp add: dedupeArgs_def rebuild_as_def)
  moreover have a: "applies dedupeArgs (Compound k args) \<longleftrightarrow> \<not> no_repeat args"
    using assms(2) by (simp add: dedupeArgs_def no_repeat_def)
  ultimately show "if applies dedupeArgs (Compound k args)
      then \<exists>t'. reduce_term dedupeArgs collate (Compound k args) = Inr t'
        \<and> almost collate k (\<lambda>args. no_nested k args \<and> no_repeat args) t'
      else no_nested k args \<and> no_repeat args"
    using rebuild_almost [OF assms(1) f(1) k by_set_conj [OF by_set_basic(1,2)]] f(2,3) ok a by simp
qed (simp add: TERM_REDUCERS_def)

lemma const_step:
  assumes "almost collate k P t" "r \<in> set TERM_REDUCERS"
    and "\<And>args. reduce_term r collate (Compound k args) = Inr (Atom s)"
    and "\<And>args. P args \<Longrightarrow> \<not> applies r (Compound k args) \<Longrightarrow> P' args"
  shows "\<exists>t'. step collate r t = Inr t' \<and> almost collate k (\<lambda>args. P args \<and> P' args) t'"
proof (rule step_almost [OF assms(1,2)])
  have "almost collate k Q (Atom s)" for Q by (simp add: almost_def)
  then show "if applies r (Compound k args)
      then \<exists>t'. reduce_term r collate (Compound k args) = Inr t' \<and> almost collate k (\<lambda>args. P args \<and> P' args) t'
      else P args \<and> P' args" if "P args" for args
    using assms(3) [of args] assms(4) [OF that] that by simp
qed

lemma drop_step:
  assumes "collation_ok collate" "almost collate k P t" "boolAbsorb ident k b False \<in> set TERM_REDUCERS"
    and "k \<in> set NARY_OPS" "by_set P" "\<And>args. P args \<Longrightarrow> P (filter (\<lambda>x. x \<noteq> Atom (bool_symbol b)) args)"
  shows "\<exists>t'. step collate (boolAbsorb ident k b False) t = Inr t' \<and> almost collate k (\<lambda>args. P args \<and> lacks b args) t'"
proof (rule step_almost [OF assms(2,3)])
  fix args assume ok: "args_ok collate k args" "P args"
  let ?kept = "filter (\<lambda>x. x \<noteq> Atom (bool_symbol b)) args"
  have n: "list_all (normal collate) ?kept" using ok by (auto simp: args_ok_def list_all_iff)
  have p: "P ?kept \<and> lacks b ?kept" using assms(6) ok(2) by (simp add: lacks_def)
  have a: "applies (boolAbsorb ident k b False) (Compound k args) \<longleftrightarrow> \<not> lacks b args"
    by (auto simp: boolAbsorb_def lacks_def list_ex_iff)
  have r: "reduce_term (boolAbsorb ident k b False) collate (Compound k args) = rawCompound collate k ?kept"
    by (simp add: boolAbsorb_def)
  show "if applies (boolAbsorb ident k b False) (Compound k args)
      then \<exists>t'. reduce_term (boolAbsorb ident k b False) collate (Compound k args) = Inr t'
        \<and> almost collate k (\<lambda>args. P args \<and> lacks b args) t'
      else P args \<and> lacks b args"
    using rebuild_almost [OF assms(1) n assms(4) by_set_conj [OF assms(5) by_set_basic(4)] p] ok(2) a r by simp
qed

lemma other_kind:
  "k \<noteq> Conjunction \<Longrightarrow> \<not> applies conjunctionContradiction (Compound k args)"
  "k \<noteq> Disjunction \<Longrightarrow> \<not> applies disjunctionTautology (Compound k args)"
  "k \<noteq> Negation \<Longrightarrow> \<not> applies doubleNegation (Compound k args)"
  "k \<noteq> Negation \<Longrightarrow> \<not> applies (negateBool b) (Compound k args)"
  "k \<noteq> k' \<Longrightarrow> \<not> applies (boolAbsorb ident k' b ab) (Compound k args)"
  "k \<notin> set DEDUPED \<Longrightarrow> \<not> applies dedupeArgs (Compound k args)"
  "k \<notin> set NARY_OPS \<Longrightarrow> \<not> applies flattenNested (Compound k args)"
  by (auto simp: conjunctionContradiction_def disjunctionTautology_def doubleNegation_def negateBool_def
      boolAbsorb_def dedupeArgs_def flattenNested_def FLATTENED_def split: operatorKey.splits)

lemma in_reducers:
  "flattenNested \<in> set TERM_REDUCERS" "dedupeArgs \<in> set TERM_REDUCERS"
  "conjunctionContradiction \<in> set TERM_REDUCERS" "disjunctionTautology \<in> set TERM_REDUCERS"
  "doubleNegation \<in> set TERM_REDUCERS" "negateBool TrueSym \<in> set TERM_REDUCERS" "negateBool FalseSym \<in> set TERM_REDUCERS"
  "boolAbsorb ''conjunction-true'' Conjunction TrueSym False \<in> set TERM_REDUCERS"
  "boolAbsorb ''conjunction-false'' Conjunction FalseSym True \<in> set TERM_REDUCERS"
  "boolAbsorb ''disjunction-true'' Disjunction TrueSym True \<in> set TERM_REDUCERS"
  "boolAbsorb ''disjunction-false'' Disjunction FalseSym False \<in> set TERM_REDUCERS"
  by (simp_all add: TERM_REDUCERS_def)

lemma DEDUPED_iff: "k \<in> set DEDUPED \<longleftrightarrow> k \<in> {Conjunction, Disjunction, Parallel}"
  by (auto simp: DEDUPED_def)

text \<open>No reducer applies once its own condition is established.\<close>

lemma stable_iff:
  "stable (Compound k args) \<longleftrightarrow>
     (k \<in> set NARY_OPS \<longrightarrow> no_nested k args) \<and> (k \<in> set DEDUPED \<longrightarrow> no_repeat args)
     \<and> (k \<in> {Conjunction, Disjunction} \<longrightarrow> no_pair args \<and> lacks TrueSym args \<and> lacks FalseSym args)
     \<and> (k = Negation \<longrightarrow> (case args of [] \<Rightarrow> True
          | Atom s # _ \<Rightarrow> s \<noteq> ''TRUE'' \<and> s \<noteq> ''FALSE'' | Compound k' _ # _ \<Rightarrow> k' \<noteq> Negation))"
proof -
  have f1: "applies flattenNested (Compound k args) \<longleftrightarrow> k \<in> set NARY_OPS \<and> \<not> no_nested k args"
    by (auto simp: flattenNested_def FLATTENED_def no_nested_def)
  have f2: "applies dedupeArgs (Compound k args) \<longleftrightarrow> k \<in> set DEDUPED \<and> \<not> no_repeat args"
    by (simp add: dedupeArgs_def no_repeat_def)
  have f3: "applies conjunctionContradiction (Compound k args) \<longleftrightarrow> k = Conjunction \<and> \<not> no_pair args"
    by (auto simp: conjunctionContradiction_def no_pair_def)
  have f4: "applies disjunctionTautology (Compound k args) \<longleftrightarrow> k = Disjunction \<and> \<not> no_pair args"
    using hasNegatedPair_kind [of k args Conjunction] by (auto simp: disjunctionTautology_def no_pair_def)
  have f5: "applies (boolAbsorb ident k' b ab) (Compound k args) \<longleftrightarrow> k = k' \<and> \<not> lacks b args" for ident k' b ab
    by (auto simp: boolAbsorb_def lacks_def list_ex_iff)
  have f6: "applies doubleNegation (Compound k args) \<or> applies (negateBool TrueSym) (Compound k args)
      \<or> applies (negateBool FalseSym) (Compound k args)
      \<longleftrightarrow> \<not> (k = Negation \<longrightarrow> (case args of [] \<Rightarrow> True
          | Atom s # _ \<Rightarrow> s \<noteq> ''TRUE'' \<and> s \<noteq> ''FALSE'' | Compound k' _ # _ \<Rightarrow> k' \<noteq> Negation))"
  proof (cases "k = Negation")
    case True
    then show ?thesis
      by (cases args; cases "hd args")
        (auto simp: doubleNegation_def negateBool_def split: operatorKey.splits)
  next
    case False
    then show ?thesis by (simp add: other_kind)
  qed
  have "stable (Compound k args) \<longleftrightarrow>
      \<not> (k \<in> set NARY_OPS \<and> \<not> no_nested k args) \<and> \<not> (k \<in> set DEDUPED \<and> \<not> no_repeat args)
      \<and> \<not> (k = Conjunction \<and> \<not> no_pair args) \<and> \<not> (k = Disjunction \<and> \<not> no_pair args)
      \<and> \<not> (applies doubleNegation (Compound k args) \<or> applies (negateBool TrueSym) (Compound k args)
          \<or> applies (negateBool FalseSym) (Compound k args))
      \<and> \<not> (k = Conjunction \<and> \<not> lacks TrueSym args) \<and> \<not> (k = Conjunction \<and> \<not> lacks FalseSym args)
      \<and> \<not> (k = Disjunction \<and> \<not> lacks TrueSym args) \<and> \<not> (k = Disjunction \<and> \<not> lacks FalseSym args)"
    unfolding stable_def TERM_REDUCERS_def list.pred_inject(2) f1 f2 f3 f4 f5
    by (simp only: de_Morgan_disj conj_assoc simp_thms list.pred_inject)
  then show ?thesis unfolding f6 by (simp only: insert_iff empty_iff) blast
qed

lemma almost_normal:
  "almost collate k P t \<Longrightarrow> (\<And>args. P args \<Longrightarrow> stable (Compound k args)) \<Longrightarrow> normal collate t"
  by (auto simp: almost_def args_ok_def)

lemma one_pass_conjunction:
  assumes c: "collation_ok collate" and t: "almost collate Conjunction (\<lambda>_. True) t"
  shows "\<exists>u. one_pass collate TERM_REDUCERS t = Inr u \<and> normal collate u"
proof -
  have n: "Conjunction \<in> set NARY_OPS" "Conjunction \<in> set DEDUPED" by (simp_all add: DEDUPED_iff)
  obtain t1 where 1: "step collate flattenNested t = Inr t1" "almost collate Conjunction (no_nested Conjunction) t1"
    using flatten_step [OF c n(1) t] by blast
  let ?P2 = "\<lambda>args. no_nested Conjunction args \<and> no_repeat args"
  obtain t2 where 2: "step collate dedupeArgs t1 = Inr t2" "almost collate Conjunction ?P2 t2"
    using dedupe_step [OF c n(2) 1(2)] by blast
  let ?P3 = "\<lambda>args. ?P2 args \<and> no_pair args"
  obtain t3 where 3: "step collate conjunctionContradiction t2 = Inr t3" "almost collate Conjunction ?P3 t3"
    using const_step [where P' = no_pair and s = "''FALSE''", OF 2(2) in_reducers(3)]
    by (auto simp: conjunctionContradiction_def no_pair_def)
  obtain t4 where 4: "step collate disjunctionTautology t3 = Inr t4" "almost collate Conjunction ?P3 t4"
    using step_same [OF 3(2) in_reducers(4) other_kind(2)] by auto
  obtain t5 where 5: "step collate doubleNegation t4 = Inr t5" "almost collate Conjunction ?P3 t5"
    using step_same [OF 4(2) in_reducers(5) other_kind(3)] by auto
  obtain t6 where 6: "step collate (negateBool TrueSym) t5 = Inr t6" "almost collate Conjunction ?P3 t6"
    using step_same [OF 5(2) in_reducers(6) other_kind(4)] by auto
  obtain t7 where 7: "step collate (negateBool FalseSym) t6 = Inr t7" "almost collate Conjunction ?P3 t7"
    using step_same [OF 6(2) in_reducers(7) other_kind(4)] by auto
  have b: "by_set ?P3" by (intro by_set_conj by_set_basic)
  have fl: "?P3 args \<Longrightarrow> ?P3 (filter p args)" for args p
    using no_repeat_filter no_pair_mono [of args "filter p args"] by (auto simp: no_nested_def list_ex_iff)
  obtain t8 where 8: "step collate (boolAbsorb ''conjunction-true'' Conjunction TrueSym False) t7 = Inr t8"
      "almost collate Conjunction (\<lambda>args. ?P3 args \<and> lacks TrueSym args) t8"
    using drop_step [OF c 7(2) in_reducers(8) n(1) b fl] by blast
  obtain t9 where 9: "step collate (boolAbsorb ''conjunction-false'' Conjunction FalseSym True) t8 = Inr t9"
      "almost collate Conjunction (\<lambda>args. (?P3 args \<and> lacks TrueSym args) \<and> lacks FalseSym args) t9"
    using const_step [where P' = "lacks FalseSym" and s = "''FALSE''", OF 8(2) in_reducers(9)]
    by (auto simp: boolAbsorb_def lacks_def list_ex_iff)
  obtain t10 where 10: "step collate (boolAbsorb ''disjunction-true'' Disjunction TrueSym True) t9 = Inr t10"
      "almost collate Conjunction (\<lambda>args. (?P3 args \<and> lacks TrueSym args) \<and> lacks FalseSym args) t10"
    using step_same [OF 9(2) in_reducers(10) other_kind(5)] by auto
  obtain t11 where 11: "step collate (boolAbsorb ''disjunction-false'' Disjunction FalseSym False) t10 = Inr t11"
      "almost collate Conjunction (\<lambda>args. (?P3 args \<and> lacks TrueSym args) \<and> lacks FalseSym args) t11"
    using step_same [OF 10(2) in_reducers(11) other_kind(5)] by auto
  have "one_pass collate TERM_REDUCERS t = Inr t11"
    unfolding TERM_REDUCERS_def one_pass_step 1(1) 2(1) 3(1) 4(1) 5(1) 6(1) 7(1) 8(1) 9(1) 10(1) 11(1) sum.case
    by simp
  moreover have "normal collate t11"
    by (rule almost_normal [OF 11(2)]) (simp add: stable_iff DEDUPED_iff)
  ultimately show ?thesis by blast
qed

lemma one_pass_disjunction:
  assumes c: "collation_ok collate" and t: "almost collate Disjunction (\<lambda>_. True) t"
  shows "\<exists>u. one_pass collate TERM_REDUCERS t = Inr u \<and> normal collate u"
proof -
  have n: "Disjunction \<in> set NARY_OPS" "Disjunction \<in> set DEDUPED" by (simp_all add: DEDUPED_iff)
  obtain t1 where 1: "step collate flattenNested t = Inr t1" "almost collate Disjunction (no_nested Disjunction) t1"
    using flatten_step [OF c n(1) t] by blast
  let ?P2 = "\<lambda>args. no_nested Disjunction args \<and> no_repeat args"
  obtain t2 where 2: "step collate dedupeArgs t1 = Inr t2" "almost collate Disjunction ?P2 t2"
    using dedupe_step [OF c n(2) 1(2)] by blast
  obtain t3 where 3: "step collate conjunctionContradiction t2 = Inr t3" "almost collate Disjunction ?P2 t3"
    using step_same [OF 2(2) in_reducers(3) other_kind(1)] by auto
  let ?P4 = "\<lambda>args. ?P2 args \<and> no_pair args"
  obtain t4 where 4: "step collate disjunctionTautology t3 = Inr t4" "almost collate Disjunction ?P4 t4"
    using const_step [where P' = no_pair and s = "''TRUE''", OF 3(2) in_reducers(4)] hasNegatedPair_kind
    by (auto simp: disjunctionTautology_def no_pair_def)
  obtain t5 where 5: "step collate doubleNegation t4 = Inr t5" "almost collate Disjunction ?P4 t5"
    using step_same [OF 4(2) in_reducers(5) other_kind(3)] by auto
  obtain t6 where 6: "step collate (negateBool TrueSym) t5 = Inr t6" "almost collate Disjunction ?P4 t6"
    using step_same [OF 5(2) in_reducers(6) other_kind(4)] by auto
  obtain t7 where 7: "step collate (negateBool FalseSym) t6 = Inr t7" "almost collate Disjunction ?P4 t7"
    using step_same [OF 6(2) in_reducers(7) other_kind(4)] by auto
  obtain t8 where 8: "step collate (boolAbsorb ''conjunction-true'' Conjunction TrueSym False) t7 = Inr t8"
      "almost collate Disjunction ?P4 t8"
    using step_same [OF 7(2) in_reducers(8) other_kind(5)] by auto
  obtain t9 where 9: "step collate (boolAbsorb ''conjunction-false'' Conjunction FalseSym True) t8 = Inr t9"
      "almost collate Disjunction ?P4 t9"
    using step_same [OF 8(2) in_reducers(9) other_kind(5)] by auto
  let ?P10 = "\<lambda>args. ?P4 args \<and> lacks TrueSym args"
  obtain t10 where 10: "step collate (boolAbsorb ''disjunction-true'' Disjunction TrueSym True) t9 = Inr t10"
      "almost collate Disjunction ?P10 t10"
    using const_step [where P' = "lacks TrueSym" and s = "''TRUE''", OF 9(2) in_reducers(10)]
    by (auto simp: boolAbsorb_def lacks_def list_ex_iff)
  have b: "by_set ?P10" by (intro by_set_conj by_set_basic)
  have fl: "?P10 args \<Longrightarrow> ?P10 (filter p args)" for args p
    using no_repeat_filter no_pair_mono [of args "filter p args"] by (auto simp: no_nested_def lacks_def list_ex_iff)
  obtain t11 where 11: "step collate (boolAbsorb ''disjunction-false'' Disjunction FalseSym False) t10 = Inr t11"
      "almost collate Disjunction (\<lambda>args. ?P10 args \<and> lacks FalseSym args) t11"
    using drop_step [OF c 10(2) in_reducers(11) n(1) b fl] by blast
  have "one_pass collate TERM_REDUCERS t = Inr t11"
    unfolding TERM_REDUCERS_def one_pass_step 1(1) 2(1) 3(1) 4(1) 5(1) 6(1) 7(1) 8(1) 9(1) 10(1) 11(1) sum.case
    by simp
  moreover have "normal collate t11"
    by (rule almost_normal [OF 11(2)]) (simp add: stable_iff DEDUPED_iff)
  ultimately show ?thesis by blast
qed

lemma one_pass_other:
  assumes c: "collation_ok collate" and k: "k \<in> {Parallel, ProductOp}" and t: "almost collate k (\<lambda>_. True) t"
  shows "\<exists>u. one_pass collate TERM_REDUCERS t = Inr u \<and> normal collate u"
proof -
  have n: "k \<in> set NARY_OPS" "k \<noteq> Conjunction" "k \<noteq> Disjunction" "k \<noteq> Negation" using k by auto
  obtain t1 where 1: "step collate flattenNested t = Inr t1" "almost collate k (no_nested k) t1"
    using flatten_step [OF c n(1) t] by blast
  let ?P = "\<lambda>args. no_nested k args \<and> (k = Parallel \<longrightarrow> no_repeat args)"
  obtain t2 where 2: "step collate dedupeArgs t1 = Inr t2" "almost collate k ?P t2"
  proof (cases "k = Parallel")
    case True
    then show ?thesis using dedupe_step [OF c _ 1(2)] that by (auto simp: DEDUPED_iff)
  next
    case False
    then show ?thesis using step_same [OF 1(2) in_reducers(2) other_kind(6)] that k by (auto simp: DEDUPED_iff)
  qed
  have "one_pass collate rs t2 = Inr t2" if "\<forall>r \<in> set rs. r \<in> set (tl (tl TERM_REDUCERS))" for rs
    using that
  proof (induction rs)
    case (Cons r rs)
    then have "r \<in> set TERM_REDUCERS" "\<And>args. \<not> applies r (Compound k args)"
      using n by (auto simp: TERM_REDUCERS_def other_kind)
    then have "\<not> applies r t2" using 2(2) normal_not_applies by (auto simp: almost_def)
    then show ?case using Cons by simp
  qed simp
  then have "one_pass collate (tl (tl TERM_REDUCERS)) t2 = Inr t2" by blast
  moreover have "TERM_REDUCERS = flattenNested # dedupeArgs # tl (tl TERM_REDUCERS)"
    by (simp add: TERM_REDUCERS_def)
  ultimately have "one_pass collate TERM_REDUCERS t = Inr t2"
    using 1(1) 2(1) by (metis one_pass_step sum.simps(6))
  moreover have "normal collate t2"
    using 2(2) by (rule almost_normal) (use k in \<open>auto simp: stable_iff DEDUPED_iff\<close>)
  ultimately show ?thesis by blast
qed

lemma one_pass_skips:
  "list_all (\<lambda>r. \<not> applies r t) rs \<Longrightarrow> one_pass collate (rs @ rs') t = one_pass collate rs' t"
  by (induction rs) auto

lemma one_pass_normal: "normal collate t \<Longrightarrow> one_pass collate rs t = Inr t" if "set rs \<subseteq> set TERM_REDUCERS"
  using that normal_not_applies one_pass_skips [of t rs collate "[]"] by (auto simp: list_all_iff)

lemma one_pass_negation:
  assumes "normal collate x"
  shows "\<exists>u. one_pass collate TERM_REDUCERS (Compound Negation [x]) = Inr u \<and> normal collate u"
proof -
  let ?t = "Compound Negation [x]"
  have skip: "one_pass collate TERM_REDUCERS ?t = one_pass collate (drop 4 TERM_REDUCERS) ?t"
    using one_pass_skips [of ?t "take 4 TERM_REDUCERS" collate "drop 4 TERM_REDUCERS"]
    by (simp add: TERM_REDUCERS_def other_kind DEDUPED_iff)
  have rest: "normal collate u \<Longrightarrow> one_pass collate (drop n TERM_REDUCERS) u = Inr u" for u n
    by (rule one_pass_normal) (auto dest: in_set_dropD)
  show ?thesis
  proof (cases "stable ?t")
    case True
    then have "one_pass collate TERM_REDUCERS ?t = Inr ?t"
      using one_pass_skips [of ?t TERM_REDUCERS collate "[]"] by (simp add: stable_def)
    then show ?thesis using True assms by (simp add: rawCompound_def compound_plan_def ordered_args_def)
  next
    case unstable: False
    show ?thesis
    proof (cases x)
      case (Atom s)
      then consider "s = ''TRUE''" | "s = ''FALSE''" using unstable by (auto simp: stable_iff DEDUPED_iff)
      then show ?thesis
      proof cases
        case 1
        then have "one_pass collate TERM_REDUCERS ?t = one_pass collate (drop 6 TERM_REDUCERS) (Atom ''FALSE'')"
          using Atom unfolding skip by (simp add: TERM_REDUCERS_def doubleNegation_def negateBool_def del: one_pass.simps(1))
        then show ?thesis using rest [of "Atom ''FALSE''" 6] by simp
      next
        case 2
        then have "one_pass collate TERM_REDUCERS ?t = one_pass collate (drop 7 TERM_REDUCERS) (Atom ''TRUE'')"
          using Atom unfolding skip by (simp add: TERM_REDUCERS_def doubleNegation_def negateBool_def del: one_pass.simps(1))
        then show ?thesis using rest [of "Atom ''TRUE''" 7] by simp
      qed
    next
      case (Compound k args)
      then have k: "k = Negation" using unstable by (auto simp: stable_iff DEDUPED_iff)
      then obtain y where y: "args = [y]" "normal collate y"
        using assms Compound by (auto simp: rawCompound_def compound_plan_def length_Suc_conv split: if_splits)
      then have "one_pass collate TERM_REDUCERS ?t = one_pass collate (drop 5 TERM_REDUCERS) y"
        using Compound k unfolding skip by (simp add: TERM_REDUCERS_def doubleNegation_def del: one_pass.simps(1))
      then show ?thesis using rest [OF y(2), of 5] y(2) by simp
    qed
  qed
qed

text \<open>One pass over a compound of normal arguments reaches the normal form.\<close>

lemma one_pass_reaches:
  assumes c: "collation_ok collate" and a: "list_all (normal collate) args" and r: "rawCompound collate k args = Inr t"
  shows "\<exists>u. one_pass collate TERM_REDUCERS t = Inr u \<and> normal collate u"
proof -
  have nary: "almost collate k (\<lambda>_. True) t" if "k \<in> set NARY_OPS"
    using rebuild_almost [OF c a that, of "\<lambda>_. True"] r by (auto simp: by_set_def)
  consider "k = Conjunction" | "k = Disjunction" | "k \<in> {Parallel, ProductOp}" | "k = Negation"
    | "k \<notin> set NARY_OPS" "k \<noteq> Negation" by auto
  then show ?thesis
  proof cases
    case 4
    then obtain x where "args = [x]" "t = Compound Negation [x]"
      using r by (auto simp: rawCompound_def compound_plan_def ordered_args_def length_Suc_conv split: if_splits)
    then show ?thesis using one_pass_negation [of collate x] a by simp
  next
    case 5
    define valid where "valid = (if k = OperationOp \<and> \<not> isType ProductOp (args ! 1)
      then [args ! 0, Compound ProductOp [args ! 1]] else args)"
    have plan: "compound_plan k args = Builds args" "k = OperationOp \<Longrightarrow> length args = 2"
      using r 5 by (auto simp: rawCompound_def compound_plan_def split: if_splits)
    have t: "t = Compound k (ordered_args collate k valid)"
      using r plan(1) by (simp add: rawCompound_def valid_def)
    have product: "normal collate (Compound ProductOp [x])" if "normal collate x" "\<not> isType ProductOp x" for x
      using that by (simp add: rawCompound_def compound_plan_def ordered_args_def stable_iff DEDUPED_iff no_nested_def)
    have n: "list_all (normal collate) valid"
      using a plan(2) product [of "args ! 1"] by (auto simp: valid_def list_all_iff)
    have op: "k = OperationOp \<Longrightarrow> isType ProductOp (valid ! 1)"
      by (auto simp: valid_def)
    have len: "length valid = length args" using plan(2) by (simp add: valid_def)
    then have "compound_plan k (ordered_args collate k valid) = Builds (ordered_args collate k valid)"
      using plan(1) 5 by (auto simp: compound_plan_def split: if_splits)
    then have "rawCompound collate k (ordered_args collate k valid) = Inr t"
      using t op ordered_args_idem [OF c, of k valid] by (auto simp: rawCompound_def ordered_args_def)
    then have "normal collate t"
      using n 5 t by (auto simp: list_all_iff stable_iff DEDUPED_iff)
    then show ?thesis using one_pass_normal [of TERM_REDUCERS collate t] by simp
  qed (use one_pass_conjunction [OF c] one_pass_disjunction [OF c] one_pass_other [OF c] nary in auto)
qed

section \<open>Canonical forms\<close>

lemma rawCompound_total:
  "(\<exists>t. rawCompound collate k args = Inr t) \<longleftrightarrow>
     (k = Negation \<longrightarrow> length args = 1) \<and> (k \<in> {Sequence, OperationOp} \<longrightarrow> length args = 2)"
  by (auto simp: rawCompound_def compound_plan_def)

lemma canonical_reaches:
  assumes "collation_ok collate"
  shows "legal t \<Longrightarrow> \<exists>u. canonicalTerm collate t = Inr u \<and> normal collate u"
proof (induction t)
  case (Compound k args)
  then have "\<forall>x \<in> set args. \<exists>u. canonicalTerm collate x = Inr u \<and> normal collate u"
    by (auto simp: list_all_iff)
  then obtain g where g: "\<forall>x \<in> set args. canonicalTerm collate x = Inr (g x) \<and> normal collate (g x)"
    by metis
  have m: "map_results (canonicalTerm collate) args = Inr (map g args)"
    using g by (auto simp: map_results_Inr list_all2_conv_all_nth)
  obtain t where t: "rawCompound collate k (map g args) = Inr t"
    using rawCompound_total [of collate k "map g args"] Compound.prems by auto
  have "list_all (normal collate) (map g args)" using g by (simp add: list_all_iff)
  from one_pass_reaches [OF assms this t] obtain u where
    u: "one_pass collate TERM_REDUCERS t = Inr u" "normal collate u" by blast
  have "settle collate 7 u = Inr u"
    using u(2) normal_not_applies settle_stable [of u 7] by (simp add: stable_def list_all_iff)
  then have "settle collate MAX_PASSES t = Inr u"
    using u by (simp add: MAX_PASSES_def eval_nat_numeral split: if_splits)
  then show ?case using m t u(2) by simp
qed simp

lemma canonical_legal: "canonicalTerm collate t = Inr u \<Longrightarrow> legal t"
proof (induction t arbitrary: u)
  case (Compound k args)
  obtain args' t where a: "map_results (canonicalTerm collate) args = Inr args'"
    and r: "rawCompound collate k args' = Inr t"
    using Compound.prems by (auto split: sum.splits)
  have "legal (args ! i)" if "i < length args" for i
    using a that Compound.IH [OF nth_mem [OF that]] by (auto simp: map_results_Inr list_all2_conv_all_nth)
  then have "\<forall>x \<in> set args. legal x" by (auto simp: in_set_conv_nth)
  moreover have "length args' = length args" using a by (auto simp: map_results_Inr dest: list_all2_lengthD)
  ultimately show ?case using r rawCompound_total [of collate k args'] by (auto simp: list_all_iff)
qed simp

lemma normal_nodes:
  "normal collate t \<Longrightarrow> x \<in> set (preorder t) \<Longrightarrow> normal collate x"
  by (induction t) (auto simp: list_all_iff)

text \<open>The only errors are the constructor's, of an operator with the wrong number of arguments.\<close>

lemma map_results_Inl:
  "map_results f xs = Inl e \<Longrightarrow> \<exists>x \<in> set xs. f x = Inl e"
  by (induction xs) (auto split: sum.splits)

lemma rawCompound_error:
  "rawCompound collate k args = Inl e \<Longrightarrow> k \<in> {Negation, Sequence, OperationOp} \<and> (\<exists>n. e = WrongArity k n)"
  by (auto simp: rawCompound_def compound_plan_def split: if_splits)

lemma canonical_error:
  assumes "collation_ok collate"
  shows "canonicalTerm collate t = Inl e \<Longrightarrow> \<exists>k n. k \<in> {Negation, Sequence, OperationOp} \<and> e = WrongArity k n"
proof (induction t)
  case (Compound k args)
  show ?case
  proof (cases "map_results (canonicalTerm collate) args")
    case (Inl e')
    then have "\<exists>x \<in> set args. canonicalTerm collate x = Inl e'" by (rule map_results_Inl)
    then obtain x where x: "x \<in> set args" "canonicalTerm collate x = Inl e'" by (elim bexE)
    have "e' = e" using Compound.prems Inl by simp
    then show ?thesis using Compound.IH [OF x(1)] x(2) by blast
  next
    case (Inr args')
    have n: "list_all (normal collate) args'"
    proof (clarsimp simp: list_all_length)
      fix i assume i: "i < length args'"
      then have "canonicalTerm collate (args ! i) = Inr (args' ! i)"
        using Inr by (auto simp: map_results_Inr list_all2_conv_all_nth)
      then show "normal collate (args' ! i)" using canonical_reaches [OF assms canonical_legal] by fastforce
    qed
    show ?thesis
    proof (cases "rawCompound collate k args'")
      case (Inl e')
      then show ?thesis using Compound.prems Inr rawCompound_error [OF Inl] by auto
    next
      case r: (Inr t)
      from one_pass_reaches [OF assms n r] obtain u where
        u: "one_pass collate TERM_REDUCERS t = Inr u" "normal collate u" by blast
      have "settle collate 7 u = Inr u"
        using u(2) normal_not_applies settle_stable [of u 7] by (simp add: stable_def list_all_iff)
      then have "settle collate MAX_PASSES t = Inr u"
        using u by (simp add: MAX_PASSES_def eval_nat_numeral split: if_splits)
      then show ?thesis using Compound.prems Inr r by simp
    qed
  qed
qed simp

text \<open>The specification is total on the terms whose negations, sequences and operations have the
  arity the constructor wants: the form is found well within the eight passes, no reducer applies at
  any of its nodes and it is its own canonical form. Any other term makes the constructor throw.\<close>

lemma canonical_form_total:
  assumes "collation_ok collate"
  shows "if legal t
    then \<exists>u. canonicalTerm collate t = Inr u \<and> canonicalTerm collate u = Inr u
           \<and> (\<forall>x \<in> set (preorder u). \<forall>r \<in> set TERM_REDUCERS. \<not> applies r x)
    else \<exists>k n. k \<in> {Negation, Sequence, OperationOp} \<and> canonicalTerm collate t = Inl (WrongArity k n)"
proof (cases "legal t")
  case True
  then obtain u where u: "canonicalTerm collate t = Inr u" "normal collate u"
    using canonical_reaches [OF assms] by blast
  then show ?thesis using True canonical_normal normal_nodes normal_not_applies by fastforce
next
  case False
  then obtain e where e: "canonicalTerm collate t = Inl e"
    using canonical_legal [of collate t] by (cases "canonicalTerm collate t") auto
  then show ?thesis using canonical_error [OF assms e] False by auto
qed

lemma trivial_collation: "collation_ok (\<lambda>a b. True)"
  by (simp add: collation_ok_def)

section \<open>Meaning\<close>

fun meaning :: "(operatorKey \<Rightarrow> 'd list \<Rightarrow> 'd) \<Rightarrow> (string \<Rightarrow> 'd) \<Rightarrow> narTerm \<Rightarrow> 'd" where
  "meaning I v (Atom s) = v s"
| "meaning I v (Compound k args) = I k (map (meaning I v) args)"

text \<open>The laws the reducers cite.\<close>

text \<open>The terms below the root; where the keys of all of them differ, a key names one of them.\<close>

definition below :: "narTerm \<Rightarrow> narTerm list" where
  "below t = concat (map preorder (getArgs t))"

fun clear_keys :: "collation \<Rightarrow> narTerm \<Rightarrow> bool" where
  "clear_keys collate (Atom s) = True"
| "clear_keys collate (Compound k args) \<longleftrightarrow>
     list_all (clear_keys collate) args \<and>
     (case map_results (canonicalTerm collate) args of
        Inl e \<Rightarrow> True
      | Inr args' \<Rightarrow> (case rawCompound collate k args' of Inl e \<Rightarrow> True | Inr t \<Rightarrow> inj_on termKey (set (below t))))"

definition unary_negations :: "narTerm \<Rightarrow> bool" where
  "unary_negations t \<longleftrightarrow> (\<forall>x \<in> set (preorder t). isType Negation x \<longrightarrow> length (getArgs x) = 1)"

definition good :: "narTerm set \<Rightarrow> narTerm \<Rightarrow> bool" where
  "good S t \<longleftrightarrow> set (getArgs t) \<subseteq> S \<and> (isType Negation t \<longrightarrow> length (getArgs t) = 1)"

definition good_args :: "narTerm set \<Rightarrow> bool" where
  "good_args S \<longleftrightarrow> (\<forall>x \<in> S. good S x)"

lemma preorder_below: "preorder t = t # below t"
  by (cases t) (simp_all add: below_def)

lemma preorder_closed: "x \<in> set (preorder t) \<Longrightarrow> set (getArgs x) \<subseteq> set (preorder t)"
proof (induction t)
  case (Compound k args)
  have "y \<in> set (preorder y)" for y by (cases y) auto
  then show ?case using Compound by fastforce
qed auto

lemma normal_negations: "normal collate t \<Longrightarrow> unary_negations t"
proof -
  have "length args = 1" if "normal collate (Compound Negation args)" for args
    using that rawCompound_total [of collate Negation args] by auto
  then have "isType Negation x \<longrightarrow> length (getArgs x) = 1" if "normal collate x" for x
    using that by (cases x) auto
  then show "normal collate t \<Longrightarrow> unary_negations t"
    using normal_nodes unfolding unary_negations_def by blast
qed

lemma rawCompound_negations:
  assumes "rawCompound collate k args = Inr t" "\<forall>x \<in> set args. unary_negations x"
  shows "unary_negations t"
proof (cases "compound_plan k args")
  case (Folds u)
  then have "u = Atom ''FALSE'' \<or> u \<in> set args" "t = u"
    using assms(1) by (auto simp: rawCompound_def compound_plan_def length_Suc_conv split: if_splits)
  then show ?thesis using assms(2) by (auto simp: unary_negations_def)
next
  case (Builds valid)
  have "k = Negation \<Longrightarrow> length args = 1" "k = OperationOp \<Longrightarrow> length args = 2"
    using assms(1) rawCompound_total [of collate k args] by auto
  moreover have "valid = args" using Builds by (simp add: compound_plan_def split: if_splits)
  moreover have "\<exists>f x. args = [f, x]" if "length args = 2"
    using that by (auto simp: numeral_2_eq_2 length_Suc_conv)
  ultimately show ?thesis
    using assms Builds by (cases "k = OperationOp") (fastforce simp: rawCompound_def unary_negations_def split: if_splits)+
qed (use assms in \<open>simp add: rawCompound_def\<close>)

lemma good_below:
  assumes "unary_negations t"
  shows "good_args (set (below t)) \<and> good (set (below t)) t"
proof -
  have args: "x \<in> set (below t)" if "x \<in> set (getArgs t)" for x
  proof -
    have "x \<in> set (preorder x)" by (simp add: preorder_below)
    then show ?thesis using that by (auto simp: below_def)
  qed
  moreover have "set (getArgs x) \<subseteq> set (below t)" if "x \<in> set (below t)" for x
    using that preorder_closed unfolding below_def by fastforce
  ultimately show ?thesis
    using assms preorder_below [of t] by (auto simp: good_args_def good_def unary_negations_def)
qed

lemma negation_applies:
  "applies (negateBool b) t \<longleftrightarrow> (\<exists>xs. t = Compound Negation (Atom (bool_symbol b) # xs))"
  "applies doubleNegation t \<longleftrightarrow> (\<exists>args xs. t = Compound Negation (Compound Negation args # xs))"
proof -
  have case_negation: "(case k of Negation \<Rightarrow> p | _ \<Rightarrow> False) \<longleftrightarrow> k = Negation \<and> p" for k p
    by (cases k) simp_all
  show "applies (negateBool b) t \<longleftrightarrow> (\<exists>xs. t = Compound Negation (Atom (bool_symbol b) # xs))"
    "applies doubleNegation t \<longleftrightarrow> (\<exists>args xs. t = Compound Negation (Compound Negation args # xs))"
    by (cases t; auto simp: negateBool_def doubleNegation_def case_negation split: list.split narTerm.split)+
qed

locale reducer_laws =
  fixes I :: "operatorKey \<Rightarrow> 'd list \<Rightarrow> 'd" and v :: "string \<Rightarrow> 'd"
  assumes commutative: "k \<in> set COMMUTATIVE_OPS \<Longrightarrow> mset xs = mset ys \<Longrightarrow> I k xs = I k ys"
    and associative: "k \<in> set NARY_OPS \<Longrightarrow> I k (xs @ I k ys # zs) = I k (xs @ ys @ zs)"
    and singleton: "k \<in> set DEDUPED \<Longrightarrow> I k [x] = x"
    and idempotent: "k \<in> set DEDUPED \<Longrightarrow> I k (x # x # xs) = I k (x # xs)"
    and wrapping: "I OperationOp [f, I ProductOp [x]] = I OperationOp [f, x]"
    and empty_disjunction: "I Disjunction [] = v ''FALSE''"
    and double_negation: "I Negation [I Negation [x]] = x"
    and negated_constants: "I Negation [v ''TRUE''] = v ''FALSE''" "I Negation [v ''FALSE''] = v ''TRUE''"
    and contradiction: "I Conjunction (I Negation [x] # x # xs) = v ''FALSE''"
    and excluded_middle: "I Disjunction (I Negation [x] # x # xs) = v ''TRUE''"
    and identities: "I Conjunction (v ''TRUE'' # xs) = I Conjunction xs" "I Disjunction (v ''FALSE'' # xs) = I Disjunction xs"
    and absorption: "I Conjunction (v ''FALSE'' # xs) = v ''FALSE''" "I Disjunction (v ''TRUE'' # xs) = v ''TRUE''"
begin

abbreviation "den \<equiv> meaning I v"

lemma deduped: "k \<in> set DEDUPED \<Longrightarrow> k \<in> set COMMUTATIVE_OPS"
  by (auto simp: DEDUPED_iff)

lemma add_member:
  assumes "k \<in> set DEDUPED" "x \<in> set xs"
  shows "I k (x # xs) = I k xs"
proof -
  from assms(2) have "\<exists>ys. mset xs = mset (x # ys)"
    by (metis mset_remove1 mset.simps(2) insert_DiffM set_mset_mset)
  then obtain ys where ys: "mset xs = mset (x # ys)" by blast
  have "I k (x # xs) = I k (x # x # ys)"
    using commutative [OF deduped [OF assms(1)], of "x # xs" "x # x # ys"] ys by simp
  also have "\<dots> = I k xs" using idempotent [OF assms(1)] commutative [OF deduped [OF assms(1)] ys] by simp
  finally show ?thesis .
qed

lemma by_members:
  assumes "k \<in> set DEDUPED" "set xs = set ys"
  shows "I k xs = I k ys"
proof -
  have rd: "I k (remdups xs) = I k xs" for xs
  proof (induction xs)
    case (Cons x xs)
    have "I k (x # remdups xs) = I k (x # xs)" if "x \<notin> set xs" 
    proof -
      have 1: "I k (xs' @ zs) = I k (I k xs' # zs)" for xs' zs
        using associative [of k "[]" xs' zs] assms(1) by (auto simp: DEDUPED_iff)
      have 2: "I k (x # zs) = I k (zs @ [x])" for zs
        by (rule commutative [OF deduped [OF assms(1)]]) simp
      show ?thesis using 1 2 Cons.IH by metis
    qed
    then show ?case using Cons.IH add_member [OF assms(1)] by auto
  qed simp
  have "mset (remdups xs) = mset (remdups ys)"
    using assms(2) by (metis set_eq_iff_mset_remdups_eq)
  then show ?thesis using commutative [OF deduped [OF assms(1)]] rd by metis
qed

lemma rawCompound_meaning:
  assumes "rawCompound collate k args = Inr t"
  shows "den t = I k (map den args)"
proof (cases "compound_plan k args")
  case (Folds u)
  then show ?thesis using assms empty_disjunction singleton [of k]
    by (auto simp: rawCompound_def compound_plan_def DEDUPED_iff length_Suc_conv split: if_splits)
next
  case (Fails e)
  then show ?thesis using assms by (simp add: rawCompound_def)
next
  case (Builds valid)
  then have valid: "valid = args" by (simp add: compound_plan_def split: if_splits)
  show ?thesis
  proof (cases "k = OperationOp \<and> \<not> isType ProductOp (valid ! 1)")
    case True
    then obtain f x where "args = [f, x]"
      using Builds by (auto simp: compound_plan_def numeral_2_eq_2 length_Suc_conv split: if_splits)
    then have "t = Compound OperationOp [f, Compound ProductOp [x]]"
      using assms Builds True valid by (simp add: rawCompound_def ordered_args_def)
    then show ?thesis using \<open>args = [f, x]\<close> True wrapping by simp
  next
    case False
    then have t: "t = Compound k (ordered_args collate k args)"
      using assms Builds valid by (auto simp: rawCompound_def)
    have "k \<in> set COMMUTATIVE_OPS \<Longrightarrow> mset (map den (ordered_args collate k args)) = mset (map den args)"
      by simp
    then show ?thesis using t commutative [of k "map den (ordered_args collate k args)" "map den args"]
      by (cases "k \<in> set COMMUTATIVE_OPS") (simp_all add: ordered_args_def)
  qed
qed

lemma flat_meaning:
  assumes "k \<in> set NARY_OPS"
  shows "I k (pre @ map den (flat_args k args)) = I k (pre @ map den args)"
proof (induction args arbitrary: pre)
  case (Cons x xs)
  show ?case
  proof (cases "isType k x")
    case True
    then obtain ys where x: "x = Compound k ys" by (cases x) auto
    have "I k (pre @ map den (flat_args k (x # xs))) = I k ((pre @ map den ys) @ map den (flat_args k xs))"
      using x by (simp add: flat_args_def)
    also have "\<dots> = I k (pre @ map den ys @ map den xs)" using Cons.IH [of "pre @ map den ys"] by simp
    also have "\<dots> = I k (pre @ map den (x # xs))" using associative [OF assms, of pre "map den ys"] x by simp
    finally show ?thesis .
  next
    case False
    then show ?thesis using Cons.IH [of "pre @ [den x]"] by (simp add: flat_args_def)
  qed
qed (simp add: flat_args_def)

lemma rebuild_good:
  assumes "rawCompound collate k args = Inr t" "set args \<subseteq> S" "k \<in> set NARY_OPS" "good_args S"
  shows "good S t"
proof (cases "compound_plan k args")
  case (Folds u)
  then have "t = Atom ''FALSE'' \<or> t \<in> S"
    using assms by (auto simp: rawCompound_def compound_plan_def length_Suc_conv split: if_splits)
  then show ?thesis using assms(4) by (auto simp: good_args_def good_def)
next
  case (Builds valid)
  then have "valid = args" by (simp add: compound_plan_def split: if_splits)
  moreover have "k \<noteq> OperationOp" "k \<noteq> Negation" using assms(3) by auto
  ultimately have "t = Compound k (ordered_args collate k args)"
    using assms(1) Builds by (simp add: rawCompound_def)
  then show ?thesis using assms(2) \<open>k \<noteq> Negation\<close> by (simp add: good_def)
qed (use assms in \<open>simp add: rawCompound_def\<close>)

lemma flatten_keeps:
  assumes "good_args S" "good S t" "applies flattenNested t" "reduce_term flattenNested collate t = Inr u"
  shows "good S u \<and> den u = den t"
proof -
  obtain k args where t: "t = Compound k args" "k \<in> set NARY_OPS"
    using assms(3) by (cases t) (auto simp: flattenNested_def FLATTENED_def)
  then have u: "rawCompound collate k (flat_args k args) = Inr u"
    using assms(4) by (simp add: flattenNested_def rebuild_as_def flat_args_def)
  have "set args \<subseteq> S" using assms(2) t by (simp add: good_def)
  then have "set (flat_args k args) \<subseteq> S"
    using assms(1) by (fastforce simp: flat_args_def good_args_def good_def split: if_splits)
  then have "good S u" using rebuild_good [OF u _ t(2) assms(1)] by blast
  moreover have "den u = den t"
    using rawCompound_meaning [OF u] flat_meaning [OF t(2), of "[]" args] t by simp
  ultimately show ?thesis ..
qed

lemma dedupe_keeps:
  assumes "good_args S" "inj_on termKey S" "good S t" "applies dedupeArgs t" "reduce_term dedupeArgs collate t = Inr u"
  shows "good S u \<and> den u = den t"
proof -
  obtain k args where t: "t = Compound k args" "k \<in> set DEDUPED"
    using assms(4) by (cases t) (auto simp: dedupeArgs_def)
  have u: "rawCompound collate k (distinct_args args) = Inr u"
    using assms(5) t by (simp add: dedupeArgs_def rebuild_as_def)
  have S: "set args \<subseteq> S" using assms(3) t by (simp add: good_def)
  have sub: "set (distinct_args args) \<subseteq> set args" by (rule distinct_args_keys)
  moreover have "termKey ` set (distinct_args args) = termKey ` set args" by (rule distinct_args_keys)
  ultimately have same: "set (distinct_args args) = set args"
    using inj_on_image_eq_iff [OF assms(2)] S by blast
  have "good S u" using rebuild_good [OF u _ _ assms(1)] sub S t(2) by (auto simp: DEDUPED_def)
  moreover have "den u = den t"
    using rawCompound_meaning [OF u] by_members [OF t(2), of "map den (distinct_args args)" "map den args"] same t by simp
  ultimately show ?thesis ..
qed

lemma negated_member:
  assumes "good_args S" "inj_on termKey S" "good S (Compound k args)" "hasNegatedPair (Compound k args)"
  obtains x where "x \<in> set args" "Compound Negation [x] \<in> set args"
proof -
  obtain y xs where y: "Compound Negation (y # xs) \<in> set args" "termKey y \<in> termKey ` set args"
    using assms(4) unfolding hasNegatedPair_iff by blast
  have S: "set args \<subseteq> S" using assms(3) by (simp add: good_def)
  then have "good S (Compound Negation (y # xs))" using assms(1) y(1) by (auto simp: good_args_def)
  then have "y \<in> S" "xs = []" by (auto simp: good_def)
  moreover have "y \<in> set args" using assms(2) S y(2) \<open>y \<in> S\<close> by (auto simp: inj_on_def)
  ultimately show thesis using that y by blast
qed

lemma pair_front:
  assumes "k \<in> set DEDUPED" "x \<in> set args" "Compound Negation [x] \<in> set args"
  shows "I k (map den args) = I k (I Negation [den x] # den x # map den args)"
  using imageI [OF assms(2), of den] imageI [OF assms(3), of den]
  by (intro by_members [OF assms(1)]) (simp add: insert_absorb)

lemma const_keeps:
  assumes "good_args S" "inj_on termKey S" "good S t" "applies r t" "reduce_term r collate t = Inr u"
    and "r \<in> {conjunctionContradiction, disjunctionTautology, negateBool TrueSym, negateBool FalseSym,
      boolAbsorb i Conjunction FalseSym True, boolAbsorb i Disjunction TrueSym True}"
  shows "good S u \<and> den u = den t"
proof -
  have g: "good S (Atom s)" for s by (simp add: good_def)
  have neg: "t = Compound Negation [Atom s]" if "t = Compound Negation (Atom s # xs)" for s xs
    using that assms(3) by (simp add: good_def)
  have front: "I k (map den args) = I k (v s # map den args)" if "k \<in> set DEDUPED" "Atom s \<in> set args" for k s args
    using imageI [OF that(2), of den] by (intro by_members [OF that(1)]) (simp add: insert_absorb)
  consider "r = conjunctionContradiction" | "r = disjunctionTautology" | b where "r = negateBool b"
    | "r = boolAbsorb i Conjunction FalseSym True" | "r = boolAbsorb i Disjunction TrueSym True"
    using assms(6) by blast
  then show ?thesis
  proof cases
    case 1
    then obtain args where t: "t = Compound Conjunction args" "hasNegatedPair t" "u = Atom ''FALSE''"
      using assms(4,5) by (cases t) (auto simp: conjunctionContradiction_def)
    obtain x where "x \<in> set args" "Compound Negation [x] \<in> set args"
      using negated_member [OF assms(1,2)] assms(3) t by blast
    then have "I Conjunction (map den args) = v ''FALSE''"
      by (intro trans [OF pair_front contradiction]) (simp_all add: DEDUPED_iff)
    then show ?thesis using t g by simp
  next
    case 2
    then obtain args where t: "t = Compound Disjunction args" "hasNegatedPair t" "u = Atom ''TRUE''"
      using assms(4,5) by (cases t) (auto simp: disjunctionTautology_def)
    obtain x where "x \<in> set args" "Compound Negation [x] \<in> set args"
      using negated_member [OF assms(1,2)] assms(3) t by blast
    then have "I Disjunction (map den args) = v ''TRUE''"
      by (intro trans [OF pair_front excluded_middle]) (simp_all add: DEDUPED_iff)
    then show ?thesis using t g by simp
  next
    case (3 b)
    then have "t = Compound Negation [Atom (bool_symbol b)]"
      using assms(4) neg unfolding 3 negation_applies by blast
    moreover have "u = Atom (bool_symbol (other_symbol b))" using assms(5) 3 by (simp add: negateBool_def)
    ultimately show ?thesis using negated_constants g by (cases b) simp_all
  next
    case 4
    have "isType Conjunction t \<and> Atom ''FALSE'' \<in> set (getArgs t) \<and> u = Atom ''FALSE''"
      using assms(4,5) unfolding 4 by (simp add: boolAbsorb_def list_ex_iff)
    then obtain args where "t = Compound Conjunction args" "Atom ''FALSE'' \<in> set args" "u = Atom ''FALSE''"
      by (cases t) simp_all
    moreover have "I Conjunction (map den args) = v ''FALSE''"
      by (rule trans [OF front [of Conjunction "''FALSE''"] absorption(1)])
        (simp add: DEDUPED_iff, rule \<open>Atom ''FALSE'' \<in> set args\<close>)
    ultimately show ?thesis using g by simp
  next
    case 5
    have "isType Disjunction t \<and> Atom ''TRUE'' \<in> set (getArgs t) \<and> u = Atom ''TRUE''"
      using assms(4,5) unfolding 5 by (simp add: boolAbsorb_def list_ex_iff)
    then obtain args where "t = Compound Disjunction args" "Atom ''TRUE'' \<in> set args" "u = Atom ''TRUE''"
      by (cases t) simp_all
    moreover have "I Disjunction (map den args) = v ''TRUE''"
      by (rule trans [OF front [of Disjunction "''TRUE''"] absorption(2)])
        (simp add: DEDUPED_iff, rule \<open>Atom ''TRUE'' \<in> set args\<close>)
    ultimately show ?thesis using g by simp
  qed
qed

lemma double_keeps:
  assumes "good_args S" "good S t" "applies doubleNegation t" "reduce_term doubleNegation collate t = Inr u"
  shows "good S u \<and> den u = den t"
proof -
  obtain args xs where t: "t = Compound Negation (Compound Negation args # xs)"
    using assms(3) by (auto simp: negation_applies)
  then have xs: "xs = []" and a: "Compound Negation args \<in> S" using assms(2) by (auto simp: good_def)
  then have "good S (Compound Negation args)" using assms(1) by (simp add: good_args_def)
  then obtain x where "args = [x]" "x \<in> S" by (auto simp: good_def length_Suc_conv)
  then show ?thesis using assms(1,4) t xs double_negation by (auto simp: doubleNegation_def good_args_def)
qed

lemma drop_keeps:
  assumes "good_args S" "good S t" "applies (boolAbsorb i k b False) t" "reduce_term (boolAbsorb i k b False) collate t = Inr u"
    and "k = Conjunction \<and> b = TrueSym \<or> k = Disjunction \<and> b = FalseSym"
  shows "good S u \<and> den u = den t"
proof -
  let ?c = "Atom (bool_symbol b)"
  obtain args where t: "t = Compound k args" "?c \<in> set args"
    using assms(3) by (cases t) (auto simp: boolAbsorb_def list_ex_iff)
  then have u: "rawCompound collate k (filter (\<lambda>x. x \<noteq> ?c) args) = Inr u"
    using assms(4) by (simp add: boolAbsorb_def)
  have k: "k \<in> set DEDUPED" using assms(5) by (auto simp: DEDUPED_iff)
  have "good S u" using rebuild_good [OF u _ _ assms(1)] assms(2,5) t by (auto simp: good_def)
  moreover have "I k (map den args) = I k (v (bool_symbol b) # map den (filter (\<lambda>x. x \<noteq> ?c) args))"
    by (rule by_members [OF k]) (use t(2) in \<open>force simp: image_iff\<close>)
  then have "den u = den t" using rawCompound_meaning [OF u] identities assms(5) t by auto
  ultimately show ?thesis ..
qed

lemma pass_keeps:
  assumes "good_args S" "inj_on termKey S" "set rs \<subseteq> set TERM_REDUCERS"
  shows "good S t \<Longrightarrow> one_pass collate rs t = Inr u \<Longrightarrow> good S u \<and> den u = den t"
  using assms(3)
proof (induction rs arbitrary: t)
  case (Cons r rs)
  have "good S w \<and> den w = den t" if w: "applies r t" "reduce_term r collate t = Inr w" for w
  proof -
    have "r \<in> set TERM_REDUCERS" using Cons.prems(3) by simp
    then consider "r = flattenNested" | "r = dedupeArgs" | "r = doubleNegation"
      | i k b where "r = boolAbsorb i k b False" "k = Conjunction \<and> b = TrueSym \<or> k = Disjunction \<and> b = FalseSym"
      | i where "r \<in> {conjunctionContradiction, disjunctionTautology, negateBool TrueSym, negateBool FalseSym,
          boolAbsorb i Conjunction FalseSym True, boolAbsorb i Disjunction TrueSym True}"
      unfolding TERM_REDUCERS_def by auto
    then show ?thesis
    proof cases
      case 1 then show ?thesis using flatten_keeps [OF assms(1) Cons.prems(1)] w by simp
    next
      case 2 then show ?thesis using dedupe_keeps [OF assms(1,2) Cons.prems(1)] w by simp
    next
      case 3 then show ?thesis using double_keeps [OF assms(1) Cons.prems(1)] w by simp
    next
      case (4 i k b) then show ?thesis using drop_keeps [OF assms(1) Cons.prems(1)] w by blast
    next
      case (5 i) then show ?thesis using const_keeps [OF assms(1,2) Cons.prems(1) w] by blast
    qed
  qed
  then show ?case using Cons by (auto split: if_splits sum.splits)
qed simp

lemma settle_keeps:
  assumes "good_args S" "inj_on termKey S"
  shows "good S t \<Longrightarrow> settle collate n t = Inr u \<Longrightarrow> den u = den t"
proof (induction n arbitrary: t)
  case (Suc n)
  then obtain w where w: "one_pass collate TERM_REDUCERS t = Inr w" by (auto split: sum.splits)
  with pass_keeps [OF assms order_refl Suc.prems(1)] have "good S w" "den w = den t" by auto
  then show ?case using Suc w by (auto split: if_splits)
qed simp

lemma canonical_keeps:
  assumes "collation_ok collate"
  shows "clear_keys collate t \<Longrightarrow> canonicalTerm collate t = Inr u \<Longrightarrow> den u = den t"
proof (induction t arbitrary: u)
  case (Compound k args)
  obtain args' t where a: "map_results (canonicalTerm collate) args = Inr args'"
    and r: "rawCompound collate k args' = Inr t" and s: "settle collate MAX_PASSES t = Inr u"
    using Compound.prems(2) by (auto split: sum.splits)
  have each: "den (args' ! i) = den (args ! i) \<and> normal collate (args' ! i)" if "i < length args" for i
  proof -
    have i: "args ! i \<in> set args" "canonicalTerm collate (args ! i) = Inr (args' ! i)"
      using a that by (auto simp: map_results_Inr list_all2_conv_all_nth)
    moreover have "clear_keys collate (args ! i)" using Compound.prems(1) i(1) by (simp add: list_all_iff)
    ultimately show ?thesis
      using Compound.IH canonical_reaches [OF assms canonical_legal [OF i(2)]] by auto
  qed
  have len: "length args' = length args" using a by (auto simp: map_results_Inr dest: list_all2_lengthD)
  have same: "map den args' = map den args" using each len by (simp add: list_eq_iff_nth_eq)
  have "\<forall>x \<in> set args'. unary_negations x"
    using each len normal_negations by (metis in_set_conv_nth)
  from good_below [OF rawCompound_negations [OF r this]]
  have good: "good_args (set (below t))" "good (set (below t)) t" by auto
  have "inj_on termKey (set (below t))" using Compound.prems(1) a r by simp
  from settle_keeps [OF good(1) this good(2) s] have "den u = den t" .
  then show ?case using rawCompound_meaning [OF r] same by simp
qed simp

end

section \<open>Terms as propositions\<close>

text \<open>
  A term read as a set of worlds: conjunction, parallel and product intersect, disjunction joins,
  negation complements, the constants are all worlds and none. The other kinds are uninterpreted:
  a commutative one is any function of the bag of its arguments, another any function of the list.
\<close>

definition worlds ::
  "(operatorKey \<Rightarrow> 'w set multiset \<Rightarrow> 'w set) \<Rightarrow> (operatorKey \<Rightarrow> 'w set list \<Rightarrow> 'w set)
    \<Rightarrow> operatorKey \<Rightarrow> 'w set list \<Rightarrow> 'w set" where
  "worlds bag_of list_of k xs =
     (if k \<in> {Conjunction, Parallel, ProductOp} then \<Inter> (set xs)
      else if k = Disjunction then \<Union> (set xs)
      else if k = Negation then - \<Inter> (set xs)
      else if k \<in> set COMMUTATIVE_OPS then bag_of k (mset xs)
      else list_of k xs)"

definition constants :: "(string \<Rightarrow> 'w set) \<Rightarrow> string \<Rightarrow> 'w set" where
  "constants v = v(''TRUE'' := UNIV, ''FALSE'' := {})"

interpretation worlds: reducer_laws "worlds bag_of list_of :: operatorKey \<Rightarrow> 'w set list \<Rightarrow> 'w set" "constants v"
  for bag_of list_of v
proof
  fix k :: operatorKey and xs ys zs :: "'w set list"
  show "worlds bag_of list_of k xs = worlds bag_of list_of k ys" if "k \<in> set COMMUTATIVE_OPS" "mset xs = mset ys"
    using that mset_eq_setD [OF that(2)] by (auto simp: worlds_def)
  show "worlds bag_of list_of k (xs @ worlds bag_of list_of k ys # zs) = worlds bag_of list_of k (xs @ ys @ zs)"
    if "k \<in> set NARY_OPS"
    using that by (auto simp: worlds_def)
qed (auto simp: worlds_def constants_def DEDUPED_iff)

text \<open>Where the keys of the terms below every compound it meets are apart, the canonical form
  denotes the same set of worlds as the term.\<close>

lemma canonical_form_meaning:
  assumes "collation_ok collate" "clear_keys collate t" "canonicalTerm collate t = Inr u"
  shows "meaning (worlds bag_of list_of) (constants v) u = meaning (worlds bag_of list_of) (constants v) t"
  using assms by (rule worlds.canonical_keeps)

end
