(* ===== verification/Reduce_Intern.thy ===== *)
theory Reduce_Intern
  imports Reduce
begin

text \<open>
  Canonicalisation as the code runs it: \<open>canonicalizeRecursive\<close> of \<open>nar/src/terms/reduce.ts\<close> and
  \<open>createCompound\<close> of \<open>impls/factory.ts\<close>, over the interning constructor and the memo of canonical
  forms. Every compound is asked of the cache, which answers by key, and a step returns the cache it
  leaves. The memo is a weak map on term objects: \<open>known t\<close> says whether the object at hand is one
  the memo may still hold, and what is proved holds whatever it says. The fixed-point test compares
  objects in the code and terms here: they differ only when a reducer rebuilds an equal term.
  The theory proves that this computes the canonical form \<open>Reduce\<close> specifies wherever no two of the
  compounds in the cache and of those the specification builds share a key.
\<close>

section \<open>The code's canonicalisation\<close>

record reduction =
  rd_cache :: termCache
  rd_memo :: "(narTerm, narTerm) omap"

fun asked :: "collation \<Rightarrow> termCache \<Rightarrow> rewriting \<Rightarrow> (termError + narTerm) \<times> termCache" where
  "asked collate c (Gives u) = (Inr u, c)"
| "asked collate c (Rebuilds k args) = compoundOf collate c k (map Some args)"
| "asked collate c (Throws e) = (Inl e, c)"

fun reduce_pass ::
  "collation \<Rightarrow> termReducer list \<Rightarrow> termCache \<Rightarrow> narTerm \<Rightarrow> (termError + narTerm) \<times> termCache" where
  "reduce_pass collate [] c t = (Inr t, c)"
| "reduce_pass collate (r # rs) c t =
     (if applies r t
      then (case asked collate c (rewrite r t) of
              (Inl e, c') \<Rightarrow> (Inl e, c')
            | (Inr t', c') \<Rightarrow> reduce_pass collate rs c' t')
      else reduce_pass collate rs c t)"

fun reduce_settle :: "collation \<Rightarrow> nat \<Rightarrow> termCache \<Rightarrow> narTerm \<Rightarrow> (termError + narTerm) \<times> termCache" where
  "reduce_settle collate 0 c current = (Inl NoFixedPoint, c)"
| "reduce_settle collate (Suc passes) c current =
     (case reduce_pass collate TERM_REDUCERS c current of
        (Inl e, c') \<Rightarrow> (Inl e, c')
      | (Inr nxt, c') \<Rightarrow> if nxt = current then (Inr current, c') else reduce_settle collate passes c' nxt)"

definition memo_keep :: "narTerm \<Rightarrow> narTerm \<Rightarrow> (narTerm, narTerm) omap \<Rightarrow> (narTerm, narTerm) omap" where
  "memo_keep t current m =
     (let m' = omap_set m current current in if current \<noteq> t then omap_set m' t current else m')"

fun canonicalizeRecursive ::
  "(narTerm \<Rightarrow> bool) \<Rightarrow> collation \<Rightarrow> reduction \<Rightarrow> narTerm \<Rightarrow> (termError + narTerm) \<times> reduction"
and canonicalizeArgs ::
  "(narTerm \<Rightarrow> bool) \<Rightarrow> collation \<Rightarrow> reduction \<Rightarrow> narTerm list \<Rightarrow> (termError + narTerm list) \<times> reduction" where
  "canonicalizeRecursive known collate s (Atom symbol) = (Inr (Atom symbol), s)"
| "canonicalizeRecursive known collate s (Compound k args) =
     (case if known (Compound k args) then map_of (rd_memo s) (Compound k args) else None of
        Some memo \<Rightarrow> (Inr memo, s)
      | None \<Rightarrow>
          (case canonicalizeArgs known collate s args of
             (Inl e, s1) \<Rightarrow> (Inl e, s1)
           | (Inr args', s1) \<Rightarrow>
               (case compoundOf collate (rd_cache s1) k (map Some args') of
                  (Inl e, c) \<Rightarrow> (Inl e, s1\<lparr>rd_cache := c\<rparr>)
                | (Inr start, c) \<Rightarrow>
                    (case reduce_settle collate MAX_PASSES c start of
                       (Inl e, c') \<Rightarrow> (Inl e, s1\<lparr>rd_cache := c'\<rparr>)
                     | (Inr current, c') \<Rightarrow>
                         (Inr current, s1\<lparr>rd_cache := c', rd_memo := memo_keep (Compound k args) current (rd_memo s1)\<rparr>)))))"
| "canonicalizeArgs known collate s [] = (Inr [], s)"
| "canonicalizeArgs known collate s (t # ts) =
     (case canonicalizeRecursive known collate s t of
        (Inl e, s') \<Rightarrow> (Inl e, s')
      | (Inr u, s') \<Rightarrow>
          (case canonicalizeArgs known collate s' ts of
             (Inl e, s'') \<Rightarrow> (Inl e, s'')
           | (Inr us, s'') \<Rightarrow> (Inr (u # us), s'')))"

definition create_interned ::
  "(narTerm \<Rightarrow> bool) \<Rightarrow> collation \<Rightarrow> reduction \<Rightarrow> operatorKey \<Rightarrow> narTerm option list
    \<Rightarrow> (termError + narTerm) \<times> reduction" where
  "create_interned known collate s kind args =
     (case compoundOf collate (rd_cache s) kind args of
        (Inl e, c) \<Rightarrow> (Inl e, s\<lparr>rd_cache := c\<rparr>)
      | (Inr t, c) \<Rightarrow> canonicalizeRecursive known collate (s\<lparr>rd_cache := c\<rparr>) t)"

section \<open>What the specification builds\<close>

fun built_asked :: "collation \<Rightarrow> rewriting \<Rightarrow> narTerm list" where
  "built_asked collate (Rebuilds k args) = built_compounds collate k args"
| "built_asked collate _ = []"

fun built_pass :: "collation \<Rightarrow> termReducer list \<Rightarrow> narTerm \<Rightarrow> narTerm list" where
  "built_pass collate [] t = []"
| "built_pass collate (r # rs) t =
     (if applies r t
      then built_asked collate (rewrite r t)
        @ (case reduce_term r collate t of Inl e \<Rightarrow> [] | Inr t' \<Rightarrow> built_pass collate rs t')
      else built_pass collate rs t)"

fun built_settle :: "collation \<Rightarrow> nat \<Rightarrow> narTerm \<Rightarrow> narTerm list" where
  "built_settle collate 0 t = []"
| "built_settle collate (Suc n) t =
     built_pass collate TERM_REDUCERS t
     @ (case one_pass collate TERM_REDUCERS t of
          Inl e \<Rightarrow> []
        | Inr nxt \<Rightarrow> if nxt = t then [] else built_settle collate n nxt)"

fun built_term :: "collation \<Rightarrow> narTerm \<Rightarrow> narTerm list" where
  "built_term collate (Atom s) = []"
| "built_term collate (Compound k args) =
     concat (map (built_term collate) args)
     @ (case map_results (canonicalTerm collate) args of
          Inl e \<Rightarrow> []
        | Inr args' \<Rightarrow> built_compounds collate k args'
            @ (case rawCompound collate k args' of Inl e \<Rightarrow> [] | Inr t \<Rightarrow> built_settle collate MAX_PASSES t))"

text \<open>The keys of what the cache holds and of what is built for \<open>t\<close> are apart.\<close>

definition keys_clear :: "collation \<Rightarrow> reduction \<Rightarrow> narTerm \<Rightarrow> bool" where
  "keys_clear collate s t \<longleftrightarrow> distinct (map termKey (remdups (cached_terms (rd_cache s) @ built_term collate t)))"

text \<open>A memo is right when it holds canonical forms, each answering for itself.\<close>

definition memo_right :: "collation \<Rightarrow> (narTerm, narTerm) omap \<Rightarrow> bool" where
  "memo_right collate m \<longleftrightarrow> list_all (\<lambda>(t, u). canonicalTerm collate t = Inr u \<and> map_of m u = Some u) m"

definition reduction_ok :: "collation \<Rightarrow> reduction \<Rightarrow> bool" where
  "reduction_ok collate s \<longleftrightarrow> term_cache_ok (rd_cache s) \<and> memo_right collate (rd_memo s)"

section \<open>The cached run computes the specification\<close>

definition cache_within :: "narTerm set \<Rightarrow> termCache \<Rightarrow> bool" where
  "cache_within H c \<longleftrightarrow> term_cache_ok c \<and> set (cached_terms c) \<subseteq> H"

definition state_within :: "collation \<Rightarrow> narTerm set \<Rightarrow> reduction \<Rightarrow> bool" where
  "state_within collate H s \<longleftrightarrow> cache_within H (rd_cache s) \<and> memo_right collate (rd_memo s)"

lemma filter_present [simp]: "List.map_filter id (map Some xs) = xs"
  by (induction xs) (simp_all add: List.map_filter_def)

lemma compound_within:
  assumes "inj_on termKey H" "cache_within H c" "set (built_compounds collate k (List.map_filter id args)) \<subseteq> H"
  shows "\<exists>c'. compoundOf collate c k args = (rawCompound collate k (List.map_filter id args), c') \<and> cache_within H c'"
  using compoundOf_apart [of c H collate k args] assms unfolding cache_within_def by fast

lemma asked_within:
  assumes "inj_on termKey H" "cache_within H c" "set (built_asked collate w) \<subseteq> H"
  shows "\<exists>c'. asked collate c w = (specified collate w, c') \<and> cache_within H c'"
  using assms compound_within [OF assms(1,2), of collate _ "map Some _"] by (cases w) auto

lemma reduce_term_specified: "reduce_term r collate t = specified collate (rewrite r t)"
  by (cases r) simp

lemma pass_within:
  assumes "inj_on termKey H"
  shows "cache_within H c \<Longrightarrow> set (built_pass collate rs t) \<subseteq> H
    \<Longrightarrow> \<exists>c'. reduce_pass collate rs c t = (one_pass collate rs t, c') \<and> cache_within H c'"
proof (induction rs arbitrary: c t)
  case (Cons r rs)
  show ?case
  proof (cases "applies r t")
    case True
    then have "set (built_asked collate (rewrite r t)) \<subseteq> H" using Cons.prems(2) by simp
    from asked_within [OF assms Cons.prems(1) this] obtain c' where
      c': "asked collate c (rewrite r t) = (specified collate (rewrite r t), c')" "cache_within H c'" by blast
    show ?thesis
    proof (cases "specified collate (rewrite r t)")
      case (Inr t')
      then have "set (built_pass collate rs t') \<subseteq> H" using Cons.prems(2) True by (simp add: reduce_term_specified)
      from Cons.IH [OF c'(2) this] show ?thesis using True c' Inr by (simp add: reduce_term_specified)
    qed (use True c' in \<open>simp add: reduce_term_specified\<close>)
  qed (use Cons in simp)
qed simp

lemma settle_within:
  assumes "inj_on termKey H"
  shows "cache_within H c \<Longrightarrow> set (built_settle collate n t) \<subseteq> H
    \<Longrightarrow> \<exists>c'. reduce_settle collate n c t = (settle collate n t, c') \<and> cache_within H c'"
proof (induction n arbitrary: c t)
  case (Suc n)
  have "set (built_pass collate TERM_REDUCERS t) \<subseteq> H" using Suc.prems(2) by simp
  from pass_within [OF assms Suc.prems(1) this] obtain c' where
    c': "reduce_pass collate TERM_REDUCERS c t = (one_pass collate TERM_REDUCERS t, c')" "cache_within H c'" by blast
  show ?case
  proof (cases "one_pass collate TERM_REDUCERS t")
    case (Inr nxt)
    then have "nxt \<noteq> t \<Longrightarrow> set (built_settle collate n nxt) \<subseteq> H" using Suc.prems(2) by simp
    then show ?thesis using Suc.IH [OF c'(2), of nxt] c' Inr by auto
  qed (use c' in simp)
qed simp

lemma memo_right_entry:
  "memo_right collate m \<Longrightarrow> map_of m t = Some u \<Longrightarrow> canonicalTerm collate t = Inr u \<and> map_of m u = Some u"
  by (auto simp: memo_right_def list_all_iff dest: map_of_SomeD)

lemma memo_right_keep:
  assumes "memo_right collate m" "canonicalTerm collate t = Inr u" "canonicalTerm collate u = Inr u"
  shows "memo_right collate (memo_keep t u m)" "map_of (memo_keep t u m) u = Some u"
proof -
  have own: "canonicalTerm collate w = Inr w" if "(x, w) \<in> set m" for x w
  proof -
    have "map_of m w = Some w" using that assms(1) by (auto simp: memo_right_def list_all_iff)
    then show ?thesis using memo_right_entry [OF assms(1)] by blast
  qed
  show k: "map_of (memo_keep t u m) u = Some u"
    by (simp add: memo_keep_def omap_set_def update_conv' Let_def)
  have "canonicalTerm collate x = Inr w \<and> map_of (memo_keep t u m) w = Some w"
    if "(x, w) \<in> set (memo_keep t u m)" for x w
  proof -
    have "(x, w) \<in> insert (t, u) (insert (u, u) (set m))"
      using that set_update_entries [of t u "AList.update u u m"] set_update_entries [of u u m]
      by (fastforce simp: memo_keep_def omap_set_def Let_def split: if_splits)
    then consider "w = u" "x = t \<or> x = u" | "(x, w) \<in> set m" by auto
    then show ?thesis
    proof cases
      case 1
      then show ?thesis using assms(2,3) k by auto
    next
      case 2
      then have "canonicalTerm collate x = Inr w" "map_of m w = Some w"
        using assms(1) by (auto simp: memo_right_def list_all_iff)
      moreover have "w = t \<Longrightarrow> u = w" using own [OF 2] assms(2) by simp
      ultimately show ?thesis by (auto simp: memo_keep_def omap_set_def update_conv' Let_def)
    qed
  qed
  then show "memo_right collate (memo_keep t u m)" by (auto simp: memo_right_def list_all_iff)
qed


text \<open>What one call does: it answers the specification's form, keeps the cache within the set and
  the memo right, and leaves the form of a compound in the memo.\<close>

definition computes :: "(narTerm \<Rightarrow> bool) \<Rightarrow> collation \<Rightarrow> narTerm set \<Rightarrow> reduction \<Rightarrow> narTerm \<Rightarrow> bool" where
  "computes known collate H s t \<longleftrightarrow>
     (\<exists>s'. canonicalizeRecursive known collate s t = (canonicalTerm collate t, s') \<and> state_within collate H s'
        \<and> (\<forall>u. canonicalTerm collate t = Inr u \<longrightarrow> (\<exists>a. u = Atom a) \<or> map_of (rd_memo s') u = Some u))"

lemma args_within:
  assumes "\<And>x s. x \<in> set xs \<Longrightarrow> state_within collate H s \<Longrightarrow> computes known collate H s x"
  shows "state_within collate H s
    \<Longrightarrow> \<exists>s'. canonicalizeArgs known collate s xs = (map_results (canonicalTerm collate) xs, s') \<and> state_within collate H s'"
  using assms
proof (induction xs arbitrary: s)
  case (Cons x xs)
  have "computes known collate H s x" using Cons.prems by simp
  then obtain s1 where 1: "canonicalizeRecursive known collate s x = (canonicalTerm collate x, s1)" "state_within collate H s1"
    unfolding computes_def by blast
  show ?case
  proof (cases "canonicalTerm collate x")
    case (Inr u)
    obtain s2 where "canonicalizeArgs known collate s1 xs = (map_results (canonicalTerm collate) xs, s2)"
        "state_within collate H s2"
      using Cons.IH [OF 1(2)] Cons.prems(2) by auto
    then show ?thesis using 1 Inr by (cases "map_results (canonicalTerm collate) xs") auto
  qed (use 1 in simp)
qed simp

lemma canonical_within:
  assumes "collation_ok collate" "inj_on termKey H"
  shows "state_within collate H s \<Longrightarrow> set (built_term collate t) \<subseteq> H \<Longrightarrow> computes known collate H s t"
proof (induction t arbitrary: s)
  case (Atom x)
  then show ?case by (simp add: computes_def)
next
  case (Compound k args)
  let ?t = "Compound k args"
  have own: "canonicalTerm collate u = Inr u" if "canonicalTerm collate ?t = Inr u" for u
    using canonical_reaches [OF assms(1) canonical_legal [OF that]] that canonical_normal by auto
  show ?case
  proof (cases "if known ?t then map_of (rd_memo s) ?t else None")
    case (Some u)
    then have "map_of (rd_memo s) ?t = Some u" by (simp split: if_splits)
    with memo_right_entry have u: "canonicalTerm collate ?t = Inr u" "map_of (rd_memo s) u = Some u"
      using Compound.prems(1) unfolding state_within_def by blast+
    have "canonicalizeRecursive known collate s ?t = (Inr u, s)" using Some by simp
    then show ?thesis using u Compound.prems(1) unfolding computes_def by simp
  next
    case None
    have "computes known collate H s' x" if "x \<in> set args" "state_within collate H s'" for x s'
      using Compound.IH [OF that] Compound.prems(2) that(1) by fastforce
    from args_within [OF this Compound.prems(1)] obtain s1 where
      1: "canonicalizeArgs known collate s args = (map_results (canonicalTerm collate) args, s1)"
        "state_within collate H s1" by blast
    show ?thesis
    proof (cases "map_results (canonicalTerm collate) args")
      case (Inl e)
      then show ?thesis using None 1 by (simp add: computes_def)
    next
      case a: (Inr args')
      have "set (built_compounds collate k (List.map_filter id (map Some args'))) \<subseteq> H"
        using Compound.prems(2) a by simp
      from compound_within [OF assms(2) _ this] 1(2) obtain c where
        c: "compoundOf collate (rd_cache s1) k (map Some args') = (rawCompound collate k args', c)" "cache_within H c"
        unfolding state_within_def by auto
      show ?thesis
      proof (cases "rawCompound collate k args'")
        case (Inl e)
        then show ?thesis using None 1 a c by (simp add: computes_def state_within_def)
      next
        case r: (Inr start)
        have "set (built_settle collate MAX_PASSES start) \<subseteq> H" using Compound.prems(2) a r by simp
        from settle_within [OF assms(2) c(2) this] obtain c' where
          c': "reduce_settle collate MAX_PASSES c start = (settle collate MAX_PASSES start, c')" "cache_within H c'" by blast
        have t: "canonicalTerm collate ?t = settle collate MAX_PASSES start" using a r by simp
        show ?thesis
        proof (cases "settle collate MAX_PASSES start")
          case (Inl e)
          then show ?thesis using None 1 a c c' r by (simp add: computes_def state_within_def)
        next
          case (Inr u)
          let ?s' = "s1\<lparr>rd_cache := c', rd_memo := memo_keep ?t u (rd_memo s1)\<rparr>"
          have res: "canonicalizeRecursive known collate s ?t = (Inr u, ?s')"
            using None 1(1) a c(1) c'(1) r Inr by simp
          have u: "canonicalTerm collate ?t = Inr u" using t Inr by simp
          have "memo_right collate (rd_memo s1)" using 1(2) by (simp add: state_within_def)
          note memo = memo_right_keep [OF this u own [OF u]]
          then have "state_within collate H ?s'" using c'(2) by (simp add: state_within_def)
          then show ?thesis using res u memo(2) unfolding computes_def by simp
        qed
      qed
    qed
  qed
qed

lemma canonical_refines:
  assumes "collation_ok collate" "reduction_ok collate s" "keys_clear collate s t"
  obtains s' where "canonicalizeRecursive known collate s t = (canonicalTerm collate t, s')" "reduction_ok collate s'"
    "\<And>u. canonicalTerm collate t = Inr u \<Longrightarrow> (\<exists>a. u = Atom a) \<or> map_of (rd_memo s') u = Some u"
proof -
  let ?H = "set (cached_terms (rd_cache s) @ built_term collate t)"
  have "inj_on termKey ?H" using assms(3) unfolding keys_clear_def apart_inj .
  moreover have "state_within collate ?H s" using assms(2) by (simp add: state_within_def cache_within_def reduction_ok_def)
  ultimately have "computes known collate ?H s t" by (rule canonical_within [OF assms(1)]) simp
  then show thesis using that unfolding computes_def state_within_def cache_within_def reduction_ok_def by blast
qed

lemma create_refines:
  assumes "collation_ok collate" "reduction_ok collate s"
    and "distinct (map termKey (remdups (cached_terms (rd_cache s) @ built_compounds collate kind (List.map_filter id args)
      @ (case rawCompound collate kind (List.map_filter id args) of Inl e \<Rightarrow> [] | Inr t \<Rightarrow> built_term collate t))))"
  shows "\<exists>s'. create_interned known collate s kind args = (createCompound collate kind args, s') \<and> reduction_ok collate s'"
proof -
  let ?raw = "rawCompound collate kind (List.map_filter id args)"
  let ?H = "set (cached_terms (rd_cache s) @ built_compounds collate kind (List.map_filter id args)
      @ (case ?raw of Inl e \<Rightarrow> [] | Inr t \<Rightarrow> built_term collate t))"
  have inj: "inj_on termKey ?H" using assms(3) unfolding apart_inj .
  have "cache_within ?H (rd_cache s)" using assms(2) by (simp add: cache_within_def reduction_ok_def)
  from compound_within [OF inj this, of collate kind args] obtain c where
    c: "compoundOf collate (rd_cache s) kind args = (?raw, c)" "cache_within ?H c" by auto
  show ?thesis
  proof (cases ?raw)
    case (Inl e)
    then show ?thesis using assms(2) c by (simp add: create_interned_def createCompound_def reduction_ok_def cache_within_def)
  next
    case (Inr t)
    have "state_within collate ?H (s\<lparr>rd_cache := c\<rparr>)"
      using c(2) assms(2) by (simp add: state_within_def reduction_ok_def)
    then have "computes known collate ?H (s\<lparr>rd_cache := c\<rparr>) t"
      by (rule canonical_within [OF assms(1) inj]) (use Inr in auto)
    then show ?thesis using c(1) Inr
      by (auto simp: computes_def create_interned_def createCompound_def state_within_def cache_within_def reduction_ok_def)
  qed
qed

section \<open>Properties\<close>

text \<open>C3: canonicalisation terminates and reaches a normal form. Over any cache and memo in order,
  where the keys of the cached compounds and of those built for the term are apart, a term whose
  negations, sequences and operations have the arity the constructor wants has a canonical
  form: no reducer applies at any of its nodes, and from then on it answers for itself, from the
  memo and by the specification. Any other term makes the constructor throw a wrong arity; the pass
  limit is never the reason. Cache and memo stay in order.\<close>

theorem canonicalisation_total:
  assumes "collation_ok collate" "reduction_ok collate s" "keys_clear collate s t"
  shows "case canonicalizeRecursive known collate s t of (res, s') \<Rightarrow>
    reduction_ok collate s' \<and>
    (if legal t
     then (case res of
             Inl e \<Rightarrow> False
           | Inr u \<Rightarrow> canonicalizeRecursive (\<lambda>_. True) collate s' u = (Inr u, s') \<and> canonicalTerm collate u = Inr u
               \<and> (\<forall>x \<in> set (preorder u). \<forall>r \<in> set TERM_REDUCERS. \<not> applies r x))
     else (case res of
             Inl (WrongArity k n) \<Rightarrow> k \<in> {Negation, Sequence, OperationOp}
           | _ \<Rightarrow> False))"
proof -
  obtain s' where s': "canonicalizeRecursive known collate s t = (canonicalTerm collate t, s')" "reduction_ok collate s'"
      "\<And>u. canonicalTerm collate t = Inr u \<Longrightarrow> (\<exists>a. u = Atom a) \<or> map_of (rd_memo s') u = Some u"
    using canonical_refines [OF assms] by blast
  show ?thesis
  proof (cases "legal t")
    case True
    then obtain u where u: "canonicalTerm collate t = Inr u" "canonicalTerm collate u = Inr u"
        "\<forall>x \<in> set (preorder u). \<forall>r \<in> set TERM_REDUCERS. \<not> applies r x"
      using canonical_form_total [OF assms(1), of t] by auto
    have "canonicalizeRecursive (\<lambda>_. True) collate s' u = (Inr u, s')"
      using s'(3) [OF u(1)] by (cases u) auto
    then show ?thesis using True s' u by simp
  next
    case False
    then obtain k n where "k \<in> {Negation, Sequence, OperationOp}" "canonicalTerm collate t = Inl (WrongArity k n)"
      using canonical_form_total [OF assms(1), of t] by auto
    then show ?thesis using False s' by simp
  qed
qed

text \<open>A state that has met \<open>--(--a)\<close>: both negations are in the cache, and the memo holds the form.\<close>

definition emptyReduction :: reduction where
  "emptyReduction = \<lparr>rd_cache = emptyTermCache, rd_memo = []\<rparr>"

definition doubled :: "string \<Rightarrow> narTerm" where
  "doubled a = Compound Negation [Compound Negation [Atom a]]"

definition exampleReduction :: reduction where
  "exampleReduction = snd (canonicalizeRecursive (\<lambda>_. True) (\<lambda>_ _. True) emptyReduction (doubled ''a''))"

lemma exampleReduction_ok: "reduction_ok (\<lambda>_ _. True) exampleReduction"
proof -
  have "reduction_ok (\<lambda>_ _. True) emptyReduction" by (simp add: reduction_ok_def emptyReduction_def memo_right_def)
  moreover have "keys_clear (\<lambda>_ _. True) emptyReduction (doubled ''a'')" by code_simp
  ultimately obtain s' where "canonicalizeRecursive (\<lambda>_. True) (\<lambda>_ _. True) emptyReduction (doubled ''a'')
      = (canonicalTerm (\<lambda>_ _. True) (doubled ''a''), s')" "reduction_ok (\<lambda>_ _. True) s'"
    by (rule canonical_refines [OF trivial_collation])
  then show ?thesis by (simp add: exampleReduction_def)
qed

lemma canonicalisation_total_witness:
  "case canonicalizeRecursive (\<lambda>_. True) (\<lambda>_ _. True) exampleReduction (Compound Conjunction [doubled ''a'', Atom ''b'']) of
     (Inr u, s') \<Rightarrow> canonicalizeRecursive (\<lambda>_. True) (\<lambda>_ _. True) s' u = (Inr u, s') | _ \<Rightarrow> False"
proof -
  have "keys_clear (\<lambda>_ _. True) exampleReduction (Compound Conjunction [doubled ''a'', Atom ''b''])" by code_simp
  moreover have "legal (Compound Conjunction [doubled ''a'', Atom ''b''])" by (simp add: doubled_def)
  ultimately show ?thesis
    using canonicalisation_total [OF trivial_collation exampleReduction_ok, of "Compound Conjunction [doubled ''a'', Atom ''b'']" "\<lambda>_. True"]
    by (auto split: prod.splits sum.splits)
qed

text \<open>C4: canonicalisation keeps the meaning. Over any cache and memo in order, where the keys of the
  cached compounds and of those built for the term are apart, and those of the terms below every
  compound it meets, what the code answers denotes the same set of worlds as the term, whatever the
  atoms denote and whatever the kinds without a law of their own mean.\<close>

theorem canonical_keeps_meaning:
  assumes "collation_ok collate" "reduction_ok collate s" "keys_clear collate s t" "clear_keys collate t"
    and "canonicalizeRecursive known collate s t = (Inr u, s')"
  shows "meaning (worlds bag_of list_of) (constants v) u = meaning (worlds bag_of list_of) (constants v) t"
proof -
  have "canonicalTerm collate t = Inr u"
    using canonical_refines [OF assms(1-3), of known] assms(5) by (metis prod.inject)
  with assms(1,4) show ?thesis by (rule canonical_form_meaning)
qed

lemma canonical_keeps_meaning_witness:
  "meaning (worlds (\<lambda>_ _. {}) (\<lambda>_ _. {})) (constants (\<lambda>s. {s})) (Atom ''FALSE'')
     = meaning (worlds (\<lambda>_ _. {}) (\<lambda>_ _. {})) (constants (\<lambda>s. {s}))
         (Compound Conjunction [doubled ''a'', Compound Negation [Compound Disjunction [Atom ''a'', Atom ''FALSE'']]])"
proof -
  let ?t = "Compound Conjunction [doubled ''a'', Compound Negation [Compound Disjunction [Atom ''a'', Atom ''FALSE'']]]"
  have "keys_clear (\<lambda>_ _. True) exampleReduction ?t" "clear_keys (\<lambda>_ _. True) ?t" by code_simp+
  moreover have "fst (canonicalizeRecursive (\<lambda>_. True) (\<lambda>_ _. True) exampleReduction ?t) = Inr (Atom ''FALSE'')"
    by code_simp
  then obtain s' where "canonicalizeRecursive (\<lambda>_. True) (\<lambda>_ _. True) exampleReduction ?t = (Inr (Atom ''FALSE''), s')"
    by (metis prod.collapse)
  ultimately show ?thesis by (intro canonical_keeps_meaning [OF trivial_collation exampleReduction_ok])
qed

text \<open>Where keys are not apart the code leaves the specification: once the product of a conjunction
  of two and two further members is cached, canonicalising the product of the conjunction of three
  and the fourth member answers the first product.\<close>

definition confusedReduction :: reduction where
  "confusedReduction = snd (canonicalizeRecursive (\<lambda>_. True) (\<lambda>_ _. True) emptyReduction
     (Compound ProductOp [Compound Conjunction [Atom ''a'', Atom ''b''], Atom ''c'', Atom ''d'']))"

theorem canonicalisation_confuses:
  "fst (canonicalizeRecursive (\<lambda>_. True) (\<lambda>_ _. True) confusedReduction
      (Compound ProductOp [Compound Conjunction [Atom ''a'', Atom ''b'', Atom ''c''], Atom ''d'']))
     = Inr (Compound ProductOp [Compound Conjunction [Atom ''a'', Atom ''b''], Atom ''c'', Atom ''d''])"
  "canonicalTerm (\<lambda>_ _. True) (Compound ProductOp [Compound Conjunction [Atom ''a'', Atom ''b'', Atom ''c''], Atom ''d''])
     = Inr (Compound ProductOp [Compound Conjunction [Atom ''a'', Atom ''b'', Atom ''c''], Atom ''d''])"
  by code_simp+

end
