(* ===== verification/Claims.thy ===== *)
theory Claims
  imports Reduce Truth_Values
begin

text \<open>
  Canonicalisation of claims, \<open>nar/src/terms/reduce-task.ts\<close>: a task is canonical when no
  negation can move from its term into its truth and its term is canonical. What the task carries
  besides (type, stamp, budget, occurrence time, whether it was derived) passes through as one
  value.
\<close>

record 'c task =
  task_term :: narTerm
  task_truth :: truth
  carried :: 'c

datatype 'c taskReducer = TaskReducer
  (task_reducer_id: string) (task_applies: "'c task \<Rightarrow> bool") (reduce_task: "'c task \<Rightarrow> termError + 'c task")

text \<open>\<open>getArgs(term)[0]?.kind !== 'negation'\<close> holds of a negation without an argument as well, whose
  rewrite then has no term to give.\<close>

definition negationIntoTruth :: "'c taskReducer" where
  "negationIntoTruth = TaskReducer ''negation-into-truth''
     (\<lambda>k. isType Negation (task_term k) \<and>
        (case getArgs (task_term k) of [] \<Rightarrow> True | x # _ \<Rightarrow> \<not> isType Negation x))
     (\<lambda>k. case getArgs (task_term k) of
        [] \<Rightarrow> Inl (WrongArity Negation 0)
      | x # _ \<Rightarrow> Inr (k\<lparr>task_term := x, task_truth := t_negation (task_truth k)\<rparr>))"

definition TASK_REDUCERS :: "'c taskReducer list" where
  "TASK_REDUCERS = [negationIntoTruth]"

definition MAX_TASK_PASSES :: nat where
  "MAX_TASK_PASSES = 4"

text \<open>A pass, with whether a reducer rewrote the task: each rewrite is a new object.\<close>

fun task_pass :: "'c taskReducer list \<Rightarrow> bool \<Rightarrow> 'c task \<Rightarrow> termError + bool \<times> 'c task" where
  "task_pass [] rewrote k = Inr (rewrote, k)"
| "task_pass (r # rs) rewrote k =
     (if task_applies r k
      then (case reduce_task r k of Inl e \<Rightarrow> Inl e | Inr k' \<Rightarrow> task_pass rs True k')
      else task_pass rs rewrote k)"

fun settle_task :: "collation \<Rightarrow> nat \<Rightarrow> 'c task \<Rightarrow> termError + 'c task" where
  "settle_task collate 0 k = Inl NoFixedPoint"
| "settle_task collate (Suc passes) k =
     (case task_pass TASK_REDUCERS False k of
        Inl e \<Rightarrow> Inl e
      | Inr (False, _) \<Rightarrow> Inr k
      | Inr (True, nxt) \<Rightarrow>
          (case canonicalTerm collate (task_term nxt) of
             Inl e \<Rightarrow> Inl e
           | Inr t \<Rightarrow> settle_task collate passes (nxt\<lparr>task_term := t\<rparr>)))"

definition canonicalTask :: "collation \<Rightarrow> 'c task \<Rightarrow> termError + 'c task" where
  "canonicalTask collate = settle_task collate MAX_TASK_PASSES"

section \<open>Settling\<close>

fun bare_negation :: "narTerm \<Rightarrow> bool" where
  "bare_negation (Compound Negation [x]) = (\<not> isType Negation x)"
| "bare_negation _ = False"

lemma settle_unapplied: "\<not> task_applies negationIntoTruth k \<Longrightarrow> settle_task collate (Suc n) k = Inr k"
  by (simp add: TASK_REDUCERS_def)

lemma settle_negation:
  assumes "task_term k = Compound Negation [x]" "\<not> isType Negation x"
  shows "settle_task collate (Suc n) k =
    (case canonicalTerm collate x of
       Inl e \<Rightarrow> Inl e
     | Inr t \<Rightarrow> settle_task collate n (k\<lparr>task_truth := t_negation (task_truth k), task_term := t\<rparr>))"
  using assms by (cases "canonicalTerm collate x") (simp_all add: TASK_REDUCERS_def negationIntoTruth_def)

declare settle_task.simps [simp del]

lemma applies_negation:
  assumes "legal (task_term k)" "task_applies negationIntoTruth k"
  obtains x where "task_term k = Compound Negation [x]" "\<not> isType Negation x" "legal x"
proof (cases "task_term k")
  case (Compound kd args)
  then have "kd = Negation" "length args = 1" using assms by (auto simp: negationIntoTruth_def)
  then obtain x where "args = [x]" by (auto simp: length_Suc_conv)
  then show thesis using that [of x] Compound \<open>kd = Negation\<close> assms by (simp add: negationIntoTruth_def)
qed (use assms in \<open>simp add: negationIntoTruth_def\<close>)

lemma canonical_double:
  assumes "normal collate (Compound Negation [x])"
  shows "\<not> isType Negation x"
proof -
  have "\<not> applies doubleNegation (Compound Negation [x])"
    using normal_not_applies [OF assms] by (simp add: TERM_REDUCERS_def)
  then show ?thesis by (cases x) (auto simp: negation_applies)
qed

lemma settle_normal:
  assumes "normal collate (task_term k)"
  shows "\<exists>k'. settle_task collate (Suc (Suc n)) k = Inr k' \<and> carried k' = carried k
    \<and> \<not> task_applies negationIntoTruth k' \<and> normal collate (task_term k')"
proof (cases "task_applies negationIntoTruth k")
  case False
  then show ?thesis using assms settle_unapplied [OF False, of collate "Suc n"] by blast
next
  case True
  have "legal (task_term k)" using canonical_legal canonical_normal [OF assms] by blast
  then obtain x where x: "task_term k = Compound Negation [x]" "\<not> isType Negation x"
    using applies_negation [OF _ True] by blast
  then have n: "normal collate x" using assms by simp
  let ?k = "k\<lparr>task_truth := t_negation (task_truth k), task_term := x\<rparr>"
  have "\<not> task_applies negationIntoTruth ?k" using x(2) by (simp add: negationIntoTruth_def)
  from settle_unapplied [OF this, of collate n]
  have "settle_task collate (Suc (Suc n)) k = Inr ?k"
    using settle_negation [OF x, of collate "Suc n"] canonical_normal [OF n] by simp
  then show ?thesis using \<open>\<not> task_applies negationIntoTruth ?k\<close> n by fastforce
qed

text \<open>C35: a task settles. Canonicalising a task whose term has the arities the constructor wants
  returns within the four passes: no negation is left to move into the truth, canonicalising
  once more changes nothing, and the type, stamp, budget and times are the task's own.\<close>

theorem canonicalTask_settles:
  assumes "collation_ok collate" "legal (task_term k)"
  shows "\<exists>k'. canonicalTask collate k = Inr k' \<and> carried k' = carried k
    \<and> \<not> task_applies negationIntoTruth k' \<and> canonicalTask collate k' = Inr k'"
proof -
  have "\<exists>k'. canonicalTask collate k = Inr k' \<and> carried k' = carried k \<and> \<not> task_applies negationIntoTruth k'"
  proof (cases "task_applies negationIntoTruth k")
    case False
    then show ?thesis
      using settle_unapplied [OF False, of collate 3] by (simp add: canonicalTask_def MAX_TASK_PASSES_def)
  next
    case True
    obtain x where x: "task_term k = Compound Negation [x]" "\<not> isType Negation x" "legal x"
      using applies_negation [OF assms(2) True] by blast
    obtain u where u: "canonicalTerm collate x = Inr u" "normal collate u"
      using canonical_reaches [OF assms(1) x(3)] by blast
    let ?k = "k\<lparr>task_truth := t_negation (task_truth k), task_term := u\<rparr>"
    have "canonicalTask collate k = settle_task collate 3 ?k"
      using settle_negation [OF x(1,2), of collate 3] u(1) by (simp add: canonicalTask_def MAX_TASK_PASSES_def)
    then show ?thesis
      using settle_normal [of collate ?k 1] u(2) by (auto simp: numeral_3_eq_3)
  qed
  moreover have "canonicalTask collate k' = Inr k'" if "\<not> task_applies negationIntoTruth k'" for k' :: "'a task"
    using settle_unapplied [OF that, of collate 3] by (simp add: canonicalTask_def MAX_TASK_PASSES_def)
  ultimately show ?thesis by blast
qed

text \<open>two spellings, one task. A claim negated in its term and the claim with the complementary
  frequency canonicalise to the same task.\<close>

theorem spellings_agree:
  assumes "normal collate x" "\<not> isType Negation x" "0 \<le> f" "f \<le> 1" "0 \<le> c" "c \<le> MAX_CONFIDENCE"
  shows "canonicalTask collate \<lparr>task_term = Compound Negation [x], task_truth = \<lparr>tf = f, tc = c\<rparr>, carried = z\<rparr>
       = canonicalTask collate \<lparr>task_term = x, task_truth = \<lparr>tf = 1 - f, tc = c\<rparr>, carried = z\<rparr>"
proof -
  have truth: "t_negation \<lparr>tf = f, tc = c\<rparr> = \<lparr>tf = 1 - f, tc = c\<rparr>"
    using assms by (simp add: t_negation_def unary_op_def normalizeTruth_def clamp_def)
  let ?n = "\<lparr>task_term = Compound Negation [x], task_truth = \<lparr>tf = f, tc = c\<rparr>, carried = z\<rparr>"
  let ?p = "\<lparr>task_term = x, task_truth = \<lparr>tf = 1 - f, tc = c\<rparr>, carried = z\<rparr>"
  have "\<not> task_applies negationIntoTruth ?p" using assms(2) by (simp add: negationIntoTruth_def)
  from settle_unapplied [OF this] have p: "settle_task collate (Suc n) ?p = Inr ?p" for n .
  have "settle_task collate (Suc 3) ?n = settle_task collate 3 ?p"
    using settle_negation [of ?n x collate 3] assms(2) canonical_normal [OF assms(1)] truth by simp
  then show ?thesis using p [of 2] p [of 3]
    by (simp add: canonicalTask_def MAX_TASK_PASSES_def eval_nat_numeral)
qed

theorem canonicalTask_settles_witness:
  "\<exists>k'. canonicalTask (\<lambda>a b. True) \<lparr>task_term = Compound Negation [Compound Conjunction [Compound Negation [Atom ''a'']]],
      task_truth = \<lparr>tf = 1, tc = 1 / 2\<rparr>, carried = ()\<rparr> = Inr k'
    \<and> \<not> task_applies negationIntoTruth k'"
  using canonicalTask_settles [OF trivial_collation, of
    "\<lparr>task_term = Compound Negation [Compound Conjunction [Compound Negation [Atom ''a'']]],
      task_truth = \<lparr>tf = 1, tc = 1 / 2\<rparr>, carried = ()\<rparr>"] by auto

theorem spellings_agree_witness:
  "canonicalTask (\<lambda>a b. True) \<lparr>task_term = Compound Negation [Atom ''a''], task_truth = \<lparr>tf = 1 / 4, tc = 1 / 2\<rparr>, carried = ()\<rparr>
   = canonicalTask (\<lambda>a b. True) \<lparr>task_term = Atom ''a'', task_truth = \<lparr>tf = 1 - 1 / 4, tc = 1 / 2\<rparr>, carried = ()\<rparr>"
  by (rule spellings_agree) (simp_all add: MAX_CONFIDENCE_def)

end
