(* ===== verification/Term_Unify.thy ===== *)
theory Term_Unify
  imports Unify Reduce
begin

text \<open>
  Unification of Narsese terms, \<open>nar/src/terms/impls/unifier.ts\<close>: the generic unifier over the
  dialect of terms. The reading of a term under an assignment to its variables is the term with
  the variables replaced, so the contract of \<open>Unify\<close> says that the unifier computes a most
  general unifier.
\<close>

section \<open>The dialect\<close>

definition DIALECT :: "collation \<Rightarrow> narTerm unifierDialect" where
  "DIALECT collate =
     \<lparr>variableName = term_variableName, payloadEqual = sameTerm, sameHead = sameKind, children = getArgs,
      nodeKey = termKey,
      rebuild = (\<lambda>node kids. case node of
          Atom _ \<Rightarrow> None
        | Compound k _ \<Rightarrow> (case createCompound collate k (map Some kids) of Inl _ \<Rightarrow> None | Inr t \<Rightarrow> Some t))\<rparr>"

lemma DIALECT_simps [simp]:
  "variableName (DIALECT collate) = term_variableName" "payloadEqual (DIALECT collate) = sameTerm"
  "sameHead (DIALECT collate) = sameKind" "children (DIALECT collate) = getArgs" "nodeKey (DIALECT collate) = termKey"
  by (simp_all add: DIALECT_def)

definition termUnifier :: "collation \<Rightarrow> (narTerm, unit) unifier" where
  "termUnifier collate = newUnifier (DIALECT collate) None None"

definition unifyTerms ::
  "(narTerm \<Rightarrow> narTerm \<Rightarrow> bool) \<Rightarrow> (narTerm, unit) unifier \<Rightarrow> narTerm \<Rightarrow> narTerm
    \<Rightarrow> narTerm substitution option \<Rightarrow> bool option \<Rightarrow> narTerm substitution option \<times> (narTerm, unit) unifier" where
  "unifyTerms ident u a b subst enableOccursCheck =
     unify ident u a b (case subst of None \<Rightarrow> [] | Some s \<Rightarrow> s)
       (case enableOccursCheck of None \<Rightarrow> True | Some c \<Rightarrow> c) None"

definition applySubstitution ::
  "nat \<Rightarrow> (narTerm \<Rightarrow> narTerm \<Rightarrow> bool) \<Rightarrow> collation \<Rightarrow> narTerm \<Rightarrow> narTerm substitution \<Rightarrow> narTerm option" where
  "applySubstitution n ident collate t subst = apply_subst n ident (DIALECT collate) t subst"

section \<open>Most general unifiers\<close>

fun subst_term :: "(string \<Rightarrow> narTerm) \<Rightarrow> narTerm \<Rightarrow> narTerm" where
  "subst_term \<theta> (Atom s) = (if isVariableSymbol s then \<theta> s else Atom s)"
| "subst_term \<theta> (Compound k args) = Compound k (map (subst_term \<theta>) args)"

fun term_vars :: "narTerm \<Rightarrow> string set" where
  "term_vars (Atom s) = (if isVariableSymbol s then {s} else {})"
| "term_vars (Compound k args) = (\<Union>x \<in> set args. term_vars x)"

text \<open>At most as many variables as a chain of bindings is followed.\<close>

definition few :: "string set \<Rightarrow> string set" where
  "few V = (if finite V \<and> card V \<le> 64 then V else {})"

lemma subst_term_height: "x \<in> set args \<Longrightarrow> term_height (subst_term \<theta> x) < term_height (subst_term \<theta> (Compound k args))"
  using arg_height [of "subst_term \<theta> x" "map (subst_term \<theta>) args" k] by auto

interpretation terms: term_reading "\<lambda>a b. a = b \<and> ident a b" "DIALECT collate" "{t. term_vars t \<subseteq> few V}" "few V"
    "subst_term \<theta>" \<theta> term_height
  for ident collate V \<theta>
proof
  fix a b k :: narTerm and x
  show "finite (few V)" "card (few V) \<le> 64" by (simp_all add: few_def)
  show "set (children (DIALECT collate) a) \<subseteq> {t. term_vars t \<subseteq> few V}" if "a \<in> {t. term_vars t \<subseteq> few V}"
    using that by (cases a) auto
  show "x \<in> few V" if "a \<in> {t. term_vars t \<subseteq> few V}" "variableName (DIALECT collate) a = Some x"
    using that by (cases a) (auto split: if_splits)
  show "subst_term \<theta> a = \<theta> x" if "variableName (DIALECT collate) a = Some x"
    using that by (cases a) (auto split: if_splits)
  show "subst_term \<theta> a = subst_term \<theta> b \<longleftrightarrow> sameHead (DIALECT collate) a b
      \<and> (children (DIALECT collate) a = [] \<longrightarrow> payloadEqual (DIALECT collate) a b)
      \<and> map (subst_term \<theta>) (children (DIALECT collate) a) = map (subst_term \<theta>) (children (DIALECT collate) b)"
    if "variableName (DIALECT collate) a = None" "variableName (DIALECT collate) b = None"
    using that by (cases a; cases b) (auto split: if_splits)
  show "term_height (subst_term \<theta> k) < term_height (subst_term \<theta> a)"
    if "variableName (DIALECT collate) a = None" "k \<in> set (children (DIALECT collate) a)"
    using that subst_term_height by (cases a) auto
qed simp_all

text \<open>C5: the unifier is most general. On two terms with at most 64 variables between them, the
  substitutions that make the terms equal are exactly those that satisfy every binding of the
  answer; and when the unifier says no, no substitution makes them equal but one under which the
  terms are 64 levels deep.\<close>

theorem unifier_most_general:
  assumes "\<And>x y. ident x y \<Longrightarrow> x = y" "card (term_vars a \<union> term_vars b) \<le> 64"
  shows "case run_unify ident (DIALECT collate) check a b [] of
      Some (subst, added) \<Rightarrow>
        subst_term \<theta> a = subst_term \<theta> b \<longleftrightarrow> (\<forall>(x, v) \<in> set subst. \<theta> x = subst_term \<theta> v)
    | None \<Rightarrow> subst_term \<theta> a = subst_term \<theta> b \<longrightarrow> 64 \<le> term_height (subst_term \<theta> a)"
proof -
  let ?V = "term_vars a \<union> term_vars b"
  have "finite (term_vars t)" for t by (induction t) auto
  then have "few ?V = ?V" using assms(2) by (simp add: few_def)
  then have "a \<in> {t. term_vars t \<subseteq> few ?V}" "b \<in> {t. term_vars t \<subseteq> few ?V}" by auto
  then have "case run_unify (\<lambda>x y. x = y \<and> ident x y) (DIALECT collate) check a b [] of
      Some (subst, added) \<Rightarrow> subst_term \<theta> a = subst_term \<theta> b \<longleftrightarrow> terms.holds \<theta> subst
    | None \<Rightarrow> subst_term \<theta> a = subst_term \<theta> b \<longrightarrow> 64 \<le> term_height (subst_term \<theta> a)"
    by (rule terms.run_unify_answers)
  moreover have "(\<lambda>x y. x = y \<and> ident x y) = ident" using assms(1) by blast
  ultimately show ?thesis by (auto simp: terms.holds_def split: option.splits)
qed

theorem unifier_most_general_witness:
  "subst_term (\<lambda>s. Atom ''b'') (Compound Inheritance [Atom ''$x'', Atom ''c''])
     = subst_term (\<lambda>s. Atom ''b'') (Compound Inheritance [Atom ''b'', Atom ''c''])"
proof -
  let ?a = "Compound Inheritance [Atom ''$x'', Atom ''c'']" and ?b = "Compound Inheritance [Atom ''b'', Atom ''c'']"
  have "card (term_vars ?a \<union> term_vars ?b) \<le> 64" by code_simp
  note unifier_most_general [where ident = "\<lambda>x y. False" and collate = "\<lambda>a b. True" and check = True
    and \<theta> = "\<lambda>s. Atom ''b''", OF _ this]
  moreover have "run_unify (\<lambda>x y. False) (DIALECT (\<lambda>a b. True)) True ?a ?b [] = Some ([(''$x'', Atom ''b'')], [(''$x'', Atom ''b'')])"
    by code_simp
  ultimately show ?thesis by simp
qed

section \<open>Substituting\<close>

lemma map_some_id: "list_all (\<lambda>x. f x = Some x) xs \<Longrightarrow> map_some f xs = Some xs"
  by (induction xs) auto

lemma apply_compound:
  assumes "\<And>x. ident x x" "\<And>x. x \<in> set args \<Longrightarrow> apply_subst m ident (DIALECT collate) x subst = Some x"
  shows "apply_subst (Suc m) ident (DIALECT collate) (Compound k args) subst = Some (Compound k args)"
proof -
  have "map_some (\<lambda>kid. apply_subst m ident (DIALECT collate) kid subst) args = Some args"
    using assms(2) by (intro map_some_id) (simp add: list_all_iff)
  moreover have "\<not> list_ex (\<lambda>(kid, nxt). \<not> ident nxt kid) (zip args args)"
    using assms(1) by (auto simp: list_ex_iff zip_same)
  ultimately show ?thesis by simp
qed

text \<open>\<open>applySubstitution\<close> never puts a compound in place of a variable. Where every variable is
  bound to a compound without variables, applying the substitution gives back the term it was
  given: the test that should recognise a variable bound to itself asks the dialect to compare two
  payloads, and the dialect answers yes of every compound.\<close>

theorem apply_drops_compounds:
  assumes "\<And>x y. ident x y \<longleftrightarrow> x = y"
    and "list_all (\<lambda>(x, v). term_vars v = {} \<and> getArgs v \<noteq> []) subst"
    and "Suc (term_height t + Max (insert 0 (term_height ` snd ` set subst))) < n"
  shows "applySubstitution n ident collate t subst = Some t"
proof -
  have ground: "apply_subst m ident (DIALECT collate) v subst = Some v" if "term_vars v = {}" "term_height v < m" for m v
    using that
  proof (induction m arbitrary: v)
    case (Suc m)
    show ?case
    proof (cases v)
      case (Compound k args)
      have "apply_subst m ident (DIALECT collate) x subst = Some x" if "x \<in> set args" for x
        using Suc that Compound arg_height [OF that, of k] by auto
      moreover have "ident x x" for x using assms(1) by blast
      ultimately show ?thesis unfolding Compound by (intro apply_compound) blast+
    qed (use Suc.prems in \<open>auto split: if_splits\<close>)
  qed simp
  define h where "h = Max (insert 0 (term_height ` snd ` set subst))"
  have h: "term_height v \<le> h" if "(x, v) \<in> set subst" for x v
    unfolding h_def using that by (intro Max_ge) force+
  have "apply_subst m ident (DIALECT collate) t subst = Some t" if "Suc (term_height t + h) < m" for m t
    using that
  proof (induction m arbitrary: t)
    case (Suc m)
    show ?case
    proof (cases t)
      case (Atom s)
      show ?thesis
      proof (cases "isVariableSymbol s \<and> map_of subst s \<noteq> None")
        case True
        then obtain v where v: "map_of subst s = Some v" by blast
        then have "(s, v) \<in> set subst" by (rule map_of_SomeD)
        then have "term_vars v = {} \<and> getArgs v \<noteq> []" "term_height v \<le> h"
          using assms(2) h by (auto simp: list_all_iff)
        moreover from this obtain k args where "v = Compound k args" by (cases v) simp_all
        ultimately have "v = Compound k args" "term_vars v = {}" "term_height v \<le> h" by blast+
        then show ?thesis using ground [of v m] Suc.prems True v Atom by (simp del: apply_subst.simps term_height.simps(2) add: apply_subst.simps(2))
      qed (use Atom in \<open>auto split: option.splits\<close>)
    next
      case (Compound k args)
      have "apply_subst m ident (DIALECT collate) x subst = Some x" if "x \<in> set args" for x
        using Suc that Compound arg_height [OF that, of k] by auto
      moreover have "ident x x" for x using assms(1) by blast
      ultimately show ?thesis unfolding Compound by (intro apply_compound) blast+
    qed
  qed simp
  then show ?thesis using assms(3) by (simp add: applySubstitution_def h_def)
qed

theorem apply_drops_compounds_witness:
  "applySubstitution 9 (=) (\<lambda>a b. True) (Compound Inheritance [Atom ''$x'', Atom ''c''])
     [(''$x'', Compound Conjunction [Atom ''a'', Atom ''b''])]
   = Some (Compound Inheritance [Atom ''$x'', Atom ''c''])"
  by (rule apply_drops_compounds) (simp_all add: isVariableSymbol_def)

section \<open>The occurs check has a depth\<close>

fun nest :: "nat \<Rightarrow> narTerm \<Rightarrow> narTerm" where
  "nest 0 t = t"
| "nest (Suc n) t = Compound Negation [nest n t]"

lemma occurs_nest: "isVariableSymbol x \<Longrightarrow> occurs (DIALECT collate) x [] d (nest n (Atom x)) \<longleftrightarrow> n < d"
  by (induction n arbitrary: d) (case_tac d; simp)+

lemma nest_vars [simp]: "subst_term \<theta> (nest n t) = nest n (subst_term \<theta> t)"
  by (induction n) auto

lemma nest_height [simp]: "term_height (nest n t) = n + term_height t"
  by (induction n) auto

lemma apply_nest:
  assumes "isVariableSymbol x"
  shows "apply_subst m ident (DIALECT collate) (nest j (Atom x)) [(x, nest n (Atom x))] = None"
proof (induction m arbitrary: j)
  case (Suc m)
  then show ?case using assms by (cases j) simp_all
qed simp

text \<open>a variable can be bound to a term that contains it. The occurs check looks 64 levels down; a
  variable and the same variable below 64 or more negations unify, although no substitution makes
  the two equal, and applying the answer never returns.\<close>

theorem occurs_check_capped:
  assumes "isVariableSymbol x" "64 \<le> n" "\<not> ident (Atom x) (nest n (Atom x))"
  shows "run_unify ident (DIALECT collate) True (Atom x) (nest n (Atom x)) []
      = Some ([(x, nest n (Atom x))], [(x, nest n (Atom x))])
    \<and> (\<forall>\<theta>. subst_term \<theta> (Atom x) \<noteq> subst_term \<theta> (nest n (Atom x)))
    \<and> (\<forall>m. applySubstitution m ident collate (Atom x) [(x, nest n (Atom x))] = None)"
proof (intro conjI allI)
  obtain n' where n: "n = Suc n'" using assms(2) by (cases n) auto
  have unbound: "deref (DIALECT collate) [] d t = t" for d t
    by (cases d; cases t) simp_all
  have "\<not> occurs (DIALECT collate) x [] MAX_DEPTH (nest n (Atom x))"
    using occurs_nest [OF assms(1)] assms(2) by (simp add: MAX_DEPTH_def)
  then have "descend ident (DIALECT collate) True (Suc 63) (Atom x) (nest n (Atom x)) ([], [])
      = (True, ([(x, nest n (Atom x))], [(x, nest n (Atom x))]))"
    using assms(1,3) unbound n unfolding descend.simps(2)
    by (simp add: bind_var_def Let_def del: deref.simps occurs.simps descend.simps)
  then show "run_unify ident (DIALECT collate) True (Atom x) (nest n (Atom x)) []
      = Some ([(x, nest n (Atom x))], [(x, nest n (Atom x))])"
    by (simp add: run_unify_def MAX_DEPTH_def)
  show "subst_term \<theta> (Atom x) \<noteq> subst_term \<theta> (nest n (Atom x))" for \<theta>
    using nest_height [of n "\<theta> x"] assms(1,2) by (auto dest!: arg_cong [of _ _ term_height])
  show "applySubstitution m ident collate (Atom x) [(x, nest n (Atom x))] = None" for m
    using apply_nest [OF assms(1), of m ident collate 0 n] by (simp add: applySubstitution_def)
qed

theorem occurs_check_capped_witness:
  "\<forall>m. applySubstitution m (\<lambda>a b. False) (\<lambda>a b. True) (Atom ''$x'') [(''$x'', nest 64 (Atom ''$x''))] = None"
proof -
  have "isVariableSymbol ''$x''" by code_simp
  from occurs_check_capped [OF this, of 64 "\<lambda>a b. False" "\<lambda>a b. True"] show ?thesis by simp
qed

end
