(* ===== verification/Unify_Memo.thy ===== *)
theory Unify_Memo
  imports Term_Unify
begin

text \<open>
  The memo of the unifier (\<open>util/src/utils/unify.ts\<close>): the answer to a request is kept under a
  key spelled from both nodes, the bindings and the occurs check, as the list of bindings it added.
\<close>

section \<open>The memo\<close>

lemma replay_delta_append [simp]: "replay_delta w (d @ e) = replay_delta (replay_delta w d) e"
  by (simp add: replay_delta_def)

text \<open>\<open>extends_by\<close>: what a run adds to the work, it also writes down.\<close>

definition extends_by :: "'a work \<Rightarrow> 'a work \<Rightarrow> bool" where
  "extends_by st st' \<longleftrightarrow> (\<exists>d. snd st' = snd st @ d \<and> fst st' = replay_delta (fst st) d)"

lemma extends_refl [simp]: "extends_by st st"
  by (simp add: extends_by_def replay_delta_def)

lemma extends_trans: "extends_by a b \<Longrightarrow> extends_by b c \<Longrightarrow> extends_by a c"
  unfolding extends_by_def by auto

lemma bind_extends: "extends_by st (snd (bind_var ast check var value st))"
  by (cases st) (auto simp: bind_var_def extends_by_def replay_delta_def)

lemma pairs_extends:
  assumes "\<And>x y st. extends_by st (snd (f x y st))"
  shows "extends_by st (snd (descend_pairs f xs ys st))"
proof (induction xs ys arbitrary: st rule: list_induct2')
  case (4 x xs y ys)
  obtain b st' where f: "f x y st = (b, st')" by (cases "f x y st") auto
  then have "extends_by st st'" using assms [of st x y] by simp
  then show ?case using f 4 [of st'] by (cases b) (auto elim: extends_trans)
qed simp_all

lemma descend_extends: "extends_by st (snd (descend ident ast check d a b st))"
proof (induction d arbitrary: a b st)
  case (Suc d)
  let ?l = "deref ast (fst st) MAX_DEPTH a" and ?r = "deref ast (fst st) MAX_DEPTH b"
  have "extends_by st (snd (descend_pairs (descend ident ast check d) (children ast ?l) (children ast ?r) st))"
    by (rule pairs_extends) (rule Suc.IH)
  then show ?case using bind_extends [of st] by (auto simp: Let_def split: option.splits)
qed simp

lemma run_replays:
  assumes "run_unify ident ast check a b subst = Some (work, added)"
  shows "replay_delta subst added = work"
  using descend_extends [of "(subst, [])" ident ast check MAX_DEPTH a b] assms
  by (auto simp: run_unify_def extends_by_def split: prod.splits bool.splits)

text \<open>The requests an unifier is asked, and what it should answer.\<close>

record 'a request =
  q_left :: 'a
  q_right :: 'a
  q_subst :: "'a substitution"
  q_check :: bool

definition requestKey :: "('a, 'z) unifierDialect_scheme \<Rightarrow> 'a request \<Rightarrow> string" where
  "requestKey ast q = memoKey ast (q_left q) (q_right q) (q_subst q) (q_check q)"

definition answer :: "('a \<Rightarrow> 'a \<Rightarrow> bool) \<Rightarrow> ('a, 'z) equalityDialect_scheme \<Rightarrow> 'a request \<Rightarrow> 'a work option" where
  "answer ident ast q = run_unify ident ast (q_check q) (q_left q) (q_right q) (q_subst q)"

definition ask :: "('a \<Rightarrow> 'a \<Rightarrow> bool) \<Rightarrow> ('a, 'z) unifier \<Rightarrow> 'a request \<Rightarrow> 'a substitution option \<times> ('a, 'z) unifier" where
  "ask ident u q = unify ident u (q_left q) (q_right q) (q_subst q) (q_check q) None"

fun ask_all ::
  "('a \<Rightarrow> 'a \<Rightarrow> bool) \<Rightarrow> ('a, 'z) unifier \<Rightarrow> 'a request list \<Rightarrow> 'a substitution option list" where
  "ask_all ident u [] = []"
| "ask_all ident u (q # qs) = (case ask ident u q of (s, u') \<Rightarrow> s # ask_all ident u' qs)"

definition memo_true ::
  "('a \<Rightarrow> 'a \<Rightarrow> bool) \<Rightarrow> 'a request set \<Rightarrow> ('a, 'z) unifier \<Rightarrow> bool" where
  "memo_true ident R u \<longleftrightarrow>
     (case u_memo u of
        None \<Rightarrow> True
      | Some cache \<Rightarrow> bm_inv cache \<and>
          (\<forall>q \<in> R. \<forall>d. bm_look 0 cache (requestKey (u_ast u) q) = Some d
             \<longrightarrow> d = map_option snd (answer ident (u_ast u) q)))"

lemma newUnifier_true: "memo_true ident R (newUnifier ast memoize capacity)"
proof -
  have "bm_look 0 (newLruCache n :: (string, 'a delta) lruCache) k = None" for n k
    by (simp add: bm_look_def newLruCache_def newBoundedMap_def boundedMap.defs)
  then show ?thesis by (simp add: memo_true_def newUnifier_def newLruCache_inv split: option.split)
qed

lemma ask_true:
  assumes "memo_true ident R u" "q \<in> R" "inj_on (requestKey (u_ast u)) R"
  shows "fst (ask ident u q) = map_option fst (answer ident (u_ast u) q)
    \<and> memo_true ident R (snd (ask ident u q)) \<and> u_ast (snd (ask ident u q)) = u_ast u"
proof (cases "u_memo u")
  case None
  then show ?thesis using assms(1) by (simp add: ask_def unify_def answer_def memo_true_def Let_def)
next
  case (Some cache)
  let ?key = "requestKey (u_ast u) q" and ?miss = "answer ident (u_ast u) q"
  obtain hit cache' where g: "lru_get 0 cache ?key = (hit, cache')" by (cases "lru_get 0 cache ?key")
  have inv: "bm_inv cache" and true: "\<And>q' d. q' \<in> R \<Longrightarrow> bm_look 0 cache (requestKey (u_ast u) q') = Some d
      \<Longrightarrow> d = map_option snd (answer ident (u_ast u) q')"
    using assms(1) Some by (auto simp: memo_true_def)
  have hit: "hit = bm_look 0 cache ?key" and look: "bm_look 0 cache' = bm_look 0 cache" and inv': "bm_inv cache'"
    using lru_store.get_value [OF inv, of 0 ?key] lru_store.get_frame [OF inv, of 0 ?key]
      lru_store.get_inv [OF inv, of 0 ?key] g by simp_all
  have ask: "ask ident u q =
      (case hit of
         Some None \<Rightarrow> (None, u\<lparr>u_memo := Some cache'\<rparr>)
       | Some (Some delta) \<Rightarrow> (Some (replay_delta (q_subst q) delta), u\<lparr>u_memo := Some cache'\<rparr>)
       | None \<Rightarrow> (map_option fst ?miss, u\<lparr>u_memo := Some (bm_set 0 0 cache' ?key (map_option snd ?miss))\<rparr>))"
    using Some g unfolding requestKey_def answer_def by (cases hit) (simp_all add: ask_def unify_def Let_def split: option.split)
  show ?thesis
  proof (cases hit)
    case None
    let ?new = "bm_set 0 0 cache' ?key (map_option snd ?miss)"
    have "d = map_option snd (answer ident (u_ast u) q')"
      if "q' \<in> R" "bm_look 0 ?new (requestKey (u_ast u) q') = Some d" for q' d
    proof (cases "q' = q")
      case True
      then show ?thesis using that(2) lru_store.put_same [OF inv', of 0 ?key] by simp
    next
      case False
      then have "requestKey (u_ast u) q' \<noteq> ?key" using assms(2,3) that(1) by (auto dest: inj_onD)
      from lru_store.put_other [OF inv' this, of 0 "map_option snd ?miss"]
      show ?thesis using true [OF that(1)] that(2) look by auto
    qed
    moreover have "bm_inv ?new" using lru_store.put_inv [OF inv'] by simp
    ultimately show ?thesis using None ask by (simp add: memo_true_def)
  next
    case (Some d)
    then have d: "d = map_option snd ?miss" using true [OF assms(2)] hit by simp
    have "memo_true ident R (u\<lparr>u_memo := Some cache'\<rparr>)" using inv' true look by (simp add: memo_true_def)
    moreover have "(case d of None \<Rightarrow> None | Some delta \<Rightarrow> Some (replay_delta (q_subst q) delta)) = map_option fst ?miss"
      using d run_replays [of ident "u_ast u" "q_check q" "q_left q" "q_right q" "q_subst q"]
      by (cases ?miss) (auto simp: answer_def)
    ultimately show ?thesis using Some ask by (cases d) simp_all
  qed
qed

text \<open>C25: the memo is transparent as far as its keys are. On any run of requests whose keys differ, a
  fresh unifier of any capacity, memoizing or not, answers each request as the unifier without a
  memo does.\<close>

theorem memo_transparent:
  assumes "inj_on (requestKey ast) (set qs)"
  shows "ask_all ident (newUnifier ast memoize capacity) qs = map (\<lambda>q. map_option fst (answer ident ast q)) qs"
proof -
  have "ask_all ident u rs = map (\<lambda>q. map_option fst (answer ident ast q)) rs"
    if "memo_true ident (set qs) u" "u_ast u = ast" "set rs \<subseteq> set qs" for u rs
    using that
  proof (induction rs arbitrary: u)
    case (Cons q rs)
    obtain s u' where a: "ask ident u q = (s, u')" by (cases "ask ident u q")
    have "q \<in> set qs" using Cons.prems(3) by simp
    from ask_true [OF Cons.prems(1) this] assms Cons.prems(2)
    have "s = map_option fst (answer ident ast q)" "memo_true ident (set qs) u'" "u_ast u' = ast"
      using a by simp_all
    then show ?case using Cons a by simp
  qed simp
  moreover have "u_ast (newUnifier ast memoize capacity) = ast" by (simp add: newUnifier_def)
  ultimately show ?thesis using newUnifier_true by blast
qed

theorem memo_transparent_witness:
  "ask_all (\<lambda>x y. False) (termUnifier (\<lambda>a b. True))
     [\<lparr>q_left = Atom ''$x'', q_right = Atom ''b'', q_subst = [], q_check = True\<rparr>,
      \<lparr>q_left = Atom ''b'', q_right = Atom ''c'', q_subst = [], q_check = True\<rparr>] =
   [Some [(''$x'', Atom ''b'')], None]"
proof -
  let ?q1 = "\<lparr>q_left = Atom ''$x'', q_right = Atom ''b'', q_subst = [], q_check = True\<rparr>"
    and ?q2 = "\<lparr>q_left = Atom ''b'', q_right = Atom ''c'', q_subst = [], q_check = True\<rparr>"
  have "inj_on (requestKey (DIALECT (\<lambda>a b. True))) (set [?q1, ?q2])"
    by (simp add: requestKey_def memoKey_def atomKey_def Let_def)
  note memo_transparent [OF this, of "\<lambda>x y. False" None None]
  also have "map (\<lambda>q. map_option fst (answer (\<lambda>x y. False) (DIALECT (\<lambda>a b. True)) q)) [?q1, ?q2]
      = [Some [(''$x'', Atom ''b'')], None]"
    by code_simp
  finally show ?thesis unfolding termUnifier_def .
qed

end
