(* ===== verification/Fenwick.thy ===== *)
theory Fenwick
  imports Collections
begin

unbundle bit_operations_syntax

text \<open>
  The Fenwick tree of \<open>util/src/bag/fenwick.ts\<close>: prefix sums of the priorities of a bag, for
  priority-weighted sampling. Node \<open>i\<close> of the tree (from 1) holds the sum of the \<open>lowbit i\<close>
  priorities that end at position \<open>i\<close>. Priorities are reals.
\<close>

text \<open>\<open>i & -i\<close>, in 32 bits in the code; a capacity is far below \<open>2^31\<close>.\<close>

definition lowbit :: "nat \<Rightarrow> nat" where
  "lowbit i = nat (int i AND - int i)"

text \<open>The loop starts at 1, so its mask is never 0.\<close>

function highestBit_loop :: "nat \<Rightarrow> nat \<Rightarrow> nat" where
  "highestBit_loop hi n = (if 0 < hi \<and> hi * 2 \<le> n then highestBit_loop (hi * 2) n else hi)"
  by auto
termination by (relation "measure (\<lambda>(hi, n). n - hi)") auto

definition highestBit :: "nat \<Rightarrow> nat" where
  "highestBit n = highestBit_loop 1 n"

definition new_tree :: "nat \<Rightarrow> real list" where
  "new_tree capacity = replicate (capacity + 1) 0"

lemma lowbit_double [simp]: "lowbit (2 * n) = 2 * lowbit n"
proof -
  have "- (2 * int n) div 2 = - int n" by simp
  then have "(2 * int n) AND (- (2 * int n)) = 2 * (int n AND - int n)"
    by (simp add: and_int_rec [of "2 * int n"])
  then show ?thesis by (simp add: lowbit_def nat_mult_distrib)
qed

lemma lowbit_odd [simp]: "lowbit (Suc (2 * n)) = 1"
proof -
  have "- (1 + 2 * int n) div 2 = - int n - 1" by simp
  moreover have "int n AND (- int n - 1) = 0"
    using bit.conj_cancel_right [of "int n"] by (simp add: not_eq_complement)
  ultimately have "(1 + 2 * int n) AND (- (1 + 2 * int n)) = 1"
    by (simp add: and_int_rec [of "1 + 2 * int n"])
  then show ?thesis by (simp add: lowbit_def)
qed

lemma lowbit_power: "lowbit (2 ^ k * Suc (2 * m)) = 2 ^ k"
proof (induction k)
  case (Suc k)
  have "lowbit (2 ^ Suc k * Suc (2 * m)) = lowbit (2 * (2 ^ k * Suc (2 * m)))" by (simp only: power_Suc mult.assoc)
  then show ?case using Suc by (simp only: lowbit_double power_Suc)
qed (simp only: power_0 mult_1 lowbit_odd)

lemma power_decomposition:
  assumes "0 < n"
  obtains k m where "n = 2 ^ k * Suc (2 * m)"
  using assms
proof (induction n arbitrary: thesis rule: less_induct)
  case (less n)
  show ?case
  proof (cases "even n")
    case True
    then obtain h where h: "n = 2 * h" by blast
    then obtain k m where "h = 2 ^ k * Suc (2 * m)" using less.IH [of h] less.prems(2) by auto
    then show ?thesis using less.prems(1) [of "Suc k" m] h by simp
  next
    case False
    then obtain m where "n = Suc (2 * m)" by (auto elim: oddE)
    then show ?thesis using less.prems(1) [of 0 m] by simp
  qed
qed

lemma lowbit_pos: "0 < n \<Longrightarrow> 0 < lowbit n"
  by (metis power_decomposition lowbit_power zero_less_power zero_less_numeral)

lemma lowbit_le: "lowbit n \<le> n"
proof (cases "n = 0")
  case False
  then obtain k m where "n = 2 ^ k * Suc (2 * m)" using power_decomposition by blast
  then show ?thesis using lowbit_power [of k m] by simp
qed (simp add: lowbit_def)

section \<open>The operations\<close>

text \<open>\<open>add\<close> starts at node \<open>index + 1\<close>, never 0.\<close>

function add_loop :: "real list \<Rightarrow> nat \<Rightarrow> real \<Rightarrow> real list" where
  "add_loop tree i delta =
     (if 0 < i \<and> i < length tree then add_loop (tree[i := tree ! i + delta]) (i + lowbit i) delta else tree)"
  by auto
termination add_loop
  by (relation "measure (\<lambda>(tree, i, delta). length tree - i)") (use lowbit_pos in \<open>auto intro!: diff_less_mono2\<close>)

definition fenwick_add :: "real list \<Rightarrow> nat \<Rightarrow> real \<Rightarrow> real list" where
  "fenwick_add tree index delta = add_loop tree (index + 1) delta"

function find_loop :: "real list \<Rightarrow> nat \<Rightarrow> nat \<Rightarrow> nat \<Rightarrow> real \<Rightarrow> nat" where
  "find_loop tree n step idx remaining =
     (if 0 < step then
        (let nxt = idx + step
         in if nxt < n \<and> tree ! nxt < remaining
            then find_loop tree n (step div 2) nxt (remaining - tree ! nxt)
            else find_loop tree n (step div 2) idx remaining)
      else idx)"
  by auto
termination find_loop by (relation "measure (\<lambda>(tree, n, step, idx, remaining). step)") auto

definition findByPrefixSum :: "real list \<Rightarrow> real \<Rightarrow> nat \<Rightarrow> nat" where
  "findByPrefixSum tree target n = find_loop tree n (highestBit n) 0 target"

text \<open>The priorities are written from node 1; the array grows when there are more of them than the
  capacity.\<close>

function rebuild_loop :: "real list \<Rightarrow> nat \<Rightarrow> nat \<Rightarrow> real list" where
  "rebuild_loop tree i n =
     (if i \<le> n then
        (let parent = i + lowbit i
         in rebuild_loop (if parent \<le> n then tree[parent := tree ! parent + tree ! i] else tree) (Suc i) n)
      else tree)"
  by auto
termination rebuild_loop by (relation "measure (\<lambda>(tree, i, n). Suc n - i)") auto

definition fenwick_rebuild :: "real list \<Rightarrow> real list \<Rightarrow> real list" where
  "fenwick_rebuild tree priorities =
     (let n = length priorities
      in rebuild_loop (0 # priorities @ replicate (length tree - Suc n) 0) 1 n)"

declare highestBit_loop.simps [simp del] add_loop.simps [simp del] find_loop.simps [simp del] rebuild_loop.simps [simp del]

section \<open>What the nodes hold\<close>

definition prefix_sum :: "real list \<Rightarrow> nat \<Rightarrow> real" where
  "prefix_sum ps i = sum_list (take i ps)"

definition node :: "real list \<Rightarrow> nat \<Rightarrow> real" where
  "node ps i = prefix_sum ps i - prefix_sum ps (i - lowbit i)"

lemma prefix_sum_0 [simp]: "prefix_sum ps 0 = 0"
  by (simp add: prefix_sum_def)

lemma prefix_sum_all: "length ps \<le> n \<Longrightarrow> prefix_sum ps n = sum_list ps"
  by (simp add: prefix_sum_def)

lemma prefix_sum_Suc: "i < length ps \<Longrightarrow> prefix_sum ps (Suc i) = prefix_sum ps i + ps ! i"
  by (simp add: prefix_sum_def take_Suc_conv_app_nth)

lemma prefix_sum_mono:
  assumes "list_all (\<lambda>p. 0 \<le> p) ps" "i \<le> j"
  shows "prefix_sum ps i \<le> prefix_sum ps j"
proof -
  have "take j ps = take i ps @ take (j - i) (drop i ps)"
    using take_add [of i "j - i" ps] assms(2) by simp
  moreover have "0 \<le> sum_list (take (j - i) (drop i ps))"
    using assms(1) by (intro sum_list_nonneg) (auto simp: list_all_iff dest!: in_set_takeD in_set_dropD)
  ultimately show ?thesis by (simp add: prefix_sum_def)
qed

text \<open>The children of a node are the nodes one, two, four, \<open>\<dots>\<close> below it.\<close>

definition child_nodes :: "nat \<Rightarrow> nat set" where
  "child_nodes j = {i. 0 < i \<and> i + lowbit i = j}"

lemma lowbit_below:
  assumes "lowbit j = 2 ^ k" "0 < j" "e < k"
  shows "lowbit (j - 2 ^ e) = 2 ^ e" "0 < j - 2 ^ e" "j - 2 ^ e + 2 ^ e = j"
proof -
  obtain k' m where j: "j = 2 ^ k' * Suc (2 * m)" using power_decomposition [OF assms(2)] by blast
  then have "k' = k" using assms(1) lowbit_power [of k' m] by simp
  define q where "q = 2 ^ (k - Suc e) * Suc (2 * m)"
  have "(2::nat) ^ k = 2 ^ e * (2 * 2 ^ (k - Suc e))"
    using assms(3) power_add [of "2::nat" "Suc e" "k - Suc e"] by simp
  then have "j = 2 ^ e * (2 * q)" using j \<open>k' = k\<close> by (simp only: q_def mult.assoc)
  moreover have "0 < q" by (simp add: q_def)
  ultimately have q: "0 < q" "j = 2 ^ e * (2 * q)" by blast+
  then have *: "j - 2 ^ e = 2 ^ e * Suc (2 * (q - 1))"
    by (cases q) (simp_all add: algebra_simps)
  show "lowbit (j - 2 ^ e) = 2 ^ e" unfolding * by (rule lowbit_power)
  show "0 < j - 2 ^ e" unfolding * by simp
  then show "j - 2 ^ e + 2 ^ e = j" by simp
qed

lemma child_nodes_eq:
  assumes "lowbit j = 2 ^ k" "0 < j"
  shows "child_nodes j = (\<lambda>e. j - 2 ^ e) ` {..<k}"
proof -
  have "\<exists>e < k. i = j - 2 ^ e" if "0 < i" "i + lowbit i = j" for i
  proof -
    obtain a b where i: "i = 2 ^ a * Suc (2 * b)" using power_decomposition [OF \<open>0 < i\<close>] by blast
    obtain k' m where j: "j = 2 ^ k' * Suc (2 * m)" using power_decomposition [OF assms(2)] by blast
    then have k: "k' = k" using assms(1) lowbit_power [of k' m] by simp
    have a: "lowbit i = 2 ^ a" unfolding i by (rule lowbit_power)
    then have jj: "j = 2 ^ Suc a * Suc b" using that i by simp
    have "a < k"
    proof (rule ccontr)
      assume "\<not> a < k"
      then have "2 ^ Suc a = 2 ^ k * (2 * 2 ^ (a - k) :: nat)"
        using power_add [of "2::nat" k "a - k"] by simp
      then have "2 ^ k * Suc (2 * m) = 2 ^ k * (2 * (2 ^ (a - k) * Suc b))"
        using j jj k by (simp only: mult.assoc)
      then have "Suc (2 * m) = 2 * (2 ^ (a - k) * Suc b)" by (simp only: mult_cancel1) simp
      then show False by presburger
    qed
    moreover have "i = j - 2 ^ a" using that a by simp
    ultimately show ?thesis by blast
  qed
  then have "child_nodes j \<subseteq> (\<lambda>e. j - 2 ^ e) ` {..<k}" unfolding child_nodes_def by blast
  moreover have "(\<lambda>e. j - 2 ^ e) ` {..<k} \<subseteq> child_nodes j"
    using lowbit_below [OF assms] by (auto simp: child_nodes_def)
  ultimately show ?thesis by blast
qed

lemma child_sum:
  assumes "0 < j"
  shows "finite (child_nodes j)" "(\<Sum>i \<in> child_nodes j. node ps i) = prefix_sum ps (j - 1) - prefix_sum ps (j - lowbit j)"
proof -
  obtain k m where j: "j = 2 ^ k * Suc (2 * m)" using power_decomposition [OF assms] by blast
  then have k: "lowbit j = 2 ^ k" using lowbit_power by simp
  note below = lowbit_below [OF k assms]
  show "finite (child_nodes j)" by (simp add: child_nodes_eq [OF k assms])
  have "inj_on (\<lambda>e. j - 2 ^ e) {..<k}"
  proof (rule inj_onI)
    fix e e' assume "e \<in> {..<k}" "e' \<in> {..<k}" "j - 2 ^ e = j - 2 ^ e'"
    moreover from this have "j - 2 ^ e + 2 ^ e = j" "j - 2 ^ e' + 2 ^ e' = j" using below(3) by blast+
    ultimately have "(2::nat) ^ e = 2 ^ e'" by linarith
    then show "e = e'" by simp
  qed
  then have "(\<Sum>i \<in> child_nodes j. node ps i) = (\<Sum>e < k. node ps (j - 2 ^ e))"
    by (simp add: child_nodes_eq [OF k assms] sum.reindex)
  also have "\<dots> = (\<Sum>e < k. prefix_sum ps (j - 2 ^ e) - prefix_sum ps (j - 2 ^ Suc e))"
    using below(1) by (intro sum.cong) (simp_all add: node_def mult_2)
  also have "\<dots> = prefix_sum ps (j - 2 ^ 0) - prefix_sum ps (j - 2 ^ k)"
    by (rule sum_lessThan_telescope')
  finally show "(\<Sum>i \<in> child_nodes j. node ps i) = prefix_sum ps (j - 1) - prefix_sum ps (j - lowbit j)"
    using k by simp
qed

text \<open>The nodes up to \<open>n\<close> hold what they should.\<close>

definition nodes_hold :: "real list \<Rightarrow> real list \<Rightarrow> nat \<Rightarrow> bool" where
  "nodes_hold tree ps n \<longleftrightarrow> n < length tree \<and> (\<forall>i. 0 < i \<and> i \<le> n \<longrightarrow> tree ! i = node ps i)"

text \<open>While the loop is at \<open>m\<close>, a node has its own priority and its children below \<open>m\<close>.\<close>

definition half_built :: "real list \<Rightarrow> real list \<Rightarrow> nat \<Rightarrow> bool" where
  "half_built tree ps m \<longleftrightarrow> length ps < length tree \<and>
     (\<forall>j. 0 < j \<and> j \<le> length ps \<longrightarrow> tree ! j = ps ! (j - 1) + (\<Sum>i \<in> {i \<in> child_nodes j. i < m}. node ps i))"

lemma half_built_node:
  assumes "half_built tree ps m" "0 < j" "j \<le> m" "j \<le> length ps"
  shows "tree ! j = node ps j"
proof -
  have "i < m" if "i \<in> child_nodes j" for i
    using that assms(3) lowbit_pos [of i] by (auto simp: child_nodes_def)
  then have "{i \<in> child_nodes j. i < m} = child_nodes j" by blast
  then have "tree ! j = ps ! (j - 1) + (prefix_sum ps (j - 1) - prefix_sum ps (j - lowbit j))"
    using assms child_sum(2) [OF assms(2), of ps] by (simp add: half_built_def)
  also have "\<dots> = node ps j"
    using prefix_sum_Suc [of "j - 1" ps] assms by (simp add: node_def)
  finally show ?thesis .
qed

lemma half_built_step:
  assumes "half_built tree ps m" "0 < m" "m \<le> length ps"
  shows "half_built (if m + lowbit m \<le> length ps then tree[m + lowbit m := tree ! (m + lowbit m) + tree ! m] else tree)
    ps (Suc m)"
proof -
  let ?p = "m + lowbit m"
  have m: "tree ! m = node ps m" using half_built_node [OF assms(1,2) order_refl assms(3)] .
  have split: "{i \<in> child_nodes j. i < Suc m} = (if j = ?p then insert m {i \<in> child_nodes j. i < m} else {i \<in> child_nodes j. i < m})" for j
    using assms(2) by (auto simp: child_nodes_def less_Suc_eq)
  have fin: "finite {i \<in> child_nodes ?p. i < m}" by (rule finite_subset [of _ "{..<m}"]) auto
  show ?thesis
  proof (cases "?p \<le> length ps")
    case True
    then have "length ps < length tree" using assms(1) by (simp add: half_built_def)
    then show ?thesis
      using assms(1) True m fin unfolding half_built_def split by (auto simp: nth_list_update)
  next
    case False
    then have "0 < j \<and> j \<le> length ps \<Longrightarrow> j \<noteq> ?p" for j by auto
    then show ?thesis using assms(1) False unfolding half_built_def split by auto
  qed
qed

lemma rebuild_loop_built:
  assumes "half_built tree ps m" "0 < m"
  shows "half_built (rebuild_loop tree m (length ps)) ps (max m (Suc (length ps)))
    \<and> length (rebuild_loop tree m (length ps)) = length tree"
  using assms
proof (induction tree m "length ps" rule: rebuild_loop.induct)
  case (1 tree m)
  let ?next = "if m + lowbit m \<le> length ps then tree[m + lowbit m := tree ! (m + lowbit m) + tree ! m] else tree"
  show ?case
  proof (cases "m \<le> length ps")
    case True
    have "half_built ?next ps (Suc m)" using half_built_step 1 True by blast
    then have "half_built (rebuild_loop ?next (Suc m) (length ps)) ps (max (Suc m) (Suc (length ps)))
      \<and> length (rebuild_loop ?next (Suc m) (length ps)) = length ?next"
      using "1.hyps" [OF True refl] by simp
    moreover have "rebuild_loop tree m (length ps) = rebuild_loop ?next (Suc m) (length ps)"
      using True by (simp add: rebuild_loop.simps [of tree m] Let_def)
    ultimately show ?thesis using True by (simp add: max_def split: if_splits)
  next
    case False
    then have "max m (Suc (length ps)) = m" by simp
    then show ?thesis using 1 False by (simp add: rebuild_loop.simps [of tree m])
  qed
qed

lemma rebuild_nodes:
  "nodes_hold (fenwick_rebuild tree ps) ps (length ps)"
  "length ps < length tree \<Longrightarrow> length (fenwick_rebuild tree ps) = length tree"
proof -
  let ?base = "0 # ps @ replicate (length tree - Suc (length ps)) 0"
  have none: "{i \<in> child_nodes j. i < 1} = {}" for j by (auto simp: child_nodes_def)
  have "half_built ?base ps 1"
    unfolding half_built_def none by (auto simp: nth_append nth_Cons')
  from rebuild_loop_built [OF this]
  have b: "half_built (fenwick_rebuild tree ps) ps (Suc (length ps))" "length (fenwick_rebuild tree ps) = length ?base"
    by (simp_all add: fenwick_rebuild_def Let_def max_def)
  then show "nodes_hold (fenwick_rebuild tree ps) ps (length ps)"
    using half_built_node [OF b(1)] by (simp add: nodes_hold_def half_built_def)
  show "length (fenwick_rebuild tree ps) = length tree" if "length ps < length tree" using b(2) that by simp
qed

lemma add_loop_above: "j < i \<Longrightarrow> add_loop tree i d ! j = tree ! j \<and> length (add_loop tree i d) = length tree"
proof (induction tree i d rule: add_loop.induct)
  case (1 tree i d)
  then show ?case by (cases "0 < i \<and> i < length tree") (auto simp: add_loop.simps [of tree i])
qed

lemma length_fenwick_add [simp]: "length (fenwick_add tree k d) = length tree"
  using add_loop_above [of k "k + 1" tree d] by (simp add: fenwick_add_def)

lemma fenwick_add_below: "j \<le> k \<Longrightarrow> fenwick_add tree k d ! j = tree ! j"
  using add_loop_above [of j "k + 1" tree d] by (simp add: fenwick_add_def)

section \<open>What the search finds\<close>

lemma highestBit_power:
  assumes "0 < n"
  shows "\<exists>e. highestBit n = 2 ^ e \<and> 2 ^ e \<le> n \<and> n < 2 * 2 ^ e"
proof -
  have "2 ^ e \<le> n \<Longrightarrow> \<exists>e'. highestBit_loop (2 ^ e) n = 2 ^ e' \<and> 2 ^ e' \<le> n \<and> n < 2 * 2 ^ e'" for e
  proof (induction "2 ^ e :: nat" n arbitrary: e rule: highestBit_loop.induct)
    case (1 n e)
    show ?case
    proof (cases "2 ^ e * 2 \<le> n")
      case True
      then show ?thesis using 1(1) [of "Suc e"] by (simp add: highestBit_loop.simps [of "2 ^ e"] mult.commute)
    next
      case False
      then show ?thesis using 1(2) by (auto simp: highestBit_loop.simps [of "2 ^ e"] mult.commute intro!: exI [of _ e])
    qed
  qed
  from this [of 0] show ?thesis using assms by (simp add: highestBit_def)
qed

text \<open>\<open>last_below\<close>: the last position whose prefix sum is still below the target, or the first.\<close>

definition last_below :: "real list \<Rightarrow> nat \<Rightarrow> real \<Rightarrow> nat \<Rightarrow> bool" where
  "last_below ps n target idx \<longleftrightarrow> idx < n \<and> (idx = 0 \<or> prefix_sum ps idx < target)
     \<and> (Suc idx < n \<longrightarrow> target \<le> prefix_sum ps (Suc idx))"

lemma lowbit_offset: "0 < c \<Longrightarrow> 2 * 2 ^ e dvd idx \<Longrightarrow> c = (2::nat) ^ e \<Longrightarrow> lowbit (idx + c) = c"
proof -
  assume "c = 2 ^ e" "2 * 2 ^ e dvd idx"
  then obtain q where "idx = 2 ^ e * (2 * q)" by (auto elim!: dvdE)
  then have "idx + c = 2 ^ e * Suc (2 * q)" using \<open>c = 2 ^ e\<close> by simp
  then show "lowbit (idx + c) = c" using lowbit_power [of e q] \<open>c = 2 ^ e\<close> by (simp only:)
qed

lemma find_loop_below:
  assumes "nodes_hold tree ps (n - 1)" "idx < n" "idx = 0 \<or> prefix_sum ps idx < target"
    and "2 ^ e dvd idx" "idx + 2 ^ e < n \<longrightarrow> target \<le> prefix_sum ps (idx + 2 ^ e)"
  shows "last_below ps n target (find_loop tree n (2 ^ e div 2) idx (target - prefix_sum ps idx))"
  using assms(2-)
proof (induction e arbitrary: idx)
  case 0
  then show ?case by (simp add: find_loop.simps [of _ _ 0] last_below_def)
next
  case (Suc e)
  let ?nxt = "idx + 2 ^ e"
  have half: "2 ^ Suc e div 2 = (2::nat) ^ e" by simp
  have low: "lowbit ?nxt = 2 ^ e" using Suc.prems(3) by (intro lowbit_offset) simp_all
  have tree: "tree ! ?nxt = prefix_sum ps ?nxt - prefix_sum ps idx" if "?nxt < n"
    using assms(1) that low by (simp add: nodes_hold_def node_def)
  show ?case
  proof (cases "?nxt < n \<and> tree ! ?nxt < target - prefix_sum ps idx")
    case True
    then have t: "tree ! ?nxt = prefix_sum ps ?nxt - prefix_sum ps idx" using tree by blast
    have "find_loop tree n (2 ^ e) idx (target - prefix_sum ps idx)
        = find_loop tree n (2 ^ e div 2) ?nxt (target - prefix_sum ps ?nxt)"
      using True t by (subst find_loop.simps) (simp add: Let_def)
    moreover have "(2::nat) ^ e dvd ?nxt" using Suc.prems(3) by (auto intro: dvd_mult_right)
    moreover have "?nxt + 2 ^ e < n \<longrightarrow> target \<le> prefix_sum ps (?nxt + 2 ^ e)"
      using Suc.prems(4) by (simp add: mult_2 add.assoc)
    ultimately show ?thesis using Suc.IH [of ?nxt] True t half by simp
  next
    case False
    then have "find_loop tree n (2 ^ e) idx (target - prefix_sum ps idx)
        = find_loop tree n (2 ^ e div 2) idx (target - prefix_sum ps idx)"
      by (subst find_loop.simps) (auto simp: Let_def)
    moreover have "(2::nat) ^ e dvd idx" using Suc.prems(3) by (auto intro: dvd_mult_right)
    moreover have "?nxt < n \<longrightarrow> target \<le> prefix_sum ps ?nxt" using False tree by auto
    ultimately show ?thesis using Suc.IH [of idx] Suc.prems half by simp
  qed
qed

lemma find_below:
  assumes "nodes_hold tree ps (n - 1)" "0 < n"
  shows "last_below ps n target (findByPrefixSum tree target n)"
proof -
  obtain e where e: "highestBit n = 2 ^ e" "n < 2 * 2 ^ e" using highestBit_power [OF assms(2)] by blast
  have "last_below ps n target (find_loop tree n (2 ^ Suc e div 2) 0 (target - prefix_sum ps 0))"
    using assms e(2) by (intro find_loop_below) simp_all
  then show ?thesis using e(1) by (simp add: findByPrefixSum_def)
qed

section \<open>What an update changes\<close>

text \<open>Node \<open>j\<close> sums the positions after \<open>j - lowbit j\<close> up to \<open>j\<close>. The loop of \<open>add\<close> visits exactly the
  nodes whose sum takes in the position.\<close>

definition covers :: "nat \<Rightarrow> nat \<Rightarrow> bool" where
  "covers j i \<longleftrightarrow> j - lowbit j < i \<and> i \<le> j"

lemma multiple_gap: "(d :: nat) dvd x \<Longrightarrow> d dvd y \<Longrightarrow> x < y \<Longrightarrow> x + d \<le> y"
  by (metis dvd_diff_nat dvd_imp_le le_add_diff_inverse less_imp_le_nat nat_add_left_cancel_le zero_less_diff)

lemma covers_next:
  assumes "0 < i" "0 < j" "j \<noteq> i"
  shows "covers j i \<longleftrightarrow> covers j (i + lowbit i)"
proof -
  obtain a b where i: "i = 2 ^ a * Suc (2 * b)" using power_decomposition [OF assms(1)] by blast
  obtain c m where j: "j = 2 ^ c * Suc (2 * m)" using power_decomposition [OF assms(2)] by blast
  have li: "lowbit i = 2 ^ a" and lj: "lowbit j = 2 ^ c" using i j lowbit_power by blast+
  define base where "base = 2 ^ c * (2 * m)"
  have base: "j - lowbit j = base" "j = base + 2 ^ c" using j lj by (simp_all add: base_def)
  have nxt: "i + lowbit i = 2 ^ Suc a * Suc b" using i li by simp
  have low: "i = 2 ^ Suc a * b + 2 ^ a" using i by simp
  show ?thesis
  proof (cases "a < c")
    case True
    then have d: "2 ^ Suc a dvd base" "2 ^ a dvd j" "(2::nat) ^ a dvd i"
      unfolding base_def j i by (simp_all add: dvd_mult2 le_imp_power_dvd del: power_Suc)
    have "base < i" if "base < i + lowbit i"
    proof -
      have "base < 2 ^ Suc a * Suc b" using that nxt by simp
      then have "base + 2 ^ Suc a \<le> 2 ^ Suc a * Suc b" using d(1) by (intro multiple_gap) simp_all
      moreover have "0 < (2::nat) ^ a" by simp
      ultimately show ?thesis using low unfolding power_Suc mult_Suc_right by linarith
    qed
    moreover have "i + lowbit i \<le> j" if "i \<le> j" using multiple_gap [OF d(3,2)] that assms(3) li by simp
    ultimately show ?thesis using assms(3) unfolding covers_def base(1) by auto
  next
    case False
    have "(2::nat) ^ c dvd base" "(2::nat) ^ c dvd i"
      using False unfolding base_def i by (simp_all add: dvd_mult2 le_imp_power_dvd)
    then have "\<not> covers j i"
      using multiple_gap [of "2 ^ c" base i] base(2) assms(3) unfolding covers_def base(1) by auto
    moreover have "\<not> covers j (i + lowbit i)"
    proof -
      have "(2::nat) ^ Suc c dvd base" "(2::nat) ^ Suc c dvd i + lowbit i"
        using False unfolding base_def nxt by (simp add: mult.assoc, intro dvd_mult2 le_imp_power_dvd) simp
      then have "base < i + lowbit i \<Longrightarrow> base + 2 ^ Suc c \<le> i + lowbit i" by (rule multiple_gap)
      moreover have "base + 2 ^ Suc c > j" using base(2) by simp
      ultimately show ?thesis unfolding covers_def base(1) by auto
    qed
    ultimately show ?thesis by blast
  qed
qed

lemma add_loop_adds:
  "0 < i \<Longrightarrow> 0 < j \<Longrightarrow> j < length tree \<Longrightarrow> add_loop tree i d ! j = tree ! j + (if covers j i then d else 0)"
proof (induction tree i d rule: add_loop.induct)
  case (1 tree i d)
  show ?case
  proof (cases "i < length tree")
    case True
    have "0 < i + lowbit i" using "1.prems"(1) by simp
    moreover have "j < length (tree[i := tree ! i + d])" using "1.prems"(3) by simp
    ultimately have step: "add_loop tree i d ! j = tree[i := tree ! i + d] ! j + (if covers j (i + lowbit i) then d else 0)"
      using 1 True by (subst add_loop.simps) simp
    show ?thesis
    proof (cases "j = i")
      case True
      have "covers i i" "\<not> covers i (i + lowbit i)" using lowbit_pos [OF "1.prems"(1)] lowbit_le [of i] by (auto simp: covers_def)
      then show ?thesis using step True \<open>i < length tree\<close> by simp
    next
      case False
      then show ?thesis using step covers_next [OF "1.prems"(1,2)] by simp
    qed
  next
    case False
    then show ?thesis using "1.prems" by (simp add: add_loop.simps [of tree i] covers_def)
  qed
qed

lemma fenwick_add_node:
  "0 < j \<Longrightarrow> j < length tree \<Longrightarrow> fenwick_add tree k d ! j = tree ! j + (if covers j (Suc k) then d else 0)"
  using add_loop_adds [of "Suc k" j tree d] by (simp add: fenwick_add_def)

lemma sum_list_change: "k < length xs \<Longrightarrow> sum_list (xs[k := v]) = sum_list xs + (v - xs ! k :: real)"
  by (induction xs arbitrary: k) (auto simp: nth_Cons' split: nat.split)

lemma prefix_sum_change:
  assumes "k < length ps"
  shows "prefix_sum (ps[k := v]) i = prefix_sum ps i + (if k < i then v - ps ! k else 0)"
proof (cases "k < i")
  case True
  then show ?thesis using sum_list_change [of k "take i ps" v] assms
    by (simp add: prefix_sum_def take_update_swap)
qed (simp add: prefix_sum_def)

text \<open>So adding to a position what its priority changes by keeps every node right.\<close>

lemma fenwick_add_holds:
  assumes "nodes_hold tree ps n" "k < length ps"
  shows "nodes_hold (fenwick_add tree k (v - ps ! k)) (ps[k := v]) n"
proof -
  have "fenwick_add tree k (v - ps ! k) ! j = node (ps[k := v]) j" if "0 < j" "j \<le> n" for j
    using assms that fenwick_add_node [of j tree k "v - ps ! k"] lowbit_pos [of j] lowbit_le [of j]
    by (auto simp: nodes_hold_def node_def prefix_sum_change covers_def)
  then show ?thesis using assms(1) by (simp add: nodes_hold_def)
qed

end
