(* ===== verification/Randomness.thy ===== *)
theory Randomness
  imports Collections "HOL-Library.Word"
begin

unbundle bit_operations_syntax

text \<open>
  Seeded randomness, \<open>util/src/utils/random.ts\<close>: the 32-bit stream, the shuffle, the split and
  the weighted draws. A random source is a state with a function that draws from it; a source is
  documented to draw from the unit interval without 1.
\<close>

type_synonym 's source = "'s \<Rightarrow> real \<times> 's"

section \<open>The streams\<close>

definition mulberry_next :: "32 word source" where
  "mulberry_next a =
     (let a' = a + 0x6d2b79f5;
          t = (a' XOR drop_bit 15 a') * (a' OR 1);
          t' = t XOR (t + (t XOR drop_bit 7 t) * (t OR 61))
      in (real (unat (t' XOR drop_bit 14 t')) / 4294967296, a'))"

text \<open>A seed becomes its unsigned 32-bit value.\<close>

definition seededStream :: "int \<Rightarrow> 32 word" where
  "seededStream seed = word_of_int seed"

definition lcg_next :: "32 word source" where
  "lcg_next s = (let s' = s * 1664525 + 1013904223 in (real (unat s') / 4294967296, s'))"

definition nextInt :: "'s source \<Rightarrow> nat \<Rightarrow> 's \<Rightarrow> nat \<times> 's" where
  "nextInt rng m s = (case rng s of (r, s') \<Rightarrow> (nat \<lfloor>r * real m\<rfloor>, s'))"

text \<open>\<open>None\<close> is the throw on an empty array.\<close>

definition choice :: "'s source \<Rightarrow> 'a list \<Rightarrow> 's \<Rightarrow> 'a option \<times> 's" where
  "choice rng items s =
     (case nextInt rng (length items) s of
        (i, s') \<Rightarrow> (if i < length items then Some (items ! i) else None, s'))"

record seededRNG =
  rng_stream :: "32 word"

definition newSeededRNG :: "int option \<Rightarrow> seededRNG" where
  "newSeededRNG seed = \<lparr>rng_stream = seededStream (case seed of None \<Rightarrow> 1 | Some k \<Rightarrow> k)\<rparr>"

definition rng_next :: "seededRNG source" where
  "rng_next g = (case mulberry_next (rng_stream g) of (r, a) \<Rightarrow> (r, g\<lparr>rng_stream := a\<rparr>))"

definition rng_nextInt :: "seededRNG \<Rightarrow> nat \<Rightarrow> nat \<times> seededRNG" where
  "rng_nextInt g m = nextInt rng_next m g"

definition rng_choice :: "seededRNG \<Rightarrow> 'a list \<Rightarrow> 'a option \<times> seededRNG" where
  "rng_choice g items = choice rng_next items g"

definition getState :: "seededRNG \<Rightarrow> int" where
  "getState g = uint (rng_stream g)"

definition setState :: "seededRNG \<Rightarrow> int \<Rightarrow> seededRNG" where
  "setState g state = g\<lparr>rng_stream := seededStream state\<rparr>"

section \<open>Shuffling and splitting\<close>

definition swap_at :: "'a list \<Rightarrow> nat \<Rightarrow> nat \<Rightarrow> 'a list" where
  "swap_at xs i j = xs[i := xs ! j, j := xs ! i]"

fun shuffle_loop :: "'s source \<Rightarrow> 'a list \<Rightarrow> nat \<Rightarrow> 's \<Rightarrow> 'a list \<times> 's" where
  "shuffle_loop rng items 0 s = (items, s)"
| "shuffle_loop rng items (Suc i) s =
     (case rng s of
        (r, s') \<Rightarrow> shuffle_loop rng (swap_at items (Suc i) (nat \<lfloor>r * real (Suc i + 1)\<rfloor>)) i s')"

definition shuffleInPlace :: "'s source \<Rightarrow> 'a list \<Rightarrow> 's \<Rightarrow> 'a list \<times> 's" where
  "shuffleInPlace rng items s = shuffle_loop rng items (length items - 1) s"

record 'a split =
  holdout :: "'a list"
  train :: "'a list"

definition holdoutSplit :: "'s source \<Rightarrow> 'a list \<Rightarrow> real \<Rightarrow> 's \<Rightarrow> 'a split \<times> 's" where
  "holdoutSplit rng items fraction s =
     (case shuffleInPlace rng items s of
        (shuffled, s') \<Rightarrow>
          (let cut = nat (min (int (length shuffled)) (shareCount (real (length shuffled)) fraction 1 floor))
           in (\<lparr>holdout = take cut shuffled, train = drop cut shuffled\<rparr>, s')))"

section \<open>Weighted draws\<close>

fun weight_total :: "real \<Rightarrow> real list \<Rightarrow> real" where
  "weight_total tot [] = tot"
| "weight_total tot (w # ws) = weight_total (if 0 < w then tot + w else tot) ws"

text \<open>The scan runs off the end only by rounding; the last slot then answers.\<close>

fun scan_loop :: "nat \<Rightarrow> real \<Rightarrow> real list \<Rightarrow> nat" where
  "scan_loop i roll [] = i - 1"
| "scan_loop i roll (w # ws) =
     (if w \<le> 0 then scan_loop (Suc i) roll ws
      else if roll - w \<le> 0 then i else scan_loop (Suc i) (roll - w) ws)"

definition weightedScan :: "real list \<Rightarrow> 's source \<Rightarrow> 's \<Rightarrow> nat option \<times> 's" where
  "weightedScan ws rng s =
     (let tot = weight_total 0 ws
      in if tot \<le> 0 then (None, s)
         else case rng s of (r, s') \<Rightarrow> (Some (scan_loop 0 (r * tot) ws), s'))"

definition weightedPick :: "'a list \<Rightarrow> ('a \<Rightarrow> real) \<Rightarrow> 's source \<Rightarrow> 's \<Rightarrow> 'a option \<times> 's" where
  "weightedPick items weightOf rng s =
     (case weightedScan (map weightOf items) rng s of
        (None, s') \<Rightarrow> (None, s')
      | (Some i, s') \<Rightarrow> (Some (items ! i), s'))"

record 'a weighted =
  w_item :: 'a
  w_weight :: real

fun sample_loop :: "nat \<Rightarrow> 'a weighted list \<Rightarrow> 's source \<Rightarrow> 's \<Rightarrow> 'a list \<times> 's" where
  "sample_loop 0 pool rng s = ([], s)"
| "sample_loop (Suc n) pool rng s =
     (if pool = [] then ([], s)
      else case weightedScan (map w_weight pool) rng s of
        (None, s') \<Rightarrow> ([], s')
      | (Some i, s') \<Rightarrow>
          (case sample_loop n (delete_at i pool) rng s' of
             (picked, s'') \<Rightarrow> (w_item (pool ! i) # picked, s'')))"

definition weightedSampleBy :: "'a weighted list \<Rightarrow> nat \<Rightarrow> 's source \<Rightarrow> 's \<Rightarrow> 'a list \<times> 's" where
  "weightedSampleBy entries n rng s =
     (let pool = filter (\<lambda>e. 0 < w_weight e) entries
      in if pool = [] then (map w_item (take n entries), s)
         else sample_loop n pool rng s)"

definition weightedSample :: "'a list \<Rightarrow> nat \<Rightarrow> ('a \<Rightarrow> real) \<Rightarrow> 's source \<Rightarrow> 's \<Rightarrow> 'a list \<times> 's" where
  "weightedSample items n weightOf rng s =
     weightedSampleBy (map (\<lambda>x. \<lparr>w_item = x, w_weight = weightOf x\<rparr>) items) n rng s"

section \<open>What a draw gives\<close>

definition unit_source :: "'s source \<Rightarrow> bool" where
  "unit_source rng \<longleftrightarrow> (\<forall>s. 0 \<le> fst (rng s) \<and> fst (rng s) < 1)"

lemma word_ratio: "0 \<le> real (unat (w :: 32 word)) / 4294967296 \<and> real (unat w) / 4294967296 < 1"
  using unsigned_less [of w, where ?'a = nat] by (simp del: of_nat_unat)

lemma streams_unit: "unit_source mulberry_next" "unit_source lcg_next" "unit_source rng_next"
  using word_ratio
  by (simp_all add: unit_source_def mulberry_next_def lcg_next_def rng_next_def Let_def)

lemma floor_draw: "0 \<le> r \<Longrightarrow> r < 1 \<Longrightarrow> 0 < n \<Longrightarrow> nat \<lfloor>r * real n\<rfloor> < n"
  by (simp add: nat_less_iff floor_less_iff)

lemma mset_swap_at: "i < length xs \<Longrightarrow> j < length xs \<Longrightarrow> mset (swap_at xs i j) = mset xs"
  by (simp add: swap_at_def mset_swap)

lemma length_swap_at [simp]: "length (swap_at xs i j) = length xs"
  by (simp add: swap_at_def)

lemma shuffle_loop_mset:
  assumes "unit_source rng"
  shows "i < length items \<or> items = [] \<and> i = 0 \<Longrightarrow> mset (fst (shuffle_loop rng items i s)) = mset items"
proof (induction i arbitrary: items s)
  case (Suc i)
  obtain r s' where r: "rng s = (r, s')" by (cases "rng s")
  then have "nat \<lfloor>r * real (Suc i + 1)\<rfloor> < Suc i + 1"
    using assms floor_draw [of r "Suc i + 1"] by (auto simp: unit_source_def dest: spec [of _ s])
  then show ?case using Suc r by (simp add: mset_swap_at)
qed simp

lemma shuffle_mset: "unit_source rng \<Longrightarrow> mset (fst (shuffleInPlace rng items s)) = mset items"
  unfolding shuffleInPlace_def by (rule shuffle_loop_mset) (cases items; simp)+

text \<open>a split deals every row once. Whatever the source draws, the train part and the holdout
  part together are the rows, and of a non-empty set of rows at least one is held out.\<close>

theorem holdout_split_partitions:
  assumes "unit_source rng"
  shows "case holdoutSplit rng items fraction s of
    (sp, _) \<Rightarrow> mset (holdout sp) + mset (train sp) = mset items \<and> (items \<noteq> [] \<longrightarrow> holdout sp \<noteq> [])"
proof -
  obtain shuffled s' where sh: "shuffleInPlace rng items s = (shuffled, s')" by (cases "shuffleInPlace rng items s")
  then have m: "mset shuffled = mset items" using shuffle_mset [OF assms, of items s] by simp
  have "mset (take k shuffled) + mset (drop k shuffled) = mset items" for k
    using m by (metis append_take_drop_id mset_append)
  moreover have "items \<noteq> [] \<Longrightarrow> shuffled \<noteq> []" using m by auto
  moreover have "items \<noteq> [] \<Longrightarrow> 0 < min (int (length shuffled)) (shareCount (real (length shuffled)) fraction 1 floor)"
    using m by (auto simp: shareCount_def)
  ultimately show ?thesis using sh by (auto simp: holdoutSplit_def Let_def min_le_iff_disj)
qed

definition draws :: "'s source \<Rightarrow> nat \<Rightarrow> 's \<Rightarrow> 's" where
  "draws rng n s = ((snd \<circ> rng) ^^ n) s"

lemma draws_Suc: "draws rng (Suc n) s = snd (rng (draws rng n s))"
  by (simp add: draws_def)

lemma draws_mulberry: "draws mulberry_next n a = a + of_nat n * 0x6d2b79f5"
proof (induction n)
  case (Suc n)
  then show ?case by (simp add: draws_Suc mulberry_next_def Let_def distrib_right)
qed (simp add: draws_def)

text \<open>the stream does not repeat itself. From any seed the 32-bit state first returns to an earlier
  position after exactly \<open>2^32\<close> draws, because the increment is odd.\<close>

theorem stream_period:
  "draws mulberry_next m (seededStream seed) = draws mulberry_next n (seededStream seed) \<longleftrightarrow> m mod 2 ^ 32 = n mod 2 ^ 32"
proof -
  have "of_nat m * (0x6d2b79f5 :: 32 word) = of_nat n * 0x6d2b79f5 \<longleftrightarrow> (of_nat m :: 32 word) = of_nat n"
  proof
    assume "of_nat m * (0x6d2b79f5 :: 32 word) = of_nat n * 0x6d2b79f5"
    then have "of_nat m * ((0x6d2b79f5 :: 32 word) * 0xdc58aa5d) = of_nat n * (0x6d2b79f5 * 0xdc58aa5d)"
      by (simp only: mult.assoc [symmetric])
    moreover have "(0x6d2b79f5 :: 32 word) * 0xdc58aa5d = 1" by simp
    ultimately show "(of_nat m :: 32 word) = of_nat n" by (simp only: mult_1_right)
  qed simp
  moreover have "(of_nat m :: 32 word) = of_nat n \<longleftrightarrow> m mod 2 ^ 32 = n mod 2 ^ 32"
    by (simp add: word_unat_eq_iff unat_of_nat)
  ultimately show ?thesis by (simp only: draws_mulberry add_left_cancel)
qed

section \<open>Weighted draws\<close>

text \<open>The sum of the positive weights before a slot.\<close>

definition below_slot :: "real list \<Rightarrow> nat \<Rightarrow> real" where
  "below_slot ws i = sum_list (map (max 0) (take i ws))"

lemma weight_total_sum: "weight_total t ws = t + sum_list (map (max 0) ws)"
  by (induction ws arbitrary: t) (auto simp: max_def)

lemma below_slot_Cons [simp]: "below_slot (w # ws) (Suc i) = max 0 w + below_slot ws i" "below_slot ws 0 = 0"
  by (simp_all add: below_slot_def)

lemma below_slot_nonneg: "0 \<le> below_slot ws i"
  unfolding below_slot_def by (rule sum_list_nonneg) auto

text \<open>\<open>slot_of\<close>: the slot whose share of the positive weights holds the roll.\<close>

definition slot_of :: "real list \<Rightarrow> real \<Rightarrow> nat \<Rightarrow> bool" where
  "slot_of ws roll i \<longleftrightarrow> i < length ws \<and> 0 < ws ! i \<and> roll \<le> below_slot ws (Suc i)
     \<and> (below_slot ws i < roll \<or> below_slot ws i = 0)"

lemma scan_loop_slot:
  "roll \<le> sum_list (map (max 0) ws) \<Longrightarrow> 0 < sum_list (map (max 0) ws) \<Longrightarrow>
   \<exists>j. scan_loop i roll ws = i + j \<and> slot_of ws roll j"
proof (induction ws arbitrary: i roll)
  case (Cons w ws)
  consider "w \<le> 0" | "0 < w" "roll \<le> w" | "0 < w" "w < roll" by linarith
  then show ?case
  proof cases
    case 1
    then have "max 0 w = 0" by simp
    then obtain j where "scan_loop (Suc i) roll ws = Suc i + j" "slot_of ws roll j"
      using Cons.IH [of roll "Suc i"] Cons.prems by auto
    then show ?thesis using 1 by (intro exI [of _ "Suc j"]) (auto simp: slot_of_def max_def)
  next
    case 2
    then show ?thesis using Cons.prems below_slot_nonneg [of ws] by (intro exI [of _ 0]) (auto simp: slot_of_def)
  next
    case 3
    then have "max 0 w = w" by simp
    then obtain j where "scan_loop (Suc i) (roll - w) ws = Suc i + j" "slot_of ws (roll - w) j"
      using Cons.IH [of "roll - w" "Suc i"] Cons.prems 3 by (auto simp: algebra_simps)
    then show ?thesis using 3 by (intro exI [of _ "Suc j"]) (auto simp: slot_of_def max_def)
  qed
qed simp

lemma weightedScan_slot:
  assumes "unit_source rng" "0 < sum_list (map (max 0) ws)"
  shows "\<exists>i. weightedScan ws rng s = (Some i, snd (rng s)) \<and> slot_of ws (fst (rng s) * sum_list (map (max 0) ws)) i"
proof -
  let ?t = "sum_list (map (max 0) ws)"
  have "fst (rng s) * ?t \<le> ?t"
    using assms by (simp add: unit_source_def less_imp_le)
  from scan_loop_slot [OF this assms(2), of 0] show ?thesis
    using assms(2) by (simp add: weightedScan_def weight_total_sum split_beta)
qed

lemma sample_loop_picks:
  assumes "unit_source rng" "list_all (\<lambda>e. 0 < w_weight e) pool"
  shows "length (fst (sample_loop n pool rng s)) = min n (length pool)
    \<and> mset (fst (sample_loop n pool rng s)) \<subseteq># mset (map w_item pool)"
  using assms(2)
proof (induction n arbitrary: pool s)
  case (Suc n)
  show ?case
  proof (cases "pool = []")
    case False
    let ?ws = "map w_weight pool"
    have "0 < sum_list (map (max 0) ?ws)"
      using Suc.prems False by (cases pool) (auto simp: list_all_iff less_imp_le intro!: add_pos_nonneg sum_list_nonneg)
    then obtain i where i: "weightedScan ?ws rng s = (Some i, snd (rng s))" "i < length pool"
      using weightedScan_slot [OF assms(1), of ?ws s] by (auto simp: slot_of_def)
    have "list_all (\<lambda>e. 0 < w_weight e) (delete_at i pool)"
      using Suc.prems set_delete_at [of i pool] by (auto simp: list_all_iff)
    from Suc.IH [OF this, of "snd (rng s)"] i
    show ?thesis using mset_delete_at [OF i(2)] False by (simp add: split_beta)
  qed simp
qed simp

text \<open>a weighted draw is proportional. The slot a draw answers carries weight, and it is the slot in
  whose share of the total positive weight the drawn number falls; a pool without positive weight
  answers nothing and draws nothing.\<close>

theorem weighted_draw_proportional:
  assumes "unit_source rng"
  shows "case weightedScan ws rng s of
      (Some i, s') \<Rightarrow> s' = snd (rng s) \<and> slot_of ws (fst (rng s) * sum_list (map (max 0) ws)) i
    | (None, s') \<Rightarrow> s' = s \<and> (\<forall>w \<in> set ws. w \<le> 0)"
proof (cases "0 < sum_list (map (max 0) ws)")
  case True
  then show ?thesis using weightedScan_slot [OF assms True, of s] by auto
next
  case False
  have "w \<le> 0" if "w \<in> set ws" for w
  proof -
    have "max 0 w \<le> sum_list (map (max 0) ws)" using that by (intro member_le_sum_list) auto
    then show ?thesis using False by simp
  qed
  then show ?thesis using False by (simp add: weightedScan_def weight_total_sum)
qed

text \<open>sampling is without replacement. The sample has as many items as asked for or as many as
  carry weight, whichever is fewer, and takes no entry twice; without any weight it is the first
  entries in their order.\<close>

theorem weighted_sample_without_replacement:
  assumes "unit_source rng"
  shows "let pool = filter (\<lambda>e. 0 < w_weight e) entries; sample = fst (weightedSampleBy entries n rng s)
    in (if pool = [] then sample = map w_item (take n entries)
        else length sample = min n (length pool) \<and> mset sample \<subseteq># mset (map w_item pool))"
  using sample_loop_picks [OF assms, of "filter (\<lambda>e. 0 < w_weight e) entries" n s]
  by (simp add: weightedSampleBy_def Let_def list_all_iff)

theorem holdout_split_partitions_witness:
  "case holdoutSplit mulberry_next ''abc'' (1 / 2) 7 of (sp, _) \<Rightarrow> mset (holdout sp) + mset (train sp) = mset ''abc''"
  using holdout_split_partitions [OF streams_unit(1), of "''abc''" "1 / 2" 7] by (simp add: split_beta)

theorem weighted_draw_proportional_witness:
  "\<exists>i. fst (weightedScan [0, 2, 1] lcg_next 5) = Some i \<and> 0 < [0, 2, 1 :: real] ! i"
  using weighted_draw_proportional [OF streams_unit(2), where ws = "[0, 2, 1]" and s = 5]
  by (auto simp: slot_of_def split: prod.splits option.splits)

theorem weighted_sample_without_replacement_witness:
  "length (fst (weightedSampleBy [\<lparr>w_item = CHR ''a'', w_weight = 1\<rparr>, \<lparr>w_item = CHR ''b'', w_weight = 2\<rparr>] 5 lcg_next 3)) = 2"
  using weighted_sample_without_replacement [OF streams_unit(2), where n = 5 and s = 3
      and entries = "[\<lparr>w_item = CHR ''a'', w_weight = 1\<rparr>, \<lparr>w_item = CHR ''b'', w_weight = 2\<rparr>]"]
  by (simp add: Let_def)

end
