(* ===== verification/Bag.thy ===== *)
theory Bag
  imports Fenwick Randomness
begin

text \<open>
  The priority bag of \<open>util/src/bag/Bag.ts\<close>: entries in descending priority with a Fenwick tree
  over them for weighted sampling. The tree is rebuilt when a read finds it stale; an append at the
  tail and the drop of the last entry are meant to be point updates. Items are values, so a change
  of priority from outside the bag is not modelled; the clock's readings and the numbers drawn are
  arguments.
\<close>

section \<open>The bag\<close>

record bagItem =
  bi_id :: string
  bi_priority :: real

record 'i internalEntry =
  ie_item :: 'i
  ie_createdAt :: real
  ie_lastAccessedAt :: real

datatype pressureLevel = Normal | High | Critical

record pressureTransition =
  pt_bagId :: string
  pt_pressure :: real
  pt_capacity :: nat
  pt_size :: nat
  pt_transition :: pressureLevel

record bagOptions =
  bo_capacity :: nat
  bo_decayRate :: "real option"
  bo_forgetRate :: "real option"
  bo_id :: string

datatype evictStrategy = LRU | LowestPriority | Random

record 'a bag =
  b_version :: nat
  b_capacity :: nat
  b_decayRate :: real
  b_forgetRate :: real
  b_totalPriority :: real
  b_bagId :: string
  b_lastPressureLevel :: pressureLevel
  b_list :: "'a bagItem_scheme internalEntry list"
  b_fenwick :: "real list"
  b_treeStale :: bool

definition priorities :: "'a bagItem_scheme internalEntry list \<Rightarrow> real list" where
  "priorities es = map (bi_priority \<circ> ie_item) es"

definition newBag :: "bagOptions \<Rightarrow> 'a bag" where
  "newBag opts =
     \<lparr>b_version = 0, b_capacity = bo_capacity opts,
      b_decayRate = (case bo_decayRate opts of None \<Rightarrow> 1 / 100 | Some r \<Rightarrow> r),
      b_forgetRate = (case bo_forgetRate opts of None \<Rightarrow> 1 / 1000 | Some r \<Rightarrow> r),
      b_totalPriority = 0, b_bagId = bo_id opts, b_lastPressureLevel = Normal, b_list = [],
      b_fenwick = new_tree (bo_capacity opts), b_treeStale = True\<rparr>"

definition set_decayRate :: "'a bag \<Rightarrow> real \<Rightarrow> 'a bag" where
  "set_decayRate b value = b\<lparr>b_decayRate := clamp01 value\<rparr>"

definition syncTree :: "'a bag \<Rightarrow> 'a bag" where
  "syncTree b =
     (if \<not> b_treeStale b then b
      else b\<lparr>b_fenwick := fenwick_rebuild (b_fenwick b) (priorities (b_list b)), b_treeStale := False\<rparr>)"

text \<open>The binary search for the first entry below a priority.\<close>

function insert_loop :: "real list \<Rightarrow> real \<Rightarrow> nat \<Rightarrow> nat \<Rightarrow> nat" where
  "insert_loop ps p lo hi =
     (if lo < hi then
        (let mid = (lo + hi) div 2
         in if p \<le> ps ! mid then insert_loop ps p (mid + 1) hi else insert_loop ps p lo mid)
      else lo)"
  by auto
termination insert_loop by (relation "measure (\<lambda>(ps, p, lo, hi). hi - lo)") auto

definition insertIndex :: "'a bag \<Rightarrow> real \<Rightarrow> nat" where
  "insertIndex b p = insert_loop (priorities (b_list b)) p 0 (length (b_list b))"

definition insertEntry :: "'a bag \<Rightarrow> 'a bagItem_scheme internalEntry \<Rightarrow> 'a bag" where
  "insertEntry b e =
     (let p = bi_priority (ie_item e);
          idx = insertIndex b p;
          lst = take idx (b_list b) @ e # drop idx (b_list b)
      in if \<not> b_treeStale b \<and> idx = length lst - 1
         then b\<lparr>b_list := lst, b_fenwick := fenwick_add (b_fenwick b) idx p\<rparr>
         else b\<lparr>b_list := lst, b_treeStale := True\<rparr>)"

definition eraseAt :: "'a bag \<Rightarrow> nat \<Rightarrow> 'a bag" where
  "eraseAt b i = b\<lparr>b_list := delete_at i (b_list b), b_treeStale := True\<rparr>"

definition dropLast :: "'a bag \<Rightarrow> 'a bag" where
  "dropLast b =
     (let removed = last (b_list b);
          b' = syncTree (b\<lparr>b_list := butlast (b_list b)\<rparr>)
      in b'\<lparr>b_fenwick := fenwick_add (b_fenwick b') (length (b_list b')) (- bi_priority (ie_item removed))\<rparr>)"

definition replaceAll :: "'a bag \<Rightarrow> 'a bagItem_scheme internalEntry list \<Rightarrow> 'a bag" where
  "replaceAll b es = b\<lparr>b_list := es, b_treeStale := True\<rparr>"

text \<open>Lookup by identifier or by object; the identity of two objects is the argument \<open>ident\<close>.\<close>

definition indexOf :: "('a bagItem_scheme \<Rightarrow> 'a bagItem_scheme \<Rightarrow> bool) \<Rightarrow> 'a bag \<Rightarrow> string + 'a bagItem_scheme \<Rightarrow> nat option" where
  "indexOf ident b idOrItem =
     (case idOrItem of
        Inl ident' \<Rightarrow> find_index (\<lambda>e. bi_id (ie_item e) = ident') (b_list b)
      | Inr item \<Rightarrow> find_index (\<lambda>e. ident (ie_item e) item) (b_list b))"

text \<open>The position the tree answers; past the end the first entry is taken.\<close>

definition pickWeighted :: "'a bag \<Rightarrow> real \<Rightarrow> nat \<times> 'a bag" where
  "pickWeighted b r =
     (let b' = syncTree b;
          idx = findByPrefixSum (b_fenwick b') (r * b_totalPriority b') (length (b_list b'))
      in (if idx < length (b_list b') then idx else 0, b'))"

definition shouldOverflow :: "'a bag \<Rightarrow> real \<Rightarrow> bool \<times> 'a bag" where
  "shouldOverflow b p =
     (if b_list b = [] then (True, b)
      else let least = bi_priority (ie_item (last (b_list b)))
           in if p \<le> least then (False, b)
              else (True, dropLast (b\<lparr>b_totalPriority := b_totalPriority b - least\<rparr>)))"

definition bag_add :: "real \<Rightarrow> 'a bag \<Rightarrow> 'a bagItem_scheme \<Rightarrow> bool \<times> 'a bag" where
  "bag_add now b item =
     (if b_capacity b = 0 then (False, b)
      else case (if b_capacity b \<le> length (b_list b) then shouldOverflow b (bi_priority item) else (True, b)) of
             (False, b') \<Rightarrow> (False, b')
           | (True, b') \<Rightarrow>
               (let b'' = insertEntry b' \<lparr>ie_item = item, ie_createdAt = now, ie_lastAccessedAt = now\<rparr>
                in (True, b''\<lparr>b_totalPriority := b_totalPriority b'' + bi_priority item, b_version := b_version b'' + 1\<rparr>)))"

definition recalcTotalPriority :: "'a bag \<Rightarrow> 'a bag" where
  "recalcTotalPriority b = b\<lparr>b_totalPriority := sum_list (priorities (b_list b))\<rparr>"

definition bag_sample :: "real \<Rightarrow> real \<Rightarrow> 'a bag \<Rightarrow> 'a bagItem_scheme option \<times> 'a bag" where
  "bag_sample now r b =
     (if b_list b = [] then (None, b)
      else let b1 = (if b_totalPriority b \<le> 0 then recalcTotalPriority b else b)
           in if b_totalPriority b1 \<le> 0 then (Some (ie_item (hd (b_list b1))), b1)
              else case pickWeighted b1 r of
                     (i, b2) \<Rightarrow>
                       (Some (ie_item (b_list b2 ! i)),
                        b2\<lparr>b_list := (b_list b2)[i := (b_list b2 ! i)\<lparr>ie_lastAccessedAt := now\<rparr>]\<rparr>))"

text \<open>The draws of a batch, with the time of each.\<close>

fun bag_sampleMany :: "(real \<times> real) list \<Rightarrow> 'a bag \<Rightarrow> 'a bagItem_scheme list \<times> 'a bag" where
  "bag_sampleMany [] b = ([], b)"
| "bag_sampleMany ((now, r) # ds) b =
     (case bag_sample now r b of
        (None, b') \<Rightarrow> ([], b')
      | (Some x, b') \<Rightarrow> (case bag_sampleMany ds b' of (xs, b'') \<Rightarrow> (x # xs, b'')))"

definition dropAt :: "'a bag \<Rightarrow> nat \<Rightarrow> 'a bag" where
  "dropAt b i =
     (let b' = eraseAt (b\<lparr>b_totalPriority := b_totalPriority b - bi_priority (ie_item (b_list b ! i))\<rparr>) i
      in b'\<lparr>b_version := b_version b' + 1\<rparr>)"

definition bag_remove :: "('a bagItem_scheme \<Rightarrow> 'a bagItem_scheme \<Rightarrow> bool) \<Rightarrow> 'a bag \<Rightarrow> string + 'a bagItem_scheme \<Rightarrow> bool \<times> 'a bag" where
  "bag_remove ident b idOrItem =
     (case indexOf ident b idOrItem of None \<Rightarrow> (False, b) | Some i \<Rightarrow> (True, dropAt b i))"

definition bag_removeAll :: "'a bag \<Rightarrow> string list \<Rightarrow> nat \<times> 'a bag" where
  "bag_removeAll b ids =
     (if ids = [] \<or> b_list b = [] then (0, b)
      else let kept = filter (\<lambda>e. bi_id (ie_item e) \<notin> set ids) (b_list b);
               dropped = length (b_list b) - length kept
           in if dropped = 0 then (0, b)
              else let b' = replaceAll (b\<lparr>b_totalPriority := sumBy kept (\<lambda>e. bi_priority (ie_item e))\<rparr>) kept
                   in (dropped, b'\<lparr>b_version := b_version b' + 1\<rparr>))"

definition decayed :: "real \<Rightarrow> real \<Rightarrow> real \<Rightarrow> real" where
  "decayed rate forget_below p = (let p' = retain p rate in if p' < forget_below then 0 else p')"

definition set_priority :: "'a bagItem_scheme internalEntry \<Rightarrow> real \<Rightarrow> 'a bagItem_scheme internalEntry" where
  "set_priority e p = e\<lparr>ie_item := (ie_item e)\<lparr>bi_priority := p\<rparr>\<rparr>"

definition bag_decay :: "'a bag \<Rightarrow> real option \<Rightarrow> 'a bag" where
  "bag_decay b rate =
     (let r = (case rate of None \<Rightarrow> b_decayRate b | Some q \<Rightarrow> q);
          aged = map (\<lambda>e. set_priority e (decayed r (b_forgetRate b) (bi_priority (ie_item e)))) (b_list b);
          kept = filter (\<lambda>e. 0 < bi_priority (ie_item e)) aged;
          b' = replaceAll (b\<lparr>b_totalPriority := sum_list (priorities kept)\<rparr>) kept
      in b'\<lparr>b_version := b_version b' + 1\<rparr>)"

definition bag_size :: "'a bag \<Rightarrow> nat" where "bag_size b = length (b_list b)"

definition bag_toArray :: "'a bag \<Rightarrow> 'a bagItem_scheme list" where "bag_toArray b = map ie_item (b_list b)"

definition bag_find :: "'a bag \<Rightarrow> ('a bagItem_scheme \<Rightarrow> bool) \<Rightarrow> 'a bagItem_scheme option" where
  "bag_find b p = find p (map ie_item (b_list b))"

definition bag_entries :: "'a bag \<Rightarrow> ('a bagItem_scheme \<times> real) list" where
  "bag_entries b = map (\<lambda>e. (ie_item e, bi_priority (ie_item e))) (b_list b)"

definition bag_peek :: "'a bag \<Rightarrow> 'a bagItem_scheme option" where
  "bag_peek b = (case b_list b of [] \<Rightarrow> None | e # _ \<Rightarrow> Some (ie_item e))"

text \<open>From the last entry to the first, each removal at its own index.\<close>

fun removeMany_loop :: "('a bagItem_scheme \<Rightarrow> bool) \<Rightarrow> nat \<Rightarrow> 'a bag \<Rightarrow> nat \<times> 'a bag" where
  "removeMany_loop p 0 b = (0, b)"
| "removeMany_loop p (Suc i) b =
     (if p (ie_item (b_list b ! i))
      then (case removeMany_loop p i (dropAt b i) of (n, b') \<Rightarrow> (Suc n, b'))
      else removeMany_loop p i b)"

definition bag_removeMany :: "'a bag \<Rightarrow> ('a bagItem_scheme \<Rightarrow> bool) \<Rightarrow> nat \<times> 'a bag" where
  "bag_removeMany b p = removeMany_loop p (length (b_list b)) b"

definition pressure_level :: "real \<Rightarrow> pressureLevel" where
  "pressure_level p = (if 9 / 10 \<le> p then Critical else if 7 / 10 \<le> p then High else Normal)"

definition checkPressureTransition :: "'a bag \<Rightarrow> real \<Rightarrow> pressureTransition option \<times> 'a bag" where
  "checkPressureTransition b p =
     (let level = pressure_level p
      in if level = b_lastPressureLevel b then (None, b)
         else (Some \<lparr>pt_bagId = b_bagId b, pt_pressure = p, pt_capacity = b_capacity b,
                 pt_size = length (b_list b), pt_transition = level\<rparr>,
               b\<lparr>b_lastPressureLevel := level\<rparr>))"

definition bag_pressure :: "'a bag \<Rightarrow> real \<times> pressureTransition option \<times> 'a bag" where
  "bag_pressure b =
     (let p = occupancy (real (length (b_list b))) (real (b_capacity b)) 1
      in (p, checkPressureTransition b p))"

definition bag_evict :: "real \<Rightarrow> 'a bag \<Rightarrow> evictStrategy \<Rightarrow> 'a bag" where
  "bag_evict r b strategy =
     (if b_list b = [] then b
      else case strategy of
        LowestPriority \<Rightarrow>
          (let b' = dropLast (b\<lparr>b_totalPriority := b_totalPriority b - bi_priority (ie_item (last (b_list b)))\<rparr>)
           in b'\<lparr>b_version := b_version b' + 1\<rparr>)
      | LRU \<Rightarrow>
          (case minBy (enumerate 0 (b_list b)) (\<lambda>(i, e). ie_lastAccessedAt e) of
             None \<Rightarrow> b
           | Some (i, _) \<Rightarrow> dropAt b i)
      | Random \<Rightarrow> dropAt b (nat \<lfloor>r * real (length (b_list b))\<rfloor>))"

definition bag_clear :: "'a bag \<Rightarrow> 'a bag" where
  "bag_clear b = (replaceAll b [])\<lparr>b_totalPriority := 0, b_version := b_version b + 1\<rparr>"

declare insert_loop.simps [simp del]

section \<open>The invariant\<close>

text \<open>Descending, within capacity, with the total of its priorities, which are not negative.\<close>

definition bag_inv :: "'a bag \<Rightarrow> bool" where
  "bag_inv b \<longleftrightarrow> sorted_wrt (\<ge>) (priorities (b_list b)) \<and> length (b_list b) \<le> b_capacity b
     \<and> b_totalPriority b = sum_list (priorities (b_list b)) \<and> list_all (\<lambda>p. 0 \<le> p) (priorities (b_list b))
     \<and> length (b_fenwick b) = Suc (b_capacity b)"

text \<open>\<open>tree_holds b n\<close>: the tree is to be rebuilt, or its nodes up to \<open>n\<close> are right.\<close>

definition tree_holds :: "'a bag \<Rightarrow> nat \<Rightarrow> bool" where
  "tree_holds b n \<longleftrightarrow> b_treeStale b \<or> nodes_hold (b_fenwick b) (priorities (b_list b)) n"

lemma priorities_simps [simp]:
  "priorities [] = []" "priorities (e # es) = bi_priority (ie_item e) # priorities es"
  "priorities (es @ fs) = priorities es @ priorities fs" "length (priorities es) = length es"
  "priorities (take n es) = take n (priorities es)" "priorities (drop n es) = drop n (priorities es)"
  "priorities (butlast es) = butlast (priorities es)" "priorities (delete_at i es) = delete_at i (priorities es)"
  by (simp_all add: priorities_def take_map drop_map map_butlast delete_at_def)

lemma priorities_nth: "i < length es \<Longrightarrow> priorities es ! i = bi_priority (ie_item (es ! i))"
  by (simp add: priorities_def)

lemma priorities_touch [simp]: "priorities (es[i := (es ! i)\<lparr>ie_lastAccessedAt := now\<rparr>]) = priorities es"
  by (cases "i < length es") (auto simp: priorities_def map_update intro!: nth_equalityI simp: nth_list_update)

lemma priorities_last [simp]: "es \<noteq> [] \<Longrightarrow> last (priorities es) = bi_priority (ie_item (last es))"
  by (simp add: priorities_def last_map)

lemma priorities_nonempty [simp]: "priorities es = [] \<longleftrightarrow> es = []"
  by (simp add: priorities_def)

lemma insert_loop_spec:
  assumes "sorted_wrt (\<ge>) ps" "hi \<le> length ps" "lo \<le> hi"
    and "\<forall>i < lo. p \<le> ps ! i" "\<forall>i. hi \<le> i \<and> i < length ps \<longrightarrow> ps ! i < p"
  shows "insert_loop ps p lo hi \<le> length ps \<and> (\<forall>i < insert_loop ps p lo hi. p \<le> ps ! i)
    \<and> (\<forall>i. insert_loop ps p lo hi \<le> i \<and> i < length ps \<longrightarrow> ps ! i < p)"
  using assms
proof (induction ps p lo hi rule: insert_loop.induct)
  case (1 ps p lo hi)
  let ?mid = "(lo + hi) div 2"
  have desc: "ps ! j \<le> ps ! i" if "i \<le> j" "j < length ps" for i j
    using that 1(3) by (cases "i = j") (auto simp: sorted_wrt_iff_nth_less)
  show ?case
  proof (cases "lo < hi")
    case True
    then have m: "lo \<le> ?mid" "?mid < hi" by auto
    show ?thesis
    proof (cases "p \<le> ps ! ?mid")
      case up: True
      have "p \<le> ps ! i" if "i < ?mid + 1" for i
        using desc [of i ?mid] m that 1(4) up by force
      then have "\<forall>i < ?mid + 1. p \<le> ps ! i" by blast
      moreover have "?mid + 1 \<le> hi" using m by simp
      moreover have "insert_loop ps p lo hi = insert_loop ps p (?mid + 1) hi"
        using True up by (subst insert_loop.simps) (simp add: Let_def)
      ultimately show ?thesis using 1(1) [OF True refl up 1(3,4) _ _ 1(7)] by presburger
    next
      case down: False
      then have "ps ! i < p" if "?mid \<le> i" "i < length ps" for i
        using desc [of ?mid i] that by force
      then have "\<forall>i. ?mid \<le> i \<and> i < length ps \<longrightarrow> ps ! i < p" by blast
      moreover have "?mid \<le> length ps" using m 1(4) by simp
      moreover have "insert_loop ps p lo hi = insert_loop ps p lo ?mid"
        using True down by (subst insert_loop.simps) (simp add: Let_def)
      ultimately show ?thesis using 1(2) [OF True refl down 1(3) _ m(1) 1(6)] by presburger
    qed
  next
    case False
    then have "insert_loop ps p lo hi = lo" by (subst insert_loop.simps) simp
    then show ?thesis using 1(3-) False by simp
  qed
qed

lemma insertIndex_spec:
  assumes "bag_inv b"
  shows "insertIndex b p \<le> length (b_list b)" "\<forall>i < insertIndex b p. p \<le> priorities (b_list b) ! i"
    "\<forall>i. insertIndex b p \<le> i \<and> i < length (b_list b) \<longrightarrow> priorities (b_list b) ! i < p"
  using insert_loop_spec [of "priorities (b_list b)" "length (b_list b)" 0 p] assms
  by (simp_all add: insertIndex_def bag_inv_def)

lemma sorted_insert:
  assumes "sorted_wrt (\<ge>) ps" "n \<le> length ps" "\<forall>i < n. p \<le> ps ! i" "\<forall>i. n \<le> i \<and> i < length ps \<longrightarrow> ps ! i < (p :: real)"
  shows "sorted_wrt (\<ge>) (take n ps @ p # drop n ps)"
proof -
  have "sorted_wrt (\<ge>) (take n ps)" "sorted_wrt (\<ge>) (drop n ps)"
    using assms(1) by (simp_all add: sorted_wrt_take sorted_wrt_drop)
  moreover have "\<forall>x \<in> set (take n ps). p \<le> x" using assms(2,3) by (auto simp: in_set_conv_nth)
  moreover have "x \<le> p" if x: "x \<in> set (drop n ps)" for x
  proof -
    obtain i where "i < length ps - n" "x = ps ! (n + i)" using x assms(2) by (auto simp: in_set_conv_nth)
    then show ?thesis using assms(4) by (simp add: less_imp_le)
  qed
  ultimately show ?thesis by (fastforce simp: sorted_wrt_append)
qed

lemma insertEntry_inv:
  assumes "bag_inv b" "length (b_list b) < b_capacity b" "0 \<le> bi_priority (ie_item e)"
  shows "bag_inv ((insertEntry b e)\<lparr>b_totalPriority := b_totalPriority (insertEntry b e) + bi_priority (ie_item e)\<rparr>)"
proof -
  let ?p = "bi_priority (ie_item e)" and ?ps = "priorities (b_list b)"
  let ?n = "insertIndex b ?p"
  note i = insertIndex_spec [OF assms(1), of ?p]
  have "sorted_wrt (\<ge>) (take ?n ?ps @ ?p # drop ?n ?ps)"
    using i assms(1) by (intro sorted_insert) (simp_all add: bag_inv_def)
  moreover have "sum_list (take ?n ?ps @ ?p # drop ?n ?ps) = sum_list ?ps + ?p"
    by (metis add.commute add.left_commute append_take_drop_id sum_list.Cons sum_list.append)
  moreover have "list_all (\<lambda>p. 0 \<le> p) (take ?n ?ps @ ?p # drop ?n ?ps)"
    using assms(1,3) by (auto simp: bag_inv_def list_all_iff dest: in_set_takeD in_set_dropD)
  ultimately show ?thesis
    using assms i(1) by (auto simp: bag_inv_def insertEntry_def Let_def min_def)
qed

lemma delete_at_sum: "i < length ps \<Longrightarrow> sum_list (delete_at i ps) = sum_list ps - (ps ! i :: real)"
  by (simp add: delete_at_def sum_list_addf id_take_nth_drop [of i ps, THEN arg_cong [of _ _ sum_list]])

lemma dropAt_inv:
  assumes "bag_inv b" "i < length (b_list b)"
  shows "bag_inv (dropAt b i)" "length (b_list (dropAt b i)) = length (b_list b) - 1"
  using assms set_delete_at [of i "priorities (b_list b)"]
  by (auto simp: dropAt_def eraseAt_def Let_def bag_inv_def list_all_iff sorted_wrt_delete_at delete_at_sum priorities_nth)

lemma syncTree_frame [simp]:
  "b_list (syncTree b) = b_list b" "b_capacity (syncTree b) = b_capacity b"
  "b_totalPriority (syncTree b) = b_totalPriority b" "b_version (syncTree b) = b_version b" "\<not> b_treeStale (syncTree b)"
  by (auto simp: syncTree_def)

lemma syncTree_inv: "bag_inv b \<Longrightarrow> bag_inv (syncTree b)"
  using rebuild_nodes(2) [of "priorities (b_list b)" "b_fenwick b"] by (auto simp: bag_inv_def syncTree_def)

lemma dropLast_inv:
  assumes "bag_inv b" "b_list b \<noteq> []"
  shows "bag_inv (dropLast (b\<lparr>b_totalPriority := b_totalPriority b - bi_priority (ie_item (last (b_list b)))\<rparr>))"
    "length (b_list (dropLast (b\<lparr>b_totalPriority := b_totalPriority b - bi_priority (ie_item (last (b_list b)))\<rparr>))) = length (b_list b) - 1"
proof -
  let ?b = "b\<lparr>b_totalPriority := b_totalPriority b - bi_priority (ie_item (last (b_list b))), b_list := butlast (b_list b)\<rparr>"
  let ?ps = "priorities (b_list b)"
  have ps: "?ps = butlast ?ps @ [bi_priority (ie_item (last (b_list b)))]"
    using append_butlast_last_id [of ?ps] assms(2) by simp
  then have "sorted_wrt (\<ge>) (butlast ?ps)" "list_all (\<lambda>p. 0 \<le> p) (butlast ?ps)"
    using assms(1) by (auto simp: bag_inv_def sorted_wrt_append list_all_iff dest: in_set_butlastD) (metis sorted_wrt_append)
  moreover have "sum_list ?ps = sum_list (butlast ?ps) + bi_priority (ie_item (last (b_list b)))"
    using ps by (metis sum_list.append sum_list.Cons sum_list.Nil add_0_right)
  ultimately have "bag_inv ?b" using assms(1) by (auto simp: bag_inv_def)
  then show "bag_inv (dropLast (b\<lparr>b_totalPriority := b_totalPriority b - bi_priority (ie_item (last (b_list b)))\<rparr>))"
    using syncTree_inv [of ?b] by (simp add: dropLast_def Let_def bag_inv_def)
  show "length (b_list (dropLast (b\<lparr>b_totalPriority := b_totalPriority b - bi_priority (ie_item (last (b_list b)))\<rparr>))) = length (b_list b) - 1"
    by (simp add: dropLast_def Let_def)
qed

section \<open>Runs\<close>

datatype 'a bagOp =
    Add real "'a bagItem_scheme"
  | Sample real real
  | Remove string
  | RemoveAll "string list"
  | RemoveMany "'a bagItem_scheme \<Rightarrow> bool"
  | Decay "real option"
  | Evict real evictStrategy
  | Pressure
  | Clear

fun bag_step :: "'a bag \<Rightarrow> 'a bagOp \<Rightarrow> 'a bag" where
  "bag_step b (Add now item) = snd (bag_add now b item)"
| "bag_step b (Sample now r) = snd (bag_sample now r b)"
| "bag_step b (Remove i) = snd (bag_remove (=) b (Inl i))"
| "bag_step b (RemoveAll ids) = snd (bag_removeAll b ids)"
| "bag_step b (RemoveMany p) = snd (bag_removeMany b p)"
| "bag_step b (Decay rate) = bag_decay b rate"
| "bag_step b (Evict r strategy) = bag_evict r b strategy"
| "bag_step b Pressure = snd (snd (bag_pressure b))"
| "bag_step b Clear = bag_clear b"

definition bag_run :: "'a bag \<Rightarrow> 'a bagOp list \<Rightarrow> 'a bag" where
  "bag_run b ops = foldl bag_step b ops"

text \<open>Priorities are not negative, and a random eviction draws from the unit interval.\<close>

fun op_ok :: "'a bagOp \<Rightarrow> bool" where
  "op_ok (Add now item) \<longleftrightarrow> 0 \<le> bi_priority item"
| "op_ok (Evict r strategy) \<longleftrightarrow> 0 \<le> r \<and> r < 1"
| "op_ok _ \<longleftrightarrow> True"

lemma add_inv:
  fixes b :: "'a bag"
  assumes "bag_inv b" "0 \<le> bi_priority item"
  shows "bag_inv (snd (bag_add now b item))"
proof (cases "b_capacity b = 0")
  case False
  obtain ok b' where o: "(if b_capacity b \<le> length (b_list b) then shouldOverflow b (bi_priority item) else (True, b)) = (ok, b')"
    by (cases "if b_capacity b \<le> length (b_list b) then shouldOverflow b (bi_priority item) else (True, b)")
  have "bag_inv b' \<and> (ok \<longrightarrow> length (b_list b') < b_capacity b')"
  proof (cases "b_capacity b \<le> length (b_list b)")
    case True
    then have full: "length (b_list b) = b_capacity b" "b_list b \<noteq> []" using assms(1) False by (auto simp: bag_inv_def)
    have "b_capacity (dropLast c) = b_capacity c" for c :: "'a bag" by (simp add: dropLast_def Let_def)
    then show ?thesis using o True full dropLast_inv [OF assms(1) full(2)] assms(1) False
      by (auto simp: shouldOverflow_def Let_def split: if_splits)
  qed (use o assms(1) in auto)
  then show ?thesis
    using o False assms(2) insertEntry_inv [of b' "\<lparr>ie_item = item, ie_createdAt = now, ie_lastAccessedAt = now\<rparr>"]
    by (cases ok) (auto simp: bag_add_def Let_def bag_inv_def)
qed (use assms in \<open>simp add: bag_add_def\<close>)

lemma recalc_inv: "bag_inv b \<Longrightarrow> recalcTotalPriority b = b"
  by (simp add: recalcTotalPriority_def bag_inv_def)

lemma sample_inv: "bag_inv b \<Longrightarrow> bag_inv (snd (bag_sample now r b))"
  using syncTree_inv [of b]
  by (auto simp: bag_sample_def recalc_inv pickWeighted_def Let_def bag_inv_def)

lemma sorted_filter_map:
  assumes "sorted_wrt (\<ge>) xs" "\<And>x y. y \<le> x \<Longrightarrow> 0 < f y \<Longrightarrow> f y \<le> (f x :: real)"
  shows "sorted_wrt (\<ge>) (filter (\<lambda>z. 0 < z) (map f xs))"
  using assms(1) by (induction xs) (auto simp: assms(2))

lemma decayed_mono:
  assumes "y \<le> x" "0 \<le> y" "0 < decayed rate q y"
  shows "decayed rate q y \<le> decayed rate q x"
proof -
  have y: "decayed rate q y = retain y rate" "0 < retain y rate" "q \<le> retain y rate"
    using assms(3) by (auto simp: decayed_def Let_def split: if_splits)
  then have "0 < 1 - rate" using assms(2) by (auto simp: retain_def zero_less_mult_iff)
  then have "retain y rate \<le> retain x rate" using assms(1) by (simp add: retain_def)
  then show ?thesis using y by (simp add: decayed_def Let_def)
qed

lemma decay_inv:
  assumes "bag_inv b"
  shows "bag_inv (bag_decay b rate)"
proof -
  define r where "r = (case rate of None \<Rightarrow> b_decayRate b | Some q \<Rightarrow> q)"
  define f where "f = decayed r (b_forgetRate b)"
  define kept where "kept = filter (\<lambda>e. 0 < bi_priority (ie_item e))
    (map (\<lambda>e. set_priority e (f (bi_priority (ie_item e)))) (b_list b))"
  have "priorities kept = filter (\<lambda>z. 0 < z) (map f (priorities (b_list b)))"
    unfolding kept_def by (induction "b_list b") (auto simp: set_priority_def priorities_def filter_map comp_def)
  moreover have "sorted_wrt (\<ge>) (filter (\<lambda>z. 0 < z) (map f ps))"
    if "sorted_wrt (\<ge>) ps" "list_all (\<lambda>p. 0 \<le> p) ps" for ps
    using that decayed_mono [of _ _ r "b_forgetRate b"] by (induction ps) (auto simp: f_def list_all_iff)
  ultimately have "sorted_wrt (\<ge>) (priorities kept)" "list_all (\<lambda>p. 0 \<le> p) (priorities kept)"
    using assms by (auto simp: bag_inv_def list_all_iff)
  moreover have "length kept \<le> length (b_list b)" unfolding kept_def by (metis length_filter_le length_map)
  moreover have "bag_decay b rate = (replaceAll (b\<lparr>b_totalPriority := sum_list (priorities kept)\<rparr>) kept)\<lparr>b_version := b_version b + 1\<rparr>"
    by (simp add: bag_decay_def kept_def f_def r_def Let_def replaceAll_def)
  ultimately show ?thesis using assms by (simp add: bag_inv_def replaceAll_def)
qed

lemma removeMany_inv: "bag_inv b \<Longrightarrow> i \<le> length (b_list b) \<Longrightarrow> bag_inv (snd (removeMany_loop p i b))"
proof (induction i arbitrary: b)
  case (Suc i)
  then show ?case using dropAt_inv [of b i] by (auto simp: split_beta)
qed simp

lemma removeAll_inv:
  assumes "bag_inv b"
  shows "bag_inv (snd (bag_removeAll b ids))"
proof -
  let ?kept = "filter (\<lambda>e. bi_id (ie_item e) \<notin> set ids) (b_list b)"
  have "sorted_wrt (\<ge>) (priorities ?kept)" "list_all (\<lambda>p. 0 \<le> p) (priorities ?kept)" "length ?kept \<le> length (b_list b)"
    using assms by (auto simp: bag_inv_def priorities_def sorted_wrt_map list_all_iff intro: sorted_wrt_filter)
  then show ?thesis using assms
    by (auto simp: bag_removeAll_def Let_def replaceAll_def bag_inv_def sumBy_def sumBy_from_sum priorities_def comp_def)
qed

lemma evict_inv:
  assumes "bag_inv b" "0 \<le> r" "r < 1"
  shows "bag_inv (bag_evict r b strategy)"
proof (cases "b_list b = []")
  case False
  have lru: "i < length (b_list b)" if "minBy (enumerate 0 (b_list b)) (\<lambda>(i, e). ie_lastAccessedAt e) = Some (i, e)" for i e
    using minBy_least(1) [OF that] by (simp add: in_set_enumerate_eq)
  have "nat \<lfloor>r * real (length (b_list b))\<rfloor> < length (b_list b)" using floor_draw assms False by simp
  then show ?thesis
    using False assms(1) dropAt_inv(1) [OF assms(1)] dropLast_inv(1) [OF assms(1) False] lru
    by (cases strategy) (auto simp: bag_evict_def Let_def bag_inv_def split: option.split)
qed (use assms in \<open>simp add: bag_evict_def\<close>)

lemma bag_step_inv:
  assumes "bag_inv b" "op_ok op"
  shows "bag_inv (bag_step b op)"
proof (cases op)
  case (Remove i)
  then show ?thesis using assms dropAt_inv(1) [of b]
    by (auto simp: bag_remove_def indexOf_def find_index_less split: option.split)
next
  case Pressure
  then show ?thesis using assms
    by (simp add: bag_pressure_def checkPressureTransition_def Let_def bag_inv_def)
next
  case Clear
  then show ?thesis using assms by (simp add: bag_clear_def replaceAll_def bag_inv_def)
qed (use assms in \<open>auto simp: bag_removeMany_def intro: add_inv sample_inv decay_inv removeAll_inv evict_inv removeMany_inv\<close>)

lemma newBag_inv: "bag_inv (newBag opts)"
  by (simp add: newBag_def bag_inv_def new_tree_def)

lemma step_capacity [simp]: "b_capacity (bag_step b op) = b_capacity b"
proof (cases op)
  case (RemoveMany p)
  have "b_capacity (snd (removeMany_loop p i b)) = b_capacity b" for i
    by (induction i arbitrary: b) (auto simp: split_beta dropAt_def eraseAt_def Let_def)
  then show ?thesis using RemoveMany by (simp add: bag_removeMany_def)
next
  case (Sample now r)
  then show ?thesis by (auto simp: bag_sample_def pickWeighted_def recalcTotalPriority_def Let_def)
next
  case (Evict r strategy)
  then show ?thesis
    by (cases strategy) (auto simp: bag_evict_def dropAt_def eraseAt_def dropLast_def Let_def split: option.split)
qed (auto simp: bag_add_def shouldOverflow_def insertEntry_def dropLast_def bag_remove_def dropAt_def eraseAt_def
    bag_removeAll_def replaceAll_def bag_decay_def bag_pressure_def checkPressureTransition_def bag_clear_def Let_def
    split: prod.splits bool.splits option.splits if_splits)

text \<open>C13: the bag keeps its order, bound and total. After any run of operations with priorities that
  are not negative, the entries are in descending priority, no more than the capacity, and the total
  the sampling uses is the sum of their priorities.\<close>

theorem bag_keeps_invariant:
  assumes "list_all op_ok ops"
  shows "let b = bag_run (newBag opts) ops
    in sorted_wrt (\<ge>) (map bi_priority (bag_toArray b)) \<and> bag_size b \<le> bo_capacity opts
       \<and> b_totalPriority b = sum_list (map bi_priority (bag_toArray b))"
proof -
  have "bag_inv b \<Longrightarrow> list_all op_ok ops \<Longrightarrow>
      bag_inv (foldl bag_step b ops) \<and> b_capacity (foldl bag_step b ops) = b_capacity b" for b
    by (induction ops arbitrary: b) (auto simp: bag_step_inv)
  from this [OF newBag_inv assms, of opts]
  have "bag_inv (bag_run (newBag opts) ops)" "b_capacity (bag_run (newBag opts) ops) = bo_capacity opts"
    by (simp_all add: bag_run_def newBag_def)
  then show ?thesis by (simp add: bag_inv_def Let_def bag_toArray_def bag_size_def priorities_def comp_def)
qed

section \<open>Sampling\<close>

text \<open>\<open>sampling_sound\<close>: the nodes the search can read are right.\<close>

definition sampling_sound :: "'a bag \<Rightarrow> bool" where
  "sampling_sound b \<longleftrightarrow> tree_holds b (length (b_list b) - 1)"

lemma prefix_below_slot: "list_all (\<lambda>p. 0 \<le> p) ps \<Longrightarrow> prefix_sum ps i = below_slot ps i"
  unfolding prefix_sum_def below_slot_def
  by (rule arg_cong [of _ _ sum_list], rule map_idI [symmetric]) (auto simp: list_all_iff dest: in_set_takeD)

lemma slot_of_unique:
  assumes "slot_of ws roll i" "slot_of ws roll j"
  shows "i = j"
proof -
  have "\<not> i < j" if "slot_of ws roll i" "slot_of ws roll j" for i j
  proof
    assume "i < j"
    have step: "below_slot ws (Suc k) = below_slot ws k + max 0 (ws ! k)" if "k < length ws" for k
      using that by (simp add: below_slot_def take_Suc_conv_app_nth)
    have mono: "below_slot ws k \<le> below_slot ws l" if "k \<le> l" for k l
      using that prefix_sum_mono [of "map (max 0) ws" k l]
      by (simp add: prefix_sum_def below_slot_def take_map list_all_iff)
    have "0 < below_slot ws (Suc i)"
      using that(1) step [of i] below_slot_nonneg [of ws i] by (simp add: slot_of_def)
    moreover have "below_slot ws (Suc i) \<le> below_slot ws j" using \<open>i < j\<close> by (intro mono) simp
    ultimately show False using that by (auto simp: slot_of_def)
  qed
  then show ?thesis using assms nat_neq_iff by blast
qed

lemma last_below_slot:
  assumes "sorted_wrt (\<ge>) ps" "list_all (\<lambda>p. 0 \<le> p) ps" "0 < sum_list ps" "0 \<le> target" "target \<le> sum_list ps"
    and "last_below ps (length ps) target i"
  shows "slot_of ps target i"
proof -
  note below = prefix_below_slot [OF assms(2), symmetric]
  have i: "i < length ps" using assms(6) by (simp add: last_below_def)
  have up: "target \<le> prefix_sum ps (Suc i)"
    using assms(5,6) i prefix_sum_all [of ps "Suc i"] by (cases "Suc i < length ps") (auto simp: last_below_def)
  have "0 < ps ! i"
  proof (cases "i = 0")
    case True
    show ?thesis
    proof (rule ccontr)
      assume "\<not> 0 < ps ! i"
      then have "\<forall>p \<in> set ps. p \<le> 0" using assms(1) True i by (cases ps) (auto intro: order_trans)
      then have "sum_list ps \<le> 0" by (intro sum_list_nonpos) auto
      then show False using assms(3) by simp
    qed
  next
    case False
    then show ?thesis using up assms(6) prefix_sum_Suc [OF i] by (auto simp: last_below_def)
  qed
  then show ?thesis using up assms(6) i below by (auto simp: slot_of_def last_below_def)
qed

lemma pick_slot:
  assumes "bag_inv b" "sampling_sound b" "b_list b \<noteq> []" "0 < b_totalPriority b" "0 \<le> r" "r < 1"
  shows "slot_of (priorities (b_list b)) (r * b_totalPriority b) (fst (pickWeighted b r))"
proof -
  let ?ps = "priorities (b_list b)"
  have "nodes_hold (b_fenwick (syncTree b)) ?ps (length ?ps - 1)"
    using assms(2) rebuild_nodes(1) [of "b_fenwick b" ?ps]
    by (auto simp: sampling_sound_def tree_holds_def syncTree_def nodes_hold_def)
  from find_below [OF this] assms(3)
  have "last_below ?ps (length ?ps) (r * b_totalPriority b)
      (findByPrefixSum (b_fenwick (syncTree b)) (r * b_totalPriority b) (length ?ps))" by simp
  then have "slot_of ?ps (r * b_totalPriority b)
      (findByPrefixSum (b_fenwick (syncTree b)) (r * b_totalPriority b) (length ?ps))"
    using assms by (intro last_below_slot) (simp_all add: bag_inv_def mult_left_le_one_le)
  then show ?thesis by (auto simp: pickWeighted_def Let_def slot_of_def)
qed

text \<open>C12: the tree implements the linear draw. Where the nodes the search reads are right, a draw from a
  bag with some priority in it answers the item the linear weighted scan over its items answers for
  the same number.\<close>

theorem bag_samples_proportionally:
  assumes "bag_inv b" "sampling_sound b" "0 < b_totalPriority b" "0 \<le> r" "r < 1"
  shows "fst (bag_sample now r b) = fst (weightedPick (bag_toArray b) bi_priority (\<lambda>s. (r, s)) ())"
proof -
  let ?ps = "priorities (b_list b)" and ?rng = "\<lambda>s :: unit. (r, s)"
  have ne: "b_list b \<noteq> []" using assms(1,3) by (auto simp: bag_inv_def)
  have pos: "map (max 0) ?ps = ?ps" using assms(1) by (intro map_idI) (auto simp: bag_inv_def list_all_iff)
  then have tot: "sum_list (map (max 0) ?ps) = b_totalPriority b" using assms(1) by (simp add: bag_inv_def)
  have "unit_source ?rng" using assms(4,5) by (simp add: unit_source_def)
  from weightedScan_slot [OF this, of ?ps "()"] tot assms(3)
  obtain i where i: "weightedScan ?ps ?rng () = (Some i, ())" "slot_of ?ps (r * b_totalPriority b) i"
    by auto
  have "fst (pickWeighted b r) = i"
    using slot_of_unique [OF pick_slot [OF assms(1,2) ne assms(3-)] i(2)] .
  moreover have "i < length (b_list b)" using i(2) by (simp add: slot_of_def)
  moreover have "b_list (snd (pickWeighted b r)) = b_list b" by (simp add: pickWeighted_def Let_def)
  ultimately have "fst (bag_sample now r b) = Some (ie_item (b_list b ! i))"
    using ne assms(3) by (simp add: bag_sample_def split_beta Let_def)
  moreover have "map bi_priority (bag_toArray b) = ?ps" by (simp add: bag_toArray_def priorities_def comp_def)
  ultimately show ?thesis using i \<open>i < length (b_list b)\<close> by (simp add: weightedPick_def bag_toArray_def)
qed

lemma tree_holds_mono: "tree_holds b n \<Longrightarrow> m \<le> n \<Longrightarrow> tree_holds b m"
  by (auto simp: tree_holds_def nodes_hold_def)

lemma node_butlast: "i < length ps \<Longrightarrow> node (butlast ps) i = node ps i"
  by (simp add: node_def prefix_sum_def take_butlast)

lemma node_append: "i \<le> length ps \<Longrightarrow> node (ps @ qs) i = node ps i"
  by (simp add: node_def prefix_sum_def)

text \<open>Dropping the last entry leaves the tree right; an append leaves right what it held before.\<close>

lemma dropLast_holds:
  assumes "bag_inv b" "sampling_sound b" "b_list b \<noteq> []"
  shows "tree_holds (dropLast (b\<lparr>b_totalPriority := t\<rparr>)) (length (b_list b) - 1)"
proof -
  let ?ps = "priorities (b_list b)"
  have len: "length ?ps - 1 < length (b_fenwick b)" "length ?ps \<le> length (b_fenwick b)"
    using assms(1) by (auto simp: bag_inv_def)
  have "nodes_hold (b_fenwick (syncTree (b\<lparr>b_totalPriority := t, b_list := butlast (b_list b)\<rparr>))) (butlast ?ps) (length ?ps - 1)"
  proof (cases "b_treeStale b")
    case True
    then show ?thesis using rebuild_nodes(1) [of "b_fenwick b" "butlast ?ps"] by (simp add: syncTree_def)
  next
    case False
    then show ?thesis using assms(2,3) node_butlast [of _ ?ps]
      by (auto simp: sampling_sound_def tree_holds_def syncTree_def nodes_hold_def)
  qed
  then show ?thesis using fenwick_add_below
    by (auto simp: tree_holds_def dropLast_def Let_def nodes_hold_def)
qed

lemma insertEntry_holds:
  assumes "bag_inv b" "tree_holds b (length (b_list b))"
  shows "sampling_sound (insertEntry b e)"
proof -
  let ?n = "insertIndex b (bi_priority (ie_item e))"
  have n: "?n \<le> length (b_list b)" using insertIndex_spec(1) [OF assms(1)] .
  show ?thesis
  proof (cases "\<not> b_treeStale b \<and> ?n = length (b_list b)")
    case True
    then have "nodes_hold (b_fenwick b) (priorities (b_list b)) (length (b_list b))"
      using assms(2) by (simp add: tree_holds_def)
    then show ?thesis using True fenwick_add_below node_append [of _ "priorities (b_list b)"]
      by (auto simp: insertEntry_def Let_def sampling_sound_def tree_holds_def nodes_hold_def)
  next
    case False
    then show ?thesis using n by (auto simp: insertEntry_def Let_def sampling_sound_def tree_holds_def min_def)
  qed
qed

lemma sound_stale: "b_treeStale c \<Longrightarrow> sampling_sound c"
  by (simp add: sampling_sound_def tree_holds_def)

lemma sound_frame [simp]:
  "sampling_sound (c\<lparr>b_version := n\<rparr>) \<longleftrightarrow> sampling_sound c"
  "sampling_sound (c\<lparr>b_totalPriority := t\<rparr>) \<longleftrightarrow> sampling_sound c"
  by (simp_all add: sampling_sound_def tree_holds_def)

lemma sound_dropAt: "sampling_sound (dropAt c i)"
  by (rule sound_stale) (simp add: dropAt_def eraseAt_def Let_def)

lemma sound_add:
  fixes b :: "'a bag"
  assumes "bag_inv b" "sampling_sound b" "tree_holds b (length (b_list b)) \<or> b_capacity b \<le> length (b_list b)"
  shows "sampling_sound (snd (bag_add now b item))"
proof -
  let ?e = "\<lparr>ie_item = item, ie_createdAt = now, ie_lastAccessedAt = now\<rparr>"
  consider "b_capacity b = 0" | "0 < b_capacity b" "b_capacity b \<le> length (b_list b)"
    | "0 < b_capacity b" "length (b_list b) < b_capacity b" by linarith
  then show ?thesis
  proof cases
    case 1
    then show ?thesis using assms(2) by (simp add: bag_add_def)
  next
    case 2
    then have ne: "b_list b \<noteq> []" by auto
    let ?d = "dropLast (b\<lparr>b_totalPriority := b_totalPriority b - bi_priority (ie_item (last (b_list b)))\<rparr>)"
    have "sampling_sound (insertEntry ?d ?e)"
      using insertEntry_holds [of ?d ?e] dropLast_inv [OF assms(1) ne] dropLast_holds [OF assms(1,2) ne] by simp
    then show ?thesis using 2 assms(2) ne by (simp add: bag_add_def shouldOverflow_def Let_def)
  next
    case 3
    then have "sampling_sound (insertEntry b ?e)" using insertEntry_holds assms(1,3) by auto
    then show ?thesis using 3 by (simp add: bag_add_def Let_def)
  qed
qed

lemma sound_sample:
  assumes "bag_inv b" "sampling_sound b"
  shows "sampling_sound (snd (bag_sample now r b))"
proof -
  have "sampling_sound (syncTree b)"
    using assms(2) rebuild_nodes(1) [of "b_fenwick b" "priorities (b_list b)"]
    by (auto simp: sampling_sound_def tree_holds_def syncTree_def nodes_hold_def)
  then show ?thesis using assms
    by (auto simp: bag_sample_def recalc_inv pickWeighted_def Let_def sampling_sound_def tree_holds_def)
qed

lemma sound_evict:
  assumes "bag_inv b" "sampling_sound b"
  shows "sampling_sound (bag_evict r b strategy)"
proof (cases "b_list b = [] \<or> strategy \<noteq> LowestPriority")
  case True
  then show ?thesis using assms(2) sound_dropAt
    by (cases strategy) (auto simp: bag_evict_def split: option.split)
next
  case False
  then have "sampling_sound (dropLast (b\<lparr>b_totalPriority := b_totalPriority b - bi_priority (ie_item (last (b_list b)))\<rparr>))"
    unfolding sampling_sound_def
    by (intro tree_holds_mono [OF dropLast_holds [OF assms]]) (simp_all add: dropLast_inv(2) [OF assms(1)])
  then show ?thesis using False by (simp add: bag_evict_def Let_def)
qed

lemma step_sound:
  fixes b :: "'a bag"
  assumes "bag_inv b" "sampling_sound b" "op_ok op"
    and "tree_holds b (length (b_list b)) \<or> b_capacity b \<le> length (b_list b) \<or> (\<forall>now item. op \<noteq> Add now item)"
  shows "sampling_sound (bag_step b op)"
proof (cases op)
  case (Add now item)
  then show ?thesis using sound_add [OF assms(1,2)] assms(4) by auto
next
  case (Sample now r)
  then show ?thesis using sound_sample [OF assms(1,2)] by simp
next
  case (Remove i)
  then show ?thesis using assms(2) sound_dropAt by (auto simp: bag_remove_def split: option.split)
next
  case (RemoveAll ids)
  then show ?thesis using assms(2) by (auto simp: bag_removeAll_def Let_def replaceAll_def intro: sound_stale)
next
  case (RemoveMany p)
  have "sampling_sound c \<Longrightarrow> sampling_sound (snd (removeMany_loop p i c))" for i c
    by (induction i arbitrary: c) (auto simp: split_beta sound_dropAt)
  then show ?thesis using RemoveMany assms(2) by (simp add: bag_removeMany_def)
next
  case (Evict r strategy)
  then show ?thesis using sound_evict [OF assms(1,2)] by simp
next
  case Pressure
  then show ?thesis using assms(2)
    by (simp add: bag_pressure_def checkPressureTransition_def Let_def sampling_sound_def tree_holds_def)
qed (auto simp: bag_decay_def bag_clear_def replaceAll_def Let_def intro: sound_stale)

text \<open>\<open>whole_tree\<close>: every node up to the capacity is right, as if the places without an entry held
  priority 0.\<close>

definition padded :: "'a bag \<Rightarrow> real list" where
  "padded b = priorities (b_list b) @ replicate (b_capacity b - length (b_list b)) 0"

definition whole_tree :: "'a bag \<Rightarrow> bool" where
  "whole_tree b \<longleftrightarrow> nodes_hold (b_fenwick b) (padded b) (b_capacity b)"

lemma whole_tree_sound:
  assumes "whole_tree b" "length (b_list b) \<le> b_capacity b"
  shows "sampling_sound b"
  using assms node_append [of _ "priorities (b_list b)"]
  by (auto simp: sampling_sound_def tree_holds_def whole_tree_def nodes_hold_def padded_def)

lemma rebuild_whole: "b_treeStale b \<Longrightarrow> length (b_list b) = b_capacity b \<Longrightarrow> whole_tree (syncTree b)"
  using rebuild_nodes(1) [of "b_fenwick b" "priorities (b_list b)"] by (simp add: syncTree_def whole_tree_def padded_def)

text \<open>The point updates are exact: an append adds the new priority and a drop takes the last one away
  at every node that sums over the place.\<close>

lemma insertEntry_whole:
  assumes "whole_tree b" "bag_inv b" "length (b_list b) < b_capacity b"
  shows "b_treeStale (insertEntry b e) \<or> whole_tree (insertEntry b e)"
proof -
  let ?p = "bi_priority (ie_item e)" and ?n = "length (b_list b)"
  have n: "insertIndex b ?p \<le> ?n" using insertIndex_spec(1) [OF assms(2)] .
  show ?thesis
  proof (cases "\<not> b_treeStale b \<and> insertIndex b ?p = ?n")
    case True
    have "replicate (b_capacity b - ?n) (0 :: real) = 0 # replicate (b_capacity b - Suc ?n) 0"
      using assms(3) by (simp flip: replicate_Suc add: Suc_diff_Suc)
    then have old: "padded b = priorities (b_list b) @ 0 # replicate (b_capacity b - Suc ?n) 0" by (simp add: padded_def)
    have "nodes_hold (fenwick_add (b_fenwick b) ?n (?p - padded b ! ?n)) ((padded b)[?n := ?p]) (b_capacity b)"
      using assms(1) by (intro fenwick_add_holds) (simp_all add: whole_tree_def old)
    moreover have "padded b ! ?n = 0" "(padded b)[?n := ?p] = priorities (b_list b) @ ?p # replicate (b_capacity b - Suc ?n) 0"
      unfolding old by (simp_all add: nth_append list_update_append)
    ultimately show ?thesis using True by (simp add: insertEntry_def whole_tree_def padded_def Let_def)
  next
    case False
    then show ?thesis using n by (auto simp: insertEntry_def Let_def min_def)
  qed
qed

lemma dropLast_whole:
  assumes "whole_tree b" "\<not> b_treeStale b" "bag_inv b" "b_list b \<noteq> []"
  shows "whole_tree (dropLast (b\<lparr>b_totalPriority := t\<rparr>))" "\<not> b_treeStale (dropLast (b\<lparr>b_totalPriority := t\<rparr>))"
proof -
  let ?ps = "priorities (b_list b)" and ?n = "length (b_list b) - 1" and ?zeros = "replicate (b_capacity b - length (b_list b)) (0 :: real)"
  define q where "q = bi_priority (ie_item (last (b_list b)))"
  have ps: "?ps = butlast ?ps @ [q]" using assms(4) by (simp add: q_def flip: priorities_last)
  have len: "length (butlast ?ps) = ?n" by simp
  have cap: "length (b_list b) \<le> b_capacity b" using assms(3) by (simp add: bag_inv_def)
  have old: "padded b = butlast ?ps @ q # ?zeros" using ps by (simp add: padded_def)
  have "nodes_hold (fenwick_add (b_fenwick b) ?n (0 - padded b ! ?n)) ((padded b)[?n := 0]) (b_capacity b)"
    using assms(1) old len by (intro fenwick_add_holds) (simp_all add: whole_tree_def del: length_butlast)
  moreover have "padded b ! ?n = q" "(padded b)[?n := 0] = butlast ?ps @ 0 # ?zeros"
    unfolding old using len by (simp_all add: nth_append list_update_append del: length_butlast)
  moreover have "0 # ?zeros = replicate (b_capacity b - ?n) 0"
    using cap assms(4) by (cases "b_list b") (simp_all flip: replicate_Suc add: Suc_diff_le)
  ultimately show "whole_tree (dropLast (b\<lparr>b_totalPriority := t\<rparr>))"
    using assms(2) by (simp add: dropLast_def syncTree_def whole_tree_def padded_def q_def Let_def)
  show "\<not> b_treeStale (dropLast (b\<lparr>b_totalPriority := t\<rparr>))"
    using assms(2) by (simp add: dropLast_def syncTree_def Let_def)
qed

lemma whole_frame [simp]:
  "whole_tree (c\<lparr>b_version := n\<rparr>) \<longleftrightarrow> whole_tree c" "whole_tree (c\<lparr>b_totalPriority := t\<rparr>) \<longleftrightarrow> whole_tree c"
  by (simp_all add: whole_tree_def padded_def)

lemma add_whole:
  fixes b :: "'a bag"
  assumes "whole_tree b" "\<not> b_treeStale b" "bag_inv b"
  shows "b_treeStale (snd (bag_add now b item)) \<or> whole_tree (snd (bag_add now b item))"
proof -
  let ?e = "\<lparr>ie_item = item, ie_createdAt = now, ie_lastAccessedAt = now\<rparr>"
  let ?d = "dropLast (b\<lparr>b_totalPriority := b_totalPriority b - bi_priority (ie_item (last (b_list b)))\<rparr>)"
  show ?thesis
  proof (cases "0 < b_capacity b \<and> b_capacity b \<le> length (b_list b)")
    case True
    then have ne: "b_list b \<noteq> []" by auto
    have "b_treeStale (insertEntry ?d ?e) \<or> whole_tree (insertEntry ?d ?e)"
    proof (rule insertEntry_whole [OF dropLast_whole(1) [OF assms ne]])
      show "bag_inv ?d" "length (b_list ?d) < b_capacity ?d"
        using dropLast_inv [OF assms(3) ne] True ne assms(3) by (auto simp: bag_inv_def dropLast_def Let_def)
    qed
    then show ?thesis using True assms(1) ne by (auto simp: bag_add_def shouldOverflow_def Let_def)
  next
    case False
    then show ?thesis using insertEntry_whole [OF assms(1,3), of ?e] assms(1)
      by (cases "b_capacity b = 0") (auto simp: bag_add_def Let_def)
  qed
qed

lemma evict_whole:
  assumes "whole_tree b" "\<not> b_treeStale b" "bag_inv b"
  shows "b_treeStale (bag_evict r b strategy) \<or> whole_tree (bag_evict r b strategy)"
proof (cases "b_list b = [] \<or> strategy \<noteq> LowestPriority")
  case True
  then show ?thesis using assms(1)
    by (cases strategy) (auto simp: bag_evict_def dropAt_def eraseAt_def Let_def split: option.split)
next
  case False
  then show ?thesis using dropLast_whole(1) [OF assms] by (simp add: bag_evict_def Let_def)
qed

lemma step_whole:
  fixes b :: "'a bag"
  assumes "whole_tree b" "\<not> b_treeStale b" "bag_inv b"
  shows "b_treeStale (bag_step b op) \<or> whole_tree (bag_step b op)"
proof (cases op)
  case (Add now item)
  then show ?thesis using add_whole [OF assms] by simp
next
  case (Sample now r)
  have "syncTree b = b" using assms(2) by (simp add: syncTree_def)
  then show ?thesis using Sample assms
    by (auto simp: bag_sample_def recalc_inv pickWeighted_def Let_def whole_tree_def padded_def)
next
  case (Remove i)
  then show ?thesis using assms(1) by (auto simp: bag_remove_def dropAt_def eraseAt_def Let_def split: option.split)
next
  case (RemoveAll ids)
  then show ?thesis using assms(1) by (auto simp: bag_removeAll_def Let_def replaceAll_def)
next
  case (RemoveMany p)
  have "b_treeStale c \<or> whole_tree c \<Longrightarrow> b_treeStale (snd (removeMany_loop p i c)) \<or> whole_tree (snd (removeMany_loop p i c))" for i c
  proof (induction i arbitrary: c)
    case (Suc i)
    have "b_treeStale (dropAt c i)" by (simp add: dropAt_def eraseAt_def Let_def)
    then show ?case using Suc.IH [of "dropAt c i"] Suc.IH [of c] Suc.prems by (auto simp: split_beta)
  qed simp
  then show ?thesis using RemoveMany assms(1) by (simp add: bag_removeMany_def)
next
  case (Evict r strategy)
  then show ?thesis using evict_whole [OF assms] by simp
next
  case Pressure
  then show ?thesis using assms(1)
    by (simp add: bag_pressure_def checkPressureTransition_def Let_def whole_tree_def padded_def)
qed (auto simp: bag_decay_def bag_clear_def replaceAll_def Let_def)

text \<open>C14: the point updates keep the tree right. Where a fresh tree is right at every node up to the
  capacity, as after a rebuild of a full bag, every operation leaves it right at every node or marks
  it for rebuilding: an append adds exactly its priority and a drop takes exactly the dropped one
  away. And whatever the tree, every operation keeps the nodes the search reads right, except an append to a bag
  below its capacity that already took one since the tree was rebuilt.\<close>

theorem sampling_stays_sound:
  fixes b :: "'a bag"
  assumes "bag_inv b" "op_ok op"
  shows "(whole_tree b \<and> \<not> b_treeStale b \<longrightarrow> whole_tree (bag_step b op) \<or> b_treeStale (bag_step b op))
    \<and> (sampling_sound b
        \<and> (tree_holds b (length (b_list b)) \<or> b_capacity b \<le> length (b_list b) \<or> (\<forall>now item. op \<noteq> Add now item))
       \<longrightarrow> sampling_sound (bag_step b op))"
  using step_whole [of b op] step_sound [of b op] assms by blast

section \<open>The second append\<close>

lemma add_tail:
  assumes "bag_inv b" "length (b_list b) < b_capacity b" "\<forall>x \<in> set (priorities (b_list b)). bi_priority item \<le> x"
  shows "bag_step b (Add now item) =
    b\<lparr>b_list := b_list b @ [\<lparr>ie_item = item, ie_createdAt = now, ie_lastAccessedAt = now\<rparr>],
      b_fenwick := (if b_treeStale b then b_fenwick b else fenwick_add (b_fenwick b) (length (b_list b)) (bi_priority item)),
      b_totalPriority := b_totalPriority b + bi_priority item, b_version := b_version b + 1\<rparr>"
proof -
  note i = insertIndex_spec [OF assms(1), of "bi_priority item"]
  have "\<not> insertIndex b (bi_priority item) < length (b_list b)"
  proof
    assume l: "insertIndex b (bi_priority item) < length (b_list b)"
    then have "priorities (b_list b) ! insertIndex b (bi_priority item) < bi_priority item" using i(3) by blast
    moreover have "bi_priority item \<le> priorities (b_list b) ! insertIndex b (bi_priority item)"
      using assms(3) nth_mem [of "insertIndex b (bi_priority item)" "priorities (b_list b)"] l by simp
    ultimately show False by simp
  qed
  then have "insertIndex b (bi_priority item) = length (b_list b)" using i(1) by simp
  then show ?thesis using assms(2) by (simp add: bag_add_def insertEntry_def Let_def)
qed

text \<open>A bag that took three items and was sampled, then two more.\<close>

definition late_item :: "(nat \<Rightarrow> real) \<Rightarrow> nat \<Rightarrow> bagItem" where
  "late_item p i = \<lparr>bi_id = replicate i CHR ''x'', bi_priority = p i\<rparr>"

definition late_bag :: "real \<Rightarrow> (nat \<Rightarrow> real) \<Rightarrow> unit bag" where
  "late_bag r p =
     bag_run (newBag \<lparr>bo_capacity = 8, bo_decayRate = None, bo_forgetRate = None, bo_id = ''bag''\<rparr>)
       (map (\<lambda>i. Add 0 (late_item p i)) [0, 1, 2] @ [Sample 0 r] @ map (\<lambda>i. Add 0 (late_item p i)) [3, 4])"

definition late_stage :: "(nat \<Rightarrow> real) \<Rightarrow> nat \<Rightarrow> real list \<Rightarrow> bool \<Rightarrow> unit bag" where
  "late_stage p n tree stale =
     \<lparr>b_version = n, b_capacity = 8, b_decayRate = 1 / 100, b_forgetRate = 1 / 1000,
      b_totalPriority = sum_list (map p [0..<n]), b_bagId = ''bag'', b_lastPressureLevel = Normal,
      b_list = map (\<lambda>i. \<lparr>ie_item = late_item p i, ie_createdAt = 0, ie_lastAccessedAt = 0\<rparr>) [0..<n],
      b_fenwick = tree, b_treeStale = stale\<rparr>"

lemma late_priorities [simp]: "priorities (b_list (late_stage p n tree stale)) = map p [0..<n]"
  by (simp add: late_stage_def priorities_def late_item_def comp_def)

lemma late_stage_inv:
  assumes "\<forall>i j. i \<le> j \<and> j < n \<longrightarrow> p j \<le> p i" "\<forall>i < n. 0 \<le> p i" "n \<le> 8" "length tree = 9"
  shows "bag_inv (late_stage p n tree stale)"
proof -
  have "sorted_wrt (\<ge>) (map p [0..<n])" using assms(1) by (auto simp: sorted_wrt_iff_nth_less)
  moreover have "bag_inv b \<longleftrightarrow> sorted_wrt (\<ge>) (priorities (b_list b)) \<and> length (priorities (b_list b)) \<le> b_capacity b
     \<and> b_totalPriority b = sum_list (priorities (b_list b)) \<and> list_all (\<lambda>p. 0 \<le> p) (priorities (b_list b))
     \<and> length (b_fenwick b) = Suc (b_capacity b)" for b :: "unit bag" by (simp add: bag_inv_def)
  ultimately show ?thesis using assms(2-) by (simp only: late_priorities) (simp add: late_stage_def list_all_iff)
qed

lemma late_add:
  assumes "\<forall>i j. i \<le> j \<and> j \<le> n \<longrightarrow> p j \<le> p i" "\<forall>i \<le> n. 0 \<le> p i" "n < 8" "length tree = 9"
  shows "bag_step (late_stage p n tree stale) (Add 0 (late_item p n))
    = late_stage p (Suc n) (if stale then tree else fenwick_add tree n (p n)) stale"
proof -
  have "bag_inv (late_stage p n tree stale)" using assms by (intro late_stage_inv) auto
  from add_tail [OF this, of "late_item p n" 0] assms
  show ?thesis by (simp only: late_priorities) (simp add: late_stage_def late_item_def)
qed

lemma late_rebuild: "fenwick_rebuild (new_tree 8) [x, y, z] = [0, x, x + y, z, 0, 0, 0, 0, 0]"
  by (simp add: fenwick_rebuild_def new_tree_def rebuild_loop.simps lowbit_def eval_nat_numeral)

lemma late_appends:
  "fenwick_add (fenwick_add [0, x, x + y, z, 0, 0, 0, 0, 0] 3 u) 4 w = [0, x, x + y, z, u, w, w, 0, u + w]"
  by (simp add: fenwick_add_def add_loop.simps lowbit_def eval_nat_numeral)

lemma late_find:
  assumes "u \<le> x" "0 \<le> y"
  shows "findByPrefixSum [0, x, x + y, z, u, w, w, 0, u + w] target 5 = (if u < target then 4 else 0)"
proof -
  have "highestBit 5 = 4" by (simp add: highestBit_def highestBit_loop.simps)
  then show ?thesis using assms by (auto simp: findByPrefixSum_def find_loop.simps Let_def)
qed

lemma late_sample:
  assumes "\<forall>i < n. 0 < p i" "0 < n" "i < n"
    and "i = findByPrefixSum (if stale then fenwick_rebuild tree (map p [0..<n]) else tree) (r * sum_list (map p [0..<n])) n"
  shows "bag_sample 0 r (late_stage p n tree stale)
    = (Some (late_item p i), late_stage p n (if stale then fenwick_rebuild tree (map p [0..<n]) else tree) False)"
proof -
  let ?b = "late_stage p n tree stale"
  have "0 < p 0 + sum_list (map p [1..<n])"
    using assms(1,2) by (intro add_pos_nonneg sum_list_nonneg) (auto simp: less_imp_le)
  then have total: "0 < b_totalPriority ?b" using assms(2) by (simp add: late_stage_def upt_conv_Cons)
  have sync: "syncTree ?b = late_stage p n (if stale then fenwick_rebuild tree (map p [0..<n]) else tree) False"
    using late_priorities [of p n tree stale] by (simp add: syncTree_def) (simp add: late_stage_def)
  have "pickWeighted ?b r = (i, syncTree ?b)"
    using assms(3,4) unfolding pickWeighted_def sync Let_def by (simp add: late_stage_def)
  moreover have "(b_list (syncTree ?b))[i := (b_list (syncTree ?b) ! i)\<lparr>ie_lastAccessedAt := 0\<rparr>] = b_list (syncTree ?b)"
    using assms(3) by (simp add: late_stage_def list_update_same_conv)
  moreover have "b_list ?b \<noteq> []" using assms(2) by (simp add: late_stage_def)
  moreover have "ie_item (b_list (late_stage p n tr st) ! i) = late_item p i" for tr st using assms(3) by (simp add: late_stage_def)
  ultimately show ?thesis using total sync by (simp add: bag_sample_def Let_def)
qed

text \<open>two late items skew the draw. Add three items to an empty bag, sample it, and add two more
  of no higher priority: from then on a draw answers the fifth item for every number above the
  fourth priority and the first item for the rest, whatever the other priorities, because the
  second append reads a node the first one left incomplete.\<close>

theorem second_append_skews:
  assumes "\<forall>i j. i \<le> j \<and> j < 5 \<longrightarrow> p j \<le> p i" "\<forall>i < 5. 0 < p i"
  shows "fst (bag_sample 0 q (late_bag r p))
    = Some (late_item p (if p 3 < q * (p 0 + p 1 + p 2 + p 3 + p 4) then 4 else 0))"
proof -
  have upt: "[0..<3] = [0, 1, 2 :: nat]" "[0..<5] = [0, 1, 2, 3, 4 :: nat]" by (simp_all add: upt_rec)
  let ?t3 = "[0, p 0, p 0 + p 1, p 2, 0, 0, 0, 0, 0]"
  let ?t5 = "[0, p 0, p 0 + p 1, p 2, p 3, p 4, p 4, 0, p 3 + p 4]"
  have start: "newBag \<lparr>bo_capacity = 8, bo_decayRate = None, bo_forgetRate = None, bo_id = ''bag''\<rparr> = late_stage p 0 (new_tree 8) True"
    by (simp add: newBag_def late_stage_def)
  have add: "bag_step (late_stage p n tree stale) (Add 0 (late_item p n))
      = late_stage p (Suc n) (if stale then tree else fenwick_add tree n (p n)) stale"
    if "n < 5" "length tree = 9" for n tree stale
    using that assms(1,2) by (intro late_add) (auto simp: less_imp_le)
  have three: "foldl bag_step (late_stage p 0 (new_tree 8) True) (map (\<lambda>i. Add 0 (late_item p i)) [0, 1, 2])
      = late_stage p 3 (new_tree 8) True"
    using add [of 0 "new_tree 8" True] add [of 1 "new_tree 8" True] add [of 2 "new_tree 8" True]
    by (simp add: new_tree_def numeral_3_eq_3 numeral_2_eq_2)
  have t3: "fenwick_rebuild (new_tree 8) (map p [0..<3]) = ?t3"
    unfolding upt using late_rebuild [of "p 0" "p 1" "p 2"] by simp
  obtain i where i: "i = findByPrefixSum ?t3 (r * sum_list (map p [0..<3])) 3" "i < 3"
    using find_below [of ?t3 "map p [0..<3]" 3 "r * sum_list (map p [0..<3])"]
      rebuild_nodes(1) [of "new_tree 8" "map p [0..<3]"] t3
    by (simp add: last_below_def nodes_hold_def)
  then have sample: "bag_step (late_stage p 3 (new_tree 8) True) (Sample 0 r) = late_stage p 3 ?t3 False"
    using late_sample [of 3 p i True "new_tree 8" r] assms(2) t3 by simp
  have two: "foldl bag_step (late_stage p 3 ?t3 False) (map (\<lambda>i. Add 0 (late_item p i)) [3, 4]) = late_stage p 5 ?t5 False"
    using add [of 3 ?t3 False] add [of 4 "fenwick_add ?t3 3 (p 3)" False] late_appends [of "p 0" "p 1" "p 2" "p 3" "p 4"]
    by (simp add: eval_nat_numeral)
  have "late_bag r p = late_stage p 5 ?t5 False"
    unfolding late_bag_def bag_run_def start foldl_append three
    using sample two by simp
  moreover have "findByPrefixSum ?t5 (q * sum_list (map p [0..<5])) 5
      = (if p 3 < q * sum_list (map p [0..<5]) then 4 else 0)"
    using assms(1,2) by (intro late_find) (auto simp: less_imp_le)
  moreover have "sum_list (map p [0..<5]) = p 0 + p 1 + p 2 + p 3 + p 4" unfolding upt by simp
  ultimately show ?thesis
    using late_sample [of 5 p _ False ?t5 q] assms(2) by (auto simp: less_imp_le)
qed

theorem second_append_skews_witness:
  "fst (bag_sample 0 (1 / 2) (late_bag 0 (\<lambda>_. 1))) = Some (late_item (\<lambda>_. 1) 4)"
  using second_append_skews [where p = "\<lambda>_. 1" and q = "1 / 2" and r = 0] by simp

theorem bag_keeps_invariant_witness:
  "bag_size (bag_run (newBag \<lparr>bo_capacity = 1, bo_decayRate = None, bo_forgetRate = None, bo_id = ''bag''\<rparr>)
     [Add 0 \<lparr>bi_id = ''a'', bi_priority = 1\<rparr>, Add 1 \<lparr>bi_id = ''b'', bi_priority = 2\<rparr>, Decay None]) \<le> 1"
  using bag_keeps_invariant [of "[Add 0 \<lparr>bi_id = ''a'', bi_priority = 1\<rparr>, Add 1 \<lparr>bi_id = ''b'', bi_priority = 2\<rparr>, Decay None]"
      "\<lparr>bo_capacity = 1, bo_decayRate = None, bo_forgetRate = None, bo_id = ''bag''\<rparr>"] by (simp add: Let_def)

lemma late_sound: "bag_inv (late_stage (\<lambda>_. 1) 3 (new_tree 8) True)" "sampling_sound (late_stage (\<lambda>_. 1) 3 (new_tree 8) True)"
proof -
  show "bag_inv (late_stage (\<lambda>_. 1) 3 (new_tree 8) True)" by (rule late_stage_inv) (simp_all add: new_tree_def)
  show "sampling_sound (late_stage (\<lambda>_. 1) 3 (new_tree 8) True)"
    by (simp add: sampling_sound_def tree_holds_def late_stage_def)
qed

theorem bag_samples_proportionally_witness:
  "fst (bag_sample 0 (1 / 2) (late_stage (\<lambda>_. 1) 3 (new_tree 8) True))
     = fst (weightedPick (bag_toArray (late_stage (\<lambda>_. 1) 3 (new_tree 8) True)) bi_priority (\<lambda>s. (1 / 2, s)) ())"
  by (rule bag_samples_proportionally [OF late_sound]) (simp_all add: late_stage_def sum_list_triv)

text \<open>A full bag of three whose tree is right; a better fourth item pushes the last one out.\<close>

definition full_bag :: "unit bag" where
  "full_bag = \<lparr>b_version = 3, b_capacity = 3, b_decayRate = 0, b_forgetRate = 0, b_totalPriority = 6, b_bagId = ''bag'',
     b_lastPressureLevel = Normal,
     b_list = map (\<lambda>i. \<lparr>ie_item = late_item (\<lambda>_. 2) i, ie_createdAt = 0, ie_lastAccessedAt = 0\<rparr>) [0, 1, 2],
     b_fenwick = [0, 2, 4, 2], b_treeStale = False\<rparr>"

lemma full_bag_facts: "bag_inv full_bag" "whole_tree full_bag" "\<not> b_treeStale full_bag"
proof -
  show "bag_inv full_bag" "\<not> b_treeStale full_bag"
    by (simp_all add: full_bag_def bag_inv_def late_item_def)
  have n: "node [2, 2, 2] 1 = 2" "node [2, 2, 2] 2 = 4" "node [2, 2, 2] 3 = 2"
    by (simp_all add: node_def prefix_sum_def lowbit_def)
  have "[0, 2, 4, 2] ! i = node [2, 2, 2] i" if "0 < i" "i \<le> 3" for i
  proof -
    have "i = 1 \<or> i = 2 \<or> i = 3" using that by arith
    then show ?thesis using n by (elim disjE) simp_all
  qed
  moreover have "padded full_bag = [2, 2, 2]" "b_fenwick full_bag = [0, 2, 4, 2]" "b_capacity full_bag = 3"
    by (simp_all add: full_bag_def padded_def late_item_def)
  ultimately show "whole_tree full_bag" by (simp add: whole_tree_def nodes_hold_def)
qed

theorem sampling_stays_sound_witness:
  "whole_tree (bag_step full_bag (Evict 0 LowestPriority)) \<or> b_treeStale (bag_step full_bag (Evict 0 LowestPriority))"
  using sampling_stays_sound [OF full_bag_facts(1), of "Evict 0 LowestPriority"] full_bag_facts by simp

end
