(* ===== verification/Nal_Rules.thy ===== *)
theory Nal_Rules
  imports Reduce Truth_Values Stamps Rule_Table
begin

text \<open>
  The inference rule bodies: the builders of \<open>nar/src/rules/impls/rule-builder.ts\<close>, the
  core bodies of \<open>rules/nal/*.ts\<close> and the extended ones of \<open>rules/extended/*.ts\<close>.
  A body answers \<open>None\<close> where the code returns \<open>undefined\<close> and \<open>Inl\<close>
  where a constructor throws. Every conclusion is built by the canonicalising factory of
  \<open>Reduce\<close>, whose collator is the first argument of a body. Terms are read through
  \<open>termsEqual\<close>, without an object shared between them.
\<close>

section \<open>What a body is given and gives\<close>

record ruleInput =
  in_term :: narTerm
  in_truth :: truth
  in_stamp :: stamp
  in_occurrenceTime :: real

type_synonym conclusion = "(termError + narTerm) option"

type_synonym ruleFn = "narTerm \<times> narTerm \<Rightarrow> (ruleInput \<times> ruleInput) option \<Rightarrow> conclusion"

definition sameTerms :: "narTerm \<Rightarrow> narTerm \<Rightarrow> bool" where
  "sameTerms a b = (termsEqual (\<lambda>_ _. False) (Some a) (Some b) = Some True)"

lemma sameTerms_iff [simp]: "sameTerms a b \<longleftrightarrow> a = b"
  using structuralEqual_term [of "\<lambda>_ _. False" a "Suc (term_height a)" b]
  by (simp add: sameTerms_def termsEqual_def del: structuralEqual.simps)

text \<open>A factory call over present arguments, and a call whose argument is another call.\<close>

definition build :: "collation \<Rightarrow> operatorKey \<Rightarrow> narTerm list \<Rightarrow> termError + narTerm" where
  "build collate kind args = createCompound collate kind (map Some args)"

definition feed :: "termError + narTerm \<Rightarrow> (narTerm \<Rightarrow> conclusion) \<Rightarrow> conclusion" where
  "feed arg f = (case arg of Inl e \<Rightarrow> Some (Inl e) | Inr t \<Rightarrow> f t)"

section \<open>The builders\<close>

definition buildPairRule ::
  "operatorKey \<times> operatorKey
    \<Rightarrow> (narTerm \<times> narTerm \<Rightarrow> narTerm \<times> narTerm \<Rightarrow> (ruleInput \<times> ruleInput) option \<Rightarrow> conclusion) \<Rightarrow> ruleFn" where
  "buildPairRule kinds derive = (\<lambda>(t1, t2) inputs.
     case (binaryOf (fst kinds) t1, binaryOf (snd kinds) t2) of
       (Some l, Some r) \<Rightarrow> derive l r inputs
     | _ \<Rightarrow> None)"

definition buildRolePairRule :: "(narTerm \<times> narTerm \<Rightarrow> narTerm \<times> narTerm \<Rightarrow> conclusion) \<Rightarrow> ruleFn" where
  "buildRolePairRule derive = (\<lambda>(t1, t2) inputs.
     case (rolePair t1, rolePair t2) of (Some l, Some r) \<Rightarrow> derive l r | _ \<Rightarrow> None)"

definition buildBinaryInhRule ::
  "(narTerm \<times> narTerm \<Rightarrow> narTerm \<times> narTerm \<Rightarrow> (ruleInput \<times> ruleInput) option \<Rightarrow> conclusion) \<Rightarrow> ruleFn" where
  "buildBinaryInhRule derive = buildPairRule (Inheritance, Inheritance) derive"

definition buildInhRule :: "(narTerm \<times> narTerm \<Rightarrow> conclusion) \<Rightarrow> ruleFn" where
  "buildInhRule derive = (\<lambda>(t, _) inputs.
     case binaryOf Inheritance t of Some pair \<Rightarrow> derive pair | None \<Rightarrow> None)"

definition buildImplicationPairRule :: "(narTerm \<times> narTerm \<Rightarrow> narTerm \<times> narTerm \<Rightarrow> conclusion) \<Rightarrow> ruleFn" where
  "buildImplicationPairRule derive = buildPairRule (Implication, Implication) (\<lambda>l r _. derive l r)"

definition buildSetMemberRule :: "operatorKey \<Rightarrow> (narTerm \<times> narTerm \<Rightarrow> narTerm \<Rightarrow> conclusion) \<Rightarrow> ruleFn" where
  "buildSetMemberRule kind derive = (\<lambda>(inh, t) inputs.
     case (binaryOf Inheritance inh, unaryOf kind t) of
       (Some ends, Some member) \<Rightarrow> derive ends member
     | _ \<Rightarrow> None)"

definition foldNary :: "operatorKey \<Rightarrow> bool \<Rightarrow> collation \<Rightarrow> ruleFn" where
  "foldNary kind uniq collate = (\<lambda>(t1, t2) inputs.
     if \<not> isType kind t1 \<or> \<not> isType kind t2 then None
     else let a1 = getArgs t1; a2 = getArgs t2;
              args = (if uniq then uniqueBy (a1 @ a2) termKey
                      else filter (\<lambda>x. termKey x \<in> set (map termKey a2)) a1)
          in if args \<noteq> []
             then Some (build collate (if kind = Conjunction then Conjunction else Disjunction) args)
             else None)"

definition conversionRule :: "(narTerm \<Rightarrow> termError + narTerm) \<Rightarrow> collation \<Rightarrow> ruleFn" where
  "conversionRule wrap collate = buildInhRule (\<lambda>(s, p).
     feed (wrap s) (\<lambda>s'. feed (wrap p) (\<lambda>p'. build_inheritance collate s' p')))"

definition buildSequenceRule :: "(narTerm \<Rightarrow> narTerm \<Rightarrow> termError + narTerm) \<Rightarrow> collation \<Rightarrow> ruleFn" where
  "buildSequenceRule builder collate = buildBinaryInhRule (\<lambda>(s1, p1) (s2, p2) inputs.
     case inputs of
       Some (i, j) \<Rightarrow>
         if in_occurrenceTime i \<ge> in_occurrenceTime j then None
         else if sameTerms s1 s2 then feed (builder p1 p2) (build_inheritance collate s1) else None
     | None \<Rightarrow> if sameTerms s1 s2 then feed (builder p1 p2) (build_inheritance collate s1) else None)"

datatype matchOn = MatchSubject | MatchPredicate

definition deductionFromType :: "operatorKey \<Rightarrow> matchOn \<Rightarrow> collation \<Rightarrow> ruleFn" where
  "deductionFromType kind matchOn collate = buildSetMemberRule kind (\<lambda>(s, p) member.
     if \<not> sameTerms (if matchOn = MatchSubject then s else p) member then None
     else if matchOn = MatchSubject then build_inheritance collate member p
     else build_inheritance collate s member)"

definition getVars :: "narTerm \<Rightarrow> narTerm list" where
  "getVars t = walkTerms (\<lambda>vars x depth.
     (True, if term_variableName x \<noteq> None then vars @ [x] else vars)) PreOrder t 0 []"

section \<open>The core bodies\<close>

subsection \<open>\<open>nal/core.ts\<close>\<close>

definition deduction :: "collation \<Rightarrow> ruleFn" where
  "deduction collate = buildBinaryInhRule (\<lambda>(s1, p1) (s2, p2) _.
     if sameTerms p1 s2 then build_inheritance collate s1 p2 else None)"

definition similarity :: "collation \<Rightarrow> ruleFn" where
  "similarity collate = buildBinaryInhRule (\<lambda>(s1, p1) (s2, p2) _.
     if sameTerms s1 s2 \<and> sameTerms p1 p2 \<or> sameTerms s1 p2 \<and> sameTerms p1 s2
     then Some (build collate Similarity [s1, p1]) else None)"

definition induction :: "collation \<Rightarrow> ruleFn" where
  "induction collate = buildBinaryInhRule (\<lambda>(s1, p1) (s2, p2) _.
     if sameTerms s1 s2 then build_inheritance collate p1 p2 else None)"

definition abduction :: "collation \<Rightarrow> ruleFn" where
  "abduction collate = buildBinaryInhRule (\<lambda>(s1, p1) (s2, p2) _.
     if sameTerms p1 p2 then build_inheritance collate s1 s2 else None)"

subsection \<open>\<open>nal/comparison.ts\<close>\<close>

definition analogy :: "collation \<Rightarrow> ruleFn" where
  "analogy collate = buildRolePairRule (\<lambda>(s1, p1) (s2, p2).
     if sameTerms p1 s2 then build_inheritance collate s1 p2 else None)"

definition comparison :: "collation \<Rightarrow> ruleFn" where
  "comparison collate = buildRolePairRule (\<lambda>(s1, p1) (s2, p2).
     if sameTerms s1 s2 then Some (build collate Similarity [p1, p2]) else None)"

definition sharedPredicateInheritance :: "collation \<Rightarrow> ruleFn" where
  "sharedPredicateInheritance collate = buildRolePairRule (\<lambda>(s1, p1) (s2, p2).
     if sameTerms p1 p2 then build_inheritance collate s1 s2 else None)"

definition instantiation_rule :: "collation \<Rightarrow> ruleFn" where
  "instantiation_rule = sharedPredicateInheritance"

definition exemplification :: "collation \<Rightarrow> ruleFn" where
  "exemplification = sharedPredicateInheritance"

subsection \<open>\<open>nal/higher-order.ts\<close>\<close>

definition higherOrderDeduction :: "collation \<Rightarrow> ruleFn" where
  "higherOrderDeduction collate = buildImplicationPairRule (\<lambda>(a1, c1) (a2, c2).
     if sameTerms c1 a2 then Some (build collate Implication [a1, c2]) else None)"

definition higherOrderAbduction :: "collation \<Rightarrow> ruleFn" where
  "higherOrderAbduction collate = buildImplicationPairRule (\<lambda>(a1, c1) (a2, c2).
     if sameTerms c1 c2 then Some (build collate Implication [a1, a2]) else None)"

definition higherOrderInduction :: "collation \<Rightarrow> ruleFn" where
  "higherOrderInduction collate = buildImplicationPairRule (\<lambda>(a1, c1) (a2, c2).
     if sameTerms a1 a2 then Some (build collate Implication [c1, c2]) else None)"

subsection \<open>\<open>nal/logic.ts\<close>\<close>

definition contrapositive :: "collation \<Rightarrow> ruleFn" where
  "contrapositive collate = (\<lambda>(imp, inh) inputs.
     case (binaryOf Implication imp, binaryOf Inheritance inh) of
       (Some ends, Some pair) \<Rightarrow>
         if \<not> sameTerms (fst ends) (fst pair) then None
         else Some (build collate Implication [snd pair, snd ends])
     | _ \<Rightarrow> None)"

definition intersection :: "collation \<Rightarrow> ruleFn" where
  "intersection = foldNary Conjunction False"

definition union_rule :: "collation \<Rightarrow> ruleFn" where
  "union_rule = foldNary Disjunction True"

definition decompose :: ruleFn where
  "decompose = (\<lambda>(c1, c2) inputs.
     if isType Conjunction c1 \<and> isType Conjunction c2
     then map_option Inr (find (\<lambda>a1. list_ex (sameTerms a1) (getArgs c2)) (getArgs c1))
     else None)"

subsection \<open>\<open>nal/propositional.ts\<close>\<close>

definition conjunctionIntro :: "collation \<Rightarrow> ruleFn" where
  "conjunctionIntro collate = buildPairRule (Inheritance, Inheritance) (\<lambda>(s, p) (s2, p2) _.
     if sameTerms s s2 then feed (build collate Conjunction [p, p2]) (build_inheritance collate s) else None)"

definition disjunctionIntro :: "collation \<Rightarrow> ruleFn" where
  "disjunctionIntro collate = (\<lambda>(a1, a2) inputs.
     if isAtomic a1 \<and> isAtomic a2 then Some (build collate Disjunction [a1, a2]) else None)"

definition implicationIntro :: "collation \<Rightarrow> ruleFn" where
  "implicationIntro collate = (\<lambda>(inh, neg) inputs.
     case binaryOf Inheritance inh of
       Some ends \<Rightarrow> if isType Negation neg then Some (build collate Implication [fst ends, snd ends]) else None
     | None \<Rightarrow> None)"

definition implicationElim :: ruleFn where
  "implicationElim = (\<lambda>(imp, atm) inputs.
     case binaryOf Implication imp of
       Some ends \<Rightarrow> if isAtomic atm \<and> sameTerms (fst ends) atm then Some (Inr (snd ends)) else None
     | None \<Rightarrow> None)"

definition equivalenceIntro :: "collation \<Rightarrow> ruleFn" where
  "equivalenceIntro collate = buildPairRule (Implication, Implication) (\<lambda>(a1, c1) r _.
     let same = (sameTerms a1 (fst r) \<and> sameTerms c1 (snd r)) \<or> (sameTerms a1 (snd r) \<and> sameTerms c1 (fst r))
     in if same then Some (build collate Equivalence [a1, c1]) else None)"

definition equivalenceElim :: ruleFn where
  "equivalenceElim = (\<lambda>(eq, atm) inputs.
     case binaryOf Equivalence eq of
       Some ends \<Rightarrow>
         if isAtomic atm \<and> (sameTerms (fst ends) atm \<or> sameTerms (snd ends) atm) then Some (Inr (snd ends)) else None
     | None \<Rightarrow> None)"

definition isTrueFalse :: "narTerm \<Rightarrow> narTerm \<Rightarrow> bool" where
  "isTrueFalse c1 c2 = (c1 = Atom ''TRUE'' \<and> c2 = Atom ''FALSE'')"

definition negationIntro :: "collation \<Rightarrow> ruleFn" where
  "negationIntro collate = buildPairRule (Implication, Implication) (\<lambda>(a, c1) (_, c2) _.
     if sameTerms a c2 \<and> isTrueFalse c1 c2 then Some (build_negation collate a) else None)"

definition negationElim :: ruleFn where
  "negationElim = (\<lambda>(n1, n2) inputs.
     case (unaryOf Negation n1, unaryOf Negation n2) of
       (Some first, Some second) \<Rightarrow> if sameTerms first second then Some (Inr (Atom ''FALSE'')) else None
     | _ \<Rightarrow> None)"

definition destruct :: ruleFn where
  "destruct = (\<lambda>(conj, atm) inputs.
     if isType Conjunction conj \<and> isAtomic atm
     then map_option Inr (find (\<lambda>a. sameTerms a atm) (getArgs conj)) else None)"

section \<open>The extended bodies\<close>

subsection \<open>\<open>extended/classical.ts\<close>\<close>

definition modusPonens :: ruleFn where
  "modusPonens = implicationElim"

definition modusTollens :: "collation \<Rightarrow> ruleFn" where
  "modusTollens collate = (\<lambda>(imp, negConsequent) inputs.
     case binaryOf Implication imp of
       None \<Rightarrow> None
     | Some pair \<Rightarrow>
         if \<not> isType Negation negConsequent then None
         else case getArgs negConsequent of
                [] \<Rightarrow> None
              | consequent # _ \<Rightarrow>
                  if sameTerms (snd pair) consequent then Some (build_negation collate (fst pair)) else None)"

definition disjunctiveSyllogism :: ruleFn where
  "disjunctiveSyllogism = (\<lambda>(disj, negTerm) inputs.
     if \<not> isType Negation negTerm \<or> \<not> isType Disjunction disj \<or> length (getArgs disj) \<noteq> 2 then None
     else case getArgs negTerm of
            [] \<Rightarrow> None
          | negated # _ \<Rightarrow>
              let left = getArgs disj ! 0; right = getArgs disj ! 1
              in if sameTerms left negated then Some (Inr right)
                 else if sameTerms right negated then Some (Inr left)
                 else None)"

definition conversion :: "collation \<Rightarrow> ruleFn" where
  "conversion collate = buildInhRule (\<lambda>(s, p). build_inheritance collate p s)"

subsection \<open>\<open>extended/comparison-ext.ts\<close>\<close>

definition sameInhToSimilarity :: "collation \<Rightarrow> ruleFn" where
  "sameInhToSimilarity collate = buildBinaryInhRule (\<lambda>(s1, p1) (s2, p2) _.
     if sameTerms s1 s2 \<and> sameTerms p1 p2 then Some (build collate Similarity [s1, p1]) else None)"

definition comparison_ext :: "collation \<Rightarrow> ruleFn" where
  "comparison_ext = sameInhToSimilarity"

definition sameness :: "collation \<Rightarrow> ruleFn" where
  "sameness = sameInhToSimilarity"

definition revisionWeak :: ruleFn where
  "revisionWeak = (\<lambda>(inh1, inh2) inputs.
     case (binaryOf Inheritance inh1, binaryOf Inheritance inh2) of
       (Some l, Some r) \<Rightarrow> if sameTerms (fst l) (fst r) \<and> sameTerms (snd l) (snd r) then Some (Inr inh1) else None
     | _ \<Rightarrow> None)"

definition contrapositionRule :: "collation \<Rightarrow> ruleFn" where
  "contrapositionRule collate = (\<lambda>(imp, _) inputs.
     case binaryOf Implication imp of
       Some pair \<Rightarrow>
         feed (build_negation collate (snd pair)) (\<lambda>c.
         feed (build_negation collate (fst pair)) (\<lambda>a. Some (build collate Implication [c, a])))
     | None \<Rightarrow> None)"

definition implicationDeduction :: "collation \<Rightarrow> ruleFn" where
  "implicationDeduction collate = buildImplicationPairRule (\<lambda>(a1, c1) (a2, c2).
     if sameTerms c1 a2 then Some (build collate Implication [a1, c2]) else None)"

subsection \<open>\<open>extended/composition.ts\<close>\<close>

definition intersectionComposition :: "collation \<Rightarrow> ruleFn" where
  "intersectionComposition = conjunctionIntro"

definition unionComposition :: "collation \<Rightarrow> ruleFn" where
  "unionComposition collate = buildBinaryInhRule (\<lambda>(s1, p1) (s2, p2) _.
     if sameTerms p1 p2
     then feed (build collate Disjunction [s1, s2]) (\<lambda>s. build_inheritance collate s p1) else None)"

definition difference :: "collation \<Rightarrow> ruleFn" where
  "difference collate = buildBinaryInhRule (\<lambda>(s1, p1) (s2, p2) _.
     if sameTerms s1 s2
     then feed (build_negation collate p2) (\<lambda>n.
          feed (build collate Conjunction [p1, n]) (build_inheritance collate s1)) else None)"

subsection \<open>\<open>extended/conversion.ts\<close>, \<open>deduction-ext.ts\<close>\<close>

definition instanceConversion :: "collation \<Rightarrow> ruleFn" where
  "instanceConversion collate = conversionRule (\<lambda>t. build collate SetExt [t]) collate"

definition propertyConversion :: "collation \<Rightarrow> ruleFn" where
  "propertyConversion collate = conversionRule (\<lambda>t. build collate SetInt [t]) collate"

definition instanceDeduction :: "collation \<Rightarrow> ruleFn" where
  "instanceDeduction = deductionFromType SetExt MatchSubject"

definition propertyInduction :: "collation \<Rightarrow> ruleFn" where
  "propertyInduction = deductionFromType SetInt MatchPredicate"

subsection \<open>\<open>extended/equivalence.ts\<close>\<close>

definition equivalence :: "collation \<Rightarrow> ruleFn" where
  "equivalence = equivalenceIntro"

definition variableIntroduction :: "collation \<Rightarrow> ruleFn" where
  "variableIntroduction collate = buildInhRule (\<lambda>(s, p). build_inheritance collate s p)"

definition decomposition :: ruleFn where
  "decomposition = (\<lambda>(conj, _) inputs.
     if isType Conjunction conj \<and> length (getArgs conj) \<ge> 2 then Some (Inr (getArgs conj ! 0)) else None)"

subsection \<open>\<open>extended/structural.ts\<close>, \<open>variable.ts\<close>\<close>

definition structuralInheritance :: "collation \<Rightarrow> ruleFn" where
  "structuralInheritance collate = (\<lambda>(compound, component) inputs.
     if isType Conjunction compound \<and> list_ex (\<lambda>a. sameTerms a component) (getArgs compound)
     then build_inheritance collate component compound else None)"

definition structuralReduction :: "collation \<Rightarrow> ruleFn" where
  "structuralReduction collate = (\<lambda>(inh, _) inputs.
     case binaryOf Inheritance inh of
       None \<Rightarrow> None
     | Some (s, p) \<Rightarrow>
         if \<not> isType Conjunction p then None
         else build_inheritance collate s (case getArgs p of [] \<Rightarrow> p | c # _ \<Rightarrow> c))"

definition variableDependency :: "collation \<Rightarrow> ruleFn" where
  "variableDependency collate = (\<lambda>(t1, t2) inputs.
     let vars1 = getVars t1; vars2 = getVars t2
     in if vars1 = [] \<or> vars2 = [] then None
        else let shared = filter (\<lambda>v1. list_ex (\<lambda>v2. sameTerms v2 v1) vars2) vars1
             in if shared = [] then None else Some (build collate Conjunction shared))"

subsection \<open>\<open>extended/temporal.ts\<close>\<close>

definition sequenceIntroduction :: "collation \<Rightarrow> ruleFn" where
  "sequenceIntroduction collate = buildSequenceRule (\<lambda>a b. build collate Sequence [a, b]) collate"

definition parallelIntroduction :: "collation \<Rightarrow> ruleFn" where
  "parallelIntroduction collate = buildSequenceRule (\<lambda>a b. build collate Parallel [a, b]) collate"

definition predictiveImplication :: "collation \<Rightarrow> ruleFn" where
  "predictiveImplication collate = buildPairRule (Sequence, Inheritance) (\<lambda>(frm, to) ends _.
     if sameTerms frm (fst ends) \<and> sameTerms to (snd ends) then Some (build collate Predictive [frm, to]) else None)"

definition temporalDeduction :: "collation \<Rightarrow> ruleFn" where
  "temporalDeduction collate = buildPairRule (Predictive, Sequence) (\<lambda>(frm, to) steps _.
     if sameTerms frm (fst steps) \<and> sameTerms to (snd steps) then build_inheritance collate frm to else None)"

subsection \<open>\<open>extended/procedural.ts\<close>\<close>

definition unwrapProduct :: "narTerm \<Rightarrow> narTerm" where
  "unwrapProduct t = (if isType ProductOp t \<and> length (getArgs t) = 1 then getArgs t ! 0 else t)"

definition proceduralDecomposition :: "collation \<Rightarrow> ruleFn" where
  "proceduralDecomposition collate = buildPairRule (Sequence, OperationOp) (\<lambda>(first, _) (op, input) _.
     feed (build collate OperationOp [op, unwrapProduct input]) (\<lambda>o'.
     Some (build collate Sequence [first, o'])))"

definition proceduralChaining :: "collation \<Rightarrow> ruleFn" where
  "proceduralChaining collate = buildPairRule (OperationOp, OperationOp) (\<lambda>(op1, input1) (op2, input2) _.
     if sameTerms (unwrapProduct input1) op2 then Some (build collate Sequence [op1, unwrapProduct input2]) else None)"

definition operationToPredictive :: "collation \<Rightarrow> ruleFn" where
  "operationToPredictive collate = buildPairRule (OperationOp, Sequence) (\<lambda>(op, input) (a, b) _.
     if sameTerms op a \<and> sameTerms (unwrapProduct input) b then Some (build collate Predictive [a, b]) else None)"

section \<open>The two rule maps\<close>

definition NALRules :: "collation \<Rightarrow> (string \<times> ruleFn) list" where
  "NALRules c = [
     (''deduction'', deduction c), (''similarity'', similarity c), (''induction'', induction c),
     (''abduction'', abduction c),
     (''contrapositive'', contrapositive c), (''intersection'', intersection c), (''union'', union_rule c),
     (''decompose'', decompose),
     (''conjunctionIntro'', conjunctionIntro c), (''disjunctionIntro'', disjunctionIntro c),
     (''implicationIntro'', implicationIntro c), (''implicationElim'', implicationElim),
     (''equivalenceIntro'', equivalenceIntro c), (''equivalenceElim'', equivalenceElim),
     (''negationIntro'', negationIntro c), (''negationElim'', negationElim), (''destruct'', destruct),
     (''higherOrderDeduction'', higherOrderDeduction c), (''higherOrderAbduction'', higherOrderAbduction c),
     (''higherOrderInduction'', higherOrderInduction c),
     (''analogy'', analogy c), (''comparison'', comparison c), (''instantiation'', instantiation_rule c),
     (''exemplification'', exemplification c)]"

definition NALExtendedRules :: "collation \<Rightarrow> (string \<times> ruleFn) list" where
  "NALExtendedRules c = [
     (''modusPonens'', modusPonens), (''modusTollens'', modusTollens c),
     (''disjunctiveSyllogism'', disjunctiveSyllogism), (''conversion'', conversion c),
     (''structuralInheritance'', structuralInheritance c), (''structuralReduction'', structuralReduction c),
     (''intersectionComposition'', intersectionComposition c), (''unionComposition'', unionComposition c),
     (''difference'', difference c),
     (''equivalence'', equivalence c), (''variableIntroduction'', variableIntroduction c),
     (''decomposition'', decomposition),
     (''variableDependency'', variableDependency c),
     (''instanceConversion'', instanceConversion c), (''propertyConversion'', propertyConversion c),
     (''instanceDeduction'', instanceDeduction c), (''propertyInduction'', propertyInduction c),
     (''sequenceIntroduction'', sequenceIntroduction c), (''parallelIntroduction'', parallelIntroduction c),
     (''predictiveImplication'', predictiveImplication c), (''temporalDeduction'', temporalDeduction c),
     (''proceduralDecomposition'', proceduralDecomposition c), (''proceduralChaining'', proceduralChaining c),
     (''operationToPredictive'', operationToPredictive c),
     (''analogy'', analogy c), (''exemplification'', exemplification c), (''comparison'', comparison_ext c),
     (''sameness'', sameness c), (''revisionWeak'', revisionWeak), (''contrapositionRule'', contrapositionRule c),
     (''implicationDeduction'', implicationDeduction c)]"

definition namespaced :: "string \<Rightarrow> (string \<times> ruleFn) list \<Rightarrow> (string \<times> ruleFn) list" where
  "namespaced ns table = map (\<lambda>(name, fn). (ns @ '':'' @ name, fn)) table"

definition RULE_BODIES :: "collation \<Rightarrow> (string \<times> ruleFn) list" where
  "RULE_BODIES c = namespaced ''nal'' (NALRules c) @ namespaced ''nal.extended'' (NALExtendedRules c)"

end
