(* ===== verification/Nal_Typing.thy ===== *)
theory Nal_Typing
  imports Nal_Rules
begin

text \<open>
  What the rule bodies conclude is well formed: from canonical premises every body of
  \<open>Nal_Rules\<close> concludes a canonical term or nothing, and none makes a constructor throw. One
  lemma per builder carries the proof; the bodies follow from it.
\<close>

section \<open>Well-formed conclusions\<close>

definition fine :: "collation \<Rightarrow> conclusion \<Rightarrow> bool" where
  "fine c x \<longleftrightarrow> (case x of None \<Rightarrow> True | Some (Inl e) \<Rightarrow> False | Some (Inr u) \<Rightarrow> normal c u)"

definition well :: "collation \<Rightarrow> ruleFn \<Rightarrow> bool" where
  "well c f \<longleftrightarrow> (\<forall>t1 t2 i. normal c t1 \<longrightarrow> normal c t2 \<longrightarrow> fine c (f (t1, t2) i))"

lemma fine_simps [simp]: "fine c None" "fine c (Some (Inr u)) \<longleftrightarrow> normal c u" "\<not> fine c (Some (Inl e))"
  by (simp_all add: fine_def)

lemma normal_legal: "normal c t \<Longrightarrow> legal t"
proof (induction t)
  case (Compound k args)
  then show ?case using rawCompound_total [of c k args] by (auto simp: list_all_iff)
qed simp

lemma rawCompound_legal:
  assumes "rawCompound c k args = Inr t" "list_all legal args"
  shows "legal t"
proof (cases "compound_plan k args")
  case (Folds u)
  then have "t = Atom ''FALSE'' \<or> t \<in> set args"
    using assms(1) by (auto simp: rawCompound_def compound_plan_def length_Suc_conv split: if_splits)
  then show ?thesis using assms(2) by (auto simp: list_all_iff)
next
  case (Builds valid)
  then have valid: "valid = args" by (simp add: compound_plan_def split: if_splits)
  have arity: "(k = Negation \<longrightarrow> length args = 1) \<and> (k \<in> {Sequence, OperationOp} \<longrightarrow> length args = 2)"
    using assms(1) rawCompound_total by blast
  show ?thesis
  proof (cases "k = OperationOp \<and> \<not> isType ProductOp (args ! 1)")
    case True
    then obtain f x where "args = [f, x]" using arity by (auto simp: numeral_2_eq_2 length_Suc_conv)
    then show ?thesis using assms Builds valid True by (auto simp: rawCompound_def ordered_args_def)
  next
    case False
    then have "t = Compound k (ordered_args c k args)" using assms(1) Builds valid by (auto simp: rawCompound_def)
    then show ?thesis using assms(2) arity by (auto simp: list_all_iff)
  qed
qed (use assms in \<open>simp add: rawCompound_def\<close>)

definition arity_ok :: "operatorKey \<Rightarrow> narTerm list \<Rightarrow> bool" where
  "arity_ok k args \<longleftrightarrow> (k = Negation \<longrightarrow> length args = 1) \<and> (k \<in> {Sequence, OperationOp} \<longrightarrow> length args = 2)"

lemma filter_Some [simp]: "List.map_filter id (map Some xs) = xs"
  by (induction xs) (simp_all add: map_filter_simps)

lemma build_normal:
  assumes "collation_ok c" "list_all (normal c) args" "arity_ok k args"
  shows "\<exists>u. build c k args = Inr u \<and> normal c u"
proof -
  obtain t where t: "rawCompound c k args = Inr t"
    using assms(3) rawCompound_total unfolding arity_ok_def by blast
  have "legal t" using rawCompound_legal [OF t] assms(2) normal_legal by (auto simp: list_all_iff)
  then show ?thesis using canonical_reaches [OF assms(1)] t by (simp add: build_def createCompound_def)
qed

lemma build_negation_build: "build_negation c t = build c Negation [t]"
  by (simp add: build_negation_def build_def)

lemma fine_build [intro]:
  assumes "collation_ok c" "list_all (normal c) args" "arity_ok k args"
  shows "fine c (Some (build c k args))"
  using build_normal [OF assms] by auto

lemma fine_inheritance [intro]:
  assumes "collation_ok c" "normal c s" "normal c p"
  shows "fine c (build_inheritance c s p)"
  using build_normal [of c "[s, p]" Inheritance] assms
  by (auto simp: build_inheritance_def build_def arity_ok_def)

lemma fine_feed:
  assumes "collation_ok c" "list_all (normal c) args" "arity_ok k args" "\<And>u. normal c u \<Longrightarrow> fine c (f u)"
  shows "fine c (feed (build c k args) f)"
  using build_normal [OF assms(1-3)] assms(4) by (auto simp: feed_def)

section \<open>The parts of a canonical term\<close>

lemma normal_arg: "normal c t \<Longrightarrow> x \<in> set (getArgs t) \<Longrightarrow> normal c x"
  by (cases t) (auto simp: list_all_iff)

lemma getArgs_head: "getArgs t = x # xs \<Longrightarrow> normal c t \<Longrightarrow> normal c x"
  using normal_arg [of c t x] by simp

lemma binaryOf_args: "binaryOf k t = Some (x, y) \<Longrightarrow> isType k t \<and> (\<exists>rest. getArgs t = x # y # rest)"
  by (auto simp: binaryOf_def split: if_splits list.splits)

lemma binaryOf_normal:
  assumes "binaryOf k t = Some p" "normal c t"
  shows "normal c (fst p)" "normal c (snd p)"
  using assms normal_arg [OF assms(2)] by (cases p; auto dest!: binaryOf_args)+

lemma rolePair_normal:
  assumes "rolePair t = Some p" "normal c t"
  shows "normal c (fst p)" "normal c (snd p)"
  using assms binaryOf_normal by (auto simp: rolePair_def orTry_def split: option.splits)

lemma unaryOf_normal: "unaryOf k t = Some x \<Longrightarrow> normal c t \<Longrightarrow> normal c x"
  using normal_arg by (auto simp: unaryOf_def split: if_splits list.splits)

lemma getVars_preorder: "getVars t = filter (\<lambda>x. term_variableName x \<noteq> None) (preorder t)"
proof -
  have "foldl (\<lambda>vs x. if P x then vs @ [x] else vs) acc xs = acc @ filter P xs" for P acc and xs :: "narTerm list"
    by (induction xs arbitrary: acc) simp_all
  then show ?thesis unfolding getVars_def walk_fold by simp
qed

section \<open>The builders keep terms well formed\<close>

text \<open>Both ends of a role pair are canonical.\<close>

definition ends_ok :: "collation \<Rightarrow> narTerm \<times> narTerm \<Rightarrow> bool" where
  "ends_ok c p \<longleftrightarrow> normal c (fst p) \<and> normal c (snd p)"

lemma ends_ok_pair [simp]: "ends_ok c (x, y) \<longleftrightarrow> normal c x \<and> normal c y"
  by (simp add: ends_ok_def)

lemma binaryOf_ends: "binaryOf k t = Some p \<Longrightarrow> normal c t \<Longrightarrow> ends_ok c p"
  unfolding ends_ok_def using binaryOf_normal by blast

lemma rolePair_ends: "rolePair t = Some p \<Longrightarrow> normal c t \<Longrightarrow> ends_ok c p"
  unfolding ends_ok_def using rolePair_normal by blast

lemma well_pair:
  assumes "\<And>l r i. ends_ok c l \<Longrightarrow> ends_ok c r \<Longrightarrow> fine c (d l r i)"
  shows "well c (buildPairRule ks d)"
  unfolding well_def buildPairRule_def prod.case
  by (auto split: option.split intro!: assms dest: binaryOf_ends)

lemma well_role:
  assumes "\<And>l r. ends_ok c l \<Longrightarrow> ends_ok c r \<Longrightarrow> fine c (d l r)"
  shows "well c (buildRolePairRule d)"
  unfolding well_def buildRolePairRule_def prod.case
  by (auto split: option.split intro!: assms dest: rolePair_ends)

lemma well_inh:
  assumes "\<And>p. ends_ok c p \<Longrightarrow> fine c (d p)"
  shows "well c (buildInhRule d)"
  unfolding well_def buildInhRule_def prod.case
  by (auto split: option.split intro!: assms dest: binaryOf_ends)

lemma well_set:
  assumes "\<And>p m. ends_ok c p \<Longrightarrow> normal c m \<Longrightarrow> fine c (d p m)"
  shows "well c (buildSetMemberRule k d)"
  unfolding well_def buildSetMemberRule_def prod.case
  by (auto split: option.split intro!: assms dest: binaryOf_ends unaryOf_normal)

lemma well_fold:
  assumes "collation_ok c"
  shows "well c (foldNary k u c)"
proof -
  have u: "set (uniqueBy xs termKey) \<subseteq> set xs" for xs
    using uniqueBy_loop_keys [of termKey "[]" xs] by (simp add: uniqueBy_def)
  have main: "fine c (Some (build c (if k = Conjunction then Conjunction else Disjunction) args))"
    if "set args \<subseteq> set (getArgs t1) \<union> set (getArgs t2)" "normal c t1" "normal c t2" for args t1 t2
    using that normal_arg [of c t1] normal_arg [of c t2]
    by (intro fine_build [OF assms]) (auto simp: list_all_iff arity_ok_def)
  show ?thesis unfolding well_def
  proof (intro allI impI)
    fix t1 t2 i
    assume n: "normal c t1" "normal c t2"
    have "set (if u then uniqueBy (getArgs t1 @ getArgs t2) termKey
      else filter (\<lambda>x. termKey x \<in> set (map termKey (getArgs t2))) (getArgs t1)) \<subseteq> set (getArgs t1) \<union> set (getArgs t2)"
      using u [of "getArgs t1 @ getArgs t2"] by auto
    from main [OF this n] show "fine c (foldNary k u c (t1, t2) i)"
      unfolding foldNary_def prod.case Let_def by (simp only: if_split fine_simps simp_thms)
  qed
qed

lemma well_conversion:
  assumes "collation_ok c" "arity_ok k [undefined]"
  shows "well c (conversionRule (\<lambda>t. build c k [t]) c)"
  unfolding conversionRule_def using assms
  by (intro well_inh) (auto simp: arity_ok_def split: prod.split intro!: fine_feed fine_inheritance)

lemma well_sequence:
  assumes "collation_ok c" "k \<noteq> Negation"
  shows "well c (buildSequenceRule (\<lambda>a b. build c k [a, b]) c)"
  unfolding buildSequenceRule_def buildBinaryInhRule_def using assms
  by (intro well_pair) (auto simp: arity_ok_def split: prod.split option.split intro!: fine_feed fine_inheritance)

lemma well_type:
  assumes "collation_ok c"
  shows "well c (deductionFromType k m c)"
  unfolding deductionFromType_def using assms
  by (intro well_set) (auto split: prod.split intro!: fine_inheritance)

section \<open>Every body concludes well\<close>

lemmas pair_bodies = buildBinaryInhRule_def buildImplicationPairRule_def
  deduction_def similarity_def induction_def abduction_def higherOrderDeduction_def
  higherOrderAbduction_def higherOrderInduction_def conjunctionIntro_def equivalenceIntro_def
  negationIntro_def sameInhToSimilarity_def implicationDeduction_def unionComposition_def
  difference_def predictiveImplication_def temporalDeduction_def build_negation_build Let_def

lemma arities [simp]:
  "arity_ok Negation [x]" "arity_ok Sequence [x, y]" "arity_ok OperationOp [x, y]"
  "k \<notin> {Negation, Sequence, OperationOp} \<Longrightarrow> arity_ok k args"
  by (auto simp: arity_ok_def)

lemma well_pairs:
  assumes c: "collation_ok c"
  shows "well c (deduction c)" "well c (similarity c)" "well c (induction c)" "well c (abduction c)"
    "well c (higherOrderDeduction c)" "well c (higherOrderAbduction c)" "well c (higherOrderInduction c)"
    "well c (conjunctionIntro c)" "well c (equivalenceIntro c)" "well c (negationIntro c)"
    "well c (sameInhToSimilarity c)" "well c (implicationDeduction c)" "well c (unionComposition c)"
    "well c (difference c)" "well c (predictiveImplication c)" "well c (temporalDeduction c)"
  unfolding pair_bodies
  by (intro well_pair; auto split: prod.split intro!: fine_build [OF c] fine_inheritance [OF c] fine_feed [OF c])+

lemma well_roles:
  assumes c: "collation_ok c"
  shows "well c (analogy c)" "well c (comparison c)" "well c (sharedPredicateInheritance c)"
  unfolding analogy_def comparison_def sharedPredicateInheritance_def
  by (intro well_role; auto split: prod.split intro!: fine_build [OF c] fine_inheritance [OF c])+

lemma well_inhs:
  assumes c: "collation_ok c"
  shows "well c (conversion c)" "well c (variableIntroduction c)"
  unfolding conversion_def variableIntroduction_def
  by (intro well_inh; auto split: prod.split intro!: fine_inheritance [OF c])+

lemma unwrapProduct_normal: "normal c t \<Longrightarrow> normal c (unwrapProduct t)"
  using normal_arg [of c t] by (auto simp: unwrapProduct_def)

lemma well_procedural:
  assumes c: "collation_ok c"
  shows "well c (proceduralDecomposition c)" "well c (proceduralChaining c)" "well c (operationToPredictive c)"
  unfolding proceduralDecomposition_def proceduralChaining_def operationToPredictive_def
  by (intro well_pair; auto split: prod.split intro!: fine_build [OF c] fine_feed [OF c] unwrapProduct_normal)+

lemma find_member: "find P xs = Some x \<Longrightarrow> x \<in> set xs"
  by (induction xs) (auto split: if_splits)

lemma wellI:
  assumes "\<And>t1 t2 i. normal c t1 \<Longrightarrow> normal c t2 \<Longrightarrow> fine c (f (t1, t2) i)"
  shows "well c f"
  using assms unfolding well_def by blast

lemma fine_find: "(\<And>x. x \<in> set xs \<Longrightarrow> normal c x) \<Longrightarrow> fine c (map_option Inr (find P xs))"
  by (cases "find P xs") (auto dest: find_member)

lemma getArgs_nth_normal: "normal c t \<Longrightarrow> i < length (getArgs t) \<Longrightarrow> normal c (getArgs t ! i)"
  using normal_arg nth_mem by blast

lemma well_parts:
  "well c implicationElim" "well c equivalenceElim" "well c negationElim" "well c decompose" "well c destruct"
  "well c revisionWeak" "well c disjunctiveSyllogism" "well c decomposition"
proof -
  show "well c implicationElim" "well c equivalenceElim"
    unfolding implicationElim_def equivalenceElim_def prod.case
    by (rule wellI; auto split: option.split dest: binaryOf_ends simp: ends_ok_def)+
  show "well c negationElim" "well c revisionWeak"
    unfolding negationElim_def revisionWeak_def prod.case by (rule wellI; auto split: option.split)+
  show "well c decompose" "well c destruct"
    unfolding decompose_def destruct_def prod.case
    by (rule wellI; auto intro!: fine_find elim: normal_arg)+
  show "well c disjunctiveSyllogism" "well c decomposition"
    unfolding disjunctiveSyllogism_def decomposition_def prod.case Let_def
    by (rule wellI; auto split: list.split intro!: getArgs_nth_normal)+
qed

lemma well_others:
  assumes c: "collation_ok c"
  shows "well c (contrapositive c)" "well c (disjunctionIntro c)" "well c (implicationIntro c)"
    "well c (modusTollens c)" "well c (contrapositionRule c)" "well c (structuralInheritance c)"
    "well c (structuralReduction c)" "well c (variableDependency c)"
proof -
  show "well c (contrapositive c)" "well c (disjunctionIntro c)" "well c (implicationIntro c)"
    unfolding contrapositive_def disjunctionIntro_def implicationIntro_def prod.case
    by (rule wellI; auto split: option.split dest!: binaryOf_ends simp: ends_ok_def intro!: fine_build [OF c])+
  show "well c (modusTollens c)" "well c (contrapositionRule c)"
    unfolding modusTollens_def contrapositionRule_def prod.case build_negation_build
    by (rule wellI; auto split: option.split list.split dest!: binaryOf_ends simp: ends_ok_def
        intro!: fine_build [OF c] fine_feed [OF c])+
  show "well c (structuralInheritance c)"
    unfolding structuralInheritance_def prod.case by (rule wellI) (auto intro!: fine_inheritance [OF c])
  show "well c (structuralReduction c)"
    unfolding structuralReduction_def prod.case
    by (rule wellI) (auto split: option.split list.split dest!: binaryOf_ends intro!: fine_inheritance [OF c]
        dest: getArgs_head)
  show "well c (variableDependency c)"
    unfolding variableDependency_def prod.case Let_def getVars_preorder
    by (rule wellI) (auto intro!: fine_build [OF c] simp: list_all_iff intro: normal_nodes)
qed

lemmas well_bodies = well_pairs well_roles well_inhs well_procedural well_others
  well_fold well_conversion well_sequence well_type

lemma rule_bodies_well:
  assumes "collation_ok c"
  shows "list_all (\<lambda>(name, f). well c f) (RULE_BODIES c)"
  unfolding RULE_BODIES_def NALRules_def NALExtendedRules_def namespaced_def
    instantiation_rule_def exemplification_def intersection_def union_rule_def modusPonens_def comparison_ext_def
    sameness_def intersectionComposition_def equivalence_def instanceConversion_def propertyConversion_def
    instanceDeduction_def propertyInduction_def sequenceIntroduction_def parallelIntroduction_def
  by (simp add: well_bodies [OF assms] well_parts)

text \<open>C9: rule bodies are well typed. Every body of both rule maps, given canonical premises,
  either concludes nothing or concludes a canonical term: no constructor it calls throws, and no
  reducer has anything left to do in what it returns.\<close>

theorem rule_bodies_well_typed:
  assumes "collation_ok c" "(name, body) \<in> set (RULE_BODIES c)" "normal c t1" "normal c t2"
  shows "case body (t1, t2) inputs of None \<Rightarrow> True | Some (Inl e) \<Rightarrow> False | Some (Inr u) \<Rightarrow> normal c u"
  using rule_bodies_well [OF assms(1)] assms(2-4) unfolding list_all_iff well_def fine_def by blast

lemma rule_bodies_well_typed_witness:
  "case deduction (\<lambda>a b. True) (Compound Inheritance [Atom ''a'', Atom ''b''], Compound Inheritance [Atom ''b'', Atom ''c'']) None of
     None \<Rightarrow> True | Some (Inl e) \<Rightarrow> False | Some (Inr u) \<Rightarrow> normal (\<lambda>a b. True) u"
  by (rule rule_bodies_well_typed [of _ "''nal:deduction''"])
    (simp_all add: trivial_collation RULE_BODIES_def NALRules_def namespaced_def rawCompound_def compound_plan_def
      ordered_args_def stable_iff DEDUPED_iff)

end
