(* ===== verification/Rule_Set.thy ===== *)
theory Rule_Set
  imports Nal_Rules
begin

text \<open>
  The shipped rule set: the dispatch cells of \<open>nar/src/rules/impls/rule-patterns.ts\<close>, the
  declarations of \<open>registration.ts\<close>, the rules it keeps off, and the table
  \<open>builtin-table.ts\<close> loads. The truth functions a declaration names are those of
  \<open>Truth_Values\<close>, looked up by name as the code reads them off the \<open>Truth\<close> object;
  the members of that object which are no truth function of a declaration are left out.
\<close>

section \<open>Dispatch cells\<close>

fun term_kind :: "narTerm \<Rightarrow> string" where
  "term_kind (Atom _) = ''atom''"
| "term_kind (Compound k _) = kind_name k"

definition RulePatterns :: "(string \<times> string \<times> string) list" where
  "RulePatterns = [(''inheritance_inheritance'', ''inheritance'', ''inheritance''),
     (''implication_implication'', ''implication'', ''implication''),
     (''conjunction_conjunction'', ''conjunction'', ''conjunction''),
     (''disjunction_disjunction'', ''disjunction'', ''disjunction''),
     (''implication_inheritance'', ''implication'', ''inheritance''),
     (''implication_atom'', ''implication'', ''atom''),
     (''implication_negation'', ''implication'', ''negation''),
     (''equivalence_atom'', ''equivalence'', ''atom''),
     (''atom_atom'', ''atom'', ''atom''),
     (''inheritance_negation'', ''inheritance'', ''negation''),
     (''negation_negation'', ''negation'', ''negation''),
     (''conjunction_atom'', ''conjunction'', ''atom''),
     (''inheritance_similarity'', ''inheritance'', ''similarity''),
     (''disjunction_negation'', ''disjunction'', ''negation''),
     (''inheritance_setExt'', ''inheritance'', ''setExt''),
     (''inheritance_setInt'', ''inheritance'', ''setInt''),
     (''operation_operation'', ''operation'', ''operation''),
     (''operation_sequence'', ''operation'', ''sequence''),
     (''sequence_operation'', ''sequence'', ''operation''),
     (''sequence_inheritance'', ''sequence'', ''inheritance''),
     (''predictive_sequence'', ''predictive'', ''sequence'')]"

definition pattern_of :: "string \<Rightarrow> string \<times> string" where
  "pattern_of key = the (map_of RulePatterns key)"

section \<open>Declarations\<close>

record ruleDef =
  def_id :: string
  def_description :: string
  def_pattern :: "string \<times> string"
  def_body :: string
  def_truth :: string
  def_priority :: real

definition rule_def :: "string \<Rightarrow> string \<Rightarrow> string \<times> string \<Rightarrow> string \<Rightarrow> string \<Rightarrow> real \<Rightarrow> ruleDef" where
  "rule_def i description pattern body truth priority =
     \<lparr>def_id = i, def_description = description, def_pattern = pattern, def_body = body,
      def_truth = truth, def_priority = priority\<rparr>"

definition declaration_of :: "ruleDef \<Rightarrow> ruleDeclaration" where
  "declaration_of r = \<lparr>d_ruleId = def_id r, d_description = def_description r,
     d_left = fst (def_pattern r), d_right = snd (def_pattern r), d_truthFn = def_truth r,
     d_body = def_body r, d_priority = def_priority r, d_taskType = None\<rparr>"

definition NAL_RULES :: "ruleDef list" where
  "NAL_RULES = [
     rule_def ''nal.deduction'' ''Classic syllogistic deduction''
       (pattern_of ''inheritance_inheritance'') ''nal:deduction'' ''deduction'' (1),
     rule_def ''nal.induction'' ''Inductive generalization''
       (pattern_of ''inheritance_inheritance'') ''nal:induction'' ''induction'' (9/10),
     rule_def ''nal.abduction'' ''Abductive reasoning''
       (pattern_of ''inheritance_inheritance'') ''nal:abduction'' ''abduction'' (4/5),
     rule_def ''nal.similarity'' ''Similarity-based inference''
       (pattern_of ''inheritance_inheritance'') ''nal:similarity'' ''resemblance'' (19/20),
     rule_def ''nal.contrapositive'' ''Contrapositive rule''
       (pattern_of ''implication_inheritance'') ''nal:contrapositive'' ''contraposition'' (7/10),
     rule_def ''nal.intersection'' ''Intersection composition''
       (pattern_of ''conjunction_conjunction'') ''nal:intersection'' ''intersection'' (17/20),
     rule_def ''nal.union'' ''Union composition''
       (pattern_of ''disjunction_disjunction'') ''nal:union'' ''union'' (4/5),
     rule_def ''nal.conjunctionIntro'' ''Conjunction introduction''
       (pattern_of ''inheritance_inheritance'') ''nal:conjunctionIntro'' ''intersection'' (3/4),
     rule_def ''nal.disjunctionIntro'' ''Disjunction introduction''
       (pattern_of ''atom_atom'') ''nal:disjunctionIntro'' ''union'' (7/10),
     rule_def ''nal.implicationIntro'' ''Implication introduction''
       (pattern_of ''inheritance_negation'') ''nal:implicationIntro'' ''deduction'' (4/5),
     rule_def ''nal.implicationElim'' ''Implication elimination (modus ponens)''
       (pattern_of ''implication_atom'') ''nal:implicationElim'' ''deduction'' (9/10),
     rule_def ''nal.equivalenceIntro'' ''Equivalence introduction''
       (pattern_of ''implication_implication'') ''nal:equivalenceIntro'' ''intersection'' (17/20),
     rule_def ''nal.equivalenceElim'' ''Equivalence elimination''
       (pattern_of ''equivalence_atom'') ''nal:equivalenceElim'' ''deduction'' (9/10),
     rule_def ''nal.negationIntro'' ''Negation introduction''
       (pattern_of ''implication_implication'') ''nal:negationIntro'' ''deduction'' (3/4),
     rule_def ''nal.negationElim'' ''Negation elimination''
       (pattern_of ''negation_negation'') ''nal:negationElim'' ''union'' (4/5),
     rule_def ''nal.destruct'' ''Destructuring rule''
       (pattern_of ''conjunction_atom'') ''nal:destruct'' ''deduction'' (17/20),
     rule_def ''nal.decompose'' ''Decomposition rule''
       (pattern_of ''conjunction_conjunction'') ''nal:decompose'' ''deduction'' (4/5),
     rule_def ''nal.analogy'' ''Analogical reasoning''
       (pattern_of ''inheritance_similarity'') ''nal:analogy'' ''analogy'' (3/4),
     rule_def ''nal.comparison'' ''Comparison inference''
       (pattern_of ''inheritance_inheritance'') ''nal:comparison'' ''sameness'' (4/5),
     rule_def ''nal.instantiation'' ''Term instantiation''
       (pattern_of ''inheritance_similarity'') ''nal:instantiation'' ''deduction'' (17/20),
     rule_def ''nal.exemplification'' ''Exemplification inference''
       (pattern_of ''inheritance_inheritance'') ''nal:exemplification'' ''exemplification'' (4/5),
     rule_def ''nal.higherOrderDeduction'' ''Higher-order deduction''
       (pattern_of ''implication_implication'') ''nal:higherOrderDeduction'' ''deduction'' (17/20),
     rule_def ''nal.higherOrderAbduction'' ''Higher-order abduction''
       (pattern_of ''implication_implication'') ''nal:higherOrderAbduction'' ''abduction'' (7/10),
     rule_def ''nal.higherOrderInduction'' ''Higher-order induction''
       (pattern_of ''implication_implication'') ''nal:higherOrderInduction'' ''induction'' (3/4)]"

definition NAL_EXTENDED_RULES :: "ruleDef list" where
  "NAL_EXTENDED_RULES = [
     rule_def ''nal.modusPonens'' ''Modus ponens''
       (pattern_of ''implication_atom'') ''nal.extended:modusPonens'' ''deduction'' (19/20),
     rule_def ''nal.modusTollens'' ''Modus tollens''
       (pattern_of ''implication_negation'') ''nal.extended:modusTollens'' ''contraposition'' (9/10),
     rule_def ''nal.disjunctiveSyllogism'' ''Disjunctive syllogism''
       (pattern_of ''disjunction_negation'') ''nal.extended:disjunctiveSyllogism'' ''deduction'' (9/10),
     rule_def ''nal.conversion'' ''Term conversion''
       (pattern_of ''inheritance_inheritance'') ''nal.extended:conversion'' ''conversion'' (7/10),
     rule_def ''nal.extended.analogy'' ''Extended analogy''
       (pattern_of ''inheritance_inheritance'') ''nal.extended:analogy'' ''analogy'' (4/5),
     rule_def ''nal.extended.comparison'' ''Extended comparison''
       (pattern_of ''inheritance_inheritance'') ''nal.extended:comparison'' ''resemblance'' (3/4),
     rule_def ''nal.contrapositionRule'' ''Contraposition rule''
       (pattern_of ''implication_implication'') ''nal.extended:contrapositionRule'' ''contraposition'' (7/10),
     rule_def ''nal.structuralInheritance'' ''Structural inheritance''
       (''conjunction'', ''inheritance'') ''nal.extended:structuralInheritance'' ''deduction'' (3/4),
     rule_def ''nal.structuralReduction'' ''Structural reduction''
       (pattern_of ''inheritance_inheritance'') ''nal.extended:structuralReduction'' ''structuralReduction'' (7/10),
     rule_def ''nal.intersectionComposition'' ''Intersection composition''
       (pattern_of ''inheritance_inheritance'') ''nal.extended:intersectionComposition'' ''intersection'' (4/5),
     rule_def ''nal.unionComposition'' ''Union composition''
       (pattern_of ''inheritance_inheritance'') ''nal.extended:unionComposition'' ''union'' (3/4),
     rule_def ''nal.difference'' ''Difference rule''
       (pattern_of ''inheritance_inheritance'') ''nal.extended:difference'' ''deduction'' (7/10),
     rule_def ''nal.implicationDeduction'' ''Implication deduction''
       (pattern_of ''implication_implication'') ''nal.extended:implicationDeduction'' ''deduction'' (17/20),
     rule_def ''nal.equivalence'' ''Equivalence rule''
       (pattern_of ''implication_implication'') ''nal.extended:equivalence'' ''intersection'' (4/5),
     rule_def ''nal.variableIntroduction'' ''Variable introduce''
       (pattern_of ''inheritance_inheritance'') ''nal.extended:variableIntroduction'' ''deduction'' (3/5),
     rule_def ''nal.decomposition'' ''Decomposition rule''
       (pattern_of ''conjunction_conjunction'') ''nal.extended:decomposition'' ''deduction'' (3/4),
     rule_def ''nal.variableDependency'' ''Variable dependency''
       (pattern_of ''inheritance_inheritance'') ''nal.extended:variableDependency'' ''deduction'' (1/2),
     rule_def ''nal.sameness'' ''Sameness rule''
       (pattern_of ''inheritance_inheritance'') ''nal.extended:sameness'' ''sameness'' (17/20),
     rule_def ''nal.revisionWeak'' ''Weak revision''
       (pattern_of ''inheritance_inheritance'') ''nal.extended:revisionWeak'' ''revision'' (13/20),
     rule_def ''nal.extended.exemplification'' ''Extended exemplification''
       (pattern_of ''inheritance_inheritance'') ''nal.extended:exemplification'' ''exemplification'' (4/5),
     rule_def ''nal.instanceConversion'' ''Instance conversion''
       (pattern_of ''inheritance_setExt'') ''nal.extended:instanceConversion'' ''conversion'' (7/10),
     rule_def ''nal.propertyConversion'' ''Property conversion''
       (pattern_of ''inheritance_setInt'') ''nal.extended:propertyConversion'' ''conversion'' (7/10),
     rule_def ''nal.instanceDeduction'' ''Instance deduction''
       (pattern_of ''inheritance_setExt'') ''nal.extended:instanceDeduction'' ''deduction'' (17/20),
     rule_def ''nal.propertyInduction'' ''Property induction''
       (pattern_of ''inheritance_setInt'') ''nal.extended:propertyInduction'' ''induction'' (3/4),
     rule_def ''nal.sequenceIntroduction'' ''Sequence introduction''
       (pattern_of ''inheritance_inheritance'') ''nal.extended:sequenceIntroduction'' ''deduction'' (3/4),
     rule_def ''nal.parallelIntroduction'' ''Parallel introduction''
       (pattern_of ''inheritance_inheritance'') ''nal.extended:parallelIntroduction'' ''deduction'' (7/10),
     rule_def ''nal.predictiveImplication'' ''Predictive implication''
       (pattern_of ''sequence_inheritance'') ''nal.extended:predictiveImplication'' ''deduction'' (4/5),
     rule_def ''nal.temporalDeduction'' ''Temporal deduction''
       (pattern_of ''predictive_sequence'') ''nal.extended:temporalDeduction'' ''deduction'' (17/20),
     rule_def ''nal.proceduralDecomposition'' ''Procedural decomposition''
       (pattern_of ''sequence_operation'') ''nal.extended:proceduralDecomposition'' ''deduction'' (3/4),
     rule_def ''nal.proceduralChaining'' ''Procedural chaining''
       (pattern_of ''operation_operation'') ''nal.extended:proceduralChaining'' ''deduction'' (4/5),
     rule_def ''nal.operationToPredictive'' ''Operation to predictive''
       (pattern_of ''operation_sequence'') ''nal.extended:operationToPredictive'' ''deduction'' (3/4)]"

definition DISABLED_RULES :: "(string \<times> string) list" where
  "DISABLED_RULES = [
     (''nal.sequenceIntroduction'', ''temporal reasoning is not correct yet''),
     (''nal.parallelIntroduction'', ''temporal reasoning is not correct yet''),
     (''nal.predictiveImplication'', ''temporal reasoning is not correct yet''),
     (''nal.temporalDeduction'', ''temporal reasoning is not correct yet''),
     (''nal.conversion'', ''197 applications to invert a handful of facts''),
     (''nal.comparison'', ''invents <-> sameness between unrelated subjects''),
     (''nal.structuralReduction'', ''produces conjunction terms no rule asked for''),
     (''nal.difference'', ''manufactures (A & --B) contradictions-as-beliefs''),
     (''nal.conjunctionIntro'', ''floods the store with (A & B) variants''),
     (''nal.intersectionComposition'', ''floods the store with (A & B) variants''),
     (''nal.unionComposition'', ''floods the store with (A | B) variants'')]"

definition BUILTIN_DECLARATIONS :: "ruleDeclaration list" where
  "BUILTIN_DECLARATIONS =
     filter (\<lambda>d. d_ruleId d \<notin> fst ` set DISABLED_RULES)
       (map declaration_of (NAL_RULES @ NAL_EXTENDED_RULES))"

section \<open>Truth functions by name\<close>

definition TRUTH_FNS :: "(string \<times> (truth \<Rightarrow> truth \<Rightarrow> truth)) list" where
  "TRUTH_FNS = [
     (''deduction'', t_deduction), (''induction'', t_induction), (''abduction'', t_abduction),
     (''resemblance'', t_resemblance), (''contraposition'', t_contraposition),
     (''intersection'', t_intersection), (''union'', t_union), (''analogy'', t_analogy),
     (''sameness'', t_sameness), (''exemplification'', t_exemplification),
     (''conversion'', \<lambda>t1 t2. t_conversion t1),
     (''structuralReduction'', \<lambda>t1 t2. t_structuralReduction t1), (''revision'', Truth_Values.t_revision)]"

section \<open>Loading\<close>

type_synonym truthFn = "truth \<Rightarrow> truth \<Rightarrow> truth"

definition loadBuiltinTable :: "collation \<Rightarrow> ruleLoadFault list + (ruleFn, truthFn) ruleTableStore" where
  "loadBuiltinTable c = newRuleTableStore (map_of (RULE_BODIES c)) (map_of TRUTH_FNS)
     (Some (tableArtifact (builtinEntries BUILTIN_DECLARATIONS)))"

section \<open>The shipped table loads\<close>

text \<open>The registered form of a declaration whose names resolve.\<close>

definition registered :: "(string \<Rightarrow> 'fn option) \<Rightarrow> (string \<Rightarrow> 'tf option) \<Rightarrow> ruleDeclaration \<Rightarrow> ('fn, 'tf) registeredRule" where
  "registered bodies truths d = \<lparr>rr_id = d_ruleId d, rr_left = d_left d, rr_right = d_right d,
     rr_apply = the (bodies (d_body d)), rr_priority = d_priority d, rr_truthFn = truths (d_truthFn d),
     rr_truthFnName = d_truthFn d, rr_taskType = d_taskType d\<rparr>"

lemma entry_of_fields [simp]:
  "d_ruleId (entry_of d v r p pr ev) = d_ruleId d" "d_left (entry_of d v r p pr ev) = d_left d"
  "d_right (entry_of d v r p pr ev) = d_right d" "d_body (entry_of d v r p pr ev) = d_body d"
  "d_priority (entry_of d v r p pr ev) = d_priority d" "d_truthFn (entry_of d v r p pr ev) = d_truthFn d"
  "d_taskType (entry_of d v r p pr ev) = d_taskType d"
  by (simp_all add: entry_of_def ruleDeclaration.defs)

lemma resolve_all:
  assumes "distinct (map d_ruleId ds)" "set seen \<inter> d_ruleId ` set ds = {}"
    and "\<forall>d \<in> set ds. d_ruleId d \<noteq> [] \<and> bodies (d_body d) \<noteq> None"
  shows "resolve_entries bodies truths seen (builtinEntries ds) = (map (registered bodies truths) ds, [])"
  using assms
proof (induction ds arbitrary: seen)
  case (Cons d ds)
  have "set (set_add (d_ruleId d) seen) \<inter> d_ruleId ` set ds = {}" using Cons.prems by auto
  with Cons show ?case by (auto simp: builtinEntries_def registered_def)
qed (simp add: builtinEntries_def)

lemma builtin_ids: "distinct (map d_ruleId BUILTIN_DECLARATIONS)" "length BUILTIN_DECLARATIONS = 44"
  by code_simp+

text \<open>The names of the bodies do not depend on the collator.\<close>

lemma body_names: "map fst (RULE_BODIES c) = map fst (RULE_BODIES (\<lambda>_ _. True))"
  by (simp add: RULE_BODIES_def namespaced_def NALRules_def NALExtendedRules_def)

lemma builtin_names:
  "list_all (\<lambda>d. d_ruleId d \<noteq> [] \<and> d_truthFn d \<in> set (map fst TRUTH_FNS)
     \<and> d_body d \<in> set (map fst (RULE_BODIES (\<lambda>_ _. True)))) BUILTIN_DECLARATIONS"
  by code_simp

lemma builtin_resolves:
  assumes "d \<in> set BUILTIN_DECLARATIONS"
  shows "d_ruleId d \<noteq> []" "map_of TRUTH_FNS (d_truthFn d) \<noteq> None" "map_of (RULE_BODIES c) (d_body d) \<noteq> None"
  using assms builtin_names body_names [of c] unfolding list_all_iff map_of_eq_None_iff by (simp_all flip: set_map)

definition builtinStore :: "collation \<Rightarrow> (ruleFn, truthFn) ruleTableStore" where
  "builtinStore c = \<lparr>rt_current = tableArtifact (builtinEntries BUILTIN_DECLARATIONS),
     rt_dispatch = build_index (map (registered (map_of (RULE_BODIES c)) (map_of TRUTH_FNS)) BUILTIN_DECLARATIONS),
     rt_history = [tableArtifact (builtinEntries BUILTIN_DECLARATIONS)]\<rparr>"

lemma loadBuiltinTable_store: "loadBuiltinTable c = Inr (builtinStore c)"
proof -
  have "resolve_entries (map_of (RULE_BODIES c)) (map_of TRUTH_FNS) [] (builtinEntries BUILTIN_DECLARATIONS)
      = (map (registered (map_of (RULE_BODIES c)) (map_of TRUTH_FNS)) BUILTIN_DECLARATIONS, [])"
    using builtin_ids builtin_resolves(1) builtin_resolves(3) [of _ c] by (intro resolve_all) auto
  then have "resolveTable (tableArtifact (builtinEntries BUILTIN_DECLARATIONS)) (map_of (RULE_BODIES c)) (map_of TRUTH_FNS)
      = (map (registered (map_of (RULE_BODIES c)) (map_of TRUTH_FNS)) BUILTIN_DECLARATIONS,
         builtinEntries BUILTIN_DECLARATIONS, [])"
    by (simp add: resolveTable_def tableArtifact_def)
  then show ?thesis
    by (simp add: loadBuiltinTable_def newRuleTableStore_def Let_def builtinStore_def tableArtifact_def)
qed

text \<open>A candidate of the shipped table is one of the shipped declarations, for the cell asked.\<close>

lemma no_colon_kinds: "list_all (\<lambda>d. CHR '':'' \<notin> set (d_left d) \<and> CHR '':'' \<notin> set (d_right d)) BUILTIN_DECLARATIONS"
  by code_simp

lemma append_colon:
  assumes "x @ CHR '':'' # y = x' @ CHR '':'' # y'" "CHR '':'' \<notin> set x" "CHR '':'' \<notin> set x'"
  shows "x = x' \<and> y = y'"
  using assms
proof (induction x arbitrary: x')
  case Nil
  then show ?case by (cases x') auto
next
  case (Cons a x)
  then show ?case by (cases x') auto
qed

lemma candidate_declared:
  assumes "r \<in> set (index_candidates (rt_dispatch (builtinStore c)) l r')" "CHR '':'' \<notin> set l"
  obtains d where "d \<in> set BUILTIN_DECLARATIONS" "r = registered (map_of (RULE_BODIES c)) (map_of TRUTH_FNS) d"
    "d_left d = l" "d_right d = r'"
proof -
  let ?reg = "registered (map_of (RULE_BODIES c)) (map_of TRUTH_FNS)"
  from assms(1) obtain d where d: "d \<in> set BUILTIN_DECLARATIONS" "r = ?reg d"
    "d_left d @ '':'' @ d_right d = l @ '':'' @ r'"
    by (auto simp: builtinStore_def candidates_build_index rules_for_def bucketKey_def registered_def)
  then have "d_left d = l \<and> d_right d = r'"
    using no_colon_kinds assms(2) append_colon [of "d_left d" "d_right d" l r'] by (auto simp: list_all_iff)
  then show thesis using that d by blast
qed

lemma term_kind_no_colon: "CHR '':'' \<notin> set (term_kind t)"
proof (cases t)
  case (Compound k args)
  then show ?thesis by (cases k) simp_all
qed simp

lemma registered_fields [simp]:
  "rr_id (registered b t d) = d_ruleId d" "rr_left (registered b t d) = d_left d"
  "rr_right (registered b t d) = d_right d" "rr_apply (registered b t d) = the (b (d_body d))"
  "rr_truthFn (registered b t d) = t (d_truthFn d)" "rr_priority (registered b t d) = d_priority d"
  by (simp_all add: registered_def)

text \<open>the shipped table loads. All 44 shipped declarations resolve: the load has no fault, the
  artifact is the declarations at revision 0, and every rule dispatched for a pair of terms was
  declared for their kinds, with a body of the rule maps and a truth function, in the order of
  the declared priorities.\<close>

theorem builtin_table_loads:
  "\<exists>s. loadBuiltinTable c = Inr s
     \<and> t_entries (rt_current s) = builtinEntries BUILTIN_DECLARATIONS
     \<and> length BUILTIN_DECLARATIONS = 44
     \<and> list_all (\<lambda>r. rr_left r = term_kind t1 \<and> rr_right r = term_kind t2 \<and> rr_truthFn r \<noteq> None
          \<and> rr_apply r \<in> snd ` set (RULE_BODIES c))
         (index_candidates (rt_dispatch s) (term_kind t1) (term_kind t2))
     \<and> sorted_wrt (\<lambda>a b. rr_priority b \<le> rr_priority a)
         (index_candidates (rt_dispatch s) (term_kind t1) (term_kind t2))"
proof (intro exI conjI)
  show "loadBuiltinTable c = Inr (builtinStore c)" by (rule loadBuiltinTable_store)
  show "list_all (\<lambda>r. rr_left r = term_kind t1 \<and> rr_right r = term_kind t2 \<and> rr_truthFn r \<noteq> None
      \<and> rr_apply r \<in> snd ` set (RULE_BODIES c))
    (index_candidates (rt_dispatch (builtinStore c)) (term_kind t1) (term_kind t2))"
    unfolding list_all_iff
  proof
    fix r
    assume "r \<in> set (index_candidates (rt_dispatch (builtinStore c)) (term_kind t1) (term_kind t2))"
    from candidate_declared [OF this term_kind_no_colon] obtain d where
      d: "d \<in> set BUILTIN_DECLARATIONS" "r = registered (map_of (RULE_BODIES c)) (map_of TRUTH_FNS) d"
        "d_left d = term_kind t1" "d_right d = term_kind t2" by blast
    obtain f where "map_of (RULE_BODIES c) (d_body d) = Some f" using builtin_resolves(3) [OF d(1)] by blast
    moreover from this have "f \<in> snd ` set (RULE_BODIES c)" by (force dest: map_of_SomeD)
    ultimately show "rr_left r = term_kind t1 \<and> rr_right r = term_kind t2 \<and> rr_truthFn r \<noteq> None
        \<and> rr_apply r \<in> snd ` set (RULE_BODIES c)"
      using d builtin_resolves(2) [OF d(1)] by simp
  qed
  show "sorted_wrt (\<lambda>a b. rr_priority b \<le> rr_priority a)
      (index_candidates (rt_dispatch (builtinStore c)) (term_kind t1) (term_kind t2))"
    using sorted_js_sort [of before, OF before_total before_trans]
    by (simp add: builtinStore_def candidates_build_index before_def [abs_def])
qed (simp_all add: builtinStore_def tableArtifact_def builtin_ids)

end
