(* ===== verification/Nal_Sound.thy ===== *)
theory Nal_Sound
  imports Nal_Typing Rule_Set
begin

text \<open>
  What the rule bodies mean. A term is read as a set of worlds as in \<open>Reduce\<close>, with
  inheritance and implication read as inclusion, similarity and equivalence as equality. Under this
  reading the shipped rules fall apart into those that preserve truth and those that leap.
\<close>

section \<open>Statements as inclusions\<close>

definition crisp_bag ::
  "(operatorKey \<Rightarrow> 'w set multiset \<Rightarrow> 'w set) \<Rightarrow> operatorKey \<Rightarrow> 'w set multiset \<Rightarrow> 'w set" where
  "crisp_bag other k M =
     (if k \<in> {Similarity, Equivalence} then (if \<forall>A \<in># M. \<forall>B \<in># M. A = B then UNIV else {}) else other k M)"

definition crisp_list ::
  "(operatorKey \<Rightarrow> 'w set list \<Rightarrow> 'w set) \<Rightarrow> operatorKey \<Rightarrow> 'w set list \<Rightarrow> 'w set" where
  "crisp_list other k xs =
     (if k \<in> {Inheritance, Implication}
      then (case xs of A # B # _ \<Rightarrow> if A \<subseteq> B then UNIV else {} | _ \<Rightarrow> {})
      else other k xs)"

text \<open>A model: what the atoms denote, and the operators without a law.\<close>

record 'w model =
  m_bag :: "operatorKey \<Rightarrow> 'w set multiset \<Rightarrow> 'w set"
  m_list :: "operatorKey \<Rightarrow> 'w set list \<Rightarrow> 'w set"
  m_atoms :: "string \<Rightarrow> 'w set"

definition reads :: "'w model \<Rightarrow> narTerm \<Rightarrow> 'w set" where
  "reads M t = meaning (worlds (crisp_bag (m_bag M)) (crisp_list (m_list M))) (constants (m_atoms M)) t"

definition holds :: "'w model \<Rightarrow> narTerm \<Rightarrow> bool" where
  "holds M t \<longleftrightarrow> reads M t = UNIV"

text \<open>A rule preserves truth where the conclusion holds in every model its premises hold in. The keys
  of the terms in the premises are apart, so that no two of them are taken for one another.\<close>

definition keys_apart :: "narTerm \<Rightarrow> narTerm \<Rightarrow> bool" where
  "keys_apart t1 t2 \<longleftrightarrow> inj_on termKey (set (preorder t1) \<union> set (preorder t2))"

definition sound_at :: "collation \<Rightarrow> 'w model \<Rightarrow> string \<Rightarrow> string \<Rightarrow> ruleFn \<Rightarrow> bool" where
  "sound_at c M l r f \<longleftrightarrow> (\<forall>t1 t2 i u.
     term_kind t1 = l \<longrightarrow> term_kind t2 = r \<longrightarrow> normal c t1 \<longrightarrow> normal c t2 \<longrightarrow> keys_apart t1 t2 \<longrightarrow>
     holds M t1 \<longrightarrow> holds M t2 \<longrightarrow> f (t1, t2) i = Some (Inr u) \<longrightarrow> holds M u)"

section \<open>What the factory builds means what was asked for\<close>

lemma raw_args:
  assumes "rawCompound c k args = Inr t" "k \<noteq> OperationOp"
  shows "t \<in> set args \<or> t = Atom ''FALSE'' \<or> t = Compound k (ordered_args c k args)"
proof (cases "compound_plan k args")
  case (Folds u)
  then show ?thesis using assms by (auto simp: rawCompound_def compound_plan_def length_Suc_conv split: if_splits)
next
  case (Builds valid)
  then have "valid = args" by (simp add: compound_plan_def split: if_splits)
  then show ?thesis using assms Builds by (simp add: rawCompound_def)
qed (use assms in \<open>simp add: rawCompound_def\<close>)

lemma normal_clear: "normal c t \<Longrightarrow> inj_on termKey (set (preorder t)) \<Longrightarrow> clear_keys c t"
proof (induction t)
  case (Compound k args)
  have "inj_on termKey (set (preorder x))" if "x \<in> set args" for x
    using Compound.prems(2) that by (auto elim: inj_on_subset)
  then have "list_all (clear_keys c) args" using Compound by (simp add: list_all_iff)
  moreover have "map_results (canonicalTerm c) args = Inr args"
    using Compound.prems(1) by (intro map_results_id) (auto simp: list_all_iff canonical_normal)
  moreover have "inj_on termKey (set (below (Compound k args)))"
    using Compound.prems(2) by (rule inj_on_subset) (auto simp: below_def)
  ultimately show ?case using Compound.prems(1) by simp
qed simp

lemma raw_clear:
  assumes "collation_ok c" "list_all (normal c) args" "rawCompound c k args = Inr t" "k \<noteq> OperationOp"
    and inj: "inj_on termKey (\<Union>x \<in> set args. set (preorder x))"
  shows "clear_keys c t"
proof -
  have each: "clear_keys c x" if "x \<in> set args" for x
    using that assms(2) inj by (intro normal_clear) (auto simp: list_all_iff elim: inj_on_subset)
  consider "t \<in> set args" | "t = Atom ''FALSE''" | "t = Compound k (ordered_args c k args)" "t \<notin> set args"
    using raw_args [OF assms(3,4)] by blast
  then show ?thesis
  proof cases
    case 3
    let ?args = "ordered_args c k args"
    have m: "map_results (canonicalTerm c) ?args = Inr ?args"
      using assms(2) by (intro map_results_id) (auto simp: list_all_iff canonical_normal)
    have "inj_on termKey (set (below u))" if u: "rawCompound c k ?args = Inr u" for u
    proof -
      have "set (below u) \<subseteq> (\<Union>x \<in> set args. set (preorder x))"
        using raw_args [OF u assms(4)]
      proof (elim disjE)
        assume "u \<in> set ?args"
        then show ?thesis using preorder_below [of u] by auto
      qed (auto simp: below_def)
      then show ?thesis using inj by (rule inj_on_subset [rotated])
    qed
    then show ?thesis using 3 m each by (auto simp: list_all_iff split: sum.split)
  qed (use each in auto)
qed

definition statement_kinds :: "operatorKey set" where
  "statement_kinds = {Inheritance, Similarity, Implication, Equivalence}"

lemma build_statement:
  assumes "collation_ok c" "list_all (normal c) args" "k \<in> statement_kinds"
  shows "build c k args = Inr (Compound k (ordered_args c k args))"
proof -
  let ?args = "ordered_args c k args"
  have k: "k \<notin> set NARY_OPS" "k \<notin> set DEDUPED" "k \<noteq> Negation" "k \<noteq> OperationOp" "k \<noteq> Sequence"
    using assms(3) by (auto simp: statement_kinds_def DEDUPED_iff)
  have raw: "rawCompound c k xs = Inr (Compound k (ordered_args c k xs))" for xs
    using k assms(3) by (auto simp: rawCompound_def compound_plan_def statement_kinds_def)
  have "stable (Compound k ?args)"
    unfolding stable_iff using k assms(3) by (auto simp: statement_kinds_def)
  then have n: "normal c (Compound k ?args)"
    using assms(2) raw [of ?args] ordered_args_idem [OF assms(1)] by (simp add: list_all_iff)
  show ?thesis
    using raw [of args] canonical_normal [OF n] by (simp add: build_def createCompound_def del: canonicalTerm.simps)
qed

context reducer_laws
begin

lemma build_meaning:
  assumes "collation_ok c" "list_all (normal c) args" "k \<noteq> OperationOp" "build c k args = Inr u"
    and "inj_on termKey (\<Union>x \<in> set args. set (preorder x))"
  shows "den u = I k (map den args)"
proof -
  obtain t where t: "rawCompound c k args = Inr t" "canonicalTerm c t = Inr u"
    using assms(4) by (auto simp: build_def createCompound_def split: sum.splits)
  have "den u = den t"
    by (rule canonical_keeps [OF assms(1) raw_clear [OF assms(1,2) t(1) assms(3,5)] t(2)])
  then show ?thesis using rawCompound_meaning [OF t(1)] by simp
qed

end

section \<open>Reading the parts\<close>

lemma reads_Compound:
  "reads M (Compound k args) = worlds (crisp_bag (m_bag M)) (crisp_list (m_list M)) k (map (reads M) args)"
  by (simp add: reads_def [abs_def])

lemma reads_build:
  assumes "collation_ok c" "list_all (normal c) args" "k \<noteq> OperationOp" "build c k args = Inr u"
    and "inj_on termKey (\<Union>x \<in> set args. set (preorder x))"
  shows "reads M u = worlds (crisp_bag (m_bag M)) (crisp_list (m_list M)) k (map (reads M) args)"
  using worlds.build_meaning [OF assms] by (simp add: reads_def [abs_def])

lemma UNIV_not_empty [simp]: "(UNIV :: 'w set) \<noteq> {}" "{} \<noteq> (UNIV :: 'w set)"
  by simp_all

lemma holds_inclusion:
  assumes "binaryOf k t = Some (a, b)" "k \<in> {Inheritance, Implication}"
  shows "holds M t \<longleftrightarrow> reads M a \<subseteq> reads M b"
proof -
  obtain rest where "t = Compound k (a # b # rest)" using binaryOf_args [OF assms(1)] by (cases t) auto
  then show ?thesis using assms(2) by (auto simp: holds_def reads_Compound worlds_def crisp_list_def)
qed

lemma holds_equality:
  assumes "binaryOf k t = Some (a, b)" "k \<in> {Similarity, Equivalence}" "holds M t"
  shows "reads M a = reads M b"
proof -
  obtain rest where "t = Compound k (a # b # rest)" using binaryOf_args [OF assms(1)] by (cases t) auto
  then show ?thesis using assms(2,3) by (auto simp: holds_def reads_Compound worlds_def crisp_bag_def split: if_splits)
qed

lemma holds_role:
  assumes "rolePair t = Some (a, b)" "holds M t"
  shows "reads M a \<subseteq> reads M b"
  using assms holds_inclusion [of Inheritance t a b M] holds_equality [of Similarity t a b M]
  by (auto simp: rolePair_def orTry_def split: option.splits)

lemma holds_negation:
  assumes "normal c t" "isType Negation t" "getArgs t = x # xs"
  shows "holds M t \<longleftrightarrow> reads M x = {}"
proof -
  have "t = Compound Negation [x]"
    using assms rawCompound_total [of c Negation "x # xs"] by (cases t) auto
  then show ?thesis by (auto simp: holds_def reads_Compound worlds_def)
qed

lemma holds_conjunction:
  assumes "isType Conjunction t"
  shows "holds M t \<longleftrightarrow> (\<forall>x \<in> set (getArgs t). holds M x)"
  using assms by (cases t) (auto simp: holds_def reads_Compound worlds_def)

lemma reads_disjunction:
  assumes "isType Disjunction t"
  shows "reads M t = (\<Union>x \<in> set (getArgs t). reads M x)"
  using assms by (cases t) (auto simp: reads_Compound worlds_def)

lemma holds_build_inclusion:
  assumes "collation_ok c" "normal c a" "normal c b" "k \<in> {Inheritance, Implication}" "build c k [a, b] = Inr u"
  shows "holds M u \<longleftrightarrow> reads M a \<subseteq> reads M b"
proof -
  have "u = Compound k [a, b]"
    using build_statement [of c "[a, b]" k] assms by (auto simp: statement_kinds_def ordered_args_def)
  then show ?thesis using assms(4) by (auto simp: holds_def reads_Compound worlds_def crisp_list_def)
qed

lemma holds_inheritance:
  assumes "collation_ok c" "normal c a" "normal c b" "build_inheritance c a b = Some (Inr u)"
  shows "holds M u \<longleftrightarrow> reads M a \<subseteq> reads M b"
  using holds_build_inclusion [of c a b Inheritance u M] assms
  by (auto simp: build_inheritance_def build_def split: if_splits)

lemma holds_implicationI:
  "build c Implication [a, b] = Inr u \<Longrightarrow> collation_ok c \<Longrightarrow> normal c a \<Longrightarrow> normal c b
    \<Longrightarrow> reads M a \<subseteq> reads M b \<Longrightarrow> holds M u"
  using holds_build_inclusion [of c a b Implication u M] by simp

lemma holds_inheritanceI:
  "build_inheritance c a b = Some (Inr u) \<Longrightarrow> collation_ok c \<Longrightarrow> normal c a \<Longrightarrow> normal c b
    \<Longrightarrow> reads M a \<subseteq> reads M b \<Longrightarrow> holds M u"
  using holds_inheritance [of c a b u M] by simp

section \<open>The bodies that preserve truth\<close>

lemma soundI:
  assumes "\<And>t1 t2 i u. term_kind t1 = l \<Longrightarrow> term_kind t2 = r \<Longrightarrow> normal c t1 \<Longrightarrow> normal c t2 \<Longrightarrow>
    keys_apart t1 t2 \<Longrightarrow> holds M t1 \<Longrightarrow> holds M t2 \<Longrightarrow> f (t1, t2) i = Some (Inr u) \<Longrightarrow> holds M u"
  shows "sound_at c M l r f"
  using assms unfolding sound_at_def by blast

lemma sound_pair:
  assumes "\<And>a b a' b' i u. \<lbrakk>normal c a; normal c b; normal c a'; normal c b'; reads M a \<subseteq> reads M b;
      reads M a' \<subseteq> reads M b'; d (a, b) (a', b') i = Some (Inr u)\<rbrakk> \<Longrightarrow> holds M u"
    and "k \<in> {Inheritance, Implication}"
  shows "sound_at c M l r (buildPairRule (k, k) d)"
proof (rule soundI)
  fix t1 t2 i u
  assume n: "normal c t1" "normal c t2" "holds M t1" "holds M t2" "buildPairRule (k, k) d (t1, t2) i = Some (Inr u)"
  then obtain a b a' b' where ab: "binaryOf k t1 = Some (a, b)" "binaryOf k t2 = Some (a', b')"
    "d (a, b) (a', b') i = Some (Inr u)"
    by (auto simp: buildPairRule_def split: option.splits)
  show "holds M u"
    by (rule assms(1) [OF _ _ _ _ _ _ ab(3)])
      (use n binaryOf_normal [OF ab(1) n(1)] binaryOf_normal [OF ab(2) n(2)]
        holds_inclusion [OF ab(1) assms(2), of M] holds_inclusion [OF ab(2) assms(2), of M] in simp_all)
qed

lemma sound_deduction:
  assumes "collation_ok c"
  shows "sound_at c M l r (deduction c)" "sound_at c M l r (higherOrderDeduction c)"
    "sound_at c M l r (implicationDeduction c)"
  unfolding deduction_def higherOrderDeduction_def implicationDeduction_def buildBinaryInhRule_def
    buildImplicationPairRule_def
  by (rule sound_pair; auto split: if_splits elim!: holds_inheritanceI holds_implicationI simp: assms)+

lemma sound_analogy:
  assumes "collation_ok c"
  shows "sound_at c M l r (analogy c)"
proof (rule soundI)
  fix t1 t2 i u
  assume n: "normal c t1" "normal c t2" "holds M t1" "holds M t2" "analogy c (t1, t2) i = Some (Inr u)"
  then obtain a b b' where ab: "rolePair t1 = Some (a, b)" "rolePair t2 = Some (b, b')"
    "build_inheritance c a b' = Some (Inr u)"
    by (auto simp: analogy_def buildRolePairRule_def split: option.splits if_splits)
  then show "holds M u"
    using holds_role [OF ab(1) n(3)] holds_role [OF ab(2) n(4)] rolePair_normal [OF ab(1) n(1)]
      rolePair_normal [OF ab(2) n(2)] holds_inheritance [OF assms _ _ ab(3), of M] by auto
qed

text \<open>Across a similarity the shared predicate carries an inclusion.\<close>

lemma sound_instantiation:
  assumes "collation_ok c"
  shows "sound_at c M l ''similarity'' (instantiation_rule c)"
proof (rule soundI)
  fix t1 t2 i u
  assume n: "term_kind t2 = ''similarity''" "normal c t1" "normal c t2" "holds M t1" "holds M t2"
    "instantiation_rule c (t1, t2) i = Some (Inr u)"
  then obtain a b a' where ab: "rolePair t1 = Some (a, b)" "rolePair t2 = Some (a', b)"
    "build_inheritance c a a' = Some (Inr u)"
    by (auto simp: instantiation_rule_def sharedPredicateInheritance_def buildRolePairRule_def split: option.splits if_splits)
  have "isType Similarity t2"
  proof (cases t2)
    case (Compound k args)
    then show ?thesis using n(1) by (cases k) auto
  qed (use n(1) in simp)
  then have "binaryOf Similarity t2 = Some (a', b)"
    using ab(2) by (cases t2) (auto simp: rolePair_def orTry_def binaryOf_def split: list.splits)
  then show "holds M u"
    using ab(3) holds_role [OF ab(1) n(4)] holds_equality [of Similarity t2 a' b M] n(5) rolePair_normal [OF ab(1) n(2)]
      rolePair_normal [OF ab(2) n(3)] holds_inheritance [OF assms _ _ ab(3), of M] by auto
qed

lemma keys_apart_sub:
  assumes "keys_apart t1 t2" "X \<subseteq> set (preorder t1) \<union> set (preorder t2)"
  shows "inj_on termKey X"
  using assms inj_on_subset unfolding keys_apart_def by blast

lemma parts_apart:
  assumes "keys_apart t1 t2" "set args \<subseteq> set (preorder t1) \<union> set (preorder t2)"
  shows "inj_on termKey (\<Union>x \<in> set args. set (preorder x))"
proof (rule keys_apart_sub [OF assms(1)])
  have "set (preorder x) \<subseteq> set (preorder t)" if "x \<in> set (preorder t)" for x t :: narTerm
    using that by (induction t) auto
  then show "(\<Union>x \<in> set args. set (preorder x)) \<subseteq> set (preorder t1) \<union> set (preorder t2)"
    using assms(2) by blast
qed

lemma args_preorder: "set (getArgs t) \<subseteq> set (preorder t)"
proof -
  have "x \<in> set (preorder x)" for x :: narTerm by (cases x) auto
  then show ?thesis unfolding preorder_getArgs [of t] by auto
qed

lemma sound_nary:
  assumes "collation_ok c" "k \<in> {Conjunction, Disjunction}"
  shows "sound_at c M l r (foldNary k (k = Disjunction) c)"
proof (rule soundI)
  fix t1 t2 i u
  assume n: "normal c t1" "normal c t2" "keys_apart t1 t2" "holds M t1" "holds M t2"
    and f: "foldNary k (k = Disjunction) c (t1, t2) i = Some (Inr u)"
  let ?args = "if k = Disjunction then uniqueBy (getArgs t1 @ getArgs t2) termKey
    else filter (\<lambda>x. termKey x \<in> set (map termKey (getArgs t2))) (getArgs t1)"
  have t: "isType k t1" "isType k t2" and b: "build c k ?args = Inr u"
    using f assms(2) by (auto simp: foldNary_def Let_def split: if_splits)
  have keys: "set (uniqueBy xs termKey) \<subseteq> set xs" "termKey ` set (uniqueBy xs termKey) = termKey ` set xs" for xs
    using uniqueBy_loop_keys [of termKey "[]" xs] by (simp_all add: uniqueBy_def)
  have sub: "set ?args \<subseteq> set (getArgs t1) \<union> set (getArgs t2)"
    using keys(1) [of "getArgs t1 @ getArgs t2"] by auto
  then have "list_all (normal c) ?args"
    using normal_args [OF n(1)] normal_args [OF n(2)] unfolding list_all_iff by blast
  moreover have sub': "set ?args \<subseteq> set (preorder t1) \<union> set (preorder t2)" using sub args_preorder by blast
  ultimately have "reads M u = worlds (crisp_bag (m_bag M)) (crisp_list (m_list M)) k (map (reads M) ?args)"
    using assms b by (intro reads_build parts_apart [OF n(3)]) auto
  moreover have "holds M x" if "k = Conjunction" "x \<in> set ?args" for x
    using that sub n(4,5) t holds_conjunction by auto
  moreover have "set (getArgs t1) \<subseteq> set ?args" if "k = Disjunction"
  proof
    fix x
    assume x: "x \<in> set (getArgs t1)"
    then have "termKey x \<in> termKey ` set (uniqueBy (getArgs t1 @ getArgs t2) termKey)" by (simp add: keys(2))
    then obtain y where y: "y \<in> set ?args" "termKey y = termKey x" using \<open>k = Disjunction\<close> by auto
    then have "y = x" using n(3) sub' x args_preorder [of t1] unfolding keys_apart_def inj_on_def by blast
    then show "x \<in> set ?args" using y by simp
  qed
  ultimately show "holds M u"
    using assms(2) n(4) t reads_disjunction [of t1 M] by (auto simp: holds_def worlds_def)
qed

lemma sound_disjunctionIntro:
  assumes "collation_ok c"
  shows "sound_at c M l r (disjunctionIntro c)"
proof (rule soundI)
  fix t1 t2 i u
  assume n: "normal c t1" "normal c t2" "keys_apart t1 t2" "holds M t1"
    and "disjunctionIntro c (t1, t2) i = Some (Inr u)"
  then have b: "build c Disjunction [t1, t2] = Inr u" by (simp add: disjunctionIntro_def split: if_splits)
  have "t1 \<in> set (preorder t1)" "t2 \<in> set (preorder t2)" by (simp_all add: preorder_getArgs [of t1] preorder_getArgs [of t2])
  then have "reads M u = worlds (crisp_bag (m_bag M)) (crisp_list (m_list M)) Disjunction (map (reads M) [t1, t2])"
    using n assms b by (intro reads_build parts_apart [OF n(3)]) auto
  then show "holds M u" using n(4) by (simp add: holds_def worlds_def)
qed

lemma sound_implicationIntro:
  assumes "collation_ok c"
  shows "sound_at c M l r (implicationIntro c)"
proof (rule soundI)
  fix t1 t2 i u
  assume n: "normal c t1" "holds M t1" "implicationIntro c (t1, t2) i = Some (Inr u)"
  then obtain a b where ab: "binaryOf Inheritance t1 = Some (a, b)" "build c Implication [a, b] = Inr u"
    by (auto simp: implicationIntro_def split: option.splits if_splits)
  then show "holds M u"
    using n binaryOf_normal [OF ab(1) n(1)] holds_inclusion [OF ab(1), of M] assms
    by (intro holds_implicationI [OF ab(2)]) simp_all
qed

lemma sound_implicationElim: "sound_at c M l r implicationElim"
proof (rule soundI)
  fix t1 t2 i u
  assume n: "holds M t1" "holds M t2" "implicationElim (t1, t2) i = Some (Inr u)"
  then have "binaryOf Implication t1 = Some (t2, u)"
    by (auto simp: implicationElim_def split: option.splits if_splits)
  from holds_inclusion [OF this, of M] n show "holds M u" by (auto simp: holds_def)
qed

lemma sound_equivalenceElim: "sound_at c M l r equivalenceElim"
proof (rule soundI)
  fix t1 t2 i u
  assume n: "holds M t1" "holds M t2" "equivalenceElim (t1, t2) i = Some (Inr u)"
  then obtain a where "binaryOf Equivalence t1 = Some (a, u)" "a = t2 \<or> u = t2"
    by (auto simp: equivalenceElim_def split: option.splits if_splits)
  with holds_equality [OF this(1), of M] n show "holds M u" by (auto simp: holds_def)
qed

lemma reads_negation:
  assumes "collation_ok c" "normal c x" "inj_on termKey (set (preorder x))" "build c Negation [x] = Inr u"
  shows "reads M u = - reads M x"
  using reads_build [OF assms(1) _ _ assms(4), of M] assms by (simp add: worlds_def)

lemma sub_preorder: "x \<in> set (preorder t) \<Longrightarrow> set (preorder x) \<subseteq> set (preorder t)"
  by (induction t) auto

lemma binaryOf_preorder:
  assumes "binaryOf k t = Some (a, b)"
  shows "set (preorder a) \<subseteq> set (preorder t)" "set (preorder b) \<subseteq> set (preorder t)"
  using assms binaryOf_args args_preorder [of t] sub_preorder [of _ t] by fastforce+

lemma sound_negationIntro:
  assumes "collation_ok c"
  shows "sound_at c M l r (negationIntro c)"
proof (rule soundI)
  fix t1 t2 i u
  assume n: "negationIntro c (t1, t2) i = Some (Inr u)"
  then have b: "build c Negation [Atom ''FALSE''] = Inr u"
    by (auto simp: negationIntro_def buildPairRule_def isTrueFalse_def build_negation_build split: option.splits if_splits)
  then show "holds M u"
    using reads_negation [OF assms _ _ b, of M] by (simp add: holds_def reads_def constants_def)
qed

lemma sound_modusTollens:
  assumes "collation_ok c"
  shows "sound_at c M l r (modusTollens c)"
proof (rule soundI)
  fix t1 t2 i u
  assume n: "normal c t1" "normal c t2" "keys_apart t1 t2" "holds M t1" "holds M t2"
    "modusTollens c (t1, t2) i = Some (Inr u)"
  then obtain a b xs where ab: "binaryOf Implication t1 = Some (a, b)" "isType Negation t2" "getArgs t2 = b # xs"
    "build c Negation [a] = Inr u"
    by (auto simp: modusTollens_def build_negation_build split: option.splits if_splits list.splits)
  have "reads M u = - reads M a"
    using ab binaryOf_normal [OF ab(1) n(1)] binaryOf_preorder [OF ab(1)]
    by (intro reads_negation [OF assms] keys_apart_sub [OF n(3)]) auto
  then show "holds M u"
    using n(4,5) holds_inclusion [OF ab(1), of M] holds_negation [OF n(2) ab(2,3), of M] by (auto simp: holds_def)
qed

lemma sound_contrapositionRule:
  assumes "collation_ok c"
  shows "sound_at c M l r (contrapositionRule c)"
proof (rule soundI)
  fix t1 t2 i u
  assume n: "normal c t1" "keys_apart t1 t2" "holds M t1" "contrapositionRule c (t1, t2) i = Some (Inr u)"
  then obtain a b a' b' where ab: "binaryOf Implication t1 = Some (a, b)"
    "build c Negation [b] = Inr b'" "build c Negation [a] = Inr a'" "build c Implication [b', a'] = Inr u"
    by (auto simp: contrapositionRule_def build_negation_build feed_def split: option.splits sum.splits)
  have p: "normal c a" "normal c b" using binaryOf_normal [OF ab(1) n(1)] by simp_all
  have q: "inj_on termKey (set (preorder a))" "inj_on termKey (set (preorder b))"
    using binaryOf_preorder [OF ab(1)] by (intro keys_apart_sub [OF n(2)]; blast)+
  have "normal c a'" "normal c b'"
    using build_normal [of c "[a]" Negation] build_normal [of c "[b]" Negation] ab p assms by auto
  moreover have "reads M a' = - reads M a" by (rule reads_negation [OF assms p(1) q(1) ab(3)])
  moreover have "reads M b' = - reads M b" by (rule reads_negation [OF assms p(2) q(2) ab(2)])
  ultimately show "holds M u"
    using n(3) holds_inclusion [OF ab(1), of M] assms by (intro holds_implicationI [OF ab(4)]) auto
qed

lemma holds_conjunct: "isType Conjunction t \<Longrightarrow> holds M t \<Longrightarrow> n < length (getArgs t) \<Longrightarrow> holds M (getArgs t ! n)"
  using holds_conjunction nth_mem by blast

lemma sound_parts:
  "sound_at c M l r decompose" "sound_at c M l r destruct" "sound_at c M l r decomposition"
  "sound_at c M l r revisionWeak"
proof -
  show "sound_at c M l r decompose" "sound_at c M l r destruct"
    by (rule soundI; auto simp: decompose_def destruct_def holds_conjunction dest!: find_member split: if_splits)+
  show "sound_at c M l r decomposition"
    by (rule soundI) (auto simp: decomposition_def intro: holds_conjunct split: if_splits)
  show "sound_at c M l r revisionWeak"
    by (rule soundI) (auto simp: revisionWeak_def split: option.splits if_splits)
qed

lemma sound_disjunctiveSyllogism: "sound_at c M l r disjunctiveSyllogism"
proof (rule soundI)
  fix t1 t2 i u
  assume n: "normal c t2" "holds M t1" "holds M t2" "disjunctiveSyllogism (t1, t2) i = Some (Inr u)"
  then obtain x y z xs where d: "isType Disjunction t1" "getArgs t1 = [x, y]" "isType Negation t2" "getArgs t2 = z # xs"
    "(z = x \<and> u = y) \<or> (z = y \<and> u = x)"
    by (auto simp: disjunctiveSyllogism_def Let_def numeral_2_eq_2 length_Suc_conv split: if_splits list.splits)
  then show "holds M u"
    using n(2,3) reads_disjunction [OF d(1), of M] holds_negation [OF n(1) d(3,4), of M] by (auto simp: holds_def)
qed

text \<open>The bodies below conclude a premise again, or nothing.\<close>

lemma sound_inheritance_again:
  assumes "collation_ok c"
  shows "sound_at c M l r (variableIntroduction c)" "sound_at c M l r (instanceDeduction c)"
    "sound_at c M l r (propertyInduction c)"
proof -
  have again: "holds M u" if "normal c t1" "holds M t1" "binaryOf Inheritance t1 = Some (a, b)"
    "build_inheritance c a b = Some (Inr u)" for t1 a b u
    using that(1,2) binaryOf_normal [OF that(3,1)] holds_inclusion [OF that(3), of M]
    by (intro holds_inheritanceI [OF that(4) assms]) simp_all
  show "sound_at c M l r (variableIntroduction c)"
    by (rule soundI) (auto simp: variableIntroduction_def buildInhRule_def split: option.splits intro: again)
  show "sound_at c M l r (instanceDeduction c)" "sound_at c M l r (propertyInduction c)"
    by (rule soundI; auto simp: instanceDeduction_def propertyInduction_def deductionFromType_def
        buildSetMemberRule_def split: option.splits if_splits intro: again)+
qed

lemma sound_structuralInheritance: "sound_at c M l r (structuralInheritance c)"
proof (rule soundI)
  fix t1 t2 i u
  assume "structuralInheritance c (t1, t2) i = Some (Inr u)"
  then have "t2 \<in> set (getArgs t1)" "build_inheritance c t2 t1 = Some (Inr u)"
    by (auto simp: structuralInheritance_def list_ex_iff split: if_splits)
  then show "holds M u" using args_preorder [of t1] by (auto simp: build_inheritance_def containsSubterm_def)
qed

section \<open>The shipped rules\<close>

definition TRUTH_PRESERVING :: "string list" where
  "TRUTH_PRESERVING = [
     ''nal.deduction'', ''nal.intersection'', ''nal.union'', ''nal.disjunctionIntro'', ''nal.implicationIntro'',
     ''nal.implicationElim'', ''nal.equivalenceElim'', ''nal.negationIntro'', ''nal.destruct'', ''nal.decompose'',
     ''nal.analogy'', ''nal.instantiation'', ''nal.higherOrderDeduction'', ''nal.modusPonens'', ''nal.modusTollens'',
     ''nal.disjunctiveSyllogism'', ''nal.extended.analogy'', ''nal.contrapositionRule'', ''nal.structuralInheritance'',
     ''nal.implicationDeduction'', ''nal.variableIntroduction'', ''nal.decomposition'', ''nal.revisionWeak'',
     ''nal.instanceDeduction'', ''nal.propertyInduction'']"

definition SOUND_BODIES :: "string list" where
  "SOUND_BODIES = [
     ''nal:deduction'', ''nal:intersection'', ''nal:union'', ''nal:disjunctionIntro'', ''nal:implicationIntro'',
     ''nal:implicationElim'', ''nal:equivalenceElim'', ''nal:negationIntro'', ''nal:destruct'', ''nal:decompose'',
     ''nal:analogy'', ''nal:higherOrderDeduction'', ''nal.extended:modusPonens'', ''nal.extended:modusTollens'',
     ''nal.extended:disjunctiveSyllogism'', ''nal.extended:analogy'', ''nal.extended:contrapositionRule'',
     ''nal.extended:structuralInheritance'', ''nal.extended:implicationDeduction'', ''nal.extended:variableIntroduction'',
     ''nal.extended:decomposition'', ''nal.extended:revisionWeak'', ''nal.extended:instanceDeduction'',
     ''nal.extended:propertyInduction'']"

text \<open>A body is looked up in the table of its namespace.\<close>

lemma namespaced_lookup: "map_of (namespaced ns t) (ns @ '':'' @ n) = map_of t n"
  by (induction t) (auto simp: namespaced_def)

lemma nal_body:
  assumes "map_of (NALRules c) n = Some f"
  shows "map_of (RULE_BODIES c) (CHR ''n'' # CHR ''a'' # CHR ''l'' # CHR '':'' # n) = Some f"
proof -
  have "map_of (namespaced ''nal.extended'' t) (CHR ''n'' # CHR ''a'' # CHR ''l'' # CHR '':'' # n) = None" for t
    by (auto simp: namespaced_def map_of_eq_None_iff)
  then show ?thesis using assms namespaced_lookup [of "''nal''" "NALRules c" n] by (simp add: RULE_BODIES_def map_add_def)
qed

lemma extended_body:
  assumes "map_of (NALExtendedRules c) n = Some f"
  shows "map_of (RULE_BODIES c) (CHR ''n'' # CHR ''a'' # CHR ''l'' # CHR ''.'' # CHR ''e'' # CHR ''x'' # CHR ''t''
    # CHR ''e'' # CHR ''n'' # CHR ''d'' # CHR ''e'' # CHR ''d'' # CHR '':'' # n) = Some f"
proof -
  have "map_of (namespaced ''nal'' t) (CHR ''n'' # CHR ''a'' # CHR ''l'' # CHR ''.'' # m) = None" for t m
    by (auto simp: namespaced_def map_of_eq_None_iff)
  then show ?thesis using assms namespaced_lookup [of "''nal.extended''" "NALExtendedRules c" n]
    by (simp add: RULE_BODIES_def map_add_def)
qed

lemma sound_body_values:
  "map_of (RULE_BODIES c) ''nal:deduction'' = Some (deduction c)"
  "map_of (RULE_BODIES c) ''nal:intersection'' = Some (intersection c)"
  "map_of (RULE_BODIES c) ''nal:union'' = Some (union_rule c)"
  "map_of (RULE_BODIES c) ''nal:disjunctionIntro'' = Some (disjunctionIntro c)"
  "map_of (RULE_BODIES c) ''nal:implicationIntro'' = Some (implicationIntro c)"
  "map_of (RULE_BODIES c) ''nal:implicationElim'' = Some (implicationElim)"
  "map_of (RULE_BODIES c) ''nal:equivalenceElim'' = Some (equivalenceElim)"
  "map_of (RULE_BODIES c) ''nal:negationIntro'' = Some (negationIntro c)"
  "map_of (RULE_BODIES c) ''nal:destruct'' = Some (destruct)"
  "map_of (RULE_BODIES c) ''nal:decompose'' = Some (decompose)"
  "map_of (RULE_BODIES c) ''nal:analogy'' = Some (analogy c)"
  "map_of (RULE_BODIES c) ''nal:higherOrderDeduction'' = Some (higherOrderDeduction c)"
  "map_of (RULE_BODIES c) ''nal.extended:modusPonens'' = Some (modusPonens)"
  "map_of (RULE_BODIES c) ''nal.extended:modusTollens'' = Some (modusTollens c)"
  "map_of (RULE_BODIES c) ''nal.extended:disjunctiveSyllogism'' = Some (disjunctiveSyllogism)"
  "map_of (RULE_BODIES c) ''nal.extended:analogy'' = Some (analogy c)"
  "map_of (RULE_BODIES c) ''nal.extended:contrapositionRule'' = Some (contrapositionRule c)"
  "map_of (RULE_BODIES c) ''nal.extended:structuralInheritance'' = Some (structuralInheritance c)"
  "map_of (RULE_BODIES c) ''nal.extended:implicationDeduction'' = Some (implicationDeduction c)"
  "map_of (RULE_BODIES c) ''nal.extended:variableIntroduction'' = Some (variableIntroduction c)"
  "map_of (RULE_BODIES c) ''nal.extended:decomposition'' = Some (decomposition)"
  "map_of (RULE_BODIES c) ''nal.extended:revisionWeak'' = Some (revisionWeak)"
  "map_of (RULE_BODIES c) ''nal.extended:instanceDeduction'' = Some (instanceDeduction c)"
  "map_of (RULE_BODIES c) ''nal.extended:propertyInduction'' = Some (propertyInduction c)"
  by (rule nal_body extended_body, simp add: NALRules_def NALExtendedRules_def)+

lemma modusPonens_sound: "sound_at c M l r modusPonens"
  unfolding modusPonens_def by (rule sound_implicationElim)

lemma sound_bodies:
  assumes "collation_ok c" "name \<in> set SOUND_BODIES"
  shows "sound_at c M l r (the (map_of (RULE_BODIES c) name))"
proof -
  have f: "sound_at c M l r (intersection c)" "sound_at c M l r (union_rule c)"
    using sound_nary [OF assms(1), of Conjunction] sound_nary [OF assms(1), of Disjunction]
    by (simp_all add: intersection_def union_rule_def)
  have "list_all (\<lambda>name. sound_at c M l r (the (map_of (RULE_BODIES c) name))) SOUND_BODIES"
    unfolding SOUND_BODIES_def list.pred_inject(2) sound_body_values option.sel
    by (intro conjI list.pred_inject(1) f modusPonens_sound sound_deduction [OF assms(1)] sound_analogy [OF assms(1)]
        sound_disjunctionIntro [OF assms(1)] sound_implicationIntro [OF assms(1)] sound_implicationElim
        sound_equivalenceElim sound_negationIntro [OF assms(1)] sound_modusTollens [OF assms(1)]
        sound_contrapositionRule [OF assms(1)] sound_parts sound_disjunctiveSyllogism
        sound_inheritance_again [OF assms(1)] sound_structuralInheritance)
  then show ?thesis using assms(2) by (simp add: list_all_iff)
qed

lemma preserving_bodies:
  "list_all (\<lambda>d. d_ruleId d \<in> set TRUTH_PRESERVING \<longrightarrow> d_body d \<in> set SOUND_BODIES
     \<or> d_body d = ''nal:instantiation'' \<and> d_right d = ''similarity'') BUILTIN_DECLARATIONS"
  by code_simp

lemma instantiation_body: "map_of (RULE_BODIES c) ''nal:instantiation'' = Some (instantiation_rule c)"
  by (rule nal_body) (simp add: NALRules_def)

lemma preserving_sound:
  assumes "collation_ok c" "d \<in> set BUILTIN_DECLARATIONS" "d_ruleId d \<in> set TRUTH_PRESERVING"
  shows "sound_at c M (d_left d) (d_right d) (the (map_of (RULE_BODIES c) (d_body d)))"
  using assms preserving_bodies sound_bodies [OF assms(1)] sound_instantiation [OF assms(1)] instantiation_body [of c]
  unfolding list_all_iff by (metis option.sel)

section \<open>The rules that leap\<close>

text \<open>For every other shipped rule, premises that hold in a model with one world, in which the listed
  atoms hold, and a conclusion that does not. An operation always holds there, a prediction never,
  and the other operators without a law hold when their last argument does not.\<close>

definition one_world :: "string list \<Rightarrow> unit model" where
  "one_world atoms = \<lparr>m_bag = \<lambda>_ _. {},
     m_list = \<lambda>k xs. if k = OperationOp then UNIV else if k = Predictive then {} else - last xs,
     m_atoms = \<lambda>s. if s \<in> set atoms then UNIV else {}\<rparr>"

definition two :: "operatorKey \<Rightarrow> string \<Rightarrow> string \<Rightarrow> narTerm" where
  "two k x y = Compound k [Atom x, Atom y]"

definition call :: "string \<Rightarrow> string \<Rightarrow> narTerm" where
  "call op x = Compound OperationOp [Atom op, Compound ProductOp [Atom x]]"

definition LEAPS :: "(string \<times> string list \<times> narTerm \<times> narTerm \<times> narTerm) list" where
  "LEAPS = [
     (''nal.similarity'', [''b''], two Inheritance ''a'' ''b'', two Inheritance ''a'' ''b'', two Similarity ''a'' ''b''),
     (''nal.induction'', [''b''], two Inheritance ''a'' ''b'', two Inheritance ''a'' ''c'', two Inheritance ''b'' ''c''),
     (''nal.abduction'', [''a'', ''c''], two Inheritance ''a'' ''c'', two Inheritance ''b'' ''c'', two Inheritance ''a'' ''b''),
     (''nal.contrapositive'', [''c''], two Implication ''a'' ''b'', two Inheritance ''a'' ''c'', two Implication ''c'' ''b''),
     (''nal.equivalenceIntro'', [''b''], two Implication ''a'' ''b'', two Implication ''a'' ''b'', two Equivalence ''a'' ''b''),
     (''nal.negationElim'', [], Compound Negation [Atom ''a''], Compound Negation [Atom ''a''], Atom ''FALSE''),
     (''nal.exemplification'', [''a'', ''c''], two Inheritance ''a'' ''c'', two Inheritance ''b'' ''c'', two Inheritance ''a'' ''b''),
     (''nal.higherOrderAbduction'', [''a'', ''c''], two Implication ''a'' ''c'', two Implication ''b'' ''c'', two Implication ''a'' ''b''),
     (''nal.higherOrderInduction'', [''b''], two Implication ''a'' ''b'', two Implication ''a'' ''c'', two Implication ''b'' ''c''),
     (''nal.extended.comparison'', [''b''], two Inheritance ''a'' ''b'', two Inheritance ''a'' ''b'', two Similarity ''a'' ''b''),
     (''nal.equivalence'', [''b''], two Implication ''a'' ''b'', two Implication ''a'' ''b'', two Equivalence ''a'' ''b''),
     (''nal.variableDependency'', [], two Inheritance ''?x'' ''a'', two Inheritance ''?x'' ''b'', Atom ''?x''),
     (''nal.sameness'', [''b''], two Inheritance ''a'' ''b'', two Inheritance ''a'' ''b'', two Similarity ''a'' ''b''),
     (''nal.extended.exemplification'', [''a'', ''c''], two Inheritance ''a'' ''c'', two Inheritance ''b'' ''c'', two Inheritance ''a'' ''b''),
     (''nal.instanceConversion'', [''b''], two Inheritance ''a'' ''b'', Compound SetExt [Atom ''c''],
        Compound Inheritance [Compound SetExt [Atom ''a''], Compound SetExt [Atom ''b'']]),
     (''nal.propertyConversion'', [''b''], two Inheritance ''a'' ''b'', Compound SetInt [Atom ''c''],
        Compound Inheritance [Compound SetInt [Atom ''a''], Compound SetInt [Atom ''b'']]),
     (''nal.proceduralDecomposition'', [], two Sequence ''a'' ''b'', call ''f'' ''x'',
        Compound Sequence [Atom ''a'', call ''f'' ''x'']),
     (''nal.proceduralChaining'', [''d''], call ''a'' ''b'', call ''b'' ''d'', two Sequence ''a'' ''d''),
     (''nal.operationToPredictive'', [], call ''a'' ''b'', two Sequence ''a'' ''b'', two Predictive ''a'' ''b'')]"

abbreviation "plain \<equiv> \<lambda>(_ :: string) (_ :: string). True"

lemma leaps_evaluate:
  "list_all (\<lambda>d. d_ruleId d \<in> set TRUTH_PRESERVING \<or>
     (case map_of LEAPS (d_ruleId d) of
        None \<Rightarrow> False
      | Some (_, t1, t2, u) \<Rightarrow>
          term_kind t1 = d_left d \<and> term_kind t2 = d_right d \<and> normal plain t1 \<and> normal plain t2
          \<and> (case map_of (RULE_BODIES plain) (d_body d) of None \<Rightarrow> False | Some f \<Rightarrow> f (t1, t2) None = Some (Inr u))))
     BUILTIN_DECLARATIONS"
  by code_simp

lemma one_world_fields [simp]:
  "m_bag (one_world T) = (\<lambda>_ _. {})" "m_atoms (one_world T) s = (if s \<in> set T then UNIV else {})"
  "m_list (one_world T) k xs = (if k = OperationOp then UNIV else if k = Predictive then {} else - last xs)"
  by (simp_all add: one_world_def)

lemma reads_Atom [simp]: "reads M (Atom s) = constants (m_atoms M) s"
  by (simp add: reads_def)

lemmas read_terms = reads_Compound holds_def worlds_def crisp_bag_def crisp_list_def constants_def

lemma leaps_read:
  "list_all (\<lambda>(_, T, t1, t2, u). holds (one_world T) t1 \<and> holds (one_world T) t2 \<and> \<not> holds (one_world T) u) LEAPS"
  unfolding LEAPS_def two_def call_def list.pred_inject prod.case
  by (intro conjI TrueI; simp add: read_terms)

lemma keys_apart_distinct:
  "keys_apart t1 t2 \<longleftrightarrow> distinct (map termKey (remdups (preorder t1 @ preorder t2)))"
  by (simp add: keys_apart_def distinct_map del: remdups_append2 remdups.simps)

lemma leaps_apart:
  "list_all (\<lambda>(_, _, t1, t2, _). distinct (map termKey (remdups (preorder t1 @ preorder t2)))) LEAPS"
  by code_simp


lemma declared_candidate:
  assumes "d \<in> set BUILTIN_DECLARATIONS"
  shows "registered (map_of (RULE_BODIES c)) (map_of TRUTH_FNS) d
    \<in> set (index_candidates (rt_dispatch (builtinStore c)) (d_left d) (d_right d))"
  using assms by (simp add: builtinStore_def candidates_build_index rules_for_def)


text \<open>ampliative rules. For each of the other 19 shipped rules there are canonical premises of its
  cell and a model with a single world in which both premises hold and the conclusion its body draws
  does not.\<close>

theorem ampliative_rules:
  "list_all (\<lambda>d. (d_ruleId d \<in> set TRUTH_PRESERVING) \<noteq>
     (\<exists>T t1 t2 u f. term_kind t1 = d_left d \<and> term_kind t2 = d_right d \<and> normal plain t1 \<and> normal plain t2
        \<and> keys_apart t1 t2 \<and> holds (one_world T) t1 \<and> holds (one_world T) t2
        \<and> map_of (RULE_BODIES plain) (d_body d) = Some f \<and> f (t1, t2) None = Some (Inr u)
        \<and> \<not> holds (one_world T) u)) BUILTIN_DECLARATIONS"
  unfolding list_all_iff
proof
  fix d
  assume d: "d \<in> set BUILTIN_DECLARATIONS"
  let ?counter = "\<lambda>T t1 t2 u f. term_kind t1 = d_left d \<and> term_kind t2 = d_right d \<and> normal plain t1 \<and> normal plain t2
        \<and> keys_apart t1 t2 \<and> holds (one_world T) t1 \<and> holds (one_world T) t2
        \<and> map_of (RULE_BODIES plain) (d_body d) = Some f \<and> f (t1, t2) None = Some (Inr u) \<and> \<not> holds (one_world T) u"
  show "(d_ruleId d \<in> set TRUTH_PRESERVING) \<noteq> (\<exists>T t1 t2 u f. ?counter T t1 t2 u f)"
  proof (cases "d_ruleId d \<in> set TRUTH_PRESERVING")
    case True
    have "\<not> ?counter T t1 t2 u f" for T t1 t2 u f
      using preserving_sound [OF trivial_collation d True, of "one_world T"] unfolding sound_at_def by auto
    with True show ?thesis by blast
  next
    case False
    with leaps_evaluate d have "case map_of LEAPS (d_ruleId d) of None \<Rightarrow> False
      | Some (_, t1, t2, u) \<Rightarrow>
          term_kind t1 = d_left d \<and> term_kind t2 = d_right d \<and> normal plain t1 \<and> normal plain t2
          \<and> (case map_of (RULE_BODIES plain) (d_body d) of None \<Rightarrow> False | Some f \<Rightarrow> f (t1, t2) None = Some (Inr u))"
      unfolding list_all_iff by blast
    then obtain T t1 t2 u f where l: "map_of LEAPS (d_ruleId d) = Some (T, t1, t2, u)"
      and e: "term_kind t1 = d_left d" "term_kind t2 = d_right d" "normal plain t1" "normal plain t2"
        "map_of (RULE_BODIES plain) (d_body d) = Some f" "f (t1, t2) None = Some (Inr u)"
      by (auto simp del: normal.simps split: option.splits)
    have m: "(d_ruleId d, T, t1, t2, u) \<in> set LEAPS" using l by (rule map_of_SomeD)
    have r: "holds (one_world T) t1 \<and> holds (one_world T) t2 \<and> \<not> holds (one_world T) u"
      using leaps_read [unfolded list_all_iff, rule_format, OF m] by simp
    have k: "keys_apart t1 t2"
      using leaps_apart [unfolded list_all_iff, rule_format, OF m] unfolding keys_apart_distinct by simp
    have "?counter T t1 t2 u f" using e r k by simp
    with False show ?thesis by blast
  qed
qed

end
