(* ===== verification/Processor.thy ===== *)
theory Processor
  imports Nal_Sound Budget_Gate
begin

text \<open>
  The rule processor: \<open>nar/src/rules/impls/processor.ts\<close> over the dispatch table, with
  \<open>rule-utils.ts\<close> (validation, stamps and results) and \<open>ranking.ts\<close>. A sweep is
  modelled with the derivation recorder off, its default, and without the model-backed rules, whose
  work is a provider's. A charge of the budget port may throw, which ends the sweep: \<open>None\<close>. What
  the processor puts on the bus is returned as a list of events. The clock and the thread of the
  stamps a sweep mints are fields of the state.
\<close>

section \<open>Validation\<close>

definition validateRuleOutput :: "narTerm \<Rightarrow> bool" where
  "validateRuleOutput t =
     (if isTautology (\<lambda>_ _. False) t = Some True then False
      else let args = getArgs t; argCount = length args
           in if argCount > 0
                \<and> (isType Inheritance t \<or> isType Similarity t \<or> isType Implication t \<or> isType Equivalence t)
                \<and> argCount \<noteq> 2 then False
              else if argCount > 0 \<and> (isType Negation t \<or> isType SetExt t \<or> isType SetInt t) \<and> argCount \<noteq> 1 then False
              else if isType Inheritance t \<or> isType Similarity t
              then (case getSubject t of Some s \<Rightarrow> \<not> isType OperationOp s | None \<Rightarrow> True)
                \<and> (case getPredicate t of Some p \<Rightarrow> \<not> isType OperationOp p | None \<Rightarrow> True)
              else True)"

section \<open>Results\<close>

record ruleResult =
  rs_term :: narTerm
  rs_truth :: truth
  rs_stamp :: stamp
  rs_priority :: real
  rs_taskType :: "string option"

datatype ruleEvent =
  RuleApplied string narTerm narTerm narTerm truth | OutputRejected string narTerm | RuleFailed string termError

record 'b ruleProcessor =
  rp_table :: "(ruleFn, truthFn) ruleIndex"
  rp_limitConclusionGrowth :: bool
  rp_currentDepth :: nat
  rp_maxDepth :: nat
  rp_drives :: "real list option"
  rp_budgets :: 'b
  rp_stamps :: "32 word"
  rp_now :: int
  rp_thread :: nat

text \<open>\<open>StampFactory.derive(stamps) ?? StampFactory.createInput()\<close>.\<close>

definition deriveStamp :: "int \<Rightarrow> nat \<Rightarrow> ruleInput \<Rightarrow> ruleInput \<Rightarrow> 32 word \<Rightarrow> stamp \<times> 32 word" where
  "deriveStamp now thread p1 p2 counter =
     (case derive_stamp now thread [in_stamp p1, in_stamp p2] DERIVED counter of
        Some r \<Rightarrow> r
      | None \<Rightarrow> createInput now thread None counter)"

definition NEUTRAL_FN :: truthFn where
  "NEUTRAL_FN = (\<lambda>_ _. NEUTRAL_TRUTH)"

definition buildResult ::
  "narTerm \<Rightarrow> truthFn \<Rightarrow> ruleInput \<Rightarrow> ruleInput \<Rightarrow> real \<Rightarrow> 'b ruleProcessor \<Rightarrow> ruleResult \<times> 'b ruleProcessor" where
  "buildResult t truthFn p1 p2 priority s =
     (let (st, counter) = deriveStamp (rp_now s) (rp_thread s) p1 p2 (rp_stamps s)
      in (\<lparr>rs_term = t, rs_truth = truthFn (in_truth p1) (in_truth p2), rs_stamp = st,
            rs_priority = priority, rs_taskType = None\<rparr>, s\<lparr>rp_stamps := counter\<rparr>))"

section \<open>Meta rules\<close>

definition META_RULE_ACTIVATION_THRESHOLD :: real where "META_RULE_ACTIVATION_THRESHOLD = 6 / 10"
definition MAX_META_DERIVATION_DEPTH :: nat where "MAX_META_DERIVATION_DEPTH = 2"

definition shouldActivateMetaReasoning :: "real list \<Rightarrow> bool" where
  "shouldActivateMetaReasoning drives = list_ex (\<lambda>d. d > META_RULE_ACTIVATION_THRESHOLD) drives"

definition isMetaRule :: "('fn, 'tf) registeredRule \<Rightarrow> bool" where
  "isMetaRule rule = (take 5 (rr_id rule) = ''meta-'')"

definition metaActive :: "'b ruleProcessor \<Rightarrow> (ruleFn, truthFn) registeredRule list \<Rightarrow> bool" where
  "metaActive s matched =
     (if \<not> list_ex isMetaRule matched then False
      else case rp_drives s of None \<Rightarrow> False | Some ds \<Rightarrow> shouldActivateMetaReasoning ds)"

type_synonym 'b charge = "'b \<Rightarrow> string \<Rightarrow> int \<Rightarrow> (bool \<times> 'b) option"

definition checkMetaBudget :: "'b charge \<Rightarrow> nat \<Rightarrow> 'b ruleProcessor \<Rightarrow> (bool \<times> 'b ruleProcessor) option" where
  "checkMetaBudget charge depth s =
     (if \<not> depth < rp_maxDepth s then Some (False, s)
      else map_option (\<lambda>(granted, b). (granted, s\<lparr>rp_budgets := b\<rparr>)) (charge (rp_budgets s) ''control-work'' 1))"

definition recordMetaDerivation :: "nat \<Rightarrow> 'b ruleProcessor \<Rightarrow> 'b ruleProcessor" where
  "recordMetaDerivation depth s = s\<lparr>rp_currentDepth := max (rp_currentDepth s) depth\<rparr>"

section \<open>A sweep\<close>

definition meta_gate ::
  "'b charge \<Rightarrow> bool \<Rightarrow> (ruleFn, truthFn) registeredRule \<Rightarrow> 'b ruleProcessor \<Rightarrow> (bool \<times> 'b ruleProcessor) option" where
  "meta_gate charge active rule s =
     (if \<not> isMetaRule rule then Some (True, s)
      else if \<not> active then Some (False, s)
      else checkMetaBudget charge (rp_currentDepth s + 1) s)"

definition try_rule ::
  "ruleInput \<Rightarrow> ruleInput \<Rightarrow> nat \<Rightarrow> (ruleFn, truthFn) registeredRule \<Rightarrow> 'b ruleProcessor
    \<Rightarrow> ruleResult list \<times> ruleEvent list \<times> 'b ruleProcessor" where
  "try_rule p1 p2 premiseDepth rule s =
     (case rr_apply rule (in_term p1, in_term p2) (Some (p1, p2)) of
        None \<Rightarrow> ([], [], s)
      | Some (Inl e) \<Rightarrow> ([], [RuleFailed (rr_id rule) e], s)
      | Some (Inr result) \<Rightarrow>
          if \<not> validateRuleOutput result then ([], [OutputRejected (rr_id rule) result], s)
          else let s1 = (if isMetaRule rule then recordMetaDerivation (rp_currentDepth s + 1) s else s);
                   key = termKey result
               in if key = termKey (in_term p1) \<or> key = termKey (in_term p2) then ([], [], s1)
                  else if rp_limitConclusionGrowth s1 \<and> termDepth result > premiseDepth then ([], [], s1)
                  else let (r, s2) = buildResult result (orElse (rr_truthFn rule) NEUTRAL_FN) p1 p2 (rr_priority rule) s1;
                           r' = r\<lparr>rs_taskType := rr_taskType rule\<rparr>
                       in ([r'], [RuleApplied (rr_id rule) (in_term p1) (in_term p2) result (rs_truth r')], s2))"

fun sweep ::
  "'b charge \<Rightarrow> ruleInput \<Rightarrow> ruleInput \<Rightarrow> bool \<Rightarrow> nat \<Rightarrow> (ruleFn, truthFn) registeredRule list \<Rightarrow> 'b ruleProcessor
    \<Rightarrow> (ruleResult list \<times> ruleEvent list \<times> 'b ruleProcessor) option" where
  "sweep charge p1 p2 active depth [] s = Some ([], [], s)"
| "sweep charge p1 p2 active depth (rule # rules) s =
     (case charge (rp_budgets s) ''candidate-derivations'' 1 of
        None \<Rightarrow> None
      | Some (False, b) \<Rightarrow> Some ([], [], s\<lparr>rp_budgets := b\<rparr>)
      | Some (True, b) \<Rightarrow>
          (case meta_gate charge active rule (s\<lparr>rp_budgets := b\<rparr>) of
             None \<Rightarrow> None
           | Some (False, s1) \<Rightarrow> sweep charge p1 p2 active depth rules s1
           | Some (True, s1) \<Rightarrow>
               let (rs, evs, s2) = try_rule p1 p2 depth rule s1
               in map_option (\<lambda>(rs', evs', s3). (rs @ rs', evs @ evs', s3)) (sweep charge p1 p2 active depth rules s2)))"

definition applySyncRules ::
  "'b charge \<Rightarrow> ruleInput \<Rightarrow> ruleInput \<Rightarrow> 'b ruleProcessor
    \<Rightarrow> (ruleResult list \<times> ruleEvent list \<times> 'b ruleProcessor) option" where
  "applySyncRules charge p1 p2 s =
     (let matched = index_candidates (rp_table s) (term_kind (in_term p1)) (term_kind (in_term p2));
          premiseDepth = (if rp_limitConclusionGrowth s
                          then max (termDepth (in_term p1)) (termDepth (in_term p2)) else 0)
      in sweep charge p1 p2 (metaActive s matched) premiseDepth matched s)"

text \<open>The highest-priority result per conclusion, in the order the conclusions were first drawn.\<close>

definition keep_best :: "ruleResult \<Rightarrow> (string, ruleResult) omap \<Rightarrow> (string, ruleResult) omap" where
  "keep_best r seen =
     (case map_of seen (termKey (rs_term r)) of
        None \<Rightarrow> omap_set seen (termKey (rs_term r)) r
      | Some existing \<Rightarrow>
          if rs_priority r > rs_priority existing then omap_set seen (termKey (rs_term r)) r else seen)"

definition deduplicated :: "ruleResult list \<Rightarrow> ruleResult list" where
  "deduplicated results = map snd (fold keep_best results [])"

definition processSync ::
  "'b charge \<Rightarrow> ruleInput \<Rightarrow> ruleInput \<Rightarrow> 'b ruleProcessor
    \<Rightarrow> (ruleResult list \<times> ruleEvent list \<times> 'b ruleProcessor) option" where
  "processSync charge p1 p2 s =
     map_option (\<lambda>(rs, evs, s'). (deduplicated rs, evs, s')) (applySyncRules charge p1 p2 s)"

section \<open>Ranking\<close>

definition DEFAULT_MAX_ADMISSIONS :: int where "DEFAULT_MAX_ADMISSIONS = 100"
definition DEFAULT_MIN_SCORE :: real where "DEFAULT_MIN_SCORE = 0"

definition scoreDerivation :: "string \<Rightarrow> real \<Rightarrow> real \<Rightarrow> real" where
  "scoreDerivation termString f c =
     (let decisiveness = \<bar>f - 1 / 2\<bar> * 2; sizePenalty = min (3 / 10) (real (length termString) / 2000)
      in c * decisiveness - sizePenalty)"

definition rankDerivations ::
  "'a list \<Rightarrow> ('a \<Rightarrow> string) \<Rightarrow> ('a \<Rightarrow> truth option) \<Rightarrow> int option \<Rightarrow> real option \<Rightarrow> 'a list" where
  "rankDerivations results termString truth_of maxAdmissions lowest =
     rankBy results
       (\<lambda>task. case truth_of task of Some t \<Rightarrow> scoreDerivation (termString task) (tf t) (tc t) | None \<Rightarrow> -1)
       (\<lambda>_ score. score \<ge> orElse lowest DEFAULT_MIN_SCORE) None (Some (orElse maxAdmissions DEFAULT_MAX_ADMISSIONS))"

section \<open>What one rule adds\<close>

definition concluded :: "ruleInput \<Rightarrow> ruleInput \<Rightarrow> (ruleFn, truthFn) registeredRule \<Rightarrow> narTerm \<Rightarrow> bool" where
  "concluded p1 p2 rule t \<longleftrightarrow> rr_apply rule (in_term p1, in_term p2) (Some (p1, p2)) = Some (Inr t)"

definition admissible :: "ruleInput \<Rightarrow> ruleInput \<Rightarrow> nat option \<Rightarrow> narTerm \<Rightarrow> bool" where
  "admissible p1 p2 limit t \<longleftrightarrow> validateRuleOutput t
     \<and> termKey t \<noteq> termKey (in_term p1) \<and> termKey t \<noteq> termKey (in_term p2)
     \<and> (case limit of None \<Rightarrow> True | Some depth \<Rightarrow> termDepth t \<le> depth)"

definition growth_limit :: "'b ruleProcessor \<Rightarrow> nat \<Rightarrow> nat option" where
  "growth_limit s depth = (if rp_limitConclusionGrowth s then Some depth else None)"

text \<open>Every step of a sweep leaves the table, the switches and the clock alone.\<close>

definition frame :: "'b ruleProcessor \<Rightarrow> 'b ruleProcessor \<Rightarrow> bool" where
  "frame s s' \<longleftrightarrow> rp_table s' = rp_table s \<and> rp_limitConclusionGrowth s' = rp_limitConclusionGrowth s
     \<and> rp_maxDepth s' = rp_maxDepth s \<and> rp_drives s' = rp_drives s \<and> rp_now s' = rp_now s \<and> rp_thread s' = rp_thread s"

lemma frame_refl [simp]: "frame s s"
  by (simp add: frame_def)

lemma frame_trans: "frame s s' \<Longrightarrow> frame s' s'' \<Longrightarrow> frame s s''"
  by (simp add: frame_def)

lemma frame_updates [simp]:
  "frame s (s\<lparr>rp_budgets := b\<rparr>)" "frame s (s\<lparr>rp_stamps := w\<rparr>)" "frame s (recordMetaDerivation d s)"
  by (simp_all add: frame_def recordMetaDerivation_def)

lemma meta_gate_frame:
  assumes "meta_gate charge active rule s = Some (g, s')"
  shows "frame s s' \<and> rp_currentDepth s' = rp_currentDepth s \<and> rp_stamps s' = rp_stamps s
    \<and> (g \<longrightarrow> isMetaRule rule \<longrightarrow> active \<and> rp_currentDepth s + 1 < rp_maxDepth s)"
  using assms by (auto simp: meta_gate_def checkMetaBudget_def split: if_splits)

lemma try_rule_cases:
  assumes "try_rule p1 p2 depth rule s = (rs, evs, s')"
  obtains (none) "rs = []" "s' = s \<or> isMetaRule rule \<and> s' = recordMetaDerivation (rp_currentDepth s + 1) s"
      "\<forall>i e. RuleFailed i e \<in> set evs \<longrightarrow> rr_apply rule (in_term p1, in_term p2) (Some (p1, p2)) = Some (Inl e)"
  | (one) t s1 where "concluded p1 p2 rule t" "admissible p1 p2 (growth_limit s depth) t"
      "s1 = (if isMetaRule rule then recordMetaDerivation (rp_currentDepth s + 1) s else s)"
      "rs = [(fst (buildResult t (orElse (rr_truthFn rule) NEUTRAL_FN) p1 p2 (rr_priority rule) s1))\<lparr>rs_taskType := rr_taskType rule\<rparr>]"
      "s' = snd (buildResult t (orElse (rr_truthFn rule) NEUTRAL_FN) p1 p2 (rr_priority rule) s1)"
      "\<forall>i e. RuleFailed i e \<notin> set evs"
proof (cases "rr_apply rule (in_term p1, in_term p2) (Some (p1, p2))")
  case None
  then show thesis using assms none by (simp add: try_rule_def)
next
  case (Some a)
  show thesis
  proof (cases a)
    case (Inl e)
    then have "rs = []" "evs = [RuleFailed (rr_id rule) e]" "s' = s" using assms Some by (simp_all add: try_rule_def)
    then show thesis using Some Inl by (intro none) auto
  next
    case (Inr t)
    let ?s1 = "if isMetaRule rule then recordMetaDerivation (rp_currentDepth s + 1) s else s"
    have lim: "rp_limitConclusionGrowth ?s1 = rp_limitConclusionGrowth s"
      by (simp add: recordMetaDerivation_def)
    show thesis
    proof (cases "admissible p1 p2 (growth_limit s depth) t")
      case True
      then show thesis
        using assms Some Inr lim
        by (intro one [of t ?s1])
          (auto simp: try_rule_def concluded_def admissible_def growth_limit_def Let_def split: prod.splits if_splits)
    next
      case False
      then show thesis
        using assms Some Inr lim
        by (intro none) (auto simp: try_rule_def admissible_def growth_limit_def Let_def split: prod.splits if_splits)
    qed
  qed
qed

lemma buildResult_fields:
  "rs_term (fst (buildResult t f p1 p2 p s)) = t" "rs_priority (fst (buildResult t f p1 p2 p s)) = p"
  "frame s (snd (buildResult t f p1 p2 p s))" "rp_currentDepth (snd (buildResult t f p1 p2 p s)) = rp_currentDepth s"
  "rp_budgets (snd (buildResult t f p1 p2 p s)) = rp_budgets s"
  by (simp_all add: buildResult_def Let_def split: prod.split)

lemma try_rule_frame:
  assumes "try_rule p1 p2 depth rule s = (rs, evs, s')"
  shows "frame s s' \<and> rp_budgets s' = rp_budgets s \<and> length rs \<le> 1
    \<and> list_all (\<lambda>r. concluded p1 p2 rule (rs_term r) \<and> admissible p1 p2 (growth_limit s depth) (rs_term r)
         \<and> rs_priority r = rr_priority rule) rs"
  using assms
proof (cases rule: try_rule_cases)
  case none
  then show ?thesis by (auto simp: recordMetaDerivation_def frame_def)
next
  case (one t s1)
  have "frame s s1 \<and> rp_budgets s1 = rp_budgets s" using one(3) by (simp add: recordMetaDerivation_def frame_def)
  then show ?thesis using one by (auto simp: buildResult_fields intro: frame_trans)
qed

section \<open>What a sweep returns\<close>

lemma sweep_ConsE:
  assumes "sweep charge p1 p2 active depth (rule # rules) s = Some (rs, evs, s')"
  obtains (stop) b where "charge (rp_budgets s) ''candidate-derivations'' 1 = Some (False, b)" "rs = []" "evs = []"
      "s' = s\<lparr>rp_budgets := b\<rparr>"
  | (skip) b s1 where "charge (rp_budgets s) ''candidate-derivations'' 1 = Some (True, b)"
      "meta_gate charge active rule (s\<lparr>rp_budgets := b\<rparr>) = Some (False, s1)"
      "sweep charge p1 p2 active depth rules s1 = Some (rs, evs, s')"
  | (tried) b s1 r1 e1 s2 r2 e2 where "charge (rp_budgets s) ''candidate-derivations'' 1 = Some (True, b)"
      "meta_gate charge active rule (s\<lparr>rp_budgets := b\<rparr>) = Some (True, s1)"
      "try_rule p1 p2 depth rule s1 = (r1, e1, s2)"
      "sweep charge p1 p2 active depth rules s2 = Some (r2, e2, s')" "rs = r1 @ r2" "evs = e1 @ e2"
proof (cases "charge (rp_budgets s) ''candidate-derivations'' 1")
  case None
  then show thesis using assms by simp
next
  case (Some gb)
  then obtain g b where c: "charge (rp_budgets s) ''candidate-derivations'' 1 = Some (g, b)" by (cases gb) simp
  show thesis
  proof (cases g)
    case False
    then show thesis using assms c stop by simp
  next
    case True
    then obtain h s1 where m: "meta_gate charge active rule (s\<lparr>rp_budgets := b\<rparr>) = Some (h, s1)"
      using assms c by (auto split: option.splits)
    show thesis
    proof (cases h)
      case False
      then show thesis using assms c True m skip by simp
    next
      case h: True
      obtain r1 e1 s2 where t: "try_rule p1 p2 depth rule s1 = (r1, e1, s2)" by (cases "try_rule p1 p2 depth rule s1")
      then obtain r2 e2 where "sweep charge p1 p2 active depth rules s2 = Some (r2, e2, s')" "rs = r1 @ r2" "evs = e1 @ e2"
        using assms c True m h by auto
      then show thesis using tried c True m h t by simp
    qed
  qed
qed

definition from_rule :: "ruleInput \<Rightarrow> ruleInput \<Rightarrow> nat option \<Rightarrow> (ruleFn, truthFn) registeredRule list \<Rightarrow> ruleResult \<Rightarrow> bool" where
  "from_rule p1 p2 limit rules r \<longleftrightarrow> admissible p1 p2 limit (rs_term r)
     \<and> list_ex (\<lambda>rule. concluded p1 p2 rule (rs_term r) \<and> rs_priority r = rr_priority rule) rules"

lemma sweep_results:
  assumes "sweep charge p1 p2 active depth rules s = Some (rs, evs, s')"
  shows "frame s s' \<and> list_all (from_rule p1 p2 (growth_limit s depth) rules) rs"
  using assms
proof (induction rules arbitrary: s rs evs s')
  case (Cons rule rules)
  have more: "from_rule p1 p2 l rules r \<Longrightarrow> from_rule p1 p2 l (rule # rules) r" for l r
    by (auto simp: from_rule_def)
  from Cons.prems show ?case
  proof (cases rule: sweep_ConsE)
    case (skip b s1)
    have "frame s s1" using meta_gate_frame [OF skip(2)] by (auto intro: frame_trans [OF frame_updates(1)])
    moreover from this have "growth_limit s1 depth = growth_limit s depth" by (simp add: growth_limit_def frame_def)
    ultimately show ?thesis using Cons.IH [OF skip(3)] more by (auto intro: frame_trans simp: list_all_iff)
  next
    case (tried b s1 r1 e1 s2 r2 e2)
    have f1: "frame s s1" using meta_gate_frame [OF tried(2)] by (auto intro: frame_trans [OF frame_updates(1)])
    then have g1: "growth_limit s1 depth = growth_limit s depth" by (simp add: growth_limit_def frame_def)
    have t: "frame s1 s2" "list_all (\<lambda>r. concluded p1 p2 rule (rs_term r)
        \<and> admissible p1 p2 (growth_limit s depth) (rs_term r) \<and> rs_priority r = rr_priority rule) r1"
      using try_rule_frame [OF tried(3)] g1 by simp_all
    then have g2: "growth_limit s2 depth = growth_limit s depth" using g1 by (simp add: growth_limit_def frame_def)
    have "list_all (from_rule p1 p2 (growth_limit s depth) (rule # rules)) r1"
      using t(2) by (auto simp: from_rule_def list_all_iff)
    moreover have "list_all (from_rule p1 p2 (growth_limit s depth) (rule # rules)) r2"
      using Cons.IH [OF tried(4)] g2 more by (auto simp: list_all_iff)
    moreover have "frame s s'" using f1 t(1) Cons.IH [OF tried(4)] by (blast intro: frame_trans)
    ultimately show ?thesis using tried(5) by simp
  qed simp
qed simp

lemma sweep_sorted:
  assumes "sweep charge p1 p2 active depth rules s = Some (rs, evs, s')" "sorted_wrt before rules"
  shows "sorted_wrt (\<lambda>a b. rs_priority b \<le> rs_priority a) rs"
  using assms
proof (induction rules arbitrary: s rs evs s')
  case (Cons rule rules)
  from Cons.prems(1) show ?case
  proof (cases rule: sweep_ConsE)
    case (skip b s1)
    then show ?thesis using Cons by simp
  next
    case (tried b s1 r1 e1 s2 r2 e2)
    have "list_all (\<lambda>r. rs_priority r = rr_priority rule) r1" "length r1 \<le> 1"
      using try_rule_frame [OF tried(3)] by (auto simp: list_all_iff)
    moreover have "list_all (\<lambda>r. rs_priority r \<le> rr_priority rule) r2"
      using sweep_results [OF tried(4)] Cons.prems(2)
      by (auto simp: from_rule_def list_all_iff list_ex_iff before_def)
    moreover have "sorted_wrt (\<lambda>a b. rs_priority b \<le> rs_priority a) r2" using Cons.IH [OF tried(4)] Cons.prems(2) by simp
    ultimately show ?thesis using tried(5) by (cases r1) (auto simp: sorted_wrt_append list_all_iff)
  qed simp
qed simp

section \<open>One result per conclusion\<close>

definition best_so_far :: "ruleResult list \<Rightarrow> (string, ruleResult) omap \<Rightarrow> bool" where
  "best_so_far rs seen \<longleftrightarrow> distinct (map fst seen)
     \<and> (\<forall>k r. map_of seen k = Some r \<longrightarrow> k = termKey (rs_term r) \<and> r \<in> set rs)
     \<and> (\<forall>r \<in> set rs. \<exists>r'. map_of seen (termKey (rs_term r)) = Some r' \<and> rs_priority r \<le> rs_priority r')"

lemma keep_best_map:
  "map_of (keep_best r seen) =
     (case map_of seen (termKey (rs_term r)) of
        Some e \<Rightarrow> if rs_priority r > rs_priority e then (map_of seen)(termKey (rs_term r) \<mapsto> r) else map_of seen
      | None \<Rightarrow> (map_of seen)(termKey (rs_term r) \<mapsto> r))"
  by (simp add: keep_best_def omap_set_def update_conv' split: option.split)

lemma keep_best_step:
  assumes "best_so_far rs seen"
  shows "best_so_far (rs @ [r]) (keep_best r seen)"
proof -
  have "distinct (map fst (keep_best r seen))"
    using assms by (auto simp: best_so_far_def keep_best_def omap_set_def distinct_update split: option.split)
  moreover have "k = termKey (rs_term x) \<and> x \<in> set (rs @ [r])" if "map_of (keep_best r seen) k = Some x" for k x
    using that assms by (auto simp: best_so_far_def keep_best_map split: option.splits if_splits)
  moreover have "\<exists>y. map_of (keep_best r seen) (termKey (rs_term x)) = Some y \<and> rs_priority x \<le> rs_priority y"
    if "x \<in> set rs \<or> x = r" for x
  proof (cases "x \<in> set rs")
    case True
    then obtain y where "map_of seen (termKey (rs_term x)) = Some y" "rs_priority x \<le> rs_priority y"
      using assms by (auto simp: best_so_far_def)
    then show ?thesis by (auto simp: keep_best_map split: option.split)
  next
    case False
    then show ?thesis using that by (auto simp: keep_best_map split: option.split)
  qed
  ultimately show ?thesis unfolding best_so_far_def by auto
qed

lemma deduplicated_best: "best_so_far rs (fold keep_best rs [])"
proof (induction rs rule: rev_induct)
  case Nil
  then show ?case by (simp add: best_so_far_def)
next
  case (snoc r rs)
  then show ?case using keep_best_step by simp
qed

lemma deduplicated_props:
  "distinct (map (\<lambda>r. termKey (rs_term r)) (deduplicated rs))" "set (deduplicated rs) \<subseteq> set rs"
  "r \<in> set rs \<Longrightarrow> \<exists>r' \<in> set (deduplicated rs). termKey (rs_term r') = termKey (rs_term r) \<and> rs_priority r \<le> rs_priority r'"
proof -
  let ?m = "fold keep_best rs []"
  have b: "best_so_far rs ?m" by (rule deduplicated_best)
  then have d: "distinct (map fst ?m)" by (simp add: best_so_far_def)
  have each: "fst e = termKey (rs_term (snd e)) \<and> snd e \<in> set rs" if "e \<in> set ?m" for e
  proof -
    have "map_of ?m (fst e) = Some (snd e)" using that by (intro map_of_is_SomeI [OF d]) simp
    moreover have "\<forall>k r. map_of ?m k = Some r \<longrightarrow> k = termKey (rs_term r) \<and> r \<in> set rs"
      using b unfolding best_so_far_def by blast
    ultimately show ?thesis by blast
  qed
  have "map (\<lambda>r. termKey (rs_term r)) (deduplicated rs) = map fst ?m"
    using each by (simp add: deduplicated_def)
  then show "distinct (map (\<lambda>r. termKey (rs_term r)) (deduplicated rs))" using d by simp
  show "set (deduplicated rs) \<subseteq> set rs" using each by (auto simp: deduplicated_def)
  assume "r \<in> set rs"
  then obtain r' where r': "map_of ?m (termKey (rs_term r)) = Some r'" "rs_priority r \<le> rs_priority r'"
    using b by (auto simp: best_so_far_def)
  then have "r' \<in> set (deduplicated rs)" "termKey (rs_term r) = termKey (rs_term r')"
    using each [OF map_of_SomeD [OF r'(1)]] map_of_SomeD [OF r'(1)] by (force simp: deduplicated_def)+
  with r' show "\<exists>r' \<in> set (deduplicated rs). termKey (rs_term r') = termKey (rs_term r) \<and> rs_priority r \<le> rs_priority r'"
    by auto
qed

lemma update_new: "k \<notin> fst ` set m \<Longrightarrow> AList.update k v m = m @ [(k, v)]"
  by (induction m) auto

lemma first_is_best:
  assumes "sorted_wrt (\<lambda>a b. rs_priority b \<le> rs_priority a) rs"
    and "\<forall>r \<in> set rs. \<forall>e \<in> set m. rs_priority r \<le> rs_priority (snd e)"
  shows "map snd (fold keep_best rs m) = map snd m @ uniqueBy_loop (map fst m) (\<lambda>r. termKey (rs_term r)) rs"
  using assms
proof (induction rs arbitrary: m)
  case (Cons r rs)
  show ?case
  proof (cases "map_of m (termKey (rs_term r))")
    case None
    then have n: "termKey (rs_term r) \<notin> set (map fst m)" by (simp add: map_of_eq_None_iff)
    then have "keep_best r m = m @ [(termKey (rs_term r), r)]"
      using None by (simp add: keep_best_def omap_set_def update_new)
    moreover have "set_add (termKey (rs_term r)) (map fst m) = map fst m @ [termKey (rs_term r)]"
      using n by (simp add: set_add_def)
    ultimately show ?thesis using Cons n by simp
  next
    case (Some e)
    then have "rs_priority r \<le> rs_priority e" using Cons.prems(2) map_of_SomeD [OF Some] by force
    then have "keep_best r m = m" using Some by (simp add: keep_best_def)
    moreover have "termKey (rs_term r) \<in> set (map fst m)" using map_of_SomeD [OF Some] by force
    ultimately show ?thesis using Cons by simp
  qed
qed simp

section \<open>Processing a pair\<close>

text \<open>C11: what processing a pair yields. Each result was concluded by the body of a rule of the dispatch
  cell and carries that rule's priority; it passes validation, is neither premise, and under the
  growth limit is no deeper than the deeper premise. No two results conclude the same term.\<close>

theorem processed_results:
  assumes "processSync charge p1 p2 s = Some (rs, evs, s')"
  shows "distinct (map (\<lambda>r. termKey (rs_term r)) rs)
    \<and> list_all (\<lambda>r. validateRuleOutput (rs_term r)
         \<and> rs_term r \<noteq> in_term p1 \<and> rs_term r \<noteq> in_term p2
         \<and> (if rp_limitConclusionGrowth s
            then termDepth (rs_term r) \<le> max (termDepth (in_term p1)) (termDepth (in_term p2)) else True)
         \<and> list_ex (\<lambda>rule. rr_apply rule (in_term p1, in_term p2) (Some (p1, p2)) = Some (Inr (rs_term r))
                \<and> rr_priority rule = rs_priority r)
             (index_candidates (rp_table s) (term_kind (in_term p1)) (term_kind (in_term p2)))) rs"
proof -
  let ?rules = "index_candidates (rp_table s) (term_kind (in_term p1)) (term_kind (in_term p2))"
  let ?depth = "if rp_limitConclusionGrowth s then max (termDepth (in_term p1)) (termDepth (in_term p2)) else 0"
  from assms obtain rs0 where "sweep charge p1 p2 (metaActive s ?rules) ?depth ?rules s = Some (rs0, evs, s')"
    and rs: "rs = deduplicated rs0"
    by (auto simp: processSync_def applySyncRules_def Let_def)
  from sweep_results [OF this(1)] have all: "\<forall>r \<in> set rs0. from_rule p1 p2 (growth_limit s ?depth) ?rules r"
    by (simp add: list_all_iff)
  have "validateRuleOutput (rs_term r) \<and> rs_term r \<noteq> in_term p1 \<and> rs_term r \<noteq> in_term p2
      \<and> (if rp_limitConclusionGrowth s then termDepth (rs_term r) \<le> max (termDepth (in_term p1)) (termDepth (in_term p2)) else True)
      \<and> list_ex (\<lambda>rule. rr_apply rule (in_term p1, in_term p2) (Some (p1, p2)) = Some (Inr (rs_term r))
           \<and> rr_priority rule = rs_priority r) ?rules" if "r \<in> set rs0" for r
    using bspec [OF all that] by (auto simp: from_rule_def admissible_def concluded_def growth_limit_def list_ex_iff)
  then show ?thesis using rs deduplicated_props(1,2) [of rs0] unfolding list_all_iff by blast
qed

lemma sweep_unbudgeted: "\<exists>r. sweep unbudgeted_charge p1 p2 active depth rules s = Some r"
proof (induction rules arbitrary: s)
  case (Cons rule rules)
  have "\<exists>h s1. meta_gate unbudgeted_charge active rule s' = Some (h, s1)" for s'
    by (auto simp: meta_gate_def checkMetaBudget_def unbudgeted_charge_def)
  then obtain h s1 where m: "meta_gate unbudgeted_charge active rule (s\<lparr>rp_budgets := ()\<rparr>) = Some (h, s1)" by blast
  obtain r1 e1 s2 where t: "try_rule p1 p2 depth rule s1 = (r1, e1, s2)" by (cases "try_rule p1 p2 depth rule s1")
  have "unbudgeted_charge (rp_budgets s) sc 1 = Some (True, ())" for sc by (simp add: unbudgeted_charge_def)
  then show ?case using m t Cons.IH [of s1] Cons.IH [of s2] by (cases h) auto
qed simp

definition example_input :: "narTerm \<Rightarrow> ruleInput" where
  "example_input t = \<lparr>in_term = t, in_truth = TRUE_TRUTH,
     in_stamp = \<lparr>stampId = ''1'', creationTime = 0, source = INPUT, derivations = []\<rparr>, in_occurrenceTime = 0\<rparr>"

definition example_processor :: "'b \<Rightarrow> 'b ruleProcessor" where
  "example_processor b = \<lparr>rp_table = rt_dispatch (builtinStore plain), rp_limitConclusionGrowth = True,
     rp_currentDepth = 0, rp_maxDepth = MAX_META_DERIVATION_DEPTH, rp_drives = None, rp_budgets = b,
     rp_stamps = 0, rp_now = 0, rp_thread = 0\<rparr>"

lemma processed_results_witness:
  "\<exists>rs evs s'. processSync unbudgeted_charge (example_input (two Inheritance ''a'' ''b''))
      (example_input (two Inheritance ''b'' ''c'')) (example_processor ()) = Some (rs, evs, s')
    \<and> distinct (map (\<lambda>r. termKey (rs_term r)) rs) \<and> list_all (\<lambda>r. validateRuleOutput (rs_term r)) rs"
proof -
  let ?p1 = "example_input (two Inheritance ''a'' ''b'')" and ?p2 = "example_input (two Inheritance ''b'' ''c'')"
  obtain rs evs s' where p: "processSync unbudgeted_charge ?p1 ?p2 (example_processor ()) = Some (rs, evs, s')"
    using sweep_unbudgeted unfolding processSync_def applySyncRules_def Let_def by (metis option.simps(9) prod_cases3)
  from processed_results [OF p] show ?thesis using p by (auto simp: list_all_iff)
qed

text \<open>the first result wins. Candidates are dispatched by descending priority, so of several results
  for one conclusion the first is the one with the highest priority: the deduplication of a pair's
  results is the plain removal of later duplicates, whatever rules the table registers.\<close>

theorem first_result_wins:
  assumes "rp_table s = build_index rules" "applySyncRules charge p1 p2 s = Some (rs, evs, s')"
  shows "processSync charge p1 p2 s = Some (uniqueBy rs (\<lambda>r. termKey (rs_term r)), evs, s')"
proof -
  let ?cands = "index_candidates (build_index rules) (term_kind (in_term p1)) (term_kind (in_term p2))"
  have "sorted_wrt before ?cands"
    unfolding candidates_build_index by (rule sorted_js_sort [of before, OF before_total before_trans])
  then have "sorted_wrt (\<lambda>a b. rs_priority b \<le> rs_priority a) rs"
    using assms sweep_sorted by (auto simp: applySyncRules_def Let_def)
  then have "deduplicated rs = uniqueBy rs (\<lambda>r. termKey (rs_term r))"
    using first_is_best [of rs "[]"] by (simp add: deduplicated_def uniqueBy_def)
  then show ?thesis using assms(2) by (simp add: processSync_def)
qed

lemma first_result_wins_witness:
  "\<exists>rs evs s'. applySyncRules unbudgeted_charge (example_input (two Inheritance ''a'' ''b''))
      (example_input (two Inheritance ''b'' ''c'')) (example_processor ()) = Some (rs, evs, s')
    \<and> processSync unbudgeted_charge (example_input (two Inheritance ''a'' ''b''))
      (example_input (two Inheritance ''b'' ''c'')) (example_processor ())
      = Some (uniqueBy rs (\<lambda>r. termKey (rs_term r)), evs, s')"
proof -
  let ?p1 = "example_input (two Inheritance ''a'' ''b'')" and ?p2 = "example_input (two Inheritance ''b'' ''c'')"
  obtain rs evs s' where p: "applySyncRules unbudgeted_charge ?p1 ?p2 (example_processor ()) = Some (rs, evs, s')"
    using sweep_unbudgeted unfolding applySyncRules_def Let_def by (metis prod_cases3)
  have "\<exists>rules. rp_table (example_processor ()) = build_index rules"
    by (auto simp: example_processor_def builtinStore_def)
  then show ?thesis using first_result_wins p by blast
qed

section \<open>The shipped table\<close>

lemma sweep_failures:
  assumes "sweep charge p1 p2 active depth rules s = Some (rs, evs, s')" "RuleFailed i e \<in> set evs"
  shows "\<exists>rule \<in> set rules. rr_apply rule (in_term p1, in_term p2) (Some (p1, p2)) = Some (Inl e)"
  using assms
proof (induction rules arbitrary: s rs evs s')
  case (Cons rule rules)
  from Cons.prems(1) show ?case
  proof (cases rule: sweep_ConsE)
    case (tried b s1 r1 e1 s2 r2 e2)
    have "rr_apply rule (in_term p1, in_term p2) (Some (p1, p2)) = Some (Inl e)" if "RuleFailed i e \<in> set e1"
      using tried(3) that by (cases rule: try_rule_cases) auto
    then show ?thesis using Cons.IH [OF tried(4)] Cons.prems(2) tried(6) by auto
  qed (use Cons in auto)
qed simp

lemma shipped_bodies:
  assumes "rule \<in> set (index_candidates (rt_dispatch (builtinStore c)) (term_kind t1) (term_kind t2))"
  shows "\<exists>name. (name, rr_apply rule) \<in> set (RULE_BODIES c)"
proof -
  from candidate_declared [OF assms term_kind_no_colon] obtain d where
    "d \<in> set BUILTIN_DECLARATIONS" "rule = registered (map_of (RULE_BODIES c)) (map_of TRUTH_FNS) d" by blast
  moreover from this obtain f where "map_of (RULE_BODIES c) (d_body d) = Some f" using builtin_resolves(3) by blast
  ultimately show ?thesis using map_of_SomeD [of "RULE_BODIES c" "d_body d" f] by auto
qed

text \<open>C10: derivation keeps terms canonical. With the shipped table, a pair of canonical premises is processed
  without a rule failing, and every result is a canonical term again, so results can be premises.\<close>

theorem derivation_keeps_canonical:
  assumes "collation_ok c" "loadBuiltinTable c = Inr st" "rp_table s = rt_dispatch st"
    and "normal c (in_term p1)" "normal c (in_term p2)"
    and "processSync charge p1 p2 s = Some (rs, evs, s')"
  shows "list_all (\<lambda>r. canonicalTerm c (rs_term r) = Inr (rs_term r)) rs
    \<and> list_all (\<lambda>e. case e of RuleFailed _ _ \<Rightarrow> False | _ \<Rightarrow> True) evs"
proof -
  have st: "st = builtinStore c" using assms(2) by (simp add: loadBuiltinTable_store)
  let ?rules = "index_candidates (rp_table s) (term_kind (in_term p1)) (term_kind (in_term p2))"
  have fine: "fine c (rr_apply rule (in_term p1, in_term p2) i)" if "rule \<in> set ?rules" for rule i
    using shipped_bodies [of rule c "in_term p1" "in_term p2"] that assms(3-5) st rule_bodies_well [OF assms(1)]
    by (auto simp: list_all_iff well_def)
  obtain rs0 depth where sw: "sweep charge p1 p2 (metaActive s ?rules) depth ?rules s = Some (rs0, evs, s')"
    and rs: "rs = deduplicated rs0"
    using assms(6) by (auto simp: processSync_def applySyncRules_def Let_def)
  have "normal c (rs_term r)" if r: "r \<in> set rs0" for r
  proof -
    obtain rule where "rule \<in> set ?rules" "concluded p1 p2 rule (rs_term r)"
      using sweep_results [OF sw] r by (auto simp: list_all_iff from_rule_def list_ex_iff)
    then show ?thesis using fine [of rule "Some (p1, p2)"] by (simp add: concluded_def)
  qed
  then have "list_all (\<lambda>r. canonicalTerm c (rs_term r) = Inr (rs_term r)) rs"
    using rs deduplicated_props(2) [of rs0] canonical_normal by (auto simp: list_all_iff)
  moreover have "RuleFailed i e \<notin> set evs" for i e
  proof
    assume "RuleFailed i e \<in> set evs"
    then obtain rule where "rule \<in> set ?rules" "rr_apply rule (in_term p1, in_term p2) (Some (p1, p2)) = Some (Inl e)"
      using sweep_failures [OF sw] by blast
    then show False using fine [of rule "Some (p1, p2)"] by simp
  qed
  ultimately show ?thesis by (auto simp: list_all_iff split: ruleEvent.split)
qed

lemma derivation_keeps_canonical_witness:
  "\<exists>rs evs s'. processSync unbudgeted_charge (example_input (two Inheritance ''a'' ''b''))
      (example_input (two Inheritance ''b'' ''c'')) (example_processor ()) = Some (rs, evs, s')
    \<and> list_all (\<lambda>r. canonicalTerm plain (rs_term r) = Inr (rs_term r)) rs"
proof -
  let ?p1 = "example_input (two Inheritance ''a'' ''b'')" and ?p2 = "example_input (two Inheritance ''b'' ''c'')"
  obtain rs evs s' where p: "processSync unbudgeted_charge ?p1 ?p2 (example_processor ()) = Some (rs, evs, s')"
    using sweep_unbudgeted unfolding processSync_def applySyncRules_def Let_def by (metis option.simps(9) prod_cases3)
  have "list_all (\<lambda>r. canonicalTerm plain (rs_term r) = Inr (rs_term r)) rs"
    using derivation_keeps_canonical [OF trivial_collation loadBuiltinTable_store _ _ _ p]
    by (simp add: example_processor_def example_input_def two_def rawCompound_def compound_plan_def
        ordered_args_def stable_iff DEDUPED_iff)
  then show ?thesis using p by blast
qed

end
