(* ===== verification/Inference.thy ===== *)
theory Inference
  imports Processor Randomness Claims Bounded_Map
begin

text \<open>
  The inference cycle: \<open>nar/src/reason/inference-controller.ts\<close> with
  \<open>inference-utils.ts\<close>, the derivation strategies of \<open>strategies/derivation\<close>
  and the task constructors of \<open>types/core.ts\<close>. The memory, the sampling of concepts, their
  priming and the choice of secondary premises are arguments (their interfaces in the code are ports);
  the abort signal and the deadline are one oracle, asked in the order the code asks it. A generator
  runs only as far as its consumer reads: the loops below stop where the controller stops reading.
  Not modelled: the staging of model-backed work, the derivation sink, the pause between derivations,
  and the text of a conclusion key (the key is the tuple it prints). \<open>None\<close> is a throw.
\<close>

section \<open>Tasks\<close>

datatype taskType = BeliefType | GoalType | QuestionType | CommandType

record taskWeight =
  w_priority :: real
  w_durability :: real
  w_quality :: real
  w_cycles :: real
  w_depth :: real

record taskFields =
  tk_type :: taskType
  tk_budget :: taskWeight
  tk_stamp :: stamp
  tk_occurrenceTime :: real
  tk_derived :: bool

type_synonym narTask = "taskFields task"

definition createTaskWeight :: "real \<Rightarrow> taskWeight" where
  "createTaskWeight priority =
     \<lparr>w_priority = priority, w_durability = 8 / 10, w_quality = 9 / 10, w_cycles = 0, w_depth = 0\<rparr>"

definition createTask ::
  "collation \<Rightarrow> narTerm \<Rightarrow> taskType \<Rightarrow> truth \<Rightarrow> taskWeight \<Rightarrow> stamp \<Rightarrow> real \<Rightarrow> bool \<Rightarrow> termError + narTask" where
  "createTask collate t typ tr budget st occurrence derived =
     canonicalTask collate \<lparr>task_term = t, task_truth = tr,
       carried = \<lparr>tk_type = typ, tk_budget = budget, tk_stamp = st, tk_occurrenceTime = occurrence, tk_derived = derived\<rparr>\<rparr>"

definition exceedsDepthLimit :: "narTask \<Rightarrow> nat \<Rightarrow> bool" where
  "exceedsDepthLimit k limit = (length (derivations (tk_stamp (carried k))) \<ge> limit)"

definition toRuleInput :: "narTask \<Rightarrow> ruleInput" where
  "toRuleInput k = \<lparr>in_term = task_term k, in_truth = task_truth k, in_stamp = tk_stamp (carried k),
     in_occurrenceTime = tk_occurrenceTime (carried k)\<rparr>"

text \<open>\<open>createDerivedTask(result)\<close>: the type defaults to a belief and the occurrence to now.\<close>

definition createDerivedTask :: "collation \<Rightarrow> real \<Rightarrow> ruleResult \<Rightarrow> taskType \<Rightarrow> termError + narTask" where
  "createDerivedTask collate now r typ =
     createTask collate (rs_term r) typ (rs_truth r) (createTaskWeight (rs_priority r)) (rs_stamp r) now True"

section \<open>Circular conclusions\<close>

type_synonym conclusionKey = "string \<times> string \<times> real \<times> real"

definition conclusionKey :: "narTask \<Rightarrow> conclusionKey" where
  "conclusionKey k = (stampId (tk_stamp (carried k)), termKey (task_term k), tf (task_truth k), tc (task_truth k))"

type_synonym circularDetector = "(conclusionKey, unit) boundedMap"

definition MAX_RECENT_CONCLUSIONS :: int where "MAX_RECENT_CONCLUSIONS = 1000"

definition createCircularDetector :: circularDetector where
  "createCircularDetector = newBoundedMap MAX_RECENT_CONCLUSIONS None Fifo None"

definition detect :: "circularDetector \<Rightarrow> narTask \<Rightarrow> bool \<times> circularDetector" where
  "detect recent k =
     (case bm_has 0 recent (conclusionKey k) of
        (True, r) \<Rightarrow> (True, r)
      | (False, r) \<Rightarrow> (False, bm_set 0 0 r (conclusionKey k) ()))"

section \<open>Derivation strategies\<close>

text \<open>A strategy orders, and may thin out, the secondary premises; the pairs are then processed in that
  order. \<open>AnytimeDerivation\<close> asks the signal once more and is otherwise the default.\<close>

type_synonym 'r arrangement = "narTask \<Rightarrow> narTask list \<Rightarrow> 'r \<Rightarrow> narTask list \<times> 'r"

definition DefaultDerivation :: "'r arrangement" where
  "DefaultDerivation primary secondaries r = (secondaries, r)"

definition sharedAtomScore :: "narTask \<Rightarrow> narTask \<Rightarrow> real" where
  "sharedAtomScore a b = (if sharesSymbol (task_term a) (task_term b) then 1 else 0)"

definition FocusedDerivation :: "'r arrangement" where
  "FocusedDerivation primary secondaries r =
     (rankBy secondaries (\<lambda>k. w_priority (tk_budget (carried k)) + sharedAtomScore primary k) (\<lambda>_ _. True) None None, r)"

definition SampledDerivation :: "'r source \<Rightarrow> real \<Rightarrow> 'r arrangement" where
  "SampledDerivation rng fraction primary secondaries r =
     (case shuffleInPlace rng secondaries r of
        (pool, r') \<Rightarrow> (shareOf pool fraction 1 (real (length pool)), r'))"

section \<open>The cycle\<close>

record inferenceConfig =
  cf_maxDerivationsPerStep :: int
  cf_maxDerivationDepth :: nat
  cf_enableCircularDetection :: bool
  cf_maxSampledConcepts :: int

record ('b, 'm, 'c, 'r) inferencePorts =
  ip_collate :: collation
  ip_charge :: "'b charge"
  ip_budgeted :: bool
  ip_halts :: "nat \<Rightarrow> bool"
  ip_now :: real
  ip_sample :: "'m \<Rightarrow> int \<Rightarrow> 'c list"
  ip_prime :: "'c \<Rightarrow> 'm \<Rightarrow> 'm"
  ip_beliefTask :: "'m \<Rightarrow> 'c \<Rightarrow> narTask option"
  ip_selectSecondary :: "narTask \<Rightarrow> 'm \<Rightarrow> narTask list"
  ip_arrange :: "'r arrangement"

record ('b, 'm, 'r) controller =
  ic_config :: inferenceConfig
  ic_processor :: "'b ruleProcessor"
  ic_memory :: 'm
  ic_rng :: 'r
  ic_circular :: circularDetector
  ic_derivationCount :: nat
  ic_emitted :: nat
  ic_asked :: nat

definition ask :: "('b, 'm, 'c, 'r) inferencePorts \<Rightarrow> ('b, 'm, 'r) controller \<Rightarrow> bool \<times> ('b, 'm, 'r) controller" where
  "ask e s = (ip_halts e (ic_asked s), s\<lparr>ic_asked := ic_asked s + 1\<rparr>)"

definition charge_scope ::
  "('b, 'm, 'c, 'r) inferencePorts \<Rightarrow> string \<Rightarrow> ('b, 'm, 'r) controller \<Rightarrow> (bool \<times> ('b, 'm, 'r) controller) option" where
  "charge_scope e scope s =
     map_option (\<lambda>(granted, b). (granted, s\<lparr>ic_processor := (ic_processor s)\<lparr>rp_budgets := b\<rparr>\<rparr>))
       (ip_charge e (rp_budgets (ic_processor s)) scope 1)"

definition isCircular :: "narTask \<Rightarrow> ('b, 'm, 'r) controller \<Rightarrow> bool \<times> ('b, 'm, 'r) controller" where
  "isCircular k s =
     (if \<not> cf_enableCircularDetection (ic_config s) then (False, s)
      else case detect (ic_circular s) k of (c, r) \<Rightarrow> (c, s\<lparr>ic_circular := r\<rparr>))"

definition derivationBudgetSpent ::
  "('b, 'm, 'c, 'r) inferencePorts \<Rightarrow> ('b, 'm, 'r) controller \<Rightarrow> (bool \<times> ('b, 'm, 'r) controller) option" where
  "derivationBudgetSpent e s =
     (if ip_budgeted e then map_option (\<lambda>(granted, s'). (\<not> granted, s')) (charge_scope e ''derivations'' s)
      else Some (int (ic_derivationCount s) \<ge> cf_maxDerivationsPerStep (ic_config s), s))"

text \<open>The body of the inner loop for one derived task: what it yields, and whether the cycle returns.\<close>

definition admit_derived ::
  "('b, 'm, 'c, 'r) inferencePorts \<Rightarrow> int \<Rightarrow> narTask \<Rightarrow> ('b, 'm, 'r) controller
    \<Rightarrow> (narTask list \<times> bool \<times> ('b, 'm, 'r) controller) option" where
  "admit_derived e maxResults derived s =
     (case ask e s of
        (True, s1) \<Rightarrow> Some ([], True, s1)
      | (False, s1) \<Rightarrow>
          if exceedsDepthLimit derived (cf_maxDerivationDepth (ic_config s1)) then Some ([], False, s1)
          else case isCircular derived s1 of
                 (True, s2) \<Rightarrow> Some ([], False, s2)
               | (False, s2) \<Rightarrow>
                   let s3 = s2\<lparr>ic_derivationCount := ic_derivationCount s2 + 1, ic_emitted := ic_emitted s2 + 1\<rparr>
                   in if int (ic_emitted s3) \<ge> maxResults then Some ([derived], True, s3)
                      else map_option (\<lambda>(spent, s4). ([derived], spent, s4)) (derivationBudgetSpent e s3))"

fun read_results ::
  "('b, 'm, 'c, 'r) inferencePorts \<Rightarrow> int \<Rightarrow> ruleResult list \<Rightarrow> ('b, 'm, 'r) controller
    \<Rightarrow> (narTask list \<times> bool \<times> ('b, 'm, 'r) controller) option" where
  "read_results e maxResults [] s = Some ([], False, s)"
| "read_results e maxResults (r # rs) s =
     (case createDerivedTask (ip_collate e) (ip_now e) r BeliefType of
        Inl _ \<Rightarrow> None
      | Inr derived \<Rightarrow>
          (case admit_derived e maxResults derived s of
             None \<Rightarrow> None
           | Some (out, True, s1) \<Rightarrow> Some (out, True, s1)
           | Some (out, False, s1) \<Rightarrow>
               map_option (\<lambda>(more, stop, s2). (out @ more, stop, s2)) (read_results e maxResults rs s1)))"

fun derive_pairs ::
  "('b, 'm, 'c, 'r) inferencePorts \<Rightarrow> int \<Rightarrow> ruleInput \<Rightarrow> narTask list \<Rightarrow> ('b, 'm, 'r) controller
    \<Rightarrow> (narTask list \<times> bool \<times> ('b, 'm, 'r) controller) option" where
  "derive_pairs e maxResults p1 [] s = Some ([], False, s)"
| "derive_pairs e maxResults p1 (secondary # rest) s =
     (case ask e s of
        (True, s1) \<Rightarrow> Some ([], False, s1)
      | (False, s1) \<Rightarrow>
          (case processSync (ip_charge e) p1 (toRuleInput secondary) (ic_processor s1) of
             None \<Rightarrow> None
           | Some (results, evs, pr) \<Rightarrow>
               (case read_results e maxResults results (s1\<lparr>ic_processor := pr\<rparr>) of
                  None \<Rightarrow> None
                | Some (out, True, s2) \<Rightarrow> Some (out, True, s2)
                | Some (out, False, s2) \<Rightarrow>
                    map_option (\<lambda>(more, stop, s3). (out @ more, stop, s3)) (derive_pairs e maxResults p1 rest s2))))"

fun cycle_concepts ::
  "('b, 'm, 'c, 'r) inferencePorts \<Rightarrow> int \<Rightarrow> 'c list \<Rightarrow> ('b, 'm, 'r) controller
    \<Rightarrow> (narTask list \<times> ('b, 'm, 'r) controller) option" where
  "cycle_concepts e maxResults [] s = Some ([], s)"
| "cycle_concepts e maxResults (concept # concepts) s =
     (case ask e s of
        (halt, s1) \<Rightarrow>
          if halt \<or> int (ic_emitted s1) \<ge> maxResults then Some ([], s1)
          else let s2 = s1\<lparr>ic_memory := ip_prime e concept (ic_memory s1)\<rparr>
               in (case ip_beliefTask e (ic_memory s2) concept of
                     None \<Rightarrow> cycle_concepts e maxResults concepts s2
                   | Some task \<Rightarrow>
                       (case charge_scope e ''premises'' s2 of
                          None \<Rightarrow> None
                        | Some (False, s3) \<Rightarrow> Some ([], s3)
                        | Some (True, s3) \<Rightarrow>
                            let (secondaries, r) = ip_arrange e task (ip_selectSecondary e task (ic_memory s3)) (ic_rng s3)
                            in (case derive_pairs e maxResults (toRuleInput task) secondaries (s3\<lparr>ic_rng := r\<rparr>) of
                                  None \<Rightarrow> None
                                | Some (out, True, s4) \<Rightarrow> Some (out, s4)
                                | Some (out, False, s4) \<Rightarrow>
                                    map_option (\<lambda>(more, s5). (out @ more, s5)) (cycle_concepts e maxResults concepts s4)))))"

definition inference_cycle ::
  "('b, 'm, 'c, 'r) inferencePorts \<Rightarrow> int \<Rightarrow> ('b, 'm, 'r) controller
    \<Rightarrow> (narTask list \<times> ('b, 'm, 'r) controller) option" where
  "inference_cycle e maxResults s =
     (let s' = s\<lparr>ic_derivationCount := 0, ic_emitted := 0\<rparr>
      in cycle_concepts e maxResults (ip_sample e (ic_memory s') (cf_maxSampledConcepts (ic_config s'))) s')"

definition resetCircularDetection :: "('b, 'm, 'r) controller \<Rightarrow> ('b, 'm, 'r) controller" where
  "resetCircularDetection s = s\<lparr>ic_circular := bm_clear (ic_circular s)\<rparr>"

section \<open>What the loops keep\<close>

text \<open>A count below its limit stays at or below it, and strictly below it unless the cycle returns.\<close>

definition kept_below :: "int \<Rightarrow> nat \<Rightarrow> nat \<Rightarrow> bool \<Rightarrow> bool" where
  "kept_below limit n n' stop \<longleftrightarrow> (int n < limit \<longrightarrow> int n' \<le> limit \<and> (stop \<or> int n' < limit))"

definition admitted_task :: "inferenceConfig \<Rightarrow> narTask \<Rightarrow> bool" where
  "admitted_task cf k \<longleftrightarrow> tk_type (carried k) = BeliefType \<and> tk_derived (carried k)
     \<and> \<not> exceedsDepthLimit k (cf_maxDerivationDepth cf)"

text \<open>What the detector holds after it let a list of tasks pass, \<open>None\<close> when it stopped one.\<close>

fun pass_detector :: "circularDetector \<Rightarrow> narTask list \<Rightarrow> circularDetector option" where
  "pass_detector d [] = Some d"
| "pass_detector d (k # ks) = (case detect d k of (True, _) \<Rightarrow> None | (False, d') \<Rightarrow> pass_detector d' ks)"

lemma pass_detector_append:
  "pass_detector d (xs @ ys) = Option.bind (pass_detector d xs) (\<lambda>d'. pass_detector d' ys)"
  by (induction xs arbitrary: d) (auto split: bool.splits prod.splits)

definition detector_ok :: "circularDetector \<Rightarrow> bool" where
  "detector_ok d \<longleftrightarrow> bm_inv d \<and> bm_maxSize d = MAX_RECENT_CONCLUSIONS \<and> bm_ttlMs d = None \<and> bm_order d = Fifo"

lemma createCircularDetector_ok: "detector_ok createCircularDetector"
  by (simp add: detector_ok_def createCircularDetector_def newBoundedMap_def bm_inv_def bm_size_def
      MAX_RECENT_CONCLUSIONS_def)

lemma detect_cases:
  assumes "detector_ok d"
  shows "detect d k = (if conclusionKey k \<in> set (okeys (bm_entries d)) then (True, d)
     else (False, bm_set 0 0 d (conclusionKey k) ()))"
proof -
  have "bm_live 0 d (conclusionKey k) = (map_of (bm_entries d) (conclusionKey k), d)"
    using assms by (auto simp: bm_live_def bm_expired_def detector_ok_def split: option.split)
  moreover have "(map_of (bm_entries d) (conclusionKey k) \<noteq> None) = (conclusionKey k \<in> set (okeys (bm_entries d)))"
    by (simp add: map_of_None_iff)
  ultimately show ?thesis by (auto simp: detect_def bm_has_def split: option.split)
qed

lemma detect_ok: "detector_ok d \<Longrightarrow> detect d k = (c, d') \<Longrightarrow> detector_ok d'"
  by (auto simp: detect_cases detector_ok_def frame_simps split: if_splits intro!: bm_set_inv)

definition carries_on ::
  "('b, 'm, 'c, 'r) inferencePorts \<Rightarrow> int \<Rightarrow> ('b, 'm, 'r) controller \<Rightarrow> narTask list \<Rightarrow> bool \<Rightarrow> ('b, 'm, 'r) controller \<Rightarrow> bool" where
  "carries_on e maxResults s out stop s' \<longleftrightarrow> ic_config s' = ic_config s
     \<and> ic_emitted s' = ic_emitted s + length out \<and> ic_derivationCount s' = ic_derivationCount s + length out
     \<and> list_all (admitted_task (ic_config s)) out
     \<and> kept_below maxResults (ic_emitted s) (ic_emitted s') stop
     \<and> (\<not> ip_budgeted e \<longrightarrow>
          kept_below (max 1 (cf_maxDerivationsPerStep (ic_config s))) (ic_derivationCount s) (ic_derivationCount s') stop)
     \<and> (detector_ok (ic_circular s) \<longrightarrow> cf_enableCircularDetection (ic_config s) \<longrightarrow>
          pass_detector (ic_circular s) out = Some (ic_circular s'))"

lemma kept_below_trans:
  "kept_below n a b False \<Longrightarrow> kept_below n b c stop \<Longrightarrow> kept_below n a c stop"
  by (auto simp: kept_below_def)

lemma kept_below_stop: "kept_below n a b stop \<Longrightarrow> kept_below n a b True"
  by (auto simp: kept_below_def)

lemma pass_detector_ok: "pass_detector d ks = Some d' \<Longrightarrow> detector_ok d \<Longrightarrow> detector_ok d'"
  by (induction ks arbitrary: d) (auto split: bool.splits prod.splits dest: detect_ok)

lemma carries_on_trans:
  assumes 1: "carries_on e m s xs False s1" and 2: "carries_on e m s1 ys stop s2"
  shows "carries_on e m s (xs @ ys) stop s2"
proof -
  have "pass_detector (ic_circular s) (xs @ ys) = Some (ic_circular s2)"
    if "detector_ok (ic_circular s)" "cf_enableCircularDetection (ic_config s)"
  proof -
    have p: "pass_detector (ic_circular s) xs = Some (ic_circular s1)" using 1 that by (simp add: carries_on_def)
    then have "detector_ok (ic_circular s1)" using that(1) by (rule pass_detector_ok)
    then have "pass_detector (ic_circular s1) ys = Some (ic_circular s2)"
      using 1 2 that(2) by (simp add: carries_on_def)
    with p show ?thesis by (simp add: pass_detector_append)
  qed
  then show ?thesis using 1 2 unfolding carries_on_def by (auto intro: kept_below_trans)
qed

lemma carries_on_stop: "carries_on e m s xs stop s' \<Longrightarrow> carries_on e m s xs True s'"
  by (auto simp: carries_on_def intro: kept_below_stop)

text \<open>A step that touches none of what the bounds speak of.\<close>

definition aside :: "('b, 'm, 'r) controller \<Rightarrow> ('b, 'm, 'r) controller \<Rightarrow> bool" where
  "aside s s' \<longleftrightarrow> ic_config s' = ic_config s \<and> ic_emitted s' = ic_emitted s
     \<and> ic_derivationCount s' = ic_derivationCount s \<and> ic_circular s' = ic_circular s"

lemma carries_on_aside: "aside s s' \<Longrightarrow> carries_on e m s [] stop s'"
  by (auto simp: aside_def carries_on_def kept_below_def)

lemma aside_refl: "aside s s"
  by (simp add: aside_def)

lemma aside_cong:
  "aside s1 s2 \<Longrightarrow> carries_on e m s2 xs stop s3 \<Longrightarrow> carries_on e m s1 xs stop s3"
  by (auto simp: aside_def carries_on_def)

lemma aside_updates [simp]:
  "aside s (s\<lparr>ic_asked := n\<rparr>)" "aside s (s\<lparr>ic_memory := mem\<rparr>)" "aside s (s\<lparr>ic_processor := pr\<rparr>)" "aside s (s\<lparr>ic_rng := r\<rparr>)"
  by (simp_all add: aside_def)

lemma ask_aside: "ask e s = (h, s') \<Longrightarrow> aside s s'"
  by (auto simp: ask_def)

lemma charge_scope_aside: "charge_scope e sc s = Some (g, s') \<Longrightarrow> aside s s'"
  by (auto simp: charge_scope_def)

lemma settle_keeps_carried: "settle_task collate n k = Inr k' \<Longrightarrow> carried k' = carried k"
proof (induction n arbitrary: k)
  case (Suc n)
  show ?case
  proof (cases "task_applies negationIntoTruth k")
    case False
    then show ?thesis using Suc.prems settle_unapplied [of k collate n] by auto
  next
    case True
    obtain k1 where k1: "reduce_task negationIntoTruth k = Inr k1"
      using Suc.prems True by (auto simp: TASK_REDUCERS_def settle_task.simps split: sum.splits)
    then have "carried k1 = carried k" by (auto simp: negationIntoTruth_def split: list.splits)
    moreover obtain t where "settle_task collate n (k1\<lparr>task_term := t\<rparr>) = Inr k'"
      using Suc.prems True k1 by (auto simp: TASK_REDUCERS_def settle_task.simps split: sum.splits)
    ultimately show ?thesis using Suc.IH by fastforce
  qed
qed (simp add: settle_task.simps)

lemma createDerivedTask_fields:
  assumes "createDerivedTask c now r typ = Inr k"
  shows "tk_type (carried k) = typ" "tk_derived (carried k)" "tk_stamp (carried k) = rs_stamp r"
  using settle_keeps_carried [OF assms [unfolded createDerivedTask_def createTask_def canonicalTask_def]] by simp_all

lemma admit_carries_on:
  assumes a: "admit_derived e m k s = Some (out, stop, s')" and k: "tk_type (carried k) = BeliefType" "tk_derived (carried k)"
  shows "carries_on e m s out stop s'"
proof -
  obtain h s1 where s1: "ask e s = (h, s1)" by (cases "ask e s")
  have as: "aside s s1" using s1 by (rule ask_aside)
  show ?thesis
  proof (cases "h \<or> exceedsDepthLimit k (cf_maxDerivationDepth (ic_config s1))")
    case True
    then have "out = [] \<and> s' = s1" using a s1 by (auto simp: admit_derived_def split: if_splits bool.splits)
    then show ?thesis using as by (auto intro: carries_on_aside)
  next
    case False
    obtain c s2 where s2: "isCircular k s1 = (c, s2)" by (cases "isCircular k s1")
    have cfg: "ic_config s2 = ic_config s" "ic_emitted s2 = ic_emitted s" "ic_derivationCount s2 = ic_derivationCount s"
      using as s2 by (auto simp: isCircular_def aside_def split: if_splits prod.splits)
    have det: "if c then ic_circular s2 = ic_circular s else pass_detector (ic_circular s) [k] = Some (ic_circular s2)"
      if "detector_ok (ic_circular s)" "cf_enableCircularDetection (ic_config s)"
      using as s2 that by (auto simp: isCircular_def aside_def detect_cases split: if_splits)
    show ?thesis
    proof (cases c)
      case True
      then have "out = [] \<and> s' = s2" using a s1 s2 False by (auto simp: admit_derived_def)
      then show ?thesis using cfg det True by (auto simp: carries_on_def kept_below_def)
    next
      case c: False
      define s3 where "s3 = s2\<lparr>ic_derivationCount := ic_derivationCount s2 + 1, ic_emitted := ic_emitted s2 + 1\<rparr>"
      have ok: "admitted_task (ic_config s) k"
        using False k as by (auto simp: admitted_task_def aside_def)
      have "admit_derived e m k s = (if int (ic_emitted s3) \<ge> m then Some ([k], True, s3)
          else map_option (\<lambda>(spent, s4). ([k], spent, s4)) (derivationBudgetSpent e s3))"
        using s1 s2 False c by (simp add: admit_derived_def Let_def s3_def)
      then have "out = [k] \<and> aside s3 s' \<and> (int (ic_emitted s3) \<ge> m \<longrightarrow> stop)
        \<and> (int (ic_emitted s3) < m \<longrightarrow> \<not> ip_budgeted e \<longrightarrow> stop = (int (ic_derivationCount s3) \<ge> cf_maxDerivationsPerStep (ic_config s3)))"
        using a by (cases "charge_scope e ''derivations'' s3")
          (auto simp: derivationBudgetSpent_def aside_refl dest: charge_scope_aside split: if_splits)
      then show ?thesis
        using cfg det c ok unfolding carries_on_def s3_def by (auto simp: aside_def kept_below_def)
    qed
  qed
qed

lemma read_carries_on:
  "read_results e m rs s = Some (out, stop, s') \<Longrightarrow> carries_on e m s out stop s'"
proof (induction rs arbitrary: s out)
  case Nil
  then show ?case by (auto intro: carries_on_aside simp: aside_def)
next
  case (Cons r rs)
  then obtain k where k: "createDerivedTask (ip_collate e) (ip_now e) r BeliefType = Inr k" by (auto split: sum.splits)
  then obtain o1 st1 s1 where a: "admit_derived e m k s = Some (o1, st1, s1)"
    using Cons.prems by (auto split: option.splits)
  then have c1: "carries_on e m s o1 st1 s1" using createDerivedTask_fields [OF k] by (intro admit_carries_on)
  show ?case
  proof (cases st1)
    case True
    then show ?thesis using c1 Cons.prems k a by auto
  next
    case False
    then obtain o2 where "read_results e m rs s1 = Some (o2, stop, s')" "out = o1 @ o2"
      using Cons.prems k a by auto
    then show ?thesis using c1 False Cons.IH by (auto intro: carries_on_trans)
  qed
qed

lemma pairs_carry_on:
  "derive_pairs e m p1 ks s = Some (out, stop, s') \<Longrightarrow> carries_on e m s out stop s'"
proof (induction ks arbitrary: s out)
  case Nil
  then show ?case by (auto intro: carries_on_aside simp: aside_def)
next
  case (Cons k ks)
  obtain h s1 where s1: "ask e s = (h, s1)" by (cases "ask e s")
  then have as: "aside s s1" by (rule ask_aside)
  show ?case
  proof (cases h)
    case True
    then show ?thesis using as s1 Cons.prems by (auto intro: carries_on_aside)
  next
    case False
    then obtain results evs pr where p: "processSync (ip_charge e) p1 (toRuleInput k) (ic_processor s1) = Some (results, evs, pr)"
      using s1 Cons.prems by (auto split: option.splits)
    then obtain o1 st1 s2 where r: "read_results e m results (s1\<lparr>ic_processor := pr\<rparr>) = Some (o1, st1, s2)"
      using s1 False Cons.prems by (auto split: option.splits)
    have c1: "carries_on e m s o1 st1 s2"
      using aside_cong [OF as aside_cong [OF aside_updates(3) read_carries_on [OF r]]] .
    show ?thesis
    proof (cases st1)
      case True
      then show ?thesis using c1 Cons.prems s1 False p r by auto
    next
      case st1: False
      then obtain o2 where "derive_pairs e m p1 ks s2 = Some (o2, stop, s')" "out = o1 @ o2"
        using Cons.prems s1 False p r by auto
      then show ?thesis using c1 st1 Cons.IH by (auto intro: carries_on_trans)
    qed
  qed
qed

lemma concepts_carry_on:
  "cycle_concepts e m cs s = Some (out, s') \<Longrightarrow> carries_on e m s out True s'"
proof (induction cs arbitrary: s out)
  case Nil
  then show ?case by (auto intro: carries_on_aside simp: aside_def)
next
  case (Cons c cs)
  obtain h s1 where s1: "ask e s = (h, s1)" by (cases "ask e s")
  then have as1: "aside s s1" by (rule ask_aside)
  show ?case
  proof (cases "h \<or> int (ic_emitted s1) \<ge> m")
    case True
    then show ?thesis using as1 s1 Cons.prems by (auto intro: carries_on_aside)
  next
    case False
    define s2 where "s2 = s1\<lparr>ic_memory := ip_prime e c (ic_memory s1)\<rparr>"
    have as2: "aside s s2" using as1 by (simp add: s2_def aside_def)
    show ?thesis
    proof (cases "ip_beliefTask e (ic_memory s2) c")
      case None
      then have "cycle_concepts e m cs s2 = Some (out, s')" using Cons.prems s1 False by (simp add: s2_def)
      then show ?thesis using Cons.IH as2 by (blast intro: aside_cong)
    next
      case (Some task)
      then obtain g s3 where ch: "charge_scope e ''premises'' s2 = Some (g, s3)"
        using Cons.prems s1 False by (auto simp: s2_def Let_def split: option.splits)
      have as3: "aside s s3" using as2 charge_scope_aside [OF ch] by (simp add: aside_def)
      show ?thesis
      proof (cases g)
        case False
        then show ?thesis using as3 Cons.prems s1 \<open>\<not> (h \<or> m \<le> int (ic_emitted s1))\<close> Some ch
          by (auto simp: s2_def Let_def intro: carries_on_aside)
      next
        case g: True
        obtain ss r where ar: "ip_arrange e task (ip_selectSecondary e task (ic_memory s3)) (ic_rng s3) = (ss, r)"
          by (cases "ip_arrange e task (ip_selectSecondary e task (ic_memory s3)) (ic_rng s3)")
        obtain o1 st s4 where d: "derive_pairs e m (toRuleInput task) ss (s3\<lparr>ic_rng := r\<rparr>) = Some (o1, st, s4)"
          using Cons.prems s1 False Some ch g ar by (auto simp: s2_def Let_def split: option.splits)
        have c1: "carries_on e m s o1 st s4"
          using aside_cong [OF as3 aside_cong [OF aside_updates(4) pairs_carry_on [OF d]]] .
        show ?thesis
        proof (cases st)
          case True
          then show ?thesis using c1 Cons.prems s1 False Some ch g ar d by (auto simp: s2_def Let_def)
        next
          case st: False
          then obtain o2 where "cycle_concepts e m cs s4 = Some (o2, s')" "out = o1 @ o2"
            using Cons.prems s1 False Some ch g ar d by (auto simp: s2_def Let_def)
          then show ?thesis using c1 st Cons.IH by (auto intro: carries_on_trans)
        qed
      qed
    qed
  qed
qed

section \<open>Under a budget port the cycle returns\<close>

definition running :: "('b \<Rightarrow> bool) \<Rightarrow> (ruleFn, truthFn) ruleIndex \<Rightarrow> ('b, 'm, 'r) controller \<Rightarrow> bool" where
  "running ok tbl s \<longleftrightarrow> ok (rp_budgets (ic_processor s)) \<and> rp_table (ic_processor s) = tbl"

text \<open>What a memory must supply: canonical tasks; and a strategy must not invent premises.\<close>

definition supplies_canonical :: "('b, 'm, 'c, 'r) inferencePorts \<Rightarrow> bool" where
  "supplies_canonical e \<longleftrightarrow>
     (\<forall>mem c k. ip_beliefTask e mem c = Some k \<longrightarrow> normal (ip_collate e) (task_term k))
     \<and> (\<forall>k mem. \<forall>k' \<in> set (ip_selectSecondary e k mem). normal (ip_collate e) (task_term k'))
     \<and> (\<forall>k ks r. set (fst (ip_arrange e k ks r)) \<subseteq> set ks)"

lemma createDerivedTask_returns:
  assumes "normal c (rs_term r)"
  shows "\<exists>k. createDerivedTask c now r typ = Inr k \<and> normal c (task_term k)"
proof -
  let ?k = "\<lparr>task_term = rs_term r, task_truth = rs_truth r,
    carried = \<lparr>tk_type = typ, tk_budget = createTaskWeight (rs_priority r), tk_stamp = rs_stamp r,
      tk_occurrenceTime = now, tk_derived = True\<rparr>\<rparr> :: narTask"
  have "\<exists>k. settle_task c (Suc (Suc 2)) ?k = Inr k \<and> normal c (task_term k)"
    using settle_normal [of c ?k 2] assms by auto
  then show ?thesis
    by (simp add: createDerivedTask_def createTask_def canonicalTask_def MAX_TASK_PASSES_def eval_nat_numeral)
qed

lemma normal_results:
  assumes "collation_ok c" "rp_table s = rt_dispatch (builtinStore c)" "normal c (in_term p1)" "normal c (in_term p2)"
    and "processSync charge p1 p2 s = Some (rs, evs, s')" "r \<in> set rs"
  shows "normal c (rs_term r)" "frame s s'"
proof -
  let ?rules = "index_candidates (rp_table s) (term_kind (in_term p1)) (term_kind (in_term p2))"
  obtain rs0 depth where sw: "sweep charge p1 p2 (metaActive s ?rules) depth ?rules s = Some (rs0, evs, s')"
    and rs: "rs = deduplicated rs0"
    using assms(5) by (auto simp: processSync_def applySyncRules_def Let_def)
  show "frame s s'" using sweep_results [OF sw] by simp
  have "r \<in> set rs0" using rs assms(6) deduplicated_props(2) by blast
  then obtain rule where rule: "rule \<in> set ?rules" "concluded p1 p2 rule (rs_term r)"
    using sweep_results [OF sw] by (auto simp: list_all_iff from_rule_def list_ex_iff)
  then have "fine c (rr_apply rule (in_term p1, in_term p2) (Some (p1, p2)))"
    using shipped_bodies [of rule c "in_term p1" "in_term p2"] assms(1-4) rule_bodies_well [OF assms(1)]
    by (auto simp: list_all_iff well_def)
  then show "normal c (rs_term r)" using rule(2) by (simp add: concluded_def)
qed

lemma some_false [simp]: "Ex Not"
  by blast

lemma declared_scopes:
  "''derivations'' \<in> set BUDGET_SCOPE_IDS" "''premises'' \<in> set BUDGET_SCOPE_IDS"
  "''candidate-derivations'' \<in> set BUDGET_SCOPE_IDS" "''control-work'' \<in> set BUDGET_SCOPE_IDS"
  by (simp_all add: BUDGET_SCOPE_IDS_def)

context control_budget_port
begin

lemma charge_returns:
  assumes "inv s" "sc \<in> set BUDGET_SCOPE_IDS"
  shows "\<exists>granted s'. charge s sc 1 = Some (granted, s') \<and> inv s'"
  using charge_ok [OF assms, of 1] by auto

lemma sweep_returns:
  "inv (rp_budgets s) \<Longrightarrow> \<exists>rs evs s'. sweep charge p1 p2 active depth rules s = Some (rs, evs, s') \<and> inv (rp_budgets s')"
proof (induction rules arbitrary: s)
  case (Cons rule rules)
  obtain g b where gb: "charge (rp_budgets s) ''candidate-derivations'' 1 = Some (g, b)" "inv b"
    using charge_returns [OF Cons.prems declared_scopes(3)] by blast
  show ?case
  proof (cases g)
    case False
    then show ?thesis using gb by simp
  next
    case True
    have "\<exists>h s1. meta_gate charge active rule (s\<lparr>rp_budgets := b\<rparr>) = Some (h, s1) \<and> inv (rp_budgets s1)"
      using gb(2) charge_returns [OF gb(2) declared_scopes(4)] by (auto simp: meta_gate_def checkMetaBudget_def)
    then obtain h s1 where m: "meta_gate charge active rule (s\<lparr>rp_budgets := b\<rparr>) = Some (h, s1)" "inv (rp_budgets s1)"
      by blast
    obtain r1 e1 s2 where t: "try_rule p1 p2 depth rule s1 = (r1, e1, s2)" by (cases "try_rule p1 p2 depth rule s1")
    have "inv (rp_budgets s2)" using try_rule_frame [OF t] m(2) by simp
    then show ?thesis using Cons.IH [of s2] Cons.IH [OF m(2)] gb True m t by (cases h) auto
  qed
qed simp

lemma process_returns:
  assumes "inv (rp_budgets s)"
  shows "\<exists>rs evs s'. processSync charge p1 p2 s = Some (rs, evs, s') \<and> inv (rp_budgets s') \<and> frame s s'"
proof -
  let ?rules = "index_candidates (rp_table s) (term_kind (in_term p1)) (term_kind (in_term p2))"
  let ?depth = "if rp_limitConclusionGrowth s then max (termDepth (in_term p1)) (termDepth (in_term p2)) else 0"
  obtain rs evs s' where r: "sweep charge p1 p2 (metaActive s ?rules) ?depth ?rules s = Some (rs, evs, s')" "inv (rp_budgets s')"
    using sweep_returns [OF assms] by blast
  then show ?thesis using sweep_results [OF r(1)] by (auto simp: processSync_def applySyncRules_def Let_def)
qed

lemma scope_returns:
  assumes "running inv tbl s" "ip_charge e = charge" "sc \<in> set BUDGET_SCOPE_IDS"
  shows "\<exists>granted s'. charge_scope e sc s = Some (granted, s') \<and> running inv tbl s'"
  using charge_returns [of "rp_budgets (ic_processor s)" sc] assms by (auto simp: charge_scope_def running_def)

lemma admit_returns:
  assumes "running inv tbl s" "ip_charge e = charge"
  shows "\<exists>out stop s'. admit_derived e m k s = Some (out, stop, s') \<and> running inv tbl s' \<and> set out \<subseteq> {k}"
proof -
  obtain h s1 where s1: "ask e s = (h, s1)" "running inv tbl s1" using assms(1) by (auto simp: ask_def running_def)
  obtain c s2 where s2: "isCircular k s1 = (c, s2)" by (cases "isCircular k s1")
  have r2: "running inv tbl s2" using s1(2) s2 by (auto simp: isCircular_def running_def split: if_splits prod.splits)
  let ?s3 = "s2\<lparr>ic_derivationCount := ic_derivationCount s2 + 1, ic_emitted := ic_emitted s2 + 1\<rparr>"
  have r3: "running inv tbl ?s3" using r2 by (simp add: running_def)
  obtain g s4 where s4: "charge_scope e ''derivations'' ?s3 = Some (g, s4)" "running inv tbl s4"
    using scope_returns [OF r3 assms(2) declared_scopes(1)] by blast
  show ?thesis
    using s1 s2 r2 r3 s4 by (cases h; cases c) (auto simp: admit_derived_def Let_def derivationBudgetSpent_def)
qed

lemma read_returns:
  assumes "running inv tbl s" "ip_charge e = charge" "\<forall>r \<in> set rs. normal (ip_collate e) (rs_term r)"
  shows "\<exists>out stop s'. read_results e m rs s = Some (out, stop, s') \<and> running inv tbl s'
    \<and> (\<forall>k \<in> set out. normal (ip_collate e) (task_term k))"
  using assms
proof (induction rs arbitrary: s)
  case (Cons r rs)
  obtain k where k: "createDerivedTask (ip_collate e) (ip_now e) r BeliefType = Inr k" "normal (ip_collate e) (task_term k)"
    using createDerivedTask_returns Cons.prems(3) by fastforce
  obtain o1 st s1 where a: "admit_derived e m k s = Some (o1, st, s1)" "running inv tbl s1" "set o1 \<subseteq> {k}"
    using admit_returns [OF Cons.prems(1,2)] by blast
  show ?case
  proof (cases st)
    case True
    then show ?thesis using k a by auto
  next
    case False
    obtain o2 st2 s2 where "read_results e m rs s1 = Some (o2, st2, s2)" "running inv tbl s2"
      "\<forall>k \<in> set o2. normal (ip_collate e) (task_term k)"
      using Cons.IH [OF a(2) Cons.prems(2)] Cons.prems(3) by auto
    then show ?thesis using k a False by auto
  qed
qed simp

lemma pairs_return:
  assumes "running inv (rt_dispatch (builtinStore (ip_collate e))) s" "ip_charge e = charge" "collation_ok (ip_collate e)"
    and "normal (ip_collate e) (in_term p1)" "\<forall>k \<in> set ks. normal (ip_collate e) (task_term k)"
  shows "\<exists>out stop s'. derive_pairs e m p1 ks s = Some (out, stop, s')
    \<and> running inv (rt_dispatch (builtinStore (ip_collate e))) s' \<and> (\<forall>k \<in> set out. normal (ip_collate e) (task_term k))"
  using assms(1,5)
proof (induction ks arbitrary: s)
  case (Cons k ks)
  let ?tbl = "rt_dispatch (builtinStore (ip_collate e))"
  obtain h s1 where s1: "ask e s = (h, s1)" "running inv ?tbl s1" using Cons.prems(1) by (auto simp: ask_def running_def)
  obtain rs evs pr where p: "processSync charge p1 (toRuleInput k) (ic_processor s1) = Some (rs, evs, pr)"
    "inv (rp_budgets pr)" "frame (ic_processor s1) pr"
    using process_returns s1(2) unfolding running_def by blast
  have n: "\<forall>r \<in> set rs. normal (ip_collate e) (rs_term r)"
    using normal_results(1) [OF assms(3) _ assms(4) _ p(1)] s1(2) Cons.prems(2)
    by (auto simp: running_def toRuleInput_def)
  have "running inv ?tbl (s1\<lparr>ic_processor := pr\<rparr>)" using p(2,3) s1(2) by (simp add: running_def frame_def)
  then obtain o1 st s2 where r: "read_results e m rs (s1\<lparr>ic_processor := pr\<rparr>) = Some (o1, st, s2)" "running inv ?tbl s2"
    "\<forall>k \<in> set o1. normal (ip_collate e) (task_term k)"
    using read_returns [OF _ assms(2) n] by blast
  obtain o2 st2 s3 where more: "derive_pairs e m p1 ks s2 = Some (o2, st2, s3)" "running inv ?tbl s3"
    "\<forall>k \<in> set o2. normal (ip_collate e) (task_term k)"
    using Cons.IH [OF r(2)] Cons.prems(2) by auto
  show ?case
  proof (cases h)
    case True
    then show ?thesis using s1 by simp
  next
    case False
    then show ?thesis using s1 p(1) r more assms(2) by (cases st) auto
  qed
qed simp

lemma concepts_return:
  assumes "running inv (rt_dispatch (builtinStore (ip_collate e))) s" "ip_charge e = charge" "collation_ok (ip_collate e)"
    and "supplies_canonical e"
  shows "\<exists>out s'. cycle_concepts e m cs s = Some (out, s') \<and> running inv (rt_dispatch (builtinStore (ip_collate e))) s'
    \<and> (\<forall>k \<in> set out. normal (ip_collate e) (task_term k))"
  using assms(1)
proof (induction cs arbitrary: s)
  case (Cons c cs)
  let ?tbl = "rt_dispatch (builtinStore (ip_collate e))"
  obtain h s1 where s1: "ask e s = (h, s1)" "running inv ?tbl s1" using Cons.prems(1) by (auto simp: ask_def running_def)
  define s2 where "s2 = s1\<lparr>ic_memory := ip_prime e c (ic_memory s1)\<rparr>"
  have r2: "running inv ?tbl s2" using s1(2) by (simp add: running_def s2_def)
  show ?case
  proof (cases "h \<or> int (ic_emitted s1) \<ge> m")
    case True
    then show ?thesis using s1 by auto
  next
    case go: False
    show ?thesis
    proof (cases "ip_beliefTask e (ic_memory s2) c")
      case None
      then show ?thesis using Cons.IH [OF r2] s1 go by (simp add: s2_def)
    next
      case (Some task)
      then have nt: "normal (ip_collate e) (task_term task)" using assms(4) by (simp add: supplies_canonical_def)
      obtain g s3 where ch: "charge_scope e ''premises'' s2 = Some (g, s3)" "running inv ?tbl s3"
        using scope_returns [OF r2 assms(2) declared_scopes(2)] by blast
      obtain ss r where ar: "ip_arrange e task (ip_selectSecondary e task (ic_memory s3)) (ic_rng s3) = (ss, r)"
        by (cases "ip_arrange e task (ip_selectSecondary e task (ic_memory s3)) (ic_rng s3)")
      have "set (fst (ip_arrange e task (ip_selectSecondary e task (ic_memory s3)) (ic_rng s3)))
          \<subseteq> set (ip_selectSecondary e task (ic_memory s3))"
        using assms(4) by (simp add: supplies_canonical_def)
      then have ns: "\<forall>k \<in> set ss. normal (ip_collate e) (task_term k)"
        using ar assms(4) unfolding supplies_canonical_def by auto
      have r3: "running inv ?tbl (s3\<lparr>ic_rng := r\<rparr>)" using ch(2) by (simp add: running_def)
      have "normal (ip_collate e) (in_term (toRuleInput task))" using nt by (simp add: toRuleInput_def)
      from pairs_return [OF r3 assms(2,3) this ns, of m]
      obtain o1 st s4 where d: "derive_pairs e m (toRuleInput task) ss (s3\<lparr>ic_rng := r\<rparr>) = Some (o1, st, s4)"
        "running inv ?tbl s4" "\<forall>k \<in> set o1. normal (ip_collate e) (task_term k)" by blast
      obtain o2 s5 where "cycle_concepts e m cs s4 = Some (o2, s5)" "running inv ?tbl s5"
        "\<forall>k \<in> set o2. normal (ip_collate e) (task_term k)"
        using Cons.IH [OF d(2)] by blast
      then show ?thesis using s1 go Some ch ar d
        by (cases g; cases st) (auto simp: s2_def Let_def)
    qed
  qed
qed simp

lemma budgeted_reads:
  assumes port: "ip_charge e = charge" "ip_budgeted e" "ip_halts e = (\<lambda>_. False)"
    and ks: "map (\<lambda>r. createDerivedTask (ip_collate e) (ip_now e) r BeliefType) rs = map Inr ks"
    and "inv (rp_budgets (ic_processor s))" "allowance (rp_budgets (ic_processor s)) ''derivations'' = Some (int n)"
    and "\<not> cf_enableCircularDetection (ic_config s)" "int (ic_emitted s + length ks) < m"
    and "list_all (\<lambda>k. \<not> exceedsDepthLimit k (cf_maxDerivationDepth (ic_config s))) ks"
  shows "map_option fst (read_results e m rs s) = Some (take (Suc n) ks)"
  using assms(4-)
proof (induction rs arbitrary: s n ks)
  case (Cons r rs)
  then obtain k ks' where k: "createDerivedTask (ip_collate e) (ip_now e) r BeliefType = Inr k" "ks = k # ks'"
    "map (\<lambda>r. createDerivedTask (ip_collate e) (ip_now e) r BeliefType) rs = map Inr ks'"
    by (cases ks) auto
  let ?s3 = "s\<lparr>ic_asked := ic_asked s + 1, ic_derivationCount := ic_derivationCount s + 1, ic_emitted := ic_emitted s + 1\<rparr>"
  obtain b where b: "charge (rp_budgets (ic_processor s)) ''derivations'' 1 = Some (1 \<le> int n, b)" "inv b"
    "allowance b ''derivations'' = Some (if 1 \<le> int n then int n - 1 else int n)"
    using charge_ok [OF Cons.prems(2) declared_scopes(1), of 1] Cons.prems(3) by (auto simp: fits_def)
  let ?s4 = "?s3\<lparr>ic_processor := (ic_processor s)\<lparr>rp_budgets := b\<rparr>\<rparr>"
  have a: "admit_derived e m k s = Some ([k], \<not> 1 \<le> int n, ?s4)"
    using b(1) port Cons.prems(4,5,6) k(2)
    by (simp add: admit_derived_def ask_def isCircular_def Let_def derivationBudgetSpent_def charge_scope_def)
  show ?case
  proof (cases n)
    case 0
    then show ?thesis using a k by simp
  next
    case (Suc n')
    have "map_option fst (read_results e m rs ?s4) = Some (take (Suc n') ks')"
      using Cons.prems(4,5,6) b(2,3) Suc k(2) by (intro Cons.IH [OF k(3)]) simp_all
    then obtain st s5 where "read_results e m rs ?s4 = Some (take (Suc n') ks', st, s5)" by auto
    then show ?thesis using a k Suc by simp
  qed
qed simp

lemma cycle_returns:
  assumes "running inv (rt_dispatch (builtinStore (ip_collate e))) s" "ip_charge e = charge" "collation_ok (ip_collate e)"
    and "supplies_canonical e"
  shows "\<exists>out s'. inference_cycle e m s = Some (out, s') \<and> running inv (rt_dispatch (builtinStore (ip_collate e))) s'
    \<and> list_all (\<lambda>k. canonicalTerm (ip_collate e) (task_term k) = Inr (task_term k)) out"
proof -
  have "running inv (rt_dispatch (builtinStore (ip_collate e))) (s\<lparr>ic_derivationCount := 0, ic_emitted := 0\<rparr>)"
    using assms(1) by (simp add: running_def)
  from concepts_return [OF this assms(2-4)] canonical_normal show ?thesis
    by (fastforce simp: inference_cycle_def Let_def list_all_iff)
qed

end

lemma unbudgeted_reads:
  assumes "\<not> ip_budgeted e" "ip_halts e = (\<lambda>_. False)"
    and "map (\<lambda>r. createDerivedTask (ip_collate e) (ip_now e) r BeliefType) rs = map Inr ks"
    and "cf_maxDerivationsPerStep (ic_config s) = int (ic_derivationCount s) + int n" "0 < n"
    and "\<not> cf_enableCircularDetection (ic_config s)" "int (ic_emitted s + length ks) < m"
    and "list_all (\<lambda>k. \<not> exceedsDepthLimit k (cf_maxDerivationDepth (ic_config s))) ks"
  shows "map_option fst (read_results e m rs s) = Some (take n ks)"
  using assms(3-)
proof (induction rs arbitrary: s n ks)
  case (Cons r rs)
  then obtain k ks' where k: "createDerivedTask (ip_collate e) (ip_now e) r BeliefType = Inr k" "ks = k # ks'"
    "map (\<lambda>r. createDerivedTask (ip_collate e) (ip_now e) r BeliefType) rs = map Inr ks'"
    by (cases ks) auto
  let ?s3 = "s\<lparr>ic_asked := ic_asked s + 1, ic_derivationCount := ic_derivationCount s + 1, ic_emitted := ic_emitted s + 1\<rparr>"
  have a: "admit_derived e m k s = Some ([k], n = 1, ?s3)"
    using assms(1,2) Cons.prems(2-) k(2)
    by (auto simp: admit_derived_def ask_def isCircular_def Let_def derivationBudgetSpent_def)
  show ?case
  proof (cases "n = 1")
    case True
    then show ?thesis using a k by simp
  next
    case False
    then obtain n' where n': "n = Suc n'" "0 < n'" using Cons.prems(3) by (cases n) auto
    have "map_option fst (read_results e m rs ?s3) = Some (take n' ks')"
      using Cons.prems(2-) n' k(2) by (intro Cons.IH [OF k(3)]) simp_all
    then obtain st s5 where "read_results e m rs ?s3 = Some (take n' ks', st, s5)" by auto
    then show ?thesis using a k n' by simp
  qed
qed simp

section \<open>Recurrence\<close>

text \<open>Every stretch of a list of a given length is free of repetitions.\<close>

definition windows_distinct :: "nat \<Rightarrow> 'a list \<Rightarrow> bool" where
  "windows_distinct w xs \<longleftrightarrow> list_all (\<lambda>i. distinct (take w (drop i xs))) [0..<length xs]"

lemma windows_iff: "windows_distinct w xs \<longleftrightarrow> (\<forall>i. distinct (take w (drop i xs)))"
  by (auto simp: windows_distinct_def list_all_iff not_less)

lemma windows_snoc:
  assumes "windows_distinct (Suc w) xs" "x \<notin> set (drop (length xs - w) xs)"
  shows "windows_distinct (Suc w) (xs @ [x])"
  unfolding windows_iff
proof
  fix i
  show "distinct (take (Suc w) (drop i (xs @ [x])))"
  proof (cases "i + Suc w \<le> length xs \<or> length xs < i")
    case True
    then show ?thesis using assms(1) by (auto simp: windows_iff)
  next
    case False
    then have s: "take (Suc w) (drop i (xs @ [x])) = drop i xs @ [x]" by auto
    have "set (drop i xs) \<subseteq> set (drop (length xs - w) xs)"
      using False by (intro set_drop_subset_set_drop) linarith
    moreover have "length (drop i xs) \<le> Suc w" using False by auto
    then have "distinct (drop i xs)" using assms(1) [unfolded windows_iff, rule_format, of i] by simp
    ultimately show ?thesis using assms(2) s by auto
  qed
qed

definition last_1000 :: "'a list \<Rightarrow> 'a list" where
  "last_1000 xs = drop (length xs - 1000) xs"

lemma recorded_keys:
  assumes "detector_ok d" "conclusionKey k \<notin> set (okeys (bm_entries d))"
  shows "okeys (bm_entries (bm_set 0 0 d (conclusionKey k) ())) = last_1000 (okeys (bm_entries d) @ [conclusionKey k])"
proof -
  have inv: "bm_inv d" "bm_maxSize d = 1000" "bm_order d = Fifo"
    using assms(1) by (simp_all add: detector_ok_def MAX_RECENT_CONCLUSIONS_def)
  have le: "length (bm_entries d) \<le> 1000" "distinct (okeys (bm_entries d))"
    using inv(1,2) by (simp_all add: bm_inv_def bm_size_def)
  show ?thesis
  proof (cases "length (bm_entries d) = 1000")
    case False
    then have "length (bm_entries d) < 1000" using le(1) by simp
    then show ?thesis using assms(2) inv by (simp add: bm_set_entries bm_size_def last_1000_def)
  next
    case True
    then obtain e es where es: "bm_entries d = e # es" by (cases "bm_entries d") auto
    obtain k0 v0 where e: "e = (k0, v0)" by (cases e)
    have "okeys (AList.delete k0 (bm_entries d)) = okeys es"
      using le(2) es e by (auto simp: filter_id_conv)
    moreover have "okeys (bm_entries (bm_evictVictim 0 d)) = okeys (AList.delete k0 (bm_entries d))"
      using es e inv(3) by (simp add: bm_evictVictim_def bm_selectVictim_def bm_evict_def)
    ultimately have "okeys (bm_entries (bm_evictVictim 0 d)) = okeys es" by simp
    then show ?thesis using assms(2) inv True es e
      by (auto simp: bm_set_entries bm_size_def last_1000_def filter_id_conv)
  qed
qed

lemma last_1000_append: "last_1000 (last_1000 xs @ ys) = last_1000 (xs @ ys)"
  by (cases "length xs \<le> 1000") (auto simp: last_1000_def drop_append add.commute)

lemma pass_detector_windows:
  assumes "pass_detector d ks = Some d'" "detector_ok d"
  shows "okeys (bm_entries d') = last_1000 (okeys (bm_entries d) @ map conclusionKey ks)
    \<and> windows_distinct 1001 (okeys (bm_entries d) @ map conclusionKey ks)"
  using assms(1)
proof (induction ks arbitrary: d' rule: rev_induct)
  case Nil
  have "bm_inv d" "bm_maxSize d = 1000" using assms(2) by (simp_all add: detector_ok_def MAX_RECENT_CONCLUSIONS_def)
  then show ?case using Nil by (auto simp: last_1000_def bm_inv_def bm_size_def windows_iff)
next
  case (snoc k ks)
  then obtain d1 where d1: "pass_detector d ks = Some d1" "pass_detector d1 [k] = Some d'"
    by (auto simp: pass_detector_append bind_eq_Some_conv)
  have ok: "detector_ok d1" using d1(1) assms(2) by (rule pass_detector_ok)
  let ?h = "okeys (bm_entries d) @ map conclusionKey ks"
  have IH: "okeys (bm_entries d1) = last_1000 ?h" "windows_distinct 1001 ?h" using snoc.IH [OF d1(1)] by auto
  have new: "conclusionKey k \<notin> set (okeys (bm_entries d1))" "d' = bm_set 0 0 d1 (conclusionKey k) ()"
    using d1(2) by (simp_all add: detect_cases [OF ok] split: if_splits)
  have "okeys (bm_entries d') = last_1000 (?h @ [conclusionKey k])"
    using recorded_keys [OF ok new(1)] new(2) IH(1) by (simp add: last_1000_append)
  moreover have "windows_distinct (Suc 1000) (?h @ [conclusionKey k])"
    using IH new(1) by (intro windows_snoc) (simp_all add: last_1000_def)
  ultimately show ?case by simp
qed

section \<open>An example\<close>

definition example_task :: "narTerm \<Rightarrow> narTask" where
  "example_task t = \<lparr>task_term = t, task_truth = TRUE_TRUTH,
     carried = \<lparr>tk_type = BeliefType, tk_budget = createTaskWeight 1,
       tk_stamp = \<lparr>stampId = ''1'', creationTime = 0, source = INPUT, derivations = []\<rparr>,
       tk_occurrenceTime = 0, tk_derived = False\<rparr>\<rparr>"

definition example_ports :: "'b charge \<Rightarrow> ('b, unit, unit, unit) inferencePorts" where
  "example_ports charge = \<lparr>ip_collate = plain, ip_charge = charge, ip_budgeted = True, ip_halts = \<lambda>_. False, ip_now = 0,
     ip_sample = \<lambda>_ _. [()], ip_prime = \<lambda>_ m. m, ip_beliefTask = \<lambda>_ _. Some (example_task (two Inheritance ''a'' ''b'')),
     ip_selectSecondary = \<lambda>_ _. [example_task (two Inheritance ''b'' ''c'')], ip_arrange = DefaultDerivation\<rparr>"

definition example_controller :: "'b \<Rightarrow> ('b, unit, unit) controller" where
  "example_controller b = \<lparr>ic_config = \<lparr>cf_maxDerivationsPerStep = 1, cf_maxDerivationDepth = 10,
       cf_enableCircularDetection = True, cf_maxSampledConcepts = 8\<rparr>,
     ic_processor = example_processor b, ic_memory = (), ic_rng = (), ic_circular = createCircularDetector,
     ic_derivationCount = 0, ic_emitted = 0, ic_asked = 0\<rparr>"

definition one_derivation :: controlBudgets where
  "one_derivation = \<lparr>cb_gate = default_gate, cb_overrides = (\<lambda>_. None)(''derivations'' := Some 1)\<rparr>"

lemma one_derivation_inv: "cb_inv one_derivation"
  by (simp add: one_derivation_def cb_inv_def cb_scope_ok_def default_gate_eq valid_default overrides_ok_def
      BUDGET_SCOPE_IDS_def scopeLimitKey_def scopeSpec_def BUDGET_SCOPES_def scopeLimit_def)

lemma two_normal: "normal plain (two Inheritance x y)"
  by (simp add: two_def rawCompound_def compound_plan_def ordered_args_def stable_iff DEDUPED_iff)

lemma example_supplies: "supplies_canonical (example_ports charge)"
  by (auto simp: supplies_canonical_def example_ports_def example_task_def two_normal DefaultDerivation_def)

lemma example_cycle:
  "\<exists>out s'. inference_cycle (example_ports (cb_charge ''c'')) 5 (example_controller one_derivation) = Some (out, s')"
  using controls.cycle_returns [of "example_ports (cb_charge ''c'')" "example_controller one_derivation" "''c''" 5]
    example_supplies one_derivation_inv trivial_collation
  by (fastforce simp: running_def example_ports_def example_controller_def example_processor_def)

section \<open>Properties of a cycle\<close>

text \<open>C8: what a cycle yields is bounded. A cycle yields at most the results asked for and counts what it
  yields; without a budget port it yields at most its configured derivations (and one, if that is
  less than one); every task it yields is a derived belief whose lineage is below the configured
  depth.\<close>

theorem cycle_respects_bounds:
  assumes "inference_cycle e maxResults s = Some (out, s')"
  shows "int (length out) \<le> max 0 maxResults \<and> ic_derivationCount s' = length out
    \<and> (if ip_budgeted e then True else int (length out) \<le> max 1 (cf_maxDerivationsPerStep (ic_config s)))
    \<and> list_all (\<lambda>k. tk_type (carried k) = BeliefType \<and> tk_derived (carried k)
         \<and> length (derivations (tk_stamp (carried k))) < cf_maxDerivationDepth (ic_config s)) out"
proof -
  let ?s = "s\<lparr>ic_derivationCount := 0, ic_emitted := 0\<rparr>"
  from assms have cyc: "cycle_concepts e maxResults (ip_sample e (ic_memory s) (cf_maxSampledConcepts (ic_config s))) ?s = Some (out, s')"
    by (simp add: inference_cycle_def Let_def)
  from concepts_carry_on [OF this] have c: "carries_on e maxResults ?s out True s'" .
  have "out = []" if "maxResults \<le> 0"
    using cyc that by (cases "ip_sample e (ic_memory s) (cf_maxSampledConcepts (ic_config s))") (auto simp: ask_def)
  then show ?thesis using c
    by (cases "maxResults \<le> 0") (auto simp: carries_on_def kept_below_def admitted_task_def exceedsDepthLimit_def not_le list_all_iff)
qed

lemma cycle_respects_bounds_witness:
  "\<exists>out s'. inference_cycle (example_ports (cb_charge ''c'')) 5 (example_controller one_derivation) = Some (out, s')
    \<and> length out \<le> 5 \<and> ic_derivationCount s' = length out"
proof -
  obtain out s' where c: "inference_cycle (example_ports (cb_charge ''c'')) 5 (example_controller one_derivation) = Some (out, s')"
    using example_cycle by blast
  with cycle_respects_bounds [OF c] show ?thesis by auto
qed

text \<open>C7: nothing comes round within a thousand. From a detector that has been created or reset and has
  only ever recorded, a cycle with the detection on yields no conclusion (identifier, term and truth)
  that is among the thousand recorded before it, earlier cycles included.\<close>

theorem conclusions_not_repeated:
  assumes "inference_cycle e maxResults s = Some (out, s')" "cf_enableCircularDetection (ic_config s)"
    and "pass_detector createCircularDetector history = Some (ic_circular s)"
  shows "windows_distinct 1001 (map conclusionKey (history @ out))
    \<and> pass_detector createCircularDetector (history @ out) = Some (ic_circular s')"
proof -
  have "carries_on e maxResults (s\<lparr>ic_derivationCount := 0, ic_emitted := 0\<rparr>) out True s'"
    using assms(1) concepts_carry_on by (auto simp: inference_cycle_def Let_def)
  moreover have "detector_ok (ic_circular s)" using pass_detector_ok [OF assms(3) createCircularDetector_ok] .
  ultimately have "pass_detector (ic_circular s) out = Some (ic_circular s')"
    using assms(2) by (simp add: carries_on_def)
  then have p: "pass_detector createCircularDetector (history @ out) = Some (ic_circular s')"
    using assms(3) by (simp add: pass_detector_append)
  have "bm_entries createCircularDetector = []" by (simp add: createCircularDetector_def newBoundedMap_def)
  then show ?thesis using pass_detector_windows [OF p createCircularDetector_ok] p by simp
qed

lemma conclusions_not_repeated_witness:
  "\<exists>out s'. inference_cycle (example_ports (cb_charge ''c'')) 5 (example_controller one_derivation) = Some (out, s')
    \<and> windows_distinct 1001 (map conclusionKey out)"
proof -
  obtain out s' where c: "inference_cycle (example_ports (cb_charge ''c'')) 5 (example_controller one_derivation) = Some (out, s')"
    using example_cycle by blast
  have "pass_detector createCircularDetector [] = Some (ic_circular (example_controller one_derivation))"
    by (simp add: example_controller_def)
  with conclusions_not_repeated [OF c _ this] c show ?thesis by (auto simp: example_controller_def)
qed

text \<open>C6: a cycle returns. On the shipped rules and the control budgets, with a memory that supplies
  canonical tasks and a strategy that only orders or thins premises, a cycle throws nothing, however
  the signal, the budgets and the memory fall out: it returns canonical tasks and keeps the budgets'
  invariant, so cycle can follow cycle.\<close>

theorem cycle_always_returns:
  assumes "collation_ok (ip_collate e)" "loadBuiltinTable (ip_collate e) = Inr st"
    and "rp_table (ic_processor s) = rt_dispatch st" "ip_charge e = cb_charge corr"
    and "cb_inv (rp_budgets (ic_processor s))" "supplies_canonical e"
  shows "\<exists>out s'. inference_cycle e maxResults s = Some (out, s')
    \<and> list_all (\<lambda>k. canonicalTerm (ip_collate e) (task_term k) = Inr (task_term k)) out
    \<and> cb_inv (rp_budgets (ic_processor s')) \<and> rp_table (ic_processor s') = rt_dispatch st"
proof -
  have st: "st = builtinStore (ip_collate e)" using assms(2) by (simp add: loadBuiltinTable_store)
  then have "running cb_inv (rt_dispatch (builtinStore (ip_collate e))) s" using assms(3,5) by (simp add: running_def)
  from controls.cycle_returns [OF this assms(4,1,6), of maxResults] show ?thesis
    using st by (auto simp: running_def)
qed

lemma cycle_always_returns_witness:
  "\<exists>out s'. inference_cycle (example_ports (cb_charge ''c'')) 7 (example_controller one_derivation) = Some (out, s')
    \<and> cb_inv (rp_budgets (ic_processor s'))"
  using cycle_always_returns [of "example_ports (cb_charge ''c'')" _ "example_controller one_derivation" "''c''" 7,
      OF _ loadBuiltinTable_store] example_supplies one_derivation_inv trivial_collation
  by (fastforce simp: example_ports_def example_controller_def example_processor_def)

text \<open>the ceiling of derivations lets one more through. The scope of derivations is charged after a
  task was yielded, so with a ceiling of \<open>n\<close> on the port a pair's results come out up to
  \<open>n + 1\<close>; without the port the same bound in the configuration stops at \<open>n\<close>. The
  code's comment says the count is the same one the configuration always bounded.\<close>

theorem derivations_ceiling_exceeded:
  assumes "map (\<lambda>r. createDerivedTask (ip_collate e) (ip_now e) r BeliefType) rs = map Inr ks"
    and "ip_halts e = (\<lambda>_. False)" "\<not> cf_enableCircularDetection (ic_config s)"
    and "int (ic_emitted s + length ks) < maxResults" "0 < n"
    and "list_all (\<lambda>k. \<not> exceedsDepthLimit k (cf_maxDerivationDepth (ic_config s))) ks"
    and "cb_inv (rp_budgets (ic_processor s))" "cb_allowance (rp_budgets (ic_processor s)) ''derivations'' = Some (int n)"
    and "ip_charge e = cb_charge corr" "ic_derivationCount s = 0" "cf_maxDerivationsPerStep (ic_config s) = int n"
  shows "map_option fst (read_results (e\<lparr>ip_budgeted := True\<rparr>) maxResults rs s) = Some (take (n + 1) ks)
    \<and> map_option fst (read_results (e\<lparr>ip_budgeted := False\<rparr>) maxResults rs s) = Some (take n ks)"
  using controls.budgeted_reads [of "e\<lparr>ip_budgeted := True\<rparr>" corr rs ks s n maxResults]
    unbudgeted_reads [of "e\<lparr>ip_budgeted := False\<rparr>" rs ks s n maxResults] assms by simp

lemma derivations_ceiling_exceeded_witness:
  "\<exists>rs k1 k2. map_option fst (read_results (example_ports (cb_charge ''c'')) 100 rs
        ((example_controller one_derivation)\<lparr>ic_config := (ic_config (example_controller one_derivation))\<lparr>cf_enableCircularDetection := False\<rparr>\<rparr>))
      = Some [k1, k2]
    \<and> map_option fst (read_results ((example_ports (cb_charge ''c''))\<lparr>ip_budgeted := False\<rparr>) 100 rs
        ((example_controller one_derivation)\<lparr>ic_config := (ic_config (example_controller one_derivation))\<lparr>cf_enableCircularDetection := False\<rparr>\<rparr>))
      = Some [k1]"
proof -
  let ?e = "example_ports (cb_charge ''c'')"
  let ?s = "(example_controller one_derivation)\<lparr>ic_config := (ic_config (example_controller one_derivation))\<lparr>cf_enableCircularDetection := False\<rparr>\<rparr>"
  let ?r = "\<lambda>x. \<lparr>rs_term = Atom x, rs_truth = TRUE_TRUTH, rs_stamp = tk_stamp (carried (example_task (Atom x))),
    rs_priority = 1, rs_taskType = None\<rparr>"
  let ?k = "\<lambda>x. \<lparr>task_term = Atom x, task_truth = TRUE_TRUTH, carried = (carried (example_task (Atom x)))\<lparr>tk_derived := True\<rparr>\<rparr>"
  have "createDerivedTask (ip_collate ?e) (ip_now ?e) (?r x) BeliefType = Inr (?k x)" for x
    using settle_unapplied [of "?k x" plain 3]
    by (simp add: createDerivedTask_def createTask_def canonicalTask_def MAX_TASK_PASSES_def negationIntoTruth_def
        example_ports_def example_task_def)
  then have ks: "map (\<lambda>r. createDerivedTask (ip_collate ?e) (ip_now ?e) r BeliefType) [?r ''a'', ?r ''b'', ?r ''c'']
    = map Inr [?k ''a'', ?k ''b'', ?k ''c'']" by simp
  have al: "cb_allowance (rp_budgets (ic_processor ?s)) ''derivations'' = Some (int 1)"
    by (simp add: example_controller_def example_processor_def one_derivation_def cb_allowance_def default_gate_eq
        scopeLimit_def scopeSpec_def BUDGET_SCOPES_def)
  have "ip_budgeted ?e" by (simp add: example_ports_def)
  then have e: "?e\<lparr>ip_budgeted := True\<rparr> = ?e" by (cases "?e") simp
  show ?thesis
    using derivations_ceiling_exceeded [OF ks _ _ _ _ _ _ al, of 100 "''c''"] one_derivation_inv e
    by (intro exI [of _ "[?r ''a'', ?r ''b'', ?r ''c'']"] exI [of _ "?k ''a''"] exI [of _ "?k ''b''"])
      (simp add: example_ports_def example_controller_def example_processor_def exceedsDepthLimit_def example_task_def)
qed

text \<open>C39: deep conclusions forget their evidence. When a premise carries ten ancestors or more the stamp
  of the conclusion is not derived but minted as that of an input: its lineage is empty, so no test of
  overlap sees what it rests on and no limit on depth applies to it or to what follows from it.\<close>

theorem deep_conclusions_forget_evidence:
  assumes "10 \<le> length (derivations (in_stamp p1)) \<or> 10 \<le> length (derivations (in_stamp p2))"
    and "createDerivedTask collate now (fst (buildResult t f p1 p2 priority s)) typ = Inr k" "0 < limit"
  shows "source (tk_stamp (carried k)) = INPUT \<and> derivations (tk_stamp (carried k)) = []
    \<and> \<not> exceedsDepthLimit k limit \<and> tk_derived (carried k)"
proof -
  have "derive_stamp (rp_now s) (rp_thread s) [in_stamp p1, in_stamp p2] DERIVED (rp_stamps s) = None"
    using assms(1) by (auto simp: derive_stamp_def maxDepthOf_at_least)
  then have "rs_stamp (fst (buildResult t f p1 p2 priority s)) = fst (createInput (rp_now s) (rp_thread s) None (rp_stamps s))"
    by (simp add: buildResult_def deriveStamp_def Let_def split: prod.split)
  then have "tk_stamp (carried k) = fst (createInput (rp_now s) (rp_thread s) None (rp_stamps s))"
    using createDerivedTask_fields(3) [OF assms(2)] by simp
  then show ?thesis
    using createDerivedTask_fields(2) [OF assms(2)] assms(3)
    by (simp add: createInput_def mint_def exceedsDepthLimit_def Let_def split: prod.split)
qed

lemma deep_conclusions_forget_evidence_witness:
  "\<exists>k. createDerivedTask plain 0 (fst (buildResult (Atom ''t'') t_deduction
        ((example_input (Atom ''p''))\<lparr>in_stamp := \<lparr>stampId = ''x'', creationTime = 0, source = DERIVED,
           derivations = map (\<lambda>n. replicate n CHR ''i'') [0..<10]\<rparr>\<rparr>)
        (example_input (Atom ''q'')) 1 (example_processor ()))) BeliefType = Inr k
    \<and> derivations (tk_stamp (carried k)) = [] \<and> tk_derived (carried k)"
proof -
  let ?p = "(example_input (Atom ''p''))\<lparr>in_stamp := \<lparr>stampId = ''x'', creationTime = 0, source = DERIVED,
    derivations = map (\<lambda>n. replicate n CHR ''i'') [0..<10]\<rparr>\<rparr>"
  have "normal plain (rs_term (fst (buildResult (Atom ''t'') t_deduction ?p (example_input (Atom ''q'')) 1 (example_processor ()))))"
    by (simp add: buildResult_fields)
  from createDerivedTask_returns [OF this] obtain k where
    "createDerivedTask plain 0 (fst (buildResult (Atom ''t'') t_deduction ?p (example_input (Atom ''q'')) 1 (example_processor ()))) BeliefType = Inr k"
    by blast
  with deep_conclusions_forget_evidence [OF _ this, of 1] show ?thesis by auto
qed

end
