(* ===== verification/Operations.thy ===== *)
theory Operations
  imports Processor
begin

text \<open>
  Operation terms and the rules that conclude them: the codec between tool calls and terms
  (\<open>nar/src/terms/impls/operation-term.ts\<close>) and the meta rules (\<open>nar/src/rules/impls/meta-rules.ts\<close>).
  The values of a call are the texts \<open>String(value)\<close> gives; a record read back is a map in the
  order its keys were set. A throw is the left of a sum.
\<close>

section \<open>Encoding\<close>

definition NO_ARGS :: "collation \<Rightarrow> termError + narTerm" where
  "NO_ARGS collate = build collate ProductOp []"

definition isQuoted :: "string \<Rightarrow> bool" where
  "isQuoted symbol = (length symbol > 1 \<and> hd symbol = CHR 0x22 \<and> last symbol = CHR 0x22)"

text \<open>\<open>TermBuilder.atom\<close> answers alike whether the symbol is cached or not: what throws is never cached.\<close>

definition builder_atom :: "string \<Rightarrow> termError + narTerm" where
  "builder_atom symbol = fst (Intern.atomOf emptyTermCache symbol)"

definition text_atom :: "string \<Rightarrow> termError + narTerm" where
  "text_atom symbol = builder_atom (if isValidAtomSymbol symbol \<or> isQuoted symbol then symbol else toAtomSymbol symbol)"

definition bind_result :: "termError + 'a \<Rightarrow> ('a \<Rightarrow> termError + 'b) \<Rightarrow> termError + 'b" where
  "bind_result x f = (case x of Inl e \<Rightarrow> Inl e | Inr a \<Rightarrow> f a)"

definition argTerm :: "collation \<Rightarrow> string \<Rightarrow> string \<Rightarrow> termError + narTerm" where
  "argTerm collate key val =
     bind_result (text_atom val) (\<lambda>v. bind_result (text_atom key) (\<lambda>k.
       case build_inheritance collate v k of Some t \<Rightarrow> t | None \<Rightarrow> build collate ProductOp [v, k]))"

definition operationTerm :: "collation \<Rightarrow> string \<Rightarrow> (string \<times> string) list \<Rightarrow> termError + narTerm" where
  "operationTerm collate name args =
     bind_result (map_results (\<lambda>(key, val). argTerm collate key val) args) (\<lambda>argTerms.
     bind_result (text_atom name) (\<lambda>f.
     bind_result (build collate ProductOp argTerms) (\<lambda>p. build collate OperationOp [f, p])))"

section \<open>Decoding\<close>

datatype toolValue =
  IntValue int | FloatValue real | BoolValue bool | TextValue string | ListValue "toolValue list"

record operationCall =
  call_name :: string
  call_args :: "(string, toolValue) omap"

definition operationNameOf :: "narTerm \<Rightarrow> string option" where
  "operationNameOf t =
     (if \<not> isType OperationOp t then None
      else case getArgs t of Atom s # _ \<Rightarrow> Some s | _ \<Rightarrow> None)"

definition isDigit :: "char \<Rightarrow> bool" where
  "isDigit c = (48 \<le> (of_char c :: nat) \<and> (of_char c :: nat) \<le> 57)"

fun digits_value :: "int \<Rightarrow> string \<Rightarrow> int" where
  "digits_value acc [] = acc"
| "digits_value acc (c # cs) = digits_value (10 * acc + (of_char c - 48)) cs"

definition digits :: "string \<Rightarrow> bool" where
  "digits s = (s \<noteq> [] \<and> list_all isDigit s)"

definition before_point :: "string \<Rightarrow> string" where
  "before_point = takeWhile (\<lambda>c. c \<noteq> CHR ''.'')"

definition after_point :: "string \<Rightarrow> string" where
  "after_point s = drop (Suc (length (before_point s))) s"

text \<open>A text between two quotes of one kind loses them, even when it is one quote only.\<close>

definition quoted_by :: "char \<Rightarrow> string \<Rightarrow> bool" where
  "quoted_by q s = (s \<noteq> [] \<and> hd s = q \<and> last s = q)"

definition atomValue :: "string \<Rightarrow> toolValue" where
  "atomValue symbol =
     (if digits symbol then IntValue (digits_value 0 symbol)
      else if digits (before_point symbol) \<and> digits (after_point symbol)
        then FloatValue (real_of_int (digits_value 0 (before_point symbol))
               + real_of_int (digits_value 0 (after_point symbol)) / 10 ^ length (after_point symbol))
      else if symbol = ''true'' then BoolValue True
      else if symbol = ''false'' then BoolValue False
      else if quoted_by CHR 0x22 symbol \<or> quoted_by CHR 0x27 symbol then TextValue (butlast (tl symbol))
      else TextValue symbol)"

fun termValue :: "narTerm \<Rightarrow> toolValue" where
  "termValue (Atom s) = atomValue s"
| "termValue (Compound _ args) = ListValue (map termValue args)"

definition argEntry :: "nat \<Rightarrow> narTerm \<Rightarrow> string \<times> toolValue" where
  "argEntry index t =
     (case (isType Inheritance t, getArgs t) of
        (True, val # Atom key # _) \<Rightarrow> (key, termValue val)
      | _ \<Rightarrow> (''arg'' @ show_nat index, termValue t))"

definition argEntriesOf :: "collation \<Rightarrow> narTerm option \<Rightarrow> (string \<times> toolValue) list" where
  "argEntriesOf collate args =
     (case args of
        None \<Rightarrow> []
      | Some a \<Rightarrow>
          if (case NO_ARGS collate of Inr n \<Rightarrow> sameTerms a n | Inl _ \<Rightarrow> False) then []
          else if isType ProductOp a then map (\<lambda>(i, t). argEntry i t) (enumerate 0 (getArgs a))
          else [argEntry 0 a])"

definition mapToRecord :: "('k \<times> 'v) list \<Rightarrow> ('k, 'v) omap" where
  "mapToRecord entries = fold (\<lambda>(k, v) m. omap_set m k v) entries []"

definition readOperationTerm :: "collation \<Rightarrow> narTerm \<Rightarrow> operationCall option" where
  "readOperationTerm collate t =
     map_option (\<lambda>name. \<lparr>call_name = name,
       call_args = mapToRecord (argEntriesOf collate (case getArgs t of _ # a # _ \<Rightarrow> Some a | _ \<Rightarrow> None))\<rparr>)
       (operationNameOf t)"

section \<open>Meta rules\<close>

definition META_RULE_TRUTH :: truth where
  "META_RULE_TRUTH = \<lparr>tf = 6 / 10, tc = 8 / 10\<rparr>"

definition META_RULE_PRIORITY :: real where "META_RULE_PRIORITY = 1 / 10"

definition extractVariableBinding :: "narTerm \<Rightarrow> string \<Rightarrow> string option" where
  "extractVariableBinding t expectedPredicate =
     (case binaryOf Inheritance t of
        Some (Atom s, Atom p) \<Rightarrow> if p = expectedPredicate then Some s else None
      | _ \<Rightarrow> None)"

definition arg_key :: "nat \<Rightarrow> string" where
  "arg_key i = ''arg'' @ show_nat i"

definition buildOperationTerm :: "collation \<Rightarrow> string \<Rightarrow> narTerm list \<Rightarrow> termError + narTerm" where
  "buildOperationTerm collate toolName argTerms =
     operationTerm collate toolName (map (\<lambda>(i, arg). (arg_key i, serialize arg)) (enumerate 0 argTerms))"

text \<open>\<open>[atom(x), ...]\<close>, evaluated before the call that takes it; an empty binding counts as none.\<close>

definition with_atoms :: "string list \<Rightarrow> (narTerm list \<Rightarrow> termError + narTerm) \<Rightarrow> conclusion" where
  "with_atoms symbols f = Some (bind_result (map_results builder_atom symbols) f)"

definition bound :: "string option \<Rightarrow> (string \<Rightarrow> conclusion) \<Rightarrow> conclusion" where
  "bound b f = (case b of None \<Rightarrow> None | Some s \<Rightarrow> if s = [] then None else f s)"

definition strategy_selection :: "collation \<Rightarrow> ruleFn" where
  "strategy_selection c = (\<lambda>(p1, p2) _.
     bound (extractVariableBinding p1 ''low'') (\<lambda>_.
     bound (extractVariableBinding p2 ''requires_strategy'') (\<lambda>_.
     with_atoms [''focused'', ''derivation''] (buildOperationTerm c ''switch_strategy''))))"

definition knob_tuning :: "collation \<Rightarrow> ruleFn" where
  "knob_tuning c = (\<lambda>(p1, p2) _.
     bound (extractVariableBinding p1 ''below_threshold'') (\<lambda>_.
     bound (extractVariableBinding p2 ''knob'') (\<lambda>knobName.
     with_atoms [knobName, ''auto''] (buildOperationTerm c ''tune_knob''))))"

definition FIX_PATTERNS :: "(string \<times> string) list" where
  "FIX_PATTERNS = [(''null_pointer_error'', ''fix_pattern:null_check''),
     (''type_mismatch_error'', ''fix_pattern:type_annotation''),
     (''out_of_bounds_error'', ''fix_pattern:boundary_check'')]"

definition test_repair :: "collation \<Rightarrow> ruleFn" where
  "test_repair c = (\<lambda>(p1, p2) _.
     bound (extractVariableBinding p1 ''test_failed'') (\<lambda>_.
     bound (extractVariableBinding p2 ''error_pattern'') (\<lambda>errorPattern.
     with_atoms [orElse (map_of FIX_PATTERNS errorPattern) ''fix_pattern:generic''] (buildOperationTerm c ''apply_fix''))))"

definition schema_promotion :: "collation \<Rightarrow> ruleFn" where
  "schema_promotion c = (\<lambda>(p1, _) _.
     bound (extractVariableBinding p1 ''schema'') (\<lambda>schemaName.
     with_atoms [schemaName] (buildOperationTerm c ''register_rule'')))"

definition capability_scaffold :: "collation \<Rightarrow> ruleFn" where
  "capability_scaffold c = (\<lambda>(p1, p2) _.
     bound (extractVariableBinding p1 ''capability'') (\<lambda>capabilityName.
     bound (extractVariableBinding p2 ''template'') (\<lambda>templateName.
     with_atoms [templateName, capabilityName] (buildOperationTerm c ''scaffold_capability''))))"

definition metaRule :: "string \<Rightarrow> ruleFn \<Rightarrow> (ruleFn, truthFn) registeredRule" where
  "metaRule ident body = \<lparr>rr_id = ident, rr_left = ''inheritance'', rr_right = ''inheritance'', rr_apply = body,
     rr_priority = META_RULE_PRIORITY, rr_truthFn = Some (\<lambda>_ _. META_RULE_TRUTH), rr_truthFnName = '''',
     rr_taskType = Some ''goal''\<rparr>"

definition buildMetaRules :: "collation \<Rightarrow> (ruleFn, truthFn) registeredRule list" where
  "buildMetaRules c = [
     metaRule ''meta-strategy-selection'' (strategy_selection c),
     metaRule ''meta-knob-tuning'' (knob_tuning c),
     metaRule ''meta-test-repair'' (test_repair c),
     metaRule ''meta-schema-promotion'' (schema_promotion c),
     metaRule ''meta-capability-scaffold'' (capability_scaffold c)]"

definition registerMetaRules ::
  "collation \<Rightarrow> (ruleFn, truthFn) ruleIndex \<Rightarrow> (ruleFn, truthFn) ruleIndex" where
  "registerMetaRules c index = fold (\<lambda>r i. index_register i r) (buildMetaRules c) index"

text \<open>The status report: whether both counts are below their bounds, and what is left of each.\<close>

definition MAX_META_DERIVATIONS_PER_STEP :: int where "MAX_META_DERIVATIONS_PER_STEP = 5"

definition getMetaBudgetStatus :: "int \<Rightarrow> int \<Rightarrow> bool \<times> int \<times> int" where
  "getMetaBudgetStatus derivationsThisStep depth =
     (derivationsThisStep < MAX_META_DERIVATIONS_PER_STEP \<and> depth < int MAX_META_DERIVATION_DEPTH,
      MAX_META_DERIVATIONS_PER_STEP - derivationsThisStep, int MAX_META_DERIVATION_DEPTH - depth)"

section \<open>Atoms of texts\<close>

lemma colon_invalid: "\<not> valid_atom_char CHR '':''"
  by (simp add: valid_atom_char_def)

lemma builder_atom_eq:
  "builder_atom s = (if s \<in> set CONSTANT_SYMBOLS then Inr (Atom s)
     else if CHR '':'' \<in> set s then Inl SymbolWithColon
     else case (if isVariableSymbol s \<or> isQuotedAtom s then None else find (\<lambda>ch. \<not> valid_atom_char ch) s) of
            Some bad \<Rightarrow> Inl (SymbolWithChar bad) | None \<Rightarrow> Inr (Atom s))"
proof -
  have "bm_get 0 emptyTermCache (atomKey s) = (None, emptyTermCache)"
    using term_cache_get [OF emptyTermCache_ok] by (simp add: emptyTermCache_def newBoundedMap_def)
  then show ?thesis by (simp add: builder_atom_def atomOf_def createAtom_def Let_def split: option.split)
qed

definition plain_text :: "string \<Rightarrow> bool" where
  "plain_text s \<longleftrightarrow> isValidAtomSymbol s \<or> isQuoted s \<and> CHR '':'' \<notin> set s"

lemma text_atom_plain:
  assumes "plain_text s"
  shows "text_atom s = Inr (Atom s)"
proof (cases "isValidAtomSymbol s")
  case True
  then have "CHR '':'' \<notin> set s" "find (\<lambda>ch. \<not> valid_atom_char ch) s = None"
    using colon_invalid by (auto simp: isValidAtomSymbol_def list_all_iff find_None_iff)
  then show ?thesis using True by (simp add: text_atom_def builder_atom_eq)
next
  case False
  then have "isQuotedAtom s" "CHR '':'' \<notin> set s" "isQuoted s" using assms
    by (auto simp: plain_text_def isQuoted_def isQuotedAtom_def)
  then show ?thesis by (simp add: text_atom_def builder_atom_eq)
qed

section \<open>The round trip\<close>

lemma normal_statement: "normal c (Compound Inheritance [Atom x, Atom y])"
  by (simp add: rawCompound_def compound_plan_def ordered_args_def stable_iff DEDUPED_iff)

lemma normal_product:
  assumes "list_all (normal c) ts" "list_all (\<lambda>t. \<not> isType ProductOp t) ts"
  shows "normal c (Compound ProductOp ts)"
  using assms by (auto simp: rawCompound_def compound_plan_def ordered_args_def stable_iff DEDUPED_iff no_nested_def list_ex_iff list_all_iff)

lemma normal_operation: "normal c (Compound ProductOp ts) \<Longrightarrow> normal c (Compound OperationOp [Atom f, Compound ProductOp ts])"
  by (simp add: rawCompound_def compound_plan_def ordered_args_def stable_iff DEDUPED_iff)

lemma build_normal_is:
  assumes "normal c (Compound k ts)"
  shows "build c k ts = Inr (Compound k ts)"
  using assms canonical_normal [OF assms] by (simp add: build_def createCompound_def del: canonicalTerm.simps)

lemma argTerm_plain:
  assumes "plain_text key" "plain_text val" "key \<noteq> val"
  shows "argTerm c key val = Inr (Compound Inheritance [Atom val, Atom key])"
proof -
  have "build_inheritance c (Atom val) (Atom key) = Some (build c Inheritance [Atom val, Atom key])"
    using assms(3) by (simp add: build_inheritance_def build_def containsSubterm_def atomKey_def)
  then show ?thesis
    using text_atom_plain [OF assms(1)] text_atom_plain [OF assms(2)] build_normal_is [OF normal_statement]
    by (simp add: argTerm_def bind_result_def)
qed

definition call_term :: "string \<Rightarrow> (string \<times> string) list \<Rightarrow> narTerm" where
  "call_term name args = Compound OperationOp [Atom name,
     Compound ProductOp (map (\<lambda>(key, val). Compound Inheritance [Atom val, Atom key]) args)]"

lemma operationTerm_plain:
  assumes "plain_text name" "list_all (\<lambda>(key, val). plain_text key \<and> plain_text val \<and> key \<noteq> val) args"
  shows "operationTerm c name args = Inr (call_term name args)" "normal c (call_term name args)"
proof -
  let ?ts = "map (\<lambda>(key, val). Compound Inheritance [Atom val, Atom key]) args"
  have p: "normal c (Compound ProductOp ?ts)"
    using normal_statement by (intro normal_product) (auto simp: list_all_iff)
  then show n: "normal c (call_term name args)" unfolding call_term_def by (rule normal_operation)
  have "map_results (\<lambda>(key, val). argTerm c key val) args = Inr ?ts"
    using assms(2) by (induction args) (auto simp: argTerm_plain)
  then show "operationTerm c name args = Inr (call_term name args)"
    using text_atom_plain [OF assms(1)] build_normal_is [OF p] build_normal_is [OF n [unfolded call_term_def]]
    by (simp add: operationTerm_def bind_result_def call_term_def)
qed

lemma NO_ARGS_is: "NO_ARGS c = Inr (Compound ProductOp [])"
  unfolding NO_ARGS_def by (rule build_normal_is, rule normal_product) simp_all

lemma mapToRecord_distinct:
  assumes "distinct (map fst es)"
  shows "mapToRecord es = es"
proof -
  have "fold (\<lambda>(k, v) m. omap_set m k v) es m = m @ es" if "distinct (map fst (m @ es))" for m
    using that
  proof (induction es arbitrary: m)
    case (Cons e es)
    obtain k v where e: "e = (k, v)" by (cases e)
    have "omap_set m k v = m @ [(k, v)]" using Cons.prems e by (simp add: omap_set_def update_new)
    then show ?case using Cons e by simp
  qed simp
  from this [of "[]"] show ?thesis using assms by (simp add: mapToRecord_def)
qed

lemma entries_plain:
  "argEntriesOf c (Some (Compound ProductOp (map (\<lambda>(key, val). Compound Inheritance [Atom val, Atom key]) args)))
    = map (\<lambda>(key, val). (key, atomValue val)) args"
proof (cases args)
  case (Cons a as)
  have "map (\<lambda>(i, t). argEntry i t) (enumerate n (map (\<lambda>(key, val). Compound Inheritance [Atom val, Atom key]) args))
      = map (\<lambda>(key, val). (key, atomValue val)) args" for n
    by (induction args arbitrary: n) (auto simp: argEntry_def)
  then show ?thesis using Cons by (simp add: argEntriesOf_def NO_ARGS_is)
qed (simp add: argEntriesOf_def NO_ARGS_is)

section \<open>Properties\<close>

text \<open>Whatever the texts, each key comes back with the value its text stands for.\<close>

lemma operation_texts:
  assumes "plain_text name" "list_all (\<lambda>(key, val). plain_text key \<and> plain_text val \<and> key \<noteq> val) args"
    and "distinct (map fst args)"
  shows "\<exists>t. operationTerm c name args = Inr t \<and> canonicalTerm c t = Inr t \<and> term_kind t = ''operation''
    \<and> readOperationTerm c t = Some \<lparr>call_name = name, call_args = map (\<lambda>(key, val). (key, atomValue val)) args\<rparr>"
proof (intro exI conjI)
  show "operationTerm c name args = Inr (call_term name args)" using assms(1,2) by (rule operationTerm_plain)
  show "canonicalTerm c (call_term name args) = Inr (call_term name args)"
    using operationTerm_plain(2) [OF assms(1,2)] by (rule canonical_normal)
  show "term_kind (call_term name args) = ''operation''" by (simp add: call_term_def)
  have "fst \<circ> (\<lambda>(key, val). (key, atomValue val)) = (fst :: string \<times> string \<Rightarrow> string)" by (auto simp: fun_eq_iff)
  then have "distinct (map fst (map (\<lambda>(key, val). (key, atomValue val)) args))" using assms(3) by simp
  then have "mapToRecord (map (\<lambda>(key, val). (key, atomValue val)) args) = map (\<lambda>(key, val). (key, atomValue val)) args"
    by (rule mapToRecord_distinct)
  moreover have "argEntriesOf c (case getArgs (call_term name args) of _ # a # _ \<Rightarrow> Some a | _ \<Rightarrow> None)
      = map (\<lambda>(key, val). (key, atomValue val)) args"
    using entries_plain by (simp add: call_term_def)
  ultimately show "readOperationTerm c (call_term name args)
      = Some \<lparr>call_name = name, call_args = map (\<lambda>(key, val). (key, atomValue val)) args\<rparr>"
    by (simp add: readOperationTerm_def operationNameOf_def call_term_def)
qed

text \<open>The text \<open>String(value)\<close> gives a value, as far as it is one atom's text: a safe integer without
  a sign, a boolean, or a text as it is. A fraction or a negative number has a character no plain
  atom holds.\<close>

fun written_as :: "toolValue \<Rightarrow> string \<Rightarrow> bool" where
  "written_as (IntValue n) s = (0 \<le> n \<and> n < 2 ^ 53 \<and> s = show_int n)"
| "written_as (BoolValue b) s = (s = (if b then ''true'' else ''false''))"
| "written_as (TextValue t) s = (s = t \<and> plain_text t)"
| "written_as _ s = False"

text \<open>The values whose text stands for them: a text that spells a number or a boolean, or is quoted,
  stands for another value.\<close>

fun own_text :: "toolValue \<Rightarrow> bool" where
  "own_text (TextValue t) \<longleftrightarrow> \<not> digits t \<and> t \<noteq> ''true'' \<and> t \<noteq> ''false'' \<and> \<not> isQuoted t"
| "own_text _ = True"

lemma digits_value_snoc: "digits_value acc (xs @ [c]) = 10 * digits_value acc xs + (of_char c - 48)"
  by (induction xs arbitrary: acc) simp_all

lemma digit_value: "d < 10 \<Longrightarrow> (of_char (char_of (48 + d :: nat)) :: int) = 48 + int d"
  by (subst of_nat_of_char [symmetric]) simp

lemma digits_value_show [simp]: "digits_value 0 (show_nat n) = int n"
proof (induction n rule: show_nat.induct)
  case (1 n)
  show ?case
  proof (cases "n < 10")
    case True
    then show ?thesis by (subst show_nat.simps) (simp add: digit_value)
  next
    case False
    have "digits_value 0 (show_nat n) = 10 * int (n div 10) + int (n mod 10)"
      using False 1 by (subst show_nat.simps) (simp add: digits_value_snoc digit_value)
    also have "\<dots> = int (10 * (n div 10) + n mod 10)" by (simp only: of_nat_add of_nat_mult of_nat_numeral)
    finally show ?thesis by (simp only: mult_div_mod_eq)
  qed
qed

lemma digits_show: "digits (show_nat n)"
proof -
  have "show_nat n \<noteq> []" by (subst show_nat.simps) simp
  then show ?thesis using show_nat_chars by (auto simp: digits_def isDigit_def list_all_iff)
qed

lemma digits_plain: "digits s \<Longrightarrow> plain_text s"
  by (auto simp: digits_def isDigit_def plain_text_def isValidAtomSymbol_def valid_atom_char_def list_all_iff Let_def)

lemma written_plain: "written_as v s \<Longrightarrow> plain_text s"
  by (cases v) (auto simp: show_int_def digits_plain digits_show split: if_splits,
    simp_all add: plain_text_def isValidAtomSymbol_def valid_atom_char_def)

lemma plain_no_number:
  assumes "plain_text t" "\<not> isQuoted t"
  shows "\<not> (digits (before_point t) \<and> digits (after_point t))" "\<not> quoted_by CHR 0x22 t" "\<not> quoted_by CHR 0x27 t"
proof -
  have v: "list_all valid_atom_char t" using assms by (auto simp: plain_text_def isValidAtomSymbol_def)
  have "\<not> valid_atom_char CHR ''.''" "\<not> valid_atom_char CHR 0x22" "\<not> valid_atom_char CHR 0x27"
    by (simp_all add: valid_atom_char_def)
  then have no: "CHR ''.'' \<notin> set t" "CHR 0x22 \<notin> set t" "CHR 0x27 \<notin> set t" using v by (auto simp: list_all_iff)
  have "before_point t = t" unfolding before_point_def using no(1) by (auto simp: takeWhile_eq_all_conv)
  then show "\<not> (digits (before_point t) \<and> digits (after_point t))" by (simp add: after_point_def digits_def)
  show "\<not> quoted_by CHR 0x22 t" "\<not> quoted_by CHR 0x27 t" using no by (metis hd_in_set quoted_by_def)+
qed

lemma atomValue_written:
  assumes "written_as v s" "own_text v"
  shows "atomValue s = v"
proof (cases v)
  case (IntValue n)
  then show ?thesis using assms(1) digits_show by (simp add: show_int_def atomValue_def)
next
  case (BoolValue b)
  then show ?thesis using assms(1)
    by (simp add: atomValue_def digits_def isDigit_def before_point_def after_point_def)
next
  case (TextValue t)
  then have "s = t" "plain_text t" "\<not> isQuoted t" "\<not> digits t" "t \<noteq> ''true''" "t \<noteq> ''false''" using assms by auto
  then show ?thesis using plain_no_number [of t] TextValue by (simp add: atomValue_def)
qed (use assms in simp_all)



text \<open>texts that do not come back. A text that spells a number comes back as the number, one that
  spells a boolean as the boolean, and a quoted one without its quotes, whatever the caller wrote.\<close>

theorem texts_change_type:
  assumes "plain_text name" "plain_text key" "key \<notin> {''3'', ''true'', [CHR 0x22, CHR ''h'', CHR 0x22]}"
  shows "\<exists>t. operationTerm c name [(key, ''3'')] = Inr t
      \<and> readOperationTerm c t = Some \<lparr>call_name = name, call_args = [(key, IntValue 3)]\<rparr>"
    and "\<exists>t. operationTerm c name [(key, ''true'')] = Inr t
      \<and> readOperationTerm c t = Some \<lparr>call_name = name, call_args = [(key, BoolValue True)]\<rparr>"
    and "\<exists>t. operationTerm c name [(key, [CHR 0x22, CHR ''h'', CHR 0x22])] = Inr t
      \<and> readOperationTerm c t = Some \<lparr>call_name = name, call_args = [(key, TextValue ''h'')]\<rparr>"
proof -
  have p: "plain_text ''3''" "plain_text ''true''" "plain_text [CHR 0x22, CHR ''h'', CHR 0x22]"
    by (simp_all add: plain_text_def isValidAtomSymbol_def valid_atom_char_def isQuoted_def)
  have a: "atomValue ''3'' = IntValue 3" "atomValue ''true'' = BoolValue True"
      "atomValue [CHR 0x22, CHR ''h'', CHR 0x22] = TextValue ''h''"
    by (simp_all add: atomValue_def digits_def isDigit_def before_point_def after_point_def quoted_by_def)
  show "\<exists>t. operationTerm c name [(key, ''3'')] = Inr t
      \<and> readOperationTerm c t = Some \<lparr>call_name = name, call_args = [(key, IntValue 3)]\<rparr>"
    using operation_texts [OF assms(1), of "[(key, ''3'')]" c] assms(2,3) p a by auto
  show "\<exists>t. operationTerm c name [(key, ''true'')] = Inr t
      \<and> readOperationTerm c t = Some \<lparr>call_name = name, call_args = [(key, BoolValue True)]\<rparr>"
    using operation_texts [OF assms(1), of "[(key, ''true'')]" c] assms(2,3) p a by auto
  show "\<exists>t. operationTerm c name [(key, [CHR 0x22, CHR ''h'', CHR 0x22])] = Inr t
      \<and> readOperationTerm c t = Some \<lparr>call_name = name, call_args = [(key, TextValue ''h'')]\<rparr>"
    using operation_texts [OF assms(1), of "[(key, [CHR 0x22, CHR ''h'', CHR 0x22])]" c] assms(2,3) p a by auto
qed

lemma first_numbers: "show_nat 0 = ''0''" "show_nat (Suc 0) = ''1''"
  by code_simp+

text \<open>an argument equal to its key falls apart. The encoder cannot write \<open>key --> key\<close> and writes
  a product instead, which the canonical form flattens into the argument list: one named argument is
  read back as two positional ones.\<close>

theorem operation_argument_split:
  assumes "plain_text name" "plain_text key"
  shows "\<exists>t. operationTerm c name [(key, key)] = Inr t
    \<and> readOperationTerm c t = Some \<lparr>call_name = name, call_args = [(''arg0'', atomValue key), (''arg1'', atomValue key)]\<rparr>"
proof (intro exI conjI)
  let ?p = "Compound ProductOp [Atom key, Atom key]" and ?t = "Compound OperationOp [Atom name, Compound ProductOp [Atom key, Atom key]]"
  have p: "normal c ?p" by (rule normal_product) simp_all
  have none: "build_inheritance c (Atom key) (Atom key) = None" by (simp add: build_inheritance_def containsSubterm_def)
  then have a: "argTerm c key key = Inr ?p"
    using text_atom_plain [OF assms(2)] build_normal_is [OF p] by (simp add: argTerm_def bind_result_def)
  have "build c ProductOp [?p] = Inr ?p"
  proof -
    have raw: "rawCompound c ProductOp ts = Inr (Compound ProductOp ts)" for ts
      by (simp add: rawCompound_def compound_plan_def ordered_args_def)
    have "one_pass c TERM_REDUCERS (Compound ProductOp [?p]) = Inr ?p"
      by (simp add: TERM_REDUCERS_def flattenNested_def dedupeArgs_def conjunctionContradiction_def disjunctionTautology_def
          doubleNegation_def negateBool_def boolAbsorb_def rebuild_as_def FLATTENED_def DEDUPED_iff raw)
    moreover have "one_pass c TERM_REDUCERS ?p = Inr ?p"
      by (simp add: TERM_REDUCERS_def flattenNested_def dedupeArgs_def conjunctionContradiction_def disjunctionTautology_def
          doubleNegation_def negateBool_def boolAbsorb_def rebuild_as_def FLATTENED_def DEDUPED_iff)
    ultimately have "settle c MAX_PASSES (Compound ProductOp [?p]) = Inr ?p"
      by (simp add: MAX_PASSES_def eval_nat_numeral)
    then have "canonicalTerm c (Compound ProductOp [?p]) = Inr ?p"
      using canonical_normal [OF p] by (subst canonicalTerm.simps) (simp add: raw del: canonicalTerm.simps)
    then show ?thesis by (simp add: build_def createCompound_def raw del: canonicalTerm.simps)
  qed
  then show "operationTerm c name [(key, key)] = Inr ?t"
    using a text_atom_plain [OF assms(1)] build_normal_is [OF normal_operation [OF p]]
    by (simp add: operationTerm_def bind_result_def)
  have "mapToRecord [(''arg0'', v), (''arg1'', v)] = [(''arg0'', v), (''arg1'', v)]" for v :: toolValue
    by (rule mapToRecord_distinct) simp
  moreover have "argEntriesOf c (Some ?p) = [(''arg0'', atomValue key), (''arg1'', atomValue key)]"
    using first_numbers by (simp add: argEntriesOf_def NO_ARGS_is argEntry_def del: show_nat.simps)
  ultimately show "readOperationTerm c ?t
      = Some \<lparr>call_name = name, call_args = [(''arg0'', atomValue key), (''arg1'', atomValue key)]\<rparr>"
    by (simp add: readOperationTerm_def operationNameOf_def)
qed

lemma operation_argument_split_witness:
  "\<exists>t. operationTerm plain ''log'' [(''level'', ''level'')] = Inr t
    \<and> readOperationTerm plain t = Some \<lparr>call_name = ''log'',
        call_args = [(''arg0'', atomValue ''level''), (''arg1'', atomValue ''level'')]\<rparr>"
  by (rule operation_argument_split) (simp_all add: plain_text_def isValidAtomSymbol_def valid_atom_char_def)

text \<open>the repair rule never concludes. Every fix pattern the rule can name holds a colon, which no
  atom may, quoted or not: on any two premises the rule matches nothing or throws.\<close>

theorem repair_rule_never_concludes:
  "case test_repair c (t1, t2) inputs of Some (Inr u) \<Rightarrow> False | Some (Inl e) \<Rightarrow> e = SymbolWithColon | None \<Rightarrow> True"
proof -
  have colon: "CHR '':'' \<in> set (orElse (map_of FIX_PATTERNS e) ''fix_pattern:generic'')
      \<and> orElse (map_of FIX_PATTERNS e) ''fix_pattern:generic'' \<notin> set CONSTANT_SYMBOLS" for e
    by (simp add: FIX_PATTERNS_def CONSTANT_SYMBOLS_def orElse_def)
  have "builder_atom (orElse (map_of FIX_PATTERNS e) ''fix_pattern:generic'') = Inl SymbolWithColon" for e
    using colon [of e] by (simp add: builder_atom_eq)
  then show ?thesis by (auto simp: test_repair_def bound_def with_atoms_def bind_result_def split: option.split)
qed

section \<open>Meta derivations over a life\<close>

definition is_meta_event :: "ruleEvent \<Rightarrow> bool" where
  "is_meta_event e = (case e of RuleApplied i _ _ _ _ \<Rightarrow> take 5 i = ''meta-'' | _ \<Rightarrow> False)"

definition meta_count :: "ruleEvent list \<Rightarrow> nat" where
  "meta_count evs = length (filter is_meta_event evs)"

lemma meta_count_append [simp]: "meta_count (xs @ ys) = meta_count xs + meta_count ys" "meta_count [] = 0"
  by (simp_all add: meta_count_def)

text \<open>The premise pairs a processor is given, one after the other.\<close>

fun process_pairs ::
  "'b charge \<Rightarrow> (ruleInput \<times> ruleInput) list \<Rightarrow> 'b ruleProcessor \<Rightarrow> (ruleEvent list \<times> 'b ruleProcessor) option" where
  "process_pairs charge [] s = Some ([], s)"
| "process_pairs charge ((p1, p2) # pairs) s =
     (case processSync charge p1 p2 s of
        None \<Rightarrow> None
      | Some (rs, evs, s1) \<Rightarrow> map_option (\<lambda>(evs', s2). (evs @ evs', s2)) (process_pairs charge pairs s1))"

lemma try_rule_meta:
  assumes "try_rule p1 p2 depth rule s = (rs, evs, s')"
  shows "rp_currentDepth s + meta_count evs \<le> rp_currentDepth s'
    \<and> rp_currentDepth s' \<le> (if isMetaRule rule then rp_currentDepth s + 1 else rp_currentDepth s)"
proof -
  have ev: "meta_count [RuleApplied (rr_id rule) a b t u] = (if isMetaRule rule then 1 else 0)" for a b t u
    by (simp add: meta_count_def is_meta_event_def isMetaRule_def)
  have no: "meta_count [RuleFailed i e] = 0" "meta_count [OutputRejected i t] = 0" for i e t
    by (simp_all add: meta_count_def is_meta_event_def)
  show ?thesis
    using assms
    by (auto simp: try_rule_def Let_def ev no recordMetaDerivation_def buildResult_def
        split: option.splits sum.splits if_splits prod.splits)
qed

lemma sweep_meta:
  assumes "sweep charge p1 p2 active depth rules s = Some (rs, evs, s')"
  shows "rp_currentDepth s + meta_count evs \<le> rp_currentDepth s'
    \<and> rp_currentDepth s' \<le> max (rp_currentDepth s) (rp_maxDepth s - 1)"
  using assms
proof (induction rules arbitrary: s rs evs s')
  case (Cons rule rules)
  from Cons.prems show ?case
  proof (cases rule: sweep_ConsE)
    case (skip b s1)
    then show ?thesis using Cons.IH [OF skip(3)] meta_gate_frame [OF skip(2)] by (simp add: frame_def)
  next
    case (tried b s1 r1 e1 s2 r2 e2)
    have g: "rp_currentDepth s1 = rp_currentDepth s" "rp_maxDepth s1 = rp_maxDepth s"
      "isMetaRule rule \<longrightarrow> rp_currentDepth s + 1 < rp_maxDepth s"
      using meta_gate_frame [OF tried(2)] by (simp_all add: frame_def)
    have t: "rp_currentDepth s1 + meta_count e1 \<le> rp_currentDepth s2"
      "rp_currentDepth s2 \<le> (if isMetaRule rule then rp_currentDepth s1 + 1 else rp_currentDepth s1)"
      "rp_maxDepth s2 = rp_maxDepth s1"
      using try_rule_meta [OF tried(3)] try_rule_frame [OF tried(3)] by (simp_all add: frame_def)
    show ?thesis using Cons.IH [OF tried(4)] g t tried(6) by (auto split: if_splits)
  qed simp_all
qed simp

text \<open>meta reasoning happens once. The depth a meta derivation is recorded at is a high-water mark
  that no step resets, and the next one must fit above it: over any number of premise pairs a processor
  draws fewer meta conclusions than its depth bound, less what it started from. With the shipped bound
  of two that is at most one in its life, although the bounds speak of five in a step.\<close>

theorem meta_rules_spent:
  assumes "process_pairs charge pairs s = Some (evs, s')"
  shows "rp_currentDepth s + meta_count evs \<le> max (rp_currentDepth s) (rp_maxDepth s - 1)
    \<and> rp_currentDepth s \<le> rp_currentDepth s'"
proof -
  have "rp_currentDepth s + meta_count evs \<le> rp_currentDepth s' \<and> rp_currentDepth s' \<le> max (rp_currentDepth s) (rp_maxDepth s - 1)
      \<and> rp_maxDepth s' = rp_maxDepth s"
    using assms
  proof (induction pairs arbitrary: s evs)
    case (Cons pair pairs)
    obtain p1 p2 where p: "pair = (p1, p2)" by (cases pair)
    then obtain rs e1 s1 where one: "processSync charge p1 p2 s = Some (rs, e1, s1)"
      using Cons.prems by (auto split: option.splits)
    then obtain e2 where more: "process_pairs charge pairs s1 = Some (e2, s')" "evs = e1 @ e2"
      using Cons.prems p by auto
    obtain rs0 active depth rules where sw: "sweep charge p1 p2 active depth rules s = Some (rs0, e1, s1)"
      using one by (auto simp: processSync_def applySyncRules_def Let_def)
    have "rp_maxDepth s1 = rp_maxDepth s" using sweep_results [OF sw] by (simp add: frame_def)
    then show ?case using Cons.IH [OF more(1)] sweep_meta [OF sw] more(2) by auto
  qed simp
  then show ?thesis by auto
qed

lemma meta_rules_spent_witness:
  "\<exists>evs s'. process_pairs unbudgeted_charge
        (replicate 9 (example_input (two Inheritance ''a'' ''low''), example_input (two Inheritance ''b'' ''requires_strategy'')))
        ((example_processor ())\<lparr>rp_table := registerMetaRules plain [], rp_drives := Some [1]\<rparr>) = Some (evs, s')
      \<and> meta_count evs \<le> 1"
proof -
  have total: "\<exists>evs s'. process_pairs unbudgeted_charge pairs s = Some (evs, s')" for pairs and s :: "unit ruleProcessor"
  proof (induction pairs arbitrary: s)
    case (Cons pair pairs)
    obtain p1 p2 where p: "pair = (p1, p2)" by (cases pair)
    obtain rs evs s1 where "processSync unbudgeted_charge p1 p2 s = Some (rs, evs, s1)"
      using sweep_unbudgeted unfolding processSync_def applySyncRules_def Let_def by (metis option.simps(9) prod_cases3)
    then show ?case using Cons.IH [of s1] p by auto
  qed simp
  let ?ps = "replicate 9 (example_input (two Inheritance ''a'' ''low''), example_input (two Inheritance ''b'' ''requires_strategy''))"
  let ?s = "(example_processor ())\<lparr>rp_table := registerMetaRules plain [], rp_drives := Some [1]\<rparr>"
  obtain evs s' where r: "process_pairs unbudgeted_charge ?ps ?s = Some (evs, s')" using total by blast
  have "rp_currentDepth ?s = 0" "rp_maxDepth ?s = 2" by (simp_all add: example_processor_def MAX_META_DERIVATION_DEPTH_def)
  then show ?thesis using meta_rules_spent [OF r] r by auto
qed

end
