(* ===== verification/Inert_Rules.thy ===== *)
theory Inert_Rules
  imports Processor
begin

text \<open>
  Rules of the shipped table that can add nothing: what the table's declarations
  (\<open>registration.ts\<close>), the bodies (\<open>rules/extended\<close>) and the processor's filters make of each
  other. A property of the three together; the definitions are theirs.
\<close>

section \<open>The rules\<close>

definition INERT_RULES :: "string list" where
  "INERT_RULES = [''nal.variableIntroduction'', ''nal.revisionWeak'', ''nal.instanceDeduction'',
     ''nal.propertyInduction'', ''nal.structuralInheritance'']"

definition INERT_BODIES :: "string list" where
  "INERT_BODIES = [''nal.extended:variableIntroduction'', ''nal.extended:revisionWeak'',
     ''nal.extended:instanceDeduction'', ''nal.extended:propertyInduction'', ''nal.extended:structuralInheritance'']"

lemma inert_declarations:
  "list_all (\<lambda>d. d_ruleId d \<in> set INERT_RULES \<longrightarrow> d_body d \<in> set INERT_BODIES) BUILTIN_DECLARATIONS"
  "list_all (\<lambda>i. i \<in> set (map d_ruleId BUILTIN_DECLARATIONS)) INERT_RULES"
  by code_simp+

text \<open>A body that concludes nothing but its first premise, on statements with two ends.\<close>

definition echoes :: "collation \<Rightarrow> ruleFn \<Rightarrow> bool" where
  "echoes c body \<longleftrightarrow> (\<forall>t1 t2 i u. normal c t1 \<longrightarrow> (isType Inheritance t1 \<longrightarrow> length (getArgs t1) = 2) \<longrightarrow>
     body (t1, t2) i = Some (Inr u) \<longrightarrow> u = t1)"

lemma echoesI:
  assumes "\<And>t1 t2 i u. normal c t1 \<Longrightarrow> (isType Inheritance t1 \<Longrightarrow> length (getArgs t1) = 2) \<Longrightarrow>
    body (t1, t2) i = Some (Inr u) \<Longrightarrow> u = t1"
  shows "echoes c body"
  using assms unfolding echoes_def by blast

lemma rebuilt:
  assumes "normal c t" "binaryOf Inheritance t = Some (x, y)" "isType Inheritance t \<Longrightarrow> length (getArgs t) = 2"
    and "build_inheritance c x y = Some (Inr u)"
  shows "u = t"
proof -
  have t: "t = Compound Inheritance [x, y]"
    using assms(2,3) by (cases t) (auto dest!: binaryOf_args)
  have "createCompound c Inheritance [Some x, Some y] = Inr u"
    using assms(4) by (auto simp: build_inheritance_def split: if_splits)
  moreover have "rawCompound c Inheritance [x, y] = Inr t"
    by (simp add: t rawCompound_def compound_plan_def ordered_args_def)
  ultimately show ?thesis
    using canonical_normal [OF assms(1)] filter_Some [of "[x, y]"] by (simp add: createCompound_def del: canonicalTerm.simps)
qed

lemma echoing_bodies:
  "echoes c (variableIntroduction c)" "echoes c revisionWeak" "echoes c (instanceDeduction c)"
  "echoes c (propertyInduction c)" "echoes c (structuralInheritance c)"
proof -
  show "echoes c (variableIntroduction c)"
    by (rule echoesI) (auto simp: variableIntroduction_def buildInhRule_def split: option.splits intro: rebuilt)
  show "echoes c revisionWeak"
    by (rule echoesI) (auto simp: revisionWeak_def split: option.splits if_splits)
  show "echoes c (instanceDeduction c)" "echoes c (propertyInduction c)"
    by (rule echoesI; auto simp: instanceDeduction_def propertyInduction_def deductionFromType_def
        buildSetMemberRule_def split: option.splits if_splits intro: rebuilt)+
  have "structuralInheritance c (t1, t2) i \<noteq> Some (Inr u)" for t1 t2 i u
    using args_preorder [of t1]
    by (auto simp: structuralInheritance_def list_ex_iff build_inheritance_def containsSubterm_def split: if_splits)
  then show "echoes c (structuralInheritance c)" by (intro echoesI) blast
qed

lemma inert_values:
  "map_of (RULE_BODIES c) ''nal.extended:variableIntroduction'' = Some (variableIntroduction c)"
  "map_of (RULE_BODIES c) ''nal.extended:revisionWeak'' = Some revisionWeak"
  "map_of (RULE_BODIES c) ''nal.extended:instanceDeduction'' = Some (instanceDeduction c)"
  "map_of (RULE_BODIES c) ''nal.extended:propertyInduction'' = Some (propertyInduction c)"
  "map_of (RULE_BODIES c) ''nal.extended:structuralInheritance'' = Some (structuralInheritance c)"
  by (rule sound_body_values)+

lemma inert_bodies_echo: "name \<in> set INERT_BODIES \<Longrightarrow> echoes c (the (map_of (RULE_BODIES c) name))"
  using echoing_bodies [of c] by (auto simp: INERT_BODIES_def inert_values)

section \<open>They never add a result\<close>

text \<open>C40: five shipped rules can never add a result. When the first premise is canonical and, if it is an
  inheritance, has two ends, what variable introduction, weak revision, instance deduction and property induction conclude is
  the first premise itself, which the processor drops, and structural inheritance would state an
  inheritance between a conjunction and its own member, which is never built. All five are shipped and
  charged to the budget of candidate derivations each time their cell is swept.\<close>

theorem inert_rules:
  assumes "loadBuiltinTable c = Inr st" "rule \<in> set (index_candidates (rt_dispatch st) (term_kind (in_term p1)) (term_kind (in_term p2)))"
    and "rr_id rule \<in> set INERT_RULES" "normal c (in_term p1)"
    and "isType Inheritance (in_term p1) \<Longrightarrow> length (getArgs (in_term p1)) = 2"
  shows "fst (try_rule p1 p2 depth rule s) = []"
proof -
  have "st = builtinStore c" using assms(1) by (simp add: loadBuiltinTable_store)
  with candidate_declared [OF assms(2) [unfolded this] term_kind_no_colon] obtain d where
    d: "d \<in> set BUILTIN_DECLARATIONS" "rule = registered (map_of (RULE_BODIES c)) (map_of TRUTH_FNS) d" by blast
  then have "d_body d \<in> set INERT_BODIES" using assms(3) inert_declarations(1) by (simp add: list_all_iff)
  then have "echoes c (rr_apply rule)" using inert_bodies_echo d(2) by simp
  then have "t = in_term p1" if "concluded p1 p2 rule t" for t
    using that assms(4,5) unfolding echoes_def concluded_def by blast
  then have no: "\<not> (concluded p1 p2 rule t \<and> admissible p1 p2 l t)" for t l
    by (auto simp: admissible_def)
  obtain rs evs s' where t: "try_rule p1 p2 depth rule s = (rs, evs, s')" by (cases "try_rule p1 p2 depth rule s")
  then have "rs = []"
    by (cases rule: try_rule_cases) (use no in auto)
  with t show ?thesis by simp
qed

lemma inert_rules_witness:
  "\<exists>rule \<in> set (index_candidates (rt_dispatch (builtinStore plain)) ''inheritance'' ''inheritance'').
     rr_id rule = ''nal.variableIntroduction''
     \<and> fst (try_rule (example_input (two Inheritance ''a'' ''b'')) (example_input (two Inheritance ''b'' ''c'')) 2 rule
         (example_processor ())) = []"
proof -
  let ?p1 = "example_input (two Inheritance ''a'' ''b'')" and ?p2 = "example_input (two Inheritance ''b'' ''c'')"
  have "\<exists>d \<in> set BUILTIN_DECLARATIONS. d_ruleId d = ''nal.variableIntroduction'' \<and> d_left d = ''inheritance''
      \<and> d_right d = ''inheritance''"
    by code_simp
  then obtain d where d: "d \<in> set BUILTIN_DECLARATIONS" "d_ruleId d = ''nal.variableIntroduction''"
    "d_left d = ''inheritance''" "d_right d = ''inheritance''" by blast
  let ?r = "registered (map_of (RULE_BODIES plain)) (map_of TRUTH_FNS) d"
  have r: "?r \<in> set (index_candidates (rt_dispatch (builtinStore plain)) (term_kind (in_term ?p1)) (term_kind (in_term ?p2)))"
    using declared_candidate [OF d(1), of plain] d(3,4) by (simp add: example_input_def two_def)
  have n: "normal plain (two Inheritance ''a'' ''b'')" by code_simp
  have "fst (try_rule ?p1 ?p2 2 ?r (example_processor ())) = []"
    by (rule inert_rules [OF loadBuiltinTable_store r]) (use d(2) n in \<open>simp_all add: INERT_RULES_def example_input_def two_def\<close>)
  then show ?thesis using r d(2) by (intro bexI [of _ ?r]) (simp_all add: example_input_def two_def)
qed

end
