(* ===== verification/Concept.thy ===== *)
theory Concept
  imports Bag Inference
begin

text \<open>
  A concept of the memory: \<open>nar/src/memory/concept.ts\<close> with the similarity of terms
  (\<open>terms/impls/utils.ts\<close>, \<open>utils/similarity.ts\<close>). Its three bags are the bags of \<open>Bag\<close>
  over task data. What an operation reads off the clock is one argument; the identifier minted for a
  new entry and the stamp minted for an unstamped task are arguments. The revision callback is the
  entry it is called with.
\<close>

section \<open>Similarity\<close>

definition jaccard :: "string list \<Rightarrow> string list \<Rightarrow> real" where
  "jaccard a b =
     (if a = [] \<and> b = [] then 0
      else let (small, large) = (if length a \<le> length b then (a, b) else (b, a));
               inter = length (filter (\<lambda>x. x \<in> set large) small)
           in safeRatio (real inter) (real (length a) + real (length b) - real inter) 0)"

definition calculateSimilarity :: "narTerm \<Rightarrow> narTerm \<Rightarrow> real" where
  "calculateSimilarity a b = (if sameTerms a b then 1 else jaccard (atomicSymbols a) (atomicSymbols b))"

section \<open>Attention\<close>

datatype attentionEvent =
  InputTouch | Assign real | Prime real "real option" | Related real "real option" | AttentionDecay real
  | SelfTune real "real option" | MergeValue real

definition INPUT_BOOST :: real where "INPUT_BOOST = 1 / 10"
definition TRUTH_IDENTITY_EPSILON :: real where "TRUTH_IDENTITY_EPSILON = 1 / 10 ^ 9"

section \<open>Task data\<close>

record taskData = bagItem +
  td_term :: narTerm
  td_truth :: "truth option"
  td_budget :: taskWeight
  td_timestamp :: "real option"
  td_stamp :: stamp
  td_occurrenceTime :: "real option"
  td_derived :: "bool option"

type_synonym taskBag = "unit taskData_ext bag"

text \<open>What a caller admits: task data without identifier and priority, stamped or not.\<close>

record taskInput =
  tn_term :: narTerm
  tn_truth :: "truth option"
  tn_budget :: taskWeight
  tn_timestamp :: "real option"
  tn_stamp :: "stamp option"
  tn_occurrenceTime :: "real option"
  tn_derived :: "bool option"

datatype revisionSource = FromInput | FromRevision

record revisionEntry =
  rv_termKey :: string
  rv_truth :: beliefTruth
  rv_stampId :: string
  rv_timestamp :: real
  rv_source :: revisionSource

text \<open>\<open>taskFromBagItem\<close>: a task read back, its occurrence the clock's when the entry has none.\<close>

definition taskFromBagItem :: "collation \<Rightarrow> real \<Rightarrow> taskData \<Rightarrow> taskType \<Rightarrow> termError + narTask" where
  "taskFromBagItem collate now item typ =
     createTask collate (td_term item) typ (orElse (td_truth item) NEUTRAL_TRUTH) (td_budget item) (td_stamp item)
       (orElse (td_occurrenceTime item) now) (orElse (td_derived item) False)"

section \<open>The concept\<close>

record concept =
  cc_term :: narTerm
  cc_beliefBag :: taskBag
  cc_goalBag :: taskBag
  cc_questionBag :: taskBag
  cc_createdAt :: real
  cc_lastAccessedAt :: real
  cc_priority :: real

record conceptConfig =
  cg_maxBeliefs :: "nat option"
  cg_maxGoals :: "nat option"
  cg_maxQuestions :: "nat option"
  cg_decayRate :: "real option"
  cg_forgetRate :: "real option"

definition concept_bag :: "conceptConfig \<Rightarrow> nat \<Rightarrow> string \<Rightarrow> taskBag" where
  "concept_bag config capacity ident =
     newBag \<lparr>bo_capacity = capacity, bo_decayRate = cg_decayRate config, bo_forgetRate = cg_forgetRate config, bo_id = ident\<rparr>"

definition newConcept :: "real \<Rightarrow> string \<Rightarrow> string \<Rightarrow> string \<Rightarrow> narTerm \<Rightarrow> conceptConfig \<Rightarrow> concept" where
  "newConcept now id1 id2 id3 t config =
     \<lparr>cc_term = t,
      cc_beliefBag = concept_bag config (orElse (cg_maxBeliefs config) 100) id1,
      cc_goalBag = concept_bag config (orElse (cg_maxGoals config) 50) id2,
      cc_questionBag = concept_bag config (orElse (cg_maxQuestions config) 20) id3,
      cc_createdAt = now, cc_lastAccessedAt = now, cc_priority = 0\<rparr>"

definition writeAttention :: "attentionEvent \<Rightarrow> concept \<Rightarrow> concept" where
  "writeAttention event c =
     (let boosted = (\<lambda>amount cap. c\<lparr>cc_priority := min (orElse cap 1) (clamp01 (cc_priority c + amount))\<rparr>)
      in case event of
           InputTouch \<Rightarrow> c\<lparr>cc_priority := clamp01 (cc_priority c + INPUT_BOOST)\<rparr>
         | Prime amount cap \<Rightarrow> boosted amount cap
         | Related amount cap \<Rightarrow> boosted amount cap
         | SelfTune amount cap \<Rightarrow> boosted amount cap
         | AttentionDecay amount \<Rightarrow> c\<lparr>cc_priority := max 0 (cc_priority c - amount)\<rparr>
         | Assign v \<Rightarrow> c\<lparr>cc_priority := clamp01 v\<rparr>
         | MergeValue v \<Rightarrow> c\<lparr>cc_priority := clamp01 v\<rparr>)"

text \<open>The strongest belief: the top of the bag, when it carries a truth.\<close>

definition topBelief :: "concept \<Rightarrow> (taskData \<times> truth) option" where
  "topBelief c =
     (case bag_peek (cc_beliefBag c) of
        None \<Rightarrow> None
      | Some top' \<Rightarrow> map_option (\<lambda>tr. (top', tr)) (td_truth top'))"

definition beliefTask :: "collation \<Rightarrow> real \<Rightarrow> concept \<Rightarrow> (termError + narTask) option" where
  "beliefTask collate now c =
     map_option (\<lambda>(belief, tr).
       createTask collate (cc_term c) BeliefType tr (createTaskWeight (cc_priority c)) (td_stamp belief) now False)
       (topBelief c)"

definition totalTasks :: "concept \<Rightarrow> nat" where
  "totalTasks c = bag_size (cc_beliefBag c) + bag_size (cc_goalBag c) + bag_size (cc_questionBag c)"

definition bag_of :: "taskType \<Rightarrow> concept \<Rightarrow> taskBag option" where
  "bag_of typ c =
     (case typ of BeliefType \<Rightarrow> Some (cc_beliefBag c) | GoalType \<Rightarrow> Some (cc_goalBag c)
      | QuestionType \<Rightarrow> Some (cc_questionBag c) | CommandType \<Rightarrow> None)"

definition set_bag :: "taskType \<Rightarrow> taskBag \<Rightarrow> concept \<Rightarrow> concept" where
  "set_bag typ b c =
     (case typ of BeliefType \<Rightarrow> c\<lparr>cc_beliefBag := b\<rparr> | GoalType \<Rightarrow> c\<lparr>cc_goalBag := b\<rparr>
      | QuestionType \<Rightarrow> c\<lparr>cc_questionBag := b\<rparr> | CommandType \<Rightarrow> c)"

definition getBeliefs :: "concept \<Rightarrow> taskData list" where "getBeliefs c = bag_toArray (cc_beliefBag c)"
definition getGoals :: "concept \<Rightarrow> taskData list" where "getGoals c = bag_toArray (cc_goalBag c)"
definition getQuestions :: "concept \<Rightarrow> taskData list" where "getQuestions c = bag_toArray (cc_questionBag c)"

definition recordAccess :: "real \<Rightarrow> concept \<Rightarrow> concept" where
  "recordAccess now c = writeAttention InputTouch (c\<lparr>cc_lastAccessedAt := now\<rparr>)"

definition findMatchingBelief :: "narTerm \<Rightarrow> concept \<Rightarrow> taskData option" where
  "findMatchingBelief t c = bag_find (cc_beliefBag c) (\<lambda>item. termKey (td_term item) = termKey t)"

definition hasMatchingBelief :: "narTerm \<Rightarrow> concept \<Rightarrow> bool" where
  "hasMatchingBelief t c = (findMatchingBelief t c \<noteq> None)"

section \<open>Admission\<close>

definition task_item :: "string \<Rightarrow> real \<Rightarrow> stamp \<Rightarrow> taskInput \<Rightarrow> taskData" where
  "task_item ident priority st d =
     \<lparr>bi_id = ident, bi_priority = priority, td_term = tn_term d, td_truth = tn_truth d, td_budget = tn_budget d,
      td_timestamp = tn_timestamp d, td_stamp = st, td_occurrenceTime = tn_occurrenceTime d, td_derived = tn_derived d\<rparr>"

definition revision_entry :: "concept \<Rightarrow> truth \<Rightarrow> string \<Rightarrow> real \<Rightarrow> revisionSource \<Rightarrow> revisionEntry" where
  "revision_entry c tr ident now src =
     \<lparr>rv_termKey = termKey (cc_term c), rv_truth = the (asBeliefTruth (Some (TermTruth tr))), rv_stampId = ident,
      rv_timestamp = now, rv_source = src\<rparr>"

text \<open>\<open>beliefBag.add\<close>, then the callback and the access when it was added. The object removed before a
  revision is the first entry that is the one found; entries that are equal match the same term.\<close>

definition put_belief ::
  "real \<Rightarrow> concept \<Rightarrow> taskData \<Rightarrow> revisionEntry option \<Rightarrow> bool \<times> revisionEntry option \<times> concept" where
  "put_belief now c item entry =
     (case bag_add now (cc_beliefBag c) item of
        (added, b) \<Rightarrow>
          (let c' = c\<lparr>cc_beliefBag := b\<rparr>
           in if added then (True, entry, recordAccess now c') else (False, None, c')))"

definition addBeliefWithRevision ::
  "real \<Rightarrow> string \<Rightarrow> stamp \<Rightarrow> concept \<Rightarrow> taskInput \<Rightarrow> bool \<times> revisionEntry option \<times> concept" where
  "addBeliefWithRevision now newId st c d =
     (case findMatchingBelief (tn_term d) c of
        Some existing \<Rightarrow>
          (case (tn_truth d, td_truth existing) of
             (Some tr, Some old) \<Rightarrow>
               if Truth_Values.isTruthEqual tr old TRUTH_IDENTITY_EPSILON then (True, None, recordAccess now c)
               else let revised = Truth_Values.t_revision tr old;
                        c' = c\<lparr>cc_beliefBag := snd (bag_remove (=) (cc_beliefBag c) (Inr existing))\<rparr>;
                        item = (task_item (bi_id existing) (w_priority (tn_budget d)) st d)
                                 \<lparr>td_truth := Some revised, td_timestamp := Some now\<rparr>
                    in put_belief now c' item
                         (Some (revision_entry c revised (stampId (td_stamp existing)) now FromRevision))
           | _ \<Rightarrow> (False, None, c))
      | None \<Rightarrow>
          put_belief now c (task_item newId (w_priority (tn_budget d)) st d)
            (map_option (\<lambda>tr. revision_entry c tr (stampId st) now FromInput) (tn_truth d)))"

definition addTask ::
  "real \<Rightarrow> string \<Rightarrow> stamp \<Rightarrow> taskType \<Rightarrow> taskInput \<Rightarrow> concept \<Rightarrow> bool \<times> revisionEntry option \<times> concept" where
  "addTask now newId fresh typ d c =
     (let st = orElse (tn_stamp d) fresh
      in if typ = BeliefType then addBeliefWithRevision now newId st c d
         else case bag_of typ c of
                None \<Rightarrow> (False, None, c)
              | Some b \<Rightarrow>
                  (case bag_add now b (task_item newId (w_priority (tn_budget d)) st d) of
                     (added, b') \<Rightarrow>
                       (let c' = set_bag typ b' c in (added, None, if added then recordAccess now c' else c'))))"

section \<open>Merging\<close>

definition calculateTaskOverlap :: "concept \<Rightarrow> concept \<Rightarrow> real" where
  "calculateTaskOverlap c other =
     (let keys = (\<lambda>k. unique (map (termKey \<circ> td_term) (getBeliefs k))) in jaccard (keys c) (keys other))"

text \<open>\<open>this !== other\<close> is the caller's: the concepts are two.\<close>

definition canMergeWith :: "concept \<Rightarrow> concept \<Rightarrow> real \<Rightarrow> bool" where
  "canMergeWith c other threshold =
     (calculateSimilarity (cc_term c) (cc_term other) \<ge> threshold \<or> calculateTaskOverlap c other \<ge> threshold)"

text \<open>Adding each entry of a bag to the bag itself: the loop runs over the list that grows under it.\<close>

lemma bag_add_capacity [simp]: "b_capacity (snd (bag_add now b item)) = b_capacity b"
  by (auto simp: bag_add_def shouldOverflow_def insertEntry_def dropLast_def syncTree_def Let_def)

lemma insertEntry_items:
  "map ie_item (b_list (insertEntry b e)) = take (insertIndex b (bi_priority (ie_item e))) (map ie_item (b_list b))
     @ ie_item e # drop (insertIndex b (bi_priority (ie_item e))) (map ie_item (b_list b))"
  by (simp add: insertEntry_def Let_def take_map drop_map)

lemma dropLast_list: "b_list (dropLast b) = butlast (b_list b)"
  by (simp add: dropLast_def syncTree_def Let_def)

lemma bag_add_cases:
  obtains (refused) "bag_add now b x = (False, b)"
      "b_capacity b = 0 \<or> b_capacity b \<le> length (b_list b) \<and> b_list b \<noteq> [] \<and> bi_priority x \<le> bi_priority (ie_item (last (b_list b)))"
  | (room) n b' where "bag_add now b x = (True, b')" "length (b_list b) < b_capacity b" "n = insertIndex b (bi_priority x)"
      "map ie_item (b_list b') = take n (map ie_item (b_list b)) @ x # drop n (map ie_item (b_list b))"
  | (full) n b' d where "bag_add now b x = (True, b')" "b_capacity b \<le> length (b_list b)" "b_list b \<noteq> []" "b_capacity b \<noteq> 0"
      "bi_priority (ie_item (last (b_list b))) < bi_priority x"
      "d = dropLast (b\<lparr>b_totalPriority := b_totalPriority b - bi_priority (ie_item (last (b_list b)))\<rparr>)"
      "n = insertIndex d (bi_priority x)"
      "map ie_item (b_list b') = take n (butlast (map ie_item (b_list b))) @ x # drop n (butlast (map ie_item (b_list b)))"
proof (cases "b_capacity b = 0")
  case True
  then show thesis using refused by (simp add: bag_add_def)
next
  case cap: False
  let ?e = "\<lparr>ie_item = x, ie_createdAt = now, ie_lastAccessedAt = now\<rparr>"
  show thesis
  proof (cases "length (b_list b) < b_capacity b")
    case True
    then show thesis
      using insertEntry_items [of b ?e] cap by (intro room [of "snd (bag_add now b x)"]) (auto simp: bag_add_def Let_def)
  next
    case False
    then have ne: "b_list b \<noteq> []" using cap by auto
    let ?d = "dropLast (b\<lparr>b_totalPriority := b_totalPriority b - bi_priority (ie_item (last (b_list b)))\<rparr>)"
    show thesis
    proof (cases "bi_priority x \<le> bi_priority (ie_item (last (b_list b)))")
      case True
      then show thesis using refused False ne cap by (simp add: bag_add_def shouldOverflow_def Let_def)
    next
      case lt: False
      have "map ie_item (b_list ?d) = butlast (map ie_item (b_list b))" by (simp add: dropLast_list map_butlast)
      then show thesis
        using insertEntry_items [of ?d ?e] False ne cap lt
        by (intro full [of "snd (bag_add now b x)" ?d]) (auto simp: bag_add_def shouldOverflow_def Let_def)
    qed
  qed
qed

lemma length_inserted:
  assumes "map f ys = take n xs @ x # drop n xs"
  shows "length ys = Suc (length xs)"
  using arg_cong [OF assms, of length] by (simp add: min_def split: if_splits)

lemma bag_add_length:
  "length (b_list (snd (bag_add now b x))) \<le> max (length (b_list b)) (b_capacity b)"
proof (cases rule: bag_add_cases [of now b x])
  case (room n b')
  show ?thesis using length_inserted [OF room(4)] room(1,2) by simp
next
  case (full n b' d)
  show ?thesis using length_inserted [OF full(8)] full(1,2,3) by simp
qed simp

function absorb_self :: "real \<Rightarrow> nat \<Rightarrow> 'a bag \<Rightarrow> 'a bag" where
  "absorb_self now i b =
     (if i < length (b_list b) then absorb_self now (i + 1) (snd (bag_add now b (ie_item (b_list b ! i)))) else b)"
  by auto
termination absorb_self
proof (relation "measure (\<lambda>(now, i, b). max (length (b_list b)) (b_capacity b) - i)")
  fix now :: real and i and b :: "'a bag"
  assume "i < length (b_list b)"
  then show "((now, i + 1, snd (bag_add now b (ie_item (b_list b ! i)))), now, i, b)
      \<in> measure (\<lambda>(now, i, b). max (length (b_list b)) (b_capacity b) - i)"
    using bag_add_length [of now b "ie_item (b_list b ! i)"] by auto
qed simp

declare absorb_self.simps [simp del]

definition absorb :: "real \<Rightarrow> 'a bag \<Rightarrow> 'a bag \<Rightarrow> 'a bag" where
  "absorb now other b = fold (\<lambda>item b. snd (bag_add now b item)) (bag_toArray other) b"

definition absorb_all :: "real \<Rightarrow> concept \<Rightarrow> concept \<Rightarrow> concept" where
  "absorb_all now other c =
     c\<lparr>cc_beliefBag := absorb now (cc_beliefBag other) (cc_beliefBag c),
       cc_goalBag := absorb now (cc_goalBag other) (cc_goalBag c),
       cc_questionBag := absorb now (cc_questionBag other) (cc_questionBag c)\<rparr>"

definition mergeWith :: "real \<Rightarrow> concept list \<Rightarrow> concept \<Rightarrow> concept" where
  "mergeWith now others c =
     (let c1 = c\<lparr>cc_beliefBag := absorb_self now 0 (cc_beliefBag c), cc_goalBag := absorb_self now 0 (cc_goalBag c),
                 cc_questionBag := absorb_self now 0 (cc_questionBag c)\<rparr>;
          c2 = fold (absorb_all now) others c1
      in case maxScore others cc_priority (cc_priority c2) of
           Fin v \<Rightarrow> writeAttention (MergeValue v) c2
         | _ \<Rightarrow> c2)"

section \<open>One belief per term\<close>

definition beliefKeys :: "concept \<Rightarrow> string list" where
  "beliefKeys c = map (termKey \<circ> td_term) (getBeliefs c)"

definition concept_ok :: "concept \<Rightarrow> bool" where
  "concept_ok c \<longleftrightarrow> bag_inv (cc_beliefBag c) \<and> bag_inv (cc_goalBag c) \<and> bag_inv (cc_questionBag c)
     \<and> distinct (beliefKeys c) \<and> 0 \<le> cc_priority c \<and> cc_priority c \<le> 1"

datatype conceptOp = Admit real string stamp taskType taskInput | Attend attentionEvent

fun concept_step :: "concept \<Rightarrow> conceptOp \<Rightarrow> concept" where
  "concept_step c (Admit now newId fresh typ d) = snd (snd (addTask now newId fresh typ d c))"
| "concept_step c (Attend event) = writeAttention event c"

fun cap_ok :: "real option \<Rightarrow> bool" where
  "cap_ok None = True"
| "cap_ok (Some cap) = (0 \<le> cap)"

fun event_ok :: "attentionEvent \<Rightarrow> bool" where
  "event_ok (Prime amount cap) = cap_ok cap"
| "event_ok (Related amount cap) = cap_ok cap"
| "event_ok (SelfTune amount cap) = cap_ok cap"
| "event_ok (AttentionDecay amount) = (0 \<le> amount)"
| "event_ok _ = True"

fun concept_op_ok :: "conceptOp \<Rightarrow> bool" where
  "concept_op_ok (Admit now newId fresh typ d) = (0 \<le> w_priority (tn_budget d))"
| "concept_op_ok (Attend event) = event_ok event"

lemma find_by_key:
  assumes "distinct (map k xs)" "x \<in> set xs" "k x = v"
  shows "find (\<lambda>y. k y = v) xs = Some x"
  using assms by (induction xs) force+

lemma writeAttention_frame [simp]:
  "cc_beliefBag (writeAttention e c) = cc_beliefBag c" "cc_goalBag (writeAttention e c) = cc_goalBag c"
  "cc_questionBag (writeAttention e c) = cc_questionBag c" "cc_term (writeAttention e c) = cc_term c"
  by (cases e; simp add: writeAttention_def Let_def)+

lemma recordAccess_frame [simp]:
  "cc_beliefBag (recordAccess now c) = cc_beliefBag c" "cc_goalBag (recordAccess now c) = cc_goalBag c"
  "cc_questionBag (recordAccess now c) = cc_questionBag c" "cc_term (recordAccess now c) = cc_term c"
  by (simp_all add: recordAccess_def)

lemma beliefKeys_cong: "cc_beliefBag c = cc_beliefBag c' \<Longrightarrow> beliefKeys c = beliefKeys c'"
  by (simp add: beliefKeys_def getBeliefs_def)

lemma writeAttention_ok:
  assumes "concept_ok c" "event_ok e"
  shows "concept_ok (writeAttention e c)"
proof -
  have "0 \<le> cc_priority (writeAttention e c) \<and> cc_priority (writeAttention e c) \<le> 1"
    using assms clamp01_range
    by (cases e) (auto simp: writeAttention_def concept_ok_def orElse_def min_le_iff_disj split: option.splits)
  then show ?thesis using assms(1) beliefKeys_cong [of "writeAttention e c" c] by (simp add: concept_ok_def)
qed

lemma recordAccess_ok:
  assumes "concept_ok c"
  shows "concept_ok (recordAccess now c)"
proof -
  have "concept_ok (c\<lparr>cc_lastAccessedAt := now\<rparr>)"
    using assms beliefKeys_cong [of "c\<lparr>cc_lastAccessedAt := now\<rparr>" c] by (simp add: concept_ok_def)
  then show ?thesis by (simp add: recordAccess_def writeAttention_ok)
qed

text \<open>The entries after an addition: the old ones, or all but the last, and the new one.\<close>

lemma bag_add_mset:
  "mset (bag_toArray (snd (bag_add now b x))) =
     (if \<not> fst (bag_add now b x) then mset (bag_toArray b)
      else add_mset x (mset (if length (b_list b) < b_capacity b then bag_toArray b else butlast (bag_toArray b))))"
proof (cases rule: bag_add_cases [of now b x])
  case refused
  then show ?thesis by simp
next
  case (room n b')
  have "mset (take n (map ie_item (b_list b))) + mset (drop n (map ie_item (b_list b))) = mset (map ie_item (b_list b))"
    by (metis append_take_drop_id mset_append)
  then show ?thesis using room(1,2) by (simp add: bag_toArray_def room(4) del: mset_map)
next
  case (full n b' d)
  let ?xs = "butlast (map ie_item (b_list b))"
  have "mset (take n ?xs) + mset (drop n ?xs) = mset ?xs"
    by (metis append_take_drop_id mset_append)
  then show ?thesis using full(1,2) by (simp add: bag_toArray_def full(8) del: mset_map)
qed

lemma bag_add_accepts:
  assumes "length (b_list b) < b_capacity b"
  shows "fst (bag_add now b x)"
  using assms by (simp add: bag_add_def Let_def)

lemma beliefs_after_add:
  assumes "distinct (map k (bag_toArray b))" "k x \<notin> k ` set (bag_toArray b)"
  shows "distinct (map k (bag_toArray (snd (bag_add now b x))))"
proof -
  have "mset (map k (bag_toArray (snd (bag_add now b x)))) = mset (map k (bag_toArray b))
      \<or> mset (map k (bag_toArray (snd (bag_add now b x)))) = mset (map k (x # bag_toArray b))
      \<or> mset (map k (bag_toArray (snd (bag_add now b x)))) = mset (map k (x # butlast (bag_toArray b)))"
    using bag_add_mset [of now b x] by (auto simp: split: if_splits)
  moreover have "distinct (map k (x # bag_toArray b))" using assms by simp
  moreover have "distinct (map k (x # butlast (bag_toArray b)))"
    using assms by (auto simp: map_butlast distinct_butlast dest: in_set_butlastD)
  ultimately show ?thesis using assms(1) mset_eq_imp_distinct_iff by metis
qed

lemma find_Some_mem: "find p xs = Some x \<Longrightarrow> x \<in> set xs \<and> p x"
  by (induction xs) (auto split: if_splits)

text \<open>Taking out the belief that was found: no entry of its term is left, and there is room.\<close>

lemma belief_taken_out:
  fixes b :: taskBag
  assumes "bag_inv b" "distinct (map (termKey \<circ> td_term) (bag_toArray b))"
    and "bag_find b (\<lambda>item. termKey (td_term item) = key) = Some existing"
    and "b' = snd (bag_remove (=) b (Inr existing))"
  shows "bag_inv b'" "distinct (map (termKey \<circ> td_term) (bag_toArray b'))"
    "key \<notin> (termKey \<circ> td_term) ` set (bag_toArray b')" "length (b_list b') < b_capacity b'"
    "mset (bag_toArray b) = add_mset existing (mset (bag_toArray b'))" "b_capacity b' = b_capacity b"
proof -
  let ?k = "termKey \<circ> td_term"
  have m: "existing \<in> set (bag_toArray b)" "?k existing = key"
    using find_Some_mem [OF assms(3) [unfolded bag_find_def]] by (simp_all add: bag_toArray_def)
  have "find_index (\<lambda>e. ie_item e = existing) (b_list b) \<noteq> None"
    using m(1) by (auto simp: find_index_None bag_toArray_def)
  then obtain i where i: "find_index (\<lambda>e. ie_item e = existing) (b_list b) = Some i" by blast
  then have i': "i < length (b_list b)" "ie_item (b_list b ! i) = existing" by (simp_all add: find_index_Some)
  have b': "b' = dropAt b i" by (simp add: assms(4) bag_remove_def indexOf_def i)
  have l: "bag_toArray b' = delete_at i (bag_toArray b)"
    by (simp add: b' dropAt_def eraseAt_def bag_toArray_def delete_at_def take_map drop_map)
  show inv: "bag_inv b'" using dropAt_inv(1) [OF assms(1) i'(1)] b' by simp
  show cap: "b_capacity b' = b_capacity b" by (simp add: b' dropAt_def eraseAt_def)
  show "length (b_list b') < b_capacity b'"
    using dropAt_inv(2) [OF assms(1) i'(1)] i'(1) assms(1) cap unfolding b' bag_inv_def by linarith
  have split: "bag_toArray b = take i (bag_toArray b) @ existing # drop (Suc i) (bag_toArray b)"
    using i' id_take_nth_drop [of i "bag_toArray b"] by (simp add: bag_toArray_def)
  have "mset (bag_toArray b) = mset (take i (bag_toArray b) @ existing # drop (Suc i) (bag_toArray b))"
    using split by simp
  then show ms: "mset (bag_toArray b) = add_mset existing (mset (bag_toArray b'))"
    by (simp add: l delete_at_def)
  have "mset (map ?k (bag_toArray b)) = mset (map ?k (existing # bag_toArray b'))" using ms by simp
  then have "distinct (map ?k (existing # bag_toArray b'))" using assms(2) mset_eq_imp_distinct_iff by blast
  then show "distinct (map ?k (bag_toArray b'))" "key \<notin> ?k ` set (bag_toArray b')" using m(2) by simp_all
qed

lemma put_belief_ok:
  assumes "concept_ok c" "termKey (td_term item) \<notin> set (beliefKeys c)" "0 \<le> bi_priority item"
  shows "concept_ok (snd (snd (put_belief now c item entry)))"
proof -
  obtain added b where add: "bag_add now (cc_beliefBag c) item = (added, b)" by (cases "bag_add now (cc_beliefBag c) item")
  have "bag_inv b" using assms(1,3) add_inv [of "cc_beliefBag c" item now] add by (simp add: concept_ok_def)
  moreover have "distinct (map (termKey \<circ> td_term) (bag_toArray b))"
    using beliefs_after_add [of "termKey \<circ> td_term" "cc_beliefBag c" item now] assms(1,2) add
    by (simp add: concept_ok_def beliefKeys_def getBeliefs_def)
  ultimately have "concept_ok (c\<lparr>cc_beliefBag := b\<rparr>)"
    using assms(1) by (simp add: concept_ok_def beliefKeys_def getBeliefs_def)
  then show ?thesis using add by (simp add: put_belief_def recordAccess_ok Let_def)
qed

lemma findMatching_None: "findMatchingBelief t c = None \<longleftrightarrow> termKey t \<notin> set (beliefKeys c)"
proof -
  have "findMatchingBelief t c = None \<longleftrightarrow> (\<forall>item \<in> set (getBeliefs c). termKey (td_term item) \<noteq> termKey t)"
    by (auto simp: findMatchingBelief_def bag_find_def getBeliefs_def bag_toArray_def find_None_iff)
  also have "\<dots> \<longleftrightarrow> termKey t \<notin> set (beliefKeys c)"
    unfolding beliefKeys_def set_map image_iff comp_apply by metis
  finally show ?thesis .
qed

lemma revision_room:
  assumes "concept_ok c" "findMatchingBelief t c = Some existing"
    and "c' = c\<lparr>cc_beliefBag := snd (bag_remove (=) (cc_beliefBag c) (Inr existing))\<rparr>"
  shows "concept_ok c'" "termKey t \<notin> set (beliefKeys c')"
    "length (b_list (cc_beliefBag c')) < b_capacity (cc_beliefBag c')"
  using assms belief_taken_out [of "cc_beliefBag c" "termKey t" existing, OF _ _ _ refl]
  by (simp_all add: concept_ok_def beliefKeys_def getBeliefs_def findMatchingBelief_def image_image)

lemma addBelief_ok:
  assumes "concept_ok c" "0 \<le> w_priority (tn_budget d)"
  shows "concept_ok (snd (snd (addBeliefWithRevision now newId st c d)))"
proof (cases "findMatchingBelief (tn_term d) c")
  case None
  then have "termKey (tn_term d) \<notin> set (beliefKeys c)" using findMatching_None by blast
  then show ?thesis using None assms put_belief_ok [OF assms(1)]
    by (simp add: addBeliefWithRevision_def task_item_def)
next
  case (Some existing)
  note room = revision_room [OF assms(1) Some refl]
  show ?thesis
    using Some assms put_belief_ok [OF room(1)] room(2) recordAccess_ok [OF assms(1)]
    by (simp add: addBeliefWithRevision_def task_item_def Let_def split: option.split)
qed

lemma addTask_ok:
  assumes "concept_ok c" "0 \<le> w_priority (tn_budget d)"
  shows "concept_ok (snd (snd (addTask now newId fresh typ d c)))"
proof -
  let ?item = "task_item newId (w_priority (tn_budget d)) (orElse (tn_stamp d) fresh) d"
  have ok: "concept_ok (set_bag typ (snd (bag_add now b ?item)) c)" if "bag_of typ c = Some b" "typ \<noteq> BeliefType" for b
    using that assms add_inv [of b "?item" now]
    by (cases "typ") (auto simp: bag_of_def set_bag_def concept_ok_def beliefKeys_def getBeliefs_def task_item_def)
  show ?thesis
  proof (cases "typ = BeliefType \<or> bag_of typ c = None")
    case True
    then show ?thesis using assms addBelief_ok by (auto simp: addTask_def Let_def)
  next
    case False
    then obtain b where b: "bag_of typ c = Some b" "typ \<noteq> BeliefType" by auto
    then show ?thesis
      using ok [OF b] recordAccess_ok by (auto simp: addTask_def Let_def split: prod.split)
  qed
qed

lemma newConcept_ok: "concept_ok (newConcept now i j k t config)"
proof -
  have "bag_toArray (concept_bag config n ident) = []" "bag_inv (concept_bag config n ident)" for n ident
    by (simp_all add: concept_bag_def newBag_inv, simp add: newBag_def bag_toArray_def)
  then show ?thesis by (simp add: newConcept_def concept_ok_def beliefKeys_def getBeliefs_def)
qed

text \<open>C15: a concept holds one belief per term. After any admissions with a priority that is not
  negative, and any changes of attention whose decay and caps are not negative,
  from an empty concept, no two beliefs share a term key, each bag is in order, within its capacity and with
  its total right, and the priority lies between 0 and 1.\<close>

theorem concept_keeps_invariant:
  assumes "list_all concept_op_ok ops"
  shows "let c = foldl concept_step (newConcept now i j k t config) ops
    in distinct (map (termKey \<circ> td_term) (getBeliefs c))
       \<and> bag_inv (cc_beliefBag c) \<and> bag_inv (cc_goalBag c) \<and> bag_inv (cc_questionBag c)
       \<and> 0 \<le> cc_priority c \<and> cc_priority c \<le> 1"
proof -
  have "concept_ok c \<Longrightarrow> list_all concept_op_ok ops \<Longrightarrow> concept_ok (foldl concept_step c ops)" for c
  proof (induction ops arbitrary: c)
    case (Cons op ops)
    then show ?case by (cases op) (auto simp: addTask_ok writeAttention_ok)
  qed simp
  from this [OF newConcept_ok assms] show ?thesis by (simp add: concept_ok_def beliefKeys_def Let_def)
qed

section \<open>Evidence\<close>

lemma put_belief_found:
  assumes "concept_ok c" "termKey (td_term item) = termKey t" "termKey t \<notin> set (beliefKeys c)" "0 \<le> bi_priority item"
    and "length (b_list (cc_beliefBag c)) < b_capacity (cc_beliefBag c)"
  shows "findMatchingBelief t (snd (snd (put_belief now c item entry))) = Some item"
    "put_belief now c item entry = (True, entry, snd (snd (put_belief now c item entry)))"
proof -
  let ?c = "snd (snd (put_belief now c item entry))"
  have ok: "concept_ok ?c" using put_belief_ok assms by simp
  have acc: "fst (bag_add now (cc_beliefBag c) item)" using bag_add_accepts assms(5) by blast
  then have bag: "cc_beliefBag ?c = snd (bag_add now (cc_beliefBag c) item)"
    by (simp add: put_belief_def Let_def split: prod.split)
  have "mset (bag_toArray (cc_beliefBag ?c)) = add_mset item (mset (bag_toArray (cc_beliefBag c)))"
    using bag_add_mset [of now "cc_beliefBag c" item] acc assms(5) bag by simp
  then have "item \<in> set (bag_toArray (cc_beliefBag ?c))" by (metis set_mset_mset union_single_eq_member)
  then show "findMatchingBelief t ?c = Some item"
    using ok assms(2) find_by_key [of "termKey \<circ> td_term" "bag_toArray (cc_beliefBag ?c)" item "termKey t"]
    by (simp add: findMatchingBelief_def bag_find_def bag_toArray_def concept_ok_def beliefKeys_def getBeliefs_def)
  show "put_belief now c item entry = (True, entry, ?c)"
    using acc by (cases "bag_add now (cc_beliefBag c) item") (simp add: put_belief_def Let_def)
qed

lemma addBelief_revises:
  assumes "concept_ok c" "findMatchingBelief (tn_term d) c = Some existing" "td_truth existing = Some old"
    and "tn_truth d = Some tr" "\<not> Truth_Values.isTruthEqual tr old TRUTH_IDENTITY_EPSILON" "0 \<le> w_priority (tn_budget d)"
  shows "findMatchingBelief (tn_term d) (snd (snd (addBeliefWithRevision now newId st c d)))
    = Some ((task_item (bi_id existing) (w_priority (tn_budget d)) st d)
        \<lparr>td_truth := Some (Truth_Values.t_revision tr old), td_timestamp := Some now\<rparr>)"
proof -
  note room = revision_room [OF assms(1,2) refl]
  show ?thesis
    using put_belief_found(1) [OF room(1) _ room(2) _ room(3)] assms
    by (simp add: addBeliefWithRevision_def task_item_def Let_def)
qed

lemma weight_gap:
  assumes "truth_inv a" "truth_inv b" "1 / 1000 < weight b - weight a"
  shows "\<not> Truth_Values.isTruthEqual a b TRUTH_IDENTITY_EPSILON"
proof -
  have c: "weight x = 1 / (1 - tc x) - 1 \<and> 1 / 1000 \<le> 1 - tc x" if "truth_inv x" for x
    using truth_invD [OF that] by (auto simp: weight_def confidenceToWeight_def MAX_CONFIDENCE_def field_simps)
  let ?a = "1 - tc a" and ?b = "1 - tc b"
  have p: "1 / 1000 \<le> ?a" "1 / 1000 \<le> ?b" using c [OF assms(1)] c [OF assms(2)] by auto
  then have nz: "?a \<noteq> 0" "?b \<noteq> 0" "0 < ?a * ?b" by auto
  have "weight b - weight a = 1 / ?b - 1 / ?a" using c [OF assms(1)] c [OF assms(2)] by simp
  also have "\<dots> = (?a - ?b) / (?a * ?b)" using nz(1,2) by (simp only: diff_frac_eq [OF nz(2,1)]) (simp add: mult.commute)
  finally have "1 / 1000 < (tc b - tc a) / (?a * ?b)" using assms(3) by simp
  then have "1 / 1000 * (?a * ?b) < tc b - tc a" by (simp only: pos_less_divide_eq [OF nz(3)])
  moreover have "(1 / 1000) * (1 / 1000) \<le> ?a * ?b" using p by (intro mult_mono) auto
  ultimately have "1 / 10 ^ 9 < tc b - tc a" by (simp add: power_numeral_reduce)
  then show ?thesis by (simp add: Truth_Values.isTruthEqual_def nearlyEqual_def TRUTH_IDENTITY_EPSILON_def)
qed

text \<open>The same datum handed in again and again.\<close>

definition resubmit :: "real \<Rightarrow> string \<Rightarrow> stamp \<Rightarrow> taskInput \<Rightarrow> nat \<Rightarrow> concept \<Rightarrow> concept" where
  "resubmit now newId fresh d n = (\<lambda>c. snd (snd (addTask now newId fresh BeliefType d c))) ^^ n"

lemma addTask_belief: "addTask now newId fresh BeliefType d c = addBeliefWithRevision now newId (orElse (tn_stamp d) fresh) c d"
  by (simp add: addTask_def)

text \<open>C16: one piece of evidence counts as often as it is handed in. A datum with a stamp of its own
  and a priority that is not negative, whose truth differs from the belief held, is revised into it
  on every submission, the same truth under the same stamp: while the held weight is above a
  thousandth and the total at most 999, where the confidence is not clamped, after \<open>n\<close> submissions
  the belief carries \<open>n\<close> times the datum's weight of evidence on top of its own. The guard compares
  the datum with the revised belief, which it never equals again.\<close>

theorem resubmission_inflates:
  assumes "concept_ok c" "findMatchingBelief (tn_term d) c = Some held" "td_truth held = Some old"
    and "tn_truth d = Some tr" "tn_stamp d = Some s" "0 \<le> w_priority (tn_budget d)"
    and "truth_inv tr" "truth_inv old" "\<not> Truth_Values.isTruthEqual tr old TRUTH_IDENTITY_EPSILON"
    and "1 / 1000 < weight old" "weight old + real (Suc n) * weight tr \<le> 999"
  shows "map_option (\<lambda>b. (td_stamp b, map_option weight (td_truth b)))
      (findMatchingBelief (tn_term d) (resubmit now newId fresh d (Suc n) c))
    = Some (s, Some (weight old + real (Suc n) * weight tr))"
proof -
  let ?m = "\<lambda>k. findMatchingBelief (tn_term d) (resubmit now newId fresh d k c)"
  have wt: "0 \<le> weight tr" using weight_nonneg assms(7) by blast
  have "\<exists>b o'. concept_ok (resubmit now newId fresh d k c) \<and> ?m k = Some b \<and> td_truth b = Some o' \<and> truth_inv o'
      \<and> weight o' = weight old + real k * weight tr \<and> \<not> Truth_Values.isTruthEqual tr o' TRUTH_IDENTITY_EPSILON
      \<and> (0 < k \<longrightarrow> td_stamp b = s)" if "k \<le> Suc n" for k
    using that
  proof (induction k)
    case 0
    then show ?case using assms(1-3,8,9) by (simp add: resubmit_def)
  next
    case (Suc k)
    then obtain b o' where h: "concept_ok (resubmit now newId fresh d k c)" "?m k = Some b" "td_truth b = Some o'"
        "truth_inv o'" "weight o' = weight old + real k * weight tr" "\<not> Truth_Values.isTruthEqual tr o' TRUTH_IDENTITY_EPSILON"
      by auto
    let ?r = "Truth_Values.t_revision tr o'"
    have next_c: "resubmit now newId fresh d (Suc k) c = snd (snd (addBeliefWithRevision now newId s (resubmit now newId fresh d k c) d))"
      by (simp add: resubmit_def addTask_belief assms(5) orElse_def)
    have "real (Suc k) * weight tr \<le> real (Suc n) * weight tr" using Suc.prems wt by (intro mult_right_mono) auto
    then have "weight tr + weight o' \<le> 999" using h(5) assms(11) by (simp add: algebra_simps)
    then have w: "weight ?r = weight old + real (Suc k) * weight tr"
      using revision_moment(1) [OF assms(7) h(4)] h(5) by (simp add: algebra_simps)
    have "weight ?r - weight tr = weight old + real k * weight tr" using w by (simp add: algebra_simps)
    moreover have "0 \<le> real k * weight tr" using wt by simp
    ultimately have "1 / 1000 < weight ?r - weight tr" using assms(10) by linarith
    then have "\<not> Truth_Values.isTruthEqual tr ?r TRUTH_IDENTITY_EPSILON"
      using weight_gap [OF assms(7) t_revision_inv] by blast
    moreover have "concept_ok (resubmit now newId fresh d (Suc k) c)"
      unfolding next_c by (rule addBelief_ok [OF h(1) assms(6)])
    moreover have "?m (Suc k) = Some ((task_item (bi_id b) (w_priority (tn_budget d)) s d)
        \<lparr>td_truth := Some ?r, td_timestamp := Some now\<rparr>)"
      unfolding next_c by (rule addBelief_revises [OF h(1,2,3) assms(4) h(6) assms(6)])
    ultimately show ?case using w by (auto simp: task_item_def)
  qed
  from this [of "Suc n"] show ?thesis by auto
qed

section \<open>Copies\<close>

lemma insertIndex_copies:
  assumes "bag_inv b" "map ie_item (b_list b) = replicate m x @ ys" "\<forall>y \<in> set ys. bi_priority y < bi_priority x"
  shows "insertIndex b (bi_priority x) = m"
proof -
  let ?ps = "priorities (b_list b)" and ?n = "insertIndex b (bi_priority x)"
  note spec = insertIndex_spec [OF assms(1), of "bi_priority x"]
  have ps: "?ps = replicate m (bi_priority x) @ map bi_priority ys"
    using arg_cong [OF assms(2), of "map bi_priority"] by (simp add: priorities_def comp_def)
  have len: "length (b_list b) = m + length ys" using arg_cong [OF assms(2), of length] by simp
  have "\<not> ?n < m"
    using spec(3) len by (auto simp: ps nth_append)
  moreover have "\<not> m < ?n"
  proof
    assume m: "m < ?n"
    then have "bi_priority x \<le> ?ps ! m" using spec(2) by blast
    moreover have "ys \<noteq> []" using m spec(1) len by auto
    ultimately obtain y zs where "ys = y # zs" "bi_priority x \<le> priorities (b_list b) ! m" by (cases ys) auto
    then show False using assms(3) by (simp add: ps nth_append)
  qed
  ultimately show ?thesis by linarith
qed

lemma copies_step:
  fixes b :: "'a bag"
  assumes "bag_inv b" "bag_toArray b = replicate (min (Suc i) (b_capacity b)) x @ take (b_capacity b - Suc i) rest"
    and "\<forall>y \<in> set rest. bi_priority y < bi_priority x"
  shows "bag_toArray (snd (bag_add now b x))
    = replicate (min (Suc (Suc i)) (b_capacity b)) x @ take (b_capacity b - Suc (Suc i)) rest"
proof (cases "b_capacity b \<le> Suc i")
  case True
  then have l: "map ie_item (b_list b) = replicate (b_capacity b) x"
    using assms(2) by (simp add: bag_toArray_def min_absorb2)
  then have len: "length (b_list b) = b_capacity b" by (metis length_map length_replicate)
  have "b_list b \<noteq> [] \<Longrightarrow> ie_item (last (b_list b)) = x"
    using l by (metis last_map last_replicate length_map length_0_conv length_replicate)
  then have "bag_add now b x = (False, b)"
    using len by (cases "b_capacity b = 0") (auto simp: bag_add_def shouldOverflow_def Let_def)
  then show ?thesis using True assms(2) by (simp add: min_absorb2)
next
  case False
  let ?k = "b_capacity b - Suc i"
  have l: "map ie_item (b_list b) = replicate (Suc i) x @ take ?k rest"
    using assms(2) False by (simp add: bag_toArray_def min_absorb1)
  have snoc: "replicate n x @ [x] = replicate (Suc n) x" for n by (simp add: replicate_append_same)
  have low: "\<forall>y \<in> set (take n rest). bi_priority y < bi_priority x" for n using assms(3) by (meson in_set_takeD)
  have len: "length (b_list b) = Suc i + min ?k (length rest)"
    using arg_cong [OF l, of length] by (simp add: min.commute)
  show ?thesis
  proof (cases rule: bag_add_cases [of now b x])
    case refused
    have "b_capacity b \<le> length (b_list b)" "b_list b \<noteq> []" "bi_priority x \<le> bi_priority (ie_item (last (b_list b)))"
      using refused(2) False by auto
    then have ne: "take ?k rest \<noteq> []" and le: "bi_priority x \<le> bi_priority (last (map ie_item (b_list b)))"
      using len False by (auto simp: last_map)
    have "last (map ie_item (b_list b)) \<in> set (take ?k rest)" unfolding l using ne by (simp add: last_appendR del: last_map)
    then have False using low le by fastforce
    then show ?thesis ..
  next
    case (room n b')
    have n: "n = Suc i" using insertIndex_copies [OF assms(1) l low] room(3) by simp
    have "length rest < ?k" using room(2) len by (simp add: min_def split: if_splits)
    then have "take ?k rest = rest" "take (b_capacity b - Suc (Suc i)) rest = rest" by auto
    then show ?thesis
      using room(1,4) l n False by (simp add: bag_toArray_def min_absorb1 snoc [symmetric] del: replicate_Suc)
  next
    case (full n b' d)
    have ne: "take ?k rest \<noteq> []" using full(2) len False by auto
    have "length rest \<ge> ?k" using full(2) len by (simp add: min_def split: if_splits)
    then have bl: "butlast (map ie_item (b_list b)) = replicate (Suc i) x @ take (b_capacity b - Suc (Suc i)) rest"
      unfolding l using ne False by (simp add: butlast_append butlast_take del: replicate_Suc)
    have inv: "bag_inv d" unfolding full(6) by (rule dropLast_inv [OF assms(1) full(3)])
    have "map ie_item (b_list d) = butlast (map ie_item (b_list b))" by (simp add: full(6) dropLast_list map_butlast)
    then have "n = Suc i" using insertIndex_copies [OF inv _ low] bl full(7) by simp
    then show ?thesis
      using full(1,8) bl False by (simp add: bag_toArray_def min_absorb1 snoc [symmetric] del: replicate_Suc)
  qed
qed

lemma absorb_self_copies:
  fixes b :: "'a bag"
  assumes "bag_inv b" "bag_toArray b = replicate (min (Suc i) (b_capacity b)) x @ take (b_capacity b - Suc i) rest"
    and "\<forall>y \<in> set rest. bi_priority y < bi_priority x" "0 \<le> bi_priority x"
  shows "bag_toArray (absorb_self now i b) = replicate (b_capacity b) x \<and> bag_inv (absorb_self now i b)
    \<and> b_capacity (absorb_self now i b) = b_capacity b"
  using assms
proof (induction "b_capacity b - i" arbitrary: i b rule: less_induct)
  case less
  note len = arg_cong [OF less.prems(2), of length]
  show ?case
  proof (cases "i < length (b_list b)")
    case True
    then have "i < b_capacity b" using less.prems(1) by (simp add: bag_inv_def)
    moreover have "ie_item (b_list b ! i) = x"
      using arg_cong [OF less.prems(2), of "\<lambda>l. l ! i"] True \<open>i < b_capacity b\<close>
      by (simp add: bag_toArray_def nth_append min_absorb1 del: replicate_Suc)
    ultimately show ?thesis
      using less.hyps [of "snd (bag_add now b x)" "i + 1"] less.prems(3,4) True add_inv [OF less.prems(1,4), of now]
        copies_step [OF less.prems(1,2,3), of now]
      by (subst (1 2 3) absorb_self.simps) simp
  next
    case False
    then have "b_capacity b \<le> Suc i" using len by (simp add: bag_toArray_def min_def split: if_splits)
    then show ?thesis using False less.prems(1,2) by (subst (1 2 3) absorb_self.simps) (simp add: min_absorb2)
  qed
qed

text \<open>A bag full of one item takes nothing that does not outrank it.\<close>

lemma absorb_refused:
  fixes b :: "'a bag"
  assumes "bag_toArray b = replicate (b_capacity b) x" "\<forall>y \<in> set (bag_toArray other). bi_priority y \<le> bi_priority x"
  shows "absorb now other b = b"
proof -
  have l: "map ie_item (b_list b) = replicate (b_capacity b) x" using assms(1) by (simp add: bag_toArray_def)
  have len: "length (b_list b) = b_capacity b" using arg_cong [OF l, of length] by simp
  have last: "b_list b \<noteq> [] \<Longrightarrow> ie_item (last (b_list b)) = x"
    using l by (metis last_map last_replicate length_map length_0_conv length_replicate)
  have "bag_add now b y = (False, b)" if "bi_priority y \<le> bi_priority x" for y
    using len last that by (cases "b_capacity b = 0") (auto simp: bag_add_def shouldOverflow_def Let_def)
  then have "fold (\<lambda>item b. snd (bag_add now b item)) ys b = b" if "\<forall>y \<in> set ys. bi_priority y \<le> bi_priority x" for ys
    using that by (induction ys) auto
  then show ?thesis using assms(2) by (simp add: absorb_def)
qed

lemma absorb_all_beliefs:
  "cc_beliefBag (fold (absorb_all now) others k) = fold (\<lambda>other. absorb now (cc_beliefBag other)) others (cc_beliefBag k)"
  by (induction others arbitrary: k) (simp_all add: absorb_all_def)

lemma mergeWith_beliefs:
  "cc_beliefBag (mergeWith now others c)
    = fold (\<lambda>other. absorb now (cc_beliefBag other)) others (absorb_self now 0 (cc_beliefBag c))"
  unfolding mergeWith_def Let_def by (simp add: absorb_all_beliefs split: jsnum.split)

text \<open>C17: merging leaves one belief. When the strongest belief of a concept outranks its other beliefs
  and none of the concepts merged into it has a stronger one, the merged concept holds as many copies
  of that belief as its bag has places and nothing else: the concept is merged with itself first, and
  the loop over its bag reads the entries it is adding.\<close>

theorem merge_keeps_one_belief:
  assumes "bag_inv (cc_beliefBag c)" "getBeliefs c = strongest # rest"
    and "\<forall>b \<in> set rest. bi_priority b < bi_priority strongest"
    and "\<forall>other \<in> set others. \<forall>b \<in> set (getBeliefs other). bi_priority b \<le> bi_priority strongest"
  shows "getBeliefs (mergeWith now others c) = replicate (b_capacity (cc_beliefBag c)) strongest"
proof -
  let ?b = "cc_beliefBag c" and ?s = "absorb_self now 0 (cc_beliefBag c)"
  have arr: "bag_toArray ?b = strongest # rest" using assms(2) by (simp add: getBeliefs_def)
  have le: "Suc (length rest) \<le> b_capacity ?b"
    using arg_cong [OF arr, of length] assms(1) by (simp add: bag_toArray_def bag_inv_def)
  then have "bag_toArray ?b = replicate (min (Suc 0) (b_capacity ?b)) strongest @ take (b_capacity ?b - Suc 0) rest"
    using arr by (simp add: min_absorb1)
  moreover have "0 \<le> bi_priority strongest"
    using assms(1) arr by (cases "b_list ?b") (auto simp: bag_inv_def bag_toArray_def)
  ultimately have s: "bag_toArray ?s = replicate (b_capacity ?b) strongest" "b_capacity ?s = b_capacity ?b"
    using absorb_self_copies [OF assms(1) _ assms(3)] by blast+
  have "fold (\<lambda>other. absorb now (cc_beliefBag other)) os ?s = ?s" if "set os \<subseteq> set others" for os
    using that
  proof (induction os)
    case (Cons o' os)
    then have "absorb now (cc_beliefBag o') ?s = ?s"
      using assms(4) s by (intro absorb_refused [where x = strongest]) (auto simp: getBeliefs_def)
    then show ?case using Cons by simp
  qed simp
  then show ?thesis using s(1) by (simp add: getBeliefs_def mergeWith_beliefs)
qed

section \<open>Examples\<close>

definition exampleInput :: "string \<Rightarrow> real \<Rightarrow> truth \<Rightarrow> taskInput" where
  "exampleInput symbol priority tr =
     \<lparr>tn_term = Atom symbol, tn_truth = Some tr, tn_budget = createTaskWeight priority, tn_timestamp = None,
      tn_stamp = Some \<lparr>stampId = ''1'', creationTime = 0, source = INPUT, derivations = []\<rparr>,
      tn_occurrenceTime = None, tn_derived = None\<rparr>"

definition exampleConcept :: concept where
  "exampleConcept = snd (snd (addTask 0 ''first'' \<lparr>stampId = ''0'', creationTime = 0, source = INPUT, derivations = []\<rparr>
     BeliefType (exampleInput ''a'' (1 / 2) \<lparr>tf = 1, tc = 1 / 2\<rparr>)
     (newConcept 0 ''b'' ''g'' ''q'' (Atom ''a'')
        \<lparr>cg_maxBeliefs = Some 2, cg_maxGoals = None, cg_maxQuestions = None, cg_decayRate = None, cg_forgetRate = None\<rparr>)))"

lemma exampleConcept_ok: "concept_ok exampleConcept"
  unfolding exampleConcept_def
  by (rule addTask_ok [OF newConcept_ok]) (simp add: exampleInput_def createTaskWeight_def)

lemma first_belief:
  assumes "getBeliefs c = []" "0 < b_capacity (cc_beliefBag c)"
  shows "getBeliefs (snd (snd (addBeliefWithRevision now newId st c d))) = [task_item newId (w_priority (tn_budget d)) st d]"
    "b_capacity (cc_beliefBag (snd (snd (addBeliefWithRevision now newId st c d)))) = b_capacity (cc_beliefBag c)"
proof -
  let ?item = "task_item newId (w_priority (tn_budget d)) st d" and ?b = "cc_beliefBag c"
  have empty: "b_list ?b = []" using assms(1) by (simp add: getBeliefs_def bag_toArray_def)
  have acc: "fst (bag_add now ?b ?item)" using assms(2) empty by (intro bag_add_accepts) simp
  then have "mset (bag_toArray (snd (bag_add now ?b ?item))) = {#?item#}"
    using bag_add_mset [of now ?b ?item] empty assms(2) by (simp add: bag_toArray_def)
  then have add: "bag_toArray (snd (bag_add now ?b ?item)) = [?item]" by simp
  have none: "findMatchingBelief (tn_term d) c = None"
    using assms(1) by (simp add: findMatching_None beliefKeys_def)
  obtain b where "bag_add now ?b ?item = (True, b)" using acc by (cases "bag_add now ?b ?item") simp
  then show "getBeliefs (snd (snd (addBeliefWithRevision now newId st c d))) = [?item]"
    "b_capacity (cc_beliefBag (snd (snd (addBeliefWithRevision now newId st c d)))) = b_capacity ?b"
    using add none bag_add_capacity [of now ?b ?item] by (simp_all add: addBeliefWithRevision_def put_belief_def getBeliefs_def Let_def)
qed

lemma exampleConcept_beliefs:
  "getBeliefs exampleConcept
    = [task_item ''first'' (1 / 2) \<lparr>stampId = ''1'', creationTime = 0, source = INPUT, derivations = []\<rparr>
         (exampleInput ''a'' (1 / 2) \<lparr>tf = 1, tc = 1 / 2\<rparr>)]"
  "b_capacity (cc_beliefBag exampleConcept) = 2"
proof -
  let ?config = "\<lparr>cg_maxBeliefs = Some 2, cg_maxGoals = None, cg_maxQuestions = None, cg_decayRate = None, cg_forgetRate = None\<rparr>"
  let ?c = "newConcept 0 ''b'' ''g'' ''q'' (Atom ''a'') ?config"
  have "getBeliefs ?c = []" "b_capacity (cc_beliefBag ?c) = 2"
    by (simp_all add: newConcept_def concept_bag_def newBag_def getBeliefs_def bag_toArray_def orElse_def)
  then show "getBeliefs exampleConcept
    = [task_item ''first'' (1 / 2) \<lparr>stampId = ''1'', creationTime = 0, source = INPUT, derivations = []\<rparr>
         (exampleInput ''a'' (1 / 2) \<lparr>tf = 1, tc = 1 / 2\<rparr>)]" "b_capacity (cc_beliefBag exampleConcept) = 2"
    using first_belief [of ?c] by (simp_all add: exampleConcept_def addTask_belief orElse_def exampleInput_def createTaskWeight_def)
qed

theorem concept_keeps_invariant_witness:
  "distinct (map (termKey \<circ> td_term) (getBeliefs (foldl concept_step
     (newConcept 0 ''b'' ''g'' ''q'' (Atom ''a'')
        \<lparr>cg_maxBeliefs = Some 2, cg_maxGoals = None, cg_maxQuestions = None, cg_decayRate = None, cg_forgetRate = None\<rparr>)
     [Admit 0 ''x'' \<lparr>stampId = ''0'', creationTime = 0, source = INPUT, derivations = []\<rparr> BeliefType
        (exampleInput ''a'' (1 / 2) \<lparr>tf = 1, tc = 1 / 2\<rparr>), Attend (Prime 2 (Some (1 / 2)))])))"
  using concept_keeps_invariant [of "[Admit 0 ''x'' \<lparr>stampId = ''0'', creationTime = 0, source = INPUT, derivations = []\<rparr> BeliefType
        (exampleInput ''a'' (1 / 2) \<lparr>tf = 1, tc = 1 / 2\<rparr>), Attend (Prime 2 (Some (1 / 2)))]" 0 "''b''" "''g''" "''q''" "Atom ''a''"
      "\<lparr>cg_maxBeliefs = Some 2, cg_maxGoals = None, cg_maxQuestions = None, cg_decayRate = None, cg_forgetRate = None\<rparr>"]
  by (simp add: Let_def exampleInput_def createTaskWeight_def)

lemma example_found: "findMatchingBelief (Atom ''a'') exampleConcept = Some (hd (getBeliefs exampleConcept))"
  using exampleConcept_beliefs(1)
  by (simp add: findMatchingBelief_def bag_find_def getBeliefs_def bag_toArray_def task_item_def exampleInput_def)

theorem resubmission_inflates_witness:
  "map_option (\<lambda>b. map_option weight (td_truth b))
     (findMatchingBelief (Atom ''a'')
       (resubmit 0 ''x'' \<lparr>stampId = ''0'', creationTime = 0, source = INPUT, derivations = []\<rparr>
         (exampleInput ''a'' (1 / 2) \<lparr>tf = 0, tc = 1 / 2\<rparr>) (Suc 6) exampleConcept))
    = Some (Some 8)"
proof -
  have w: "weight \<lparr>tf = x, tc = 1 / 2\<rparr> = 1" for x by (simp add: weight_def confidenceToWeight_def)
  have t: "truth_inv \<lparr>tf = 0, tc = 1 / 2\<rparr>" "truth_inv \<lparr>tf = 1, tc = 1 / 2\<rparr>" by (simp_all add: truth_inv_def MAX_CONFIDENCE_def)
  have d: "\<not> Truth_Values.isTruthEqual \<lparr>tf = 0, tc = 1 / 2\<rparr> \<lparr>tf = 1, tc = 1 / 2\<rparr> TRUTH_IDENTITY_EPSILON"
    by (simp add: Truth_Values.isTruthEqual_def nearlyEqual_def TRUTH_IDENTITY_EPSILON_def)
  have h: "findMatchingBelief (tn_term (exampleInput ''a'' (1 / 2) \<lparr>tf = 0, tc = 1 / 2\<rparr>)) exampleConcept
      = Some (hd (getBeliefs exampleConcept))" "td_truth (hd (getBeliefs exampleConcept)) = Some \<lparr>tf = 1, tc = 1 / 2\<rparr>"
    using example_found exampleConcept_beliefs(1) by (simp_all add: exampleInput_def task_item_def)
  show ?thesis
    using arg_cong [OF resubmission_inflates [OF exampleConcept_ok h, where n = 6 and now = 0 and newId = "''x''"
          and fresh = "\<lparr>stampId = ''0'', creationTime = 0, source = INPUT, derivations = []\<rparr>", OF _ _ _ t d],
        where f = "map_option snd"] w
    by (simp add: exampleInput_def createTaskWeight_def option.map_comp comp_def)
qed

theorem merge_keeps_one_belief_witness:
  "getBeliefs (mergeWith 0 [] exampleConcept) = replicate 2 (hd (getBeliefs exampleConcept))"
  using merge_keeps_one_belief [of exampleConcept "hd (getBeliefs exampleConcept)" "[]" "[]" 0]
    exampleConcept_ok exampleConcept_beliefs by (simp add: concept_ok_def)

end
