(* ===== verification/Links.thy ===== *)
theory Links
  imports Bounded_Map Terms
begin

text \<open>
  The association links between terms: \<open>nar/src/memory/links/Layer.ts\<close> and
  \<open>LinkManager.ts\<close>. A layer keeps its links in a bounded map and their identifiers in an index by
  term; the map's eviction hook keeps the index in step. A link is an object the map and the callers
  share: a write to it is a write to the entry of the map. The embedding layer, a subclass with
  vectors, is not modelled.
\<close>

section \<open>Layers\<close>

datatype linkType = TermLink | InheritanceLink | SimilarityLink | ImplicationLink | TemporalLink | SemanticLink

fun linkType_name :: "linkType \<Rightarrow> string" where
  "linkType_name TermLink = ''term-link''"
| "linkType_name InheritanceLink = ''inheritance''"
| "linkType_name SimilarityLink = ''similarity''"
| "linkType_name ImplicationLink = ''implication''"
| "linkType_name TemporalLink = ''temporal''"
| "linkType_name SemanticLink = ''semantic''"

datatype linkForgetPolicy = ForgetPriority | ForgetLru | ForgetFifo | ForgetRandom

record 'd linkEntry =
  le_id :: string
  le_source :: narTerm
  le_target :: narTerm
  le_type :: linkType
  le_priority :: real
  le_createdAt :: real
  le_lastAccessedAt :: real
  le_data :: "'d option"

record 'd linkInput =
  li_source :: narTerm
  li_target :: narTerm
  li_type :: "linkType option"
  li_priority :: "real option"
  li_data :: "'d option"

record linkQuery =
  lq_type :: "linkType option"
  lq_minPriority :: "real option"
  lq_maxResults :: "int option"

definition DEFAULT_TYPE :: linkType where "DEFAULT_TYPE = TermLink"
definition DEFAULT_PRIORITY :: real where "DEFAULT_PRIORITY = 1 / 2"
definition MIN_PRIORITY :: real where "MIN_PRIORITY = 1 / 100"

definition linkId :: "narTerm \<Rightarrow> narTerm \<Rightarrow> linkType \<Rightarrow> string" where
  "linkId s t ty = termKey s @ ''_'' @ termKey t @ ''_'' @ linkType_name ty"

definition linkEvictionOrder :: "linkForgetPolicy \<Rightarrow> 'd linkEntry evictionOrder" where
  "linkEvictionOrder policy =
     (case policy of ForgetPriority \<Rightarrow> EvictBy le_priority | ForgetFifo \<Rightarrow> Fifo | ForgetLru \<Rightarrow> Lru | ForgetRandom \<Rightarrow> RandomOrder)"

record 'd layer =
  ly_name :: string
  ly_capacity :: int
  ly_links :: "(string, 'd linkEntry) boundedMap"
  ly_byTerm :: "(string, string list) omap"

definition newLayer :: "string \<Rightarrow> int \<Rightarrow> linkForgetPolicy \<Rightarrow> 'd layer" where
  "newLayer name capacity policy =
     \<lparr>ly_name = name, ly_capacity = capacity,
      ly_links = newBoundedMap capacity None (linkEvictionOrder policy) None, ly_byTerm = []\<rparr>"

text \<open>A write to the link held under an identifier.\<close>

definition write_link :: "string \<Rightarrow> ('d linkEntry \<Rightarrow> 'd linkEntry) \<Rightarrow> (string, 'd linkEntry) boundedMap \<Rightarrow> (string, 'd linkEntry) boundedMap" where
  "write_link ident f b = b\<lparr>bm_entries := map (\<lambda>(k, e). (k, if k = ident then e\<lparr>e_value := f (e_value e)\<rparr> else e)) (bm_entries b)\<rparr>"

definition forget_link :: "'d linkEntry \<Rightarrow> (string, string list) omap \<Rightarrow> (string, string list) omap" where
  "forget_link e m =
     removeFromSet (removeFromSet m (termKey (le_source e)) (le_id e)) (termKey (le_target e)) (le_id e)"

definition touch_link :: "real \<Rightarrow> 'd linkEntry \<Rightarrow> 'd linkEntry" where
  "touch_link now e = e\<lparr>le_lastAccessedAt := now\<rparr>"

text \<open>\<open>links.set\<close> with the eviction hook: what the map evicted is dropped from the index.\<close>

definition store_link :: "real \<Rightarrow> real \<Rightarrow> 'd linkEntry \<Rightarrow> 'd layer \<Rightarrow> 'd layer" where
  "store_link now r e ly =
     (let links = bm_set now r (ly_links ly) (le_id e) e;
          evicted = drop (length (bm_evicted (ly_links ly))) (bm_evicted links)
      in ly\<lparr>ly_links := links, ly_byTerm := fold (\<lambda>(gone, _). forget_link gone) evicted (ly_byTerm ly)\<rparr>)"

definition index_link :: "'d linkEntry \<Rightarrow> (string, string list) omap \<Rightarrow> (string, string list) omap" where
  "index_link e m =
     (let sourceKey = termKey (le_source e); targetKey = termKey (le_target e);
          m' = addToSet m sourceKey (le_id e)
      in if targetKey \<noteq> sourceKey then addToSet m' targetKey (le_id e) else m')"

definition layer_addLink :: "real \<Rightarrow> real \<Rightarrow> 'd linkInput \<Rightarrow> 'd layer \<Rightarrow> 'd linkEntry option \<times> 'd layer" where
  "layer_addLink now r input ly =
     (let ty = (case li_type input of None \<Rightarrow> DEFAULT_TYPE | Some x \<Rightarrow> x);
          p = (case li_priority input of None \<Rightarrow> DEFAULT_PRIORITY | Some x \<Rightarrow> x);
          ident = linkId (li_source input) (li_target input) ty
      in if ly_capacity ly < 1 then (None, ly)
         else case bm_get now (ly_links ly) ident of
                (Some existing, links) \<Rightarrow>
                  (let update = (\<lambda>e. (touch_link now e)\<lparr>le_priority := p,
                         le_data := (case li_data input of None \<Rightarrow> le_data e | Some x \<Rightarrow> Some x)\<rparr>)
                   in (Some (update existing), ly\<lparr>ly_links := write_link ident update links\<rparr>))
              | (None, links) \<Rightarrow>
                  (let e = \<lparr>le_id = ident, le_source = li_source input, le_target = li_target input, le_type = ty,
                            le_priority = p, le_createdAt = now, le_lastAccessedAt = now, le_data = li_data input\<rparr>;
                       ly' = store_link now r e (ly\<lparr>ly_links := links\<rparr>)
                   in (Some e, ly'\<lparr>ly_byTerm := index_link e (ly_byTerm ly')\<rparr>)))"

definition purge_link :: "'d linkEntry \<Rightarrow> 'd layer \<Rightarrow> bool \<times> 'd layer" where
  "purge_link e ly =
     (case bm_delete (ly_links ly) (le_id e) of
        (ok, links) \<Rightarrow> (ok, ly\<lparr>ly_links := links, ly_byTerm := forget_link e (ly_byTerm ly)\<rparr>))"

definition purge_id :: "real \<Rightarrow> string \<Rightarrow> 'd layer \<Rightarrow> bool \<times> 'd layer" where
  "purge_id now ident ly =
     (case bm_peek now (ly_links ly) ident of
        (None, links) \<Rightarrow> (False, ly\<lparr>ly_links := links\<rparr>)
      | (Some e, links) \<Rightarrow> purge_link e (ly\<lparr>ly_links := links\<rparr>))"

definition layer_removeLink :: "real \<Rightarrow> narTerm \<Rightarrow> narTerm \<Rightarrow> linkType \<Rightarrow> 'd layer \<Rightarrow> bool \<times> 'd layer" where
  "layer_removeLink now s t ty ly = purge_id now (linkId s t ty) ly"

definition layer_getLinkPriority :: "real \<Rightarrow> narTerm \<Rightarrow> narTerm \<Rightarrow> linkType \<Rightarrow> 'd layer \<Rightarrow> real" where
  "layer_getLinkPriority now s t ty ly =
     (case fst (bm_peek now (ly_links ly) (linkId s t ty)) of None \<Rightarrow> 0 | Some e \<Rightarrow> le_priority e)"

fun collect_links :: "real \<Rightarrow> linkQuery \<Rightarrow> string list \<Rightarrow> 'd linkEntry list \<Rightarrow> 'd layer \<Rightarrow> 'd linkEntry list \<times> 'd layer" where
  "collect_links now q [] out ly = (out, ly)"
| "collect_links now q (ident # ids) out ly =
     (case bm_get now (ly_links ly) ident of
        (None, links) \<Rightarrow> collect_links now q ids out (ly\<lparr>ly_links := links\<rparr>)
      | (Some e, links) \<Rightarrow>
          if (case lq_type q of None \<Rightarrow> False | Some ty \<Rightarrow> le_type e \<noteq> ty)
             \<or> le_priority e < (case lq_minPriority q of None \<Rightarrow> 0 | Some p \<Rightarrow> p)
          then collect_links now q ids out (ly\<lparr>ly_links := links\<rparr>)
          else let out' = out @ [touch_link now e];
                   ly' = ly\<lparr>ly_links := write_link ident (touch_link now) links\<rparr>
               in if (case lq_maxResults q of None \<Rightarrow> False | Some n \<Rightarrow> int (length out') \<ge> n) then (out', ly')
                  else collect_links now q ids out' ly')"

definition layer_getLinksByTerm :: "real \<Rightarrow> narTerm \<Rightarrow> linkQuery \<Rightarrow> 'd layer \<Rightarrow> 'd linkEntry list \<times> 'd layer" where
  "layer_getLinksByTerm now t q ly =
     (case map_of (ly_byTerm ly) (termKey t) of
        None \<Rightarrow> ([], ly)
      | Some ids \<Rightarrow>
          if (case lq_maxResults q of None \<Rightarrow> False | Some n \<Rightarrow> n \<le> 0) then ([], ly) else collect_links now q ids [] ly)"

definition layer_removeAllLinksForTerm :: "real \<Rightarrow> narTerm \<Rightarrow> 'd layer \<Rightarrow> 'd layer" where
  "layer_removeAllLinksForTerm now t ly =
     (case map_of (ly_byTerm ly) (termKey t) of
        None \<Rightarrow> ly
      | Some ids \<Rightarrow> fold (\<lambda>ident ly. snd (purge_id now ident ly)) ids ly)"

definition decay_link :: "real \<Rightarrow> 'd linkEntry \<Rightarrow> 'd linkEntry" where
  "decay_link rate e = e\<lparr>le_priority := retain (le_priority e) rate\<rparr>"

definition layer_applyDecay :: "real \<Rightarrow> real \<Rightarrow> 'd layer \<Rightarrow> 'd layer" where
  "layer_applyDecay now rate ly =
     (case bm_liveEntries now (ly_links ly) of
        (live, links) \<Rightarrow>
          (let aged = links\<lparr>bm_entries := map (\<lambda>(k, e). (k, e\<lparr>e_value := decay_link rate (e_value e)\<rparr>)) (bm_entries links)\<rparr>;
               doomed = map fst (filter (\<lambda>(_, e). le_priority (decay_link rate e) < MIN_PRIORITY) live)
           in fold (\<lambda>ident ly. snd (purge_id now ident ly)) doomed (ly\<lparr>ly_links := aged\<rparr>)))"

definition layer_getStats :: "'d layer \<Rightarrow> containerStats" where
  "layer_getStats ly = containerStats_of (bm_size (ly_links ly)) (ly_capacity ly)"

definition layer_pressure :: "'d layer \<Rightarrow> real" where
  "layer_pressure ly = pressureOf (bm_size (ly_links ly)) (ly_capacity ly)"

section \<open>The index is exact\<close>

definition bucket_of :: "('k, 'a list) omap \<Rightarrow> 'k \<Rightarrow> 'a set" where
  "bucket_of m key = (case map_of m key of None \<Rightarrow> {} | Some ids \<Rightarrow> set ids)"

definition link_keys :: "'d linkEntry \<Rightarrow> string set" where
  "link_keys e = {termKey (le_source e), termKey (le_target e)}"

text \<open>Every identifier is filed under the keys of its link's two ends and nowhere else.\<close>

definition index_exact :: "(string, 'd linkEntry entry) omap \<Rightarrow> (string, string list) omap \<Rightarrow> bool" where
  "index_exact es m \<longleftrightarrow> wf_omap m
     \<and> (\<forall>key. bucket_of m key = {ident. \<exists>e. map_of es ident = Some e \<and> key \<in> link_keys (e_value e)})"

definition ids_hold :: "(string, 'd linkEntry entry) omap \<Rightarrow> bool" where
  "ids_hold es \<longleftrightarrow> list_all (\<lambda>(k, e). le_id (e_value e) = k) es"

definition layer_inv :: "'d layer \<Rightarrow> bool" where
  "layer_inv ly \<longleftrightarrow> bm_inv (ly_links ly) \<and> bm_ttlMs (ly_links ly) = None \<and> bm_maxSize (ly_links ly) = max 1 (ly_capacity ly)
     \<and> (ly_capacity ly < 1 \<longrightarrow> bm_entries (ly_links ly) = [])
     \<and> ids_hold (bm_entries (ly_links ly)) \<and> index_exact (bm_entries (ly_links ly)) (ly_byTerm ly)"

lemma ids_holdD: "ids_hold es \<Longrightarrow> map_of es k = Some e \<Longrightarrow> le_id (e_value e) = k"
  by (auto simp: ids_hold_def list_all_iff dest: map_of_SomeD)

lemma ids_hold_simps [simp]:
  "ids_hold []" "ids_hold (es @ fs) \<longleftrightarrow> ids_hold es \<and> ids_hold fs"
  "ids_hold ((k, e) # es) \<longleftrightarrow> le_id (e_value e) = k \<and> ids_hold es"
  by (simp_all add: ids_hold_def)

lemma ids_hold_delete: "ids_hold es \<Longrightarrow> ids_hold (AList.delete k es)"
  by (auto simp: ids_hold_def list_all_iff AList.delete_eq)

lemma bucket_add [simp]:
  "bucket_of (addToSet m key v) k = (if k = key then insert v (bucket_of m key) else bucket_of m k)"
  by (auto simp: addToSet_def bucket_of_def update_conv' split: option.split)

lemma wf_addToSet [simp]: "wf_omap m \<Longrightarrow> wf_omap (addToSet m key v)"
  by (auto simp: addToSet_def wf_omap_update split: option.split)

lemma bucket_remove [simp]:
  "bucket_of (removeFromSet m key v) k = (if k = key then bucket_of m key - {v} else bucket_of m k)"
proof (cases "map_of m key")
  case None
  then show ?thesis by (auto simp: removeFromSet_def bucket_of_def)
next
  case (Some ids)
  show ?thesis
  proof (cases "removeAll v ids = []")
    case True
    then have "set ids - {v} = {}" by (metis set_removeAll list.set(1))
    then show ?thesis using Some True by (simp add: removeFromSet_def bucket_of_def delete_conv' Let_def)
  next
    case False
    then show ?thesis using Some by (simp add: removeFromSet_def bucket_of_def update_conv' Let_def)
  qed
qed

lemma wf_removeFromSet [simp]: "wf_omap m \<Longrightarrow> wf_omap (removeFromSet m key v)"
  by (auto simp: removeFromSet_def wf_omap_update wf_omap_delete Let_def split: option.split)

lemma bucket_forget [simp]:
  "bucket_of (forget_link e m) k = (if k \<in> link_keys e then bucket_of m k - {le_id e} else bucket_of m k)"
  by (auto simp: forget_link_def link_keys_def)

lemma bucket_index [simp]:
  "bucket_of (index_link e m) k = (if k \<in> link_keys e then insert (le_id e) (bucket_of m k) else bucket_of m k)"
  by (auto simp: index_link_def link_keys_def Let_def)

lemma wf_forget [simp]: "wf_omap m \<Longrightarrow> wf_omap (forget_link e m)"
  by (simp add: forget_link_def)

lemma wf_index [simp]: "wf_omap m \<Longrightarrow> wf_omap (index_link e m)"
  by (simp add: index_link_def Let_def)

lemma exact_delete:
  assumes "index_exact es m" "map_of es k = Some e" "le_id (e_value e) = k"
  shows "index_exact (AList.delete k es) (forget_link (e_value e) m)"
  using assms by (auto simp: index_exact_def delete_conv' link_keys_def)

lemma exact_insert:
  assumes "index_exact es m" "map_of es k = None" "le_id (e_value e) = k"
  shows "index_exact (es @ [(k, e)]) (index_link (e_value e) m)"
  using assms by (auto simp: index_exact_def map_add_def split: option.split)

lemma exact_cong:
  assumes "index_exact es m"
    and "\<And>k. rel_option (\<lambda>e f. link_keys (e_value e) = link_keys (e_value f)) (map_of es k) (map_of es' k)"
  shows "index_exact es' m"
proof -
  have "(\<exists>e. map_of es' k = Some e \<and> key \<in> link_keys (e_value e)) \<longleftrightarrow> (\<exists>e. map_of es k = Some e \<and> key \<in> link_keys (e_value e))" for k key
    using assms(2) [of k] by (cases rule: option.rel_cases) auto
  then show ?thesis using assms(1) by (simp add: index_exact_def)
qed

section \<open>Operations keep the index exact\<close>

lemma never_expired [simp]: "bm_ttlMs b = None \<Longrightarrow> \<not> bm_expired now b e"
  by (simp add: bm_expired_def)

text \<open>A read: the entry, and a map with the same entries in some order.\<close>

lemma get_same_entries:
  assumes "bm_inv b" "bm_ttlMs b = None"
  shows "fst (bm_get now b k) = map_option e_value (map_of (bm_entries b) k)"
    "map_of (bm_entries (snd (bm_get now b k))) = map_of (bm_entries b)"
    "set (bm_entries (snd (bm_get now b k))) = set (bm_entries b)"
    "bm_inv (snd (bm_get now b k))" "bm_ttlMs (snd (bm_get now b k)) = None"
    "bm_maxSize (snd (bm_get now b k)) = bm_maxSize b"
proof -
  have wf: "wf_omap (bm_entries b)" using assms(1) by (simp add: bm_inv_def)
  show "fst (bm_get now b k) = map_option e_value (map_of (bm_entries b) k)"
    using assms(2) by (simp add: bm_look_get bm_look_def split: option.split)
  show "map_of (bm_entries (snd (bm_get now b k))) = map_of (bm_entries b)"
    using assms(2) by (auto simp: bm_get_def bm_live_def bm_reinsert_entries delete_conv' map_add_def fun_eq_iff split: option.split)
  show "set (bm_entries (snd (bm_get now b k))) = set (bm_entries b)"
    using assms(2) wf by (auto simp: bm_get_def bm_live_def bm_reinsert_entries AList.delete_eq split: option.splits
        dest: map_of_SomeD eq_key_imp_eq_value)
  show "bm_inv (snd (bm_get now b k))" by (rule bm_get_inv [OF assms(1)])
  show "bm_ttlMs (snd (bm_get now b k)) = None" "bm_maxSize (snd (bm_get now b k)) = bm_maxSize b"
    using assms(2) by (simp_all add: bm_get_def bm_live_def bm_reinsert_def split: option.split)
qed

lemma peek_same:
  assumes "bm_ttlMs b = None"
  shows "bm_peek now b k = (map_option e_value (map_of (bm_entries b) k), b)"
  using assms by (simp add: bm_peek_def bm_live_def split: option.split)

lemma write_link_fields [simp]:
  "bm_maxSize (write_link k f b) = bm_maxSize b" "bm_ttlMs (write_link k f b) = bm_ttlMs b"
  "bm_order (write_link k f b) = bm_order b" "bm_evicted (write_link k f b) = bm_evicted b"
  "okeys (bm_entries (write_link k f b)) = okeys (bm_entries b)"
  "length (bm_entries (write_link k f b)) = length (bm_entries b)"
  by (simp_all add: write_link_def comp_def split_beta)

lemma map_of_map_entries:
  "map_of (map (\<lambda>(k, e). (k, g k e)) es) k = map_option (g k) (map_of es k)"
  by (induction es) auto

lemma write_link_map_of:
  "map_of (bm_entries (write_link ident f b)) k
    = map_option (\<lambda>e. if k = ident then e\<lparr>e_value := f (e_value e)\<rparr> else e) (map_of (bm_entries b) k)"
  by (simp add: write_link_def map_of_map_entries)

text \<open>Writes that leave a link's identifier and ends alone.\<close>

definition keeps_ends :: "('d linkEntry \<Rightarrow> 'd linkEntry) \<Rightarrow> bool" where
  "keeps_ends f \<longleftrightarrow> (\<forall>e. le_id (f e) = le_id e \<and> link_keys (f e) = link_keys e)"

lemma keeps_ends_ops [simp]: "keeps_ends (touch_link now)" "keeps_ends (decay_link rate)"
  by (simp_all add: keeps_ends_def touch_link_def decay_link_def link_keys_def)

lemma inv_mapped:
  assumes "layer_inv ly" "\<And>k e. map_of (bm_entries (ly_links ly)) k = Some e \<Longrightarrow> le_id (g k (e_value e)) = k
      \<and> link_keys (g k (e_value e)) = link_keys (e_value e)"
  shows "layer_inv (ly\<lparr>ly_links := (ly_links ly)\<lparr>bm_entries := map (\<lambda>(k, e). (k, e\<lparr>e_value := g k (e_value e)\<rparr>)) (bm_entries (ly_links ly))\<rparr>\<rparr>)"
proof -
  let ?es = "bm_entries (ly_links ly)" and ?fs = "map (\<lambda>(k, e). (k, e\<lparr>e_value := g k (e_value e)\<rparr>)) (bm_entries (ly_links ly))"
  have keys: "map fst ?fs = map fst ?es" by (simp add: comp_def split_beta)
  then have wf: "wf_omap ?fs \<longleftrightarrow> wf_omap ?es" by (metis (no_types))
  have dist: "distinct (map fst ?es)" using assms(1) by (simp add: layer_inv_def bm_inv_def)
  have "ids_hold ?fs" using assms(2) dist by (auto simp: ids_hold_def list_all_iff)
  moreover have "index_exact ?fs (ly_byTerm ly)"
  proof (rule exact_cong)
    show "index_exact ?es (ly_byTerm ly)" using assms(1) by (simp add: layer_inv_def)
    show "rel_option (\<lambda>e f. link_keys (e_value e) = link_keys (e_value f)) (map_of ?es k) (map_of ?fs k)" for k
      using assms(2) [of k] by (cases "map_of ?es k") (auto simp: map_of_map_entries)
  qed
  ultimately show ?thesis using assms(1) wf keys by (auto simp: layer_inv_def bm_inv_def bm_size_def)
qed

lemma inv_write:
  assumes "layer_inv ly" "keeps_ends f"
  shows "layer_inv (ly\<lparr>ly_links := write_link ident f (ly_links ly)\<rparr>)"
proof -
  have "write_link ident f (ly_links ly) = (ly_links ly)\<lparr>bm_entries := map (\<lambda>(k, e). (k, e\<lparr>e_value :=
      (if k = ident then f else id) (e_value e)\<rparr>)) (bm_entries (ly_links ly))\<rparr>"
    unfolding write_link_def by (intro arg_cong [of _ _ "\<lambda>es. (ly_links ly)\<lparr>bm_entries := es\<rparr>"] map_cong) auto
  moreover have "layer_inv (ly\<lparr>ly_links := (ly_links ly)\<lparr>bm_entries := map (\<lambda>(k, e). (k, e\<lparr>e_value :=
      (if k = ident then f else id) (e_value e)\<rparr>)) (bm_entries (ly_links ly))\<rparr>\<rparr>)"
  proof (rule inv_mapped [OF assms(1)])
    fix k e assume "map_of (bm_entries (ly_links ly)) k = Some e"
    then show "le_id ((if k = ident then f else id) (e_value e)) = k
      \<and> link_keys ((if k = ident then f else id) (e_value e)) = link_keys (e_value e)"
      using assms ids_holdD by (auto simp: layer_inv_def keeps_ends_def)
  qed
  ultimately show ?thesis by simp
qed

lemma inv_read:
  assumes "layer_inv ly"
  shows "layer_inv (ly\<lparr>ly_links := snd (bm_get now (ly_links ly) k)\<rparr>)"
proof -
  have b: "bm_inv (ly_links ly)" "bm_ttlMs (ly_links ly) = None" using assms by (simp_all add: layer_inv_def)
  note same = get_same_entries [OF b, of now k]
  have "index_exact (bm_entries (snd (bm_get now (ly_links ly) k))) (ly_byTerm ly)"
    using assms same(2) by (simp add: layer_inv_def index_exact_def)
  moreover have "ids_hold (bm_entries (snd (bm_get now (ly_links ly) k)))"
    using assms same(3) by (simp add: layer_inv_def ids_hold_def list_all_iff)
  moreover have "bm_entries (ly_links ly) = [] \<Longrightarrow> bm_entries (snd (bm_get now (ly_links ly) k)) = []"
    using same(3) by simp
  ultimately show ?thesis using assms same(4-6) by (auto simp: layer_inv_def)
qed

lemma set_absent:
  assumes "map_of (bm_entries b) k = None" "bm_ttlMs b = None"
  obtains (kept) "bm_entries (bm_set now r b k v) = bm_entries b @ [(k, \<lparr>e_value = v, e_expiresAt = None\<rparr>)]"
      "bm_evicted (bm_set now r b k v) = bm_evicted b"
  | (evicted) victim ve where "map_of (bm_entries b) victim = Some ve"
      "bm_entries (bm_set now r b k v) = AList.delete victim (bm_entries b) @ [(k, \<lparr>e_value = v, e_expiresAt = None\<rparr>)]"
      "bm_evicted (bm_set now r b k v) = bm_evicted b @ [(e_value ve, victim)]"
proof -
  have absent: "k \<notin> set (okeys (bm_entries b))" using assms(1) by (simp add: map_of_None_iff)
  consider "bm_size b < bm_maxSize b \<or> bm_selectVictim r b = None"
    | victim where "bm_size b \<ge> bm_maxSize b" "bm_selectVictim r b = Some victim" by fastforce
  then show thesis
  proof cases
    case 1
    then show thesis
      using absent assms(2) by (intro kept) (auto simp: bm_set_def bm_evictVictim_def Let_def update_absent)
  next
    case (2 victim)
    obtain ve where ve: "map_of (bm_entries b) victim = Some ve"
      using bm_victim_present [OF 2(2)] by (metis map_of_None_iff not_Some_eq)
    have "k \<notin> set (okeys (AList.delete victim (bm_entries b)))" using absent by simp
    from update_absent [OF this] show thesis
      using absent assms(2) 2 ve by (intro evicted [of victim ve]) (auto simp: bm_set_def bm_evictVictim_def bm_evict_def Let_def)
  qed
qed

lemma inv_store:
  assumes "layer_inv ly" "map_of (bm_entries (ly_links ly)) (le_id e) = None" "1 \<le> ly_capacity ly" "0 \<le> r" "r < 1"
    and "ly' = store_link now r e ly"
  shows "layer_inv (ly'\<lparr>ly_byTerm := index_link e (ly_byTerm ly')\<rparr>)"
proof -
  let ?b = "ly_links ly" and ?b' = "bm_set now r (ly_links ly) (le_id e) e"
  have i: "bm_inv ?b" "bm_ttlMs ?b = None" "ids_hold (bm_entries ?b)" "index_exact (bm_entries ?b) (ly_byTerm ly)"
    using assms(1) by (simp_all add: layer_inv_def)
  have exact: "index_exact (bm_entries ?b') (index_link e (ly_byTerm ly')) \<and> ids_hold (bm_entries ?b')"
  proof (cases rule: set_absent [OF assms(2) i(2), of now r e, case_names kept evicted])
    case kept
    then show ?thesis
      using exact_insert [OF i(4) assms(2), of "\<lparr>e_value = e, e_expiresAt = None\<rparr>"] i(3) assms(6)
      by (simp add: store_link_def Let_def)
  next
    case (evicted victim ve)
    have gone: "index_exact (AList.delete victim (bm_entries ?b)) (forget_link (e_value ve) (ly_byTerm ly))"
      by (rule exact_delete [OF i(4) evicted(1) ids_holdD [OF i(3) evicted(1)]])
    have "map_of (AList.delete victim (bm_entries ?b)) (le_id e) = None" using assms(2) by (simp add: delete_conv')
    with gone show ?thesis
      using exact_insert [of _ _ "le_id e" "\<lparr>e_value = e, e_expiresAt = None\<rparr>"] evicted i(3) assms(6) ids_hold_delete
      by (simp add: store_link_def Let_def)
  qed
  show ?thesis
    using assms(1,3,6) exact bm_set_inv [OF i(1) assms(4,5), of now "le_id e" e]
    by (simp add: layer_inv_def store_link_def Let_def frame_simps)
qed

lemma inv_addLink:
  assumes "layer_inv ly" "0 \<le> r" "r < 1"
  shows "layer_inv (snd (layer_addLink now r input ly))"
proof (cases "ly_capacity ly < 1")
  case True
  then show ?thesis using assms by (simp add: layer_addLink_def Let_def)
next
  case False
  define ty where "ty = (case li_type input of None \<Rightarrow> DEFAULT_TYPE | Some x \<Rightarrow> x)"
  define p where "p = (case li_priority input of None \<Rightarrow> DEFAULT_PRIORITY | Some x \<Rightarrow> x)"
  let ?id = "linkId (li_source input) (li_target input) ty"
  obtain o' links where g: "bm_get now (ly_links ly) ?id = (o', links)" by (cases "bm_get now (ly_links ly) ?id")
  have read: "layer_inv (ly\<lparr>ly_links := links\<rparr>)" using inv_read [OF assms(1), of now ?id] g by simp
  have same: "o' = map_option e_value (map_of (bm_entries links) ?id)"
    using get_same_entries(1,2) [of "ly_links ly" now ?id] assms(1) g by (simp add: layer_inv_def)
  show ?thesis
  proof (cases o')
    case (Some existing)
    let ?f = "\<lambda>e. (touch_link now e)\<lparr>le_priority := p,
                         le_data := (case li_data input of None \<Rightarrow> le_data e | Some x \<Rightarrow> Some x)\<rparr>"
    have "keeps_ends ?f" by (simp add: keeps_ends_def touch_link_def link_keys_def)
    from inv_write [OF read this, of ?id] show ?thesis
      using False g Some by (simp add: layer_addLink_def Let_def ty_def [symmetric] p_def [symmetric])
  next
    case None
    let ?e = "\<lparr>le_id = ?id, le_source = li_source input, le_target = li_target input, le_type = ty,
               le_priority = p, le_createdAt = now, le_lastAccessedAt = now, le_data = li_data input\<rparr>"
    have "map_of (bm_entries links) ?id = None" using same None by simp
    then show ?thesis
      using inv_store [OF read, of ?e r _ now, OF _ _ assms(2,3) refl] False g None
      by (simp add: layer_addLink_def Let_def ty_def [symmetric] p_def [symmetric])
  qed
qed

lemma purge_entries:
  assumes "layer_inv ly"
  shows "layer_inv (snd (purge_id now ident ly))"
    "bm_entries (ly_links (snd (purge_id now ident ly))) = AList.delete ident (bm_entries (ly_links ly))"
    "ly_capacity (snd (purge_id now ident ly)) = ly_capacity ly"
proof -
  let ?b = "ly_links ly"
  have i: "bm_inv ?b" "bm_ttlMs ?b = None" "ids_hold (bm_entries ?b)" "index_exact (bm_entries ?b) (ly_byTerm ly)"
    using assms by (simp_all add: layer_inv_def)
  have "layer_inv (snd (purge_id now ident ly)) \<and>
    bm_entries (ly_links (snd (purge_id now ident ly))) = AList.delete ident (bm_entries ?b) \<and>
    ly_capacity (snd (purge_id now ident ly)) = ly_capacity ly"
  proof (cases "map_of (bm_entries ?b) ident")
    case None
    then have "AList.delete ident (bm_entries ?b) = bm_entries ?b" by (simp add: delete_absent map_of_None_iff)
    with None show ?thesis using assms by (simp add: purge_id_def peek_same [OF i(2)])
  next
    case (Some e)
    have ident: "le_id (e_value e) = ident" by (rule ids_holdD [OF i(3) Some])
    have "bm_inv (snd (bm_delete ?b ident))" by (rule bm_delete_inv [OF i(1)])
    then show ?thesis
      using exact_delete [OF i(4) Some ident] ids_hold_delete [OF i(3)] assms
      by (auto simp: purge_id_def peek_same [OF i(2)] Some purge_link_def ident bm_delete_def layer_inv_def)
  qed
  then show "layer_inv (snd (purge_id now ident ly))"
    "bm_entries (ly_links (snd (purge_id now ident ly))) = AList.delete ident (bm_entries (ly_links ly))"
    "ly_capacity (snd (purge_id now ident ly)) = ly_capacity ly" by blast+
qed

lemma purge_all:
  assumes "layer_inv ly"
  shows "layer_inv (fold (\<lambda>ident ly. snd (purge_id now ident ly)) ids ly)
    \<and> bm_entries (ly_links (fold (\<lambda>ident ly. snd (purge_id now ident ly)) ids ly))
      = filter (\<lambda>(k, e). k \<notin> set ids) (bm_entries (ly_links ly))
    \<and> ly_capacity (fold (\<lambda>ident ly. snd (purge_id now ident ly)) ids ly) = ly_capacity ly"
  using assms
proof (induction ids arbitrary: ly)
  case (Cons i ids)
  from Cons.IH [OF purge_entries(1) [OF Cons.prems]] show ?case
    using purge_entries(2,3) [OF Cons.prems, of now i]
    by (auto simp: AList.delete_eq filter_filter split_beta intro: filter_cong)
qed simp

lemma inv_removeAll:
  assumes "layer_inv ly"
  shows "layer_inv (layer_removeAllLinksForTerm now t ly)"
    "bm_entries (ly_links (layer_removeAllLinksForTerm now t ly))
      = filter (\<lambda>(k, e). termKey t \<notin> link_keys (e_value e)) (bm_entries (ly_links ly))"
    "ly_capacity (layer_removeAllLinksForTerm now t ly) = ly_capacity ly"
proof -
  let ?es = "bm_entries (ly_links ly)" and ?ids = "bucket_of (ly_byTerm ly) (termKey t)"
  have exact: "?ids = {ident. \<exists>e. map_of ?es ident = Some e \<and> termKey t \<in> link_keys (e_value e)}"
    using assms by (simp add: layer_inv_def index_exact_def)
  have wf: "wf_omap ?es" using assms by (simp add: layer_inv_def bm_inv_def)
  have same: "filter (\<lambda>(k, e). k \<notin> ?ids) ?es = filter (\<lambda>(k, e). termKey t \<notin> link_keys (e_value e)) ?es"
  proof (rule filter_cong [OF refl])
    fix x assume x': "x \<in> set ?es"
    obtain k e where x: "x = (k, e)" by (cases x)
    then have "map_of ?es k = Some e" using map_of_is_SomeI [OF wf] x' by simp
    note x = x this
    then show "(case x of (k, e) \<Rightarrow> k \<notin> ?ids) = (case x of (k, e) \<Rightarrow> termKey t \<notin> link_keys (e_value e))"
      by (simp add: exact)
  qed
  have "layer_inv (layer_removeAllLinksForTerm now t ly) \<and>
    bm_entries (ly_links (layer_removeAllLinksForTerm now t ly)) = filter (\<lambda>(k, e). k \<notin> ?ids) ?es \<and>
    ly_capacity (layer_removeAllLinksForTerm now t ly) = ly_capacity ly"
  proof (cases "map_of (ly_byTerm ly) (termKey t)")
    case None
    then show ?thesis using assms by (simp add: layer_removeAllLinksForTerm_def bucket_of_def case_prod_beta)
  next
    case (Some ids)
    then show ?thesis using purge_all [OF assms, of now ids]
      by (simp add: layer_removeAllLinksForTerm_def bucket_of_def)
  qed
  then show "layer_inv (layer_removeAllLinksForTerm now t ly)"
    "bm_entries (ly_links (layer_removeAllLinksForTerm now t ly))
      = filter (\<lambda>(k, e). termKey t \<notin> link_keys (e_value e)) ?es"
    "ly_capacity (layer_removeAllLinksForTerm now t ly) = ly_capacity ly" using same by simp_all
qed

lemma inv_decay:
  assumes "layer_inv ly"
  shows "layer_inv (layer_applyDecay now rate ly)"
    "map (e_value \<circ> snd) (bm_entries (ly_links (layer_applyDecay now rate ly)))
      = filter (\<lambda>e. MIN_PRIORITY \<le> le_priority e) (map (decay_link rate \<circ> e_value \<circ> snd) (bm_entries (ly_links ly)))"
    "ly_capacity (layer_applyDecay now rate ly) = ly_capacity ly"
proof -
  let ?b = "ly_links ly" and ?g = "\<lambda>(k, e). (k, e\<lparr>e_value := decay_link rate (e_value e)\<rparr>)"
  let ?aged = "ly\<lparr>ly_links := ?b\<lparr>bm_entries := map ?g (bm_entries ?b)\<rparr>\<rparr>"
  have i: "bm_inv ?b" "bm_ttlMs ?b = None" using assms by (simp_all add: layer_inv_def)
  have wf: "wf_omap (bm_entries ?b)" using i(1) by (simp add: bm_inv_def)
  obtain live links where lv: "bm_liveEntries now ?b = (live, links)" by (cases "bm_liveEntries now ?b")
  have live: "live = map (\<lambda>(k, e). (k, e_value e)) (bm_entries ?b)"
    using bm_liveEntries_eq(1) [OF i(1), of now] i(2) lv by (simp add: case_prod_beta)
  have sw: "snd (bm_sweep now es ?b) = ?b" for es using i(2) by (induction es) (auto split: prod.split)
  have links: "links = ?b" using lv sw by (simp add: bm_liveEntries_def) (metis snd_conv)
  let ?doomed = "map fst (filter (\<lambda>(_, e). le_priority (decay_link rate e) < MIN_PRIORITY) live)"
  have eq: "layer_applyDecay now rate ly = fold (\<lambda>ident ly. snd (purge_id now ident ly)) ?doomed ?aged"
    using lv links by (simp add: layer_applyDecay_def Let_def)
  have aged: "layer_inv ?aged"
  proof (rule inv_mapped [OF assms])
    fix k e assume "map_of (bm_entries ?b) k = Some e"
    then have "le_id (e_value e) = k" using ids_holdD [of "bm_entries ?b" k e] assms by (simp add: layer_inv_def)
    then show "le_id (decay_link rate (e_value e)) = k \<and> link_keys (decay_link rate (e_value e)) = link_keys (e_value e)"
      by (simp add: decay_link_def link_keys_def)
  qed
  note all = purge_all [OF aged, of now ?doomed]
  have "filter (\<lambda>(k, e). k \<notin> set ?doomed) (map ?g (bm_entries ?b))
      = filter (\<lambda>(k, e). MIN_PRIORITY \<le> le_priority (e_value e)) (map ?g (bm_entries ?b))"
  proof (rule filter_cong [OF refl])
    fix x assume "x \<in> set (map ?g (bm_entries ?b))"
    then obtain k e where x: "x = ?g (k, e)" "(k, e) \<in> set (bm_entries ?b)" by auto
    have "k \<in> set ?doomed \<longleftrightarrow> le_priority (decay_link rate (e_value e)) < MIN_PRIORITY"
      using x(2) wf by (force simp: live dest: eq_key_imp_eq_value)
    then show "(case x of (k, e) \<Rightarrow> k \<notin> set ?doomed) = (case x of (k, e) \<Rightarrow> MIN_PRIORITY \<le> le_priority (e_value e))"
      by (simp add: x(1) not_less)
  qed
  then show "map (e_value \<circ> snd) (bm_entries (ly_links (layer_applyDecay now rate ly)))
      = filter (\<lambda>e. MIN_PRIORITY \<le> le_priority e) (map (decay_link rate \<circ> e_value \<circ> snd) (bm_entries ?b))"
    using all by (simp add: eq filter_map comp_def case_prod_beta)
  show "layer_inv (layer_applyDecay now rate ly)" "ly_capacity (layer_applyDecay now rate ly) = ly_capacity ly"
    using all by (simp_all add: eq)
qed

section \<open>Lookup is a scan\<close>

definition passes :: "linkQuery \<Rightarrow> 'd linkEntry \<Rightarrow> bool" where
  "passes q e \<longleftrightarrow> (case lq_type q of None \<Rightarrow> True | Some ty \<Rightarrow> le_type e = ty)
     \<and> (case lq_minPriority q of None \<Rightarrow> 0 | Some p \<Rightarrow> p) \<le> le_priority e"

definition capped :: "linkQuery \<Rightarrow> 'a list \<Rightarrow> 'a list" where
  "capped q xs = (case lq_maxResults q of None \<Rightarrow> xs | Some n \<Rightarrow> take (nat n) xs)"

text \<open>A link as a reader gets it: with the time of the reading on it.\<close>

definition seen :: "real \<Rightarrow> 'd layer \<Rightarrow> string \<Rightarrow> 'd linkEntry option" where
  "seen now ly ident = map_option (touch_link now \<circ> e_value) (map_of (bm_entries (ly_links ly)) ident)"

definition layer_values :: "'d layer \<Rightarrow> 'd linkEntry list" where
  "layer_values ly = map (e_value \<circ> snd) (bm_entries (ly_links ly))"

lemma passes_touch [simp]: "passes q (touch_link now e) = passes q e"
  by (simp add: passes_def touch_link_def split: option.split)

lemma touch_touch [simp]: "touch_link now (touch_link now' e) = touch_link now e"
  by (simp add: touch_link_def)

lemma capped_more:
  "(case lq_maxResults q of None \<Rightarrow> False | Some n \<Rightarrow> int (length xs) \<ge> n) \<Longrightarrow> capped q (xs @ ys) = capped q xs"
  by (auto simp: capped_def split: option.splits)

lemma seen_read:
  assumes "layer_inv ly"
  shows "seen now (ly\<lparr>ly_links := snd (bm_get now (ly_links ly) k)\<rparr>) = seen now ly"
    "seen now (ly\<lparr>ly_links := write_link i (touch_link now) (snd (bm_get now (ly_links ly) k))\<rparr>) = seen now ly"
  using get_same_entries(2) [of "ly_links ly" now k] assms
  by (auto simp: fun_eq_iff seen_def layer_inv_def write_link_map_of option.map_comp intro!: map_option_cong)

lemma filter_map_Cons:
  "List.map_filter f (x # xs) = (case f x of None \<Rightarrow> List.map_filter f xs | Some y \<Rightarrow> y # List.map_filter f xs)"
  by (simp add: List.map_filter_def split: option.split)

lemma collect_spec:
  assumes "layer_inv ly" "case lq_maxResults q of None \<Rightarrow> True | Some n \<Rightarrow> int (length out) < n"
  shows "fst (collect_links now q ids out ly) = capped q (out @ filter (passes q) (List.map_filter (seen now ly) ids))
    \<and> layer_inv (snd (collect_links now q ids out ly))
    \<and> ly_capacity (snd (collect_links now q ids out ly)) = ly_capacity ly"
  using assms
proof (induction ids arbitrary: out ly)
  case Nil
  then show ?case by (auto simp: capped_def List.map_filter_def split: option.splits)
next
  case (Cons i ids)
  obtain o' links where g: "bm_get now (ly_links ly) i = (o', links)" by (cases "bm_get now (ly_links ly) i")
  have links: "links = snd (bm_get now (ly_links ly) i)" using g by simp
  have inv: "layer_inv (ly\<lparr>ly_links := links\<rparr>)" using inv_read [OF Cons.prems(1)] links by simp
  have "o' = map_option e_value (map_of (bm_entries (ly_links ly)) i)"
    using get_same_entries(1) [of "ly_links ly" now i] Cons.prems(1) g by (simp add: layer_inv_def)
  then have see: "seen now ly i = map_option (touch_link now) o'" by (simp add: seen_def option.map_comp)
  note sr = seen_read [OF Cons.prems(1), where now = now and k = i, folded links]
  have goal_cong: "?case" if "collect_links now q (i # ids) out ly = collect_links now q ids out' ly'"
      "layer_inv ly'" "case lq_maxResults q of None \<Rightarrow> True | Some n \<Rightarrow> int (length out') < n"
      "seen now ly' = seen now ly" "ly_capacity ly' = ly_capacity ly"
      "out' @ filter (passes q) (List.map_filter (seen now ly) ids)
        = out @ filter (passes q) (List.map_filter (seen now ly) (i # ids))" for out' ly'
    using Cons.IH [OF that(2,3)] unfolding that(1,4,5,6) .
  show ?case
  proof (cases o')
    case None
    show ?thesis
    proof (rule goal_cong [OF _ inv Cons.prems(2) sr(1)])
      show "collect_links now q (i # ids) out ly = collect_links now q ids out (ly\<lparr>ly_links := links\<rparr>)"
        using g None by simp
    qed (use see None in \<open>simp_all add: filter_map_Cons\<close>)
  next
    case (Some e)
    let ?skip = "(case lq_type q of None \<Rightarrow> False | Some ty \<Rightarrow> le_type e \<noteq> ty)
             \<or> le_priority e < (case lq_minPriority q of None \<Rightarrow> 0 | Some p \<Rightarrow> p)"
    have skip: "?skip \<longleftrightarrow> \<not> passes q e" by (auto simp: passes_def split: option.splits)
    let ?out = "out @ [touch_link now e]" and ?ly = "ly\<lparr>ly_links := write_link i (touch_link now) links\<rparr>"
    have unfold: "collect_links now q (i # ids) out ly =
        (if \<not> passes q e then collect_links now q ids out (ly\<lparr>ly_links := links\<rparr>)
         else if (case lq_maxResults q of None \<Rightarrow> False | Some n \<Rightarrow> int (length ?out) \<ge> n) then (?out, ?ly)
         else collect_links now q ids ?out ?ly)"
      unfolding collect_links.simps g Some prod.case option.case skip Let_def ..
    show ?thesis
    proof (cases "passes q e")
      case False
      show ?thesis
        by (rule goal_cong [OF _ inv Cons.prems(2) sr(1)]) (use unfold False see Some in \<open>simp_all add: filter_map_Cons\<close>)
    next
      case True
      have inv': "layer_inv ?ly" using inv_write [OF inv keeps_ends_ops(1), of i now] by simp
      have rest: "filter (passes q) (List.map_filter (seen now ly) (i # ids))
          = touch_link now e # filter (passes q) (List.map_filter (seen now ly) ids)"
        using see Some True by (simp add: filter_map_Cons)
      show ?thesis
      proof (cases "case lq_maxResults q of None \<Rightarrow> False | Some n \<Rightarrow> int (length ?out) \<ge> n")
        case full: True
        have "capped q (?out @ filter (passes q) (List.map_filter (seen now ly) ids)) = capped q ?out"
          by (rule capped_more [OF full])
        moreover have "capped q ?out = ?out" using Cons.prems(2) by (auto simp: capped_def split: option.splits)
        moreover have "collect_links now q (i # ids) out ly = (?out, ?ly)" using unfold True full by simp
        ultimately show ?thesis using inv' rest by simp
      next
        case room: False
        then have more: "case lq_maxResults q of None \<Rightarrow> True | Some n \<Rightarrow> int (length ?out) < n" by (auto split: option.splits)
        show ?thesis
          by (rule goal_cong [OF _ inv' more sr(2)]) (use unfold True room rest in simp_all)
      qed
    qed
  qed
qed

lemma set_map_filter: "set (List.map_filter f xs) = {y. \<exists>x \<in> set xs. f x = Some y}"
  by (induction xs) (auto simp: filter_map_Cons List.map_filter_def split: option.splits)

lemma lookup_spec:
  assumes "layer_inv ly"
  shows "layer_inv (snd (layer_getLinksByTerm now t q ly))"
    "ly_capacity (snd (layer_getLinksByTerm now t q ly)) = ly_capacity ly"
    "set (fst (layer_getLinksByTerm now t (q\<lparr>lq_maxResults := None\<rparr>) ly))
      = touch_link now ` {e \<in> set (layer_values ly). passes q e \<and> termKey t \<in> link_keys e}"
    "fst (layer_getLinksByTerm now t q ly) = capped q (fst (layer_getLinksByTerm now t (q\<lparr>lq_maxResults := None\<rparr>) ly))"
proof -
  let ?q = "q\<lparr>lq_maxResults := None\<rparr>" and ?es = "bm_entries (ly_links ly)"
  have pq: "passes ?q = passes q" by (simp add: passes_def fun_eq_iff)
  have capN: "capped ?q xs = xs" for xs :: "'x list" by (simp add: capped_def)
  have exact: "bucket_of (ly_byTerm ly) (termKey t) = {ident. \<exists>e. map_of ?es ident = Some e \<and> termKey t \<in> link_keys (e_value e)}"
    using assms by (simp add: layer_inv_def index_exact_def)
  have wf: "wf_omap ?es" using assms by (simp add: layer_inv_def bm_inv_def)
  show "layer_inv (snd (layer_getLinksByTerm now t q ly))"
    "ly_capacity (snd (layer_getLinksByTerm now t q ly)) = ly_capacity ly"
    using assms collect_spec [OF assms, where q = q and out = "[]" and now = now]
    by (auto simp: layer_getLinksByTerm_def split: option.split)
  show "fst (layer_getLinksByTerm now t q ly) = capped q (fst (layer_getLinksByTerm now t ?q ly))"
    using collect_spec [OF assms, where q = q and out = "[]" and now = now] collect_spec [OF assms, where q = ?q and out = "[]" and now = now]
    by (auto simp: layer_getLinksByTerm_def capN pq capped_def split: option.split)
  have "set (fst (layer_getLinksByTerm now t ?q ly))
      = {e. passes q e \<and> (\<exists>i \<in> bucket_of (ly_byTerm ly) (termKey t). seen now ly i = Some e)}"
    using collect_spec [OF assms, where q = ?q and out = "[]" and now = now]
    by (auto simp: layer_getLinksByTerm_def bucket_of_def capN pq set_map_filter split: option.split)
  also have "\<dots> = touch_link now ` {e \<in> set (layer_values ly). passes q e \<and> termKey t \<in> link_keys e}"
    (is "?L = ?R")
  proof
    show "?L \<subseteq> ?R"
    proof
      fix x assume "x \<in> ?L"
      then obtain k e where e: "map_of ?es k = Some e" "termKey t \<in> link_keys (e_value e)" "x = touch_link now (e_value e)" "passes q x"
        by (auto simp: exact seen_def)
      then have "e_value e \<in> set (layer_values ly)" by (force simp: layer_values_def dest: map_of_SomeD)
      with e show "x \<in> ?R" by simp
    qed
    show "?R \<subseteq> ?L"
    proof
      fix x assume "x \<in> ?R"
      then obtain k e where e: "(k, e) \<in> set ?es" "passes q (e_value e)" "termKey t \<in> link_keys (e_value e)" "x = touch_link now (e_value e)"
        by (auto simp: layer_values_def)
      then have "map_of ?es k = Some e" using wf by simp
      with e show "x \<in> ?L" by (auto simp: exact seen_def)
    qed
  qed
  finally show "set (fst (layer_getLinksByTerm now t ?q ly))
      = touch_link now ` {e \<in> set (layer_values ly). passes q e \<and> termKey t \<in> link_keys e}" .
qed

section \<open>Runs of a layer\<close>

datatype 'd linkOp =
  AddLink real real "'d linkInput" | RemoveLink real narTerm narTerm linkType | ReadLinks real narTerm linkQuery
  | RemoveTerm real narTerm | DecayLinks real real

fun layer_step :: "'d layer \<Rightarrow> 'd linkOp \<Rightarrow> 'd layer" where
  "layer_step ly (AddLink now r input) = snd (layer_addLink now r input ly)"
| "layer_step ly (RemoveLink now s t ty) = snd (layer_removeLink now s t ty ly)"
| "layer_step ly (ReadLinks now t q) = snd (layer_getLinksByTerm now t q ly)"
| "layer_step ly (RemoveTerm now t) = layer_removeAllLinksForTerm now t ly"
| "layer_step ly (DecayLinks now rate) = layer_applyDecay now rate ly"

fun draw_ok :: "'d linkOp \<Rightarrow> bool" where
  "draw_ok (AddLink now r input) = (0 \<le> r \<and> r < 1)"
| "draw_ok _ = True"

lemma newLayer_inv: "layer_inv (newLayer name capacity policy)"
proof -
  have "bm_inv (newBoundedMap capacity None (linkEvictionOrder policy) None :: (string, 'd linkEntry) boundedMap)"
    by (rule newBoundedMap_inv) simp
  then show ?thesis by (auto simp: layer_inv_def newLayer_def newBoundedMap_def index_exact_def bucket_of_def)
qed

lemma addLink_capacity: "ly_capacity (snd (layer_addLink now r input ly)) = ly_capacity ly"
  by (auto simp: layer_addLink_def store_link_def Let_def split: prod.split option.split)

lemma layer_step_inv:
  assumes "layer_inv ly" "draw_ok op"
  shows "layer_inv (layer_step ly op) \<and> ly_capacity (layer_step ly op) = ly_capacity ly"
proof (cases op)
  case (AddLink now r input)
  then show ?thesis using assms by (simp add: inv_addLink addLink_capacity)
next
  case (RemoveLink now s t ty)
  then show ?thesis using purge_entries [OF assms(1)] by (simp add: layer_removeLink_def)
next
  case (ReadLinks now t q)
  then show ?thesis using lookup_spec(1,2) [OF assms(1)] by simp
next
  case (RemoveTerm now t)
  then show ?thesis using inv_removeAll(1,3) [OF assms(1)] by simp
next
  case (DecayLinks now rate)
  then show ?thesis using inv_decay(1,3) [OF assms(1)] by simp
qed

lemma layer_run_inv:
  assumes "layer_inv ly" "list_all draw_ok ops"
  shows "layer_inv (foldl layer_step ly ops) \<and> ly_capacity (foldl layer_step ly ops) = ly_capacity ly"
  using assms
proof (induction ops arbitrary: ly)
  case (Cons op ops)
  have d: "draw_ok op" "list_all draw_ok ops" using Cons.prems(2) by simp_all
  note step = layer_step_inv [OF Cons.prems(1) d(1)]
  show ?case using Cons.IH [OF step [THEN conjunct1] d(2)] step [THEN conjunct2] unfolding foldl.simps by argo
qed simp

lemma newLayer_capacity: "ly_capacity (newLayer name capacity policy) = capacity"
  by (simp add: newLayer_def)

lemma layer_bounded:
  assumes "layer_inv ly"
  shows "int (length (layer_values ly)) \<le> max 0 (ly_capacity ly)"
proof -
  have "int (length (layer_values ly)) \<le> max 1 (ly_capacity ly)" "ly_capacity ly < 1 \<Longrightarrow> layer_values ly = []"
    using assms by (simp_all add: layer_inv_def bm_inv_def bm_size_def layer_values_def)
  then show ?thesis by (cases "ly_capacity ly < 1") simp_all
qed

text \<open>C21: a layer stays bounded, and looking up a term is scanning the layer. After any additions,
  removals, reads and decays under any forget policy, a layer holds no more links than its capacity,
  and asking it for the links of a term answers, stamped as read, exactly the links with that term at
  an end that pass the query: eviction leaves nothing behind in the index and loses nothing from it.\<close>

theorem layer_lookup_is_scan:
  assumes "list_all draw_ok ops"
  shows "let ly = foldl layer_step (newLayer name capacity policy) ops;
             found = fst (layer_getLinksByTerm now t (q\<lparr>lq_maxResults := None\<rparr>) ly)
    in int (length (layer_values ly)) \<le> max 0 capacity
       \<and> set found = touch_link now ` {e \<in> set (layer_values ly). passes q e \<and> termKey t \<in> link_keys e}
       \<and> fst (layer_getLinksByTerm now t q ly) = capped q found"
proof -
  define ly where "ly = foldl layer_step (newLayer name capacity policy) ops"
  have inv: "layer_inv ly" "ly_capacity ly = capacity"
    using layer_run_inv [OF newLayer_inv assms, of name capacity policy] unfolding ly_def newLayer_capacity by blast+
  have "int (length (layer_values ly)) \<le> max 0 capacity"
    using layer_bounded [OF inv(1)] inv(2) by simp
  with lookup_spec(3,4) [OF inv(1), of now t q] show ?thesis
    unfolding Let_def ly_def [symmetric] by blast
qed

section \<open>The manager\<close>

record 'd linkManager =
  lm_defaultCapacity :: int
  lm_decayRate :: real
  lm_policy :: linkForgetPolicy
  lm_layers :: "(string, 'd layer) omap"

definition DEFAULT_LAYER :: string where "DEFAULT_LAYER = ''term''"

definition registerLayer :: "string \<Rightarrow> int \<Rightarrow> 'd linkManager \<Rightarrow> 'd layer \<times> 'd linkManager" where
  "registerLayer name capacity m =
     (case getOrInsert omap_get omap_set (lm_layers m) name (newLayer name capacity (lm_policy m)) of
        (ly, layers, _) \<Rightarrow> (ly, m\<lparr>lm_layers := layers\<rparr>))"

definition newLinkManager :: "int \<Rightarrow> (string \<times> int) list \<Rightarrow> real \<Rightarrow> linkForgetPolicy \<Rightarrow> 'd linkManager" where
  "newLinkManager defaultCapacity layers rate policy =
     fold (\<lambda>(name, capacity) m. snd (registerLayer name capacity m)) layers
       \<lparr>lm_defaultCapacity = defaultCapacity, lm_decayRate = rate, lm_policy = policy, lm_layers = []\<rparr>"

definition getLayer :: "string \<Rightarrow> 'd linkManager \<Rightarrow> 'd layer option" where
  "getLayer name m = map_of (lm_layers m) name"

definition setLayer :: "string \<Rightarrow> 'd layer \<Rightarrow> 'd linkManager \<Rightarrow> 'd linkManager" where
  "setLayer name ly m = m\<lparr>lm_layers := AList.update name ly (lm_layers m)\<rparr>"

definition layerFor :: "string \<Rightarrow> 'd linkManager \<Rightarrow> 'd layer \<times> 'd linkManager" where
  "layerFor name m =
     (case getLayer name m of Some ly \<Rightarrow> (ly, m) | None \<Rightarrow> registerLayer name (lm_defaultCapacity m) m)"

definition manager_addLink ::
  "real \<Rightarrow> real \<Rightarrow> narTerm \<Rightarrow> narTerm \<Rightarrow> string option \<Rightarrow> linkType option \<Rightarrow> real option
    \<Rightarrow> 'd linkManager \<Rightarrow> 'd linkEntry option \<times> 'd linkManager" where
  "manager_addLink now r s t name ty priority m =
     (let n = (case name of None \<Rightarrow> DEFAULT_LAYER | Some x \<Rightarrow> x)
      in case layerFor n m of
           (ly, m') \<Rightarrow>
             (case layer_addLink now r \<lparr>li_source = s, li_target = t, li_type = ty, li_priority = priority, li_data = None\<rparr> ly of
                (e, ly') \<Rightarrow> (e, setLayer n ly' m')))"

definition getLinks ::
  "real \<Rightarrow> narTerm \<Rightarrow> string option \<Rightarrow> linkQuery \<Rightarrow> 'd linkManager \<Rightarrow> 'd linkEntry list \<times> 'd linkManager" where
  "getLinks now t name q m =
     (let n = (case name of None \<Rightarrow> DEFAULT_LAYER | Some x \<Rightarrow> x)
      in case getLayer n m of
           None \<Rightarrow> ([], m)
         | Some ly \<Rightarrow> (case layer_getLinksByTerm now t q ly of (es, ly') \<Rightarrow> (es, setLayer n ly' m)))"

definition removeByTerm ::
  "real \<Rightarrow> narTerm \<Rightarrow> narTerm \<Rightarrow> linkType option \<Rightarrow> 'd linkManager \<Rightarrow> bool \<times> 'd linkManager" where
  "removeByTerm now s t ty m =
     (case layerFor DEFAULT_LAYER m of
        (ly, m') \<Rightarrow>
          (case layer_removeLink now s t (case ty of None \<Rightarrow> DEFAULT_TYPE | Some x \<Rightarrow> x) ly of
             (ok, ly') \<Rightarrow> (ok, setLayer DEFAULT_LAYER ly' m')))"

definition each_layer :: "('d layer \<Rightarrow> 'd layer) \<Rightarrow> 'd linkManager \<Rightarrow> 'd linkManager" where
  "each_layer f m = m\<lparr>lm_layers := map (\<lambda>(name, ly). (name, f ly)) (lm_layers m)\<rparr>"

definition removeAllLinksForTerm :: "real \<Rightarrow> narTerm \<Rightarrow> 'd linkManager \<Rightarrow> 'd linkManager" where
  "removeAllLinksForTerm now t = each_layer (layer_removeAllLinksForTerm now t)"

definition manager_getLinkPriority :: "real \<Rightarrow> narTerm \<Rightarrow> narTerm \<Rightarrow> string option \<Rightarrow> 'd linkManager \<Rightarrow> real" where
  "manager_getLinkPriority now s t name m =
     (case getLayer (case name of None \<Rightarrow> DEFAULT_LAYER | Some x \<Rightarrow> x) m of
        None \<Rightarrow> 0 | Some ly \<Rightarrow> layer_getLinkPriority now s t DEFAULT_TYPE ly)"

definition manager_applyDecay :: "real \<Rightarrow> real option \<Rightarrow> 'd linkManager \<Rightarrow> 'd linkManager" where
  "manager_applyDecay now rate m =
     each_layer (layer_applyDecay now (case rate of None \<Rightarrow> lm_decayRate m | Some x \<Rightarrow> x)) m"

definition manager_getStats :: "'d linkManager \<Rightarrow> (string \<times> int \<times> int) list" where
  "manager_getStats m =
     map (\<lambda>(name, ly). (name, cs_size (layer_getStats ly), cs_capacity (layer_getStats ly))) (lm_layers m)"

text \<open>All the links a manager holds.\<close>

definition all_links :: "'d linkManager \<Rightarrow> 'd linkEntry list" where
  "all_links m = concat (map (layer_values \<circ> snd) (lm_layers m))"

definition manager_inv :: "'d linkManager \<Rightarrow> bool" where
  "manager_inv m \<longleftrightarrow> wf_omap (lm_layers m) \<and> list_all (\<lambda>(name, ly). layer_inv ly) (lm_layers m)"

lemma layer_inv_of: "manager_inv m \<Longrightarrow> map_of (lm_layers m) n = Some ly \<Longrightarrow> layer_inv ly"
  by (auto simp: manager_inv_def list_all_iff dest: map_of_SomeD)

lemma setLayer_inv: "manager_inv m \<Longrightarrow> layer_inv ly \<Longrightarrow> manager_inv (setLayer n ly m)"
  by (auto simp: manager_inv_def setLayer_def list_all_iff dest: set_update_entries [THEN subsetD])

lemma each_layer_inv: "manager_inv m \<Longrightarrow> (\<And>ly. layer_inv ly \<Longrightarrow> layer_inv (f ly)) \<Longrightarrow> manager_inv (each_layer f m)"
  by (auto simp: manager_inv_def each_layer_def list_all_iff comp_def split_beta)

lemma registerLayer_inv:
  assumes "manager_inv m"
  shows "manager_inv (snd (registerLayer name capacity m))" "layer_inv (fst (registerLayer name capacity m))"
proof -
  have "manager_inv (snd (registerLayer name capacity m)) \<and> layer_inv (fst (registerLayer name capacity m))"
  proof (cases "map_of (lm_layers m) name")
    case None
    then show ?thesis
      using setLayer_inv [OF assms newLayer_inv, of name name capacity "lm_policy m"] newLayer_inv
      by (simp add: registerLayer_def getOrInsert_def omap_get_def omap_set_def setLayer_def)
  next
    case (Some ly)
    then show ?thesis using assms layer_inv_of [OF assms Some]
      by (simp add: registerLayer_def getOrInsert_def omap_get_def)
  qed
  then show "manager_inv (snd (registerLayer name capacity m))" "layer_inv (fst (registerLayer name capacity m))" by blast+
qed

lemma layerFor_inv:
  assumes "manager_inv m"
  shows "manager_inv (snd (layerFor name m))" "layer_inv (fst (layerFor name m))"
  using registerLayer_inv [OF assms] layer_inv_of [OF assms] assms
  by (auto simp: layerFor_def getLayer_def split: option.split)

lemma manager_addLink_inv:
  assumes "manager_inv m" "0 \<le> r" "r < 1"
  shows "manager_inv (snd (manager_addLink now r s t name ty priority m))"
proof -
  let ?n = "case name of None \<Rightarrow> DEFAULT_LAYER | Some x \<Rightarrow> x"
  have "layer_inv (snd (layer_addLink now r input (fst (layerFor ?n m))))" for input
    by (rule inv_addLink [OF layerFor_inv(2) [OF assms(1)] assms(2,3)])
  then show ?thesis
    using setLayer_inv [OF layerFor_inv(1) [OF assms(1)]] by (simp add: manager_addLink_def Let_def split_beta)
qed

lemma getLinks_inv:
  assumes "manager_inv m"
  shows "manager_inv (snd (getLinks now t name q m))"
  using assms lookup_spec(1) [OF layer_inv_of [OF assms]] setLayer_inv [OF assms]
  by (auto simp: getLinks_def getLayer_def Let_def split_beta split: option.split)

text \<open>Removing a term's links removes exactly them, from every layer; a decay at rate one removes all.\<close>

lemma layer_values_removeAll:
  assumes "layer_inv ly"
  shows "layer_values (layer_removeAllLinksForTerm now t ly) = filter (\<lambda>e. termKey t \<notin> link_keys e) (layer_values ly)"
proof -
  have "filter (\<lambda>(k, e). termKey t \<notin> link_keys (e_value e)) xs = filter (\<lambda>x. termKey t \<notin> link_keys (e_value (snd x))) xs"
    for xs :: "(string \<times> 'a linkEntry entry) list"
    by (rule filter_cong) auto
  then show ?thesis using inv_removeAll(2) [OF assms, of now t] by (simp add: layer_values_def filter_map comp_def)
qed

lemma concat_removeAll:
  "list_all (\<lambda>(name, ly). layer_inv ly) layers \<Longrightarrow>
    concat (map (layer_values \<circ> snd) (map (\<lambda>(name, ly). (name, layer_removeAllLinksForTerm now t ly)) layers))
      = filter (\<lambda>e. termKey t \<notin> link_keys e) (concat (map (layer_values \<circ> snd) layers))"
  by (induction layers) (auto simp: layer_values_removeAll)

lemma removeAll_links:
  assumes "manager_inv m"
  shows "manager_inv (removeAllLinksForTerm now t m)"
    "all_links (removeAllLinksForTerm now t m) = filter (\<lambda>e. termKey t \<notin> link_keys e) (all_links m)"
proof -
  show "manager_inv (removeAllLinksForTerm now t m)"
    unfolding removeAllLinksForTerm_def by (rule each_layer_inv [OF assms inv_removeAll(1)])
  have "list_all (\<lambda>(name, ly). layer_inv ly) (lm_layers m)" using assms by (simp add: manager_inv_def)
  moreover have "lm_layers (removeAllLinksForTerm now t m)
      = map (\<lambda>(name, ly). (name, layer_removeAllLinksForTerm now t ly)) (lm_layers m)"
    by (simp add: removeAllLinksForTerm_def each_layer_def)
  ultimately show "all_links (removeAllLinksForTerm now t m) = filter (\<lambda>e. termKey t \<notin> link_keys e) (all_links m)"
    unfolding all_links_def by (simp only: concat_removeAll)
qed

lemma layer_values_decay_one:
  assumes "layer_inv ly"
  shows "layer_values (layer_applyDecay now 1 ly) = []"
proof -
  have "\<not> MIN_PRIORITY \<le> le_priority (decay_link 1 e)" for e :: "'a linkEntry"
    by (simp add: decay_link_def retain_def MIN_PRIORITY_def)
  then show ?thesis using inv_decay(2) [OF assms, of now 1] by (simp add: layer_values_def filter_empty_conv)
qed

lemma decay_one_clears:
  assumes "manager_inv m"
  shows "manager_inv (manager_applyDecay now (Some 1) m)" "all_links (manager_applyDecay now (Some 1) m) = []"
proof -
  show "manager_inv (manager_applyDecay now (Some 1) m)"
    unfolding manager_applyDecay_def by (rule each_layer_inv [OF assms inv_decay(1)])
  have "\<forall>(name, ly) \<in> set (lm_layers m). layer_inv ly" using assms by (simp add: manager_inv_def list_all_iff)
  then show "all_links (manager_applyDecay now (Some 1) m) = []"
    by (auto simp: manager_applyDecay_def each_layer_def all_links_def layer_values_decay_one)
qed

definition example_link :: "string \<Rightarrow> string \<Rightarrow> unit linkInput" where
  "example_link s t = \<lparr>li_source = Atom s, li_target = Atom t, li_type = None, li_priority = None, li_data = None\<rparr>"

lemma layer_lookup_is_scan_witness:
  "int (length (layer_values (foldl layer_step (newLayer ''term'' 2 ForgetLru)
     [AddLink 0 0 (example_link ''a'' ''b''), AddLink 1 0 (example_link ''a'' ''c''), AddLink 2 0 (example_link ''b'' ''c'')]))) \<le> 2"
  using layer_lookup_is_scan [of "[AddLink 0 0 (example_link ''a'' ''b''), AddLink 1 0 (example_link ''a'' ''c''),
      AddLink 2 0 (example_link ''b'' ''c'')]" "''term''" 2 ForgetLru 3 "Atom ''a''" "\<lparr>lq_type = None, lq_minPriority = None, lq_maxResults = None\<rparr>"]
  unfolding Let_def by simp

end
