(* ===== verification/Memory.thy ===== *)
theory Memory
  imports Concept Links Caches Operations
begin

text \<open>
  The memory: \<open>nar/src/memory/memory.ts\<close> with its focus (\<open>focus.ts\<close>), symbol and time index
  (\<open>memory-index.ts\<close>), archive and forgetting (\<open>lifecycle\<close>), eviction under pressure
  (\<open>pressure/consolidation.ts\<close>), statistics (\<open>state/statistics.ts\<close>) and the attention models that
  write no neighbours (\<open>strategies/attention\<close>). Concepts are objects that the store, the focus, the
  index and the archive share, so they live in a heap and the containers hold their addresses. The
  archive is keyed by term objects in the code and by terms here: equal terms are one object while
  the intern cache holds them. The
  clock's reading in an operation is one argument, with the identifiers and the stamp it mints.
  Not modelled: the embedding layer, which a configuration asks for and the default one does (the memory
  here is one without), the lookups by text, and the attention models that read the goals or prime
  neighbours; no model in the code acts on a tick.
\<close>

section \<open>Attention models\<close>

datatype attentionModel = NullAttention | SimpleAttention real | CompositeAttention "(attentionModel \<times> real) list"

fun attention_prime :: "attentionModel \<Rightarrow> real" where
  "attention_prime NullAttention = 0"
| "attention_prime (SimpleAttention boost) = boost"
| "attention_prime (CompositeAttention members) =
     safeRatio (sum_list (map (\<lambda>(model, w). attention_prime model * w) members)) (sum_list (map snd members)) 0"

fun attention_decay :: "attentionModel \<Rightarrow> real \<Rightarrow> int \<Rightarrow> real \<Rightarrow> real" where
  "attention_decay NullAttention p cycles rate = 0"
| "attention_decay (SimpleAttention boost) p cycles rate = forget p rate"
| "attention_decay (CompositeAttention members) p cycles rate =
     safeRatio (sum_list (map (\<lambda>(model, w). attention_decay model p cycles rate * w) members)) (sum_list (map snd members)) 0"

text \<open>The constructor of a composite; \<open>None\<close> is its throw.\<close>

definition newComposite :: "(attentionModel \<times> real) list \<Rightarrow> attentionModel option" where
  "newComposite models =
     (if models = [] then None else if \<not> 0 < sumBy models snd then None else Some (CompositeAttention models))"

section \<open>Configuration and state\<close>

datatype forgettingPolicy = ForgetOldest | ForgetLowest

record memoryConfig =
  mc_maxConcepts :: int
  mc_maxTasks :: "int option"
  mc_activationDecayRate :: real
  mc_consolidationInterval :: int
  mc_focusMaxConcepts :: int
  mc_archiveMaxConcepts :: int
  mc_enableIndexing :: bool
  mc_enableArchive :: bool
  mc_forgettingPolicy :: forgettingPolicy
  mc_linkCapacity :: int
  mc_termLinkCapacity :: int
  mc_linkForgetPolicy :: linkForgetPolicy
  mc_linkDecayRate :: real
  mc_bag :: conceptConfig

definition DEFAULT_MEMORY_CONFIG :: memoryConfig where
  "DEFAULT_MEMORY_CONFIG =
     \<lparr>mc_maxConcepts = 1000, mc_maxTasks = None, mc_activationDecayRate = 1 / 100, mc_consolidationInterval = 10,
      mc_focusMaxConcepts = 50, mc_archiveMaxConcepts = 1000, mc_enableIndexing = True, mc_enableArchive = True,
      mc_forgettingPolicy = ForgetOldest, mc_linkCapacity = 1000, mc_termLinkCapacity = 1000,
      mc_linkForgetPolicy = ForgetPriority, mc_linkDecayRate = 1 / 1000,
      mc_bag = \<lparr>cg_maxBeliefs = None, cg_maxGoals = None, cg_maxQuestions = None, cg_decayRate = None, cg_forgetRate = None\<rparr>\<rparr>"

definition ARCHIVE_SHARE :: real where "ARCHIVE_SHARE = 3 / 10"
definition FORGET_SHARE :: real where "FORGET_SHARE = 2 / 10"
definition TASK_VALUE :: real where "TASK_VALUE = 1"
definition PRESSURE_NEUTRAL :: real where "PRESSURE_NEUTRAL = 5 / 10"
definition PRESSURE_ARCHIVE :: real where "PRESSURE_ARCHIVE = 8 / 10"
definition PRESSURE_CRITICAL :: real where "PRESSURE_CRITICAL = 9 / 10"
definition REVISION_LOG_CAP :: int where "REVISION_LOG_CAP = 1000"
definition TEMPORAL_RESOLUTION :: real where "TEMPORAL_RESOLUTION = 1000"

datatype evictionReason = WithinCapacity | Evicted | Exhausted

record evictionReport =
  er_reason :: evictionReason
  er_archived :: nat
  er_forgotten :: nat
  er_taskHolders :: nat
  er_candidates :: nat
  er_idle :: nat

record memoryIndex =
  ix_enabled :: bool
  ix_atomic :: "(string, nat list) omap"
  ix_temporal :: "(int, nat list) omap"
  ix_temporalKeys :: "(nat, int) omap"

record memory =
  m_config :: memoryConfig
  m_attention :: attentionModel
  m_heap :: "concept list"
  m_concepts :: "(string, nat) omap"
  m_index :: memoryIndex
  m_focusMax :: int
  m_focus :: "(string, nat) omap"
  m_archive :: "(narTerm, nat) lruCache"
  m_policy :: forgettingPolicy
  m_links :: "unit linkManager"
  m_revisionLog :: "revisionEntry boundedRing"
  m_lastRevisionTs :: real
  m_cycles :: int
  m_lastEviction :: "evictionReport option"

text \<open>What the platform supplies to an admission: the time, three bag identifiers, an entry
  identifier and a stamp.\<close>

record admission =
  ad_now :: real
  ad_bagIds :: "string \<times> string \<times> string"
  ad_entryId :: string
  ad_stamp :: stamp

definition newIndex :: "bool \<Rightarrow> memoryIndex" where
  "newIndex on = \<lparr>ix_enabled = on, ix_atomic = [], ix_temporal = [], ix_temporalKeys = []\<rparr>"

definition newMemory :: "memoryConfig \<Rightarrow> attentionModel \<Rightarrow> memory" where
  "newMemory config model =
     \<lparr>m_config = config, m_attention = model, m_heap = [], m_concepts = [],
      m_index = newIndex (mc_enableIndexing config),
      m_focusMax = mc_focusMaxConcepts config, m_focus = [],
      m_archive = newLruCache (mc_archiveMaxConcepts config), m_policy = mc_forgettingPolicy config,
      m_links = newLinkManager (mc_linkCapacity config) [(DEFAULT_LAYER, mc_termLinkCapacity config)]
        (mc_linkDecayRate config) (mc_linkForgetPolicy config),
      m_revisionLog = \<lparr>ring_items = [], ring_capacity = REVISION_LOG_CAP, ring_overflow = DropOldest\<rparr>,
      m_lastRevisionTs = 0, m_cycles = 0, m_lastEviction = None\<rparr>"

definition concept_at :: "memory \<Rightarrow> nat \<Rightarrow> concept" where "concept_at m a = m_heap m ! a"

definition write_concept :: "nat \<Rightarrow> concept \<Rightarrow> memory \<Rightarrow> memory" where
  "write_concept a c m = m\<lparr>m_heap := (m_heap m)[a := c]\<rparr>"

definition memory_size :: "memory \<Rightarrow> nat" where "memory_size m = length (m_concepts m)"

definition getConcept :: "narTerm \<Rightarrow> memory \<Rightarrow> nat option" where
  "getConcept t m = map_of (m_concepts m) (termKey t)"

definition listConcepts :: "memory \<Rightarrow> nat list" where "listConcepts m = map snd (m_concepts m)"

section \<open>Index\<close>

definition index_add :: "real \<Rightarrow> string \<Rightarrow> nat \<Rightarrow> memoryIndex \<Rightarrow> memoryIndex" where
  "index_add now key a ix =
     (if \<not> ix_enabled ix then ix
      else let bucket = \<lfloor>now / TEMPORAL_RESOLUTION\<rfloor>
           in ix\<lparr>ix_atomic := addToSet (ix_atomic ix) key a, ix_temporal := addToSet (ix_temporal ix) bucket a,
                 ix_temporalKeys := AList.update a bucket (ix_temporalKeys ix)\<rparr>)"

definition index_remove :: "string \<Rightarrow> nat \<Rightarrow> memoryIndex \<Rightarrow> memoryIndex" where
  "index_remove key a ix =
     (let ix' = (if ix_enabled ix then ix\<lparr>ix_atomic := removeFromSet (ix_atomic ix) key a\<rparr> else ix)
      in case map_of (ix_temporalKeys ix') a of
           None \<Rightarrow> ix'
         | Some bucket \<Rightarrow> ix'\<lparr>ix_temporalKeys := AList.delete a (ix_temporalKeys ix'),
                             ix_temporal := removeFromSet (ix_temporal ix') bucket a\<rparr>)"

definition getByAtomic :: "string \<Rightarrow> memoryIndex \<Rightarrow> nat list" where
  "getByAtomic symbol ix = (case map_of (ix_atomic ix) (atomKey symbol) of None \<Rightarrow> [] | Some as \<Rightarrow> as)"

definition getByTemporal :: "real \<Rightarrow> real \<Rightarrow> memoryIndex \<Rightarrow> nat list" where
  "getByTemporal from upto' ix =
     unique (concat (map (\<lambda>key. case map_of (ix_temporal ix) key of None \<Rightarrow> [] | Some as \<Rightarrow> as)
       [\<lfloor>from / TEMPORAL_RESOLUTION\<rfloor>..\<lfloor>upto' / TEMPORAL_RESOLUTION\<rfloor>]))"

definition queryBySymbol :: "string \<Rightarrow> memory \<Rightarrow> nat list" where
  "queryBySymbol symbol m = (if \<not> mc_enableIndexing (m_config m) then [] else getByAtomic symbol (m_index m))"

definition queryByTimeRange :: "real \<Rightarrow> real \<Rightarrow> memory \<Rightarrow> nat list" where
  "queryByTimeRange from upto' m = (if \<not> mc_enableIndexing (m_config m) then [] else getByTemporal from upto' (m_index m))"

section \<open>Focus\<close>

fun lowest_of :: "memory \<Rightarrow> nat option \<Rightarrow> nat list \<Rightarrow> nat option" where
  "lowest_of m lowest [] = lowest"
| "lowest_of m lowest (a # as) =
     lowest_of m (case lowest of None \<Rightarrow> Some a
       | Some b \<Rightarrow> if cc_priority (concept_at m a) < cc_priority (concept_at m b) then Some a else Some b) as"

definition addToFocus :: "nat \<Rightarrow> memory \<Rightarrow> memory" where
  "addToFocus a m =
     (let key = termKey (cc_term (concept_at m a)); entered = (\<lambda>m. m\<lparr>m_focus := AList.update key a (m_focus m)\<rparr>)
      in if int (length (m_focus m)) \<ge> m_focusMax m \<and> key \<notin> set (okeys (m_focus m))
         then case lowest_of m None (map snd (m_focus m)) of
                None \<Rightarrow> m
              | Some b \<Rightarrow>
                  if cc_priority (concept_at m b) \<ge> cc_priority (concept_at m a) then m
                  else entered (m\<lparr>m_focus := AList.delete (termKey (cc_term (concept_at m b))) (m_focus m)\<rparr>)
         else entered m)"

definition updateAllFocus :: "memory \<Rightarrow> memory" where
  "updateAllFocus m =
     fold addToFocus (selectTopN (listConcepts m) (mc_focusMaxConcepts (m_config m)) (\<lambda>a. cc_priority (concept_at m a)) (\<lambda>_. True))
       (m\<lparr>m_focus := []\<rparr>)"

section \<open>Admission and removal\<close>

definition selectVictim :: "memory \<Rightarrow> nat option" where
  "selectVictim m = victimBy (listConcepts m)
     (\<lambda>a. case m_policy m of ForgetOldest \<Rightarrow> cc_lastAccessedAt (concept_at m a) | ForgetLowest \<Rightarrow> cc_priority (concept_at m a))"

definition removeConcept :: "real \<Rightarrow> narTerm \<Rightarrow> memory \<Rightarrow> bool \<times> memory" where
  "removeConcept now t m =
     (case getConcept t m of
        None \<Rightarrow> (False, m)
      | Some a \<Rightarrow>
          (let key = termKey (cc_term (concept_at m a));
               m1 = m\<lparr>m_focus := AList.delete key (m_focus m)\<rparr>;
               m2 = (if mc_enableIndexing (m_config m) then m1\<lparr>m_index := index_remove key a (m_index m1)\<rparr> else m1);
               m3 = m2\<lparr>m_links := removeAllLinksForTerm now t (m_links m2)\<rparr>
           in (True, m3\<lparr>m_concepts := AList.delete (termKey t) (m_concepts m3)\<rparr>)))"

definition applyForgetting :: "real \<Rightarrow> memory \<Rightarrow> memory" where
  "applyForgetting now m =
     (case selectVictim m of None \<Rightarrow> m | Some a \<Rightarrow> snd (removeConcept now (cc_term (concept_at m a)) m))"

definition adoptConcept :: "real \<Rightarrow> nat \<Rightarrow> memory \<Rightarrow> memory" where
  "adoptConcept now a m =
     (let key = termKey (cc_term (concept_at m a));
          m1 = m\<lparr>m_concepts := AList.update key a (m_concepts m)\<rparr>;
          m2 = (if mc_enableIndexing (m_config m1) then m1\<lparr>m_index := index_add now key a (m_index m1)\<rparr> else m1)
      in addToFocus a m2)"

definition addConcept :: "admission \<Rightarrow> narTerm \<Rightarrow> memory \<Rightarrow> nat \<times> memory" where
  "addConcept ad t m =
     (case getConcept t m of
        Some a \<Rightarrow> (a, m)
      | None \<Rightarrow>
          (let m1 = (if int (memory_size m) \<ge> mc_maxConcepts (m_config m) then applyForgetting (ad_now ad) m else m);
               (b, g, q) = ad_bagIds ad;
               a = length (m_heap m1);
               m2 = m1\<lparr>m_heap := m_heap m1 @ [newConcept (ad_now ad) b g q t (mc_bag (m_config m1))]\<rparr>;
               m3 = adoptConcept (ad_now ad) a m2
           in (a, m3\<lparr>m_concepts := AList.update (termKey t) a (m_concepts m3)\<rparr>)))"

definition recordRevision :: "revisionEntry \<Rightarrow> memory \<Rightarrow> memory" where
  "recordRevision entry m =
     (let ts = max (rv_timestamp entry) (m_lastRevisionTs m + 1)
      in m\<lparr>m_lastRevisionTs := ts, m_revisionLog := snd (ring_push (m_revisionLog m) (entry\<lparr>rv_timestamp := ts\<rparr>))\<rparr>)"

definition memory_addTask ::
  "admission \<Rightarrow> narTerm \<Rightarrow> taskType \<Rightarrow> truth option \<Rightarrow> taskWeight \<Rightarrow> stamp option \<Rightarrow> memory \<Rightarrow> bool \<times> memory" where
  "memory_addTask ad t typ tr budget st m =
     (case addConcept ad t m of
        (a, m1) \<Rightarrow>
          (case addTask (ad_now ad) (ad_entryId ad) (ad_stamp ad) typ
             \<lparr>tn_term = t, tn_truth = tr, tn_budget = budget, tn_timestamp = None,
              tn_stamp = Some (orElse st (ad_stamp ad)), tn_occurrenceTime = None, tn_derived = None\<rparr> (concept_at m1 a) of
             (added, entry, c) \<Rightarrow>
               (let m2 = write_concept a c m1
                in (added, case entry of None \<Rightarrow> m2 | Some e \<Rightarrow> recordRevision e m2))))"

definition getRevisionHistory :: "narTerm \<Rightarrow> memory \<Rightarrow> revisionEntry list" where
  "getRevisionHistory t m =
     rankBy (filter (\<lambda>e. rv_termKey e = termKey t) (ring_items (m_revisionLog m))) rv_timestamp (\<lambda>_ _. True) None None"

definition attend :: "nat \<Rightarrow> attentionEvent \<Rightarrow> memory \<Rightarrow> memory" where
  "attend a event m = write_concept a (writeAttention event (concept_at m a)) m"

definition archiveConcept :: "real \<Rightarrow> nat \<Rightarrow> memory \<Rightarrow> bool \<times> memory" where
  "archiveConcept now a m =
     (if \<not> mc_enableArchive (m_config m) then (False, m)
      else removeConcept now (cc_term (concept_at m a)) (m\<lparr>m_archive := bm_set now 0 (m_archive m) (cc_term (concept_at m a)) a\<rparr>))"

definition retrieveFromArchive :: "real \<Rightarrow> narTerm \<Rightarrow> memory \<Rightarrow> nat option \<times> memory" where
  "retrieveFromArchive now t m =
     (if \<not> mc_enableArchive (m_config m) then (None, m)
      else case lru_get now (m_archive m) t of
             (None, ar) \<Rightarrow> (None, m\<lparr>m_archive := ar\<rparr>)
           | (Some a, ar) \<Rightarrow> (Some a, adoptConcept now a (m\<lparr>m_archive := snd (bm_delete ar t)\<rparr>)))"

definition clear_memory :: "real \<Rightarrow> memory \<Rightarrow> memory" where
  "clear_memory now m =
     (let m1 = m\<lparr>m_concepts := [], m_focus := []\<rparr>;
          m2 = (if mc_enableIndexing (m_config m1) then m1\<lparr>m_index := (newIndex (ix_enabled (m_index m1)))\<rparr> else m1);
          m3 = (if mc_enableArchive (m_config m2) then m2\<lparr>m_archive := lru_clear (m_archive m2)\<rparr> else m2)
      in m3\<lparr>m_links := manager_applyDecay now (Some 1) (m_links m3)\<rparr>)"


section \<open>Occupancy\<close>

definition percentiles :: "real list \<Rightarrow> real list \<Rightarrow> real list" where
  "percentiles values ps =
     (if values = [] then map (\<lambda>_. 0) ps
      else let ordered = js_sort (\<lambda>a b. a \<le> b) values
           in map (\<lambda>p. ordered ! nat (max 0 (min (int (length ordered) - 1) \<lfloor>real (length ordered) * p\<rfloor>))) ps)"

definition tallyConcepts :: "concept list \<Rightarrow> nat \<times> nat" where
  "tallyConcepts cs = (length cs, sum_list (map totalTasks cs))"

text \<open>Pressure on the concepts, on the tasks, and their maximum; \<open>None\<close> is the unbounded task capacity,
  against which any count is a share of zero.\<close>

definition storePressure :: "nat \<times> nat \<Rightarrow> memoryConfig \<Rightarrow> real \<times> real \<times> real" where
  "storePressure totals config =
     (let cs = occupancy (real (fst totals)) (real_of_int (mc_maxConcepts config)) 1;
          ts = (case mc_maxTasks config of None \<Rightarrow> 0 | Some cap \<Rightarrow> occupancy (real (snd totals)) (real_of_int cap) 1)
      in (cs, ts, max cs ts))"

record conceptStats =
  st_totalConcepts :: nat
  st_totalTasks :: nat
  st_lowPriority :: nat
  st_mediumPriority :: nat
  st_highPriority :: nat

definition calculateConceptStats :: "concept list \<Rightarrow> conceptStats" where
  "calculateConceptStats cs =
     (let priorities = map cc_priority cs;
          ps = percentiles priorities [33 / 100, 67 / 100];
          p33 = ps ! 0; p67 = ps ! 1;
          low = length (filter (\<lambda>p. p < p33) priorities);
          medium = length (filter (\<lambda>p. \<not> p < p33 \<and> p < p67) priorities)
      in \<lparr>st_totalConcepts = length priorities, st_totalTasks = sum_list (map totalTasks cs),
          st_lowPriority = low, st_mediumPriority = medium, st_highPriority = length priorities - low - medium\<rparr>)"

definition residents :: "memory \<Rightarrow> concept list" where
  "residents m = map (concept_at m) (listConcepts m)"

definition pressureBreakdown :: "memory \<Rightarrow> real \<times> real \<times> real" where
  "pressureBreakdown m = storePressure (tallyConcepts (residents m)) (m_config m)"

definition capacityPressure :: "memory \<Rightarrow> real" where
  "capacityPressure m = snd (snd (pressureBreakdown m))"

record memoryStatistics =
  ms_concepts :: conceptStats
  ms_focused :: nat
  ms_archived :: int
  ms_pressure :: "real \<times> real \<times> real"
  ms_indexStats :: "(nat \<times> nat) option"
  ms_archiveStats :: "containerStats option"

definition getStatistics :: "memory \<Rightarrow> memoryStatistics" where
  "getStatistics m =
     (let stats = calculateConceptStats (residents m); on = mc_enableArchive (m_config m)
      in \<lparr>ms_concepts = stats, ms_focused = length (m_focus m),
          ms_archived = (if on then bm_size (m_archive m) else 0),
          ms_pressure = storePressure (st_totalConcepts stats, st_totalTasks stats) (m_config m),
          ms_indexStats = (if mc_enableIndexing (m_config m)
             then Some (length (ix_atomic (m_index m)), length (ix_temporal (m_index m))) else None),
          ms_archiveStats = (if on
             then Some (containerStats_of (bm_size (m_archive m)) (mc_archiveMaxConcepts (m_config m))) else None)\<rparr>)"

record memoryHealth =
  mh_isHealthy :: bool
  mh_pressureLevel :: real
  mh_consolidationNeeded :: bool
  mh_forgettingNeeded :: bool

definition checkHealth :: "memory \<Rightarrow> memoryHealth" where
  "checkHealth m =
     (let utilization = capacityPressure m;
          needed = m_cycles m \<ge> mc_consolidationInterval (m_config m)
      in \<lparr>mh_isHealthy = (utilization < PRESSURE_CRITICAL \<and> \<not> needed), mh_pressureLevel = utilization,
          mh_consolidationNeeded = needed, mh_forgettingNeeded = (utilization > PRESSURE_ARCHIVE)\<rparr>)"

section \<open>Eviction under pressure\<close>

definition conceptValue :: "concept \<Rightarrow> real" where
  "conceptValue c = cc_priority c + (if totalTasks c > 0 then TASK_VALUE else 0)"

text \<open>\<open>evictionOrder\<close> as the order it sorts by: the age, and on a tie the value.\<close>

definition evictionOrder :: "concept \<Rightarrow> concept \<Rightarrow> bool" where
  "evictionOrder a b \<longleftrightarrow>
     (if cc_lastAccessedAt a = cc_lastAccessedAt b then conceptValue a \<le> conceptValue b
      else cc_lastAccessedAt a < cc_lastAccessedAt b)"

text \<open>\<open>xs.filter(c => memory.op(c)).length\<close>, the memory threaded through.\<close>

fun count_done :: "(nat \<Rightarrow> memory \<Rightarrow> bool \<times> memory) \<Rightarrow> nat list \<Rightarrow> memory \<Rightarrow> nat \<times> memory" where
  "count_done oper [] m = (0, m)"
| "count_done oper (a # as) m =
     (case oper a m of (ok, m') \<Rightarrow> (case count_done oper as m' of (n, m'') \<Rightarrow> ((if ok then 1 else 0) + n, m'')))"

definition remove_at :: "real \<Rightarrow> nat \<Rightarrow> memory \<Rightarrow> bool \<times> memory" where
  "remove_at now a m = removeConcept now (cc_term (concept_at m a)) m"

definition idle_order :: "memory \<Rightarrow> nat list" where
  "idle_order m = sortBy (filter (\<lambda>a. totalTasks (concept_at m a) = 0) (listConcepts m)) (\<lambda>a. conceptValue (concept_at m a))"

definition to_archive :: "memory \<Rightarrow> nat list" where
  "to_archive m =
     (let idle = idle_order m
      in shareOf idle (min ARCHIVE_SHARE (capacityPressure m - PRESSURE_NEUTRAL)) 0 (real (length idle)))"

text \<open>The candidates for forgetting among \<open>population\<close> once \<open>archivedNow\<close> was handed to the archive.\<close>

definition forget_order :: "nat list \<Rightarrow> nat list \<Rightarrow> memory \<Rightarrow> nat list" where
  "forget_order population archivedNow m =
     js_sort (\<lambda>a b. evictionOrder (concept_at m a) (concept_at m b))
       (filter (\<lambda>a. a \<notin> set archivedNow \<and> getConcept (cc_term (concept_at m a)) m \<noteq> None) population)"

definition evictUnderPressure :: "real \<Rightarrow> memory \<Rightarrow> evictionReport \<times> memory" where
  "evictUnderPressure now m =
     (let pressure = capacityPressure m; population = listConcepts m
      in if pressure \<le> PRESSURE_ARCHIVE
         then (\<lparr>er_reason = WithinCapacity, er_archived = 0, er_forgotten = 0, er_taskHolders = 0,
                er_candidates = length population, er_idle = 0\<rparr>, m)
         else let idle = idle_order m; archivedNow = to_archive m
              in case count_done (archiveConcept now) archivedNow m of
                   (archived, m1) \<Rightarrow>
                     if pressure \<le> PRESSURE_CRITICAL
                     then (\<lparr>er_reason = (if archived > 0 then Evicted else Exhausted), er_archived = archived,
                            er_forgotten = 0, er_taskHolders = 0, er_candidates = length population,
                            er_idle = length idle\<rparr>, m1)
                     else let remainder = forget_order population archivedNow m1;
                              victims = shareOf remainder (min FORGET_SHARE (pressure - PRESSURE_ARCHIVE)) 0
                                          (real (length remainder))
                          in case count_done (remove_at now) victims m1 of
                               (forgotten, m2) \<Rightarrow>
                                 (\<lparr>er_reason = (if archived + forgotten > 0 then Evicted else Exhausted),
                                   er_archived = archived, er_forgotten = forgotten,
                                   er_taskHolders = length (filter (\<lambda>a. totalTasks (concept_at m2 a) > 0) victims),
                                   er_candidates = length population, er_idle = length idle\<rparr>, m2))"

section \<open>Consolidation\<close>

definition decay_concept :: "attentionModel \<Rightarrow> int \<Rightarrow> real \<Rightarrow> concept \<Rightarrow> concept" where
  "decay_concept model cycles rate c =
     (if cc_priority c \<le> 0 then c
      else let d = attention_decay model (cc_priority c) cycles rate
           in if d \<noteq> 0 then writeAttention (AttentionDecay d) c else c)"

definition decayAll :: "int \<Rightarrow> memory \<Rightarrow> memory" where
  "decayAll cycles m =
     fold (\<lambda>a m. write_concept a (decay_concept (m_attention m) cycles (mc_activationDecayRate (m_config m)) (concept_at m a)) m)
       (listConcepts m) m"

text \<open>An interval of zero divides to an infinity, here 1: no attention model reads the number.\<close>

definition consolidate :: "real \<Rightarrow> memory \<Rightarrow> memory" where
  "consolidate now m =
     (let interval = mc_consolidationInterval (m_config m); n = m_cycles m + 1
      in if n < interval then m\<lparr>m_cycles := n\<rparr>
         else let cyclesElapsed = perPart (real_of_int n) (real_of_int interval) 1 floor;
                  m1 = decayAll cyclesElapsed (m\<lparr>m_cycles := 0\<rparr>)
              in case evictUnderPressure now m1 of
                   (report, m2) \<Rightarrow>
                     (let m3 = m2\<lparr>m_lastEviction := Some report\<rparr>;
                          m4 = m3\<lparr>m_links := manager_applyDecay now (Some (mc_linkDecayRate (m_config m))) (m_links m3)\<rparr>
                      in updateAllFocus m4))"

section \<open>Reading and reshaping the store\<close>

definition topConcepts :: "int \<Rightarrow> memory \<Rightarrow> nat list" where
  "topConcepts n m = selectTopN (listConcepts m) n (\<lambda>a. cc_priority (concept_at m a)) (\<lambda>_. True)"

definition sampleWindow :: "'s source \<Rightarrow> int \<Rightarrow> memory \<Rightarrow> 's \<Rightarrow> nat list \<times> 's" where
  "sampleWindow rng windowSize m s =
     (if windowSize \<le> 0 then ([], s)
      else let w = nat windowSize;
               ordered = js_sort (\<lambda>a b. cc_priority (concept_at m b) - cc_priority (concept_at m a) \<le> 0) (listConcepts m)
           in case (if length ordered > w then nextInt rng (length ordered - w + 1) s else (0, s)) of
                (start, s') \<Rightarrow> (take w (drop start ordered), s'))"

definition findSimilarConcepts :: "narTerm \<Rightarrow> int \<Rightarrow> memory \<Rightarrow> nat list" where
  "findSimilarConcepts t limit m =
     (if limit \<le> 0 then []
      else map fst (selectTopN
             (filter (\<lambda>(a, score). score > 0) (map (\<lambda>a. (a, calculateSimilarity t (cc_term (concept_at m a)))) (listConcepts m)))
             limit snd (\<lambda>_. True)))"

definition getRelatedConcepts :: "real \<Rightarrow> narTerm \<Rightarrow> int \<Rightarrow> memory \<Rightarrow> nat list \<times> memory" where
  "getRelatedConcepts now t limit m =
     (case getConcept t m of
        None \<Rightarrow> ([], m)
      | Some _ \<Rightarrow>
          (case getLinks now t None \<lparr>lq_type = None, lq_minPriority = None, lq_maxResults = Some limit\<rparr> (m_links m) of
             (links, lm) \<Rightarrow>
               (let results = List.map_filter (\<lambda>e. getConcept (le_target e) m) links
                in (if results = [] then findSimilarConcepts t limit m else results, m\<lparr>m_links := lm\<rparr>))))"

definition ANY_LINK :: linkQuery where
  "ANY_LINK = \<lparr>lq_type = None, lq_minPriority = None, lq_maxResults = None\<rparr>"

fun findOrphanedLinks :: "real \<Rightarrow> nat list \<Rightarrow> memory \<Rightarrow> nat list \<times> memory" where
  "findOrphanedLinks now [] m = ([], m)"
| "findOrphanedLinks now (a # as) m =
     (case getLinks now (cc_term (concept_at m a)) None ANY_LINK (m_links m) of
        (links, lm) \<Rightarrow>
          (case findOrphanedLinks now as (m\<lparr>m_links := lm\<rparr>) of
             (rest, m') \<Rightarrow> (if list_ex (\<lambda>e. getConcept (le_target e) m = None) links then a # rest else rest, m')))"

definition compact :: "real \<Rightarrow> memory \<Rightarrow> memory" where
  "compact now m =
     (let drained = sortBy (filter (\<lambda>a. cc_priority (concept_at m a) < 1 / 10 \<and> totalTasks (concept_at m a) = 0) (listConcepts m))
                      (\<lambda>a. cc_priority (concept_at m a))
      in case findOrphanedLinks now (listConcepts m) m of
           (orphans, m1) \<Rightarrow>
             updateAllFocus (snd (count_done (remove_at now)
               (shareOf (drained @ orphans) (1 / 10) 0 (real (memory_size m1))) m1)))"

definition mergeConcepts :: "real \<Rightarrow> nat list \<Rightarrow> memory \<Rightarrow> bool \<times> memory" where
  "mergeConcepts now as m =
     (case as of
        primary # others \<Rightarrow>
          (if others \<noteq> [] \<and> list_all (\<lambda>b. b \<noteq> primary \<and> canMergeWith (concept_at m primary) (concept_at m b) (85 / 100)) others
           then (True, write_concept primary (mergeWith now (map (concept_at m) others) (concept_at m primary)) m)
           else (False, m))
      | [] \<Rightarrow> (False, m))"

definition setConfig :: "(memoryConfig \<Rightarrow> memoryConfig) \<Rightarrow> memory \<Rightarrow> memory" where
  "setConfig updates m = m\<lparr>m_config := updates (m_config m)\<rparr>"

definition setAttentionModel :: "attentionModel \<Rightarrow> memory \<Rightarrow> memory" where
  "setAttentionModel model m = m\<lparr>m_attention := model\<rparr>"

section \<open>Clusters\<close>

text \<open>The links of one concept followed: each strong enough one whose target is stored and unvisited.\<close>

fun follow_links :: "real \<Rightarrow> memory \<Rightarrow> unit linkEntry list \<Rightarrow> string list \<Rightarrow> nat list \<Rightarrow> string list \<times> nat list" where
  "follow_links minStrength m [] visited queue = (visited, queue)"
| "follow_links minStrength m (e # es) visited queue =
     (if le_priority e < minStrength then follow_links minStrength m es visited queue
      else case getConcept (le_target e) m of
             None \<Rightarrow> follow_links minStrength m es visited queue
           | Some b \<Rightarrow>
               (let key = termKey (cc_term (concept_at m b))
                in if key \<in> set visited then follow_links minStrength m es visited queue
                   else follow_links minStrength m es (key # visited) (queue @ [b])))"

definition resident_keys :: "memory \<Rightarrow> string set" where
  "resident_keys m = (\<lambda>a. termKey (cc_term (concept_at m a))) ` set (listConcepts m)"

lemma finite_resident_keys [simp]: "finite (resident_keys m)" by (simp add: resident_keys_def)

lemma getConcept_resident: "getConcept t m = Some a \<Longrightarrow> a \<in> set (listConcepts m)"
  by (force simp: getConcept_def listConcepts_def dest: map_of_SomeD)

lemma follow_measure:
  "follow_links s m es visited queue = (v, q) \<Longrightarrow>
     2 * card (resident_keys m - set v) + length q \<le> 2 * card (resident_keys m - set visited) + length queue"
proof (induction es arbitrary: visited queue)
  case (Cons e es)
  show ?case
  proof (cases "getConcept (le_target e) m")
    case None
    then show ?thesis using Cons by (simp split: if_splits)
  next
    case (Some b)
    define key where "key = termKey (cc_term (concept_at m b))"
    show ?thesis
    proof (cases "le_priority e < s \<or> key \<in> set visited")
      case True
      then show ?thesis using Cons Some by (simp add: key_def split: if_splits)
    next
      case False
      have "key \<in> resident_keys m - set visited"
        using False getConcept_resident [OF Some] by (auto simp: resident_keys_def key_def)
      then have "Suc (card (resident_keys m - set (key # visited))) = card (resident_keys m - set visited)"
        by (metis card_Suc_Diff1 Diff_insert finite_Diff finite_resident_keys list.simps(15))
      moreover have "follow_links s m es (key # visited) (queue @ [b]) = (v, q)"
        using Cons.prems False Some by (simp add: key_def Let_def)
      ultimately show ?thesis using Cons.IH [of "key # visited" "queue @ [b]"] by simp
    qed
  qed
qed simp

lemma links_frame [simp]:
  "resident_keys (m\<lparr>m_links := lm\<rparr>) = resident_keys m" "listConcepts (m\<lparr>m_links := lm\<rparr>) = listConcepts m"
  "concept_at (m\<lparr>m_links := lm\<rparr>) = concept_at m" "getConcept t (m\<lparr>m_links := lm\<rparr>) = getConcept t m"
  by (simp_all add: resident_keys_def listConcepts_def concept_at_def getConcept_def fun_eq_iff)

function bfsCluster ::
  "real \<Rightarrow> real \<Rightarrow> string list \<Rightarrow> nat list \<Rightarrow> nat list \<Rightarrow> memory \<Rightarrow> nat list \<times> string list \<times> memory" where
  "bfsCluster now minStrength visited [] cluster m = (cluster, visited, m)"
| "bfsCluster now minStrength visited (a # queue) cluster m =
     (case getLinks now (cc_term (concept_at m a)) None ANY_LINK (m_links m) of
        (links, lm) \<Rightarrow>
          (case follow_links minStrength m links visited queue of
             (visited', queue') \<Rightarrow> bfsCluster now minStrength visited' queue' (cluster @ [a]) (m\<lparr>m_links := lm\<rparr>)))"
  by pat_completeness auto
termination bfsCluster
  by (relation "measure (\<lambda>(now, s, visited, queue, cluster, m). 2 * card (resident_keys m - set visited) + length queue)")
    (simp, force dest: follow_measure [OF sym])

fun clusters_from :: "real \<Rightarrow> nat \<Rightarrow> real \<Rightarrow> nat list \<Rightarrow> string list \<Rightarrow> memory \<Rightarrow> (nat list \<times> bool) list \<times> memory" where
  "clusters_from now minSize minStrength [] visited m = ([], m)"
| "clusters_from now minSize minStrength (a # as) visited m =
     (let key = termKey (cc_term (concept_at m a))
      in if key \<in> set visited then clusters_from now minSize minStrength as visited m
         else case bfsCluster now minStrength (key # visited) [a] [] m of
                (cluster, visited', m1) \<Rightarrow>
                  (case clusters_from now minSize minStrength as visited' m1 of
                     (rest, m2) \<Rightarrow>
                       (if length cluster \<ge> minSize
                        then (cluster, list_ex (\<lambda>c. mentionsSymbol (cc_term (concept_at m1 c)) ''abstract''
                                                 \<or> mentionsSymbol (cc_term (concept_at m1 c)) ''category'') cluster) # rest
                        else rest, m2)))"

definition findDenseClusters :: "real \<Rightarrow> nat \<Rightarrow> real \<Rightarrow> memory \<Rightarrow> (nat list \<times> bool) list \<times> memory" where
  "findDenseClusters now minSize minLinkStrength m = clusters_from now minSize minLinkStrength (listConcepts m) [] m"

definition createAbstractConcept ::
  "admission \<Rightarrow> real \<Rightarrow> string \<Rightarrow> nat list \<Rightarrow> memory \<Rightarrow> termError + nat \<times> memory" where
  "createAbstractConcept ad r name sources m =
     (case builder_atom name of
        Inl err \<Rightarrow> Inl err
      | Inr t \<Rightarrow>
          (case addConcept ad t m of
             (a, m1) \<Rightarrow>
               Inr (a, fold (\<lambda>s m. m\<lparr>m_links := snd (manager_addLink (ad_now ad) r t (cc_term (concept_at m s)) None
                                        (Some TermLink) (Some (7 / 10)) (m_links m))\<rparr>) sources m1)))"

end
