(* ===== verification/Memory_Inv.thy ===== *)
theory Memory_Inv
  imports Memory
begin

text \<open>
  The invariant of the memory and what every operation does to it: the store holds one concept per
  term, the focus is a bounded part of it, the archive files concepts under their own terms, the
  revision log is ordered and bounded, the links are consistent.
\<close>

section \<open>The invariant\<close>

definition store_ok :: "memory \<Rightarrow> bool" where
  "store_ok m \<longleftrightarrow> wf_omap (m_concepts m)
     \<and> (\<forall>(k, a) \<in> set (m_concepts m). a < length (m_heap m) \<and> termKey (cc_term (concept_at m a)) = k)
     \<and> (\<forall>c \<in> set (m_heap m). concept_ok c)"

definition focus_ok :: "memory \<Rightarrow> bool" where
  "focus_ok m \<longleftrightarrow> wf_omap (m_focus m) \<and> set (m_focus m) \<subseteq> set (m_concepts m)
     \<and> int (length (m_focus m)) \<le> max 0 (m_focusMax m)"

definition archive_ok :: "memory \<Rightarrow> bool" where
  "archive_ok m \<longleftrightarrow> bm_inv (m_archive m) \<and> bm_ttlMs (m_archive m) = None
     \<and> (\<forall>(t, e) \<in> set (bm_entries (m_archive m)). e_value e < length (m_heap m) \<and> cc_term (concept_at m (e_value e)) = t)"

definition log_ok :: "memory \<Rightarrow> bool" where
  "log_ok m \<longleftrightarrow> ring_inv (m_revisionLog m) \<and> ring_capacity (m_revisionLog m) = REVISION_LOG_CAP
     \<and> ring_overflow (m_revisionLog m) = DropOldest
     \<and> sorted_wrt (<) (map rv_timestamp (ring_items (m_revisionLog m)))
     \<and> (\<forall>e \<in> set (ring_items (m_revisionLog m)). rv_timestamp e \<le> m_lastRevisionTs m)"

fun model_ok :: "attentionModel \<Rightarrow> bool" where
  "model_ok NullAttention = True"
| "model_ok (SimpleAttention boost) = True"
| "model_ok (CompositeAttention members) = list_all (\<lambda>(model, w). model_ok model \<and> 0 \<le> w) members"

definition memory_inv :: "memory \<Rightarrow> bool" where
  "memory_inv m \<longleftrightarrow> store_ok m \<and> focus_ok m \<and> archive_ok m \<and> log_ok m \<and> manager_inv (m_links m)
     \<and> model_ok (m_attention m) \<and> 0 \<le> mc_activationDecayRate (m_config m)"

lemma memory_invI:
  "store_ok m \<Longrightarrow> focus_ok m \<Longrightarrow> archive_ok m \<Longrightarrow> log_ok m \<Longrightarrow> manager_inv (m_links m) \<Longrightarrow> model_ok (m_attention m)
    \<Longrightarrow> 0 \<le> mc_activationDecayRate (m_config m) \<Longrightarrow> memory_inv m"
  by (simp add: memory_inv_def)

lemma memory_invD:
  assumes "memory_inv m"
  shows "store_ok m" "focus_ok m" "archive_ok m" "log_ok m" "manager_inv (m_links m)" "model_ok (m_attention m)"
    "0 \<le> mc_activationDecayRate (m_config m)"
  using assms by (simp_all add: memory_inv_def)

lemma resident:
  assumes "store_ok m" "(k, a) \<in> set (m_concepts m)"
  shows "a < length (m_heap m)" "termKey (cc_term (concept_at m a)) = k" "concept_ok (concept_at m a)"
  using assms by (auto simp: store_ok_def concept_at_def)

lemma resident_at:
  assumes "store_ok m" "a \<in> set (listConcepts m)"
  shows "(termKey (cc_term (concept_at m a)), a) \<in> set (m_concepts m)" "a < length (m_heap m)" "concept_ok (concept_at m a)"
  using assms resident by (auto simp: listConcepts_def)

lemma getConcept_iff:
  "store_ok m \<Longrightarrow> getConcept t m = Some a \<longleftrightarrow> (termKey t, a) \<in> set (m_concepts m)"
  by (simp add: getConcept_def store_ok_def)

lemma getConcept_found:
  assumes "store_ok m" "getConcept t m = Some a"
  shows "a < length (m_heap m)" "termKey (cc_term (concept_at m a)) = termKey t" "concept_ok (concept_at m a)"
    "(termKey t, a) \<in> set (m_concepts m)" "a \<in> set (listConcepts m)"
proof -
  show "(termKey t, a) \<in> set (m_concepts m)" using assms by (simp add: getConcept_iff)
  from resident [OF assms(1) this] getConcept_resident [OF assms(2)]
  show "a < length (m_heap m)" "termKey (cc_term (concept_at m a)) = termKey t" "concept_ok (concept_at m a)"
    "a \<in> set (listConcepts m)" by auto
qed

lemma getConcept_own:
  assumes "store_ok m" "a \<in> set (listConcepts m)"
  shows "getConcept (cc_term (concept_at m a)) m = Some a"
  using assms resident_at by (simp add: getConcept_iff)

lemma listConcepts_distinct: "store_ok m \<Longrightarrow> distinct (listConcepts m)"
proof -
  assume s: "store_ok m"
  have "inj_on snd (set (m_concepts m))"
    using resident(2) [OF s] by (auto simp: inj_on_def) blast
  moreover have "distinct (m_concepts m)" using s by (auto simp: store_ok_def dest: distinct_map [THEN iffD1])
  ultimately show ?thesis by (simp add: listConcepts_def distinct_map)
qed

section \<open>Changes of one part\<close>

text \<open>A change of the heap that keeps what is resident or archived under its term.\<close>

lemma heap_change:
  assumes "memory_inv m" "length (m_heap m) \<le> length heap" "\<forall>c \<in> set heap. concept_ok c"
    and "\<And>a. a < length (m_heap m) \<Longrightarrow> cc_term (heap ! a) = cc_term (m_heap m ! a)"
  shows "memory_inv (m\<lparr>m_heap := heap\<rparr>)"
proof (rule memory_invI)
  note inv = memory_invD [OF assms(1)]
  show "store_ok (m\<lparr>m_heap := heap\<rparr>)"
    using inv(1) assms(2-) by (force simp: store_ok_def concept_at_def)
  show "archive_ok (m\<lparr>m_heap := heap\<rparr>)"
    using inv(3) assms(2-) by (force simp: archive_ok_def concept_at_def)
qed (use memory_invD [OF assms(1)] in \<open>simp_all add: focus_ok_def log_ok_def\<close>)

lemma nth_list_update_if: "xs[a := c] ! b = (if b = a \<and> a < length xs then c else xs ! b)"
  by (cases "a < length xs") (auto simp: nth_list_update list_update_beyond)

lemma write_concept_inv:
  assumes "memory_inv m" "concept_ok c" "cc_term c = cc_term (concept_at m a)"
  shows "memory_inv (write_concept a c m)"
  unfolding write_concept_def
proof (rule heap_change [OF assms(1)])
  show "\<forall>c \<in> set ((m_heap m)[a := c]). concept_ok c"
    using memory_invD(1) [OF assms(1)] assms(2) set_update_subset_insert [of "m_heap m" a c] by (auto simp: store_ok_def)
qed (use assms(3) in \<open>auto simp: concept_at_def nth_list_update_if\<close>)

lemma write_concept_frame [simp]:
  "m_concepts (write_concept a c m) = m_concepts m" "m_focus (write_concept a c m) = m_focus m"
  "m_config (write_concept a c m) = m_config m" "m_attention (write_concept a c m) = m_attention m"
  "m_index (write_concept a c m) = m_index m" "m_links (write_concept a c m) = m_links m"
  "length (m_heap (write_concept a c m)) = length (m_heap m)" "listConcepts (write_concept a c m) = listConcepts m"
  "m_focusMax (write_concept a c m) = m_focusMax m" "m_archive (write_concept a c m) = m_archive m"
  by (simp_all add: write_concept_def listConcepts_def)

lemma concept_at_write:
  "concept_at (write_concept a c m) b = (if b = a \<and> a < length (m_heap m) then c else concept_at m b)"
  by (simp add: write_concept_def concept_at_def nth_list_update_if)

lemma links_change: "memory_inv m \<Longrightarrow> manager_inv lm \<Longrightarrow> memory_inv (m\<lparr>m_links := lm\<rparr>)"
  by (simp add: memory_inv_def store_ok_def focus_ok_def archive_ok_def log_ok_def concept_at_def)

lemma index_change: "memory_inv (m\<lparr>m_index := ix\<rparr>) = memory_inv m"
  by (simp add: memory_inv_def store_ok_def focus_ok_def archive_ok_def log_ok_def concept_at_def)

lemma bookkeeping_change [simp]:
  "memory_inv (m\<lparr>m_cycles := n\<rparr>) = memory_inv m" "memory_inv (m\<lparr>m_lastEviction := r\<rparr>) = memory_inv m"
  by (simp_all add: memory_inv_def store_ok_def focus_ok_def archive_ok_def log_ok_def concept_at_def)

lemma archive_change:
  assumes "memory_inv m" "archive_ok (m\<lparr>m_archive := ar\<rparr>)"
  shows "memory_inv (m\<lparr>m_archive := ar\<rparr>)"
  using assms by (simp add: memory_inv_def store_ok_def focus_ok_def archive_ok_def log_ok_def concept_at_def)

section \<open>Focus\<close>

lemma lowest_mem: "lowest_of m lowest as = Some b \<Longrightarrow> b \<in> set as \<or> lowest = Some b"
  by (induction as arbitrary: lowest) (fastforce split: option.splits if_splits)+

lemma lowest_exists: "lowest_of m lowest as = None \<longleftrightarrow> as = [] \<and> lowest = None"
  by (induction as arbitrary: lowest) (auto split: option.splits)

lemma addToFocus_frame [simp]:
  "m_concepts (addToFocus a m) = m_concepts m" "m_heap (addToFocus a m) = m_heap m" "m_config (addToFocus a m) = m_config m"
  "m_attention (addToFocus a m) = m_attention m" "m_index (addToFocus a m) = m_index m" "m_links (addToFocus a m) = m_links m"
  "m_archive (addToFocus a m) = m_archive m" "m_focusMax (addToFocus a m) = m_focusMax m"
  "m_revisionLog (addToFocus a m) = m_revisionLog m" "m_lastRevisionTs (addToFocus a m) = m_lastRevisionTs m"
  by (simp_all add: addToFocus_def Let_def split: option.split)

lemma concept_at_focus [simp]: "concept_at (addToFocus a m) = concept_at m" "concept_at (m\<lparr>m_focus := f\<rparr>) = concept_at m"
  by (simp_all add: concept_at_def fun_eq_iff)

lemma focus_change: "memory_inv m \<Longrightarrow> focus_ok (m\<lparr>m_focus := f\<rparr>) \<Longrightarrow> memory_inv (m\<lparr>m_focus := f\<rparr>)"
  by (simp add: memory_inv_def store_ok_def focus_ok_def archive_ok_def log_ok_def)

text \<open>Entering a concept: what stays resident stays, and the focus does not outgrow its bound.
  The entries of other keys may be of an older store.\<close>

lemma enter_focus:
  assumes "wf_omap f" "int (length f) \<le> max 0 cap" "set (AList.delete k f) \<subseteq> S" "(k, a) \<in> S"
    and "int (length f) < cap \<or> k \<in> set (okeys f)"
  shows "wf_omap (AList.update k a f)" "set (AList.update k a f) \<subseteq> S" "int (length (AList.update k a f)) \<le> max 0 cap"
proof -
  show "wf_omap (AList.update k a f)" using assms(1) by simp
  have "(x, y) \<in> insert (k, a) (set (AList.delete k f))" if "(x, y) \<in> set (AList.update k a f)" for x y
  proof -
    have "map_of (AList.update k a f) x = Some y" using that assms(1) by simp
    then have "if x = k then y = a else map_of (AList.delete k f) x = Some y"
      by (simp add: update_conv' delete_conv' split: if_splits)
    then show ?thesis by (cases "x = k") (auto dest!: map_of_SomeD simp: AList.delete_eq)
  qed
  then have "set (AList.update k a f) \<subseteq> insert (k, a) (set (AList.delete k f))" by auto
  then show "set (AList.update k a f) \<subseteq> S" using assms(3,4) by auto
  show "int (length (AList.update k a f)) \<le> max 0 cap"
  proof (cases "k \<in> set (okeys f)")
    case True
    then have "length (AList.update k a f) = length f" by (rule length_update_present)
    then show ?thesis using assms(2) by simp
  next
    case False
    then show ?thesis using assms(5) by (simp add: update_absent)
  qed
qed


lemma focus_room:
  assumes "wf_omap f" "(kb, b) \<in> set f"
  shows "int (length (AList.delete kb f)) = int (length f) - 1"
proof -
  have "kb \<in> set (okeys f)" using assms(2) by force
  from length_delete_present [OF assms(1) this] show ?thesis by linarith
qed

lemma addToFocus_ok:
  assumes "key = termKey (cc_term (concept_at m a))" "wf_omap (m_focus m)" "int (length (m_focus m)) \<le> max 0 (m_focusMax m)"
    and "set (AList.delete key (m_focus m)) \<subseteq> set (m_concepts m)" "(key, a) \<in> set (m_concepts m)" "store_ok m"
    and "key \<in> set (okeys (m_focus m)) \<or> set (m_focus m) \<subseteq> set (m_concepts m)"
  shows "focus_ok (addToFocus a m)"
proof (cases "int (length (m_focus m)) \<ge> m_focusMax m \<and> key \<notin> set (okeys (m_focus m))")
  case False
  then have "addToFocus a m = m\<lparr>m_focus := AList.update key a (m_focus m)\<rparr>"
    by (auto simp add: addToFocus_def assms(1) Let_def)
  moreover have "int (length (m_focus m)) < m_focusMax m \<or> key \<in> set (okeys (m_focus m))" using False by auto
  ultimately show ?thesis using enter_focus [OF assms(2,3,4,5)] by (simp add: focus_ok_def)
next
  case True
  then have sub: "set (m_focus m) \<subseteq> set (m_concepts m)" using assms(7) by auto
  show ?thesis
  proof (cases "lowest_of m None (map snd (m_focus m))")
    case None
    then show ?thesis using True sub assms(1-3) by (simp add: addToFocus_def focus_ok_def Let_def)
  next
    case (Some b)
    define kb where "kb = termKey (cc_term (concept_at m b))"
    obtain k where k: "(k, b) \<in> set (m_focus m)" using lowest_mem [OF Some] by auto
    then have "k = kb" using resident(2) [OF assms(6)] sub by (auto simp: kb_def)
    show ?thesis
    proof (cases "cc_priority (concept_at m a) \<le> cc_priority (concept_at m b)")
      case True
      then show ?thesis using Some \<open>_ \<and> key \<notin> _\<close> sub assms(1-3) by (simp add: addToFocus_def focus_ok_def Let_def)
    next
      case False
      let ?f = "AList.delete kb (m_focus m)"
      have eq: "addToFocus a m = m\<lparr>m_focus := AList.update key a ?f\<rparr>"
        using Some True False by (simp add: addToFocus_def assms(1) kb_def Let_def del: length_update_present)
      have room: "int (length ?f) = int (length (m_focus m)) - 1" using focus_room [OF assms(2)] k \<open>k = kb\<close> by simp
      have "length (m_focus m) \<noteq> 0" using k by auto
      then have cap: "int (length ?f) \<le> max 0 (m_focusMax m)" "int (length ?f) < m_focusMax m"
        using room assms(3) by linarith+
      have "set (AList.delete key ?f) \<subseteq> set (m_concepts m)" using sub by (auto simp: AList.delete_eq)
      from enter_focus [OF _ cap(1) this assms(5)] cap(2) assms(2) show ?thesis by (simp add: eq focus_ok_def)
    qed
  qed
qed

lemma addToFocus_inv:
  assumes "memory_inv m" "a \<in> set (listConcepts m)"
  shows "memory_inv (addToFocus a m)"
proof -
  note inv = memory_invD [OF assms(1)]
  have "focus_ok (addToFocus a m)"
    by (rule addToFocus_ok [OF refl])
      (use inv resident_at [OF inv(1) assms(2)] in \<open>auto simp: focus_ok_def AList.delete_eq\<close>)
  then show ?thesis using inv by (simp add: memory_inv_def store_ok_def archive_ok_def log_ok_def)
qed

lemma updateAllFocus_inv:
  assumes "memory_inv m"
  shows "memory_inv (updateAllFocus m)"
proof -
  have "memory_inv (fold addToFocus as m) \<and> listConcepts (fold addToFocus as m) = listConcepts m"
    if "memory_inv m" "set as \<subseteq> set (listConcepts m)" for as m
    using that
  proof (induction as arbitrary: m)
    case (Cons a as)
    then show ?case using addToFocus_inv [of m a] Cons.IH [of "addToFocus a m"] by (simp add: listConcepts_def)
  qed simp
  moreover have "memory_inv (m\<lparr>m_focus := []\<rparr>)"
    using assms by (intro focus_change) (simp_all add: focus_ok_def)
  moreover have "set (selectTopN (listConcepts m) n f (\<lambda>_. True)) \<subseteq> set (listConcepts m)" for n f
    unfolding selectTopN_def higher.selectBest_take by (auto dest!: in_set_takeD)
  ultimately show ?thesis by (simp add: updateAllFocus_def listConcepts_def)
qed

lemma updateAllFocus_frame [simp]:
  "m_concepts (updateAllFocus m) = m_concepts m" "m_config (updateAllFocus m) = m_config m"
  "m_heap (updateAllFocus m) = m_heap m" "m_index (updateAllFocus m) = m_index m"
proof -
  have "m_concepts (fold addToFocus as m) = m_concepts m \<and> m_config (fold addToFocus as m) = m_config m
      \<and> m_heap (fold addToFocus as m) = m_heap m \<and> m_index (fold addToFocus as m) = m_index m" for as m
    by (induction as arbitrary: m) simp_all
  then show "m_concepts (updateAllFocus m) = m_concepts m" "m_config (updateAllFocus m) = m_config m"
    "m_heap (updateAllFocus m) = m_heap m" "m_index (updateAllFocus m) = m_index m" by (simp_all add: updateAllFocus_def)
qed

section \<open>Removal\<close>

lemma removeConcept_absent: "getConcept t m = None \<Longrightarrow> removeConcept now t m = (False, m)"
  by (simp add: removeConcept_def)

lemma removeConcept_frame [simp]:
  "m_heap (snd (removeConcept now t m)) = m_heap m" "m_config (snd (removeConcept now t m)) = m_config m"
  "m_attention (snd (removeConcept now t m)) = m_attention m" "m_archive (snd (removeConcept now t m)) = m_archive m"
  "m_focusMax (snd (removeConcept now t m)) = m_focusMax m" "m_policy (snd (removeConcept now t m)) = m_policy m"
  "m_revisionLog (snd (removeConcept now t m)) = m_revisionLog m"
  "m_lastRevisionTs (snd (removeConcept now t m)) = m_lastRevisionTs m"
  by (simp_all add: removeConcept_def Let_def split: option.split)

lemma concept_at_remove [simp]: "concept_at (snd (removeConcept now t m)) = concept_at m"
  by (simp add: concept_at_def fun_eq_iff)

lemma removeConcept_concepts: "m_concepts (snd (removeConcept now t m)) = AList.delete (termKey t) (m_concepts m)"
proof (cases "getConcept t m")
  case None
  then have "termKey t \<notin> set (okeys (m_concepts m))" by (simp add: getConcept_def map_of_None_iff)
  then show ?thesis using None by (simp add: removeConcept_def)
qed (simp add: removeConcept_def Let_def)

lemma removeConcept_done: "fst (removeConcept now t m) \<longleftrightarrow> getConcept t m \<noteq> None"
  by (simp add: removeConcept_def Let_def split: option.split)

lemma set_delete_keys: "set (AList.delete k f) = {(x, y) \<in> set f. x \<noteq> k}"
  by (auto simp: AList.delete_eq)

lemma removeConcept_inv:
  assumes "memory_inv m"
  shows "memory_inv (snd (removeConcept now t m))"
proof (cases "getConcept t m")
  case None
  then show ?thesis using assms by (simp add: removeConcept_absent)
next
  case (Some a)
  note inv = memory_invD [OF assms]
  note found = getConcept_found [OF inv(1) Some]
  have focus: "m_focus (snd (removeConcept now t m)) = AList.delete (termKey t) (m_focus m)"
    using Some found(2) by (simp add: removeConcept_def Let_def)
  have links: "m_links (snd (removeConcept now t m)) = removeAllLinksForTerm now t (m_links m)"
    using Some by (simp add: removeConcept_def Let_def)
  have "int (length (AList.delete (termKey t) (m_focus m))) \<le> max 0 (m_focusMax m)"
    using inv(2) length_delete_le [of "termKey t" "m_focus m"] by (auto simp: focus_ok_def)
  then have "focus_ok (snd (removeConcept now t m))"
    using inv(2) by (auto simp: focus_ok_def focus removeConcept_concepts set_delete_keys)
  moreover have "store_ok (snd (removeConcept now t m))"
    using inv(1) by (auto simp: store_ok_def removeConcept_concepts set_delete_keys)
  ultimately show ?thesis
    using inv removeAll_links(1) [OF inv(5)] by (simp add: memory_inv_def archive_ok_def log_ok_def links)
qed

lemma memory_size_remove:
  assumes "store_ok m" "getConcept t m = Some a"
  shows "Suc (memory_size (snd (removeConcept now t m))) = memory_size m"
proof -
  have "termKey t \<in> set (okeys (m_concepts m))" using getConcept_found(4) [OF assms] by force
  then show ?thesis using assms(1) by (simp add: memory_size_def removeConcept_concepts store_ok_def length_delete_present)
qed

lemma applyForgetting_inv: "memory_inv m \<Longrightarrow> memory_inv (applyForgetting now m)"
  by (simp add: applyForgetting_def removeConcept_inv split: option.split)

lemma applyForgetting_size:
  assumes "store_ok m" "m_concepts m \<noteq> []"
  shows "Suc (memory_size (applyForgetting now m)) = memory_size m"
proof -
  obtain a where a: "selectVictim m = Some a" using assms(2) minBy_None
    by (cases "selectVictim m") (auto simp: selectVictim_def victimBy_def listConcepts_def)
  have "a \<in> set (listConcepts m)"
    using a minBy_least(1) by (auto simp: selectVictim_def victimBy_def)
  from memory_size_remove [OF assms(1) getConcept_own [OF assms(1) this]] a show ?thesis
    by (simp add: applyForgetting_def)
qed

lemma applyForgetting_frame [simp]:
  "m_heap (applyForgetting now m) = m_heap m" "m_config (applyForgetting now m) = m_config m"
  by (simp_all add: applyForgetting_def split: option.split)

section \<open>Admission\<close>

lemma adoptConcept_concepts:
  "m_concepts (adoptConcept now a m) = AList.update (termKey (cc_term (concept_at m a))) a (m_concepts m)"
  by (simp add: adoptConcept_def Let_def)

lemma adoptConcept_frame [simp]:
  "m_heap (adoptConcept now a m) = m_heap m" "m_config (adoptConcept now a m) = m_config m"
  "m_attention (adoptConcept now a m) = m_attention m" "m_archive (adoptConcept now a m) = m_archive m"
  "m_focusMax (adoptConcept now a m) = m_focusMax m" "m_revisionLog (adoptConcept now a m) = m_revisionLog m"
  "m_lastRevisionTs (adoptConcept now a m) = m_lastRevisionTs m" "m_links (adoptConcept now a m) = m_links m"
  by (simp_all add: adoptConcept_def Let_def)

lemma concept_at_adopt [simp]: "concept_at (adoptConcept now a m) = concept_at m"
  by (simp add: concept_at_def fun_eq_iff)

lemma adopted_entries:
  assumes "wf_omap f"
  shows "set (AList.update k a f) = insert (k, a) (set (AList.delete k f))"
proof -
  have "wf_omap (AList.update k a f)" "wf_omap (AList.delete k f)" using assms by simp_all
  note entry = map_of_eq_Some_iff [OF this(1)] map_of_eq_Some_iff [OF this(2)]
  have "e \<in> set (AList.update k a f) \<longleftrightarrow> e \<in> insert (k, a) (set (AList.delete k f))" for e
    by (cases e) (auto simp: entry [symmetric] update_conv' delete_conv')
  then show ?thesis by (rule set_eqI)
qed

lemma adoptConcept_inv:
  assumes "memory_inv m" "a < length (m_heap m)"
  shows "memory_inv (adoptConcept now a m)"
proof -
  note inv = memory_invD [OF assms(1)]
  define key where "key = termKey (cc_term (concept_at m a))"
  define m1 where "m1 = m\<lparr>m_concepts := AList.update key a (m_concepts m)\<rparr>"
  define m2 where "m2 = (if mc_enableIndexing (m_config m1) then m1\<lparr>m_index := index_add now key a (m_index m1)\<rparr> else m1)"
  have adopt: "adoptConcept now a m = addToFocus a m2"
    by (simp add: adoptConcept_def m2_def m1_def key_def Let_def)
  have wf: "wf_omap (m_concepts m)" using inv(1) by (simp add: store_ok_def)
  have same: "m_concepts m2 = m_concepts m1" "m_heap m2 = m_heap m" "m_focus m2 = m_focus m" "m_focusMax m2 = m_focusMax m"
    "concept_at m2 = concept_at m" "m_archive m2 = m_archive m" "m_revisionLog m2 = m_revisionLog m"
    "m_lastRevisionTs m2 = m_lastRevisionTs m" "m_links m2 = m_links m" "m_attention m2 = m_attention m" "m_config m2 = m_config m"
    by (simp_all add: m2_def m1_def concept_at_def fun_eq_iff)
  have entries: "set (m_concepts m1) = insert (key, a) (set (AList.delete key (m_concepts m)))"
    using adopted_entries [OF wf] by (simp add: m1_def)
  have store: "store_ok m2"
    using inv(1) assms(2) wf by (auto simp: store_ok_def same entries key_def set_delete_keys) (simp add: m1_def)
  have "focus_ok (addToFocus a m2)"
  proof (rule addToFocus_ok [OF _ _ _ _ _ store])
    show "key = termKey (cc_term (concept_at m2 a))" by (simp add: key_def same)
    show "set (AList.delete key (m_focus m2)) \<subseteq> set (m_concepts m2)" "(key, a) \<in> set (m_concepts m2)"
      using inv(2) by (auto simp: focus_ok_def same entries set_delete_keys)
    show "key \<in> set (okeys (m_focus m2)) \<or> set (m_focus m2) \<subseteq> set (m_concepts m2)"
      using inv(2) by (force simp: focus_ok_def same entries set_delete_keys)
  qed (use inv(2) in \<open>simp_all add: focus_ok_def same\<close>)
  then show ?thesis
    using inv store by (simp add: adopt memory_inv_def store_ok_def archive_ok_def log_ok_def same)
qed

lemma update_same: "map_of f k = Some a \<Longrightarrow> AList.update k a f = f"
  by (induction f) auto

text \<open>The store's own write after the constructor's repeats it.\<close>

lemma addConcept_new:
  assumes "getConcept t m = None" "ad_bagIds ad = (b, g, q)"
  shows "addConcept ad t m =
    (let m1 = (if int (memory_size m) \<ge> mc_maxConcepts (m_config m) then applyForgetting (ad_now ad) m else m);
         a = length (m_heap m1)
     in (a, adoptConcept (ad_now ad) a
              (m1\<lparr>m_heap := m_heap m1 @ [newConcept (ad_now ad) b g q t (mc_bag (m_config m1))]\<rparr>)))"
proof -
  have "m\<lparr>m_concepts := AList.update (termKey t) a (m_concepts m)\<rparr> = m"
    if "map_of (m_concepts m) (termKey t) = Some a" for m :: memory and a
    using that by (simp add: update_same)
  moreover have "map_of (m_concepts (adoptConcept now (length heap) (m\<lparr>m_heap := heap @ [newConcept now' b g q t c]\<rparr>))) (termKey t)
      = Some (length heap)" for m now now' heap c
    by (simp add: adoptConcept_concepts concept_at_def newConcept_def update_conv')
  ultimately show ?thesis using assms by (simp add: addConcept_def Let_def)
qed

lemma addConcept_spec:
  assumes "memory_inv m"
  shows "memory_inv (snd (addConcept ad t m))"
    "fst (addConcept ad t m) \<in> set (listConcepts (snd (addConcept ad t m)))"
    "termKey (cc_term (concept_at (snd (addConcept ad t m)) (fst (addConcept ad t m)))) = termKey t"
    "m_config (snd (addConcept ad t m)) = m_config m"
    "int (memory_size (snd (addConcept ad t m))) \<le> max (max 1 (mc_maxConcepts (m_config m))) (int (memory_size m))"
proof -
  note inv = memory_invD [OF assms]
  obtain a' m' where r: "addConcept ad t m = (a', m')" by (cases "addConcept ad t m")
  have "memory_inv m' \<and> a' \<in> set (listConcepts m') \<and> termKey (cc_term (concept_at m' a')) = termKey t \<and> m_config m' = m_config m
      \<and> int (memory_size m') \<le> max (max 1 (mc_maxConcepts (m_config m))) (int (memory_size m))"
  proof (cases "getConcept t m")
    case (Some a)
    then have "a' = a" "m' = m" using r by (simp_all add: addConcept_def)
    then show ?thesis using assms getConcept_found [OF inv(1) Some] by simp
  next
    case None
    obtain b g q where ids: "ad_bagIds ad = (b, g, q)" by (cases "ad_bagIds ad")
    define m1 where "m1 = (if int (memory_size m) \<ge> mc_maxConcepts (m_config m) then applyForgetting (ad_now ad) m else m)"
    define c where "c = newConcept (ad_now ad) b g q t (mc_bag (m_config m1))"
    define m2 where "m2 = m1\<lparr>m_heap := m_heap m1 @ [c]\<rparr>"
    have "addConcept ad t m = (length (m_heap m1), adoptConcept (ad_now ad) (length (m_heap m1)) m2)"
      unfolding m2_def c_def m1_def using addConcept_new [OF None ids] by (simp only: Let_def)
    then have res: "a' = length (m_heap m1)" "m' = adoptConcept (ad_now ad) a' m2" using r by simp_all
    have inv1: "memory_inv m1" using assms by (simp add: m1_def applyForgetting_inv)
    have inv2: "memory_inv m2"
      unfolding m2_def using memory_invD(1) [OF inv1] newConcept_ok
      by (intro heap_change [OF inv1]) (auto simp: store_ok_def c_def nth_append)
    have term': "cc_term (concept_at m2 a') = t" by (simp add: m2_def res concept_at_def c_def newConcept_def)
    have len: "a' < length (m_heap m2)" by (simp add: m2_def res)
    have cs: "m_concepts m' = AList.update (termKey t) a' (m_concepts m1)"
      by (simp add: res(2) adoptConcept_concepts term') (simp add: m2_def)
    have size: "memory_size m' \<le> Suc (memory_size m1)"
    proof (cases "termKey t \<in> set (okeys (m_concepts m1))")
      case False
      then show ?thesis by (simp add: memory_size_def cs update_absent)
    qed (simp add: memory_size_def cs)
    have "int (memory_size m') \<le> max (max 1 (mc_maxConcepts (m_config m))) (int (memory_size m))"
    proof (cases "int (memory_size m) \<ge> mc_maxConcepts (m_config m) \<and> m_concepts m \<noteq> []")
      case True
      then have "Suc (memory_size m1) = memory_size m" by (simp add: m1_def applyForgetting_size inv(1))
      then show ?thesis using size by linarith
    next
      case False
      then have "m_concepts m = [] \<or> int (memory_size m) < mc_maxConcepts (m_config m)" by linarith
      moreover have "m_concepts m = [] \<Longrightarrow> m_concepts m1 = []"
        by (simp add: m1_def applyForgetting_def selectVictim_def listConcepts_def victimBy_def split: option.split)
      ultimately consider "memory_size m1 = 0" | "memory_size m1 = memory_size m" "int (memory_size m) < mc_maxConcepts (m_config m)"
        by (force simp: m1_def memory_size_def)
      then show ?thesis using size by cases linarith+
    qed
    moreover have "a' \<in> set (listConcepts m')"
      using cs by (simp add: listConcepts_def) (metis image_eqI map_of_SomeD snd_conv update_conv' fun_upd_same)
    moreover have "m_config m' = m_config m" by (simp add: res(2)) (simp add: m2_def m1_def)
    ultimately show ?thesis using adoptConcept_inv [OF inv2 len] term' by (simp add: res(2))
  qed
  then show "memory_inv (snd (addConcept ad t m))"
    "fst (addConcept ad t m) \<in> set (listConcepts (snd (addConcept ad t m)))"
    "termKey (cc_term (concept_at (snd (addConcept ad t m)) (fst (addConcept ad t m)))) = termKey t"
    "m_config (snd (addConcept ad t m)) = m_config m"
    "int (memory_size (snd (addConcept ad t m))) \<le> max (max 1 (mc_maxConcepts (m_config m))) (int (memory_size m))"
    by (simp_all add: r)
qed

lemma sorted_pushed:
  assumes "sorted_wrt (<) (map f xs)" "\<forall>x \<in> set xs. f x \<le> (v :: real)" "v < f y"
  shows "sorted_wrt (<) (map f (takeLast (xs @ [y]) n))"
proof -
  have "sorted_wrt (<) (map f (xs @ [y]))" using assms by (fastforce simp: sorted_wrt_append)
  then have "sorted_wrt (<) (map f (drop k (xs @ [y])))" for k
    using sorted_wrt_drop by (metis drop_map)
  then show ?thesis by (simp add: takeLast_def del: drop_append)
qed

lemma set_takeLast: "set (takeLast xs n) \<subseteq> set xs"
  by (auto simp: takeLast_def dest: in_set_dropD)

lemma recordRevision_inv:
  assumes "memory_inv m"
  shows "memory_inv (recordRevision entry m)"
proof -
  note inv = memory_invD [OF assms]
  define ts where "ts = max (rv_timestamp entry) (m_lastRevisionTs m + 1)"
  let ?r = "snd (ring_push (m_revisionLog m) (entry\<lparr>rv_timestamp := ts\<rparr>))"
  have items: "ring_items ?r = takeLast (ring_items (m_revisionLog m) @ [entry\<lparr>rv_timestamp := ts\<rparr>]) (ring_capacity (m_revisionLog m))"
    using inv(4) by (simp add: log_ok_def ring_push_drop)
  have late: "m_lastRevisionTs m < ts" by (simp add: ts_def)
  have "sorted_wrt (<) (map rv_timestamp (ring_items ?r))"
    unfolding items using inv(4) late by (intro sorted_pushed [where v = "m_lastRevisionTs m"]) (auto simp: log_ok_def)
  moreover have "\<forall>e \<in> set (ring_items ?r). rv_timestamp e \<le> ts"
    using inv(4) late set_takeLast unfolding items by (fastforce simp: log_ok_def dest!: subsetD [OF set_takeLast])
  ultimately have "log_ok (recordRevision entry m)"
    using inv(4) by (simp add: log_ok_def recordRevision_def Let_def ts_def ring_push_inv frame_simps)
  then show ?thesis
    using inv by (simp add: memory_inv_def store_ok_def focus_ok_def archive_ok_def concept_at_def recordRevision_def Let_def)
qed

lemma recordRevision_frame [simp]:
  "m_concepts (recordRevision e m) = m_concepts m" "m_config (recordRevision e m) = m_config m"
  "m_heap (recordRevision e m) = m_heap m" "m_index (recordRevision e m) = m_index m"
  by (simp_all add: recordRevision_def Let_def)

lemma addTask_term: "cc_term (snd (snd (addTask now newId fresh typ d c))) = cc_term c"
  by (cases "typ"; simp add: addTask_def addBeliefWithRevision_def put_belief_def bag_of_def set_bag_def Let_def
      split: option.split prod.split)

lemma memory_addTask_spec:
  assumes "memory_inv m" "0 \<le> w_priority budget"
  shows "memory_inv (snd (memory_addTask ad t typ tr budget st m))"
    "m_config (snd (memory_addTask ad t typ tr budget st m)) = m_config m"
    "m_concepts (snd (memory_addTask ad t typ tr budget st m)) = m_concepts (snd (addConcept ad t m))"
    "m_index (snd (memory_addTask ad t typ tr budget st m)) = m_index (snd (addConcept ad t m))"
    "length (m_heap (snd (memory_addTask ad t typ tr budget st m))) = length (m_heap (snd (addConcept ad t m)))"
proof -
  obtain a m1 where r: "addConcept ad t m = (a, m1)" by (cases "addConcept ad t m")
  note spec = addConcept_spec [OF assms(1), of ad t, unfolded r fst_conv snd_conv]
  define d where "d = \<lparr>tn_term = t, tn_truth = tr, tn_budget = budget, tn_timestamp = None,
    tn_stamp = Some (orElse st (ad_stamp ad)), tn_occurrenceTime = None, tn_derived = None\<rparr>"
  obtain added e c where s: "addTask (ad_now ad) (ad_entryId ad) (ad_stamp ad) typ d (concept_at m1 a) = (added, e, c)"
    by (metis prod_cases3)
  have ok: "concept_ok c" "cc_term c = cc_term (concept_at m1 a)"
    using addTask_ok [OF resident_at(3) [OF memory_invD(1) [OF spec(1)] spec(2)],
        of d "ad_now ad" "ad_entryId ad" "ad_stamp ad" "typ"]
      addTask_term [of "ad_now ad" "ad_entryId ad" "ad_stamp ad" "typ" d "concept_at m1 a"] assms(2)
    by (simp_all add: s) (simp_all add: d_def)
  have res: "memory_addTask ad t typ tr budget st m =
      (added, case e of None \<Rightarrow> write_concept a c m1 | Some e \<Rightarrow> recordRevision e (write_concept a c m1))"
    using s by (simp add: memory_addTask_def r d_def Let_def)
  show "memory_inv (snd (memory_addTask ad t typ tr budget st m))"
    "m_config (snd (memory_addTask ad t typ tr budget st m)) = m_config m"
    "m_concepts (snd (memory_addTask ad t typ tr budget st m)) = m_concepts (snd (addConcept ad t m))"
    "m_index (snd (memory_addTask ad t typ tr budget st m)) = m_index (snd (addConcept ad t m))"
    "length (m_heap (snd (memory_addTask ad t typ tr budget st m))) = length (m_heap (snd (addConcept ad t m)))"
    using spec(4) recordRevision_inv [OF write_concept_inv [OF spec(1) ok]] write_concept_inv [OF spec(1) ok] r
    by (simp_all add: res split: option.split)
qed

section \<open>Archive\<close>

lemma archive_after_set:
  assumes "bm_inv (m_archive m)" "(t, e) \<in> set (bm_entries (bm_set now 0 (m_archive m) t' a))"
  shows "(t, e) \<in> set (bm_entries (m_archive m)) \<or> t = t' \<and> e_value e = a"
proof -
  have sub: "set (bm_entries (bm_evictVictim r b)) \<subseteq> set (bm_entries b)" for r and b :: "(narTerm, nat) lruCache"
    by (auto simp: bm_evictVictim_def bm_evict_def set_delete_keys split: option.split)
  show ?thesis
    using assms(2) sub [of 0 "m_archive m"]
    by (auto simp: bm_set_def Let_def set_delete_keys dest!: subsetD [OF set_update_entries] split: if_splits)
qed

lemma archiveConcept_disabled: "\<not> mc_enableArchive (m_config m) \<Longrightarrow> archiveConcept now a m = (False, m)"
  by (simp add: archiveConcept_def)

lemma archiveConcept_inv:
  assumes "memory_inv m" "a < length (m_heap m)"
  shows "memory_inv (snd (archiveConcept now a m))"
proof (cases "mc_enableArchive (m_config m)")
  case True
  note inv = memory_invD [OF assms(1)]
  let ?ar = "bm_set now 0 (m_archive m) (cc_term (concept_at m a)) a"
  have "archive_ok (m\<lparr>m_archive := ?ar\<rparr>)"
    using inv(3) assms(2)
    by (fastforce simp: archive_ok_def concept_at_def frame_simps bm_set_inv dest!: archive_after_set [rotated])
  from archive_change [OF assms(1) this] True show ?thesis by (simp add: archiveConcept_def removeConcept_inv)
qed (simp add: archiveConcept_disabled assms)

lemma archiveConcept_frame [simp]:
  "m_heap (snd (archiveConcept now a m)) = m_heap m" "m_config (snd (archiveConcept now a m)) = m_config m"
  "m_attention (snd (archiveConcept now a m)) = m_attention m"
  by (simp_all add: archiveConcept_def)

lemma concept_at_archive [simp]: "concept_at (snd (archiveConcept now a m)) = concept_at m"
  by (simp add: concept_at_def fun_eq_iff)

lemma archiveConcept_concepts:
  "m_concepts (snd (archiveConcept now a m)) =
    (if mc_enableArchive (m_config m) then AList.delete (termKey (cc_term (concept_at m a))) (m_concepts m) else m_concepts m)"
  by (simp add: archiveConcept_def removeConcept_concepts)

lemma archiveConcept_done:
  "fst (archiveConcept now a m) \<longleftrightarrow> mc_enableArchive (m_config m) \<and> getConcept (cc_term (concept_at m a)) m \<noteq> None"
  by (simp add: archiveConcept_def removeConcept_done getConcept_def)

lemma lru_get_archive:
  assumes "bm_inv b" "bm_ttlMs b = None" "lru_get now b t = (found, b')"
  shows "found = map_option e_value (map_of (bm_entries b) t)" "map_of (bm_entries b') = map_of (bm_entries b)"
    "bm_inv b'" "bm_ttlMs b' = None"
proof -
  have "fst (lru_get now b t) = fst (bm_get now b t)" "bm_entries (snd (lru_get now b t)) = bm_entries (snd (bm_get now b t))"
    "bm_inv (snd (lru_get now b t)) = bm_inv (snd (bm_get now b t))" "bm_ttlMs (snd (lru_get now b t)) = bm_ttlMs (snd (bm_get now b t))"
    by (auto simp: lru_get_def bm_inv_def bm_size_def split: prod.split option.split)
  then show "found = map_option e_value (map_of (bm_entries b) t)" "map_of (bm_entries b') = map_of (bm_entries b)"
    "bm_inv b'" "bm_ttlMs b' = None"
    using get_same_entries [OF assms(1,2), of now t] bm_get_inv [OF assms(1), of now t] assms(2,3)
    by (simp_all add: bm_get_def bm_live_def bm_reinsert_def bm_evict_def Let_def split: prod.splits option.splits if_splits)
qed

lemma retrieve_inv:
  assumes "memory_inv m"
  shows "memory_inv (snd (retrieveFromArchive now t m))"
    "memory_size (snd (retrieveFromArchive now t m)) \<le> Suc (memory_size m)"
    "m_config (snd (retrieveFromArchive now t m)) = m_config m"
proof -
  note inv = memory_invD [OF assms]
  have ar: "bm_inv (m_archive m)" "bm_ttlMs (m_archive m) = None" using inv(3) by (simp_all add: archive_ok_def)
  obtain found b where get: "lru_get now (m_archive m) t = (found, b)" by (cases "lru_get now (m_archive m) t")
  note spec = lru_get_archive [OF ar get]
  have entries: "(x, e) \<in> set (bm_entries b) \<Longrightarrow> (x, e) \<in> set (bm_entries (m_archive m))" for x e
    using spec(2) spec(3) by (metis bm_inv_def map_of_SomeD map_of_is_SomeI)
  have ok: "archive_ok (m\<lparr>m_archive := b\<rparr>)" "archive_ok (m\<lparr>m_archive := snd (bm_delete b t)\<rparr>)"
    using inv(3) spec(3,4) entries bm_delete_inv [OF spec(3), of t]
    by (fastforce simp: archive_ok_def concept_at_def bm_delete_def set_delete_keys)+
  have "memory_inv (snd (retrieveFromArchive now t m)) \<and> memory_size (snd (retrieveFromArchive now t m)) \<le> Suc (memory_size m)
      \<and> m_config (snd (retrieveFromArchive now t m)) = m_config m"
  proof (cases "mc_enableArchive (m_config m)")
    case True
    show ?thesis
    proof (cases found)
      case None
      then show ?thesis using get True archive_change [OF assms ok(1)] by (simp add: retrieveFromArchive_def memory_size_def)
    next
      case (Some a)
      then obtain e where "map_of (bm_entries (m_archive m)) t = Some e" "e_value e = a" using spec(1) by auto
      then have "a < length (m_heap m)" using inv(3) by (auto simp: archive_ok_def dest!: map_of_SomeD)
      then have "memory_inv (adoptConcept now a (m\<lparr>m_archive := snd (bm_delete b t)\<rparr>))"
        using archive_change [OF assms ok(2)] by (intro adoptConcept_inv) simp_all
      moreover have "length (AList.update k a (m_concepts m)) \<le> Suc (length (m_concepts m))" for k
        by (cases "k \<in> set (okeys (m_concepts m))") (simp_all add: update_absent)
      ultimately show ?thesis
        using get True Some by (simp add: retrieveFromArchive_def memory_size_def adoptConcept_concepts)
    qed
  qed (simp add: retrieveFromArchive_def assms)
  then show "memory_inv (snd (retrieveFromArchive now t m))"
    "memory_size (snd (retrieveFromArchive now t m)) \<le> Suc (memory_size m)"
    "m_config (snd (retrieveFromArchive now t m)) = m_config m" by simp_all
qed

lemma clear_inv:
  assumes "memory_inv m"
  shows "memory_inv (clear_memory now m)" "m_concepts (clear_memory now m) = []" "all_links (m_links (clear_memory now m)) = []"
    "m_config (clear_memory now m) = m_config m"
proof -
  note inv = memory_invD [OF assms]
  have "archive_ok (m\<lparr>m_archive := lru_clear (m_archive m)\<rparr>)"
    using inv(3) by (simp add: archive_ok_def lru_clear_def bm_clear_def bm_inv_def bm_size_def)
  then show "memory_inv (clear_memory now m)"
    using inv decay_one_clears(1) [OF inv(5)]
    by (simp add: clear_memory_def memory_inv_def store_ok_def focus_ok_def archive_ok_def log_ok_def concept_at_def Let_def)
  show "m_concepts (clear_memory now m) = []" "m_config (clear_memory now m) = m_config m"
    "all_links (m_links (clear_memory now m)) = []"
    using decay_one_clears(2) [OF inv(5)] by (simp_all add: clear_memory_def Let_def)
qed

section \<open>Shedding\<close>

text \<open>The two ways a concept leaves the store under pressure, and what they have in common: where
  the way is open, handing over resident concepts takes out exactly them and reports each.\<close>

locale shedding =
  fixes oper :: "nat \<Rightarrow> memory \<Rightarrow> bool \<times> memory" and opened :: "memory \<Rightarrow> bool"
  assumes reports: "opened m \<Longrightarrow> fst (oper a m) \<longleftrightarrow> getConcept (cc_term (concept_at m a)) m \<noteq> None"
    and takes_out: "opened m \<Longrightarrow> m_concepts (snd (oper a m)) = AList.delete (termKey (cc_term (concept_at m a))) (m_concepts m)"
    and stays_open: "opened m \<Longrightarrow> opened (snd (oper a m))"
    and same_heap: "m_heap (snd (oper a m)) = m_heap m"
    and same_config: "m_config (snd (oper a m)) = m_config m"
    and keeps_inv: "memory_inv m \<Longrightarrow> a < length (m_heap m) \<Longrightarrow> memory_inv (snd (oper a m))"
begin

lemma shed_frame: "m_heap (snd (count_done oper as m)) = m_heap m \<and> m_config (snd (count_done oper as m)) = m_config m"
proof (induction as arbitrary: m)
  case (Cons a as)
  then show ?case using same_heap [of a m] same_config [of a m] by (simp split: prod.split) (metis snd_conv)
qed simp

lemma shed_inv:
  assumes "memory_inv m" "\<forall>a \<in> set as. a < length (m_heap m)"
  shows "memory_inv (snd (count_done oper as m))"
  using assms
proof (induction as arbitrary: m)
  case (Cons a as)
  have "memory_inv (snd (count_done oper as (snd (oper a m))))"
    using Cons.prems by (intro Cons.IH) (simp_all add: keeps_inv same_heap)
  then show ?case by (simp split: prod.split) (metis snd_conv)
qed simp

lemma taken_entries:
  assumes "store_ok m" "a \<in> set (listConcepts m)"
  shows "AList.delete (termKey (cc_term (concept_at m a))) (m_concepts m) = filter (\<lambda>(k, b). b \<noteq> a) (m_concepts m)"
proof -
  have "termKey (cc_term (concept_at m a)) \<noteq> k \<longleftrightarrow> b \<noteq> a" if "(k, b) \<in> set (m_concepts m)" for k b
  proof -
    have "(termKey (cc_term (concept_at m a)), a) \<in> set (m_concepts m)" by (rule resident_at(1) [OF assms])
    then show ?thesis using that resident(2) [OF assms(1) that] assms(1) map_of_is_SomeI [of "m_concepts m"]
      by (metis option.inject store_ok_def)
  qed
  then show ?thesis by (auto simp: AList.delete_eq intro!: filter_cong)
qed

lemma shed_all:
  assumes "memory_inv m" "opened m" "distinct as" "set as \<subseteq> set (listConcepts m)"
  shows "fst (count_done oper as m) = length as \<and> m_concepts (snd (count_done oper as m)) = filter (\<lambda>(k, b). b \<notin> set as) (m_concepts m)"
  using assms
proof (induction as arbitrary: m)
  case (Cons a as)
  obtain ok m1 where r: "oper a m = (ok, m1)" by (cases "oper a m")
  note inv = memory_invD [OF Cons.prems(1)]
  have a: "a \<in> set (listConcepts m)" using Cons.prems(4) by simp
  have ok using reports [OF Cons.prems(2), of a] getConcept_own [OF inv(1) a] by (simp add: r)
  have cs: "m_concepts m1 = filter (\<lambda>(k, b). b \<noteq> a) (m_concepts m)"
    using takes_out [OF Cons.prems(2), of a] taken_entries [OF inv(1) a] by (simp add: r)
  have "set as \<subseteq> set (listConcepts m1)" using Cons.prems(3,4) by (force simp: listConcepts_def cs)
  moreover have "memory_inv m1" "opened m1"
    using keeps_inv [OF Cons.prems(1) resident_at(2) [OF inv(1) a]] stays_open [OF Cons.prems(2), of a] by (simp_all add: r)
  ultimately have "fst (count_done oper as m1) = length as
      \<and> m_concepts (snd (count_done oper as m1)) = filter (\<lambda>(k, b). b \<notin> set as) (m_concepts m1)"
    using Cons.IH [of m1] Cons.prems(3) by simp
  moreover have "filter (\<lambda>(k, b). b \<notin> set as) (filter (\<lambda>(k, b). b \<noteq> a) (m_concepts m))
      = filter (\<lambda>(k, b). b \<notin> set (a # as)) (m_concepts m)" by (auto intro: filter_cong)
  moreover obtain n m2 where "count_done oper as m1 = (n, m2)" by (cases "count_done oper as m1")
  ultimately show ?case using \<open>ok\<close> by (simp add: r cs)
qed simp

end

interpretation removing: shedding "remove_at now" "\<lambda>_. True"
  by unfold_locales (simp_all add: remove_at_def removeConcept_done removeConcept_concepts removeConcept_inv)

interpretation archiving: shedding "archiveConcept now" "\<lambda>m. mc_enableArchive (m_config m)"
  by unfold_locales (simp_all add: archiveConcept_done archiveConcept_concepts archiveConcept_inv)

lemma archiving_refused:
  "\<not> mc_enableArchive (m_config m) \<Longrightarrow> count_done (archiveConcept now) as m = (0, m)"
  by (induction as) (simp_all add: archiveConcept_disabled)

section \<open>Eviction\<close>

lemma sortBy_eq:
  fixes xs :: "'a list"
  shows "sortBy xs f = map fst (js_sort (\<lambda>p q. snd p \<le> snd q) (map (\<lambda>x. (x, f x)) xs))"
proof -
  have "(\<lambda>(p :: 'a \<times> real) (q :: 'a \<times> real). snd p \<noteq> snd q \<longrightarrow> snd p \<le> snd q) = (\<lambda>p q. snd p \<le> snd q)"
    by (auto simp: fun_eq_iff)
  then show ?thesis by (simp add: sortBy_def keyedRank_def case_prod_unfold)
qed

lemma mset_sortBy: "mset (sortBy xs f) = mset xs"
  by (simp add: sortBy_eq multiset.map_comp comp_def)

lemma set_sortBy: "set (sortBy xs f) = set xs"
  by (rule mset_eq_setD [OF mset_sortBy])

lemma sorted_sortBy: "sorted_wrt (\<lambda>a b. f a \<le> f b) (sortBy xs f)"
proof -
  let ?ps = "js_sort (\<lambda>p q. snd p \<le> snd q) (map (\<lambda>x. (x, f x)) xs)"
  have sorted: "sorted_wrt (\<lambda>p q. snd p \<le> snd q) ?ps" by (rule sorted_js_sort) auto
  have "snd p = f (fst p)" if "p \<in> set ?ps" for p using that by auto
  then have "sorted_wrt (\<lambda>p q. f (fst p) \<le> f (fst q)) ?ps"
    by (intro sorted_wrt_mono_rel [OF _ sorted]) metis
  then show ?thesis by (simp add: sortBy_eq sorted_wrt_map)
qed

text \<open>Taking the first of a list sorted by value takes the least valuable.\<close>

lemma taken_first:
  assumes "sorted_wrt P xs" "distinct xs" "x \<in> set (take n xs)" "y \<in> set xs" "y \<notin> set (take n xs)"
  shows "P x y"
proof -
  have "sorted_wrt P (take n xs @ drop n xs)" using assms(1) by simp
  moreover have "y \<in> set (drop n xs)" using assms(4,5) by (metis Un_iff append_take_drop_id set_append)
  ultimately show ?thesis using assms(3) by (auto simp: sorted_wrt_append simp del: append_take_drop_id)
qed

lemma idle_order_spec:
  assumes "store_ok m"
  shows "distinct (idle_order m)"
    "set (idle_order m) = {a \<in> set (listConcepts m). totalTasks (concept_at m a) = 0}"
    "sorted_wrt (\<lambda>a b. conceptValue (concept_at m a) \<le> conceptValue (concept_at m b)) (idle_order m)"
proof -
  let ?idle = "filter (\<lambda>a. totalTasks (concept_at m a) = 0) (listConcepts m)"
  have ms: "mset (idle_order m) = mset ?idle" by (simp only: idle_order_def mset_sortBy)
  show "distinct (idle_order m)"
    using listConcepts_distinct [OF assms] mset_eq_imp_distinct_iff [OF ms] by simp
  show "set (idle_order m) = {a \<in> set (listConcepts m). totalTasks (concept_at m a) = 0}"
    using mset_eq_setD [OF ms] by simp
  show "sorted_wrt (\<lambda>a b. conceptValue (concept_at m a) \<le> conceptValue (concept_at m b)) (idle_order m)"
    unfolding idle_order_def by (rule sorted_sortBy)
qed

lemma shareOf_take: "\<exists>n. shareOf xs x c p = take n xs"
  by (auto simp: shareOf_def Let_def)

lemma to_archive_take: "\<exists>n. to_archive m = take n (idle_order m)"
  using shareOf_take by (simp add: to_archive_def Let_def)

lemma to_archive_spec:
  assumes "store_ok m"
  shows "distinct (to_archive m)" "set (to_archive m) \<subseteq> set (idle_order m)" "set (to_archive m) \<subseteq> set (listConcepts m)"
proof -
  obtain n where n: "to_archive m = take n (idle_order m)" using to_archive_take by blast
  show "distinct (to_archive m)" "set (to_archive m) \<subseteq> set (idle_order m)" "set (to_archive m) \<subseteq> set (listConcepts m)"
    using idle_order_spec [OF assms] by (auto simp: n dest: in_set_takeD)
qed

text \<open>What the second stage may choose from, and that it is a part of the store.\<close>

lemma forget_order_mset:
  "mset (forget_order population archivedNow m)
    = mset (filter (\<lambda>a. a \<notin> set archivedNow \<and> getConcept (cc_term (concept_at m a)) m \<noteq> None) population)"
  by (simp add: forget_order_def)

lemma shareOf_subset: "set (shareOf xs x c p) \<subseteq> set xs"
  by (auto simp: shareOf_def Let_def dest: in_set_takeD)

lemma distinct_shareOf: "distinct xs \<Longrightarrow> distinct (shareOf xs x c p)"
  by (simp add: shareOf_def Let_def)

lemma length_shed:
  assumes "distinct (map snd cs)" "distinct as" "set as \<subseteq> snd ` set cs"
  shows "length (filter (\<lambda>(k, b). b \<notin> set as) cs) + length as = length cs"
proof -
  have "filter (\<lambda>(k, b). b \<notin> set as) cs = filter ((\<lambda>b. b \<notin> set as) \<circ> snd) cs" by (auto intro: filter_cong)
  then have "length (filter (\<lambda>(k, b). b \<notin> set as) cs) = length (filter (\<lambda>b. b \<notin> set as) (map snd cs))"
    by (simp add: filter_map)
  also have "\<dots> = card (snd ` set cs - set as)"
    using distinct_card [of "filter (\<lambda>b. b \<notin> set as) (map snd cs)"] assms(1) by (simp add: set_diff_eq)
  also have "\<dots> = length cs - length as"
    using assms distinct_card [of "map snd cs"] distinct_card [of as] by (simp add: card_Diff_subset)
  finally have "length (filter (\<lambda>(k, b). b \<notin> set as) cs) = length cs - length as" .
  moreover have "length as \<le> length cs"
    using assms card_mono [of "snd ` set cs" "set as"] distinct_card [of "map snd cs"] distinct_card [of as] by simp
  ultimately show ?thesis by simp
qed

lemma archive_stage:
  assumes "memory_inv m" "count_done (archiveConcept now) (to_archive m) m = (n, m1)"
    and "A = (if mc_enableArchive (m_config m) then to_archive m else [])"
  shows "n = length A" "m_concepts m1 = filter (\<lambda>(k, b). b \<notin> set A) (m_concepts m)" "memory_inv m1"
    "m_heap m1 = m_heap m" "m_config m1 = m_config m"
proof -
  note spec = to_archive_spec [OF memory_invD(1) [OF assms(1)]]
  show "n = length A" "m_concepts m1 = filter (\<lambda>(k, b). b \<notin> set A) (m_concepts m)"
    using archiving.shed_all [OF assms(1) _ spec(1,3), of now] archiving_refused [of m now "to_archive m"] assms(2,3)
    by (auto split: if_splits)
  have "\<forall>a \<in> set (to_archive m). a < length (m_heap m)"
    using spec(3) resident_at(2) [OF memory_invD(1) [OF assms(1)]] by blast
  then show "memory_inv m1" using archiving.shed_inv [OF assms(1), of "to_archive m" now] assms(2) by simp
  show "m_heap m1 = m_heap m" "m_config m1 = m_config m"
    using archiving.shed_frame [of now "to_archive m" m] assms(2) by simp_all
qed

lemma listConcepts_kept: "m_concepts m1 = filter (\<lambda>(k, b). b \<notin> S) (m_concepts m) \<Longrightarrow> set (listConcepts m1) = set (listConcepts m) - S"
  by (force simp: listConcepts_def)

lemma forget_stage:
  assumes "memory_inv m" "memory_inv m1" "m_heap m1 = m_heap m" "m_config m1 = m_config m"
    and "m_concepts m1 = filter (\<lambda>(k, b). b \<notin> set A) (m_concepts m)" "set A \<subseteq> set (to_archive m)"
    and "V = shareOf (forget_order (listConcepts m) (to_archive m) m1) x c p" "count_done (remove_at now) V m1 = (n, m2)"
  shows "n = length V" "m_concepts m2 = filter (\<lambda>(k, b). b \<notin> set (A @ V)) (m_concepts m)" "memory_inv m2"
    "m_heap m2 = m_heap m" "m_config m2 = m_config m" "distinct V" "set V \<inter> set (to_archive m) = {}" "set V \<subseteq> set (listConcepts m)"
proof -
  note ms = forget_order_mset [of "listConcepts m" "to_archive m" m1]
  have sub: "set V \<subseteq> {a \<in> set (listConcepts m). a \<notin> set (to_archive m)}"
    using shareOf_subset [of _ x c p] mset_eq_setD [OF ms] unfolding assms(7) by fastforce
  have "distinct (forget_order (listConcepts m) (to_archive m) m1)"
    using mset_eq_imp_distinct_iff [OF ms] listConcepts_distinct [OF memory_invD(1) [OF assms(1)]] by simp
  then show V: "distinct V" by (simp add: assms(7) distinct_shareOf)
  show "set V \<inter> set (to_archive m) = {}" "set V \<subseteq> set (listConcepts m)" using sub by auto
  have in1: "set V \<subseteq> set (listConcepts m1)" using sub assms(6) by (auto simp: listConcepts_kept [OF assms(5)])
  from removing.shed_all [OF assms(2) _ V in1, of now] assms(8)
  have "n = length V" "m_concepts m2 = filter (\<lambda>(k, b). b \<notin> set V) (m_concepts m1)" by simp_all
  then show "n = length V" "m_concepts m2 = filter (\<lambda>(k, b). b \<notin> set (A @ V)) (m_concepts m)"
    by (auto simp: assms(5) intro: filter_cong)
  have "\<forall>a \<in> set V. a < length (m_heap m1)" using in1 resident_at(2) [OF memory_invD(1) [OF assms(2)]] by blast
  then show "memory_inv m2" using removing.shed_inv [OF assms(2), of V now] assms(8) by simp
  show "m_heap m2 = m_heap m" "m_config m2 = m_config m"
    using removing.shed_frame [of now V m1] assms(3,4,8) by simp_all
qed

lemma evict_shape:
  assumes "memory_inv m" "evictUnderPressure now m = (r, m')"
  obtains A V where "distinct (A @ V)" "set (A @ V) \<subseteq> set (listConcepts m)"
    "m_concepts m' = filter (\<lambda>(k, b). b \<notin> set (A @ V)) (m_concepts m)"
    "m_heap m' = m_heap m" "memory_inv m'" "m_config m' = m_config m"
    "er_archived r = length A" "er_forgotten r = length V"
    "er_taskHolders r = length (filter (\<lambda>a. totalTasks (concept_at m a) > 0) V)" "er_candidates r = memory_size m"
    "er_reason r = (if capacityPressure m \<le> PRESSURE_ARCHIVE then WithinCapacity
                    else if length A + length V > 0 then Evicted else Exhausted)"
    "capacityPressure m \<le> PRESSURE_CRITICAL \<Longrightarrow> V = []" "capacityPressure m \<le> PRESSURE_ARCHIVE \<Longrightarrow> A = [] \<and> V = []"
    "set A \<subseteq> set (to_archive m)"
    "\<not> capacityPressure m \<le> PRESSURE_ARCHIVE \<Longrightarrow> mc_enableArchive (m_config m) \<Longrightarrow> A = to_archive m"
    "\<not> mc_enableArchive (m_config m) \<Longrightarrow> A = []" "set V \<inter> set (to_archive m) = {}"
proof (cases "capacityPressure m \<le> PRESSURE_ARCHIVE")
  case True
  have "r = \<lparr>er_reason = WithinCapacity, er_archived = 0, er_forgotten = 0, er_taskHolders = 0,
      er_candidates = memory_size m, er_idle = 0\<rparr>" "m' = m"
    using assms(2) True by (auto simp: evictUnderPressure_def listConcepts_def memory_size_def)
  then show thesis using True assms(1) by (intro that [of "[]" "[]"]) (simp_all add: case_prod_unfold)
next
  case pressed: False
  define A where "A = (if mc_enableArchive (m_config m) then to_archive m else [])"
  have A: "distinct A" "set A \<subseteq> set (to_archive m)" "set A \<subseteq> set (listConcepts m)"
    using to_archive_spec [OF memory_invD(1) [OF assms(1)]] by (auto simp: A_def)
  obtain n m1 where r1: "count_done (archiveConcept now) (to_archive m) m = (n, m1)" by (cases "count_done (archiveConcept now) (to_archive m) m")
  note st1 = archive_stage [OF assms(1) r1 A_def]
  have size: "length (listConcepts m) = memory_size m" by (simp add: listConcepts_def memory_size_def)
  show thesis
  proof (cases "capacityPressure m \<le> PRESSURE_CRITICAL")
    case True
    have "r = \<lparr>er_reason = (if length A > 0 then Evicted else Exhausted), er_archived = length A, er_forgotten = 0,
        er_taskHolders = 0, er_candidates = memory_size m, er_idle = length (idle_order m)\<rparr>" "m' = m1"
      using assms(2) pressed True st1(1) size by (simp_all add: evictUnderPressure_def r1)
    then show thesis using A st1 pressed True by (intro that [of A "[]"]) (simp_all add: A_def)
  next
    case False
    define V where "V = shareOf (forget_order (listConcepts m) (to_archive m) m1) (min FORGET_SHARE (capacityPressure m - PRESSURE_ARCHIVE)) 0
      (real (length (forget_order (listConcepts m) (to_archive m) m1)))"
    obtain k m2 where r2: "count_done (remove_at now) V m1 = (k, m2)" by (cases "count_done (remove_at now) V m1")
    note st2 = forget_stage [OF assms(1) st1(3,4,5,2) A(2) V_def r2]
    have "concept_at m2 = concept_at m" using st2(4) by (simp add: concept_at_def fun_eq_iff)
    then have "r = \<lparr>er_reason = (if length A + length V > 0 then Evicted else Exhausted), er_archived = length A, er_forgotten = length V,
        er_taskHolders = length (filter (\<lambda>a. totalTasks (concept_at m a) > 0) V), er_candidates = memory_size m,
        er_idle = length (idle_order m)\<rparr>" "m' = m2"
      using assms(2) pressed False st1(1) st2(1) size r2 by (simp_all add: evictUnderPressure_def r1 V_def Let_def)
    then show thesis using A st2 pressed False by (intro that [of A V]) (auto simp: A_def)
  qed
qed

lemma evictUnderPressure_inv:
  assumes "memory_inv m"
  shows "memory_inv (snd (evictUnderPressure now m))" "m_config (snd (evictUnderPressure now m)) = m_config m"
    "memory_size (snd (evictUnderPressure now m)) \<le> memory_size m"
proof -
  obtain r m' where e: "evictUnderPressure now m = (r, m')" by (cases "evictUnderPressure now m")
  from evict_shape [OF assms e] obtain S where "memory_inv m'" "m_config m' = m_config m"
    "m_concepts m' = filter (\<lambda>(k, b). b \<notin> S) (m_concepts m)" by metis
  then show "memory_inv (snd (evictUnderPressure now m))" "m_config (snd (evictUnderPressure now m)) = m_config m"
    "memory_size (snd (evictUnderPressure now m)) \<le> memory_size m"
    using e by (simp_all add: memory_size_def)
qed

section \<open>Consolidation and compaction\<close>

lemma attention_decay_nonneg: "model_ok model \<Longrightarrow> 0 \<le> p \<Longrightarrow> 0 \<le> rate \<Longrightarrow> 0 \<le> attention_decay model p cycles rate"
proof (induction model p cycles rate rule: attention_decay.induct)
  case (3 members p cycles rate)
  have "0 \<le> (\<Sum>(model, w)\<leftarrow>members. attention_decay model p cycles rate * w)" "0 \<le> sum_list (map snd members)"
    using 3 by (auto simp: list_all_iff intro!: sum_list_nonneg mult_nonneg_nonneg) blast+
  then show ?case by (simp add: safeRatio_def)
qed (simp_all add: forget_def)

lemma decay_concept_ok:
  assumes "concept_ok c" "model_ok model" "0 \<le> rate"
  shows "concept_ok (decay_concept model cycles rate c)" "cc_term (decay_concept model cycles rate c) = cc_term c"
proof -
  have "0 \<le> attention_decay model (cc_priority c) cycles rate"
    using assms by (intro attention_decay_nonneg) (simp_all add: concept_ok_def)
  then show "concept_ok (decay_concept model cycles rate c)" "cc_term (decay_concept model cycles rate c) = cc_term c"
    using assms(1) writeAttention_ok by (simp_all add: decay_concept_def Let_def)
qed

lemma decayAll_inv:
  assumes "memory_inv m"
  shows "memory_inv (decayAll cycles m)" "m_concepts (decayAll cycles m) = m_concepts m" "m_config (decayAll cycles m) = m_config m"
    "m_index (decayAll cycles m) = m_index m"
proof -
  define f where "f = (\<lambda>a m. write_concept a (decay_concept (m_attention m) cycles (mc_activationDecayRate (m_config m)) (concept_at m a)) m)"
  have "memory_inv (fold f as m) \<and> m_concepts (fold f as m) = m_concepts m \<and> m_config (fold f as m) = m_config m
      \<and> m_index (fold f as m) = m_index m"
    if "memory_inv m" "\<forall>a \<in> set as. a < length (m_heap m)" for as m
    using that
  proof (induction as arbitrary: m)
    case (Cons a as)
    note inv = memory_invD [OF Cons.prems(1)]
    have "concept_ok (concept_at m a)" using inv(1) Cons.prems(2) by (simp add: store_ok_def concept_at_def)
    from decay_concept_ok [OF this inv(6,7)] have "memory_inv (f a m)"
      unfolding f_def by (intro write_concept_inv [OF Cons.prems(1)])
    from Cons.IH [OF this] Cons.prems(2) show ?case by (simp add: f_def)
  qed simp
  moreover have "\<forall>a \<in> set (listConcepts m). a < length (m_heap m)"
    using resident_at(2) [OF memory_invD(1) [OF assms]] by blast
  moreover have "decayAll cycles m = fold f (listConcepts m) m" by (simp add: decayAll_def f_def)
  ultimately show "memory_inv (decayAll cycles m)" "m_concepts (decayAll cycles m) = m_concepts m"
    "m_config (decayAll cycles m) = m_config m" "m_index (decayAll cycles m) = m_index m" using assms by simp_all
qed

lemma consolidate_inv:
  assumes "memory_inv m"
  shows "memory_inv (consolidate now m)" "m_config (consolidate now m) = m_config m"
    "memory_size (consolidate now m) \<le> memory_size m"
proof -
  define n where "n = perPart (real_of_int (m_cycles m + 1)) (real_of_int (mc_consolidationInterval (m_config m))) 1 floor"
  define m1 where "m1 = decayAll n (m\<lparr>m_cycles := 0\<rparr>)"
  have inv0: "memory_inv (m\<lparr>m_cycles := 0\<rparr>)" using assms by simp
  have inv1: "memory_inv m1" "m_concepts m1 = m_concepts m" "m_config m1 = m_config m"
    using decayAll_inv [OF inv0, of n] by (simp_all add: m1_def)
  obtain r m2 where e: "evictUnderPressure now m1 = (r, m2)" by (cases "evictUnderPressure now m1")
  have inv2: "memory_inv m2" "m_config m2 = m_config m" "memory_size m2 \<le> memory_size m"
    using evictUnderPressure_inv [OF inv1(1), of now] inv1 e by (simp_all add: memory_size_def)
  define m4 where "m4 = m2\<lparr>m_lastEviction := Some r, m_links := manager_applyDecay now (Some (mc_linkDecayRate (m_config m2))) (m_links m2)\<rparr>"
  have "manager_inv (m_links m4)"
    using memory_invD(5) [OF inv2(1)] each_layer_inv [OF _ inv_decay(1)] by (simp add: m4_def manager_applyDecay_def)
  then have "memory_inv ((m2\<lparr>m_lastEviction := Some r\<rparr>)\<lparr>m_links := m_links m4\<rparr>)"
    using inv2(1) by (intro links_change) simp_all
  then have inv4: "memory_inv m4" by (simp add: m4_def)
  have "consolidate now m = (if m_cycles m + 1 < mc_consolidationInterval (m_config m) then m\<lparr>m_cycles := m_cycles m + 1\<rparr> else updateAllFocus m4)"
    using e inv2(2) by (simp add: consolidate_def Let_def m4_def m1_def n_def)
  then show "memory_inv (consolidate now m)" "m_config (consolidate now m) = m_config m"
    "memory_size (consolidate now m) \<le> memory_size m"
    using assms updateAllFocus_inv [OF inv4] inv2(2,3) by (simp_all add: memory_size_def m4_def)
qed

lemma findOrphaned_spec:
  assumes "memory_inv m"
  shows "memory_inv (snd (findOrphanedLinks now as m))" "set (fst (findOrphanedLinks now as m)) \<subseteq> set as"
    "m_concepts (snd (findOrphanedLinks now as m)) = m_concepts m" "m_config (snd (findOrphanedLinks now as m)) = m_config m"
    "m_heap (snd (findOrphanedLinks now as m)) = m_heap m" "m_index (snd (findOrphanedLinks now as m)) = m_index m"
proof -
  have "memory_inv (snd (findOrphanedLinks now as m)) \<and> set (fst (findOrphanedLinks now as m)) \<subseteq> set as
    \<and> m_concepts (snd (findOrphanedLinks now as m)) = m_concepts m \<and> m_config (snd (findOrphanedLinks now as m)) = m_config m
    \<and> m_heap (snd (findOrphanedLinks now as m)) = m_heap m \<and> m_index (snd (findOrphanedLinks now as m)) = m_index m"
    using assms
  proof (induction as arbitrary: m)
    case (Cons a as)
    obtain links lm where g: "getLinks now (cc_term (concept_at m a)) None ANY_LINK (m_links m) = (links, lm)"
      by (cases "getLinks now (cc_term (concept_at m a)) None ANY_LINK (m_links m)")
    have "manager_inv lm"
      using getLinks_inv [OF memory_invD(5) [OF Cons.prems], of now "cc_term (concept_at m a)" None ANY_LINK] g by simp
    from Cons.IH [OF links_change [OF Cons.prems this]]
    obtain rest m' where r: "findOrphanedLinks now as (m\<lparr>m_links := lm\<rparr>) = (rest, m')" "memory_inv m'" "set rest \<subseteq> set as"
      "m_concepts m' = m_concepts m" "m_config m' = m_config m" "m_heap m' = m_heap m" "m_index m' = m_index m"
      by (cases "findOrphanedLinks now as (m\<lparr>m_links := lm\<rparr>)") auto
    then show ?case using g by auto
  qed simp
  then show "memory_inv (snd (findOrphanedLinks now as m))" "set (fst (findOrphanedLinks now as m)) \<subseteq> set as"
    "m_concepts (snd (findOrphanedLinks now as m)) = m_concepts m" "m_config (snd (findOrphanedLinks now as m)) = m_config m"
    "m_heap (snd (findOrphanedLinks now as m)) = m_heap m" "m_index (snd (findOrphanedLinks now as m)) = m_index m" by simp_all
qed

lemma shrinking: "memory_size (snd (count_done (remove_at now) as m)) \<le> memory_size m"
proof (induction as arbitrary: m)
  case (Cons a as)
  have "memory_size (snd (remove_at now a m)) \<le> memory_size m"
    by (simp add: remove_at_def memory_size_def removeConcept_concepts length_delete_le)
  moreover obtain ok m1 n m2 where "remove_at now a m = (ok, m1)" "count_done (remove_at now) as m1 = (n, m2)"
    by (metis prod.exhaust)
  ultimately show ?case using Cons.IH [of m1] by simp
qed simp

lemma compact_inv:
  assumes "memory_inv m"
  shows "memory_inv (compact now m)" "m_config (compact now m) = m_config m" "memory_size (compact now m) \<le> memory_size m"
proof -
  obtain orphans m1 where o: "findOrphanedLinks now (listConcepts m) m = (orphans, m1)" by (cases "findOrphanedLinks now (listConcepts m) m")
  note spec = findOrphaned_spec [OF assms, of now "listConcepts m", unfolded o fst_conv snd_conv]
  define drained where "drained = sortBy (filter (\<lambda>a. cc_priority (concept_at m a) < 1 / 10 \<and> totalTasks (concept_at m a) = 0) (listConcepts m))
    (\<lambda>a. cc_priority (concept_at m a))"
  define victims where "victims = shareOf (drained @ orphans) (1 / 10) 0 (real (memory_size m1))"
  have "set drained \<subseteq> set (listConcepts m)"
    unfolding drained_def set_sortBy by auto
  then have "set victims \<subseteq> set (listConcepts m)"
    using shareOf_subset [of "drained @ orphans" "1 / 10" 0 "real (memory_size m1)"] spec(2) by (auto simp: victims_def)
  then have "\<forall>a \<in> set victims. a < length (m_heap m1)"
    using resident_at(2) [OF memory_invD(1) [OF assms]] spec(5) by auto
  note inv = removing.shed_inv [OF spec(1) this, of now]
  have c: "compact now m = updateAllFocus (snd (count_done (remove_at now) victims m1))"
    using o by (simp add: compact_def Let_def victims_def drained_def)
  show "memory_inv (compact now m)" unfolding c by (rule updateAllFocus_inv [OF inv])
  show "m_config (compact now m) = m_config m" using removing.shed_frame [of now victims m1] spec(4) by (simp add: c)
  show "memory_size (compact now m) \<le> memory_size m"
    using shrinking [of now victims m1] spec(3) by (simp add: c memory_size_def)
qed

section \<open>Any sequence of operations\<close>

datatype memoryOp =
  AdmitTerm admission narTerm
  | AdmitTask admission narTerm taskType "truth option" taskWeight "stamp option"
  | RemoveTerm real narTerm
  | ArchiveTerm real narTerm
  | Retrieve real narTerm
  | LinkTerms real real narTerm narTerm "linkType option" "real option"
  | Related real narTerm int
  | AttendTerm narTerm attentionEvent
  | Clusters real nat real
  | SetModel attentionModel
  | Consolidate real
  | Compact real
  | ClearAll real

text \<open>Merging is left out, which files a concept's beliefs a second time, and so is a change of the
  configuration under the running store. The code's callers pass the concepts they read off the store.\<close>

fun memory_step :: "memory \<Rightarrow> memoryOp \<Rightarrow> memory" where
  "memory_step m (AdmitTerm ad t) = snd (addConcept ad t m)"
| "memory_step m (AdmitTask ad t typ tr budget st) = snd (memory_addTask ad t typ tr budget st m)"
| "memory_step m (RemoveTerm now t) = snd (removeConcept now t m)"
| "memory_step m (ArchiveTerm now t) = (case getConcept t m of None \<Rightarrow> m | Some a \<Rightarrow> snd (archiveConcept now a m))"
| "memory_step m (Retrieve now t) = snd (retrieveFromArchive now t m)"
| "memory_step m (LinkTerms now r s t ty p) = m\<lparr>m_links := snd (manager_addLink now r s t None ty p (m_links m))\<rparr>"
| "memory_step m (memoryOp.Related now t limit) = snd (getRelatedConcepts now t limit m)"
| "memory_step m (AttendTerm t event) = (case getConcept t m of None \<Rightarrow> m | Some a \<Rightarrow> attend a event m)"
| "memory_step m (Clusters now n strength) = snd (findDenseClusters now n strength m)"
| "memory_step m (SetModel model) = setAttentionModel model m"
| "memory_step m (Consolidate now) = consolidate now m"
| "memory_step m (Compact now) = compact now m"
| "memory_step m (ClearAll now) = clear_memory now m"

fun memory_op_ok :: "memoryOp \<Rightarrow> bool" where
  "memory_op_ok (AdmitTask ad t typ tr budget st) = (0 \<le> w_priority budget)"
| "memory_op_ok (LinkTerms now r s t ty p) = (0 \<le> r \<and> r < 1)"
| "memory_op_ok (AttendTerm t event) = event_ok event"
| "memory_op_ok (SetModel model) = model_ok model"
| "memory_op_ok _ = True"

fun isRetrieve :: "memoryOp \<Rightarrow> bool" where
  "isRetrieve (Retrieve now t) = True"
| "isRetrieve _ = False"

lemma getRelated_spec:
  assumes "memory_inv m"
  shows "\<exists>lm. manager_inv lm \<and> snd (getRelatedConcepts now t limit m) = m\<lparr>m_links := lm\<rparr>"
proof (cases "getConcept t m")
  case None
  then show ?thesis using memory_invD(5) [OF assms] by (intro exI [of _ "m_links m"]) (simp add: getRelatedConcepts_def)
next
  case (Some a)
  let ?q = "\<lparr>lq_type = None, lq_minPriority = None, lq_maxResults = Some limit\<rparr>"
  show ?thesis using Some getLinks_inv [OF memory_invD(5) [OF assms], of now t None ?q]
    by (intro exI [of _ "snd (getLinks now t None ?q (m_links m))"]) (simp add: getRelatedConcepts_def case_prod_unfold Let_def)
qed

lemma bfsCluster_links:
  "manager_inv (m_links m) \<Longrightarrow> \<exists>lm. manager_inv lm \<and> snd (snd (bfsCluster now s visited queue cluster m)) = m\<lparr>m_links := lm\<rparr>"
proof (induction now s visited queue cluster m rule: bfsCluster.induct)
  case (1 now s visited cluster m)
  then show ?case by (intro exI [of _ "m_links m"]) simp
next
  case (2 now s visited a queue cluster m)
  obtain links lm where g: "getLinks now (cc_term (concept_at m a)) None ANY_LINK (m_links m) = (links, lm)"
    by (cases "getLinks now (cc_term (concept_at m a)) None ANY_LINK (m_links m)")
  obtain v q where f: "follow_links s m links visited queue = (v, q)" by (cases "follow_links s m links visited queue")
  have "manager_inv (m_links (m\<lparr>m_links := lm\<rparr>))"
    using getLinks_inv [OF 2(2), of now "cc_term (concept_at m a)" None ANY_LINK] g by simp
  from 2(1) [OF g [symmetric] f [symmetric] this] show ?case by (auto simp: g f)
qed

lemma clusters_links:
  "manager_inv (m_links m) \<Longrightarrow> \<exists>lm. manager_inv lm \<and> snd (clusters_from now n s as visited m) = m\<lparr>m_links := lm\<rparr>"
proof (induction as arbitrary: visited m)
  case Nil
  then show ?case by (intro exI [of _ "m_links m"]) simp
next
  case (Cons a as)
  define key where "key = termKey (cc_term (concept_at m a))"
  show ?case
  proof (cases "key \<in> set visited")
    case True
    then show ?thesis using Cons by (simp add: key_def)
  next
    case False
    obtain c v m1 where b: "bfsCluster now s (key # visited) [a] [] m = (c, v, m1)" by (metis prod_cases3)
    obtain lm where lm: "manager_inv lm" "m1 = m\<lparr>m_links := lm\<rparr>"
      using bfsCluster_links [OF Cons.prems, of now s "key # visited" "[a]" "[]"] b by auto
    have "manager_inv (m_links m1)" using lm by simp
    from Cons.IH [OF this, of v] obtain lm' where "manager_inv lm'" "snd (clusters_from now n s as v m1) = m1\<lparr>m_links := lm'\<rparr>" by blast
    moreover obtain rest m2 where "clusters_from now n s as v m1 = (rest, m2)" by (cases "clusters_from now n s as v m1")
    ultimately show ?thesis using False b lm(2)
      by (intro exI [of _ lm']) (simp add: key_def [symmetric] Let_def del: bfsCluster.simps)
  qed
qed

lemma memory_step_spec:
  assumes "memory_inv m" "memory_op_ok op"
  shows "memory_inv (memory_step m op) \<and> m_config (memory_step m op) = m_config m
    \<and> int (memory_size (memory_step m op)) \<le> max (max 1 (mc_maxConcepts (m_config m))) (int (memory_size m)) + (if isRetrieve op then 1 else 0)"
proof (cases op)
  case (AdmitTerm ad t)
  then show ?thesis using addConcept_spec [OF assms(1), of ad t] by simp
next
  case (AdmitTask ad t ty tr budget st)
  then show ?thesis
    using addConcept_spec [OF assms(1), of ad t] memory_addTask_spec [OF assms(1), of budget ad t ty tr st] assms(2)
    by (simp add: memory_size_def)
next
  case (RemoveTerm now t)
  then show ?thesis using removeConcept_inv [OF assms(1), of now t] length_delete_le [of "termKey t" "m_concepts m"]
    by (simp add: memory_size_def removeConcept_concepts)
next
  case (ArchiveTerm now t)
  show ?thesis
  proof (cases "getConcept t m")
    case (Some a)
    then show ?thesis
      using archiveConcept_inv [OF assms(1) getConcept_found(1) [OF memory_invD(1) [OF assms(1)] Some], of now]
        length_delete_le [of "termKey (cc_term (concept_at m a))" "m_concepts m"]
      by (simp add: ArchiveTerm memory_size_def archiveConcept_concepts le_max_iff_disj)
  qed (simp add: ArchiveTerm assms)
next
  case (Retrieve now t)
  then show ?thesis using retrieve_inv [OF assms(1), of now t] by simp
next
  case (LinkTerms now r s t ty p)
  then show ?thesis
    using links_change [OF assms(1) manager_addLink_inv [OF memory_invD(5) [OF assms(1)]], of r now s t None ty p] assms(2)
    by (simp add: memory_size_def)
next
  case (Related now t limit)
  obtain lm where "manager_inv lm" "snd (getRelatedConcepts now t limit m) = m\<lparr>m_links := lm\<rparr>"
    using getRelated_spec [OF assms(1)] by blast
  then show ?thesis using links_change [OF assms(1)] by (simp add: Related memory_size_def)
next
  case (AttendTerm t event)
  show ?thesis
  proof (cases "getConcept t m")
    case (Some a)
    have "memory_inv (attend a event m)"
      unfolding attend_def
      using writeAttention_ok [OF getConcept_found(3) [OF memory_invD(1) [OF assms(1)] Some], of event] assms(2)
      by (intro write_concept_inv [OF assms(1)]) (simp_all add: AttendTerm)
    then show ?thesis using Some by (simp add: AttendTerm attend_def memory_size_def)
  qed (simp add: AttendTerm assms)
next
  case (Clusters now n strength)
  obtain lm where "manager_inv lm" "snd (findDenseClusters now n strength m) = m\<lparr>m_links := lm\<rparr>"
    using clusters_links [OF memory_invD(5) [OF assms(1)]] unfolding findDenseClusters_def by blast
  then show ?thesis using links_change [OF assms(1)] by (simp add: Clusters memory_size_def)
next
  case (SetModel model)
  then show ?thesis using assms
    by (simp add: setAttentionModel_def memory_size_def memory_inv_def store_ok_def focus_ok_def archive_ok_def log_ok_def concept_at_def)
next
  case (Consolidate now)
  then show ?thesis using consolidate_inv [OF assms(1), of now] by simp
next
  case (Compact now)
  then show ?thesis using compact_inv [OF assms(1), of now] by simp
next
  case (ClearAll now)
  then show ?thesis using clear_inv [OF assms(1), of now] by (simp add: memory_size_def)
qed

lemma memory_steps:
  assumes "memory_inv m" "list_all memory_op_ok ops"
  shows "memory_inv (foldl memory_step m ops) \<and> m_config (foldl memory_step m ops) = m_config m
    \<and> int (memory_size (foldl memory_step m ops))
        \<le> max (max 1 (mc_maxConcepts (m_config m))) (int (memory_size m)) + int (length (filter isRetrieve ops))"
  using assms
proof (induction ops arbitrary: m)
  case (Cons op ops)
  have "memory_op_ok op" "list_all memory_op_ok ops" using Cons.prems(2) by simp_all
  note step = memory_step_spec [OF Cons.prems(1) this(1)]
  from Cons.IH [OF conjunct1 [OF step] \<open>list_all memory_op_ok ops\<close>] step show ?case by (auto split: if_splits)
qed simp

lemma newLinkManager_inv: "manager_inv (newLinkManager capacity layers rate policy)"
proof -
  have "manager_inv m \<Longrightarrow> manager_inv (fold (\<lambda>(name, capacity) m. snd (registerLayer name capacity m)) layers m)"
    for m :: "'a linkManager"
  proof (induction layers arbitrary: m)
    case (Cons p layers)
    then show ?case using registerLayer_inv(1) [OF Cons.prems] by (simp add: case_prod_unfold)
  qed simp
  then show ?thesis by (simp add: newLinkManager_def manager_inv_def)
qed

lemma newMemory_inv:
  assumes "model_ok model" "0 \<le> mc_activationDecayRate config"
  shows "memory_inv (newMemory config model)"
  using assms
  by (simp add: memory_inv_def newMemory_def newLinkManager_inv le_max_iff_disj store_ok_def focus_ok_def archive_ok_def log_ok_def newLruCache_def ring_inv_def
      ring_size_def REVISION_LOG_CAP_def bm_inv_def newBoundedMap_def bm_size_def boundedMap.extend_def)

text \<open>C18: the memory stays consistent and bounded. Whatever is admitted with a priority that is
  not negative, linked with a reciprocal factor from 0 up to but not 1, decayed at a rate that is not
  negative, archived, retrieved, evicted and removed, and whatever attention model with weights that
  are not negative is set, the store holds at most one
  concept per term, looking up a concept's term finds that concept, every concept keeps its own
  invariant, and the focus is a part of the store within its bound. The store exceeds its capacity
  by at most the concepts retrieved from the archive, and the revision log holds at most a thousand
  entries at strictly increasing times.\<close>

theorem memory_keeps_invariant:
  assumes "model_ok model" "0 \<le> mc_activationDecayRate config" "list_all memory_op_ok ops"
  shows "let m = foldl memory_step (newMemory config model) ops
    in distinct (map (termKey \<circ> cc_term) (residents m))
       \<and> list_all (\<lambda>a. getConcept (cc_term (concept_at m a)) m = Some a) (listConcepts m)
       \<and> list_all concept_ok (residents m)
       \<and> set (m_focus m) \<subseteq> set (m_concepts m) \<and> int (length (m_focus m)) \<le> max 0 (m_focusMax m)
       \<and> int (memory_size m) \<le> max 1 (mc_maxConcepts config) + int (length (filter isRetrieve ops))
       \<and> int (length (ring_items (m_revisionLog m))) \<le> REVISION_LOG_CAP
       \<and> sorted_wrt (<) (map rv_timestamp (ring_items (m_revisionLog m)))"
proof -
  define m where "m = foldl memory_step (newMemory config model) ops"
  have start: "m_config (newMemory config model) = config" "memory_size (newMemory config model) = 0"
    by (simp_all add: newMemory_def memory_size_def)
  note steps = memory_steps [OF newMemory_inv [OF assms(1,2)] assms(3), folded m_def, unfolded start]
  note inv = memory_invD [OF conjunct1 [OF steps]]
  have "map (termKey \<circ> cc_term) (residents m) = okeys (m_concepts m)"
    using resident(2) [OF inv(1)] by (auto simp: residents_def listConcepts_def)
  then have "distinct (map (termKey \<circ> cc_term) (residents m))" using inv(1) by (simp add: store_ok_def)
  moreover have "list_all (\<lambda>a. getConcept (cc_term (concept_at m a)) m = Some a) (listConcepts m)"
    using getConcept_own [OF inv(1)] by (simp add: list_all_iff)
  moreover have "list_all concept_ok (residents m)"
    using resident_at(3) [OF inv(1)] by (auto simp: list_all_iff residents_def)
  moreover have "set (m_focus m) \<subseteq> set (m_concepts m) \<and> int (length (m_focus m)) \<le> max 0 (m_focusMax m)"
    using inv(2) by (simp add: focus_ok_def)
  moreover have "int (memory_size m) \<le> max 1 (mc_maxConcepts config) + int (length (filter isRetrieve ops))" using steps by auto
  moreover have "int (length (ring_items (m_revisionLog m))) \<le> REVISION_LOG_CAP"
    "sorted_wrt (<) (map rv_timestamp (ring_items (m_revisionLog m)))"
    using inv(4) by (auto simp: log_ok_def ring_inv_def ring_size_def)
  ultimately show ?thesis by (simp add: m_def Let_def)
qed

text \<open>C19: what an eviction pass reports is what it did. Every concept that left is counted once, as
  archived or as forgotten; the pass says so exactly when the store shrank, and at or below the
  archive rung nothing changes. Up to the critical rung nothing is forgotten, and what leaves holds no
  task and is worth no more than any idle concept that stays; the forgotten that held tasks are counted.\<close>

theorem eviction_accounts:
  assumes "memory_inv m" "evictUnderPressure now m = (r, m')"
  shows "let p = capacityPressure m; left' = filter (\<lambda>a. a \<notin> set (listConcepts m')) (listConcepts m)
    in er_archived r + er_forgotten r + memory_size m' = memory_size m \<and> er_candidates r = memory_size m
       \<and> er_reason r = (if p \<le> PRESSURE_ARCHIVE then WithinCapacity else if memory_size m' < memory_size m then Evicted else Exhausted)
       \<and> (if p \<le> PRESSURE_ARCHIVE then m_concepts m' = m_concepts m else True)
       \<and> (if p \<le> PRESSURE_CRITICAL
          then er_forgotten r = 0
            \<and> list_all (\<lambda>a. totalTasks (concept_at m a) = 0
                \<and> list_all (\<lambda>b. totalTasks (concept_at m b) = 0 \<longrightarrow> conceptValue (concept_at m a) \<le> conceptValue (concept_at m b))
                    (listConcepts m')) left'
          else True)
       \<and> er_taskHolders r = length (filter (\<lambda>a. totalTasks (concept_at m a) > 0) left')"
proof -
  note store = memory_invD(1) [OF assms(1)]
  obtain A V where sh: "distinct (A @ V)" "set (A @ V) \<subseteq> set (listConcepts m)"
    "m_concepts m' = filter (\<lambda>(k, b). b \<notin> set (A @ V)) (m_concepts m)"
    "er_archived r = length A" "er_forgotten r = length V"
    "er_taskHolders r = length (filter (\<lambda>a. totalTasks (concept_at m a) > 0) V)" "er_candidates r = memory_size m"
    "er_reason r = (if capacityPressure m \<le> PRESSURE_ARCHIVE then WithinCapacity
                    else if length A + length V > 0 then Evicted else Exhausted)"
    "capacityPressure m \<le> PRESSURE_CRITICAL \<Longrightarrow> V = []" "capacityPressure m \<le> PRESSURE_ARCHIVE \<Longrightarrow> A = [] \<and> V = []"
    "set A \<subseteq> set (to_archive m)"
    "\<not> capacityPressure m \<le> PRESSURE_ARCHIVE \<Longrightarrow> mc_enableArchive (m_config m) \<Longrightarrow> A = to_archive m"
    "\<not> mc_enableArchive (m_config m) \<Longrightarrow> A = []"
    by (rule evict_shape [OF assms]) blast
  have "memory_size m' + length (A @ V) = memory_size m"
    unfolding memory_size_def sh(3)
    using length_shed [of "m_concepts m" "A @ V"] listConcepts_distinct [OF store] sh(1,2) by (simp add: listConcepts_def)
  then have count: "er_archived r + er_forgotten r + memory_size m' = memory_size m" using sh(4,5) by simp
  have kept: "set (listConcepts m') = set (listConcepts m) - set (A @ V)" by (rule listConcepts_kept [OF sh(3)])
  define left' where "left' = filter (\<lambda>a. a \<notin> set (listConcepts m')) (listConcepts m)"
  have left: "set left' = set (A @ V)" "distinct left'"
    using sh(2) kept listConcepts_distinct [OF store] by (auto simp: left'_def)
  have idle: "totalTasks (concept_at m a) = 0" if "a \<in> set A" for a
    using that sh(11) to_archive_spec(2) [OF store] idle_order_spec(2) [OF store] by auto
  have "set (filter (\<lambda>a. totalTasks (concept_at m a) > 0) left') = set (filter (\<lambda>a. totalTasks (concept_at m a) > 0) V)"
    using idle left(1) by auto
  then have holders: "length (filter (\<lambda>a. totalTasks (concept_at m a) > 0) left') = length (filter (\<lambda>a. totalTasks (concept_at m a) > 0) V)"
    using left(2) sh(1) by (metis distinct_append distinct_card distinct_filter)
  have cheap: "conceptValue (concept_at m a) \<le> conceptValue (concept_at m b)"
    if "a \<in> set A" "b \<in> set (listConcepts m')" "totalTasks (concept_at m b) = 0" for a b
  proof -
    obtain n where n: "to_archive m = take n (idle_order m)" using to_archive_take by blast
    have "A = to_archive m" using that(1) sh(10,12,13) by fastforce
    then have "b \<in> set (idle_order m)" "b \<notin> set (take n (idle_order m))" "a \<in> set (take n (idle_order m))"
      using that kept idle_order_spec(2) [OF store] n by auto
    from taken_first [OF idle_order_spec(3,1) [OF store] this(3,1,2)] show ?thesis .
  qed
  show ?thesis
    unfolding Let_def left'_def [symmetric]
  proof (intro conjI)
    show "if capacityPressure m \<le> PRESSURE_ARCHIVE then m_concepts m' = m_concepts m else True"
      using sh(3,10) by (simp add: case_prod_unfold)
    show "if capacityPressure m \<le> PRESSURE_CRITICAL
      then er_forgotten r = 0
        \<and> list_all (\<lambda>a. totalTasks (concept_at m a) = 0
            \<and> list_all (\<lambda>b. totalTasks (concept_at m b) = 0 \<longrightarrow> conceptValue (concept_at m a) \<le> conceptValue (concept_at m b))
                (listConcepts m')) left'
      else True"
      using sh(5,9) left(1) idle cheap by (auto simp: list_all_iff)
    show "er_reason r = (if capacityPressure m \<le> PRESSURE_ARCHIVE then WithinCapacity else if memory_size m' < memory_size m then Evicted else Exhausted)"
    proof -
      have "memory_size m' < memory_size m \<longleftrightarrow> 0 < length A + length V" using sh(4,5) count by linarith
      then show ?thesis by (simp only: sh(8))
    qed
  qed (use count sh(6,7) holders in simp_all)
qed

section \<open>Examples\<close>

definition admissionAt :: "real \<Rightarrow> admission" where
  "admissionAt now =
     \<lparr>ad_now = now, ad_bagIds = (''b'', ''g'', ''q''), ad_entryId = ''e'',
      ad_stamp = \<lparr>stampId = ''1'', creationTime = 0, source = INPUT, derivations = []\<rparr>\<rparr>"

definition exampleStore :: "int \<Rightarrow> bool \<Rightarrow> string list \<Rightarrow> memory" where
  "exampleStore capacity archiving symbols =
     foldl memory_step (newMemory (DEFAULT_MEMORY_CONFIG\<lparr>mc_maxConcepts := capacity, mc_enableArchive := archiving\<rparr>) NullAttention)
       (map (\<lambda>symbol. AdmitTerm (admissionAt 0) (Atom symbol)) symbols)"

lemma exampleStore_inv: "memory_inv (exampleStore capacity archiving symbols)"
  unfolding exampleStore_def
  by (rule memory_steps [THEN conjunct1]) (auto simp: newMemory_inv DEFAULT_MEMORY_CONFIG_def list_all_iff)

theorem memory_keeps_invariant_witness:
  "int (memory_size (foldl memory_step (newMemory DEFAULT_MEMORY_CONFIG (SimpleAttention (3 / 10)))
     [AdmitTerm (admissionAt 0) (Atom ''a''), Consolidate 1, Retrieve 2 (Atom ''a'')])) \<le> 1001"
  using memory_keeps_invariant [of "SimpleAttention (3 / 10)" DEFAULT_MEMORY_CONFIG
      "[AdmitTerm (admissionAt 0) (Atom ''a''), Consolidate 1, Retrieve 2 (Atom ''a'')]"]
  unfolding Let_def by (simp add: DEFAULT_MEMORY_CONFIG_def)

theorem eviction_accounts_witness:
  "er_archived (fst (evictUnderPressure 1 (exampleStore 1 True [''a'']))) + er_forgotten (fst (evictUnderPressure 1 (exampleStore 1 True [''a''])))
     + memory_size (snd (evictUnderPressure 1 (exampleStore 1 True [''a'']))) = memory_size (exampleStore 1 True [''a''])"
  using eviction_accounts [OF exampleStore_inv [of 1 True "[''a'']"] prod.collapse [symmetric], of 1]
  unfolding Let_def by simp

lemma to_archive_some:
  assumes "idle_order m = a # rest" "PRESSURE_ARCHIVE < capacityPressure m"
  shows "a \<in> set (to_archive m)"
proof -
  define x where "x = min ARCHIVE_SHARE (capacityPressure m - PRESSURE_NEUTRAL)"
  have "0 < x" using assms(2) by (simp add: x_def ARCHIVE_SHARE_def PRESSURE_ARCHIVE_def PRESSURE_NEUTRAL_def)
  define k where "k = \<lceil>real (length (a # rest)) * x\<rceil>"
  have "1 \<le> k" using \<open>0 < x\<close> by (simp add: k_def one_le_ceiling)
  have "to_archive m = take (nat (max 0 (min (int (length (a # rest))) (max 0 k)))) (a # rest)"
    using assms(1) by (simp add: to_archive_def shareOf_def shareCount_def Let_def k_def x_def)
  moreover have "0 < nat (max 0 (min (int (length (a # rest))) (max 0 k)))" using \<open>1 \<le> k\<close> by simp
  ultimately show ?thesis by (simp add: take_Cons')
qed

text \<open>C23: without an archive, eviction under pressure spares the least valuable. A memory that keeps
  no archive takes nothing out in the first stage, but the second leaves out of its candidates what
  the first was offered: the idle concept worth least outlives every pass, at any pressure, whatever
  else is forgotten in its place.\<close>

theorem eviction_spares_least:
  assumes "memory_inv m" "\<not> mc_enableArchive (m_config m)" "PRESSURE_ARCHIVE < capacityPressure m"
    and "idle_order m = a # rest" "evictUnderPressure now m = (r, m')"
  shows "list_all (\<lambda>b. conceptValue (concept_at m a) \<le> conceptValue (concept_at m b)) rest
    \<and> getConcept (cc_term (concept_at m a)) m' = Some a \<and> er_archived r = 0"
proof -
  note store = memory_invD(1) [OF assms(1)]
  obtain A V where sh: "m_concepts m' = filter (\<lambda>(k, b). b \<notin> set (A @ V)) (m_concepts m)"
    "m_heap m' = m_heap m" "memory_inv m'" "er_archived r = length A"
    "\<not> mc_enableArchive (m_config m) \<Longrightarrow> A = []" "set V \<inter> set (to_archive m) = {}"
    by (rule evict_shape [OF assms(1,5)]) blast
  have "a \<in> set (to_archive m)" by (rule to_archive_some [OF assms(4,3)])
  then have "a \<in> set (listConcepts m')"
    using sh(5,6) assms(2) to_archive_spec(3) [OF store] listConcepts_kept [OF sh(1)] by auto
  moreover have "concept_at m' = concept_at m" using sh(2) by (simp add: concept_at_def fun_eq_iff)
  ultimately have "getConcept (cc_term (concept_at m a)) m' = Some a" using getConcept_own [OF memory_invD(1) [OF sh(3)], of a] by simp
  then show ?thesis using idle_order_spec(3) [OF store] assms(2,4) sh(4,5) by (simp add: list_all_iff)
qed

lemma exampleStore_one:
  "m_concepts (exampleStore 1 False [''a'']) = [(termKey (Atom ''a''), 0)]"
  "m_heap (exampleStore 1 False [''a'']) = [newConcept 0 ''b'' ''g'' ''q'' (Atom ''a'') (mc_bag DEFAULT_MEMORY_CONFIG)]"
  "m_config (exampleStore 1 False [''a'']) = DEFAULT_MEMORY_CONFIG\<lparr>mc_maxConcepts := 1, mc_enableArchive := False\<rparr>"
  by (simp_all add: exampleStore_def addConcept_def newMemory_def getConcept_def memory_size_def admissionAt_def
      adoptConcept_concepts concept_at_def newConcept_def DEFAULT_MEMORY_CONFIG_def Let_def)

theorem eviction_spares_least_witness:
  "getConcept (Atom ''a'') (snd (evictUnderPressure 1 (exampleStore 1 False [''a'']))) = Some 0"
proof -
  let ?m = "exampleStore 1 False [''a'']"
  have c: "concept_at ?m 0 = newConcept 0 ''b'' ''g'' ''q'' (Atom ''a'') (mc_bag DEFAULT_MEMORY_CONFIG)"
    by (simp add: concept_at_def exampleStore_one)
  have "totalTasks (concept_at ?m 0) = 0"
    by (simp add: c newConcept_def totalTasks_def bag_size_def concept_bag_def newBag_def)
  then have "idle_order ?m = [0]" "PRESSURE_ARCHIVE < capacityPressure ?m"
    by (simp_all add: idle_order_def listConcepts_def exampleStore_one sortBy_eq capacityPressure_def pressureBreakdown_def
        storePressure_def tallyConcepts_def residents_def occupancy_def clamp01_def DEFAULT_MEMORY_CONFIG_def PRESSURE_ARCHIVE_def)
  from eviction_spares_least [OF exampleStore_inv _ this(2,1) prod.collapse [symmetric]]
  show ?thesis by (simp add: c exampleStore_one) (simp add: newConcept_def)
qed

end
