(* ===== verification/Memory_Index.thy ===== *)
theory Memory_Index
  imports Memory_Inv
begin

text \<open>
  The symbol index of the memory against its store: exact while no concept is retrieved over a live
  one of its term, and stale afterwards. Links read backwards.
\<close>

section \<open>The symbol index\<close>

definition index_ok :: "memory \<Rightarrow> bool" where
  "index_ok m \<longleftrightarrow> mc_enableIndexing (m_config m) \<and> ix_enabled (m_index m) \<and> wf_omap (ix_atomic (m_index m))
     \<and> (\<forall>key. bucket_of (ix_atomic (m_index m)) key = set_option (map_of (m_concepts m) key))"

lemma index_ok_cong:
  "m_config m' = m_config m \<Longrightarrow> m_index m' = m_index m \<Longrightarrow> m_concepts m' = m_concepts m \<Longrightarrow> index_ok m' = index_ok m"
  by (simp add: index_ok_def)

lemma index_remove_fields [simp]:
  "ix_enabled (index_remove key a ix) = ix_enabled ix"
  "ix_enabled ix \<Longrightarrow> ix_atomic (index_remove key a ix) = removeFromSet (ix_atomic ix) key a"
  by (simp_all add: index_remove_def Let_def split: option.split)

lemma index_add_fields [simp]:
  "ix_enabled (index_add now key a ix) = ix_enabled ix"
  "ix_enabled ix \<Longrightarrow> ix_atomic (index_add now key a ix) = addToSet (ix_atomic ix) key a"
  by (simp_all add: index_add_def Let_def)

lemma removeConcept_indexed:
  assumes "store_ok m" "index_ok m"
  shows "index_ok (snd (removeConcept now t m))"
proof (cases "getConcept t m")
  case None
  then show ?thesis using assms(2) by (simp add: removeConcept_absent)
next
  case (Some a)
  have key: "termKey (cc_term (concept_at m a)) = termKey t"
    using getConcept_found(2) [OF assms(1) Some] .
  have ix: "m_index (snd (removeConcept now t m)) = index_remove (termKey t) a (m_index m)"
    using assms(2) Some key by (simp add: removeConcept_def index_ok_def Let_def)
  show ?thesis
    using assms(2) Some
    by (auto simp: index_ok_def ix removeConcept_concepts getConcept_def delete_conv')
qed

lemma adoptConcept_indexed:
  assumes "index_ok m" "map_of (m_concepts m) (termKey (cc_term (concept_at m a))) = None"
  shows "index_ok (adoptConcept now a m)"
proof -
  have "m_index (adoptConcept now a m) = index_add now (termKey (cc_term (concept_at m a))) a (m_index m)"
    using assms(1) by (simp add: adoptConcept_def index_ok_def Let_def)
  then show ?thesis using assms by (auto simp: index_ok_def adoptConcept_concepts update_conv')
qed

lemma addConcept_indexed:
  assumes "memory_inv m" "index_ok m"
  shows "index_ok (snd (addConcept ad t m))"
proof (cases "getConcept t m")
  case (Some a)
  then show ?thesis using assms(2) by (simp add: addConcept_def)
next
  case None
  obtain b g q where ids: "ad_bagIds ad = (b, g, q)" by (cases "ad_bagIds ad")
  define m1 where "m1 = (if int (memory_size m) \<ge> mc_maxConcepts (m_config m) then applyForgetting (ad_now ad) m else m)"
  have "index_ok (applyForgetting now m)" "map_of (m_concepts (applyForgetting now m)) (termKey t) = None" for now
    using removeConcept_indexed [OF memory_invD(1) [OF assms(1)] assms(2)] None assms(2)
    by (auto simp: applyForgetting_def removeConcept_concepts getConcept_def delete_conv' split: option.split)
  then have m1: "index_ok m1" "map_of (m_concepts m1) (termKey t) = None"
    using assms(2) None by (simp_all add: m1_def getConcept_def)
  define m2 where "m2 = m1\<lparr>m_heap := m_heap m1 @ [newConcept (ad_now ad) b g q t (mc_bag (m_config m1))]\<rparr>"
  have "cc_term (concept_at m2 (length (m_heap m1))) = t" by (simp add: m2_def concept_at_def newConcept_def)
  then have "index_ok (adoptConcept (ad_now ad) (length (m_heap m1)) m2)"
    using m1 by (intro adoptConcept_indexed) (simp_all add: m2_def index_ok_def)
  moreover have "addConcept ad t m = (length (m_heap m1), adoptConcept (ad_now ad) (length (m_heap m1)) m2)"
    unfolding m2_def m1_def using addConcept_new [OF None ids] by (simp only: Let_def)
  ultimately show ?thesis by simp
qed

locale indexed_shedding = shedding +
  assumes keeps_index: "memory_inv m \<Longrightarrow> index_ok m \<Longrightarrow> index_ok (snd (oper a m))"
begin

lemma shed_indexed:
  assumes "memory_inv m" "index_ok m" "\<forall>a \<in> set as. a < length (m_heap m)"
  shows "index_ok (snd (count_done oper as m))"
  using assms
proof (induction as arbitrary: m)
  case (Cons a as)
  have "index_ok (snd (count_done oper as (snd (oper a m))))"
    using Cons.prems by (intro Cons.IH) (simp_all add: keeps_inv keeps_index same_heap)
  then show ?case by (simp split: prod.split) (metis snd_conv)
qed simp

end

lemma archiveConcept_indexed:
  assumes "store_ok m" "index_ok m"
  shows "index_ok (snd (archiveConcept now a m))"
proof (cases "mc_enableArchive (m_config m)")
  case True
  let ?m = "m\<lparr>m_archive := bm_set now 0 (m_archive m) (cc_term (concept_at m a)) a\<rparr>"
  have "store_ok ?m" "index_ok ?m"
    using assms by (simp_all add: store_ok_def index_ok_def concept_at_def)
  from removeConcept_indexed [OF this] True show ?thesis by (simp add: archiveConcept_def)
qed (simp add: archiveConcept_disabled assms)

interpretation indexed_removing: indexed_shedding "remove_at now" "\<lambda>_. True"
  by unfold_locales (simp add: remove_at_def removeConcept_indexed memory_invD(1))

interpretation indexed_archiving: indexed_shedding "archiveConcept now" "\<lambda>m. mc_enableArchive (m_config m)"
  by unfold_locales (simp add: archiveConcept_indexed memory_invD(1))

lemma addToFocus_indexed [simp]: "index_ok (addToFocus a m) = index_ok m"
  by (rule index_ok_cong) simp_all

lemma updateAllFocus_indexed [simp]: "index_ok (updateAllFocus m) = index_ok m"
  by (rule index_ok_cong) simp_all

lemma bookkeeping_indexed [simp]:
  "index_ok (m\<lparr>m_links := lm\<rparr>) = index_ok m" "index_ok (m\<lparr>m_lastEviction := r\<rparr>) = index_ok m"
  "index_ok (m\<lparr>m_cycles := n\<rparr>) = index_ok m" "index_ok (write_concept a c m) = index_ok m"
  "index_ok (m\<lparr>m_archive := ar\<rparr>) = index_ok m"
  by (rule index_ok_cong; simp)+

lemma evict_indexed:
  assumes "memory_inv m" "index_ok m"
  shows "index_ok (snd (evictUnderPressure now m))"
proof -
  note store = memory_invD(1) [OF assms(1)]
  obtain n m1 where r1: "count_done (archiveConcept now) (to_archive m) m = (n, m1)"
    by (cases "count_done (archiveConcept now) (to_archive m) m")
  define A where "A = (if mc_enableArchive (m_config m) then to_archive m else [])"
  note st1 = archive_stage [OF assms(1) r1 A_def]
  have "\<forall>a \<in> set (to_archive m). a < length (m_heap m)"
    using to_archive_spec(3) [OF store] resident_at(2) [OF store] by blast
  then have ix1: "index_ok m1" using indexed_archiving.shed_indexed [OF assms, of "to_archive m" now] r1 by simp
  define R where "R = forget_order (listConcepts m) (to_archive m) m1"
  define V where "V = shareOf R (min FORGET_SHARE (capacityPressure m - PRESSURE_ARCHIVE)) 0 (real (length R))"
  have "set V \<subseteq> set (listConcepts m)"
    using shareOf_subset [of R] mset_eq_setD [OF forget_order_mset [of "listConcepts m" "to_archive m" m1]]
    unfolding V_def R_def by fastforce
  then have "\<forall>a \<in> set V. a < length (m_heap m1)" using resident_at(2) [OF store] st1(4) by auto
  then have ix2: "index_ok (snd (count_done (remove_at now) V m1))"
    by (rule indexed_removing.shed_indexed [OF st1(3) ix1])
  have "snd (evictUnderPressure now m)
      = (if capacityPressure m \<le> PRESSURE_ARCHIVE then m
         else if capacityPressure m \<le> PRESSURE_CRITICAL then m1 else snd (count_done (remove_at now) V m1))"
    by (simp add: evictUnderPressure_def r1 V_def R_def Let_def split: prod.split)
  then show ?thesis using assms(2) ix1 ix2 by simp
qed

lemma consolidate_indexed:
  assumes "memory_inv m" "index_ok m"
  shows "index_ok (consolidate now m)"
proof -
  define n where "n = perPart (real_of_int (m_cycles m + 1)) (real_of_int (mc_consolidationInterval (m_config m))) 1 floor"
  define m1 where "m1 = decayAll n (m\<lparr>m_cycles := 0\<rparr>)"
  have inv0: "memory_inv (m\<lparr>m_cycles := 0\<rparr>)" using assms(1) by simp
  have "index_ok m1" using decayAll_inv [OF inv0, of n] assms(2) unfolding m1_def index_ok_def by simp
  from evict_indexed [OF _ this, of now] decayAll_inv(1) [OF inv0, of n]
  have "index_ok (snd (evictUnderPressure now m1))" by (simp add: m1_def)
  then show ?thesis using assms(2) by (simp add: consolidate_def Let_def m1_def n_def split: prod.split) (metis snd_conv)
qed

lemma compact_indexed:
  assumes "memory_inv m" "index_ok m"
  shows "index_ok (compact now m)"
proof -
  obtain orphans m1 where o: "findOrphanedLinks now (listConcepts m) m = (orphans, m1)" by (cases "findOrphanedLinks now (listConcepts m) m")
  note spec = findOrphaned_spec [OF assms(1), of now "listConcepts m", unfolded o fst_conv snd_conv]
  define drained where "drained = sortBy (filter (\<lambda>a. cc_priority (concept_at m a) < 1 / 10 \<and> totalTasks (concept_at m a) = 0) (listConcepts m))
    (\<lambda>a. cc_priority (concept_at m a))"
  define victims where "victims = shareOf (drained @ orphans) (1 / 10) 0 (real (memory_size m1))"
  have "set victims \<subseteq> set (listConcepts m)"
    using shareOf_subset [of "drained @ orphans" "1 / 10" 0 "real (memory_size m1)"] spec(2)
    by (auto simp: victims_def drained_def set_sortBy)
  then have "\<forall>a \<in> set victims. a < length (m_heap m1)"
    using resident_at(2) [OF memory_invD(1) [OF assms(1)]] spec(5) by auto
  moreover have "index_ok m1" using assms(2) spec(3,4,6) by (simp add: index_ok_def)
  ultimately have "index_ok (snd (count_done (remove_at now) victims m1))"
    by (intro indexed_removing.shed_indexed [OF spec(1)])
  moreover have "compact now m = updateAllFocus (snd (count_done (remove_at now) victims m1))"
    using o by (simp add: compact_def Let_def victims_def drained_def)
  ultimately show ?thesis by simp
qed

section \<open>Sequences without a retrieval over a live concept\<close>

fun calm :: "memory \<Rightarrow> memoryOp list \<Rightarrow> bool" where
  "calm m [] = True"
| "calm m (op # ops) =
     ((case op of Retrieve now t \<Rightarrow> getConcept t m = None | _ \<Rightarrow> True) \<and> calm (memory_step m op) ops)"

lemma retrieve_indexed:
  assumes "memory_inv m" "index_ok m" "getConcept t m = None"
  shows "index_ok (snd (retrieveFromArchive now t m))"
proof (cases "mc_enableArchive (m_config m)")
  case True
  have ar: "bm_inv (m_archive m)" "bm_ttlMs (m_archive m) = None"
    using memory_invD(3) [OF assms(1)] by (simp_all add: archive_ok_def)
  obtain found b where get: "lru_get now (m_archive m) t = (found, b)" by (cases "lru_get now (m_archive m) t")
  show ?thesis
  proof (cases found)
    case None
    then show ?thesis using get True assms(2) by (simp add: retrieveFromArchive_def)
  next
    case (Some a)
    then obtain e where e: "map_of (bm_entries (m_archive m)) t = Some e" "e_value e = a"
      using lru_get_archive(1) [OF ar get] by auto
    then have "cc_term (concept_at m a) = t"
      using memory_invD(3) [OF assms(1)] by (auto simp: archive_ok_def dest!: map_of_SomeD)
    then have "index_ok (adoptConcept now a (m\<lparr>m_archive := snd (bm_delete b t)\<rparr>))"
      using assms(2,3) by (intro adoptConcept_indexed) (simp_all add: concept_at_def getConcept_def)
    then show ?thesis using get True Some by (simp add: retrieveFromArchive_def)
  qed
qed (simp add: retrieveFromArchive_def assms)

lemma step_indexed:
  assumes "memory_inv m" "index_ok m" "memory_op_ok op" "calm m [op]"
  shows "index_ok (memory_step m op)"
proof (cases op)
  case (AdmitTerm ad t)
  then show ?thesis using addConcept_indexed [OF assms(1,2)] by simp
next
  case (AdmitTask ad t ty tr budget st)
  then show ?thesis
    using addConcept_indexed [OF assms(1,2), of ad t] addConcept_spec(4) [OF assms(1), of ad t] assms(3)
      memory_addTask_spec [OF assms(1), of budget ad t ty tr st]
    by (simp add: index_ok_def)
next
  case (RemoveTerm now t)
  then show ?thesis using removeConcept_indexed [OF memory_invD(1) [OF assms(1)] assms(2)] by simp
next
  case (ArchiveTerm now t)
  then show ?thesis using archiveConcept_indexed [OF memory_invD(1) [OF assms(1)] assms(2)] assms(2)
    by (simp split: option.split)
next
  case (Retrieve now t)
  then show ?thesis using retrieve_indexed [OF assms(1,2)] assms(4) by simp
next
  case (Related now t limit)
  obtain lm where "snd (getRelatedConcepts now t limit m) = m\<lparr>m_links := lm\<rparr>" using getRelated_spec [OF assms(1)] by blast
  then show ?thesis using assms(2) by (simp add: Related)
next
  case (AttendTerm t event)
  then show ?thesis using assms(2) by (simp add: attend_def split: option.split)
next
  case (Clusters now n strength)
  obtain lm where "snd (findDenseClusters now n strength m) = m\<lparr>m_links := lm\<rparr>"
    using clusters_links [OF memory_invD(5) [OF assms(1)]] unfolding findDenseClusters_def by blast
  then show ?thesis using assms(2) by (simp add: Clusters)
next
  case (SetModel model)
  then show ?thesis using assms(2) by (simp add: setAttentionModel_def index_ok_def)
next
  case (Consolidate now)
  then show ?thesis using consolidate_indexed [OF assms(1,2)] by simp
next
  case (Compact now)
  then show ?thesis using compact_indexed [OF assms(1,2)] by simp
next
  case (ClearAll now)
  then show ?thesis using assms(2) by (simp add: clear_memory_def index_ok_def newIndex_def bucket_of_def Let_def)
qed (use assms(2) in simp)

lemma steps_indexed:
  assumes "memory_inv m" "index_ok m" "list_all memory_op_ok ops" "calm m ops"
  shows "index_ok (foldl memory_step m ops)"
  using assms
proof (induction ops arbitrary: m)
  case (Cons op ops)
  have "memory_op_ok op" "calm m [op]" using Cons.prems by simp_all
  from step_indexed [OF Cons.prems(1,2) this] Cons.prems Cons.IH [of "memory_step m op"]
  show ?case using memory_step_spec [OF Cons.prems(1) \<open>memory_op_ok op\<close>] by simp
qed simp

lemma query_bucket:
  "mc_enableIndexing (m_config m) \<Longrightarrow> set (queryBySymbol symbol m) = bucket_of (ix_atomic (m_index m)) (termKey (Atom symbol))"
  by (simp add: queryBySymbol_def getByAtomic_def bucket_of_def split: option.split)

lemma newMemory_indexed: "mc_enableIndexing config \<Longrightarrow> index_ok (newMemory config model)"
  by (simp add: index_ok_def newMemory_def newIndex_def bucket_of_def)

text \<open>C20: the symbol index answers from the store. As long as no concept is retrieved from the archive
  over a live one of its term, asking for a symbol finds the resident concept whose whole term it is,
  and nothing else, after any admissions, removals, evictions and retrievals.\<close>

theorem symbol_query_exact:
  assumes "model_ok model" "0 \<le> mc_activationDecayRate config" "mc_enableIndexing config"
    and "list_all memory_op_ok ops" "calm (newMemory config model) ops"
  shows "let m = foldl memory_step (newMemory config model) ops
    in set (queryBySymbol symbol m) = set_option (getConcept (Atom symbol) m)"
proof -
  have "index_ok (foldl memory_step (newMemory config model) ops)"
    by (rule steps_indexed [OF newMemory_inv [OF assms(1,2)] newMemory_indexed [OF assms(3)] assms(4,5)])
  then show ?thesis
    by (simp add: index_ok_def query_bucket getConcept_def Let_def)
qed

section \<open>A retrieval over a live concept\<close>

text \<open>C22: a retrieval displaces a live concept and leaves it in the index. With the archive and
  indexing on, when an atomic term that has an archived concept was admitted anew, retrieving it makes the archived concept the resident one: the
  live concept with its tasks leaves the store, neither archived nor reported, while the symbol index
  goes on answering it, even once the term is removed from the memory.\<close>

theorem retrieval_displaces_live:
  assumes "memory_inv m" "index_ok m" "mc_enableArchive (m_config m)" "getConcept (Atom symbol) m = Some live"
    and "map_option e_value (map_of (bm_entries (m_archive m)) (Atom symbol)) = Some old" "old \<noteq> live"
  shows "let m' = snd (retrieveFromArchive now (Atom symbol) m); m'' = snd (removeConcept later (Atom symbol) m')
    in getConcept (Atom symbol) m' = Some old \<and> live \<notin> set (listConcepts m')
       \<and> set (queryBySymbol symbol m') = {live, old}
       \<and> getConcept (Atom symbol) m'' = None \<and> set (queryBySymbol symbol m'') = {live}"
proof -
  define key where "key = termKey (Atom symbol)"
  have ar: "bm_inv (m_archive m)" "bm_ttlMs (m_archive m) = None"
    using memory_invD(3) [OF assms(1)] by (simp_all add: archive_ok_def)
  obtain found b where get: "lru_get now (m_archive m) (Atom symbol) = (found, b)" by (cases "lru_get now (m_archive m) (Atom symbol)")
  have found: "found = Some old" using lru_get_archive(1) [OF ar get] assms(5) by simp
  obtain e where "map_of (bm_entries (m_archive m)) (Atom symbol) = Some e" "e_value e = old" using assms(5) by auto
  then have term': "cc_term (concept_at m old) = Atom symbol"
    using memory_invD(3) [OF assms(1)] by (auto simp: archive_ok_def dest!: map_of_SomeD)
  define m0 where "m0 = m\<lparr>m_archive := snd (bm_delete b (Atom symbol))\<rparr>"
  define m' where "m' = snd (retrieveFromArchive now (Atom symbol) m)"
  have m': "m' = adoptConcept now old m0" using get assms(3) found by (simp add: m'_def m0_def retrieveFromArchive_def)
  have at0: "concept_at m0 = concept_at m" by (simp add: m0_def concept_at_def fun_eq_iff)
  have cs: "m_concepts m' = AList.update key old (m_concepts m)"
    by (simp add: m' adoptConcept_concepts at0 term' key_def) (simp add: m0_def)
  have inv': "memory_inv m'" unfolding m'_def by (rule retrieve_inv(1) [OF assms(1)])
  have on: "mc_enableIndexing (m_config m)" "ix_enabled (m_index m)" using assms(2) by (simp_all add: index_ok_def)
  have ix': "m_index m' = index_add now key old (m_index m)"
    using on by (simp add: m' adoptConcept_def at0 term' key_def Let_def) (simp add: m0_def)
  have cfg': "m_config m' = m_config m" by (simp add: m') (simp add: m0_def)
  have live: "map_of (m_concepts m) key = Some live" using assms(4) by (simp add: getConcept_def key_def)
  have buckets: "bucket_of (ix_atomic (m_index m')) key = {live, old}"
    using assms(2) on live by (auto simp: ix' index_ok_def)
  have got: "getConcept (Atom symbol) m' = Some old" by (simp add: getConcept_def cs key_def update_conv')
  have gone: "live \<notin> set (listConcepts m')"
  proof
    assume "live \<in> set (listConcepts m')"
    from getConcept_own [OF memory_invD(1) [OF inv'] this]
    have "map_of (m_concepts m') (termKey (cc_term (concept_at m' live))) = Some live" by (simp add: getConcept_def)
    moreover have "termKey (cc_term (concept_at m' live)) = key"
      using getConcept_found(2) [OF memory_invD(1) [OF assms(1)] assms(4)] by (simp add: m' at0 key_def)
    ultimately show False using assms(6) by (simp add: cs update_conv')
  qed
  define m'' where "m'' = snd (removeConcept later (Atom symbol) m')"
  have "termKey (cc_term (concept_at m' old)) = key" by (simp add: m' at0 term' key_def)
  then have ix'': "m_index m'' = index_remove key old (m_index m')"
    using got on by (simp add: m''_def removeConcept_def cfg' Let_def)
  have "ix_enabled (m_index m')" by (simp add: ix' on)
  then have "bucket_of (ix_atomic (m_index m'')) key = {live}" using buckets assms(6) by (auto simp: ix'')
  then have "set (queryBySymbol symbol m'') = {live}"
    using query_bucket [of m''] on by (simp add: m''_def cfg' key_def)
  moreover have "getConcept (Atom symbol) m'' = None"
    by (simp add: m''_def getConcept_def removeConcept_concepts delete_conv')
  moreover have "set (queryBySymbol symbol m') = {live, old}" using query_bucket [of m'] on buckets by (simp add: cfg' key_def)
  ultimately show ?thesis using got gone by (simp add: m'_def [symmetric] m''_def [symmetric] Let_def)
qed

section \<open>Links read backwards\<close>

text \<open>a concept that links only point at is related to itself. The layer files a link under both its
  ends, and the lookup of related concepts reads the target of every link it gets back; so a resident
  concept that is the target of its links, however many concepts point at it, has itself as its one
  related concept, and the structural search, meant for a concept without links, does not run.\<close>

theorem pointed_at_relates_to_itself:
  assumes "memory_inv m" "getConcept t m = Some a" "getLayer DEFAULT_LAYER (m_links m) = Some ly" "0 < limit"
    and "list_all (\<lambda>e. termKey t \<in> link_keys e \<longrightarrow> le_target e = t \<and> 0 \<le> le_priority e) (layer_values ly)"
    and "list_ex (\<lambda>e. le_target e = t) (layer_values ly)"
  shows "set (fst (getRelatedConcepts now t limit m)) = {a}"
proof -
  let ?q = "\<lparr>lq_type = None, lq_minPriority = None, lq_maxResults = Some limit\<rparr>"
  have inv: "layer_inv ly" using layer_inv_of [OF memory_invD(5) [OF assms(1)]] assms(3) by (simp add: getLayer_def)
  define found where "found = fst (layer_getLinksByTerm now t (?q\<lparr>lq_maxResults := None\<rparr>) ly)"
  have set_found: "set found = touch_link now ` {e \<in> set (layer_values ly). passes ?q e \<and> termKey t \<in> link_keys e}"
    unfolding found_def by (rule lookup_spec(3) [OF inv])
  have each: "le_target e = t" if "e \<in> set found" for e
    using that assms(5) by (auto simp: set_found list_all_iff touch_link_def)
  obtain e where e: "e \<in> set (layer_values ly)" "le_target e = t" using assms(6) by (auto simp: list_ex_iff)
  then have "termKey t \<in> link_keys e" by (simp add: link_keys_def)
  have "0 \<le> le_priority e" using assms(5) e(1) \<open>termKey t \<in> link_keys e\<close> unfolding list_all_iff by blast
  then have "passes ?q e" by (simp add: passes_def)
  then have "e \<in> {e \<in> set (layer_values ly). passes ?q e \<and> termKey t \<in> link_keys e}"
    using e(1) \<open>termKey t \<in> link_keys e\<close> by blast
  then have "touch_link now e \<in> set found" unfolding set_found by (rule imageI)
  then have ne: "found \<noteq> []" by auto
  define links where "links = fst (getLinks now t None ?q (m_links m))"
  have "links = take (nat limit) found"
    using assms(3) lookup_spec(4) [OF inv, of now t ?q]
    by (simp add: links_def getLinks_def found_def capped_def case_prod_unfold)
  then have links: "links \<noteq> []" "\<And>e. e \<in> set links \<Longrightarrow> le_target e = t"
    using ne assms(4) each by (auto dest: in_set_takeD)
  have "List.map_filter (\<lambda>e. getConcept (le_target e) m) xs = map (\<lambda>_. a) xs" if "\<And>e. e \<in> set xs \<Longrightarrow> le_target e = t"
    for xs :: "unit linkEntry list"
    using that assms(2) by (induction xs) (simp_all add: List.map_filter_simps)
  from this [of links] links(2)
  have results: "List.map_filter (\<lambda>e. getConcept (le_target e) m) links = map (\<lambda>_. a) links" by simp
  have "fst (getRelatedConcepts now t limit m) = map (\<lambda>_. a) links"
    using assms(2) results links(1) by (simp add: getRelatedConcepts_def links_def case_prod_unfold Let_def)
  then show ?thesis using links(1) by (cases links) auto
qed

section \<open>Decay\<close>

text \<open>The number of cycles handed to the attention model, on an interval that ran its course: one, not
  the length of the interval. A composite may be built with a weight below zero, and then decay raises a
  concept's attention past one.\<close>

lemma elapsed_is_one: "0 < interval \<Longrightarrow> perPart (real_of_int interval) (real_of_int interval) 1 floor = 1"
  by (simp add: perPart_def)

lemma negative_weight_escapes:
  assumes "cc_priority c = 1" "0 < rate"
  shows "let model = CompositeAttention [(SimpleAttention boost, -1), (NullAttention, 2)]
    in newComposite [(SimpleAttention boost, -1), (NullAttention, 2)] = Some model
       \<and> cc_priority (decay_concept model cycles rate c) = 1 + rate"
  using assms by (simp add: newComposite_def decay_concept_def writeAttention_def forget_def safeRatio_def sumBy_def)

section \<open>Examples\<close>

theorem symbol_query_exact_witness:
  "set (queryBySymbol ''a'' (foldl memory_step (newMemory DEFAULT_MEMORY_CONFIG NullAttention)
      [AdmitTerm (admissionAt 0) (Atom ''a''), ArchiveTerm 1 (Atom ''a''), Retrieve 2 (Atom ''a'')]))
    = set_option (getConcept (Atom ''a'') (foldl memory_step (newMemory DEFAULT_MEMORY_CONFIG NullAttention)
      [AdmitTerm (admissionAt 0) (Atom ''a''), ArchiveTerm 1 (Atom ''a''), Retrieve 2 (Atom ''a'')]))"
proof -
  let ?ops = "[AdmitTerm (admissionAt 0) (Atom ''a''), ArchiveTerm 1 (Atom ''a''), Retrieve 2 (Atom ''a'')]"
  have "getConcept (Atom ''a'') (memory_step m (ArchiveTerm 1 (Atom ''a''))) = None"
    if "memory_inv m" "mc_enableArchive (m_config m)" for m
    using that getConcept_found(2) [OF memory_invD(1) [OF that(1)], of "Atom ''a''"]
    by (simp add: getConcept_def archiveConcept_concepts delete_conv' split: option.split)
  moreover have "memory_inv (newMemory DEFAULT_MEMORY_CONFIG NullAttention)" by (simp add: newMemory_inv DEFAULT_MEMORY_CONFIG_def)
  ultimately have "calm (newMemory DEFAULT_MEMORY_CONFIG NullAttention) ?ops"
    using addConcept_spec(1,4) [of "newMemory DEFAULT_MEMORY_CONFIG NullAttention" "admissionAt 0" "Atom ''a''"]
    by (simp del: memory_step.simps(4)) (simp add: newMemory_def DEFAULT_MEMORY_CONFIG_def)
  from symbol_query_exact [OF _ _ _ _ this, of "''a''"] show ?thesis
    unfolding Let_def by (simp add: DEFAULT_MEMORY_CONFIG_def)
qed

definition readmitted :: memory where
  "readmitted = foldl memory_step (newMemory DEFAULT_MEMORY_CONFIG NullAttention)
     [AdmitTerm (admissionAt 0) (Atom ''a''), ArchiveTerm 1 (Atom ''a''), AdmitTerm (admissionAt 2) (Atom ''a'')]"

lemma readmitted_facts:
  "getConcept (Atom ''a'') readmitted = Some 1"
  "map_option e_value (map_of (bm_entries (m_archive readmitted)) (Atom ''a'')) = Some 0"
  "m_config readmitted = DEFAULT_MEMORY_CONFIG"
proof -
  define m0 where "m0 = newMemory DEFAULT_MEMORY_CONFIG NullAttention"
  define c where "c = (\<lambda>now. newConcept now ''b'' ''g'' ''q'' (Atom ''a'') (mc_bag DEFAULT_MEMORY_CONFIG))"
  define m1 where "m1 = snd (addConcept (admissionAt 0) (Atom ''a'') m0)"
  have m1: "m1 = adoptConcept 0 0 (m0\<lparr>m_heap := [c 0]\<rparr>)"
    by (simp add: m1_def addConcept_new admissionAt_def getConcept_def m0_def newMemory_def memory_size_def c_def
        DEFAULT_MEMORY_CONFIG_def Let_def)
  have f1: "m_concepts m1 = [(atomKey ''a'', 0)]" "m_heap m1 = [c 0]" "m_config m1 = DEFAULT_MEMORY_CONFIG" "bm_entries (m_archive m1) = []"
    "bm_maxSize (m_archive m1) = 1000"
    by (simp_all add: m1 adoptConcept_concepts concept_at_def c_def newConcept_def)
      (simp_all add: m0_def newMemory_def newLruCache_def newBoundedMap_def boundedMap.extend_def DEFAULT_MEMORY_CONFIG_def)
  define m2 where "m2 = snd (archiveConcept 1 0 m1)"
  have f2: "m_concepts m2 = []" "m_heap m2 = [c 0]" "m_config m2 = DEFAULT_MEMORY_CONFIG"
    "map_option e_value (map_of (bm_entries (m_archive m2)) (Atom ''a'')) = Some 0"
    by (simp_all add: m2_def archiveConcept_concepts f1 concept_at_def c_def newConcept_def)
      (simp_all add: DEFAULT_MEMORY_CONFIG_def archiveConcept_def f1 concept_at_def bm_set_def bm_size_def c_def newConcept_def Let_def)
  have "readmitted = snd (addConcept (admissionAt 2) (Atom ''a'') m2)"
    by (simp add: readmitted_def m2_def m1_def [symmetric] m0_def [symmetric] getConcept_def f1)
  then have m3: "readmitted = adoptConcept 2 1 (m2\<lparr>m_heap := [c 0, c 2]\<rparr>)"
    using f2 by (simp add: addConcept_new admissionAt_def getConcept_def memory_size_def c_def DEFAULT_MEMORY_CONFIG_def Let_def)
  show "getConcept (Atom ''a'') readmitted = Some 1"
    "map_option e_value (map_of (bm_entries (m_archive readmitted)) (Atom ''a'')) = Some 0"
    "m_config readmitted = DEFAULT_MEMORY_CONFIG"
    using f2 by (simp_all add: m3 getConcept_def adoptConcept_concepts concept_at_def)
      (simp_all add: c_def newConcept_def)
qed

theorem retrieval_displaces_live_witness:
  "set (queryBySymbol ''a'' (snd (removeConcept 4 (Atom ''a'') (snd (retrieveFromArchive 3 (Atom ''a'') readmitted))))) = {1}"
proof -
  have start: "memory_inv (newMemory DEFAULT_MEMORY_CONFIG NullAttention)" "index_ok (newMemory DEFAULT_MEMORY_CONFIG NullAttention)"
    by (rule newMemory_inv newMemory_indexed; simp add: DEFAULT_MEMORY_CONFIG_def)+
  have "memory_inv readmitted" unfolding readmitted_def by (rule memory_steps [OF start(1), THEN conjunct1]) simp
  moreover have "index_ok readmitted" unfolding readmitted_def by (rule steps_indexed [OF start]) simp_all
  ultimately have inv: "memory_inv readmitted" "index_ok readmitted" .
  from retrieval_displaces_live [OF inv _ readmitted_facts(1,2), of 3 4] show ?thesis
    unfolding Let_def readmitted_facts(3) by (simp add: DEFAULT_MEMORY_CONFIG_def)
qed

end
