(* ===== verification/Confidence.thy ===== *)
theory Confidence
  imports Inference Trust Inert_Rules Operations
begin

text \<open>
  The confidence of what a cycle yields: the truth functions of the shipped table
  (\<open>terms/impls/Truth.ts\<close> under the names of \<open>rules/impls/registration.ts\<close>) bounded by their
  premises, carried through the sweep, the negation a task takes into its truth, and the loops of the
  controller. Properties of the components together; the definitions are theirs.
\<close>

section \<open>The truth functions of the table\<close>

definition bounded_truth :: "real \<Rightarrow> truth \<Rightarrow> bool" where
  "bounded_truth limit t \<longleftrightarrow> truth_inv t \<and> tc t \<le> limit"

lemma negation_bounded: "bounded_truth limit t \<Longrightarrow> bounded_truth limit (t_negation t)"
  using normalize_c_le [of "tc t" "Fin (1 - tf t)"] truth_invD(3) [of t]
  by (auto simp: bounded_truth_def t_negation_def unary_op_def)

lemma unary_bounded:
  assumes "truth_inv t"
  shows "tc (t_conversion t) \<le> tc t" "tc (t_structuralReduction t) \<le> tc t"
proof -
  note d = truth_invD [OF assms]
  have "0 \<le> tf t * tc t" "tf t * tc t \<le> tc t" using d by (simp_all add: mult_left_le_one_le)
  then show "tc (t_conversion t) \<le> tc t"
    using normalize_c_le [of "tf t * tc t" "Fin (tf t)"] by (simp add: t_conversion_def unary_op_def)
  have "tc t / (tc t + 10) \<le> tc t / 1" using d by (intro divide_left_mono) simp_all
  moreover have "softSquash (tc t) WEAKENING_FACTOR = Fin (tc t / (tc t + 10))"
    using d by (simp add: WEAKENING_FACTOR_def)
  moreover have "0 \<le> tc t / (tc t + 10)" using d by simp
  ultimately show "tc (t_structuralReduction t) \<le> tc t"
    using normalize_c_le [of "tc t / (tc t + 10)" "Fin (tf t)"] by (simp add: t_structuralReduction_def unary_op_def)
qed

lemma truth_fn_bounded:
  assumes "map_of TRUTH_FNS name = Some f" "name \<noteq> ''revision''" "bounded_truth limit t1" "bounded_truth limit t2"
  shows "bounded_truth limit (f t1 t2)"
proof -
  have t: "truth_inv t1" "truth_inv t2" "tc t1 \<le> limit" "tc t2 \<le> limit" using assms(3,4) by (simp_all add: bounded_truth_def)
  have "(name, f) \<in> set TRUTH_FNS" using assms(1) by (rule map_of_SomeD)
  then consider "f \<in> set inference_ops" | "f = (\<lambda>t1 t2. t_conversion t1)" | "f = (\<lambda>t1 t2. t_structuralReduction t1)"
    using assms(2) unfolding TRUTH_FNS_def inference_ops_def by (simp only: list.set insert_iff empty_iff prod.inject) blast
  then show ?thesis
  proof cases
    case 1
    then show ?thesis using inference_bound [OF t(1,2) 1] inference_inv [OF 1, of t1 t2] t(3)
      by (simp add: bounded_truth_def)
  next
    case 2
    then show ?thesis using unary_bounded(1) [OF t(1)] t(3) by (simp add: bounded_truth_def t_conversion_def)
  next
    case 3
    then show ?thesis using unary_bounded(2) [OF t(1)] t(3) by (simp add: bounded_truth_def t_structuralReduction_def)
  qed
qed

text \<open>Only weak revision is declared with the truth of a revision, and it concludes its first premise.\<close>

lemma revision_declared:
  "list_all (\<lambda>d. d_truthFn d = ''revision'' \<longrightarrow> d_body d = ''nal.extended:revisionWeak'') BUILTIN_DECLARATIONS"
  by code_simp

lemma shipped_truth:
  assumes "rule \<in> set (index_candidates (rt_dispatch (builtinStore c)) (term_kind (in_term p1)) (term_kind (in_term p2)))"
    and "concluded p1 p2 rule t" "admissible p1 p2 l t"
  shows "\<exists>name f. rr_truthFn rule = Some f \<and> map_of TRUTH_FNS name = Some f \<and> name \<noteq> ''revision''"
proof -
  from candidate_declared [OF assms(1) term_kind_no_colon] obtain d where
    d: "d \<in> set BUILTIN_DECLARATIONS" "rule = registered (map_of (RULE_BODIES c)) (map_of TRUTH_FNS) d" by blast
  have "d_truthFn d \<noteq> ''revision''"
  proof
    assume "d_truthFn d = ''revision''"
    then have "rr_apply rule = revisionWeak"
      using revision_declared d inert_values(2) [of c] by (simp add: list_all_iff registered_def)
    then have "t = in_term p1" using assms(2) by (auto simp: concluded_def revisionWeak_def split: option.splits if_splits)
    then show False using assms(3) by (simp add: admissible_def)
  qed
  moreover obtain f where "map_of TRUTH_FNS (d_truthFn d) = Some f" using builtin_resolves(2) [OF d(1)] by blast
  ultimately show ?thesis using d(2) by (auto simp: registered_def)
qed

section \<open>A pair\<close>

lemma try_rule_bounded:
  assumes "rule \<in> set (index_candidates (rt_dispatch (builtinStore c)) (term_kind (in_term p1)) (term_kind (in_term p2)))"
    and "bounded_truth limit (in_truth p1)" "bounded_truth limit (in_truth p2)"
    and "try_rule p1 p2 depth rule s = (rs, evs, s')" "r \<in> set rs"
  shows "bounded_truth limit (rs_truth r)"
  using assms(4)
proof (cases rule: try_rule_cases)
  case none
  then show ?thesis using assms(5) by simp
next
  case (one t s1)
  obtain name f where f: "rr_truthFn rule = Some f" "map_of TRUTH_FNS name = Some f" "name \<noteq> ''revision''"
    using shipped_truth [OF assms(1) one(1,2)] by blast
  have "rs_truth (fst (buildResult t g p1 p2 p s1)) = g (in_truth p1) (in_truth p2)" for g p
    by (simp add: buildResult_def Let_def split: prod.split)
  then have "rs_truth r = f (in_truth p1) (in_truth p2)" using one(4) assms(5) f(1) by (simp add: orElse_def)
  then show ?thesis using truth_fn_bounded [OF f(2,3) assms(2,3)] by simp
qed

lemma sweep_bounded:
  assumes "bounded_truth limit (in_truth p1)" "bounded_truth limit (in_truth p2)"
    and "set rules \<subseteq> set (index_candidates (rt_dispatch (builtinStore c)) (term_kind (in_term p1)) (term_kind (in_term p2)))"
  shows "sweep charge p1 p2 active depth rules s = Some (rs, evs, s') \<Longrightarrow> r \<in> set rs \<Longrightarrow> bounded_truth limit (rs_truth r)"
  using assms(3)
proof (induction rules arbitrary: s rs evs s')
  case (Cons rule rules)
  from Cons.prems(1) show ?case
  proof (cases rule: sweep_ConsE)
    case (tried b s1 r1 e1 s2 r2 e2)
    show ?thesis
    proof (cases "r \<in> set r1")
      case True
      have "rule \<in> set (index_candidates (rt_dispatch (builtinStore c)) (term_kind (in_term p1)) (term_kind (in_term p2)))"
        using Cons.prems(3) by simp
      from try_rule_bounded [OF this assms(1,2) tried(3) True] show ?thesis .
    next
      case False
      then show ?thesis using Cons.IH [OF tried(4)] Cons.prems(2,3) tried(5) by simp
    qed
  qed (use Cons in auto)
qed simp

lemma process_bounded:
  assumes "rp_table s = rt_dispatch (builtinStore c)" "bounded_truth limit (in_truth p1)" "bounded_truth limit (in_truth p2)"
    and "processSync charge p1 p2 s = Some (rs, evs, s')"
  shows "\<forall>r \<in> set rs. bounded_truth limit (rs_truth r)" "rp_table s' = rt_dispatch (builtinStore c)"
proof -
  let ?rules = "index_candidates (rp_table s) (term_kind (in_term p1)) (term_kind (in_term p2))"
  obtain rs0 depth where sw: "sweep charge p1 p2 (metaActive s ?rules) depth ?rules s = Some (rs0, evs, s')"
    and rs: "rs = deduplicated rs0"
    using assms(4) by (auto simp: processSync_def applySyncRules_def Let_def)
  show "rp_table s' = rt_dispatch (builtinStore c)" using sweep_results [OF sw] assms(1) by (simp add: frame_def)
  have "\<forall>r \<in> set rs0. bounded_truth limit (rs_truth r)"
    using sweep_bounded [where c = c, OF assms(2,3) _ sw] assms(1) by auto
  then show "\<forall>r \<in> set rs. bounded_truth limit (rs_truth r)" using rs deduplicated_props(2) by blast
qed

section \<open>A task takes its negations into its truth\<close>

lemma settle_bounded:
  "settle_task collate n k = Inr k' \<Longrightarrow> bounded_truth limit (task_truth k) \<Longrightarrow> bounded_truth limit (task_truth k')"
proof (induction n arbitrary: k)
  case (Suc n)
  show ?case
  proof (cases "task_applies negationIntoTruth k")
    case False
    then show ?thesis using Suc.prems settle_unapplied [of k collate n] by auto
  next
    case True
    obtain k1 where k1: "reduce_task negationIntoTruth k = Inr k1"
      using Suc.prems(1) True by (auto simp: TASK_REDUCERS_def settle_task.simps split: sum.splits)
    then have "bounded_truth limit (task_truth k1)"
      using Suc.prems(2) negation_bounded by (auto simp: negationIntoTruth_def split: list.splits)
    moreover obtain t where "settle_task collate n (k1\<lparr>task_term := t\<rparr>) = Inr k'"
      using Suc.prems(1) True k1 by (auto simp: TASK_REDUCERS_def settle_task.simps split: sum.splits)
    ultimately show ?thesis using Suc.IH by fastforce
  qed
qed (simp add: settle_task.simps)

lemma derived_bounded:
  assumes "createDerivedTask c now r typ = Inr k" "bounded_truth limit (rs_truth r)"
  shows "bounded_truth limit (task_truth k)"
  using settle_bounded [OF assms(1) [unfolded createDerivedTask_def createTask_def canonicalTask_def]] assms(2) by simp

section \<open>The loops of the controller\<close>

definition tabled :: "('b, 'm, 'c, 'r) inferencePorts \<Rightarrow> ('b, 'm, 'r) controller \<Rightarrow> bool" where
  "tabled e s \<longleftrightarrow> rp_table (ic_processor s) = rt_dispatch (builtinStore (ip_collate e))"

lemma tabled_steps [simp]:
  "tabled e (s\<lparr>ic_asked := n\<rparr>) = tabled e s" "tabled e (s\<lparr>ic_memory := mem\<rparr>) = tabled e s" "tabled e (s\<lparr>ic_rng := r\<rparr>) = tabled e s"
  "tabled e (s\<lparr>ic_circular := d\<rparr>) = tabled e s" "tabled e (s\<lparr>ic_derivationCount := n\<rparr>) = tabled e s"
  "tabled e (s\<lparr>ic_emitted := n\<rparr>) = tabled e s"
  by (simp_all add: tabled_def)

lemma charge_tabled: "charge_scope e sc s = Some (g, s') \<Longrightarrow> tabled e s' = tabled e s"
  by (auto simp: charge_scope_def tabled_def)

lemma spent_tabled: "derivationBudgetSpent e s = Some (g, s') \<Longrightarrow> tabled e s' = tabled e s"
  by (auto simp: derivationBudgetSpent_def dest: charge_tabled split: if_splits)

lemma circular_tabled: "isCircular k s = (c, s') \<Longrightarrow> tabled e s' = tabled e s"
  by (auto simp: isCircular_def split: if_splits prod.splits)

lemma ask_tabled: "ask e s = (h, s') \<Longrightarrow> tabled e s' = tabled e s"
  by (auto simp: ask_def)

lemma admit_tabled:
  assumes "admit_derived e m k s = Some (out, stop, s')"
  shows "set out \<subseteq> {k} \<and> tabled e s' = tabled e s"
proof -
  obtain h s1 where s1: "ask e s = (h, s1)" by (cases "ask e s")
  obtain c s2 where s2: "isCircular k s1 = (c, s2)" by (cases "isCircular k s1")
  have t: "tabled e s1 = tabled e s" "tabled e s2 = tabled e s" using ask_tabled [OF s1] circular_tabled [OF s2] by auto
  show ?thesis
  proof (cases "h \<or> exceedsDepthLimit k (cf_maxDerivationDepth (ic_config s1)) \<or> c")
    case True
    then show ?thesis using assms s1 s2 t by (cases h) (auto simp: admit_derived_def split: if_splits)
  next
    case False
    then show ?thesis using assms s1 s2 t
      by (auto simp: admit_derived_def Let_def dest!: spent_tabled split: if_splits)
  qed
qed

lemma read_bounded:
  assumes "read_results e m rs s = Some (out, stop, s')" "\<forall>r \<in> set rs. bounded_truth limit (rs_truth r)"
  shows "(\<forall>k \<in> set out. bounded_truth limit (task_truth k)) \<and> tabled e s' = tabled e s"
  using assms
proof (induction rs arbitrary: s out)
  case (Cons r rs)
  then obtain k where k: "createDerivedTask (ip_collate e) (ip_now e) r BeliefType = Inr k" by (auto split: sum.splits)
  then obtain o1 st1 s1 where a: "admit_derived e m k s = Some (o1, st1, s1)"
    using Cons.prems(1) by (auto split: option.splits)
  have b: "bounded_truth limit (task_truth k)" using derived_bounded [OF k] Cons.prems(2) by simp
  show ?case
  proof (cases st1)
    case True
    then show ?thesis using admit_tabled [OF a] b Cons.prems(1) k a by auto
  next
    case False
    then obtain o2 where o2: "read_results e m rs s1 = Some (o2, stop, s')" "out = o1 @ o2"
      using Cons.prems(1) k a by auto
    then show ?thesis using admit_tabled [OF a] b Cons.IH [OF o2(1)] Cons.prems(2) by auto
  qed
qed auto

lemma pairs_bounded:
  assumes "derive_pairs e m p1 ks s = Some (out, stop, s')" "tabled e s" "bounded_truth limit (in_truth p1)"
    and "\<forall>k \<in> set ks. bounded_truth limit (task_truth k)"
  shows "(\<forall>k \<in> set out. bounded_truth limit (task_truth k)) \<and> tabled e s'"
  using assms(1,2,4)
proof (induction ks arbitrary: s out)
  case (Cons k ks)
  obtain h s1 where s1: "ask e s = (h, s1)" by (cases "ask e s")
  then have t1: "tabled e s1" using ask_tabled Cons.prems(2) by blast
  show ?case
  proof (cases h)
    case True
    then show ?thesis using t1 s1 Cons.prems(1) by auto
  next
    case False
    then obtain results evs pr where p: "processSync (ip_charge e) p1 (toRuleInput k) (ic_processor s1) = Some (results, evs, pr)"
      using s1 Cons.prems(1) by (auto split: option.splits)
    then obtain o1 st1 s2 where r: "read_results e m results (s1\<lparr>ic_processor := pr\<rparr>) = Some (o1, st1, s2)"
      using s1 False Cons.prems(1) by (auto split: option.splits)
    have "bounded_truth limit (in_truth (toRuleInput k))" using Cons.prems(3) by (simp add: toRuleInput_def)
    note pb = process_bounded [OF t1 [unfolded tabled_def] assms(3) this p]
    have "tabled e (s1\<lparr>ic_processor := pr\<rparr>)" using pb(2) by (simp add: tabled_def)
    with read_bounded [OF r pb(1)] have o1: "\<forall>k \<in> set o1. bounded_truth limit (task_truth k)" "tabled e s2" by auto
    show ?thesis
    proof (cases st1)
      case True
      then show ?thesis using o1 Cons.prems(1) s1 False p r by auto
    next
      case st1: False
      then obtain o2 where o2: "derive_pairs e m p1 ks s2 = Some (o2, stop, s')" "out = o1 @ o2"
        using Cons.prems(1) s1 False p r by auto
      then show ?thesis using o1 Cons.IH [OF o2(1)] Cons.prems(3) by auto
    qed
  qed
qed auto

text \<open>What a memory must supply: tasks whose truths are within the limit.\<close>

definition supplies_bounded :: "real \<Rightarrow> ('b, 'm, 'c, 'r) inferencePorts \<Rightarrow> bool" where
  "supplies_bounded limit e \<longleftrightarrow>
     (\<forall>mem c k. ip_beliefTask e mem c = Some k \<longrightarrow> bounded_truth limit (task_truth k))
     \<and> (\<forall>k mem. \<forall>k' \<in> set (ip_selectSecondary e k mem). bounded_truth limit (task_truth k'))
     \<and> (\<forall>k ks r. set (fst (ip_arrange e k ks r)) \<subseteq> set ks)"

lemma concepts_bounded:
  assumes "cycle_concepts e m cs s = Some (out, s')" "tabled e s" "supplies_bounded limit e"
  shows "\<forall>k \<in> set out. bounded_truth limit (task_truth k)"
  using assms(1,2)
proof (induction cs arbitrary: s out)
  case (Cons c cs)
  obtain h s1 where s1: "ask e s = (h, s1)" by (cases "ask e s")
  then have t1: "tabled e s1" using ask_tabled Cons.prems(2) by blast
  show ?case
  proof (cases "h \<or> int (ic_emitted s1) \<ge> m")
    case True
    then show ?thesis using s1 Cons.prems(1) by auto
  next
    case go: False
    define s2 where "s2 = s1\<lparr>ic_memory := ip_prime e c (ic_memory s1)\<rparr>"
    have t2: "tabled e s2" using t1 by (simp add: s2_def)
    show ?thesis
    proof (cases "ip_beliefTask e (ic_memory s2) c")
      case None
      then have "cycle_concepts e m cs s2 = Some (out, s')" using Cons.prems(1) s1 go by (simp add: s2_def)
      then show ?thesis using Cons.IH t2 by blast
    next
      case (Some task)
      then have b: "bounded_truth limit (in_truth (toRuleInput task))"
        using assms(3) by (simp add: supplies_bounded_def toRuleInput_def)
      obtain g s3 where ch: "charge_scope e ''premises'' s2 = Some (g, s3)"
        using Cons.prems(1) s1 go Some by (auto simp: s2_def Let_def split: option.splits)
      then have t3: "tabled e s3" using charge_tabled t2 by blast
      show ?thesis
      proof (cases g)
        case False
        then show ?thesis using Cons.prems(1) s1 go Some ch by (auto simp: s2_def Let_def)
      next
        case g: True
        obtain ss r where ar: "ip_arrange e task (ip_selectSecondary e task (ic_memory s3)) (ic_rng s3) = (ss, r)" by fastforce
        then have "set ss \<subseteq> set (ip_selectSecondary e task (ic_memory s3))"
          using assms(3) unfolding supplies_bounded_def by (metis fst_conv)
        then have ns: "\<forall>k \<in> set ss. bounded_truth limit (task_truth k)"
          using assms(3) unfolding supplies_bounded_def by blast
        obtain o1 st s4 where d: "derive_pairs e m (toRuleInput task) ss (s3\<lparr>ic_rng := r\<rparr>) = Some (o1, st, s4)"
          using Cons.prems(1) s1 go Some ch g ar by (auto simp: s2_def Let_def split: option.splits)
        have "tabled e (s3\<lparr>ic_rng := r\<rparr>)" using t3 by simp
        from pairs_bounded [OF d this b ns]
        have o1: "\<forall>k \<in> set o1. bounded_truth limit (task_truth k)" "tabled e s4" by auto
        show ?thesis
        proof (cases st)
          case True
          then show ?thesis using o1 Cons.prems(1) s1 go Some ch g ar d by (auto simp: s2_def Let_def)
        next
          case st: False
          then obtain o2 where o2: "cycle_concepts e m cs s4 = Some (o2, s')" "out = o1 @ o2"
            using Cons.prems(1) s1 go Some ch g ar d by (auto simp: s2_def Let_def)
          then show ?thesis using o1 Cons.IH by auto
        qed
      qed
    qed
  qed
qed auto

lemma cycle_bounded:
  assumes "inference_cycle e m s = Some (out, s')" "rp_table (ic_processor s) = rt_dispatch (builtinStore (ip_collate e))"
    and "supplies_bounded limit e"
  shows "\<forall>k \<in> set out. bounded_truth limit (task_truth k)"
  using assms(1) unfolding inference_cycle_def Let_def
  by (rule concepts_bounded) (use assms(2,3) in \<open>simp_all add: tabled_def\<close>)

text \<open>The bound needs the table to hold the shipped rules only. A meta rule, once registered, states its
  own truth, whatever its premises: a confidence of 8/10, above what every source quality
  but the primary one grants.\<close>

lemma meta_truth_fixed:
  assumes "rule \<in> set (buildMetaRules c)" "q \<notin> {Primary}"
  shows "\<exists>f. rr_truthFn rule = Some f \<and> SOURCE_QUALITY_CONFIDENCE q < tc (f t1 t2)"
  using assms by (cases q) (auto simp: buildMetaRules_def metaRule_def META_RULE_TRUTH_def)

end
