(* ===== verification/Spec2Isabelle.thy ===== *)
theory Spec2Isabelle
  imports Prelude Numeric Collections Bounded_Map Caches Budget Thread Budget_Gate Action_Gate Trust
    Truth_Values Stamps Verifier Proposals Rule_Table Producer
    Unify Terms Intern Reduce Reduce_Intern Claims Term_Unify Unify_Memo
    Fenwick Randomness Bag Nal_Rules Nal_Typing Rule_Set Nal_Sound Processor Inference Operations Inert_Rules Concept
    Links Memory Memory_Inv Memory_Index Confidence
begin

text \<open>
  SENARS is a reasoner in TypeScript: a Non-Axiomatic Reasoning engine (\<open>nar/src\<close>) over
  a kernel of gates, with a shared core of budgets, threads, schemas and a derivation verifier
  (\<open>core/src\<close>) and a utility layer (\<open>util/src\<close>). This development models the parts
  of it that decide: what may be spent, what may be done, what may be believed and how strongly,
  what a derivation proves, and how the rule set changes.

  How the parts interact. A cycle of the engine opens the declared budget scopes, selects
  premises, applies rules (a rule computes a truth from its premises' truths and a stamp from
  their stamps), and in its authorize stage admits what was derived and what a model-backed
  producer settled; every admission of a proposal goes through the lifecycle, which keeps the log,
  and a learned rule goes on into the rule table, which rebuilds the dispatch index. The verifier
  checks records of derivations outside the engine, with a truth table of its own.

  The theories, in the order of the code they model:

  \<^item> \<open>Prelude\<close>: JavaScript numbers with their infinities and \<open>NaN\<close>, insertion-ordered
    maps, the stable sort, list lemmas; the collections \<open>inv_intros\<close> and \<open>frame_simps\<close>.
  \<^item> \<open>Numeric\<close>, \<open>Collections\<close>, \<open>Bounded_Map\<close>, \<open>Caches\<close>: the utility layer
    (\<open>util/src/utils\<close>): ratios and clamps, bounded selection and ranking, grouping, the
    bounded ring, the bounded map with its eviction orders and expiry, and on it the LRU cache, the
    sliding-window rate limiter, the call tallies and the kernel's thread scope. Interfaces:
    \<open>score_order\<close> (any order the bounded selection may use), \<open>keyed_store\<close> (what
    \<open>getOrInsert\<close> and \<open>accumulate\<close> ask of a store), \<open>bounded_container\<close>.
  \<^item> \<open>Budget\<close>, \<open>Thread\<close>: reasoning budgets, slices, allocation and exhaustion
    (\<open>core/src/budget.ts\<close>), cognitive threads with mailboxes, spawn, join, kill and the
    pool (\<open>core/src/cognitive-thread.ts\<close>).
  \<^item> \<open>Budget_Gate\<close>, \<open>Action_Gate\<close>, \<open>Trust\<close>: the kernel's gates
    (\<open>nar/src/kernel\<close>): the budget gate and the control budgets of a cycle (interface
    \<open>control_budget_port\<close>), autonomy modes and authorisation, the confidence ceilings,
    source reputation (interface \<open>ceiling_reputation\<close>) and the reward firewall.
  \<^item> \<open>Truth_Values\<close>, \<open>Stamps\<close>, \<open>Verifier\<close>: the truth algebra over the reals
    (\<open>nar/src/terms/impls/Truth.ts\<close>), evidential stamps with their 32-bit identifier
    counter (\<open>Stamp.ts\<close>), and the verifier (\<open>core/src/verify-derivation.ts\<close>).
  \<^item> \<open>Proposals\<close>, \<open>Rule_Table\<close>, \<open>Producer\<close>: the proposal lifecycle and the
    replay of its log (\<open>nar/src/proposal\<close>; interface \<open>event_sourced\<close>), the rule table
    with history and dispatch (\<open>nar/src/rules/impls\<close>), and the boundary at which settled
    work is admitted.
  \<^item> \<open>Unify\<close>, \<open>Unify_Memo\<close>: the generic unifier (\<open>util/src/utils/unify.ts\<close>) over
    a dialect, with its memo. \<open>Terms\<close>, \<open>Intern\<close>, \<open>Reduce\<close>, \<open>Reduce_Intern\<close>,
    \<open>Claims\<close>, \<open>Term_Unify\<close>: the Narsese terms (\<open>nar/src/terms\<close>), their keys and interning, the
    reducers and the canonical form they specify, the canonicalisation of the code over the intern
    cache and the memo, the canonical form of a task, and the dialect of terms on the unifier. Two
    terms can share a key, and the intern cache then answers one for the other; where the keys of the
    compounds involved are apart, the code's canonicalisation is proved to compute the canonical form
    \<open>canonicalTerm\<close> of \<open>Reduce\<close>. The rule bodies, tasks and operations of this development are
    composed with that form, so what is shown of them is shown where keys are apart.
  \<^item> \<open>Fenwick\<close>, \<open>Randomness\<close>, \<open>Bag\<close>, \<open>Concept\<close>: the prefix-sum tree and the
    priority bag on it (\<open>util/src/bag\<close>), the seeded generators and weighted draws
    (\<open>util/src/utils/random.ts\<close>), and the concept with its three bags
    (\<open>nar/src/memory/concept.ts\<close>).
  \<^item> \<open>Links\<close>, \<open>Memory\<close>, \<open>Memory_Inv\<close>, \<open>Memory_Index\<close>: the association links in
    their layers (\<open>nar/src/memory/links\<close>), and the memory (\<open>memory.ts\<close>, \<open>focus.ts\<close>,
    \<open>memory-index.ts\<close>, \<open>lifecycle\<close>, \<open>pressure\<close>, \<open>strategies/attention\<close>), whose
    concepts are objects in a heap that store, focus, index and archive share; its invariant under any
    sequence of operations, eviction under pressure (interface \<open>shedding\<close>, for the two ways a concept
    leaves the store), and the symbol index against the store.
  \<^item> \<open>Nal_Rules\<close>, \<open>Nal_Typing\<close>, \<open>Nal_Sound\<close>, \<open>Rule_Set\<close>, \<open>Inert_Rules\<close>: the
    bodies of the inference rules (\<open>nar/src/rules/nal\<close>, \<open>rules/extended\<close>), the typing of
    what they conclude, a model theory in which each shipped rule is shown truth preserving or not,
    the shipped declarations as a table, and the shipped rules that never conclude anything.
  \<^item> \<open>Processor\<close>, \<open>Operations\<close>, \<open>Inference\<close>: the rule processor
    (\<open>rules/impls/processor.ts\<close>), operation terms and the meta rules, and the inference cycle
    (\<open>reason/inference-controller.ts\<close>), which is composed of the processor, the rule table, the
    canonicalisation of tasks, the stamps and the control budgets. \<open>Confidence\<close>: the bound on the
    confidence of what a cycle yields, which this theory joins with the ceilings of \<open>Trust\<close>.

  Names follow the code; a prefix (\<open>bm_\<close>, \<open>ts_\<close>, \<open>cb_\<close>, \<open>l_\<close>,
  \<open>p_\<close>) marks fields and methods that several classes share. A class is a record and a
  method a function that returns the updated record; a throw is \<open>None\<close> or the left of a
  sum; an optional value is an option; a \<open>Map\<close> or \<open>Set\<close> is a list in insertion
  order, since eviction and iteration depend on it. Numbers that only enter ordered arithmetic
  are reals or integers; the stamp counter, which wraps, is a 32-bit word. Clocks, random draws
  and minted identifiers are arguments.

  What the lemmas show: each component's operations on every branch and its invariant; each
  interface's client lemmas, proved once under the interface's laws and used through the
  interpretation on the model; and the properties, stated as theorems with a description in
  front of each. Several properties record where the code does less than its own documentation
  says: the verifier throws on names every object inherits, a proposal log carries no rule
  declarations, an unresolved rule body loses the boundary it is in, stamps do not overlap their
  own conclusions.

  Bounds and fuel. Loops of the modelled code are structural or have a measure, except where the code
  itself bounds them: the unifier stops at its depth of 64, the canonicalisation at its eight passes
  and the canonical task at its four, and the theorems show when these suffice. Only structural
  comparison and the application of a substitution, which recurse along data the source does not
  bound, carry fuel; \<open>None\<close> is then the call that does not return, and the theorems state that
  the comparison always returns and which substitutions make the application run for ever.

  Not modelled: parsing of terms and the generated parser, the embedding layer of the memory and its
  persistence, episodic memory, the remaining stages of the engine's cycle, the
  asynchronous perception gate, the MeTTa interpreter, language-model providers and the staging of
  model-backed rules, transport, persistence, the user interfaces and the scripts. The zod schemas
  are modelled as the types of the records; where their rejection matters it is an argument or an
  explicit predicate.
\<close>

section \<open>From provenance to conclusion\<close>

text \<open>C27: the ceiling of a source survives inference. If the truths a memory supplies to a cycle are
  within the confidence their provenance grants, then with the shipped table, the meta rules not
  registered, every task the cycle yields is within it again, and so within the ceiling of the
  quality: no rule of the table, and no negation a task takes into its truth, leads beyond it. The
  reputation floor and the scaling of the source lie in [0,1]. The revision of beliefs in a concept,
  which pools evidence, is not part of a cycle.\<close>

theorem ceiling_survives_inference:
  assumes "\<And>s. rep = Some s \<Longrightarrow> 0 \<le> sr_floor s \<and> sr_floor s \<le> 1"
    and "\<And>k. cl_scaledBy limits = Some k \<Longrightarrow> 0 \<le> k \<and> k \<le> 1"
    and "loadBuiltinTable (ip_collate e) = Inr st" "rp_table (ic_processor s) = rt_dispatch st"
    and "supplies_bounded (fst (confidenceCeiling effectiveCeiling rep q limits)) e"
    and "inference_cycle e m s = Some (out, s')"
  shows "list_all (\<lambda>k. truth_inv (task_truth k)
      \<and> tc (task_truth k) \<le> fst (confidenceCeiling effectiveCeiling rep q limits)
      \<and> tc (task_truth k) \<le> SOURCE_QUALITY_CONFIDENCE q) out"
proof -
  have "fst (confidenceCeiling effectiveCeiling rep q limits) \<le> SOURCE_QUALITY_CONFIDENCE q"
    using assms(1,2) by (rule reputation.ceiling_bounded(2))
  moreover have "rp_table (ic_processor s) = rt_dispatch (builtinStore (ip_collate e))"
    using assms(3,4) by (simp add: loadBuiltinTable_store)
  with cycle_bounded [OF assms(6) _ assms(5)] show ?thesis
    using calculation by (force simp: list_all_iff bounded_truth_def)
qed

lemma ceiling_survives_inference_witness:
  "\<exists>out s'. inference_cycle (example_ports (cb_charge ''c'')) 5 (example_controller one_derivation) = Some (out, s')
     \<and> list_all (\<lambda>k. tc (task_truth k) \<le> 9/10) out"
proof -
  let ?e = "example_ports (cb_charge ''c'')" and ?s = "example_controller one_derivation"
  let ?limits = "\<lparr>cl_sourceKey = None, cl_atMost = None, cl_scaledBy = None\<rparr>"
  have c: "fst (confidenceCeiling effectiveCeiling None Primary ?limits) = 9/10"
    by (simp add: confidenceCeiling_def)
  have supplies: "supplies_bounded (fst (confidenceCeiling effectiveCeiling None Primary ?limits)) ?e"
    unfolding c by (auto simp: supplies_bounded_def bounded_truth_def example_ports_def example_task_def truth_inv_def
        TRUE_TRUTH_def MAX_CONFIDENCE_def DefaultDerivation_def)
  have table: "rp_table (ic_processor ?s) = rt_dispatch (builtinStore (ip_collate ?e))"
    by (simp add: example_controller_def example_processor_def example_ports_def)
  obtain out s' where r: "inference_cycle ?e 5 ?s = Some (out, s')" using example_cycle by blast
  from ceiling_survives_inference [where rep = None and q = Primary and limits = ?limits,
      OF _ _ loadBuiltinTable_store table supplies r]
  have "list_all (\<lambda>k. tc (task_truth k) \<le> 9/10) out" unfolding c by (auto simp: list_all_iff)
  with r show ?thesis by blast
qed

end
